(* ===== verification/Prelude.thy ===== *)
theory Prelude
  imports Main "HOL-Library.Word" "HOL-Library.AList" "HOL-Library.List_Lexorder"
    "HOL-Library.Product_Lexorder" "HOL-Library.Multiset"
begin

text \<open>
  What every component of the development shares: the names of Rust's machine integers, Rust
  strings as lists of Unicode scalar values, \<open>HashMap\<close> as an association list whose order is the
  (unspecified) iteration order, the \<open>Result\<close> type as a sum, and \<open>Iterator::try_fold\<close>.
\<close>

section \<open>Machine integers and strings\<close>

type_synonym u8 = "8 word"
type_synonym u32 = "32 word"
type_synonym u64 = "64 word"
type_synonym usize = "64 word"
type_synonym uuid = "128 word"

text \<open>
  A Rust \<open>str\<close> is a sequence of Unicode scalar values. Its byte order is the order of the code
  points, and prefixes of the bytes at character boundaries are prefixes of the code points, so a
  list of code points represents comparison and \<open>starts_with\<close> exactly.
\<close>

type_synonym rstring = "nat list"

definition lit :: "string \<Rightarrow> rstring" where
  "lit s = map of_char s"

text \<open>\<open>char::is_whitespace\<close>: the Unicode property \<open>White_Space\<close>.\<close>

definition is_whitespace :: "nat \<Rightarrow> bool" where
  "is_whitespace c \<longleftrightarrow> (9 \<le> c \<and> c \<le> 13) \<or> c = 32 \<or> c = 133 \<or> c = 160 \<or> c = 5760
     \<or> (8192 \<le> c \<and> c \<le> 8202) \<or> c = 8232 \<or> c = 8233 \<or> c = 8239 \<or> c = 8287 \<or> c = 12288"

text \<open>Evaluation decides most characters without the large code points.\<close>

lemma is_whitespace_code [code]:
  "is_whitespace c \<longleftrightarrow>
     (if c < 128 then (9 \<le> c \<and> c \<le> 13) \<or> c = 32
      else c = 133 \<or> c = 160 \<or> c = 5760 \<or> (8192 \<le> c \<and> c \<le> 8202) \<or> c = 8232 \<or> c = 8233
        \<or> c = 8239 \<or> c = 8287 \<or> c = 12288)"
  by (auto simp: is_whitespace_def)

definition str_trim :: "rstring \<Rightarrow> rstring" where
  "str_trim s = rev (dropWhile is_whitespace (rev (dropWhile is_whitespace s)))"

fun starts_with :: "rstring \<Rightarrow> rstring \<Rightarrow> bool" where
  "starts_with s [] = True"
| "starts_with [] (p # ps) = False"
| "starts_with (c # cs) (p # ps) = (c = p \<and> starts_with cs ps)"

lemma starts_with_append: "starts_with s p \<longleftrightarrow> (\<exists>t. s = p @ t)"
  by (induction s p rule: starts_with.induct) auto

text \<open>\<open>slice::join\<close>.\<close>

fun join_with :: "rstring \<Rightarrow> rstring list \<Rightarrow> rstring" where
  "join_with sep [] = []"
| "join_with sep [x] = x"
| "join_with sep (x # y # ys) = x @ sep @ join_with sep (y # ys)"

lemma dropWhile_head_not: "dropWhile P xs = y # ys \<Longrightarrow> \<not> P y"
  by (metis hd_dropWhile list.discI list.sel(1))

lemma str_trim_ends:
  assumes "str_trim s \<noteq> []"
  shows "\<not> is_whitespace (hd (str_trim s))" and "\<not> is_whitespace (last (str_trim s))"
proof -
  let ?d = "dropWhile is_whitespace s"
  have ne: "dropWhile is_whitespace (rev ?d) \<noteq> []"
    using assms by (simp add: str_trim_def)
  then show "\<not> is_whitespace (last (str_trim s))"
    using hd_dropWhile [OF ne] by (simp add: str_trim_def last_rev)
  obtain us where us: "rev ?d = us @ dropWhile is_whitespace (rev ?d)"
    by (metis takeWhile_dropWhile_id)
  then have "?d = rev (dropWhile is_whitespace (rev ?d)) @ rev us"
    by (metis rev_append rev_rev_ident)
  then have d: "?d = str_trim s @ rev us"
    by (simp add: str_trim_def)
  then have "?d \<noteq> []" "hd ?d = hd (str_trim s)"
    using assms by (auto simp: hd_append)
  then show "\<not> is_whitespace (hd (str_trim s))"
    using hd_dropWhile [of is_whitespace s] by simp
qed

lemma str_trim_id:
  assumes "s = [] \<or> (\<not> is_whitespace (hd s) \<and> \<not> is_whitespace (last s))"
  shows "str_trim s = s"
proof (cases "s = []")
  case False
  then have "dropWhile is_whitespace s = s" "dropWhile is_whitespace (rev s) = rev s"
    using assms by (auto simp: dropWhile_eq_self_iff hd_rev)
  then show ?thesis by (simp add: str_trim_def)
qed (simp add: str_trim_def)

lemma str_trim_idem [simp]: "str_trim (str_trim s) = str_trim s"
  by (metis str_trim_ends str_trim_id)

section \<open>HashMap as an association list\<close>

text \<open>
  A \<open>HashMap\<close> is an association list with distinct keys; the list's order is the order in which
  the map is iterated, which Rust does not specify. Facts about iteration are proved for every list
  with distinct keys, hence for every iteration order.
\<close>

type_synonym ('k, 'v) hashmap = "('k \<times> 'v) list"

abbreviation hm_get :: "('k, 'v) hashmap \<Rightarrow> 'k \<Rightarrow> 'v option" where
  "hm_get \<equiv> map_of"

abbreviation hm_wf :: "('k, 'v) hashmap \<Rightarrow> bool" where
  "hm_wf m \<equiv> distinct (map fst m)"

declare map_of_eq_Some_iff [simp del] Some_eq_map_of_iff [simp del]

definition hm_insert :: "'k \<Rightarrow> 'v \<Rightarrow> ('k, 'v) hashmap \<Rightarrow> ('k, 'v) hashmap" where
  "hm_insert k v m = AList.update k v m"

definition hm_remove :: "'k \<Rightarrow> ('k, 'v) hashmap \<Rightarrow> ('k, 'v) hashmap" where
  "hm_remove k m = AList.delete k m"

definition hm_contains :: "('k, 'v) hashmap \<Rightarrow> 'k \<Rightarrow> bool" where
  "hm_contains m k \<longleftrightarrow> hm_get m k \<noteq> None"

named_theorems hm_facts \<open>lookups, keys and well-formedness after a HashMap update\<close>

lemma hm_get_insert [hm_facts, simp]: "hm_get (hm_insert k v m) = (hm_get m)(k \<mapsto> v)"
  by (simp add: hm_insert_def update_conv')

lemma hm_get_remove [hm_facts, simp]: "hm_get (hm_remove k m) = (hm_get m)(k := None)"
  by (simp add: hm_remove_def delete_conv')

lemma hm_wf_insert [hm_facts, simp]: "hm_wf m \<Longrightarrow> hm_wf (hm_insert k v m)"
  by (simp add: hm_insert_def distinct_update)

lemma hm_wf_remove [hm_facts, simp]: "hm_wf m \<Longrightarrow> hm_wf (hm_remove k m)"
  by (simp add: hm_remove_def distinct_delete)

lemma hm_keys_insert [hm_facts]: "fst ` set (hm_insert k v m) = insert k (fst ` set m)"
  by (metis dom_map_of_conv_image_fst dom_fun_upd hm_get_insert option.distinct(1))

lemma hm_insert_new: "k \<notin> fst ` set m \<Longrightarrow> hm_insert k v m = m @ [(k, v)]"
  by (induction m) (auto simp: hm_insert_def)

lemma hm_contains_iff [hm_facts]: "hm_contains m k \<longleftrightarrow> k \<in> fst ` set m"
  by (simp add: hm_contains_def map_of_eq_None_iff)

lemma hm_get_in: "hm_wf m \<Longrightarrow> (k, v) \<in> set m \<longleftrightarrow> hm_get m k = Some v"
  by (metis map_of_SomeD map_of_eq_Some_iff)

text \<open>Two lists for the same map: what an iteration order cannot tell apart.\<close>

definition hm_same :: "('k, 'v) hashmap \<Rightarrow> ('k, 'v) hashmap \<Rightarrow> bool" where
  "hm_same a b \<longleftrightarrow> hm_wf a \<and> hm_wf b \<and> hm_get a = hm_get b"

lemma hm_same_refl [simp]: "hm_same a a \<longleftrightarrow> hm_wf a"
  by (simp add: hm_same_def)

lemma hm_same_set: "hm_same a b \<Longrightarrow> set a = set b"
proof -
  assume same: "hm_same a b"
  have wf: "hm_wf a" "hm_wf b" and eq: "hm_get a = hm_get b"
    using same unfolding hm_same_def by blast+
  have "(k, v) \<in> set a \<longleftrightarrow> (k, v) \<in> set b" for k v
    unfolding hm_get_in [OF wf(1)] hm_get_in [OF wf(2)] eq ..
  then show "set a = set b" by (simp add: set_eq_iff)
qed

lemma hm_same_length: "hm_same a b \<Longrightarrow> length a = length b"
proof -
  assume same: "hm_same a b"
  have "length a = card (fst ` set a)" "length b = card (fst ` set b)"
    using same distinct_card [of "map fst a"] distinct_card [of "map fst b"]
    unfolding hm_same_def by simp_all
  then show "length a = length b" using hm_same_set [OF same] by simp
qed

lemma hm_same_insert: "hm_same a b \<Longrightarrow> hm_same (hm_insert k v a) (hm_insert k v b)"
  unfolding hm_same_def hm_get_insert by (elim conjE) (intro conjI hm_wf_insert, assumption+, simp)

section \<open>Results\<close>

text \<open>\<open>Result<T, E>\<close> is \<open>'e + 'a\<close>: \<open>Inl\<close> is \<open>Err\<close>, \<open>Inr\<close> is \<open>Ok\<close>.\<close>

fun rbind :: "'e + 'a \<Rightarrow> ('a \<Rightarrow> 'e + 'b) \<Rightarrow> 'e + 'b" where
  "rbind (Inl e) f = Inl e"
| "rbind (Inr a) f = f a"

definition map_err :: "('e \<Rightarrow> 'f) \<Rightarrow> 'e + 'a \<Rightarrow> 'f + 'a" where
  "map_err f r = map_sum f id r"

lemma map_err_simps [simp]: "map_err f (Inl e) = Inl (f e)" "map_err f (Inr a) = Inr a"
  by (simp_all add: map_err_def)

lemma map_err_Inr_iff [simp]: "map_err f r = Inr a \<longleftrightarrow> r = Inr a"
  by (cases r) auto

lemma rbind_Inr_iff: "rbind r f = Inr b \<longleftrightarrow> (\<exists>a. r = Inr a \<and> f a = Inr b)"
  by (cases r) auto

text \<open>\<open>Iterator::try_fold\<close>: stops at the first \<open>Err\<close>.\<close>

fun try_fold :: "('s \<Rightarrow> 'x \<Rightarrow> 'e + 's) \<Rightarrow> 's \<Rightarrow> 'x list \<Rightarrow> 'e + 's" where
  "try_fold f s [] = Inr s"
| "try_fold f s (x # xs) = (case f s x of Inl e \<Rightarrow> Inl e | Inr s' \<Rightarrow> try_fold f s' xs)"

lemma try_fold_invariant:
  assumes "try_fold f s xs = Inr s'" and "I s"
    and "\<And>s x s'. I s \<Longrightarrow> x \<in> set xs \<Longrightarrow> f s x = Inr s' \<Longrightarrow> I s'"
  shows "I s'"
  using assms
proof (induction xs arbitrary: s)
  case (Cons x xs)
  from Cons.prems(1) obtain t where t: "f s x = Inr t" "try_fold f t xs = Inr s'"
    by (auto split: sum.splits)
  have "I t" by (rule Cons.prems(3) [OF Cons.prems(2) _ t(1)]) simp
  then show ?case by (rule Cons.IH [OF t(2)]) (use Cons.prems(3) in auto)
qed simp

lemma try_fold_append:
  "try_fold f s (xs @ ys) = rbind (try_fold f s xs) (\<lambda>s'. try_fold f s' ys)"
  by (induction xs arbitrary: s) (auto split: sum.splits)

text \<open>Collecting an iterator of results: the first error, or all the values in order.\<close>

fun collect_results :: "('e + 'a) list \<Rightarrow> 'e + 'a list" where
  "collect_results [] = Inr []"
| "collect_results (r # rs) =
     (case r of Inl e \<Rightarrow> Inl e
      | Inr a \<Rightarrow> (case collect_results rs of Inl e \<Rightarrow> Inl e | Inr as \<Rightarrow> Inr (a # as)))"

lemma collect_results_map_Inr [simp]: "collect_results (map Inr xs) = Inr xs"
  by (induction xs) auto

lemma collect_results_Inr_iff: "collect_results rs = Inr xs \<longleftrightarrow> rs = map Inr xs"
  by (induction rs arbitrary: xs) (auto split: sum.splits)

lemma collect_results_Inl: "collect_results rs = Inl e \<Longrightarrow> Inl e \<in> set rs"
  by (induction rs) (auto split: sum.splits)

lemma collect_results_total:
  "(\<And>x. x \<in> set xs \<Longrightarrow> \<exists>y. f x = Inr y) \<Longrightarrow> \<exists>ys. collect_results (map f xs) = Inr ys"
  by (cases "collect_results (map f xs)") (fastforce dest: collect_results_Inl)+

section \<open>Words as lengths\<close>

definition vlen :: "'a list \<Rightarrow> usize" where
  "vlen xs = of_nat (length xs)"

lemma vlen_simps [simp]:
  "vlen [] = 0" "vlen (x # xs) = vlen xs + 1" "vlen (xs @ ys) = vlen xs + vlen ys"
  by (simp_all add: vlen_def)

lemma unat_vlen: "length xs < 2 ^ 64 \<Longrightarrow> unat (vlen xs) = length xs"
  by (simp add: vlen_def unat_of_nat take_bit_nat_eq_self)

lemma vlen_inj:
  "vlen xs = vlen ys \<Longrightarrow> length xs < 2 ^ 64 \<Longrightarrow> length ys < 2 ^ 64 \<Longrightarrow> length xs = length ys"
  by (metis unat_vlen)

lemma word_less_Suc_unat:
  fixes a b :: "'a::len word"
  shows "a < b \<Longrightarrow> unat (a + 1) = Suc (unat a)"
proof -
  assume "a < b"
  then have "unat a + 1 < 2 ^ LENGTH('a)"
    by (metis Suc_eq_plus1 Suc_leI le_less_trans unsigned_less word_less_nat_alt)
  then show ?thesis by (simp add: unat_word_ariths)
qed

end
