(* ===== verification/Streams.thy ===== *)
theory Streams
  imports Prelude
begin

text \<open>
  The vocabulary of \<open>eventcore-types\<close>: stream identifiers and prefixes with their validation
  (\<open>store.rs\<close>, \<open>validation.rs\<close>), stream versions, the error types (\<open>store.rs\<close>, \<open>errors.rs\<close>), and
  the builder \<open>StreamDeclarations\<close> (\<open>command.rs\<close>).
\<close>

section \<open>Validated stream names\<close>

datatype nutype_error = NotEmptyViolated | LenCharMaxViolated | PredicateViolated

text \<open>\<open>validation.rs\<close>: no \<open>*\<close>, \<open>?\<close>, \<open>[\<close> or \<open>]\<close>.\<close>

definition no_glob_metacharacters :: "rstring \<Rightarrow> bool" where
  "no_glob_metacharacters s \<longleftrightarrow> list_all (\<lambda>c. c \<notin> {42, 63, 91, 93}) s"

text \<open>
  The constructor the attribute \<open>nutype(sanitize(trim), validate(not_empty, len_char_max = 255,
  predicate = p))\<close> generates: sanitise, then the validators in the order they are listed.
\<close>

definition validated_text :: "(rstring \<Rightarrow> bool) \<Rightarrow> rstring \<Rightarrow> nutype_error + rstring" where
  "validated_text p raw =
     (let s = str_trim raw in
      if s = [] then Inl NotEmptyViolated
      else if 255 < length s then Inl LenCharMaxViolated
      else if \<not> p s then Inl PredicateViolated
      else Inr s)"

datatype stream_id = StreamId (sid_str: rstring)
datatype stream_prefix = StreamPrefix (prefix_str: rstring)
datatype stream_pattern = StreamPattern (pattern_str: rstring)

definition stream_id_try_new :: "rstring \<Rightarrow> nutype_error + stream_id" where
  "stream_id_try_new raw = map_sum id StreamId (validated_text no_glob_metacharacters raw)"

definition stream_prefix_try_new :: "rstring \<Rightarrow> nutype_error + stream_prefix" where
  "stream_prefix_try_new raw = map_sum id StreamPrefix (validated_text no_glob_metacharacters raw)"

text \<open>
  The \<open>glob\<close> crate is a parameter: \<open>glob_compile s\<close> is \<open>Pattern::new(s).ok()\<close>, as the function
  \<open>Pattern::matches\<close> of the compiled pattern.
\<close>

definition is_valid_glob_pattern :: "(rstring \<Rightarrow> (rstring \<Rightarrow> bool) option) \<Rightarrow> rstring \<Rightarrow> bool" where
  "is_valid_glob_pattern glob_compile s \<longleftrightarrow> glob_compile s \<noteq> None"

definition stream_pattern_try_new ::
  "(rstring \<Rightarrow> (rstring \<Rightarrow> bool) option) \<Rightarrow> rstring \<Rightarrow> nutype_error + stream_pattern" where
  "stream_pattern_try_new glob_compile raw =
     map_sum id StreamPattern (validated_text (is_valid_glob_pattern glob_compile) raw)"

definition stream_pattern_matches ::
  "(rstring \<Rightarrow> (rstring \<Rightarrow> bool) option) \<Rightarrow> stream_pattern \<Rightarrow> rstring \<Rightarrow> bool" where
  "stream_pattern_matches glob_compile pat s =
     (case glob_compile (pattern_str pat) of Some m \<Rightarrow> m s | None \<Rightarrow> False)"

lemma validated_text_Inr_iff:
  "validated_text p raw = Inr s \<longleftrightarrow>
     s = str_trim raw \<and> s \<noteq> [] \<and> length s \<le> 255 \<and> p s"
  by (auto simp: validated_text_def Let_def)

lemma map_sum_id_Inr_iff: "map_sum id f r = Inr y \<longleftrightarrow> (\<exists>x. r = Inr x \<and> y = f x)"
  by (cases r) auto

lemmas try_new_simps = stream_id_try_new_def stream_prefix_try_new_def stream_pattern_try_new_def
  map_sum_id_Inr_iff validated_text_Inr_iff

lemma glob_free_iff:
  "no_glob_metacharacters s \<longleftrightarrow> (\<forall>c \<in> set s. c \<notin> {42, 63, 91, 93})"
  by (simp add: no_glob_metacharacters_def list_all_iff)

text \<open>
  What a constructed identifier promises, and that constructing one again from its own text (which
  is what deserialising does) gives it back.
\<close>

definition valid_stream_id :: "stream_id \<Rightarrow> bool" where
  "valid_stream_id sid \<longleftrightarrow> stream_id_try_new (sid_str sid) = Inr sid"

lemma stream_id_try_new_valid:
  "stream_id_try_new raw = Inr sid \<Longrightarrow> valid_stream_id sid"
  by (auto simp: valid_stream_id_def try_new_simps)

lemma valid_stream_id_facts:
  assumes "valid_stream_id sid"
  shows "sid_str sid \<noteq> []" and "length (sid_str sid) \<le> 255"
    and "no_glob_metacharacters (sid_str sid)" and "str_trim (sid_str sid) = sid_str sid"
  using assms by (cases sid; auto simp: valid_stream_id_def try_new_simps)+

lemma stream_pattern_compiles:
  "stream_pattern_try_new g raw = Inr pat \<Longrightarrow> g (pattern_str pat) \<noteq> None"
  by (auto simp: try_new_simps is_valid_glob_pattern_def)

section \<open>Stream versions and errors\<close>

type_synonym stream_version = usize

definition version_increment :: "stream_version \<Rightarrow> stream_version" where
  "version_increment v = v + 1"

datatype operation =
  ReadStream | AppendEvents | BeginTransaction | SetExpectedVersions | CommitTransaction

fun operation_display :: "operation \<Rightarrow> rstring" where
  "operation_display ReadStream = lit ''read_stream''"
| "operation_display AppendEvents = lit ''append_events''"
| "operation_display BeginTransaction = lit ''begin_transaction''"
| "operation_display SetExpectedVersions = lit ''set_expected_versions''"
| "operation_display CommitTransaction = lit ''commit_transaction''"

lemma operation_display_inj: "operation_display a = operation_display b \<Longrightarrow> a = b"
  by (cases a; cases b; simp add: lit_def)

datatype event_store_error =
  ConflictingExpectedVersions stream_id stream_version stream_version
| UndeclaredStream stream_id
| SerializationFailed stream_id rstring
| DeserializationFailed stream_id rstring
| StoreFailure operation
| VersionConflict stream_id stream_version stream_version

text \<open>
  A business rule violation boxes any error value; the type parameter is the application's error.
  \<open>CommandError::from(message)\<close> boxes a \<open>BusinessRuleMessage\<close>.
\<close>

datatype 'x boxed_error = BusinessRuleMessage rstring | OtherError 'x

datatype 'x command_error =
  BusinessRuleViolation "'x boxed_error"
| ConcurrencyError u32
| StoreError event_store_error
| ValidationError rstring

definition business_rule_violated :: "'x \<Rightarrow> 'x command_error" where
  "business_rule_violated e = BusinessRuleViolation (OtherError e)"

definition command_error_from_string :: "rstring \<Rightarrow> 'x command_error" where
  "command_error_from_string message = BusinessRuleViolation (BusinessRuleMessage message)"

text \<open>The macro \<open>require!(cond, error)\<close> inside a function returning a \<open>Result\<close>.\<close>

definition require :: "bool \<Rightarrow> 'x command_error \<Rightarrow> 'x command_error + 'a \<Rightarrow> 'x command_error + 'a" where
  "require condition err rest = (if \<not> condition then Inl err else rest)"

section \<open>Stream declarations\<close>

datatype stream_declarations = StreamDeclarations (decl_streams: "stream_id list")

datatype stream_declarations_error = DeclEmpty | DuplicateStream stream_id

text \<open>The loop of \<open>try_from_streams\<close>, then its emptiness check.\<close>

fun collect_distinct ::
  "stream_id set \<Rightarrow> stream_id list \<Rightarrow> stream_id list \<Rightarrow> stream_declarations_error + stream_id list"
where
  "collect_distinct seen collected [] = Inr collected"
| "collect_distinct seen collected (s # ss) =
     (if s \<in> seen then Inl (DuplicateStream s)
      else collect_distinct (insert s seen) (collected @ [s]) ss)"

definition try_from_streams ::
  "stream_id list \<Rightarrow> stream_declarations_error + stream_declarations" where
  "try_from_streams streams =
     rbind (collect_distinct {} [] streams)
       (\<lambda>collected. if collected = [] then Inl DeclEmpty else Inr (StreamDeclarations collected))"

definition single :: "stream_id \<Rightarrow> stream_declarations" where
  "single s = StreamDeclarations [s]"

definition with_participant ::
  "stream_declarations \<Rightarrow> stream_id \<Rightarrow> stream_declarations_error + stream_declarations" where
  "with_participant d p = try_from_streams (decl_streams d @ [p])"

definition decl_is_empty :: "stream_declarations \<Rightarrow> bool" where
  "decl_is_empty d \<longleftrightarrow> decl_streams d = []"

definition decl_len :: "stream_declarations \<Rightarrow> usize" where
  "decl_len d = vlen (decl_streams d)"

definition wf_declarations :: "stream_declarations \<Rightarrow> bool" where
  "wf_declarations d \<longleftrightarrow> decl_streams d \<noteq> [] \<and> distinct (decl_streams d)"

lemma collect_distinct_Inr_iff:
  "collect_distinct seen acc ss = Inr r \<longleftrightarrow> r = acc @ ss \<and> distinct ss \<and> set ss \<inter> seen = {}"
  by (induction seen acc ss rule: collect_distinct.induct) auto

lemma collect_distinct_duplicate:
  "collect_distinct seen acc ss = Inl e \<Longrightarrow>
     \<exists>pre s post. ss = pre @ s # post \<and> e = DuplicateStream s \<and> s \<in> seen \<union> set pre
       \<and> distinct pre \<and> set pre \<inter> seen = {}"
proof (induction seen acc ss rule: collect_distinct.induct)
  case (2 seen acc s ss)
  show ?case
  proof (cases "s \<in> seen")
    case True
    with 2 show ?thesis by (intro exI [of _ "[]"]) auto
  next
    case False
    with 2 obtain pre t post where
      "ss = pre @ t # post" "e = DuplicateStream t" "t \<in> insert s seen \<union> set pre"
      "distinct pre" "set pre \<inter> insert s seen = {}" by auto
    with False show ?thesis
      by (intro exI [of _ "s # pre"] exI [of _ t] exI [of _ post]) auto
  qed
qed simp

lemma try_from_streams_Inr_iff:
  "try_from_streams ss = Inr d \<longleftrightarrow> d = StreamDeclarations ss \<and> wf_declarations d"
  by (auto simp: try_from_streams_def rbind_Inr_iff collect_distinct_Inr_iff wf_declarations_def)

lemma single_wf: "wf_declarations (single s)"
  by (simp add: single_def wf_declarations_def)

lemma with_participant_Inr_iff:
  "with_participant d p = Inr d' \<longleftrightarrow>
     d' = StreamDeclarations (decl_streams d @ [p]) \<and> distinct (decl_streams d) \<and> p \<notin> set (decl_streams d)"
  by (auto simp: with_participant_def try_from_streams_Inr_iff wf_declarations_def)

end
