(* ===== verification/Writes.thy ===== *)
theory Writes
  imports Streams
begin

text \<open>
  \<open>StreamWrites\<close>, the batch a command hands to a store (\<open>store.rs\<close>), the trait \<open>Event\<close> as a
  dictionary (\<open>command.rs\<close>), the durable command-state snapshot (\<open>snapshot.rs\<close>) and
  \<open>collect_events\<close>. A store keeps events of any type behind \<open>Box<dyn Any>\<close>; the type parameter
  \<open>'ev\<close> is that universe of values, and an event type is a dictionary over it.
\<close>

section \<open>The trait Event\<close>

record 'ev event_type =
  ev_stream_id :: "'ev \<Rightarrow> stream_id"
  ev_type_name :: rstring
  ev_rust_name :: rstring
  ev_is :: "'ev \<Rightarrow> bool"
  ev_to_json :: "'ev \<Rightarrow> rstring + rstring"
  ev_from_json :: "rstring \<Rightarrow> 'ev option"

section \<open>Stream writes\<close>

record 'ev write_entry =
  we_stream_id :: stream_id
  we_event :: 'ev
  we_event_type :: rstring
  we_event_data :: rstring

record 'ev stream_writes =
  entries :: "'ev write_entry list"
  expected_versions :: "(stream_id, stream_version) hashmap"

definition writes_new :: "'ev stream_writes" where
  "writes_new = \<lparr>entries = [], expected_versions = []\<rparr>"

definition register_stream ::
  "'ev stream_writes \<Rightarrow> stream_id \<Rightarrow> stream_version \<Rightarrow> event_store_error + 'ev stream_writes" where
  "register_stream w sid v =
     (case hm_get (expected_versions w) sid of
        None \<Rightarrow> Inr (w\<lparr>expected_versions := hm_insert sid v (expected_versions w)\<rparr>)
      | Some first \<Rightarrow>
          if first \<noteq> v then Inl (ConflictingExpectedVersions sid first v) else Inr w)"

definition writes_append ::
  "'ev event_type \<Rightarrow> 'ev stream_writes \<Rightarrow> 'ev \<Rightarrow> event_store_error + 'ev stream_writes" where
  "writes_append E w e =
     (let sid = ev_stream_id E e in
      if \<not> hm_contains (expected_versions w) sid then Inl (UndeclaredStream sid)
      else case ev_to_json E e of
             Inl detail \<Rightarrow> Inl (SerializationFailed sid detail)
           | Inr data \<Rightarrow>
               Inr (w\<lparr>entries := entries w @
                 [\<lparr>we_stream_id = sid, we_event = e, we_event_type = ev_type_name E,
                   we_event_data = data\<rparr>]\<rparr>))"

text \<open>
  The invariant of the builder: one expected version per stream, and an event only for a registered
  stream.
\<close>

definition wf_writes :: "'ev stream_writes \<Rightarrow> bool" where
  "wf_writes w \<longleftrightarrow> hm_wf (expected_versions w)
     \<and> (\<forall>en \<in> set (entries w). we_stream_id en \<in> fst ` set (expected_versions w))"

named_theorems writes_facts \<open>what the builder operations keep and change\<close>

lemma wf_writes_new [writes_facts, simp]: "wf_writes writes_new"
  by (simp add: wf_writes_def writes_new_def)

lemma register_stream_wf [writes_facts]:
  "wf_writes w \<Longrightarrow> register_stream w sid v = Inr w' \<Longrightarrow> wf_writes w'"
  by (auto simp: wf_writes_def register_stream_def hm_keys_insert split: option.splits if_splits)

lemma append_wf [writes_facts]: "wf_writes w \<Longrightarrow> writes_append E w e = Inr w' \<Longrightarrow> wf_writes w'"
  by (force simp: wf_writes_def writes_append_def Let_def hm_contains_iff split: sum.splits if_splits)

lemma register_stream_expected [writes_facts]:
  assumes "register_stream w sid v = Inr w'"
  shows "hm_get (expected_versions w') = (hm_get (expected_versions w))(sid \<mapsto> v)"
    and "entries w' = entries w"
  using assms by (auto simp: register_stream_def split: option.splits if_splits)

lemma writes_append_Inr_iff:
  "writes_append E w e = Inr w' \<longleftrightarrow>
     hm_contains (expected_versions w) (ev_stream_id E e)
     \<and> (\<exists>data. ev_to_json E e = Inr data
         \<and> w' = w\<lparr>entries := entries w @ [\<lparr>we_stream_id = ev_stream_id E e, we_event = e,
                we_event_type = ev_type_name E, we_event_data = data\<rparr>]\<rparr>)"
  by (auto simp: writes_append_def Let_def split: sum.splits)

lemma append_expected [writes_facts]:
  "writes_append E w e = Inr w' \<Longrightarrow> expected_versions w' = expected_versions w"
  by (auto simp: writes_append_Inr_iff)

text \<open>The events of a batch that go to one stream, in batch order.\<close>

definition events_for :: "'ev write_entry list \<Rightarrow> stream_id \<Rightarrow> 'ev list" where
  "events_for es sid = map we_event (filter (\<lambda>en. we_stream_id en = sid) es)"

lemma events_for_simps [simp]:
  "events_for [] sid = []"
  "events_for (en # es) sid =
     (if we_stream_id en = sid then we_event en # events_for es sid else events_for es sid)"
  "events_for (es @ es') sid = events_for es sid @ events_for es' sid"
  by (simp_all add: events_for_def)

text \<open>An entry holds the data its event type writes: what every appended batch satisfies.\<close>

definition typed_entry :: "'ev event_type \<Rightarrow> 'ev write_entry \<Rightarrow> bool" where
  "typed_entry E en \<longleftrightarrow> we_stream_id en = ev_stream_id E (we_event en)
     \<and> we_event_type en = ev_type_name E \<and> ev_to_json E (we_event en) = Inr (we_event_data en)"

lemma append_typed:
  "writes_append E w e = Inr w' \<Longrightarrow> \<forall>en \<in> set (entries w). typed_entry E en \<Longrightarrow>
     \<forall>en \<in> set (entries w'). typed_entry E en"
  by (auto simp: writes_append_Inr_iff typed_entry_def)

section \<open>Building the batch of a command\<close>

text \<open>
  \<open>build_stream_writes_from_events\<close> (\<open>eventcore/src/lib.rs\<close>): register every stream that was read,
  then append the events.
\<close>

definition build_stream_writes ::
  "'ev event_type \<Rightarrow> 'ev list \<Rightarrow> (stream_id, stream_version) hashmap
     \<Rightarrow> event_store_error + 'ev stream_writes" where
  "build_stream_writes E events expected =
     rbind (try_fold (\<lambda>w (sid, v). register_stream w sid v) writes_new expected)
       (\<lambda>w. try_fold (writes_append E) w events)"

definition build_stream_writes_from_events ::
  "'ev event_type \<Rightarrow> 'ev list \<Rightarrow> (stream_id, stream_version) hashmap
     \<Rightarrow> 'x command_error + 'ev stream_writes" where
  "build_stream_writes_from_events E events expected =
     map_err StoreError (build_stream_writes E events expected)"

lemma try_fold_register:
  assumes "hm_wf (ex0 @ ex)" and "entries w = []" and "expected_versions w = ex0"
  shows "try_fold (\<lambda>w (sid, v). register_stream w sid v) w ex
           = Inr (w\<lparr>expected_versions := ex0 @ ex\<rparr>)"
  using assms
proof (induction ex arbitrary: w ex0)
  case (Cons p ex)
  obtain sid v where p: "p = (sid, v)" by (cases p)
  have notin: "sid \<notin> fst ` set ex0" using Cons.prems(1) p by auto
  then have upd: "hm_insert sid v ex0 = ex0 @ [(sid, v)]"
    by (rule hm_insert_new)
  have reg: "register_stream w sid v = Inr (w\<lparr>expected_versions := ex0 @ [(sid, v)]\<rparr>)"
    using notin upd Cons.prems(3) by (simp add: register_stream_def map_of_eq_None_iff [THEN iffD2])
  show ?case
    using Cons.IH [of "ex0 @ [(sid, v)]" "w\<lparr>expected_versions := ex0 @ [(sid, v)]\<rparr>"]
      Cons.prems p reg by simp
qed (simp_all add: )

lemma try_fold_append_facts:
  assumes "try_fold (writes_append E) w events = Inr w'"
  shows "expected_versions w' = expected_versions w"
    and "map we_event (entries w') = map we_event (entries w) @ events"
    and "\<forall>en \<in> set (entries w). typed_entry E en \<Longrightarrow> \<forall>en \<in> set (entries w'). typed_entry E en"
    and "wf_writes w \<Longrightarrow> wf_writes w'"
    and "\<forall>e \<in> set events. ev_stream_id E e \<in> fst ` set (expected_versions w)"
  using assms
proof (induction events arbitrary: w)
  case (Cons e events)
  { case 1 with Cons.IH(1) show ?case by (auto simp: writes_append_Inr_iff split: sum.splits) }
  { case 2 with Cons.IH(2) show ?case by (auto simp: writes_append_Inr_iff split: sum.splits) }
  { case 3 with Cons.IH(3) show ?case by (auto split: sum.splits dest: append_typed) }
  { case 4 with Cons.IH(4) show ?case by (auto split: sum.splits dest: append_wf) }
  { case 5
    then obtain w1 where w1: "writes_append E w e = Inr w1"
      "try_fold (writes_append E) w1 events = Inr w'" by (auto split: sum.splits)
    then show ?case using Cons.IH(5) [OF w1(2)]
      by (auto simp: writes_append_Inr_iff hm_contains_iff) }
qed auto

lemma build_stream_writes_eq:
  fixes E :: "'ev event_type"
  assumes "hm_wf ex"
  shows "build_stream_writes E events ex
           = try_fold (writes_append E) \<lparr>entries = [], expected_versions = ex\<rparr> events"
  unfolding build_stream_writes_def using try_fold_register [of "[]" ex "writes_new :: 'ev stream_writes"] assms
  by (simp add: writes_new_def case_prod_unfold)

lemma build_stream_writes_facts:
  assumes "build_stream_writes E events ex = Inr w" and "hm_wf ex"
  shows "expected_versions w = ex" and "map we_event (entries w) = events"
    and "\<forall>en \<in> set (entries w). typed_entry E en" and "wf_writes w"
    and "\<forall>e \<in> set events. ev_stream_id E e \<in> fst ` set ex"
proof -
  let ?w0 = "\<lparr>entries = [], expected_versions = ex\<rparr> :: 'a stream_writes"
  have f: "try_fold (writes_append E) ?w0 events = Inr w"
    using assms by (simp add: build_stream_writes_eq)
  have "wf_writes ?w0" using assms(2) by (simp add: wf_writes_def)
  then show "expected_versions w = ex" "map we_event (entries w) = events"
    "\<forall>en \<in> set (entries w). typed_entry E en" "wf_writes w"
    "\<forall>e \<in> set events. ev_stream_id E e \<in> fst ` set ex"
    using try_fold_append_facts [OF f] by simp_all
qed

lemma try_fold_append_error:
  assumes "try_fold (writes_append E) w events = Inl err"
  shows "\<exists>pre e post. events = pre @ e # post
    \<and> (\<forall>x \<in> set pre. hm_contains (expected_versions w) (ev_stream_id E x) \<and> (\<exists>d. ev_to_json E x = Inr d))
    \<and> (if hm_contains (expected_versions w) (ev_stream_id E e)
       then \<exists>detail. ev_to_json E e = Inl detail \<and> err = SerializationFailed (ev_stream_id E e) detail
       else err = UndeclaredStream (ev_stream_id E e))"
  using assms
proof (induction events arbitrary: w)
  case (Cons e events)
  show ?case
  proof (cases "writes_append E w e")
    case (Inl err')
    then show ?thesis
      using Cons.prems by (intro exI [of _ "[]"] exI [of _ e] exI [of _ events])
        (auto simp: writes_append_def Let_def split: if_splits sum.splits)
  next
    case (Inr w1)
    then have w1: "expected_versions w1 = expected_versions w"
      "hm_contains (expected_versions w) (ev_stream_id E e) \<and> (\<exists>d. ev_to_json E e = Inr d)"
      by (auto simp: writes_append_Inr_iff)
    have "try_fold (writes_append E) w1 events = Inl err" using Cons.prems Inr by simp
    from Cons.IH [OF this] obtain pre x post where "events = pre @ x # post"
      "\<forall>y \<in> set pre. hm_contains (expected_versions w) (ev_stream_id E y) \<and> (\<exists>d. ev_to_json E y = Inr d)"
      "if hm_contains (expected_versions w) (ev_stream_id E x)
       then \<exists>detail. ev_to_json E x = Inl detail \<and> err = SerializationFailed (ev_stream_id E x) detail
       else err = UndeclaredStream (ev_stream_id E x)" unfolding w1(1) by blast
    then show ?thesis using w1(2) by (intro exI [of _ "e # pre"] exI [of _ x] exI [of _ post]) simp
  qed
qed simp

text \<open>The entries are typed whatever list of versions the builder is given.\<close>

lemma build_stream_writes_typed:
  assumes "build_stream_writes E events ex = Inr w"
  shows "\<forall>en \<in> set (entries w). typed_entry E en" and "map we_event (entries w) = events"
proof -
  obtain w0 where w0: "try_fold (\<lambda>w (sid, v). register_stream w sid v) writes_new ex = Inr w0"
    and f: "try_fold (writes_append E) w0 events = Inr w"
    using assms by (auto simp: build_stream_writes_def rbind_Inr_iff)
  have "entries w0 = []"
    by (rule try_fold_invariant [OF w0, where I = "\<lambda>w. entries w = []"])
       (auto simp: writes_new_def register_stream_expected(2))
  then show "\<forall>en \<in> set (entries w). typed_entry E en" "map we_event (entries w) = events"
    using try_fold_append_facts(2,3) [OF f] by simp_all
qed

lemma build_stream_writes_wf:
  assumes "build_stream_writes E events ex = Inr w"
  shows "wf_writes w"
proof -
  obtain w0 where w0: "try_fold (\<lambda>w (sid, v). register_stream w sid v) writes_new ex = Inr w0"
    and f: "try_fold (writes_append E) w0 events = Inr w"
    using assms by (auto simp: build_stream_writes_def rbind_Inr_iff)
  have "wf_writes w0"
    by (rule try_fold_invariant [OF w0, where I = wf_writes]) (auto intro: register_stream_wf)
  then show ?thesis using try_fold_append_facts(4) [OF f] by simp
qed

lemma events_for_typed:
  "\<forall>en \<in> set es. typed_entry E en \<Longrightarrow>
     events_for es sid = filter (\<lambda>e. ev_stream_id E e = sid) (map we_event es)"
  by (induction es) (auto simp: typed_entry_def)

section \<open>Event streams\<close>

text \<open>
  An \<open>EventStream\<close> is the sequence of results it yields. \<open>collect_events\<close> returns the first error.
\<close>

type_synonym 'ev event_stream = "(event_store_error + 'ev) list"

definition collect_events :: "'ev event_stream \<Rightarrow> event_store_error + 'ev list" where
  "collect_events s = collect_results s"

text \<open>The default \<open>read_stream_after\<close> of the trait skips the prefix of a normal read.\<close>

definition default_read_stream_after ::
  "(stream_id \<Rightarrow> event_store_error + 'ev event_stream)
     \<Rightarrow> stream_id \<Rightarrow> stream_version \<Rightarrow> event_store_error + 'ev event_stream" where
  "default_read_stream_after read sid v = rbind (read sid) (\<lambda>s. Inr (drop (unat v) s))"

section \<open>Command-state snapshots\<close>

record 'json replay_checkpoint =
  rc_stream_id :: stream_id
  rc_state :: 'json
  rc_stream_versions :: "(stream_id, stream_version) hashmap"

record 'json command_state_snapshot =
  snap_state :: 'json
  snap_stream_versions :: "(stream_id, stream_version) hashmap"
  snap_checkpoints :: "'json replay_checkpoint list"

definition snapshot_new ::
  "'json \<Rightarrow> (stream_id, stream_version) hashmap \<Rightarrow> 'json command_state_snapshot" where
  "snapshot_new st vs = \<lparr>snap_state = st, snap_stream_versions = vs, snap_checkpoints = []\<rparr>"

definition with_replay_checkpoints ::
  "'json command_state_snapshot \<Rightarrow> 'json replay_checkpoint list \<Rightarrow> 'json command_state_snapshot" where
  "with_replay_checkpoints s cs = s\<lparr>snap_checkpoints := cs\<rparr>"

definition covers :: "'json command_state_snapshot \<Rightarrow> 'json command_state_snapshot \<Rightarrow> bool" where
  "covers self other \<longleftrightarrow>
     list_all (\<lambda>(sid, v). case hm_get (snap_stream_versions self) sid of
                            None \<Rightarrow> False | Some current \<Rightarrow> v \<le> current)
       (snap_stream_versions other)"

lemma covers_iff:
  assumes "hm_wf (snap_stream_versions b)"
  shows "covers a b \<longleftrightarrow> (\<forall>sid v. hm_get (snap_stream_versions b) sid = Some v \<longrightarrow>
           (\<exists>u. hm_get (snap_stream_versions a) sid = Some u \<and> v \<le> u))"
  using hm_get_in [OF assms]
  by (fastforce simp: covers_def list_all_iff split: option.splits)

lemma covers_refl: "hm_wf (snap_stream_versions a) \<Longrightarrow> covers a a"
  by (simp add: covers_iff)

lemma covers_trans:
  assumes "covers a b" "covers b c" "hm_wf (snap_stream_versions b)" "hm_wf (snap_stream_versions c)"
  shows "covers a c"
  using assms by (auto simp: covers_iff) (meson order_trans)

text \<open>\<open>CommandStateSnapshotId::try_new\<close>: trimmed, not empty, at most 255 characters.\<close>

definition snapshot_id_try_new :: "rstring \<Rightarrow> nutype_error + rstring" where
  "snapshot_id_try_new raw = validated_text (\<lambda>_. True) raw"

end
