(* ===== verification/Reading.thy ===== *)
theory Reading
  imports Writes
begin

text \<open>
  The projection vocabulary of \<open>eventcore-types/src/projection.rs\<close>: cursors, pages, filters, failure
  strategies, and the wrapper types of its configuration values.
\<close>

section \<open>Cursors\<close>

datatype stream_position = StreamPosition (pos_uuid: uuid)

instantiation stream_position :: linorder
begin

definition less_eq_stream_position :: "stream_position \<Rightarrow> stream_position \<Rightarrow> bool" where
  "less_eq_stream_position a b \<longleftrightarrow> pos_uuid a \<le> pos_uuid b"

definition less_stream_position :: "stream_position \<Rightarrow> stream_position \<Rightarrow> bool" where
  "less_stream_position a b \<longleftrightarrow> pos_uuid a < pos_uuid b"

instance
  by standard
     (auto simp: less_eq_stream_position_def less_stream_position_def intro: stream_position.expand)

end

lemmas position_order = less_eq_stream_position_def less_stream_position_def

type_synonym batch_size = usize
type_synonym max_retry_attempts = u32
type_synonym max_retries = u32
type_synonym delay_milliseconds = u64
type_synonym retry_count = u32

text \<open>\<open>NonZeroU32::new\<close>, the constructor under \<open>AttemptNumber\<close> and \<open>MaxConsecutiveFailures\<close>.\<close>

definition non_zero_u32 :: "u32 \<Rightarrow> u32 option" where
  "non_zero_u32 n = (if n = 0 then None else Some n)"

lemma non_zero_u32_Some_iff [simp]: "non_zero_u32 n = Some m \<longleftrightarrow> m = n \<and> n \<noteq> 0"
  by (auto simp: non_zero_u32_def)

datatype failure_strategy = Fatal | Skip | Retry

record 'err failure_context =
  fc_error :: 'err
  fc_position :: stream_position
  fc_retry_count :: retry_count

text \<open>The default \<open>Projector::on_error\<close>.\<close>

definition default_on_error :: "'err failure_context \<Rightarrow> failure_strategy" where
  "default_on_error fc = Fatal"

section \<open>Pages\<close>

record event_page =
  after_position :: "stream_position option"
  page_limit :: batch_size

definition page_first :: "batch_size \<Rightarrow> event_page" where
  "page_first n = \<lparr>after_position = None, page_limit = n\<rparr>"

definition page_after :: "stream_position \<Rightarrow> batch_size \<Rightarrow> event_page" where
  "page_after p n = \<lparr>after_position = Some p, page_limit = n\<rparr>"

definition next_from_results :: "event_page \<Rightarrow> ('ev \<times> stream_position) list \<Rightarrow> event_page option" where
  "next_from_results pg events =
     (if events = [] then None
      else Some \<lparr>after_position = Some (snd (last events)), page_limit = page_limit pg\<rparr>)"

definition page_next :: "event_page \<Rightarrow> stream_position \<Rightarrow> event_page" where
  "page_next pg p = \<lparr>after_position = Some p, page_limit = page_limit pg\<rparr>"

lemma next_from_results_next:
  "events \<noteq> [] \<Longrightarrow> next_from_results pg events = Some (page_next pg (snd (last events)))"
  by (simp add: next_from_results_def page_next_def)

section \<open>Filters\<close>

record event_filter =
  ef_stream_prefix :: "stream_prefix option"
  ef_stream_pattern :: "stream_pattern option"
  ef_event_type :: "rstring option"

definition filter_all :: event_filter where
  "filter_all = \<lparr>ef_stream_prefix = None, ef_stream_pattern = None, ef_event_type = None\<rparr>"

definition filter_prefix :: "stream_prefix \<Rightarrow> event_filter" where
  "filter_prefix p = \<lparr>ef_stream_prefix = Some p, ef_stream_pattern = None, ef_event_type = None\<rparr>"

definition filter_pattern :: "stream_pattern \<Rightarrow> event_filter" where
  "filter_pattern p = \<lparr>ef_stream_prefix = None, ef_stream_pattern = Some p, ef_event_type = None\<rparr>"

definition with_event_type :: "event_filter \<Rightarrow> rstring \<Rightarrow> event_filter" where
  "with_event_type f ty = f\<lparr>ef_event_type := Some ty\<rparr>"

text \<open>
  The predicates the readers apply to a stored event, given its cursor, its stream and its type.
\<close>

definition after_cursor :: "event_page \<Rightarrow> uuid \<Rightarrow> bool" where
  "after_cursor pg u = (case after_position pg of None \<Rightarrow> True | Some p \<Rightarrow> pos_uuid p < u)"

definition selects ::
  "(rstring \<Rightarrow> (rstring \<Rightarrow> bool) option) \<Rightarrow> rstring \<Rightarrow> event_filter \<Rightarrow> rstring \<Rightarrow> rstring \<Rightarrow> bool" where
  "selects glob_compile own_type f sid ty \<longleftrightarrow>
     (case ef_stream_prefix f of None \<Rightarrow> True | Some p \<Rightarrow> starts_with sid (prefix_str p))
   \<and> (case ef_stream_pattern f of None \<Rightarrow> True | Some p \<Rightarrow> stream_pattern_matches glob_compile p sid)
   \<and> ty = (case ef_event_type f of None \<Rightarrow> own_type | Some t \<Rightarrow> t)"

text \<open>
  A filter never carries a prefix and a pattern at once, whichever constructor made it.
\<close>

definition exclusive_filter :: "event_filter \<Rightarrow> bool" where
  "exclusive_filter f \<longleftrightarrow> ef_stream_prefix f = None \<or> ef_stream_pattern f = None"

lemma filters_exclusive:
  "exclusive_filter filter_all" "exclusive_filter (filter_prefix p)"
  "exclusive_filter (filter_pattern q)" "exclusive_filter f \<Longrightarrow> exclusive_filter (with_event_type f ty)"
  by (simp_all add: exclusive_filter_def filter_all_def filter_prefix_def filter_pattern_def
      with_event_type_def)

end
