(* ===== verification/Store_Contracts.thy ===== *)
theory Store_Contracts
  imports Reading
begin

text \<open>
  The traits the executor and the projection runner call, as dictionaries, and their contracts as
  locales: \<open>EventStore\<close> (\<open>store.rs\<close>), \<open>CheckpointStore\<close> and \<open>ProjectorCoordinator\<close>
  (\<open>projection.rs\<close>). A back end interprets the locale on its own definitions.
\<close>

section \<open>The trait EventStore\<close>

text \<open>
  The operations at one event type, over the store's state \<open>'st\<close>. \<open>EventStreamSlice\<close> is a unit
  struct, so an append returns \<open>unit\<close>.
\<close>

record ('st, 'ev, 'json) store_ops =
  op_read :: "'st \<Rightarrow> stream_id \<Rightarrow> event_store_error + 'ev event_stream"
  op_read_after :: "'st \<Rightarrow> stream_id \<Rightarrow> stream_version \<Rightarrow> event_store_error + 'ev event_stream"
  op_append :: "'st \<Rightarrow> 'ev stream_writes \<Rightarrow> (event_store_error + unit) \<times> 'st"
  op_load_snapshot :: "'st \<Rightarrow> rstring \<Rightarrow> event_store_error + 'json command_state_snapshot option"
  op_save_snapshot :: "'st \<Rightarrow> rstring \<Rightarrow> 'json command_state_snapshot
     \<Rightarrow> (event_store_error + unit) \<times> 'st"

text \<open>The trait's default snapshot methods: nothing is stored.\<close>

definition default_load_snapshot ::
  "'st \<Rightarrow> rstring \<Rightarrow> event_store_error + 'json command_state_snapshot option" where
  "default_load_snapshot st i = Inr None"

definition default_save_snapshot ::
  "'st \<Rightarrow> rstring \<Rightarrow> 'json command_state_snapshot \<Rightarrow> (event_store_error + unit) \<times> 'st" where
  "default_save_snapshot st i s = (Inr (), st)"

definition versions_match ::
  "('st \<Rightarrow> stream_id \<Rightarrow> 'ev list) \<Rightarrow> 'st \<Rightarrow> 'ev stream_writes \<Rightarrow> bool" where
  "versions_match view st w \<longleftrightarrow> (\<forall>(sid, v) \<in> set (expected_versions w). v = vlen (view st sid))"

text \<open>
  The contract, for a store whose every call may fail. \<open>view st sid\<close> is the history of a stream. A read
  that reports no error, neither at once nor among its items, returns the history in order. A successful
  append extends every stream by its events of the batch, and, if the batch has an event, happened at
  the expected versions. A failed append changes no history or, where the storage failed after the
  events were there, extends every stream by its events of the batch; a reported conflict is one, and
  nothing was appended.
\<close>

locale event_store =
  fixes ops :: "('st, 'ev, 'json) store_ops"
    and inv :: "'st \<Rightarrow> bool"
    and view :: "'st \<Rightarrow> stream_id \<Rightarrow> 'ev list"
    and ok :: "'ev write_entry \<Rightarrow> bool"
  assumes read: "inv st \<Longrightarrow> op_read ops st sid = Inr items \<Longrightarrow>
        items = map Inr (view st sid) \<or> (\<exists>e. Inl e \<in> set items)"
    and append_ok: "inv st \<Longrightarrow> wf_writes w \<Longrightarrow> \<forall>en \<in> set (entries w). ok en \<Longrightarrow>
        op_append ops st w = (Inr u, st') \<Longrightarrow>
        inv st' \<and> view st' = (\<lambda>sid. view st sid @ events_for (entries w) sid)"
    and append_checked: "inv st \<Longrightarrow> wf_writes w \<Longrightarrow> \<forall>en \<in> set (entries w). ok en \<Longrightarrow>
        op_append ops st w = (Inr u, st') \<Longrightarrow> entries w \<noteq> [] \<Longrightarrow> versions_match view st w"
    and append_err: "inv st \<Longrightarrow> wf_writes w \<Longrightarrow> \<forall>en \<in> set (entries w). ok en \<Longrightarrow>
        op_append ops st w = (Inl e, st') \<Longrightarrow>
        inv st' \<and> (view st' = view st \<or> view st' = (\<lambda>sid. view st sid @ events_for (entries w) sid))"
    and append_conflict: "inv st \<Longrightarrow> wf_writes w \<Longrightarrow> \<forall>en \<in> set (entries w). ok en \<Longrightarrow>
        op_append ops st w = (Inl (VersionConflict sid v actual), st') \<Longrightarrow>
        (sid, v) \<in> set (expected_versions w) \<and> actual = vlen (view st sid) \<and> v \<noteq> actual \<and> view st' = view st"
begin

text \<open>Whatever an append returns, every history afterwards extends the history before.\<close>

lemma append_extends:
  assumes "inv st" "wf_writes w" "\<forall>en \<in> set (entries w). ok en"
  shows "inv (snd (op_append ops st w))
    \<and> (\<forall>sid. \<exists>es. view (snd (op_append ops st w)) sid = view st sid @ es)"
proof (cases "op_append ops st w")
  case (Pair r st')
  then show ?thesis
    using append_ok [OF assms] append_err [OF assms] by (cases r) auto
qed

end

text \<open>
  A store that checks the versions of every batch, events or not, whose only failure of an append
  under the invariant is a conflict, and whose failed appends change no history.
\<close>

locale strict_event_store = event_store +
  assumes append_iff: "inv st \<Longrightarrow> wf_writes w \<Longrightarrow> \<forall>en \<in> set (entries w). ok en \<Longrightarrow>
        (\<exists>u st'. op_append ops st w = (Inr u, st')) \<longleftrightarrow> versions_match view st w"
    and append_err_kept: "inv st \<Longrightarrow> wf_writes w \<Longrightarrow> \<forall>en \<in> set (entries w). ok en \<Longrightarrow>
        op_append ops st w = (Inl e, st') \<Longrightarrow> view st' = view st"
begin

text \<open>All or nothing: a failed batch leaves every stream as it was.\<close>

lemma append_atomic:
  assumes "inv st" "wf_writes w" "\<forall>en \<in> set (entries w). ok en"
  shows "view (snd (op_append ops st w)) sid =
    (case fst (op_append ops st w) of
       Inl _ \<Rightarrow> view st sid
     | Inr _ \<Rightarrow> view st sid @ events_for (entries w) sid)"
proof (cases "op_append ops st w")
  case (Pair r st')
  then show ?thesis
    using append_ok [OF assms] append_err_kept [OF assms] by (cases r) auto
qed

text \<open>A stale batch with an event never commits.\<close>

lemma stale_append_fails:
  assumes "inv st" "wf_writes w" "\<forall>en \<in> set (entries w). ok en" "entries w \<noteq> []"
    and "\<not> versions_match view st w"
  shows "\<exists>e st'. op_append ops st w = (Inl e, st') \<and> view st' = view st"
proof (cases "op_append ops st w")
  case (Pair r st')
  then show ?thesis
    using append_checked [OF assms(1-3)] append_err_kept [OF assms(1-3)] assms(4,5) by (cases r) auto
qed

text \<open>Of two batches prepared from the same reads, the one that commits second conflicts.\<close>

lemma second_writer_conflicts:
  assumes "inv st" "wf_writes w1" "\<forall>en \<in> set (entries w1). ok en"
    and "wf_writes w2" "\<forall>en \<in> set (entries w2). ok en"
    and c1: "op_append ops st w1 = (Inr u, st1)"
    and v2: "versions_match view st w2"
    and en: "en \<in> set (entries w1)" "we_stream_id en \<in> fst ` set (expected_versions w2)"
    and bound: "\<And>sid. length (view st1 sid) < 2 ^ 64"
  shows "\<exists>e st2. op_append ops st1 w2 = (Inl e, st2) \<and> view st2 = view st1"
proof -
  let ?s = "we_stream_id en"
  have st1: "inv st1" and grow: "\<And>s. view st1 s = view st s @ events_for (entries w1) s"
    using append_ok [OF assms(1-3) c1] by auto
  have "events_for (entries w1) ?s \<noteq> []"
    using en(1) by (auto simp: events_for_def filter_empty_conv)
  then have "length (view st1 ?s) \<noteq> length (view st ?s)"
    by (simp add: grow)
  moreover have "length (view st ?s) < 2 ^ 64"
    using bound [of ?s] by (simp add: grow)
  ultimately have "vlen (view st ?s) \<noteq> vlen (view st1 ?s)"
    using vlen_inj bound by metis
  moreover obtain v where v: "(?s, v) \<in> set (expected_versions w2)"
    using en(2) by force
  ultimately have "\<not> versions_match view st1 w2"
    using v2 by (force simp: versions_match_def)
  then have "\<not> (\<exists>u st'. op_append ops st1 w2 = (Inr u, st'))"
    using append_iff [OF st1 assms(4,5)] by simp
  then obtain e st2 where "op_append ops st1 w2 = (Inl e, st2)"
    by (metis surj_pair old.sum.exhaust)
  then show ?thesis using append_err_kept [OF st1 assms(4,5)] by auto
qed

end

text \<open>
  A store with reads from a version the stream has and with command-state snapshots. \<open>stored st i\<close> is the snapshot
  kept under an identifier: a load that does not fail returns it, saving keeps it or replaces it, histories are
  untouched by a save and snapshots by an append.
\<close>

locale snapshot_event_store = event_store ops inv view ok
  for ops :: "('st, 'ev, 'json) store_ops" and inv :: "'st \<Rightarrow> bool"
    and view :: "'st \<Rightarrow> stream_id \<Rightarrow> 'ev list" and ok :: "'ev write_entry \<Rightarrow> bool" +
  fixes stored :: "'st \<Rightarrow> rstring \<Rightarrow> 'json command_state_snapshot option"
  assumes read_after: "inv st \<Longrightarrow> unat v \<le> length (view st sid) \<Longrightarrow>
        op_read_after ops st sid v = Inr items \<Longrightarrow>
        items = map Inr (drop (unat v) (view st sid)) \<or> (\<exists>e. Inl e \<in> set items)"
    and load: "inv st \<Longrightarrow> op_load_snapshot ops st i = Inr found \<Longrightarrow> found = stored st i"
    and save: "inv st \<Longrightarrow> op_save_snapshot ops st i s = (r, st') \<Longrightarrow>
        inv st' \<and> view st' = view st \<and> (stored st' i = stored st i \<or> stored st' i = Some s)"
    and append_stored: "inv st \<Longrightarrow> op_append ops st w = (r, st') \<Longrightarrow> stored st' i = stored st i"

section \<open>The trait CheckpointStore\<close>

locale checkpoint_store =
  fixes load :: "'st \<Rightarrow> rstring \<Rightarrow> 'err + stream_position option"
    and save :: "'st \<Rightarrow> rstring \<Rightarrow> stream_position \<Rightarrow> ('err + unit) \<times> 'st"
    and cinv :: "'st \<Rightarrow> bool"
  assumes save_ok: "cinv st \<Longrightarrow> \<exists>st'. save st n p = (Inr (), st') \<and> cinv st'"
    and load_ok: "cinv st \<Longrightarrow> \<exists>c. load st n = Inr c"
    and load_save: "cinv st \<Longrightarrow> load (snd (save st n p)) m = (if m = n then Inr (Some p) else load st m)"
begin

text \<open>The last save wins, and a subscription is untouched by the saves of the others.\<close>

lemma load_after_saves:
  assumes "cinv st"
  shows "load (fold (\<lambda>(n, p) s. snd (save s n p)) saves st) m =
    (case map_of (rev saves) m of Some p \<Rightarrow> Inr (Some p) | None \<Rightarrow> load st m)"
  using assms
proof (induction saves arbitrary: st)
  case (Cons np saves)
  obtain n p where np: "np = (n, p)" by (cases np)
  have "cinv (snd (save st n p))" using save_ok [OF Cons.prems] by (metis snd_conv)
  from Cons.IH [OF this] show ?case
    by (simp add: np load_save [OF Cons.prems] map_add_def split: option.splits)
qed simp

end

section \<open>The trait ProjectorCoordinator\<close>

text \<open>Acquiring returns a guard; dropping the guard releases. \<open>held\<close> says who leads.\<close>

locale projector_coordinator =
  fixes acquire :: "'st \<Rightarrow> rstring \<Rightarrow> ('err + 'guard) \<times> 'st"
    and release :: "'st \<Rightarrow> 'guard \<Rightarrow> 'st"
    and held :: "'st \<Rightarrow> rstring set"
    and linv :: "'st \<Rightarrow> bool"
    and guards :: "'guard \<Rightarrow> rstring"
  assumes acquire_free: "linv st \<Longrightarrow> n \<notin> held st \<Longrightarrow>
        \<exists>g st'. acquire st n = (Inr g, st') \<and> guards g = n \<and> held st' = insert n (held st) \<and> linv st'"
    and acquire_held: "linv st \<Longrightarrow> n \<in> held st \<Longrightarrow> \<exists>e. acquire st n = (Inl e, st)"
    and release: "linv st \<Longrightarrow> held (release st g) = held st - {guards g} \<and> linv (release st g)"
begin

text \<open>While a guard lives nobody else leads; after it is dropped the next one does.\<close>

lemma leadership_exclusive:
  assumes "linv st" "acquire st n = (Inr g, st1)"
  shows "\<exists>e. acquire st1 n = (Inl e, st1)"
    and "\<exists>g' st2. acquire (release st1 g) n = (Inr g', st2)"
proof -
  have "n \<notin> held st" using acquire_held [OF assms(1)] assms(2) by force
  then have g: "guards g = n" "held st1 = insert n (held st)" "linv st1"
    using acquire_free [OF assms(1), of n] assms(2) by auto
  then show "\<exists>e. acquire st1 n = (Inl e, st1)"
    using acquire_held by blast
  show "\<exists>g' st2. acquire (release st1 g) n = (Inr g', st2)"
    using release [OF g(3), of g] acquire_free [of "release st1 g" n] g(1) by auto
qed

end

end
