(* ===== verification/Memory_Store.thy ===== *)
theory Memory_Store
  imports Store_Contracts
begin

text \<open>
  The in-memory back end (\<open>eventcore-memory/src/lib.rs\<close>): per-stream data with its version, the
  global log, checkpoints, command-state snapshots and leadership locks. A \<open>Mutex\<close> or \<open>RwLock\<close> is
  the data it guards and a flag that says whether a panic poisoned it; every operation holds the
  lock for its whole body, so it is one transition. \<open>Uuid::now_v7\<close> is the parameter \<open>now_v7\<close>, the
  \<open>n\<close>-th identifier the process generates, with the number of calls so far in the state.
\<close>

section \<open>State\<close>

record log_entry =
  le_event_id :: uuid
  le_stream_id :: rstring
  le_event_type :: rstring
  le_event_data :: rstring

record ('ev, 'json) store_data =
  streams :: "(stream_id, 'ev list \<times> stream_version) hashmap"
  global_log :: "log_entry list"
  checkpoints :: "(rstring, stream_position) hashmap"
  command_state_snapshots :: "(rstring, 'json command_state_snapshot) hashmap"
  locks :: "(rstring, unit) hashmap"
  poisoned :: bool
  locks_poisoned :: bool
  uuid_calls :: nat

definition memory_new :: "('ev, 'json) store_data" where
  "memory_new = \<lparr>streams = [], global_log = [], checkpoints = [], command_state_snapshots = [],
     locks = [], poisoned = False, locks_poisoned = False, uuid_calls = 0\<rparr>"

section \<open>EventStore\<close>

definition downcast_error :: "'ev event_type \<Rightarrow> stream_id \<Rightarrow> event_store_error" where
  "downcast_error E sid =
     DeserializationFailed sid (lit ''event could not be downcast to '' @ ev_rust_name E)"

definition downcast :: "'ev event_type \<Rightarrow> stream_id \<Rightarrow> 'ev \<Rightarrow> event_store_error + 'ev" where
  "downcast E sid boxed = (if ev_is E boxed then Inr boxed else Inl (downcast_error E sid))"

definition mem_read_stream ::
  "'ev event_type \<Rightarrow> ('ev, 'json) store_data \<Rightarrow> stream_id \<Rightarrow> event_store_error + 'ev event_stream" where
  "mem_read_stream E data sid =
     (if poisoned data then Inl (StoreFailure ReadStream)
      else Inr (case hm_get (streams data) sid of
                  None \<Rightarrow> []
                | Some (boxed, _) \<Rightarrow> map (downcast E sid) boxed))"

definition mem_read_stream_after ::
  "'ev event_type \<Rightarrow> ('ev, 'json) store_data \<Rightarrow> stream_id \<Rightarrow> stream_version
     \<Rightarrow> event_store_error + 'ev event_stream" where
  "mem_read_stream_after E data sid v =
     (if poisoned data then Inl (StoreFailure ReadStream)
      else Inr (case hm_get (streams data) sid of
                  None \<Rightarrow> []
                | Some (boxed, _) \<Rightarrow> map (downcast E sid) (drop (unat v) boxed)))"

definition current_version :: "('ev, 'json) store_data \<Rightarrow> stream_id \<Rightarrow> stream_version" where
  "current_version data sid =
     (case hm_get (streams data) sid of None \<Rightarrow> 0 | Some (_, version) \<Rightarrow> version)"

text \<open>The first loop of \<open>append_events\<close>: every expected version, in iteration order.\<close>

fun check_versions ::
  "('ev, 'json) store_data \<Rightarrow> (stream_id, stream_version) hashmap \<Rightarrow> event_store_error option" where
  "check_versions data [] = None"
| "check_versions data ((sid, expected) # rest) =
     (if current_version data sid \<noteq> expected
      then Some (VersionConflict sid expected (current_version data sid))
      else check_versions data rest)"

text \<open>The body of the second loop: one entry into the global log and its stream.\<close>

definition push_entry ::
  "(nat \<Rightarrow> uuid) \<Rightarrow> 'ev write_entry \<Rightarrow> ('ev, 'json) store_data \<Rightarrow> ('ev, 'json) store_data" where
  "push_entry now_v7 en data =
     (let sid = we_stream_id en;
          (events, version) = (case hm_get (streams data) sid of None \<Rightarrow> ([], 0) | Some d \<Rightarrow> d)
      in data\<lparr>
           uuid_calls := Suc (uuid_calls data),
           global_log := global_log data @
             [\<lparr>le_event_id = now_v7 (uuid_calls data), le_stream_id = sid_str sid,
               le_event_type = we_event_type en, le_event_data = we_event_data en\<rparr>],
           streams := hm_insert sid (events @ [we_event en], version_increment version)
             (streams data)\<rparr>)"

definition mem_append_events ::
  "(nat \<Rightarrow> uuid) \<Rightarrow> ('ev, 'json) store_data \<Rightarrow> 'ev stream_writes
     \<Rightarrow> (event_store_error + unit) \<times> ('ev, 'json) store_data" where
  "mem_append_events now_v7 data w =
     (if poisoned data then (Inl (StoreFailure AppendEvents), data)
      else case check_versions data (expected_versions w) of
             Some err \<Rightarrow> (Inl err, data)
           | None \<Rightarrow> (Inr (), fold (push_entry now_v7) (entries w) data))"

definition mem_load_snapshot ::
  "('ev, 'json) store_data \<Rightarrow> rstring \<Rightarrow> event_store_error + 'json command_state_snapshot option" where
  "mem_load_snapshot data i =
     (if poisoned data then Inl (StoreFailure ReadStream)
      else Inr (hm_get (command_state_snapshots data) i))"

definition mem_save_snapshot ::
  "('ev, 'json) store_data \<Rightarrow> rstring \<Rightarrow> 'json command_state_snapshot
     \<Rightarrow> (event_store_error + unit) \<times> ('ev, 'json) store_data" where
  "mem_save_snapshot data i s =
     (if poisoned data then (Inl (StoreFailure AppendEvents), data)
      else (Inr (),
        (let keep = (case hm_get (command_state_snapshots data) i of
                       Some current \<Rightarrow> \<not> covers s current | None \<Rightarrow> False)
         in if keep then data
            else data\<lparr>command_state_snapshots := hm_insert i s (command_state_snapshots data)\<rparr>)))"

definition memory_ops ::
  "(nat \<Rightarrow> uuid) \<Rightarrow> 'ev event_type \<Rightarrow> (('ev, 'json) store_data, 'ev, 'json) store_ops" where
  "memory_ops now_v7 E =
     \<lparr>op_read = mem_read_stream E, op_read_after = mem_read_stream_after E,
      op_append = mem_append_events now_v7, op_load_snapshot = mem_load_snapshot,
      op_save_snapshot = mem_save_snapshot\<rparr>"

section \<open>EventReader\<close>

definition mem_read_events ::
  "(rstring \<Rightarrow> (rstring \<Rightarrow> bool) option) \<Rightarrow> 'ev event_type \<Rightarrow> ('ev, 'json) store_data
     \<Rightarrow> event_filter \<Rightarrow> event_page \<Rightarrow> event_store_error + ('ev \<times> stream_position) list" where
  "mem_read_events glob_compile E data f pg =
     (if poisoned data then Inl (StoreFailure ReadStream)
      else Inr (List.map_filter
             (\<lambda>le. map_option (\<lambda>e. (e, StreamPosition (le_event_id le))) (ev_from_json E (le_event_data le)))
             (take (unat (page_limit pg))
               (filter (\<lambda>le. after_cursor pg (le_event_id le)
                   \<and> selects glob_compile (ev_type_name E) f (le_stream_id le) (le_event_type le))
                 (global_log data)))))"

section \<open>CheckpointStore and ProjectorCoordinator\<close>

text \<open>The message of a \<open>PoisonError\<close>, which both error types carry.\<close>

definition poison_message :: rstring where
  "poison_message = lit ''poisoned lock: another task failed inside''"

datatype memory_checkpoint_error = LockFailed rstring
datatype memory_coordination_error = LeadershipNotAcquired rstring | LockPoisoned rstring

datatype memory_guard = MemoryGuard (guard_name: rstring)

definition mem_load_checkpoint ::
  "('ev, 'json) store_data \<Rightarrow> rstring \<Rightarrow> memory_checkpoint_error + stream_position option" where
  "mem_load_checkpoint data name =
     (if poisoned data then Inl (LockFailed poison_message) else Inr (hm_get (checkpoints data) name))"

definition mem_save_checkpoint ::
  "('ev, 'json) store_data \<Rightarrow> rstring \<Rightarrow> stream_position
     \<Rightarrow> (memory_checkpoint_error + unit) \<times> ('ev, 'json) store_data" where
  "mem_save_checkpoint data name p =
     (if poisoned data then (Inl (LockFailed poison_message), data)
      else (Inr (), data\<lparr>checkpoints := hm_insert name p (checkpoints data)\<rparr>))"

definition mem_try_acquire ::
  "('ev, 'json) store_data \<Rightarrow> rstring
     \<Rightarrow> (memory_coordination_error + memory_guard) \<times> ('ev, 'json) store_data" where
  "mem_try_acquire data name =
     (if poisoned data then (Inl (LockPoisoned poison_message), data)
      else if locks_poisoned data then (Inl (LockPoisoned poison_message), data)
      else if hm_contains (locks data) name then (Inl (LeadershipNotAcquired name), data)
      else (Inr (MemoryGuard name), data\<lparr>locks := hm_insert name () (locks data)\<rparr>))"

text \<open>\<open>Drop\<close> of the guard: a poisoned lock table is only logged.\<close>

definition mem_drop_guard :: "('ev, 'json) store_data \<Rightarrow> memory_guard \<Rightarrow> ('ev, 'json) store_data" where
  "mem_drop_guard data g =
     (if locks_poisoned data then data
      else data\<lparr>locks := hm_remove (guard_name g) (locks data)\<rparr>)"

text \<open>The stand-alone checkpoint store and coordinator of the crate hold the same tables.\<close>

record memory_checkpoint_store =
  cp_table :: "(rstring, stream_position) hashmap"
  cp_poisoned :: bool

definition checkpoint_store_new :: memory_checkpoint_store where
  "checkpoint_store_new = \<lparr>cp_table = [], cp_poisoned = False\<rparr>"

definition cp_load ::
  "memory_checkpoint_store \<Rightarrow> rstring \<Rightarrow> memory_checkpoint_error + stream_position option" where
  "cp_load s name = (if cp_poisoned s then Inl (LockFailed poison_message) else Inr (hm_get (cp_table s) name))"

definition cp_save ::
  "memory_checkpoint_store \<Rightarrow> rstring \<Rightarrow> stream_position
     \<Rightarrow> (memory_checkpoint_error + unit) \<times> memory_checkpoint_store" where
  "cp_save s name p =
     (if cp_poisoned s then (Inl (LockFailed poison_message), s)
      else (Inr (), s\<lparr>cp_table := hm_insert name p (cp_table s)\<rparr>))"

record memory_coordinator =
  co_locks :: "(rstring, unit) hashmap"
  co_poisoned :: bool

definition coordinator_new :: memory_coordinator where
  "coordinator_new = \<lparr>co_locks = [], co_poisoned = False\<rparr>"

definition co_try_acquire ::
  "memory_coordinator \<Rightarrow> rstring \<Rightarrow> (memory_coordination_error + memory_guard) \<times> memory_coordinator" where
  "co_try_acquire s name =
     (if co_poisoned s then (Inl (LockPoisoned poison_message), s)
      else if hm_contains (co_locks s) name then (Inl (LeadershipNotAcquired name), s)
      else (Inr (MemoryGuard name), s\<lparr>co_locks := hm_insert name () (co_locks s)\<rparr>))"

definition co_drop_guard :: "memory_coordinator \<Rightarrow> memory_guard \<Rightarrow> memory_coordinator" where
  "co_drop_guard s g =
     (if co_poisoned s then s else s\<lparr>co_locks := hm_remove (guard_name g) (co_locks s)\<rparr>)"

end
