(* ===== verification/Retry_Policy.thy ===== *)
theory Retry_Policy
  imports Reading
begin

text \<open>
  Retry configuration of \<open>eventcore/src/lib.rs\<close>: \<open>RetryPolicy\<close>, \<open>BackoffStrategy\<close>, the delay before
  a retry and \<open>ExecutionResponse\<close>. The random jitter (the \<open>rand\<close> crate and a rounded \<open>f64\<close>
  product) is the parameter \<open>jitter\<close>, the map \<open>base_delay \<mapsto> apply_jitter(base_delay, factor)\<close> for
  the factor drawn.
\<close>

datatype backoff_strategy = Fixed delay_milliseconds | Exponential delay_milliseconds

record retry_context =
  rctx_streams :: "stream_id list"
  rctx_attempt :: u32
  rctx_delay_ms :: delay_milliseconds

record retry_policy =
  rp_max_retries :: max_retries
  rp_backoff_strategy :: backoff_strategy
  rp_metrics_hook :: bool

text \<open>
  A metrics hook is observed only by the contexts it receives; the policy records whether one is
  installed, and a run collects the contexts.
\<close>

definition retry_policy_new :: retry_policy where
  "retry_policy_new = \<lparr>rp_max_retries = 4, rp_backoff_strategy = Exponential 10, rp_metrics_hook = False\<rparr>"

definition policy_max_retries :: "retry_policy \<Rightarrow> u32 \<Rightarrow> retry_policy" where
  "policy_max_retries p n = p\<lparr>rp_max_retries := n\<rparr>"

definition policy_backoff_strategy :: "retry_policy \<Rightarrow> backoff_strategy \<Rightarrow> retry_policy" where
  "policy_backoff_strategy p s = p\<lparr>rp_backoff_strategy := s\<rparr>"

definition policy_with_metrics_hook :: "retry_policy \<Rightarrow> retry_policy" where
  "policy_with_metrics_hook p = p\<lparr>rp_metrics_hook := True\<rparr>"

text \<open>\<open>u64::checked_mul\<close> and \<open>2_u64.checked_pow(attempt)\<close>.\<close>

definition checked_mul_u64 :: "u64 \<Rightarrow> u64 \<Rightarrow> u64 option" where
  "checked_mul_u64 a b = (if uint a * uint b < 2 ^ 64 then Some (a * b) else None)"

definition checked_pow2_u64 :: "u32 \<Rightarrow> u64 option" where
  "checked_pow2_u64 n = (if n < 64 then Some (2 ^ unat n) else None)"

definition base_delay :: "delay_milliseconds \<Rightarrow> u32 \<Rightarrow> u64" where
  "base_delay base_ms attempt =
     (case checked_pow2_u64 attempt of
        None \<Rightarrow> - 1
      | Some e \<Rightarrow> (case checked_mul_u64 base_ms e of None \<Rightarrow> - 1 | Some d \<Rightarrow> d))"

definition compute_retry_delay_ms ::
  "(u64 \<Rightarrow> u64) \<Rightarrow> backoff_strategy \<Rightarrow> u32 \<Rightarrow> delay_milliseconds" where
  "compute_retry_delay_ms jitter strategy attempt =
     (case strategy of
        Fixed delay_ms \<Rightarrow> delay_ms
      | Exponential base_ms \<Rightarrow> jitter (base_delay base_ms attempt))"

lemma checked_mul_u64_nat:
  "checked_mul_u64 a b = (if unat a * unat b < 2 ^ 64 then Some (a * b) else None)"
proof -
  have "uint a * uint b = int (unat a * unat b)" by simp
  then have "uint a * uint b < 2 ^ 64 \<longleftrightarrow> int (unat a * unat b) < int (2 ^ 64)" by simp
  then show ?thesis by (simp only: checked_mul_u64_def of_nat_less_iff)
qed

lemma checked_pow2_u64_nat:
  "checked_pow2_u64 n = (if unat n < 64 then Some (2 ^ unat n) else None)"
  by (simp add: checked_pow2_u64_def word_less_nat_alt)

text \<open>
  The un-jittered delay is \<open>base \<cdot> 2 ^ attempt\<close> saturated at \<open>u64::MAX\<close>: it never wraps.
\<close>

lemma unat_mult_lt:
  fixes a b :: "'a::len word"
  shows "unat a * unat b < 2 ^ LENGTH('a) \<Longrightarrow> unat (a * b) = unat a * unat b"
  by (simp add: unat_word_ariths)

lemma unat_two_power:
  assumes "n < 64"
  shows "unat (2 ^ n :: u64) = 2 ^ n"
proof -
  have "(2::nat) ^ n < 2 ^ 64"
    using assms by (intro power_strict_increasing) auto
  moreover have "(2 ^ n :: u64) = of_nat (2 ^ n)" by simp
  ultimately show ?thesis by (simp add: unat_of_nat take_bit_nat_eq_self del: of_nat_power)
qed

lemma unat_u64_max: "unat (- 1 :: u64) = 2 ^ 64 - 1"
  by (simp add: unsigned_minus_1_eq_mask mask_eq_exp_minus_1)

lemma base_delay_small:
  assumes "unat n < 64"
  shows "unat (base_delay base n) = min (unat base * 2 ^ unat n) (2 ^ 64 - 1)"
proof -
  have p: "unat (2 ^ unat n :: u64) = 2 ^ unat n" using assms by (rule unat_two_power)
  show ?thesis
  proof (cases "unat base * 2 ^ unat n < 2 ^ 64")
    case True
    then show ?thesis
      using assms p unat_mult_lt [of base "2 ^ unat n"]
      by (simp add: base_delay_def checked_pow2_u64_nat checked_mul_u64_nat)
  next
    case False
    then show ?thesis
      using assms p by (simp add: base_delay_def checked_pow2_u64_nat checked_mul_u64_nat unat_u64_max)
  qed
qed

lemma base_delay_large: "\<not> unat n < 64 \<Longrightarrow> unat (base_delay base n) = 2 ^ 64 - 1"
  by (simp add: base_delay_def checked_pow2_u64_nat unat_u64_max)

lemma pow64_le: "\<not> n < 64 \<Longrightarrow> b \<noteq> 0 \<Longrightarrow> (2::nat) ^ 64 \<le> b * 2 ^ n"
  using power_increasing [of 64 n "2::nat"] by (cases b) (auto simp: trans_le_add1)

lemma unat_base_delay_exact:
  "unat (base_delay base n) =
     (if base = 0 \<and> 64 \<le> unat n then 2 ^ 64 - 1 else min (unat base * 2 ^ unat n) (2 ^ 64 - 1))"
proof (cases "unat n < 64")
  case False
  then show ?thesis
    using base_delay_large [OF False, of base] pow64_le [OF False, of "unat base"]
    by (auto simp: unat_eq_0 min_def)
qed (simp add: base_delay_small)

lemma base_delay_mono:
  assumes "unat n \<le> unat m"
  shows "base_delay base n \<le> base_delay base m"
proof (cases "unat m < 64")
  case True
  have "unat base * 2 ^ unat n \<le> unat base * 2 ^ unat m"
    using assms by simp
  then have "min (unat base * 2 ^ unat n) (2 ^ 64 - 1) \<le> min (unat base * 2 ^ unat m) (2 ^ 64 - 1)"
    by (rule min.mono) simp
  moreover have "unat n < 64" using True assms by simp
  ultimately show ?thesis
    using True by (simp only: word_le_nat_alt base_delay_small)
next
  case False
  have "unat (base_delay base n) < 2 ^ 64" using unsigned_less [of "base_delay base n", where 'a = nat] by simp
  then have "unat (base_delay base n) \<le> 2 ^ 64 - 1" by simp
  then show ?thesis using base_delay_large [OF False] by (simp add: word_le_nat_alt)
qed

record execution_response =
  er_attempts :: u32

text \<open>\<open>NonZeroU32::new(n).expect(..)\<close>: no response for zero.\<close>

definition execution_response_new :: "u32 \<Rightarrow> execution_response option" where
  "execution_response_new n = map_option (\<lambda>m. \<lparr>er_attempts = m\<rparr>) (non_zero_u32 n)"

end
