(* ===== verification/Execute_Pipeline.thy ===== *)
theory Execute_Pipeline
  imports Store_Contracts Retry_Policy
begin

text \<open>
  The pure state machine behind \<open>execute\<close> (\<open>eventcore/src/execute_pipeline.rs\<close>,
  \<open>eventcore/src/effects.rs\<close>): phases, effects and their results, and the two operations \<open>step\<close> and
  \<open>resume\<close>, one definition per match arm. A Rust panic is the step \<open>Panic\<close>.
\<close>

section \<open>Commands\<close>

text \<open>
  The traits \<open>CommandStreams\<close>, \<open>CommandLogic\<close> and \<open>StreamResolver\<close> (\<open>command.rs\<close>) as a dictionary:
  \<open>'s\<close> is the command's state, \<open>'json\<close> a serialised state, \<open>'x\<close> the application's error type.
\<close>

record ('ev, 's, 'json, 'x) command =
  cmd_event :: "'ev event_type"
  cmd_declarations :: stream_declarations
  cmd_default :: 's
  cmd_apply :: "'s \<Rightarrow> 'ev \<Rightarrow> 's"
  cmd_handle :: "'s \<Rightarrow> 'x command_error + 'ev list"
  cmd_resolver :: "('s \<Rightarrow> stream_id list) option"
  cmd_snapshot_id :: "rstring option"
  cmd_serialize :: "'s \<Rightarrow> 'x command_error + 'json"
  cmd_deserialize :: "'json \<Rightarrow> 'x command_error + 's"

text \<open>The trait's default methods.\<close>

definition default_stream_resolver :: "('s \<Rightarrow> stream_id list) option" where
  "default_stream_resolver = None"

definition default_snapshot_id :: "rstring option" where
  "default_snapshot_id = None"

definition default_serialize :: "'s \<Rightarrow> 'x command_error + 'json" where
  "default_serialize s = Inl (ValidationError
     (lit ''command declared a snapshot id without serializing its state''))"

definition default_deserialize :: "'json \<Rightarrow> 'x command_error + 's" where
  "default_deserialize j = Inl (ValidationError
     (lit ''command declared a snapshot id without deserializing its state''))"

section \<open>Effects, steps and phases\<close>

datatype 'ev store_effect =
  EffReadStream stream_id
| EffAppendEvents "'ev stream_writes"
| EffSleep u64

datatype 'ev store_effect_result =
  StreamEvent 'ev
| StreamEnded
| StreamReadError event_store_error
| EventsAppended "event_store_error + unit"
| Slept

datatype 'x pipeline_outcome = Success execution_response | Error "'x command_error"

datatype ('ev, 'x) pipeline_step =
  Yield "'ev store_effect"
| WaitForResult
| Finished "'x pipeline_outcome"
| Panic

record 's reading =
  queue :: "stream_id list"
  visited :: "stream_id set"
  scheduled :: "stream_id set"
  stream_ids :: "stream_id list"
  read_versions :: "(stream_id, stream_version) hashmap"
  cmd_state :: 's

datatype 's phase =
  Init
| ReadingStreams "'s reading"
| AwaitingStreamRead stream_id "'s reading" usize
| Handling "stream_id list" "(stream_id, stream_version) hashmap" 's
| AwaitingAppend "stream_id list"
| AwaitingRetrySleep
| Done

record ('ev, 's, 'json, 'x) pipeline =
  pl_command :: "('ev, 's, 'json, 'x) command"
  pl_policy :: retry_policy
  pl_phase :: "'s phase"
  pl_attempt :: u32
  pl_hook_calls :: "retry_context list"

definition pipeline_new ::
  "('ev, 's, 'json, 'x) command \<Rightarrow> retry_policy \<Rightarrow> ('ev, 's, 'json, 'x) pipeline" where
  "pipeline_new c policy =
     \<lparr>pl_command = c, pl_policy = policy, pl_phase = Init, pl_attempt = 0, pl_hook_calls = []\<rparr>"

section \<open>step\<close>

text \<open>
  The loop that enqueues streams not yet scheduled; \<open>Init\<close> runs it on the declared streams, dynamic
  discovery on the streams a resolver returns.
\<close>

fun enqueue_new ::
  "stream_id list \<Rightarrow> stream_id list \<Rightarrow> stream_id set \<Rightarrow> stream_id list \<times> stream_id set" where
  "enqueue_new [] q sch = (q, sch)"
| "enqueue_new (s # ss) q sch =
     (if s \<in> sch then enqueue_new ss q sch else enqueue_new ss (q @ [s]) (insert s sch))"

definition discover ::
  "('ev, 's, 'json, 'x) command \<Rightarrow> 's \<Rightarrow> stream_id list \<Rightarrow> stream_id set
     \<Rightarrow> stream_id list \<times> stream_id set" where
  "discover c s q sch =
     (case cmd_resolver c of None \<Rightarrow> (q, sch) | Some resolve \<Rightarrow> enqueue_new (resolve s) q sch)"

text \<open>\<open>while let Some(stream_id) = queue.pop_front()\<close>: the next stream not yet visited.\<close>

fun next_unvisited :: "stream_id list \<Rightarrow> stream_id set \<Rightarrow> (stream_id \<times> stream_id list) option" where
  "next_unvisited [] vis = None"
| "next_unvisited (s # q) vis = (if s \<in> vis then next_unvisited q vis else Some (s, q))"

definition step_handling ::
  "('ev, 's, 'json, 'x) pipeline \<Rightarrow> stream_id list \<Rightarrow> (stream_id, stream_version) hashmap \<Rightarrow> 's
     \<Rightarrow> ('ev, 's, 'json, 'x) pipeline \<times> ('ev, 'x) pipeline_step" where
  "step_handling p ids vs s =
     (let c = pl_command p in
      case cmd_handle c s of
        Inl e \<Rightarrow> (p\<lparr>pl_phase := Done\<rparr>, Finished (Error e))
      | Inr events \<Rightarrow>
          (case build_stream_writes_from_events (cmd_event c) events vs of
             Inl e \<Rightarrow> (p\<lparr>pl_phase := Done\<rparr>, Finished (Error e))
           | Inr w \<Rightarrow> (p\<lparr>pl_phase := AwaitingAppend ids\<rparr>, Yield (EffAppendEvents w))))"

definition step_reading ::
  "('ev, 's, 'json, 'x) pipeline \<Rightarrow> 's reading
     \<Rightarrow> ('ev, 's, 'json, 'x) pipeline \<times> ('ev, 'x) pipeline_step" where
  "step_reading p r =
     (case next_unvisited (queue r) (visited r) of
        Some (sid, q) \<Rightarrow>
          (p\<lparr>pl_phase := AwaitingStreamRead sid (r\<lparr>queue := q, visited := insert sid (visited r)\<rparr>) 0\<rparr>,
           Yield (EffReadStream sid))
      | None \<Rightarrow> step_handling p (stream_ids r) (read_versions r) (cmd_state r))"

definition initial_reading :: "('ev, 's, 'json, 'x) command \<Rightarrow> 's reading" where
  "initial_reading c =
     (let (q, sch) = enqueue_new (decl_streams (cmd_declarations c)) [] {} in
      \<lparr>queue = q, visited = {}, scheduled = sch, stream_ids = [], read_versions = [],
        cmd_state = cmd_default c\<rparr>)"

definition step_init ::
  "('ev, 's, 'json, 'x) pipeline \<Rightarrow> ('ev, 's, 'json, 'x) pipeline \<times> ('ev, 'x) pipeline_step" where
  "step_init p = step_reading p (initial_reading (pl_command p))"

definition step ::
  "('ev, 's, 'json, 'x) pipeline \<Rightarrow> ('ev, 's, 'json, 'x) pipeline \<times> ('ev, 'x) pipeline_step" where
  "step p =
     (case pl_phase p of
        Init \<Rightarrow> step_init p
      | ReadingStreams r \<Rightarrow> step_reading p r
      | Handling ids vs s \<Rightarrow> step_handling p ids vs s
      | AwaitingStreamRead _ _ _ \<Rightarrow> (p\<lparr>pl_phase := Done\<rparr>, Panic)
      | AwaitingAppend _ \<Rightarrow> (p\<lparr>pl_phase := Done\<rparr>, Panic)
      | AwaitingRetrySleep \<Rightarrow> (p\<lparr>pl_phase := Done\<rparr>, Panic)
      | Done \<Rightarrow> (p, Panic))"

section \<open>resume\<close>

definition stream_completed ::
  "('ev, 's, 'json, 'x) command \<Rightarrow> stream_id \<Rightarrow> 's reading \<Rightarrow> usize \<Rightarrow> 's reading" where
  "stream_completed c current r event_count =
     (let (q, sch) = discover c (cmd_state r) (queue r) (scheduled r) in
      r\<lparr>read_versions := hm_insert current event_count (read_versions r),
        stream_ids := stream_ids r @ [current], queue := q, scheduled := sch\<rparr>)"

definition resume_stream_read ::
  "('ev, 's, 'json, 'x) pipeline \<Rightarrow> stream_id \<Rightarrow> 's reading \<Rightarrow> usize \<Rightarrow> 'ev store_effect_result
     \<Rightarrow> ('ev, 's, 'json, 'x) pipeline \<times> ('ev, 'x) pipeline_step" where
  "resume_stream_read p current r event_count result =
     (case result of
        StreamEvent e \<Rightarrow>
          (p\<lparr>pl_phase := AwaitingStreamRead current
               (r\<lparr>cmd_state := cmd_apply (pl_command p) (cmd_state r) e\<rparr>) (event_count + 1)\<rparr>,
           WaitForResult)
      | StreamEnded \<Rightarrow> step_reading p (stream_completed (pl_command p) current r event_count)
      | StreamReadError e \<Rightarrow> (p\<lparr>pl_phase := Done\<rparr>, Finished (Error (StoreError e)))
      | _ \<Rightarrow> (p\<lparr>pl_phase := Done\<rparr>, Panic))"

definition resume_conflict ::
  "(u64 \<Rightarrow> u64) \<Rightarrow> ('ev, 's, 'json, 'x) pipeline \<Rightarrow> stream_id list
     \<Rightarrow> ('ev, 's, 'json, 'x) pipeline \<times> ('ev, 'x) pipeline_step" where
  "resume_conflict jitter p ids =
     (let policy = pl_policy p; attempt = pl_attempt p in
      if attempt < rp_max_retries policy then
        let delay_ms = compute_retry_delay_ms jitter (rp_backoff_strategy policy) attempt in
        case non_zero_u32 (attempt + 1) of
          None \<Rightarrow> (p\<lparr>pl_phase := Done\<rparr>, Panic)
        | Some n \<Rightarrow>
            (p\<lparr>pl_attempt := attempt + 1, pl_phase := AwaitingRetrySleep,
               pl_hook_calls := pl_hook_calls p @
                 (if rp_metrics_hook policy
                  then [\<lparr>rctx_streams = ids, rctx_attempt = n, rctx_delay_ms = delay_ms\<rparr>] else [])\<rparr>,
             Yield (EffSleep delay_ms))
      else (p\<lparr>pl_phase := Done\<rparr>, Finished (Error (ConcurrencyError (rp_max_retries policy)))))"

definition resume_append ::
  "(u64 \<Rightarrow> u64) \<Rightarrow> ('ev, 's, 'json, 'x) pipeline \<Rightarrow> stream_id list \<Rightarrow> 'ev store_effect_result
     \<Rightarrow> ('ev, 's, 'json, 'x) pipeline \<times> ('ev, 'x) pipeline_step" where
  "resume_append jitter p ids result =
     (case result of
        EventsAppended (Inr _) \<Rightarrow>
          (case execution_response_new (pl_attempt p + 1) of
             None \<Rightarrow> (p\<lparr>pl_phase := Done\<rparr>, Panic)
           | Some resp \<Rightarrow> (p\<lparr>pl_phase := Done\<rparr>, Finished (Success resp)))
      | EventsAppended (Inl (VersionConflict _ _ _)) \<Rightarrow> resume_conflict jitter p ids
      | EventsAppended (Inl other) \<Rightarrow> (p\<lparr>pl_phase := Done\<rparr>, Finished (Error (StoreError other)))
      | _ \<Rightarrow> (p\<lparr>pl_phase := Done\<rparr>, Panic))"

definition resume ::
  "(u64 \<Rightarrow> u64) \<Rightarrow> ('ev, 's, 'json, 'x) pipeline \<Rightarrow> 'ev store_effect_result
     \<Rightarrow> ('ev, 's, 'json, 'x) pipeline \<times> ('ev, 'x) pipeline_step" where
  "resume jitter p result =
     (case pl_phase p of
        AwaitingStreamRead current r n \<Rightarrow> resume_stream_read p current r n result
      | AwaitingAppend ids \<Rightarrow> resume_append jitter p ids result
      | AwaitingRetrySleep \<Rightarrow>
          (case result of Slept \<Rightarrow> step_init p | _ \<Rightarrow> (p\<lparr>pl_phase := Done\<rparr>, Panic))
      | _ \<Rightarrow> (p\<lparr>pl_phase := Done\<rparr>, Panic))"

section \<open>The queue\<close>

text \<open>
  What \<open>scheduled\<close> is for: the queue never holds a stream twice and never one already read, so the
  \<open>visited\<close> test of the loop always succeeds.
\<close>

definition wf_reading :: "'s reading \<Rightarrow> bool" where
  "wf_reading r \<longleftrightarrow> distinct (stream_ids r @ queue r) \<and> visited r = set (stream_ids r)
     \<and> scheduled r = set (stream_ids r) \<union> set (queue r)
     \<and> map fst (read_versions r) = stream_ids r"

lemma enqueue_new_facts:
  assumes "enqueue_new ss q sch = (q', sch')" and "set q \<subseteq> sch" and "distinct q"
  shows "\<exists>new. q' = q @ new \<and> distinct new \<and> set new = set ss - sch \<and> sch' = sch \<union> set ss"
  using assms
proof (induction ss q sch rule: enqueue_new.induct)
  case (2 s ss q sch)
  show ?case
  proof (cases "s \<in> sch")
    case True
    with 2 obtain new where "q' = q @ new" "distinct new" "set new = set ss - sch" "sch' = sch \<union> set ss"
      by auto
    with True show ?thesis by (intro exI [of _ new]) auto
  next
    case False
    with 2 obtain new where "q' = (q @ [s]) @ new" "distinct new" "set new = set ss - insert s sch"
      "sch' = insert s sch \<union> set ss" by auto
    with False show ?thesis by (intro exI [of _ "s # new"]) auto
  qed
qed simp

lemma enqueue_distinct:
  assumes "distinct ss" "set ss \<inter> sch = {}"
  shows "enqueue_new ss q sch = (q @ ss, sch \<union> set ss)"
  using assms by (induction ss q sch rule: enqueue_new.induct) auto

lemma wf_initial_reading: "wf_reading (initial_reading c)"
proof -
  obtain q sch where e: "enqueue_new (decl_streams (cmd_declarations c)) [] {} = (q, sch)"
    by fastforce
  then show ?thesis
    using enqueue_new_facts [OF e] by (auto simp: wf_reading_def initial_reading_def)
qed

text \<open>In a well-formed reading the loop takes the head of the queue.\<close>

lemma next_unvisited_wf:
  assumes "wf_reading r"
  shows "next_unvisited (queue r) (visited r) =
    (case queue r of [] \<Rightarrow> None | s # q \<Rightarrow> Some (s, q))"
  using assms by (cases "queue r") (auto simp: wf_reading_def)

lemma discover_facts:
  assumes "discover c s q sch = (q', sch')" and "set q \<subseteq> sch" and "distinct q"
  shows "\<exists>new. q' = q @ new \<and> distinct new \<and> set new \<inter> sch = {} \<and> sch' = sch \<union> set new"
proof (cases "cmd_resolver c")
  case None
  then show ?thesis using assms(1) by (simp add: discover_def)
next
  case (Some f)
  then have "enqueue_new (f s) q sch = (q', sch')" using assms(1) by (simp add: discover_def)
  from enqueue_new_facts [OF this assms(2,3)] show ?thesis by blast
qed

lemma wf_stream_completed:
  assumes wf: "wf_reading r" and q: "queue r = sid # q"
    and r': "queue r' = q" "visited r' = insert sid (visited r)"
      "scheduled r' = scheduled r" "stream_ids r' = stream_ids r" "read_versions r' = read_versions r"
  shows "wf_reading (stream_completed c sid r' n)"
proof -
  obtain q' sch' where d: "discover c (cmd_state r') q (scheduled r) = (q', sch')" by fastforce
  have "set q \<subseteq> scheduled r" "distinct q"
    using wf q by (auto simp: wf_reading_def)
  from discover_facts [OF d this] obtain new where new: "q' = q @ new" "distinct new"
    "set new \<inter> scheduled r = {}" "sch' = scheduled r \<union> set new" by blast
  have "sid \<notin> fst ` set (read_versions r)"
    using wf q by (auto simp: wf_reading_def simp flip: set_map)
  then have ins: "hm_insert sid n (read_versions r) = read_versions r @ [(sid, n)]"
    by (rule hm_insert_new)
  show ?thesis
    using wf q d new r' ins by (auto simp: stream_completed_def wf_reading_def)
qed

end
