(* ===== verification/Execute.thy ===== *)
theory Execute
  imports Execute_Pipeline
begin

text \<open>
  The shell loop of \<open>execute\<close> (\<open>eventcore/src/lib.rs\<close>): it dispatches the effects of the pipeline to
  an \<open>EventStore\<close>. Other tasks use the store at the same time: before its \<open>t\<close>-th store operation or
  sleep, the schedule \<open>sched t\<close> lists the batches others hand to the store, so a schedule is one
  interleaving at the await points. The loop has fuel; \<open>Execute_Correct\<close> proves how much is enough.
\<close>

section \<open>The shell\<close>

datatype 'x exec_result = ExecOk execution_response | ExecErr "'x command_error" | ExecPanic

text \<open>The body of \<open>pump_stream_reads\<close> once the stream is open.\<close>

fun pump_items ::
  "(u64 \<Rightarrow> u64) \<Rightarrow> ('ev, 's, 'json, 'x) pipeline \<Rightarrow> 'ev event_stream
     \<Rightarrow> ('ev, 's, 'json, 'x) pipeline \<times> ('ev, 'x) pipeline_step" where
  "pump_items jitter p [] = resume jitter p StreamEnded"
| "pump_items jitter p (Inr e # items) = pump_items jitter (fst (resume jitter p (StreamEvent e))) items"
| "pump_items jitter p (Inl err # items) = resume jitter p (StreamReadError err)"

definition pump_stream_reads ::
  "('st, 'ev, 'json) store_ops \<Rightarrow> (u64 \<Rightarrow> u64) \<Rightarrow> 'st \<Rightarrow> ('ev, 's, 'json, 'x) pipeline \<Rightarrow> stream_id
     \<Rightarrow> ('ev, 's, 'json, 'x) pipeline \<times> ('ev, 'x) pipeline_step" where
  "pump_stream_reads ops jitter st p sid =
     (case op_read ops st sid of
        Inl e \<Rightarrow> resume jitter p (StreamReadError e)
      | Inr items \<Rightarrow> pump_items jitter p items)"

text \<open>Other tasks' appends, whatever each returns.\<close>

definition interfere :: "('st, 'ev, 'json) store_ops \<Rightarrow> 'ev stream_writes list \<Rightarrow> 'st \<Rightarrow> 'st" where
  "interfere ops batches st = fold (\<lambda>w st. snd (op_append ops st w)) batches st"

fun drive ::
  "('st, 'ev, 'json) store_ops \<Rightarrow> (nat \<Rightarrow> 'ev stream_writes list) \<Rightarrow> (nat \<Rightarrow> u64 \<Rightarrow> u64)
     \<Rightarrow> nat \<Rightarrow> nat \<Rightarrow> ('ev, 's, 'json, 'x) pipeline \<times> ('ev, 'x) pipeline_step \<Rightarrow> 'st
     \<Rightarrow> ('x exec_result \<times> ('ev, 's, 'json, 'x) pipeline \<times> 'st) option" where
  "drive ops sched jitter 0 t (p, s) st = None"
| "drive ops sched jitter (Suc fuel) t (p, s) st =
     (case s of
        Finished (Success r) \<Rightarrow> Some (ExecOk r, p, st)
      | Finished (Error e) \<Rightarrow> Some (ExecErr e, p, st)
      | WaitForResult \<Rightarrow> Some (ExecPanic, p, st)
      | Panic \<Rightarrow> Some (ExecPanic, p, st)
      | Yield (EffReadStream sid) \<Rightarrow>
          (let st1 = interfere ops (sched t) st in
           drive ops sched jitter fuel (Suc t) (pump_stream_reads ops (jitter t) st1 p sid) st1)
      | Yield (EffAppendEvents w) \<Rightarrow>
          (let st1 = interfere ops (sched t) st; (r, st2) = op_append ops st1 w in
           drive ops sched jitter fuel (Suc t) (resume (jitter t) p (EventsAppended r)) st2)
      | Yield (EffSleep d) \<Rightarrow>
          (let st1 = interfere ops (sched t) st in
           drive ops sched jitter fuel (Suc t) (resume (jitter t) p Slept) st1))"

definition execute_run ::
  "('st, 'ev, 'json) store_ops \<Rightarrow> (nat \<Rightarrow> 'ev stream_writes list) \<Rightarrow> (nat \<Rightarrow> u64 \<Rightarrow> u64)
     \<Rightarrow> nat \<Rightarrow> ('ev, 's, 'json, 'x) command \<Rightarrow> retry_policy \<Rightarrow> 'st
     \<Rightarrow> ('x exec_result \<times> ('ev, 's, 'json, 'x) pipeline \<times> 'st) option" where
  "execute_run ops sched jitter fuel c policy st =
     drive ops sched jitter fuel 0 (step (pipeline_new c policy)) st"

section \<open>What one execution should have read\<close>

text \<open>
  The specification does not mention the pipeline. In the histories \<open>h\<close>, reading the streams \<open>ids\<close>
  in order and folding every event gives the state \<open>s\<close>; every declared stream is among them, and so
  is every stream the resolver asks for in a state reached after one of them.
\<close>

definition related :: "('ev, 's, 'json, 'x) command \<Rightarrow> 's \<Rightarrow> stream_id set" where
  "related c s = (case cmd_resolver c of None \<Rightarrow> {} | Some f \<Rightarrow> set (f s))"

definition folded ::
  "('ev, 's, 'json, 'x) command \<Rightarrow> (stream_id \<Rightarrow> 'ev list) \<Rightarrow> stream_id list \<Rightarrow> 's" where
  "folded c h ids = foldl (cmd_apply c) (cmd_default c) (concat (map h ids))"

definition consistent_read ::
  "('ev, 's, 'json, 'x) command \<Rightarrow> (stream_id \<Rightarrow> 'ev list) \<Rightarrow> stream_id list \<Rightarrow> 's \<Rightarrow> bool" where
  "consistent_read c h ids s \<longleftrightarrow> distinct ids \<and> s = folded c h ids
     \<and> set (decl_streams (cmd_declarations c)) \<subseteq> set ids
     \<and> (\<forall>k. k < length ids \<longrightarrow> related c (folded c h (take (Suc k) ids)) \<subseteq> set ids)"

definition versions_of :: "(stream_id \<Rightarrow> 'ev list) \<Rightarrow> stream_id list \<Rightarrow> (stream_id, stream_version) hashmap" where
  "versions_of h ids = map (\<lambda>sid. (sid, vlen (h sid))) ids"

lemma versions_of_wf [simp]: "hm_wf (versions_of h ids) \<longleftrightarrow> distinct ids"
  by (simp add: versions_of_def comp_def)

lemma folded_cong:
  assumes "\<And>x. x \<in> set ids \<Longrightarrow> h x = h' x"
  shows "folded c h ids = folded c h' ids"
proof -
  have "map h ids = map h' ids" using assms by simp
  then show ?thesis unfolding folded_def by (simp only:)
qed

lemma consistent_read_cong:
  assumes "\<And>x. x \<in> set ids \<Longrightarrow> h x = h' x"
  shows "consistent_read c h ids s \<longleftrightarrow> consistent_read c h' ids s"
proof -
  have pre: "folded c h (take k ids) = folded c h' (take k ids)" for k
    using assms by (intro folded_cong) (auto dest: in_set_takeD)
  show ?thesis
    using pre [of "length ids"] by (simp add: consistent_read_def pre)
qed

section \<open>A reading in progress\<close>

text \<open>
  The invariant of the reading phases against the histories \<open>h\<close> that the reads returned.
\<close>

definition reading_ok ::
  "('ev, 's, 'json, 'x) command \<Rightarrow> (stream_id \<Rightarrow> 'ev list) \<Rightarrow> 's reading \<Rightarrow> bool" where
  "reading_ok c h r \<longleftrightarrow> wf_reading r
     \<and> cmd_state r = folded c h (stream_ids r)
     \<and> read_versions r = versions_of h (stream_ids r)
     \<and> set (decl_streams (cmd_declarations c)) \<subseteq> scheduled r
     \<and> (\<forall>k < length (stream_ids r). related c (folded c h (take (Suc k) (stream_ids r))) \<subseteq> scheduled r)"

lemma reading_ok_initial: "reading_ok c h (initial_reading c)"
proof -
  obtain q sch where e: "enqueue_new (decl_streams (cmd_declarations c)) [] {} = (q, sch)"
    by fastforce
  then show ?thesis
    using enqueue_new_facts [OF e] wf_initial_reading [of c]
    by (auto simp: reading_ok_def initial_reading_def folded_def versions_of_def)
qed

lemma discover_scheduled:
  "discover c s q sch = (q', sch') \<Longrightarrow> set q \<subseteq> sch \<Longrightarrow> distinct q \<Longrightarrow> sch' = sch \<union> related c s"
  using enqueue_new_facts
  by (fastforce simp: discover_def related_def split: option.splits)

text \<open>
  Completing the stream at the head of the queue with its history keeps the invariant; the histories
  of streams not read yet are free.
\<close>

lemma reading_ok_complete:
  assumes ok: "reading_ok c h r" and q: "queue r = sid # q"
    and r': "r' = r\<lparr>queue := q, visited := insert sid (visited r),
       cmd_state := foldl (cmd_apply c) (cmd_state r) es\<rparr>"
  shows "reading_ok c (h(sid := es)) (stream_completed c sid r' (vlen es))"
    and "stream_ids (stream_completed c sid r' (vlen es)) = stream_ids r @ [sid]"
proof -
  let ?h = "h(sid := es)" let ?r = "stream_completed c sid r' (vlen es)"
  obtain q' sch' where d: "discover c (cmd_state r') q (scheduled r) = (q', sch')" by fastforce
  have wf: "wf_reading r" using ok by (simp add: reading_ok_def)
  have sch: "sch' = scheduled r \<union> related c (cmd_state r')"
    using discover_scheduled [OF d] wf q by (auto simp: wf_reading_def)
  show ids: "stream_ids ?r = stream_ids r @ [sid]"
    using r' d by (simp add: stream_completed_def)
  have new: "sid \<notin> set (stream_ids r)" using wf q by (auto simp: wf_reading_def)
  have pre: "folded c ?h (take k (stream_ids r)) = folded c h (take k (stream_ids r))" for k
    using new by (intro folded_cong) (auto dest: in_set_takeD)
  have full: "folded c ?h (stream_ids r @ [sid]) = cmd_state r'"
    using pre [of "length (stream_ids r)"] ok r' by (simp add: folded_def reading_ok_def)
  have "sid \<notin> fst ` set (read_versions r)"
    using wf new by (auto simp: wf_reading_def simp flip: set_map)
  then have vs: "read_versions ?r = versions_of ?h (stream_ids r @ [sid])"
    using ok new d r' by (simp add: stream_completed_def reading_ok_def hm_insert_new versions_of_def)
  have "related c (folded c ?h (take (Suc k) (stream_ids r @ [sid]))) \<subseteq> scheduled r \<union> related c (cmd_state r')"
    if "k < Suc (length (stream_ids r))" for k
  proof (cases "k = length (stream_ids r)")
    case True
    then show ?thesis using full by simp
  next
    case False
    with that have "k < length (stream_ids r)" by simp
    then show ?thesis using pre [of "Suc k"] ok by (auto simp: reading_ok_def)
  qed
  moreover have "wf_reading ?r"
    by (rule wf_stream_completed [OF wf q]) (simp_all add: r')
  moreover have "scheduled ?r = sch'" "cmd_state ?r = cmd_state r'"
    using d r' by (simp_all add: stream_completed_def)
  ultimately show "reading_ok c ?h ?r"
    using ok full vs sch ids by (auto simp: reading_ok_def)
qed

lemma reading_ok_finished:
  assumes "reading_ok c h r" "queue r = []"
  shows "consistent_read c h (stream_ids r) (cmd_state r)"
proof -
  have sch: "scheduled r = set (stream_ids r)"
    using assms by (simp add: reading_ok_def wf_reading_def)
  show ?thesis
    using assms unfolding reading_ok_def consistent_read_def wf_reading_def sch by simp
qed

lemma reading_ok_cong:
  assumes "\<And>x. x \<in> set (stream_ids r) \<Longrightarrow> h x = h' x" "reading_ok c h r"
  shows "reading_ok c h' r"
proof -
  have "folded c h (take k (stream_ids r)) = folded c h' (take k (stream_ids r))" for k
    using assms(1) by (intro folded_cong) (auto dest: in_set_takeD)
  then show ?thesis
    using assms folded_cong [OF assms(1)] by (auto simp: reading_ok_def versions_of_def)
qed

section \<open>The pump\<close>

text \<open>The phase field is overwritten by every branch, so its old value does not matter.\<close>

lemma step_reading_phase:
  "step_reading (p\<lparr>pl_phase := x\<rparr>) r = step_reading p r"
  by (simp add: step_reading_def step_handling_def Let_def split: option.splits sum.splits)

text \<open>Pumping the items of a healthy stream folds them all and ends the stream once.\<close>

lemma pump_items_all:
  assumes "pl_phase p = AwaitingStreamRead sid r n"
  shows "pump_items jitter p (map Inr es) =
    step_reading p (stream_completed (pl_command p) sid
        (r\<lparr>cmd_state := foldl (cmd_apply (pl_command p)) (cmd_state r) es\<rparr>) (n + vlen es))"
  using assms
proof (induction es arbitrary: p r n)
  case Nil
  then show ?case
    by (simp add: resume_def resume_stream_read_def)
next
  case (Cons e es)
  then show ?case
    by (simp add: resume_def resume_stream_read_def step_reading_phase ac_simps)
qed

end
