(* ===== verification/Snapshot_Execute.thy ===== *)
theory Snapshot_Execute
  imports Execute
begin

text \<open>
  The path of \<open>execute\<close> for a command with a snapshot id (\<open>execute_with_snapshot\<close> and its helpers
  in \<open>eventcore/src/lib.rs\<close>). The world is the store with the number of await points passed; before
  the \<open>t\<close>-th one the batches \<open>sched t\<close> of other tasks are handed to the store, as in \<open>Execute\<close>.
  \<open>debug_assert\<close>s are those of a release build: not evaluated.
\<close>

section \<open>Outcomes and worlds\<close>

datatype ('x, 'a) outcome = Ok 'a | Err "'x command_error" | Panicked | OutOfFuel

fun obind :: "('x, 'a) outcome \<Rightarrow> ('a \<Rightarrow> ('x, 'b) outcome) \<Rightarrow> ('x, 'b) outcome" where
  "obind (Ok a) f = f a"
| "obind (Err e) f = Err e"
| "obind Panicked f = Panicked"
| "obind OutOfFuel f = OutOfFuel"

definition of_result :: "'x command_error + 'a \<Rightarrow> ('x, 'a) outcome" where
  "of_result r = (case r of Inl e \<Rightarrow> Err e | Inr a \<Rightarrow> Ok a)"

text \<open>The operator \<open>?\<close> on a result that came with a new world.\<close>

fun wbind ::
  "('x, 'a) outcome \<times> 'w \<Rightarrow> ('a \<Rightarrow> 'w \<Rightarrow> ('x, 'b) outcome \<times> 'w) \<Rightarrow> ('x, 'b) outcome \<times> 'w" where
  "wbind (Ok a, w) f = f a w"
| "wbind (Err e, w) f = (Err e, w)"
| "wbind (Panicked, w) f = (Panicked, w)"
| "wbind (OutOfFuel, w) f = (OutOfFuel, w)"

type_synonym 'st world = "nat \<times> 'st"

lemma obind_Ok_iff: "obind r f = Ok b \<longleftrightarrow> (\<exists>a. r = Ok a \<and> f a = Ok b)"
  by (cases r) auto

lemma of_result_simps [simp]: "of_result (Inl e) = Err e" "of_result (Inr a) = Ok a"
  by (simp_all add: of_result_def)

lemma of_result_Ok_iff [simp]: "of_result r = Ok a \<longleftrightarrow> r = Inr a"
  by (cases r) auto

lemma wbind_Ok_iff:
  "wbind r f = (Ok b, w') \<longleftrightarrow> (\<exists>a w. r = (Ok a, w) \<and> f a w = (Ok b, w'))"
  by (cases "(r, f)" rule: wbind.cases) auto

section \<open>Replaying streams\<close>

definition discover_related_streams ::
  "('ev, 's, 'json, 'x) command \<Rightarrow> 's \<Rightarrow> stream_id list \<Rightarrow> stream_id set
     \<Rightarrow> stream_id list \<times> stream_id set" where
  "discover_related_streams c s q sch =
     (case cmd_resolver c of None \<Rightarrow> (q, sch) | Some resolve \<Rightarrow> enqueue_new (resolve s) q sch)"

text \<open>Folding the items a stream yields, with their count.\<close>

fun apply_items ::
  "('ev, 's, 'json, 'x) command \<Rightarrow> 's \<Rightarrow> usize \<Rightarrow> 'ev event_stream \<Rightarrow> ('x, 's \<times> usize) outcome" where
  "apply_items c s n [] = Ok (s, n)"
| "apply_items c s n (Inr e # items) = apply_items c (cmd_apply c s e) (n + 1) items"
| "apply_items c s n (Inl err # items) = Err (StoreError err)"

definition apply_command_stream ::
  "('st, 'ev, 'json) store_ops \<Rightarrow> (nat \<Rightarrow> 'ev stream_writes list) \<Rightarrow> ('ev, 's, 'json, 'x) command
     \<Rightarrow> 's \<Rightarrow> stream_id \<Rightarrow> stream_version option \<Rightarrow> 'st world
     \<Rightarrow> ('x, 's \<times> usize) outcome \<times> 'st world" where
  "apply_command_stream ops sched c s sid after w =
     (let (t, st) = w; st1 = interfere ops (sched t) st;
          opened = (case after of Some v \<Rightarrow> op_read_after ops st1 sid v | None \<Rightarrow> op_read ops st1 sid)
      in (case opened of Inl e \<Rightarrow> Err (StoreError e) | Inr items \<Rightarrow> apply_items c s 0 items,
          (Suc t, st1)))"

record ('s, 'json) replay_progress =
  pr_state :: 's
  pr_queue :: "stream_id list"
  pr_visited :: "stream_id set"
  pr_scheduled :: "stream_id set"
  pr_versions :: "(stream_id, stream_version) hashmap"
  pr_checkpoints :: "'json replay_checkpoint list"

fun replay_remaining_streams ::
  "('st, 'ev, 'json) store_ops \<Rightarrow> (nat \<Rightarrow> 'ev stream_writes list) \<Rightarrow> ('ev, 's, 'json, 'x) command
     \<Rightarrow> nat \<Rightarrow> ('s, 'json) replay_progress \<Rightarrow> 'st world
     \<Rightarrow> ('x, ('s, 'json) replay_progress) outcome \<times> 'st world" where
  "replay_remaining_streams ops sched c 0 pr w = (OutOfFuel, w)"
| "replay_remaining_streams ops sched c (Suc fuel) pr w =
     (case pr_queue pr of
        [] \<Rightarrow> (Ok pr, w)
      | sid # q \<Rightarrow>
          if sid \<in> pr_visited pr
          then replay_remaining_streams ops sched c fuel (pr\<lparr>pr_queue := q\<rparr>) w
          else wbind (apply_command_stream ops sched c (pr_state pr) sid None w) (\<lambda>(s, count) w1.
            let vs = hm_insert sid count (pr_versions pr) in
            wbind (of_result (cmd_serialize c s), w1) (\<lambda>j w2.
              let (q', sch) = discover_related_streams c s q (pr_scheduled pr) in
              replay_remaining_streams ops sched c fuel
                \<lparr>pr_state = s, pr_queue = q', pr_visited = insert sid (pr_visited pr),
                  pr_scheduled = sch, pr_versions = vs,
                  pr_checkpoints = pr_checkpoints pr @
                    [\<lparr>rc_stream_id = sid, rc_state = j, rc_stream_versions = vs\<rparr>]\<rparr> w2)))"

section \<open>Discovery along checkpoints\<close>

fun discovery_steps ::
  "('ev, 's, 'json, 'x) command \<Rightarrow> ('s, 'json) replay_progress \<Rightarrow> 'json replay_checkpoint list
     \<Rightarrow> ('x, ('s, 'json) replay_progress) outcome" where
  "discovery_steps c pr [] = Ok pr"
| "discovery_steps c pr (cp # cps) =
     (case pr_queue pr of
        [] \<Rightarrow> Panicked
      | sid # q \<Rightarrow>
          obind (of_result (cmd_deserialize c (rc_state cp))) (\<lambda>s.
            let (q', sch) = discover_related_streams c s q (pr_scheduled pr) in
            discovery_steps c (pr\<lparr>pr_state := s, pr_queue := q',
              pr_visited := insert sid (pr_visited pr), pr_scheduled := sch\<rparr>) cps))"

definition discovery_before_checkpoint ::
  "('ev, 's, 'json, 'x) command \<Rightarrow> stream_id list \<Rightarrow> 'json replay_checkpoint list
     \<Rightarrow> ('x, ('s, 'json) replay_progress) outcome" where
  "discovery_before_checkpoint c declared cps =
     discovery_steps c \<lparr>pr_state = cmd_default c, pr_queue = declared, pr_visited = {},
       pr_scheduled = set declared, pr_versions = [], pr_checkpoints = []\<rparr> cps"

text \<open>The loop of \<open>snapshot_replay_order_is_valid\<close>: \<open>None\<close> is its early \<open>return Ok(false)\<close>.\<close>

fun replay_order ::
  "('ev, 's, 'json, 'x) command \<Rightarrow> stream_id list \<Rightarrow> stream_id set \<Rightarrow> stream_id set
     \<Rightarrow> 'json replay_checkpoint list \<Rightarrow> ('x, stream_id list option) outcome" where
  "replay_order c q vis sch [] = Ok (Some q)"
| "replay_order c q vis sch (cp # cps) =
     (case q of
        [] \<Rightarrow> Ok None
      | sid # rest \<Rightarrow>
          if sid \<noteq> rc_stream_id cp \<or> sid \<in> vis \<or> \<not> hm_contains (rc_stream_versions cp) sid then Ok None
          else obind (of_result (cmd_deserialize c (rc_state cp))) (\<lambda>s.
            let (q', sch') = discover_related_streams c s rest sch in
            replay_order c q' (insert sid vis) sch' cps))"

definition snapshot_replay_order_is_valid ::
  "('ev, 's, 'json, 'x) command \<Rightarrow> stream_id list \<Rightarrow> 'json command_state_snapshot
     \<Rightarrow> ('x, bool) outcome" where
  "snapshot_replay_order_is_valid c declared snap =
     (let cps = snap_checkpoints snap in
      if length (snap_stream_versions snap) \<noteq> length cps then Ok False
      else obind (discovery_before_checkpoint c declared ([] :: 'json replay_checkpoint list)) (\<lambda>pr.
        obind (replay_order c (pr_queue pr) (pr_visited pr) (pr_scheduled pr) cps) (\<lambda>r.
          case r of
            None \<Rightarrow> Ok False
          | Some q \<Rightarrow> Ok (q = [] \<and> list_all (\<lambda>(sid, v). cps \<noteq> []
              \<and> hm_get (rc_stream_versions (last cps)) sid = Some v) (snap_stream_versions snap)))))"

section \<open>Reconstruction\<close>

type_synonym ('s, 'json) reconstruction =
  "'s \<times> (stream_id, stream_version) hashmap \<times> 'json command_state_snapshot option"

definition replacement ::
  "('ev, 's, 'json, 'x) command \<Rightarrow> ('s, 'json) replay_progress
     \<Rightarrow> ('x, 'json command_state_snapshot) outcome" where
  "replacement c pr = obind (of_result (cmd_serialize c (pr_state pr)))
     (\<lambda>j. Ok (with_replay_checkpoints (snapshot_new j (pr_versions pr)) (pr_checkpoints pr)))"

text \<open>The body of the loop over the checkpoints once a stream with a tail is found.\<close>

definition replay_from_tail ::
  "('st, 'ev, 'json) store_ops \<Rightarrow> (nat \<Rightarrow> 'ev stream_writes list) \<Rightarrow> ('ev, 's, 'json, 'x) command
     \<Rightarrow> nat \<Rightarrow> stream_id list \<Rightarrow> 'json replay_checkpoint list \<Rightarrow> 'json replay_checkpoint
     \<Rightarrow> stream_version \<Rightarrow> 's \<Rightarrow> usize \<Rightarrow> 'st world
     \<Rightarrow> ('x, ('s, 'json) reconstruction) outcome \<times> 'st world" where
  "replay_from_tail ops sched c fuel declared before cp base s tail_count w =
     (let sid = rc_stream_id cp; vs = hm_insert sid (base + tail_count) (rc_stream_versions cp) in
      wbind (of_result (cmd_serialize c s), w) (\<lambda>j w.
      wbind (discovery_before_checkpoint c declared before, w) (\<lambda>pr w.
        case pr_queue pr of
          [] \<Rightarrow> (Panicked, w)
        | _ # q \<Rightarrow>
            let (q', sch) = discover_related_streams c s q (pr_scheduled pr) in
            wbind (replay_remaining_streams ops sched c fuel
                \<lparr>pr_state = s, pr_queue = q', pr_visited = insert sid (pr_visited pr),
                  pr_scheduled = sch, pr_versions = vs,
                  pr_checkpoints = before @ [\<lparr>rc_stream_id = sid, rc_state = j, rc_stream_versions = vs\<rparr>]\<rparr> w)
              (\<lambda>pr' w. wbind (replacement c pr', w)
                (\<lambda>snap w. (Ok (pr_state pr', pr_versions pr', Some snap), w))))))"

fun resume_from_checkpoints ::
  "('st, 'ev, 'json) store_ops \<Rightarrow> (nat \<Rightarrow> 'ev stream_writes list) \<Rightarrow> ('ev, 's, 'json, 'x) command
     \<Rightarrow> nat \<Rightarrow> stream_id list \<Rightarrow> 'json replay_checkpoint list \<Rightarrow> 'json replay_checkpoint list
     \<Rightarrow> 'st world \<Rightarrow> ('x, ('s, 'json) reconstruction option) outcome \<times> 'st world" where
  "resume_from_checkpoints ops sched c fuel declared before [] w = (Ok None, w)"
| "resume_from_checkpoints ops sched c fuel declared before (cp # cps) w =
     (case hm_get (rc_stream_versions cp) (rc_stream_id cp) of
        None \<Rightarrow> (Panicked, w)
      | Some base \<Rightarrow>
          wbind (of_result (cmd_deserialize c (rc_state cp)), w) (\<lambda>s0 w.
          wbind (apply_command_stream ops sched c s0 (rc_stream_id cp) (Some base) w)
            (\<lambda>(s, tail_count) w.
              if tail_count = 0
              then resume_from_checkpoints ops sched c fuel declared (before @ [cp]) cps w
              else wbind (replay_from_tail ops sched c fuel declared before cp base s tail_count w)
                (\<lambda>r w. (Ok (Some r), w)))))"

definition refresh_threshold :: usize where
  "refresh_threshold = 100"

definition full_replay ::
  "('st, 'ev, 'json) store_ops \<Rightarrow> (nat \<Rightarrow> 'ev stream_writes list) \<Rightarrow> ('ev, 's, 'json, 'x) command
     \<Rightarrow> nat \<Rightarrow> stream_id list \<Rightarrow> 'st world
     \<Rightarrow> ('x, ('s, 'json) reconstruction) outcome \<times> 'st world" where
  "full_replay ops sched c fuel declared w =
     wbind (discovery_before_checkpoint c declared ([] :: 'json replay_checkpoint list), w) (\<lambda>pr0 w.
     wbind (replay_remaining_streams ops sched c fuel pr0 w) (\<lambda>pr w.
       if refresh_threshold \<le> sum_list (map snd (pr_versions pr))
       then wbind (replacement c pr, w) (\<lambda>snap w. (Ok (pr_state pr, pr_versions pr, Some snap), w))
       else (Ok (pr_state pr, pr_versions pr, None), w)))"

definition reconstruct_command_snapshot ::
  "('st, 'ev, 'json) store_ops \<Rightarrow> (nat \<Rightarrow> 'ev stream_writes list) \<Rightarrow> ('ev, 's, 'json, 'x) command
     \<Rightarrow> nat \<Rightarrow> stream_id list \<Rightarrow> 'json command_state_snapshot option \<Rightarrow> 'st world
     \<Rightarrow> ('x, ('s, 'json) reconstruction) outcome \<times> 'st world" where
  "reconstruct_command_snapshot ops sched c fuel declared stored w =
     (case stored of
        None \<Rightarrow> full_replay ops sched c fuel declared w
      | Some snap \<Rightarrow>
          wbind (snapshot_replay_order_is_valid c declared snap, w) (\<lambda>valid w.
            if \<not> valid then full_replay ops sched c fuel declared w
            else wbind (resume_from_checkpoints ops sched c fuel declared [] (snap_checkpoints snap) w)
              (\<lambda>r w. case r of
                 Some result \<Rightarrow> (Ok result, w)
               | None \<Rightarrow> wbind (of_result (cmd_deserialize c (snap_state snap)), w)
                   (\<lambda>s w. (Ok (s, snap_stream_versions snap, None), w)))))"

section \<open>The attempt loop\<close>

text \<open>One store operation with other tasks' batches before it.\<close>

definition load_step ::
  "('st, 'ev, 'json) store_ops \<Rightarrow> (nat \<Rightarrow> 'ev stream_writes list) \<Rightarrow> rstring \<Rightarrow> 'st world
     \<Rightarrow> ('x, 'json command_state_snapshot option) outcome \<times> 'st world" where
  "load_step ops sched i w =
     (let (t, st) = w; st1 = interfere ops (sched t) st in
      (of_result (map_err StoreError (op_load_snapshot ops st1 i)), (Suc t, st1)))"

definition save_step ::
  "('st, 'ev, 'json) store_ops \<Rightarrow> (nat \<Rightarrow> 'ev stream_writes list) \<Rightarrow> rstring
     \<Rightarrow> 'json command_state_snapshot option \<Rightarrow> 'st world \<Rightarrow> ('x, unit) outcome \<times> 'st world" where
  "save_step ops sched i snapshot w =
     (case snapshot of
        None \<Rightarrow> (Ok (), w)
      | Some s \<Rightarrow>
          let (t, st) = w; st1 = interfere ops (sched t) st; (r, st2) = op_save_snapshot ops st1 i s
          in (of_result (map_err StoreError r), (Suc t, st2)))"

definition append_step ::
  "('st, 'ev, 'json) store_ops \<Rightarrow> (nat \<Rightarrow> 'ev stream_writes list) \<Rightarrow> 'ev stream_writes \<Rightarrow> 'st world
     \<Rightarrow> (event_store_error + unit) \<times> 'st world" where
  "append_step ops sched writes w =
     (let (t, st) = w; st1 = interfere ops (sched t) st; (r, st2) = op_append ops st1 writes
      in (r, (Suc t, st2)))"

definition sleep_step ::
  "('st, 'ev, 'json) store_ops \<Rightarrow> (nat \<Rightarrow> 'ev stream_writes list) \<Rightarrow> 'st world \<Rightarrow> 'st world" where
  "sleep_step ops sched w = (let (t, st) = w in (Suc t, interfere ops (sched t) st))"

text \<open>From the load to the batch of one attempt.\<close>

definition prepare_attempt ::
  "('st, 'ev, 'json) store_ops \<Rightarrow> (nat \<Rightarrow> 'ev stream_writes list) \<Rightarrow> ('ev, 's, 'json, 'x) command
     \<Rightarrow> nat \<Rightarrow> rstring \<Rightarrow> stream_id list \<Rightarrow> 'st world \<Rightarrow> ('x, 'ev stream_writes) outcome \<times> 'st world" where
  "prepare_attempt ops sched c fuel i declared w =
     wbind (load_step ops sched i w) (\<lambda>stored w.
     wbind (reconstruct_command_snapshot ops sched c fuel declared stored w) (\<lambda>(s, expected, to_persist) w.
     wbind (save_step ops sched i to_persist w) (\<lambda>u w.
     wbind (of_result (cmd_handle c s), w) (\<lambda>events w.
     wbind (of_result (build_stream_writes_from_events (cmd_event c) events expected), w)
       (\<lambda>writes w. (Ok writes, w))))))"

fun snapshot_attempts ::
  "('st, 'ev, 'json) store_ops \<Rightarrow> (nat \<Rightarrow> 'ev stream_writes list) \<Rightarrow> (nat \<Rightarrow> u64 \<Rightarrow> u64)
     \<Rightarrow> ('ev, 's, 'json, 'x) command \<Rightarrow> retry_policy \<Rightarrow> nat \<Rightarrow> rstring \<Rightarrow> stream_id list
     \<Rightarrow> nat \<Rightarrow> u32 \<Rightarrow> retry_context list \<Rightarrow> 'st world
     \<Rightarrow> ('x, execution_response) outcome \<times> retry_context list \<times> 'st world" where
  "snapshot_attempts ops sched jitter c policy fuel i declared 0 attempt hooks w = (OutOfFuel, hooks, w)"
| "snapshot_attempts ops sched jitter c policy fuel i declared (Suc rounds) attempt hooks w =
     (case prepare_attempt ops sched c fuel i declared w of
        (Ok writes, w1) \<Rightarrow>
          (case append_step ops sched writes w1 of
             (Inr _, w2) \<Rightarrow>
               (case execution_response_new (attempt + 1) of
                  None \<Rightarrow> (Panicked, hooks, w2)
                | Some resp \<Rightarrow> (Ok resp, hooks, w2))
           | (Inl (VersionConflict _ _ _), w2) \<Rightarrow>
               if attempt < rp_max_retries policy then
                 let delay_ms = compute_retry_delay_ms (jitter (fst w2)) (rp_backoff_strategy policy) attempt in
                 case non_zero_u32 (attempt + 1) of
                   None \<Rightarrow> (Panicked, hooks, w2)
                 | Some n \<Rightarrow>
                     snapshot_attempts ops sched jitter c policy fuel i declared rounds (attempt + 1)
                       (hooks @ (if rp_metrics_hook policy
                          then [\<lparr>rctx_streams = declared, rctx_attempt = n, rctx_delay_ms = delay_ms\<rparr>] else []))
                       (sleep_step ops sched w2)
               else (Err (ConcurrencyError (rp_max_retries policy)), hooks, w2)
           | (Inl other, w2) \<Rightarrow> (Err (StoreError other), hooks, w2))
      | (Err e, w1) \<Rightarrow> (Err e, hooks, w1)
      | (Panicked, w1) \<Rightarrow> (Panicked, hooks, w1)
      | (OutOfFuel, w1) \<Rightarrow> (OutOfFuel, hooks, w1))"

definition execute_with_snapshot ::
  "('st, 'ev, 'json) store_ops \<Rightarrow> (nat \<Rightarrow> 'ev stream_writes list) \<Rightarrow> (nat \<Rightarrow> u64 \<Rightarrow> u64)
     \<Rightarrow> nat \<Rightarrow> nat \<Rightarrow> ('ev, 's, 'json, 'x) command \<Rightarrow> retry_policy \<Rightarrow> rstring \<Rightarrow> stream_id list
     \<Rightarrow> 'st \<Rightarrow> ('x, execution_response) outcome \<times> retry_context list \<times> 'st world" where
  "execute_with_snapshot ops sched jitter fuel rounds c policy i declared st =
     snapshot_attempts ops sched jitter c policy fuel i declared rounds 0 [] (0, st)"

section \<open>execute\<close>

text \<open>
  \<open>execute\<close> itself: the snapshot path for a command with a snapshot id, the pipeline for the others.
  The fuel bounds effects of the pipeline, or streams of a replay and rounds of the attempt loop.
\<close>

definition execute ::
  "('st, 'ev, 'json) store_ops \<Rightarrow> (nat \<Rightarrow> 'ev stream_writes list) \<Rightarrow> (nat \<Rightarrow> u64 \<Rightarrow> u64)
     \<Rightarrow> nat \<Rightarrow> ('ev, 's, 'json, 'x) command \<Rightarrow> retry_policy \<Rightarrow> 'st
     \<Rightarrow> ('x exec_result \<times> retry_context list \<times> 'st) option" where
  "execute ops sched jitter fuel c policy st =
     (case cmd_snapshot_id c of
        Some i \<Rightarrow>
          (case execute_with_snapshot ops sched jitter fuel fuel c policy i
              (decl_streams (cmd_declarations c)) st of
             (Ok resp, hooks, (_, st')) \<Rightarrow> Some (ExecOk resp, hooks, st')
           | (Err e, hooks, (_, st')) \<Rightarrow> Some (ExecErr e, hooks, st')
           | (Panicked, hooks, (_, st')) \<Rightarrow> Some (ExecPanic, hooks, st')
           | (OutOfFuel, _, _) \<Rightarrow> None)
      | None \<Rightarrow>
          map_option (\<lambda>(r, p, st'). (r, pl_hook_calls p, st'))
            (execute_run ops sched jitter fuel c policy st))"

end
