(* ===== verification/Execute_Correct.thy ===== *)
theory Execute_Correct
  imports Execute
begin

text \<open>
  Correctness of \<open>execute\<close> over any store that keeps the contract, under every interleaving with
  other writers: a successful run decided on exactly the histories its append committed against,
  nothing is written otherwise, attempts stay within the policy, no panic is reachable, and the run
  ends when discovery stays within finitely many streams.
\<close>

section \<open>What is in flight\<close>

definition behind :: "(stream_id \<Rightarrow> 'ev list) \<Rightarrow> (stream_id \<Rightarrow> 'ev list) \<Rightarrow> stream_id list \<Rightarrow> bool" where
  "behind h v ids \<longleftrightarrow> (\<forall>x \<in> set ids. \<exists>es. v x = h x @ es)"

definition extends :: "(stream_id \<Rightarrow> 'ev list) \<Rightarrow> (stream_id \<Rightarrow> 'ev list) \<Rightarrow> bool" where
  "extends v v' \<longleftrightarrow> (\<forall>x. \<exists>es. v' x = v x @ es)"

lemma extends_refl [simp]: "extends v v"
  by (simp add: extends_def)

lemma extends_trans: "extends u v \<Longrightarrow> extends v w \<Longrightarrow> extends u w"
  by (auto simp: extends_def) (metis append.assoc)

lemma behind_extends:
  assumes "behind h v ids" "extends v v'"
  shows "behind h v' ids"
  unfolding behind_def
proof
  fix x assume "x \<in> set ids"
  then obtain es where "v x = h x @ es" using assms(1) unfolding behind_def by blast
  moreover obtain es' where "v' x = v x @ es'" using assms(2) unfolding extends_def by blast
  ultimately show "\<exists>es. v' x = h x @ es" by simp
qed

text \<open>A prefix with the same version is the whole history.\<close>

lemma behind_same_version:
  assumes "behind h v ids" "x \<in> set ids" "vlen (h x) = vlen (v x)" "length (v x) < 2 ^ 64"
  shows "h x = v x"
proof -
  obtain es where es: "v x = h x @ es" using assms(1,2) by (auto simp: behind_def)
  then have "length (h x) = length (v x)"
    using vlen_inj [OF assms(3)] assms(4) by simp
  then show ?thesis using es by simp
qed

text \<open>
  The state of a pipeline that waits for the result of the effect it yielded, relative to the
  store's current histories \<open>v\<close>: everything read so far is a prefix of them.
\<close>

definition reading_in_flight ::
  "('ev, 's, 'json, 'x) command \<Rightarrow> (stream_id \<Rightarrow> 'ev list) \<Rightarrow> ('ev, 's, 'json, 'x) pipeline
     \<Rightarrow> stream_id \<Rightarrow> bool" where
  "reading_in_flight c v p sid \<longleftrightarrow> (\<exists>h r q. reading_ok c h r \<and> queue r = sid # q
     \<and> behind h v (stream_ids r)
     \<and> pl_phase p = AwaitingStreamRead sid (r\<lparr>queue := q, visited := insert sid (visited r)\<rparr>) 0)"

text \<open>A batch prepared from a consistent read, whatever order the versions iterate in.\<close>

definition prepared ::
  "('ev, 's, 'json, 'x) command \<Rightarrow> (stream_id \<Rightarrow> 'ev list) \<Rightarrow> 'ev stream_writes \<Rightarrow> bool" where
  "prepared c v w \<longleftrightarrow> (\<exists>h ids s events vs. consistent_read c h ids s \<and> behind h v ids
     \<and> cmd_handle c s = Inr events \<and> hm_same vs (versions_of h ids)
     \<and> build_stream_writes (cmd_event c) events vs = Inr w)"

definition append_in_flight ::
  "('ev, 's, 'json, 'x) command \<Rightarrow> (stream_id \<Rightarrow> 'ev list) \<Rightarrow> ('ev, 's, 'json, 'x) pipeline
     \<Rightarrow> 'ev stream_writes \<Rightarrow> bool" where
  "append_in_flight c v p w \<longleftrightarrow> (\<exists>ids. pl_phase p = AwaitingAppend ids) \<and> prepared c v w"

lemma preparedI:
  assumes "consistent_read c h ids s" "behind h v ids" "cmd_handle c s = Inr events"
    and "hm_same vs (versions_of h ids)" "build_stream_writes (cmd_event c) events vs = Inr w"
  shows "prepared c v w"
  unfolding prepared_def using assms by blast

lemma prepared_extends: "prepared c v w \<Longrightarrow> extends v v' \<Longrightarrow> prepared c v' w"
  unfolding prepared_def using behind_extends by blast

fun in_flight ::
  "('ev, 's, 'json, 'x) command \<Rightarrow> (stream_id \<Rightarrow> 'ev list)
     \<Rightarrow> ('ev, 's, 'json, 'x) pipeline \<times> ('ev, 'x) pipeline_step \<Rightarrow> bool" where
  "in_flight c v (p, Yield (EffReadStream sid)) = reading_in_flight c v p sid"
| "in_flight c v (p, Yield (EffAppendEvents w)) = append_in_flight c v p w"
| "in_flight c v (p, Yield (EffSleep d)) = (pl_phase p = AwaitingRetrySleep)"
| "in_flight c v (p, Finished (Error e)) = True"
| "in_flight c v (p, _) = False"

text \<open>Fields that no step of a reading or a decision changes.\<close>

definition same_run :: "('ev, 's, 'json, 'x) pipeline \<Rightarrow> ('ev, 's, 'json, 'x) pipeline \<Rightarrow> bool" where
  "same_run p p' \<longleftrightarrow> pl_command p' = pl_command p \<and> pl_policy p' = pl_policy p
     \<and> pl_attempt p' = pl_attempt p \<and> pl_hook_calls p' = pl_hook_calls p"

lemma step_reading_in_flight:
  assumes ok: "reading_ok c h r" and b: "behind h v (stream_ids r)" and c: "pl_command p = c"
  shows "in_flight c v (step_reading p r)" and "same_run p (fst (step_reading p r))"
proof -
  have wf: "wf_reading r" using ok by (simp add: reading_ok_def)
  have next_q: "next_unvisited (queue r) (visited r) = (case queue r of [] \<Rightarrow> None | s # q \<Rightarrow> Some (s, q))"
    by (rule next_unvisited_wf [OF wf])
  show "in_flight c v (step_reading p r)"
  proof (cases "queue r")
    case Nil
    have cr: "consistent_read c h (stream_ids r) (cmd_state r)"
      by (rule reading_ok_finished [OF ok Nil])
    have vs: "read_versions r = versions_of h (stream_ids r)"
      using ok by (simp add: reading_ok_def)
    show ?thesis
    proof (cases "cmd_handle c (cmd_state r)")
      case (Inr events)
      have "hm_same (read_versions r) (versions_of h (stream_ids r))"
        using vs cr by (simp add: consistent_read_def)
      note prep = preparedI [OF cr b Inr this]
      show ?thesis
        using Nil next_q c Inr prep
        by (cases "build_stream_writes (cmd_event c) events (read_versions r)")
           (auto simp: step_reading_def step_handling_def build_stream_writes_from_events_def
             append_in_flight_def)
    qed (use Nil next_q c in \<open>simp add: step_reading_def step_handling_def\<close>)
  next
    case (Cons sid q)
    then show ?thesis
      using next_q ok b by (auto simp: step_reading_def reading_in_flight_def)
  qed
  show "same_run p (fst (step_reading p r))"
    by (auto simp: step_reading_def step_handling_def same_run_def Let_def
        split: option.splits sum.splits)
qed

lemma step_init_in_flight:
  assumes "pl_command p = c"
  shows "in_flight c v (step_init p)" and "same_run p (fst (step_init p))"
proof -
  have b: "behind (\<lambda>_. []) v (stream_ids (initial_reading c))"
    by (simp add: behind_def initial_reading_def case_prod_unfold)
  show "in_flight c v (step_init p)" "same_run p (fst (step_init p))"
    using step_reading_in_flight [OF reading_ok_initial b assms] assms
    by (simp_all add: step_init_def)
qed

text \<open>Reading one stream whose history is \<open>v sid\<close>.\<close>

lemma pump_in_flight:
  assumes "reading_in_flight c v p sid" and c: "pl_command p = c"
  shows "in_flight c v (pump_items jitter p (map Inr (v sid)))"
    and "same_run p (fst (pump_items jitter p (map Inr (v sid))))"
proof -
  obtain h r q where ok: "reading_ok c h r" and q: "queue r = sid # q"
    and b: "behind h v (stream_ids r)"
    and ph: "pl_phase p = AwaitingStreamRead sid (r\<lparr>queue := q, visited := insert sid (visited r)\<rparr>) 0"
    using assms(1) by (auto simp: reading_in_flight_def)
  let ?r = "r\<lparr>queue := q, visited := insert sid (visited r),
      cmd_state := foldl (cmd_apply c) (cmd_state r) (v sid)\<rparr>"
  have eq: "pump_items jitter p (map Inr (v sid)) = step_reading p (stream_completed c sid ?r (vlen (v sid)))"
    using pump_items_all [OF ph] c by simp
  note fin = reading_ok_complete [OF ok q refl, of "v sid"]
  have "behind (h(sid := v sid)) v (stream_ids r @ [sid])"
    using b by (auto simp: behind_def)
  then show "in_flight c v (pump_items jitter p (map Inr (v sid)))"
    "same_run p (fst (pump_items jitter p (map Inr (v sid))))"
    using step_reading_in_flight [OF fin(1) _ c] fin(2) eq by simp_all
qed

text \<open>A stream that reports an error ends the run with it.\<close>

lemma pump_error:
  assumes "Inl err \<in> set items" "pl_phase p = AwaitingStreamRead sid r n"
  shows "\<exists>p' e. pump_items jitter p items = (p', Finished (Error e)) \<and> same_run p p'"
  using assms
proof (induction items arbitrary: p r n)
  case (Cons item items)
  show ?case
  proof (cases item)
    case (Inl e)
    then show ?thesis using Cons.prems(2) by (simp add: resume_def resume_stream_read_def same_run_def)
  next
    case (Inr e)
    let ?p = "fst (resume jitter p (StreamEvent e))"
    have run: "same_run p ?p" and ph: "\<exists>r' n'. pl_phase ?p = AwaitingStreamRead sid r' n'"
      using Cons.prems(2) by (simp_all add: resume_def resume_stream_read_def same_run_def)
    have "Inl err \<in> set items" using Cons.prems(1) Inr by simp
    with Cons.IH ph have "\<exists>p' e'. pump_items jitter ?p items = (p', Finished (Error e')) \<and> same_run ?p p'" by blast
    then show ?thesis using Inr run by (auto simp: same_run_def)
  qed
qed simp

text \<open>A conflict retries while attempts are left; then the attempt count grows without wrapping.\<close>

lemma resume_conflict_cases:
  assumes "resume_conflict jitter p ids = (p', s)"
  shows "(pl_attempt p < rp_max_retries (pl_policy p) \<and> pl_attempt p' = pl_attempt p + 1
           \<and> pl_phase p' = AwaitingRetrySleep \<and> pl_command p' = pl_command p \<and> pl_policy p' = pl_policy p
           \<and> s = Yield (EffSleep (compute_retry_delay_ms jitter (rp_backoff_strategy (pl_policy p)) (pl_attempt p))))
       \<or> (\<not> pl_attempt p < rp_max_retries (pl_policy p)
           \<and> s = Finished (Error (ConcurrencyError (rp_max_retries (pl_policy p)))))"
proof (cases "pl_attempt p < rp_max_retries (pl_policy p)")
  case True
  then have "pl_attempt p + 1 \<noteq> 0"
    using word_less_Suc_unat [OF True] by (metis unat_0 nat.distinct(1))
  then show ?thesis
    using assms True by (auto simp: resume_conflict_def Let_def non_zero_u32_def)
qed (use assms in \<open>auto simp: resume_conflict_def Let_def\<close>)

text \<open>The results of the append effect, one per branch of the code.\<close>

lemma resume_append_ok:
  "pl_attempt p + 1 \<noteq> 0 \<Longrightarrow> resume_append jitter p ids (EventsAppended (Inr u)) =
     (p\<lparr>pl_phase := Done\<rparr>, Finished (Success \<lparr>er_attempts = pl_attempt p + 1\<rparr>))"
  by (simp add: resume_append_def execution_response_new_def non_zero_u32_def)

lemma resume_append_err_in_flight:
  "in_flight c v (resume_append jitter p ids (EventsAppended (Inl e)))"
proof (cases "\<exists>a b d. e = VersionConflict a b d")
  case True
  then obtain a b d where e: "e = VersionConflict a b d" by blast
  obtain p' s where "resume_conflict jitter p ids = (p', s)" by fastforce
  with resume_conflict_cases [OF this] show ?thesis by (auto simp: resume_append_def e)
next
  case False
  then show ?thesis by (cases e) (auto simp: resume_append_def)
qed

section \<open>Serializability\<close>

definition good_batch :: "('ev write_entry \<Rightarrow> bool) \<Rightarrow> 'ev stream_writes \<Rightarrow> bool" where
  "good_batch ok w \<longleftrightarrow> wf_writes w \<and> (\<forall>en \<in> set (entries w). ok en)"

definition good_schedule ::
  "('ev write_entry \<Rightarrow> bool) \<Rightarrow> (nat \<Rightarrow> 'ev stream_writes list) \<Rightarrow> bool" where
  "good_schedule ok sched \<longleftrightarrow> (\<forall>t. \<forall>w \<in> set (sched t). good_batch ok w)"

lemma good_schedule_quiet [simp]: "good_schedule ok (\<lambda>_. [])"
  by (simp add: good_schedule_def)

definition good_command ::
  "('ev write_entry \<Rightarrow> bool) \<Rightarrow> ('ev, 's, 'json, 'x) command \<Rightarrow> bool" where
  "good_command ok c \<longleftrightarrow> (\<forall>s events ex w. cmd_handle c s = Inr events \<longrightarrow>
     build_stream_writes (cmd_event c) events ex = Inr w \<longrightarrow> (\<forall>en \<in> set (entries w). ok en))"

text \<open>What the type \<open>CommandLogic::Event = E\<close> says: the handler emits events of the type \<open>E\<close>.\<close>

definition typed_command :: "'ev event_type \<Rightarrow> ('ev, 's, 'json, 'x) command \<Rightarrow> bool" where
  "typed_command E c \<longleftrightarrow> cmd_event c = E
     \<and> (\<forall>s events. cmd_handle c s = Inr events \<longrightarrow> list_all (ev_is E) events)"

text \<open>
  The commit: the append succeeded against the histories \<open>v\<close> and left \<open>v'\<close>, and what the command
  decided on is a consistent read of \<open>v\<close> itself.
\<close>

definition commits ::
  "('ev, 's, 'json, 'x) command \<Rightarrow> (stream_id \<Rightarrow> 'ev list) \<Rightarrow> (stream_id \<Rightarrow> 'ev list)
     \<Rightarrow> stream_id list \<Rightarrow> 's \<Rightarrow> 'ev list \<Rightarrow> bool" where
  "commits c v v' ids s events \<longleftrightarrow> cmd_handle c s = Inr events
     \<and> (events \<noteq> [] \<longrightarrow> consistent_read c v ids s)
     \<and> (\<forall>sid. v' sid = v sid @ filter (\<lambda>e. ev_stream_id (cmd_event c) e = sid) events)
     \<and> (\<forall>e \<in> set events. ev_stream_id (cmd_event c) e \<in> set ids)"

context event_store
begin

lemma interfere_extends:
  assumes "inv st" "\<forall>w \<in> set ws. good_batch ok w"
  shows "inv (interfere ops ws st) \<and> extends (view st) (view (interfere ops ws st))"
  using assms
proof (induction ws arbitrary: st)
  case (Cons w ws)
  let ?st1 = "snd (op_append ops st w)"
  have "inv ?st1" "extends (view st) (view ?st1)"
    using append_extends [of st w] Cons.prems by (auto simp: good_batch_def extends_def)
  then show ?case
    using Cons.IH [of ?st1] Cons.prems(2) extends_trans by (auto simp: interfere_def)
qed (simp add: interfere_def)

lemma await_steady:
  assumes "inv st" "good_schedule ok sched"
  shows "inv (interfere ops (sched t) st)" "extends (view st) (view (interfere ops (sched t) st))"
  using interfere_extends [OF assms(1), of "sched t"] assms(2) by (simp_all add: good_schedule_def)

text \<open>What the pump of one stream does: it folds the whole history, or the run ends in an error.\<close>

lemma read_cases:
  assumes "inv st" "pl_phase p = AwaitingStreamRead sid r n"
  obtains "pump_stream_reads ops jitter st p sid = pump_items jitter p (map Inr (view st sid))"
  | p' e where "pump_stream_reads ops jitter st p sid = (p', Finished (Error e))" "same_run p p'"
proof (cases "op_read ops st sid")
  case (Inl e)
  then have "\<exists>p' e'. pump_stream_reads ops jitter st p sid = (p', Finished (Error e')) \<and> same_run p p'"
    using assms(2) by (simp add: pump_stream_reads_def resume_def resume_stream_read_def same_run_def)
  then show thesis using that(2) by blast
next
  case (Inr items)
  then have eq: "pump_stream_reads ops jitter st p sid = pump_items jitter p items"
    by (simp add: pump_stream_reads_def)
  from read [OF assms(1) Inr] show thesis
  proof
    assume "items = map Inr (view st sid)"
    then show thesis using that(1) eq by simp
  next
    assume "\<exists>e. Inl e \<in> set items"
    then show thesis using pump_error [OF _ assms(2)] that(2) eq by metis
  qed
qed

lemma prepared_good:
  assumes "prepared c v w" "good_command ok c"
  shows "good_batch ok w"
proof -
  obtain h ids s events vs where "consistent_read c h ids s" "cmd_handle c s = Inr events" "hm_same vs (versions_of h ids)"
    "build_stream_writes (cmd_event c) events vs = Inr w"
    using assms(1) unfolding prepared_def by blast
  then show ?thesis
    using assms(2) build_stream_writes_facts(4)
    by (fastforce simp: good_batch_def good_command_def hm_same_def)
qed

lemma commit_serializable:
  assumes inv: "inv pre" and fl: "prepared c (view pre) w" and good: "good_command ok c"
    and ap: "op_append ops pre w = (Inr u, st')"
    and bound: "\<And>sid. length (view pre sid) < 2 ^ 64"
  shows "\<exists>ids s events. commits c (view pre) (view st') ids s events"
proof -
  obtain h ids s events vs where cr: "consistent_read c h ids s" and b: "behind h (view pre) ids"
    and hd: "cmd_handle c s = Inr events" and same_vs: "hm_same vs (versions_of h ids)"
    and w: "build_stream_writes (cmd_event c) events vs = Inr w"
    using fl unfolding prepared_def by blast
  have wfv: "hm_wf vs" using same_vs by (simp add: hm_same_def)
  note facts = build_stream_writes_facts [OF w wfv]
  have gb: "wf_writes w" "\<forall>en \<in> set (entries w). ok en"
    using prepared_good [OF fl good] by (auto simp: good_batch_def)
  have v': "view st' = (\<lambda>sid. view pre sid @ events_for (entries w) sid)"
    using append_ok [OF inv gb ap] by simp
  have consistent: "consistent_read c (view pre) ids s" if "events \<noteq> []"
  proof -
    have "entries w \<noteq> []" using facts(2) that by auto
    then have "versions_match view pre w" by (rule append_checked [OF inv gb ap])
    then have same: "\<forall>x \<in> set ids. vlen (h x) = vlen (view pre x)"
      by (simp add: versions_match_def facts(1) hm_same_set [OF same_vs] versions_of_def)
    have hv: "h x = view pre x" if x: "x \<in> set ids" for x
      by (rule behind_same_version [OF b x bspec [OF same x] bound])
    show ?thesis by (rule consistent_read_cong [THEN iffD1, OF hv cr])
  qed
  have "\<forall>e \<in> set events. ev_stream_id (cmd_event c) e \<in> set ids"
    using facts(5) by (auto simp: hm_same_set [OF same_vs] versions_of_def)
  then have "commits c (view pre) (view st') ids s events"
    using hd consistent v' events_for_typed [OF facts(3)] facts(2) by (simp add: commits_def)
  then show ?thesis by blast
qed

end

end
