(* ===== verification/Execute_Runs.thy ===== *)
theory Execute_Runs
  imports Execute_Correct
begin

text \<open>
  Whole runs of the shell loop over any store that keeps the contract: soundness of every result,
  and termination within an explicit number of effects.
\<close>

section \<open>The invariant of the loop\<close>

definition run_ok ::
  "('ev, 's, 'json, 'x) command \<Rightarrow> retry_policy \<Rightarrow> (stream_id \<Rightarrow> 'ev list)
     \<Rightarrow> ('ev, 's, 'json, 'x) pipeline \<times> ('ev, 'x) pipeline_step \<Rightarrow> bool" where
  "run_ok c policy v ps \<longleftrightarrow> pl_command (fst ps) = c \<and> pl_policy (fst ps) = policy
     \<and> pl_attempt (fst ps) \<le> rp_max_retries policy \<and> in_flight c v ps"

text \<open>What a result says of the histories before and after.\<close>

fun result_ok ::
  "('ev, 's, 'json, 'x) command \<Rightarrow> retry_policy \<Rightarrow> (stream_id \<Rightarrow> 'ev list) \<Rightarrow> (stream_id \<Rightarrow> 'ev list)
     \<Rightarrow> 'x exec_result \<Rightarrow> bool" where
  "result_ok c policy v0 v' (ExecOk resp) =
     (1 \<le> unat (er_attempts resp) \<and> unat (er_attempts resp) \<le> Suc (unat (rp_max_retries policy))
      \<and> (\<exists>v ids s events. extends v0 v \<and> commits c v v' ids s events))"
| "result_ok c policy v0 v' (ExecErr e) = True"
| "result_ok c policy v0 v' ExecPanic = False"

lemma run_ok_start: "run_ok c policy v (step (pipeline_new c policy))"
proof -
  have "pl_command (pipeline_new c policy) = c" by (simp add: pipeline_new_def)
  from step_init_in_flight [OF this] show ?thesis
    by (simp add: run_ok_def step_def same_run_def pipeline_new_def)
qed

lemma attempts_next:
  fixes a m :: u32
  assumes "a \<le> m" "m \<noteq> - 1"
  shows "a + 1 \<noteq> 0" and "unat (a + 1) = Suc (unat a)"
proof -
  have "m < - 1" using assms(2) by (simp add: word_order.not_eq_extremum)
  then have "a < - 1" using assms(1) by (rule order.strict_trans1 [rotated])
  then show "unat (a + 1) = Suc (unat a)" by (rule word_less_Suc_unat)
  then show "a + 1 \<noteq> 0" by (metis unat_0 nat.distinct(1))
qed

lemma resume_append_err_run_ok:
  assumes "pl_command p = c" "pl_policy p = policy" "pl_attempt p \<le> rp_max_retries policy"
  shows "run_ok c policy v (resume_append jitter p ids (EventsAppended (Inl e)))"
proof -
  obtain p' s where r: "resume_append jitter p ids (EventsAppended (Inl e)) = (p', s)" by fastforce
  have fl: "in_flight c v (p', s)"
    using resume_append_err_in_flight r by metis
  have "pl_command p' = c \<and> pl_policy p' = policy \<and> pl_attempt p' \<le> rp_max_retries policy"
  proof (cases "(\<exists>a b d. e = VersionConflict a b d) \<and> pl_attempt p < rp_max_retries (pl_policy p)")
    case True
    then obtain a b d where e: "e = VersionConflict a b d" by blast
    have conf: "resume_conflict jitter p ids = (p', s)" using r by (simp add: resume_append_def e)
    have "pl_attempt p + 1 \<le> rp_max_retries policy"
      using True assms(2) by (simp add: inc_le)
    then show ?thesis using resume_conflict_cases [OF conf] True assms by auto
  next
    case False
    then show ?thesis using r assms
      by (cases e) (auto simp: resume_append_def resume_conflict_def Let_def)
  qed
  then show ?thesis using fl r by (simp add: run_ok_def)
qed

context event_store
begin

lemma read_effect:
  assumes "inv st" and run: "run_ok c policy (view st) (p, Yield (EffReadStream sid))"
  shows "run_ok c policy (view st) (pump_stream_reads ops jitter st p sid)"
proof -
  have fl: "reading_in_flight c (view st) p sid" "pl_command p = c"
    using run by (simp_all add: run_ok_def)
  then obtain r where "pl_phase p = AwaitingStreamRead sid r 0" by (auto simp: reading_in_flight_def)
  from assms(1) this show ?thesis
  proof (rule read_cases [where jitter = jitter])
    assume "pump_stream_reads ops jitter st p sid = pump_items jitter p (map Inr (view st sid))"
    then show ?thesis using pump_in_flight [OF fl, of jitter] run by (simp add: run_ok_def same_run_def)
  next
    fix p' e assume "pump_stream_reads ops jitter st p sid = (p', Finished (Error e))" "same_run p p'"
    then show ?thesis using run by (simp add: run_ok_def same_run_def)
  qed
qed

lemma sleep_effect:
  assumes "run_ok c policy v (p, Yield (EffSleep d))"
  shows "run_ok c policy v (resume jitter p Slept)"
proof -
  have "pl_command p = c" using assms by (simp add: run_ok_def)
  from step_init_in_flight [OF this] show ?thesis
    using assms by (simp add: run_ok_def resume_def same_run_def)
qed

lemma interfere_run_ok:
  assumes "run_ok c policy v ps" "extends v v'"
  shows "run_ok c policy v' ps"
proof -
  have "in_flight c v' ps"
    using assms behind_extends [OF _ assms(2)]
    by (cases "(c, v, ps)" rule: in_flight.cases)
       (auto simp: run_ok_def reading_in_flight_def append_in_flight_def
         intro: prepared_extends [OF _ assms(2)], blast)
  then show ?thesis using assms(1) by (simp add: run_ok_def)
qed

lemma append_effect_ok:
  assumes "inv st" and run: "run_ok c policy (view st) (p, Yield (EffAppendEvents w))"
    and "good_command ok c" and "rp_max_retries policy \<noteq> - 1"
    and "op_append ops st w = (Inr u, st')" and "\<And>sid. length (view st' sid) < 2 ^ 64"
  shows "\<exists>p' resp. resume jitter p (EventsAppended (Inr u)) = (p', Finished (Success resp))
    \<and> er_attempts resp = pl_attempt p + 1 \<and> result_ok c policy (view st) (view st') (ExecOk resp)
    \<and> inv st' \<and> extends (view st) (view st')"
proof -
  have fl: "prepared c (view st) w" and "\<exists>ids. pl_phase p = AwaitingAppend ids"
    using run by (simp_all add: run_ok_def append_in_flight_def)
  then obtain ids where ph: "pl_phase p = AwaitingAppend ids" by blast
  have gb: "wf_writes w" "\<forall>en \<in> set (entries w). ok en"
    using prepared_good [OF fl assms(3)] by (auto simp: good_batch_def)
  have st': "inv st'" "view st' = (\<lambda>sid. view st sid @ events_for (entries w) sid)"
    using append_ok [OF assms(1) gb assms(5)] by auto
  have "length (view st sid) < 2 ^ 64" for sid
    using assms(6) [of sid] st'(2) by simp
  from commit_serializable [OF assms(1) fl assms(3,5) this] obtain sids s events where
    cm: "commits c (view st) (view st') sids s events" by blast
  have "pl_attempt p \<le> rp_max_retries policy" using run by (simp add: run_ok_def)
  note a = attempts_next [OF this assms(4)]
  have r: "resume jitter p (EventsAppended (Inr u)) =
      (p\<lparr>pl_phase := Done\<rparr>, Finished (Success \<lparr>er_attempts = pl_attempt p + 1\<rparr>))"
    using ph resume_append_ok [OF a(1)] by (simp add: resume_def)
  have "unat (pl_attempt p) \<le> unat (rp_max_retries policy)"
    using run by (simp add: run_ok_def word_le_nat_alt)
  then have "result_ok c policy (view st) (view st') (ExecOk \<lparr>er_attempts = pl_attempt p + 1\<rparr>)"
    using a(2) cm extends_refl [of "view st"] unfolding result_ok.simps by (intro conjI) (simp, simp, blast)
  moreover have "extends (view st) (view st')" by (simp add: st'(2) extends_def)
  ultimately show ?thesis using r st'(1) by (intro exI conjI) auto
qed

lemma append_effect_ok_phase:
  assumes "inv st" and "run_ok c policy (view st) (p, Yield (EffAppendEvents w))"
    and "good_command ok c" and "rp_max_retries policy \<noteq> - 1" and "op_append ops st w = (Inr u, st')"
  shows "resume jitter p (EventsAppended (Inr u)) =
      (p\<lparr>pl_phase := Done\<rparr>, Finished (Success \<lparr>er_attempts = pl_attempt p + 1\<rparr>))"
proof -
  obtain ids where ph: "pl_phase p = AwaitingAppend ids" and le: "pl_attempt p \<le> rp_max_retries policy"
    using assms(2) by (auto simp: append_in_flight_def run_ok_def)
  show ?thesis using ph resume_append_ok [OF attempts_next(1) [OF le assms(4)]] by (simp add: resume_def)
qed

lemma append_effect_err:
  assumes "inv st" and run: "run_ok c policy (view st) (p, Yield (EffAppendEvents w))"
    and "good_command ok c" and "op_append ops st w = (Inl e, st')"
  shows "run_ok c policy (view st') (resume jitter p (EventsAppended (Inl e)))"
    and "inv st'" and "extends (view st) (view st')"
proof -
  have fl: "prepared c (view st) w" and "\<exists>ids. pl_phase p = AwaitingAppend ids"
    using run by (simp_all add: run_ok_def append_in_flight_def)
  then obtain ids where ph: "pl_phase p = AwaitingAppend ids" by blast
  have gb: "wf_writes w" "\<forall>en \<in> set (entries w). ok en"
    using prepared_good [OF fl assms(3)] by (auto simp: good_batch_def)
  have "pl_command p = c" "pl_policy p = policy" "pl_attempt p \<le> rp_max_retries policy"
    using run by (simp_all add: run_ok_def)
  from resume_append_err_run_ok [OF this]
  show "run_ok c policy (view st') (resume jitter p (EventsAppended (Inl e)))"
    by (simp add: resume_def ph)
  show "inv st'" "extends (view st) (view st')"
    using append_err [OF assms(1) gb assms(4)] by (auto simp: extends_def)
qed

section \<open>Soundness of every result\<close>

lemma result_ok_extends:
  "result_ok c policy v1 v' r \<Longrightarrow> extends v0 v1 \<Longrightarrow> result_ok c policy v0 v' r"
  by (cases r) (auto intro: extends_trans)

lemma drive_sound:
  assumes "inv st" and "run_ok c policy (view st) ps" and good: "good_command ok c"
    and others: "good_schedule ok sched" and max: "rp_max_retries policy \<noteq> - 1"
    and "drive ops sched jitter fuel t ps st = Some (res, p', st')"
    and bound: "\<And>sid. length (view st' sid) < 2 ^ 64"
  shows "inv st' \<and> extends (view st) (view st') \<and> result_ok c policy (view st) (view st') res"
  using assms(1,2,6)
proof (induction fuel arbitrary: t ps st)
  case 0
  then show ?case by (cases ps) simp
next
  case (Suc fuel)
  obtain p s where ps: "ps = (p, s)" by (cases ps)
  let ?st1 = "interfere ops (sched t) st"
  have st1: "inv ?st1" and ext: "extends (view st) (view ?st1)"
    using await_steady [OF Suc.prems(1) others] by auto
  have run1: "run_ok c policy (view ?st1) (p, s)"
    using interfere_run_ok [OF Suc.prems(2) ext] ps by simp
  show ?case
  proof (cases s)
    case (Finished out)
    then show ?thesis
      using Suc.prems ps by (cases out) (auto simp: run_ok_def)
  next
    case (Yield eff)
    show ?thesis
    proof (cases eff)
      case (EffReadStream sid)
      have "run_ok c policy (view ?st1) (pump_stream_reads ops (jitter t) ?st1 p sid)"
        using read_effect [OF st1] run1 Yield EffReadStream by simp
      from Suc.IH [OF st1 this] show ?thesis
        using Suc.prems(3) ps Yield EffReadStream ext
        by (auto simp: Let_def intro: extends_trans result_ok_extends)
    next
      case (EffSleep d)
      have "run_ok c policy (view ?st1) (resume (jitter t) p Slept)"
        using sleep_effect run1 Yield EffSleep by blast
      from Suc.IH [OF st1 this] show ?thesis
        using Suc.prems(3) ps Yield EffSleep ext
        by (auto simp: Let_def intro: extends_trans result_ok_extends)
    next
      case (EffAppendEvents w)
      obtain r st2 where ap: "op_append ops ?st1 w = (r, st2)" by fastforce
      have run2: "run_ok c policy (view ?st1) (p, Yield (EffAppendEvents w))"
        using run1 Yield EffAppendEvents by simp
      have dr: "drive ops sched jitter fuel (Suc t) (resume (jitter t) p (EventsAppended r)) st2
          = Some (res, p', st')"
        using Suc.prems(3) ps Yield EffAppendEvents ap by simp
      show ?thesis
      proof (cases r)
        case (Inl e)
        note err = append_effect_err [OF st1 run2 good ap [unfolded Inl]]
        from Suc.IH [OF err(2) err(1) dr [unfolded Inl]] show ?thesis
          using extends_trans [OF ext err(3)] by (auto intro: extends_trans result_ok_extends)
      next
        case (Inr u)
        have st': "st' = st2"
          using append_effect_ok_phase [OF st1 run2 good max ap [unfolded Inr], of "jitter t"] dr Inr
          by (cases fuel) auto
        obtain p2 resp where "resume (jitter t) p (EventsAppended r) = (p2, Finished (Success resp))"
          "result_ok c policy (view ?st1) (view st2) (ExecOk resp)" "inv st2"
          "extends (view ?st1) (view st2)"
          using append_effect_ok [OF st1 run2 good max ap [unfolded Inr], of "jitter t"] bound st' Inr
          by blast
        moreover from this have "res = ExecOk resp" using dr by (cases fuel) auto
        ultimately show ?thesis
          using st' ext extends_trans result_ok_extends by blast
      qed
    qed
  qed (use Suc.prems ps in \<open>auto simp: run_ok_def\<close>)
qed

end

section \<open>What a run leaves behind\<close>

text \<open>
  The store after \<open>n\<close> await points at which only the other tasks acted. Where a failing append leaves
  the store as it was, a run of the pipeline ends in such a store, or in such a store with its own
  commit on top.
\<close>

fun others_alone ::
  "('st, 'ev, 'json) store_ops \<Rightarrow> (nat \<Rightarrow> 'ev stream_writes list) \<Rightarrow> nat \<Rightarrow> nat \<Rightarrow> 'st \<Rightarrow> 'st" where
  "others_alone ops sched t 0 st = st"
| "others_alone ops sched t (Suc n) st = others_alone ops sched (Suc t) n (interfere ops (sched t) st)"

fun leaves ::
  "('ev, 's, 'json, 'x) command \<Rightarrow> ('st \<Rightarrow> stream_id \<Rightarrow> 'ev list) \<Rightarrow> 'st \<Rightarrow> 'st \<Rightarrow> 'x exec_result \<Rightarrow> bool" where
  "leaves c view alone st' (ExecOk resp) = (\<exists>ids s events. commits c (view alone) (view st') ids s events)"
| "leaves c view alone st' (ExecErr e) = (st' = alone)"
| "leaves c view alone st' ExecPanic = False"

context event_store
begin

lemma drive_leaves:
  assumes "inv st" and "run_ok c policy (view st) ps" and good: "good_command ok c"
    and others: "good_schedule ok sched" and max: "rp_max_retries policy \<noteq> - 1"
    and kept: "\<And>st w e st'. op_append ops st w = (Inl e, st') \<Longrightarrow> st' = st"
    and "drive ops sched jitter fuel t ps st = Some (res, p', st')"
    and bound: "\<And>sid. length (view st' sid) < 2 ^ 64"
  shows "\<exists>n < fuel. leaves c view (others_alone ops sched t n st) st' res"
  using assms(1,2,7)
proof (induction fuel arbitrary: t ps st)
  case 0
  then show ?case by (cases ps) simp
next
  case (Suc fuel)
  obtain p s where ps: "ps = (p, s)" by (cases ps)
  let ?st1 = "interfere ops (sched t) st"
  have st1: "inv ?st1" and ext: "extends (view st) (view ?st1)"
    using await_steady [OF Suc.prems(1) others] by auto
  have run1: "run_ok c policy (view ?st1) (p, s)"
    using interfere_run_ok [OF Suc.prems(2) ext] ps by simp
  have goal: ?case if "\<exists>n < fuel. leaves c view (others_alone ops sched (Suc t) n ?st1) st' res"
  proof -
    from that obtain n where "n < fuel" "leaves c view (others_alone ops sched (Suc t) n ?st1) st' res" by blast
    then show ?thesis by (intro exI [of _ "Suc n"]) simp
  qed
  show ?case
  proof (cases s)
    case (Finished out)
    then have "leaves c view (others_alone ops sched t 0 st) st' res"
      using Suc.prems ps by (cases out) (auto simp: run_ok_def)
    then show ?thesis by blast
  next
    case (Yield eff)
    show ?thesis
    proof (cases eff)
      case (EffReadStream sid)
      have "run_ok c policy (view ?st1) (pump_stream_reads ops (jitter t) ?st1 p sid)"
        using read_effect [OF st1] run1 Yield EffReadStream by simp
      from Suc.IH [OF st1 this] show ?thesis
        using Suc.prems(3) ps Yield EffReadStream by (intro goal) (simp add: Let_def)
    next
      case (EffSleep d)
      have "run_ok c policy (view ?st1) (resume (jitter t) p Slept)"
        using sleep_effect run1 Yield EffSleep by blast
      from Suc.IH [OF st1 this] show ?thesis
        using Suc.prems(3) ps Yield EffSleep by (intro goal) (simp add: Let_def)
    next
      case (EffAppendEvents w)
      obtain r st2 where ap: "op_append ops ?st1 w = (r, st2)" by fastforce
      have run2: "run_ok c policy (view ?st1) (p, Yield (EffAppendEvents w))"
        using run1 Yield EffAppendEvents by simp
      have dr: "drive ops sched jitter fuel (Suc t) (resume (jitter t) p (EventsAppended r)) st2
          = Some (res, p', st')"
        using Suc.prems(3) ps Yield EffAppendEvents ap by simp
      show ?thesis
      proof (cases r)
        case (Inl e)
        have same: "st2 = ?st1" by (rule kept [OF ap [unfolded Inl]])
        note err = append_effect_err [OF st1 run2 good ap [unfolded Inl]]
        from Suc.IH [OF err(2) err(1) dr [unfolded Inl]] show ?thesis unfolding same by (rule goal)
      next
        case (Inr u)
        have st': "st' = st2" and fuel: "0 < fuel" and res: "\<exists>resp. res = ExecOk resp"
          using append_effect_ok_phase [OF st1 run2 good max ap [unfolded Inr], of "jitter t"] dr Inr
          by (cases fuel; auto)+
        have fl: "prepared c (view ?st1) w" using run2 by (simp add: run_ok_def append_in_flight_def)
        have gb: "wf_writes w" "\<forall>en \<in> set (entries w). ok en"
          using prepared_good [OF fl good] by (auto simp: good_batch_def)
        have "view st2 = (\<lambda>sid. view ?st1 sid @ events_for (entries w) sid)"
          using append_ok [OF st1 gb ap [unfolded Inr]] by simp
        then have "length (view ?st1 sid) < 2 ^ 64" for sid
          using bound [of sid] st' by simp
        from commit_serializable [OF st1 fl good ap [unfolded Inr] this]
        have "leaves c view (others_alone ops sched (Suc t) 0 ?st1) st' res"
          using res st' by (elim exE) (simp only: leaves.simps others_alone.simps, blast)
        then show ?thesis using fuel by (intro goal) blast
      qed
    qed
  qed (use Suc.prems ps in \<open>auto simp: run_ok_def\<close>)
qed

end

end
