(* ===== verification/Execute_Termination.thy ===== *)
theory Execute_Termination
  imports Execute_Runs
begin

text \<open>
  \<open>execute\<close> ends: when declared and discovered streams stay within a finite set, an explicit number
  of effects is enough for any store that keeps the contract and any interleaving. The bound is one
  pass over the streams, one append and one sleep per attempt.
\<close>

section \<open>The streams a command can ask for\<close>

definition stays_within :: "('ev, 's, 'json, 'x) command \<Rightarrow> stream_id set \<Rightarrow> bool" where
  "stays_within c U \<longleftrightarrow> finite U \<and> set (decl_streams (cmd_declarations c)) \<subseteq> U
     \<and> (\<forall>s. related c s \<subseteq> U)"

fun within ::
  "stream_id set \<Rightarrow> ('ev, 's, 'json, 'x) pipeline \<times> ('ev, 'x) pipeline_step \<Rightarrow> bool" where
  "within U (p, Yield (EffReadStream sid)) =
     (case pl_phase p of AwaitingStreamRead _ r _ \<Rightarrow> scheduled r \<subseteq> U | _ \<Rightarrow> False)"
| "within U (p, _) = True"

definition retries_left :: "('ev, 's, 'json, 'x) pipeline \<Rightarrow> nat" where
  "retries_left p = unat (rp_max_retries (pl_policy p)) - unat (pl_attempt p)"

text \<open>The number of effects still ahead, over a universe of \<open>n\<close> streams.\<close>

fun effects_left ::
  "nat \<Rightarrow> ('ev, 's, 'json, 'x) pipeline \<times> ('ev, 'x) pipeline_step \<Rightarrow> nat" where
  "effects_left n (p, Yield (EffReadStream sid)) =
     (case pl_phase p of AwaitingStreamRead _ r _ \<Rightarrow> n - length (stream_ids r) | _ \<Rightarrow> 0)
     + 2 + retries_left p * (n + 2)"
| "effects_left n (p, Yield (EffAppendEvents w)) = 2 + retries_left p * (n + 2)"
| "effects_left n (p, Yield (EffSleep d)) = n + 3 + retries_left p * (n + 2)"
| "effects_left n (p, _) = 1"

definition enough_fuel :: "('ev, 's, 'json, 'x) command \<Rightarrow> retry_policy \<Rightarrow> stream_id set \<Rightarrow> nat" where
  "enough_fuel c policy U = Suc (unat (rp_max_retries policy)) * (card U + 2)"

lemma retries_left_phase [simp]: "retries_left (p\<lparr>pl_phase := x\<rparr>) = retries_left p"
  by (simp add: retries_left_def)

lemma discover_within:
  assumes "discover c s q sch = (q', sch')" "stays_within c U" "sch \<subseteq> U" "set q \<subseteq> sch" "distinct q"
  shows "sch' \<subseteq> U"
  using discover_scheduled [OF assms(1,4,5)] assms(2,3) by (auto simp: stays_within_def)

lemma step_reading_effects:
  assumes "wf_reading r" "scheduled r \<subseteq> U"
  shows "within U (step_reading p r)"
    and "effects_left n (step_reading p r) \<le> n - length (stream_ids r) + 2 + retries_left p * (n + 2)"
  using assms(2) next_unvisited_wf [OF assms(1)]
  by (auto simp: step_reading_def step_handling_def Let_def split: list.splits sum.splits)

lemma step_init_effects:
  assumes "stays_within c U" "pl_command p = c"
  shows "within U (step_init p)"
    and "effects_left n (step_init p) \<le> n + 2 + retries_left p * (n + 2)"
proof -
  obtain q sch where e: "enqueue_new (decl_streams (cmd_declarations c)) [] {} = (q, sch)"
    by fastforce
  from enqueue_new_facts [OF this] have "scheduled (initial_reading c) \<subseteq> U"
    using assms(1) e by (auto simp: initial_reading_def stays_within_def)
  note s = step_reading_effects [OF wf_initial_reading this]
  show "within U (step_init p)" using s(1) assms(2) by (simp add: step_init_def)
  show "effects_left n (step_init p) \<le> n + 2 + retries_left p * (n + 2)"
    using s(2) [of n p] assms(2) e by (simp add: step_init_def initial_reading_def)
qed

lemma pump_effects:
  assumes sw: "stays_within c U" and fl: "reading_in_flight c v p sid" and c: "pl_command p = c"
    and wi: "within U (p, Yield (EffReadStream sid) :: ('ev, 'x) pipeline_step)"
  shows "within U (pump_items jitter p (map Inr (v sid)))"
    and "effects_left (card U) (pump_items jitter p (map Inr (v sid)))
       < effects_left (card U) (p, Yield (EffReadStream sid) :: ('ev, 'x) pipeline_step)"
proof -
  obtain h r q where ok: "reading_ok c h r" and q: "queue r = sid # q"
    and ph: "pl_phase p = AwaitingStreamRead sid (r\<lparr>queue := q, visited := insert sid (visited r)\<rparr>) 0"
    using fl by (auto simp: reading_in_flight_def)
  let ?r = "r\<lparr>queue := q, visited := insert sid (visited r),
      cmd_state := foldl (cmd_apply c) (cmd_state r) (v sid)\<rparr>"
  let ?r' = "stream_completed c sid ?r (vlen (v sid))"
  have eq: "pump_items jitter p (map Inr (v sid)) = step_reading p ?r'"
    using pump_items_all [OF ph] c by simp
  have wf: "wf_reading r" using ok by (simp add: reading_ok_def)
  have sub: "scheduled r \<subseteq> U" using wi ph by simp
  obtain q' sch' where d: "discover c (cmd_state ?r) q (scheduled r) = (q', sch')" by fastforce
  have sch: "sch' \<subseteq> U"
    using discover_within [OF d sw sub] wf q by (auto simp: wf_reading_def)
  note fin = reading_ok_complete [OF ok q refl, of "v sid"]
  have wf': "wf_reading ?r'" and ids: "stream_ids ?r' = stream_ids r @ [sid]"
    using fin by (simp_all add: reading_ok_def)
  have sub': "scheduled ?r' \<subseteq> U" using d sch by (simp add: stream_completed_def)
  show "within U (pump_items jitter p (map Inr (v sid)))"
    using step_reading_effects(1) [OF wf' sub'] eq by simp
  have "distinct (stream_ids r @ [sid])" "set (stream_ids r @ [sid]) \<subseteq> U"
    using wf q sub by (auto simp: wf_reading_def)
  then have "length (stream_ids r) < card U"
    using sw card_mono [of U "set (stream_ids r @ [sid])"] distinct_card [of "stream_ids r @ [sid]"]
    by (simp add: stays_within_def)
  then show "effects_left (card U) (pump_items jitter p (map Inr (v sid)))
       < effects_left (card U) (p, Yield (EffReadStream sid) :: ('ev, 'x) pipeline_step)"
    using step_reading_effects(2) [OF wf' sub', of "card U" p] eq ids ph by simp
qed

lemma append_result_effects:
  fixes w :: "'ev stream_writes"
  shows "within U (resume_append jitter p ids (EventsAppended r))"
    and "effects_left n (resume_append jitter p ids (EventsAppended r))
       < effects_left n (p, Yield (EffAppendEvents w) :: ('ev, 'x) pipeline_step)"
proof -
  have "within U (resume_append jitter p ids (EventsAppended r))
    \<and> effects_left n (resume_append jitter p ids (EventsAppended r)) < 2 + retries_left p * (n + 2)"
  proof (cases "\<exists>a b d. r = Inl (VersionConflict a b d)")
    case True
    then have eq: "resume_append jitter p ids (EventsAppended r) = resume_conflict jitter p ids"
      by (auto simp: resume_append_def)
    obtain p' s where conf: "resume_conflict jitter p ids = (p', s)" by fastforce
    from resume_conflict_cases [OF conf] show ?thesis
    proof (elim disjE)
      assume a: "pl_attempt p < rp_max_retries (pl_policy p) \<and> pl_attempt p' = pl_attempt p + 1
        \<and> pl_phase p' = AwaitingRetrySleep \<and> pl_command p' = pl_command p \<and> pl_policy p' = pl_policy p
        \<and> s = Yield (EffSleep (compute_retry_delay_ms jitter (rp_backoff_strategy (pl_policy p)) (pl_attempt p)))"
      then have "retries_left p = Suc (retries_left p')"
        using word_less_Suc_unat [of "pl_attempt p" "rp_max_retries (pl_policy p)"]
        by (simp add: retries_left_def word_less_nat_alt Suc_diff_Suc)
      then show ?thesis using a eq conf by simp
    qed (use eq conf in simp)
  next
    case False
    then show ?thesis
      by (auto simp: resume_append_def split: sum.splits event_store_error.splits option.splits)
  qed
  then show "within U (resume_append jitter p ids (EventsAppended r))"
    "effects_left n (resume_append jitter p ids (EventsAppended r))
       < effects_left n (p, Yield (EffAppendEvents w) :: ('ev, 'x) pipeline_step)"
    by simp_all
qed

context event_store
begin

lemma drive_terminates:
  assumes sw: "stays_within c U" and good: "good_command ok c"
    and others: "good_schedule ok sched" and max: "rp_max_retries policy \<noteq> - 1"
    and "inv st" "run_ok c policy (view st) ps" "within U ps" "effects_left (card U) ps \<le> fuel"
  shows "\<exists>res rest. drive ops sched jitter fuel t ps st = Some (res, rest) \<and> res \<noteq> ExecPanic"
  using assms(5-8)
proof (induction fuel arbitrary: t ps st)
  case 0
  then show ?case by (cases ps) (auto elim: effects_left.elims)
next
  case (Suc fuel)
  obtain p s where ps: "ps = (p, s)" by (cases ps)
  let ?st1 = "interfere ops (sched t) st"
  have st1: "inv ?st1" and ext: "extends (view st) (view ?st1)"
    using await_steady [OF Suc.prems(1) others] by auto
  have run1: "run_ok c policy (view ?st1) (p, s)"
    using interfere_run_ok [OF Suc.prems(2) ext] ps by simp
  have cmd: "pl_command p = c" using run1 by (simp add: run_ok_def)
  show ?case
  proof (cases s)
    case (Finished out)
    then show ?thesis using ps by (cases out) auto
  next
    case (Yield eff)
    show ?thesis
    proof (cases eff)
      case (EffReadStream sid)
      have run2: "run_ok c policy (view ?st1) (pump_stream_reads ops (jitter t) ?st1 p sid)"
        using read_effect [OF st1] run1 Yield EffReadStream by simp
      have fl: "reading_in_flight c (view ?st1) p sid"
        using run1 Yield EffReadStream by (simp add: run_ok_def)
      then obtain r where ph: "pl_phase p = AwaitingStreamRead sid r 0" by (auto simp: reading_in_flight_def)
      note folded = pump_effects [OF sw fl cmd, of "jitter t"]
      have "within U (pump_stream_reads ops (jitter t) ?st1 p sid)
          \<and> effects_left (card U) (pump_stream_reads ops (jitter t) ?st1 p sid)
              < effects_left (card U) (p, Yield (EffReadStream sid))"
        using st1 ph
      proof (rule read_cases [where jitter = "jitter t"])
        assume "pump_stream_reads ops (jitter t) ?st1 p sid = pump_items (jitter t) p (map Inr (view ?st1 sid))"
        then show ?thesis using folded Suc.prems(3) ps Yield EffReadStream by simp
      qed simp
      then show ?thesis
        using Suc.IH [OF st1 run2] Suc.prems(4) ps Yield EffReadStream by (simp add: Let_def)
    next
      case (EffSleep d)
      have ph: "pl_phase p = AwaitingRetrySleep" using run1 Yield EffSleep by (simp add: run_ok_def)
      have "run_ok c policy (view ?st1) (resume (jitter t) p Slept)"
        using sleep_effect run1 Yield EffSleep by blast
      moreover have "within U (resume (jitter t) p Slept)"
        "effects_left (card U) (resume (jitter t) p Slept) \<le> fuel"
        using step_init_effects(1) [OF sw cmd] order_trans [OF step_init_effects(2) [OF sw cmd, of "card U"], of fuel]
          Suc.prems(4) ps Yield EffSleep ph by (simp_all add: resume_def)
      ultimately show ?thesis
        using Suc.IH [OF st1] ps Yield EffSleep by (simp add: Let_def)
    next
      case (EffAppendEvents w)
      obtain r st2 where ap: "op_append ops ?st1 w = (r, st2)" by fastforce
      have run2: "run_ok c policy (view ?st1) (p, Yield (EffAppendEvents w))"
        using run1 Yield EffAppendEvents by simp
      obtain ids where ph: "pl_phase p = AwaitingAppend ids"
        using run2 by (auto simp: run_ok_def append_in_flight_def)
      have left: "effects_left (card U) (resume (jitter t) p (EventsAppended r)) \<le> fuel"
        and wi: "within U (resume (jitter t) p (EventsAppended r))"
        using append_result_effects(1) [of U "jitter t" p ids r]
          append_result_effects(2) [of "card U" "jitter t" p ids r w] Suc.prems(4) ps Yield
          EffAppendEvents ph by (simp_all add: resume_def)
      have "\<exists>res rest. drive ops sched jitter fuel (Suc t) (resume (jitter t) p (EventsAppended r)) st2
          = Some (res, rest) \<and> res \<noteq> ExecPanic"
      proof (cases r)
        case (Inl e)
        note err = append_effect_err [OF st1 run2 good ap [unfolded Inl]]
        show ?thesis using Suc.IH [OF err(2)] err(1) wi left Inl by blast
      next
        case (Inr u)
        then show ?thesis
          using append_effect_ok_phase [OF st1 run2 good max ap [unfolded Inr], of "jitter t"] left
          by (cases fuel) auto
      qed
      then show ?thesis using ps Yield EffAppendEvents ap by simp
    qed
  qed (use Suc.prems ps in \<open>auto simp: run_ok_def\<close>)
qed

lemma execute_terminates:
  assumes "stays_within c U" "good_command ok c" "good_schedule ok sched"
    and "rp_max_retries policy \<noteq> - 1" "inv st" "enough_fuel c policy U \<le> fuel"
  shows "\<exists>res rest. execute_run ops sched jitter fuel c policy st = Some (res, rest) \<and> res \<noteq> ExecPanic"
proof -
  have c: "pl_command (pipeline_new c policy) = c" by (simp add: pipeline_new_def)
  have eq: "step (pipeline_new c policy) = step_init (pipeline_new c policy)"
    by (simp add: step_def pipeline_new_def)
  have "retries_left (pipeline_new c policy) = unat (rp_max_retries policy)"
    by (simp add: retries_left_def pipeline_new_def)
  then have "effects_left (card U) (step (pipeline_new c policy)) \<le> fuel"
    using step_init_effects(2) [OF assms(1) c, of "card U"] assms(6) eq
    by (simp add: enough_fuel_def)
  moreover have "within U (step (pipeline_new c policy))"
    using step_init_effects(1) [OF assms(1) c] eq by simp
  ultimately show ?thesis
    unfolding execute_run_def by (intro drive_terminates [OF assms(1-5) run_ok_start])
qed

end

end
