(* ===== verification/Snapshot_Runs.thy ===== *)
theory Snapshot_Runs
  imports Snapshot_Execute Execute_Termination
begin

text \<open>
  Correctness of the snapshot path: whatever is stored under the command's snapshot id, if it was
  saved by this command, the reconstruction yields a state and versions that a full replay of some
  earlier histories gives, so the optimistic append makes it serializable; a replacement that is
  saved is again such a snapshot; no panic is reachable; and enough fuel always suffices.
\<close>

section \<open>Genuine snapshots\<close>

definition checkpoint_of ::
  "('ev, 's, 'json, 'x) command \<Rightarrow> (stream_id \<Rightarrow> 'ev list) \<Rightarrow> stream_id list
     \<Rightarrow> 'json replay_checkpoint \<Rightarrow> bool" where
  "checkpoint_of c h ids cp \<longleftrightarrow> ids \<noteq> [] \<and> rc_stream_id cp = last ids
     \<and> cmd_deserialize c (rc_state cp) = Inr (folded c h ids)
     \<and> hm_same (rc_stream_versions cp) (versions_of h ids)"

definition checkpoints_of ::
  "('ev, 's, 'json, 'x) command \<Rightarrow> (stream_id \<Rightarrow> 'ev list) \<Rightarrow> stream_id list
     \<Rightarrow> 'json replay_checkpoint list \<Rightarrow> bool" where
  "checkpoints_of c h ids cps \<longleftrightarrow> length cps = length ids
     \<and> (\<forall>k < length ids. checkpoint_of c h (take (Suc k) ids) (cps ! k))"

text \<open>
  A snapshot this command could have saved when every stream \<open>sid\<close> it read had the history \<open>h sid\<close>,
  a prefix of what it is now.
\<close>

definition genuine ::
  "('ev, 's, 'json, 'x) command \<Rightarrow> (stream_id \<Rightarrow> 'ev list) \<Rightarrow> 'json command_state_snapshot \<Rightarrow> bool" where
  "genuine c v snap \<longleftrightarrow> (\<exists>h ids. distinct ids \<and> behind h v ids
     \<and> checkpoints_of c h ids (snap_checkpoints snap)
     \<and> cmd_deserialize c (snap_state snap) = Inr (folded c h ids)
     \<and> hm_same (snap_stream_versions snap) (versions_of h ids))"

text \<open>Deserialising what was serialised gives the state back.\<close>

definition faithful_serialization :: "('ev, 's, 'json, 'x) command \<Rightarrow> bool" where
  "faithful_serialization c \<longleftrightarrow>
     (\<forall>s j. cmd_serialize c s = Inr j \<longrightarrow> cmd_deserialize c j = Inr s)"

lemma genuine_extends: "genuine c v snap \<Longrightarrow> extends v v' \<Longrightarrow> genuine c v' snap"
  unfolding genuine_def using behind_extends by blast

lemma versions_of_cong: "(\<And>x. x \<in> set ids \<Longrightarrow> h x = h' x) \<Longrightarrow> versions_of h ids = versions_of h' ids"
  by (simp add: versions_of_def)

lemma checkpoint_of_cong:
  assumes "\<And>x. x \<in> set ids \<Longrightarrow> h x = h' x" "checkpoint_of c h ids cp"
  shows "checkpoint_of c h' ids cp"
  using assms(2) folded_cong [OF assms(1)] versions_of_cong [OF assms(1)]
  by (simp add: checkpoint_of_def)

lemma checkpoints_of_snoc:
  assumes "checkpoints_of c h ids cps" "sid \<notin> set ids" "checkpoint_of c (h(sid := es)) (ids @ [sid]) cp"
  shows "checkpoints_of c (h(sid := es)) (ids @ [sid]) (cps @ [cp])"
  unfolding checkpoints_of_def
proof (intro conjI allI impI)
  show "length (cps @ [cp]) = length (ids @ [sid])" using assms(1) by (simp add: checkpoints_of_def)
  fix k assume k: "k < length (ids @ [sid])"
  show "checkpoint_of c (h(sid := es)) (take (Suc k) (ids @ [sid])) ((cps @ [cp]) ! k)"
  proof (cases "k < length ids")
    case True
    then have "checkpoint_of c h (take (Suc k) ids) (cps ! k)" using assms(1) by (simp add: checkpoints_of_def)
    then have "checkpoint_of c (h(sid := es)) (take (Suc k) ids) (cps ! k)"
      by (rule checkpoint_of_cong [rotated]) (use assms(2) in \<open>auto dest: in_set_takeD\<close>)
    then show ?thesis using True assms(1) by (simp add: checkpoints_of_def nth_append)
  next
    case False
    then have "k = length ids" using k by simp
    then show ?thesis using assms(1,3) by (simp add: checkpoints_of_def nth_append)
  qed
qed

section \<open>Progress of a replay\<close>

definition reading_of ::
  "(stream_id \<Rightarrow> 'ev list) \<Rightarrow> stream_id list \<Rightarrow> ('s, 'json) replay_progress \<Rightarrow> 's reading" where
  "reading_of h ids pr = \<lparr>queue = pr_queue pr, visited = pr_visited pr, scheduled = pr_scheduled pr,
     stream_ids = ids, read_versions = versions_of h ids, cmd_state = pr_state pr\<rparr>"

definition progress_ok ::
  "('ev, 's, 'json, 'x) command \<Rightarrow> (stream_id \<Rightarrow> 'ev list) \<Rightarrow> stream_id list
     \<Rightarrow> ('s, 'json) replay_progress \<Rightarrow> bool" where
  "progress_ok c h ids pr \<longleftrightarrow> reading_ok c h (reading_of h ids pr)
     \<and> hm_same (pr_versions pr) (versions_of h ids) \<and> checkpoints_of c h ids (pr_checkpoints pr)"

lemma discover_same: "discover_related_streams = discover"
  by (simp add: fun_eq_iff discover_related_streams_def discover_def)

text \<open>Completing the next stream with its history \<open>es\<close>.\<close>

lemma reading_of_complete:
  assumes ok: "reading_ok c h (reading_of h ids pr)" and q: "pr_queue pr = sid # q"
    and s: "s = foldl (cmd_apply c) (pr_state pr) es"
    and d: "discover c s q (pr_scheduled pr) = (q', sch')"
    and pr': "pr_queue pr' = q'" "pr_visited pr' = insert sid (pr_visited pr)" "pr_scheduled pr' = sch'"
      "pr_state pr' = s"
  shows "reading_ok c (h(sid := es)) (reading_of (h(sid := es)) (ids @ [sid]) pr')"
    and "hm_insert sid (vlen es) (versions_of h ids) = versions_of (h(sid := es)) (ids @ [sid])"
    and "sid \<notin> set ids" and "s = folded c (h(sid := es)) (ids @ [sid])"
proof -
  let ?r = "reading_of h ids pr" and ?h = "h(sid := es)"
  let ?r1 = "?r\<lparr>queue := q, visited := insert sid (visited ?r),
      cmd_state := foldl (cmd_apply c) (cmd_state ?r) es\<rparr>"
  have qr: "queue ?r = sid # q" using q by (simp add: reading_of_def)
  note fin = reading_ok_complete [OF ok qr refl, of es]
  let ?c = "stream_completed c sid ?r1 (vlen es)"
  have sids: "stream_ids ?c = ids @ [sid]" using fin(2) by (simp add: reading_of_def)
  have vs: "read_versions ?c = versions_of ?h (ids @ [sid])"
    and st: "cmd_state ?c = folded c ?h (ids @ [sid])"
    using fin(1) sids by (simp_all add: reading_ok_def)
  have raw: "read_versions ?c = hm_insert sid (vlen es) (versions_of h ids)" "cmd_state ?c = s"
    using d s by (simp_all add: stream_completed_def reading_of_def)
  show "hm_insert sid (vlen es) (versions_of h ids) = versions_of ?h (ids @ [sid])"
    using raw vs by simp
  show "s = folded c ?h (ids @ [sid])" using raw st by simp
  show "sid \<notin> set ids" using ok q by (simp add: reading_ok_def wf_reading_def reading_of_def)
  have "?c = reading_of ?h (ids @ [sid]) pr'"
    using d s pr' raw(1) vs by (simp add: stream_completed_def reading_of_def)
  then show "reading_ok c ?h (reading_of ?h (ids @ [sid]) pr')" using fin(1) by simp
qed

lemma initial_progress:
  fixes c :: "('ev, 's, 'json, 'x) command"
  assumes "distinct (decl_streams (cmd_declarations c))"
  shows "\<exists>pr. discovery_before_checkpoint c (decl_streams (cmd_declarations c)) [] = Ok pr
    \<and> progress_ok c h [] pr \<and> pr_scheduled pr = set (decl_streams (cmd_declarations c))"
proof -
  let ?pr = "\<lparr>pr_state = cmd_default c, pr_queue = decl_streams (cmd_declarations c), pr_visited = {},
     pr_scheduled = set (decl_streams (cmd_declarations c)), pr_versions = [], pr_checkpoints = []\<rparr>
     :: ('s, 'json) replay_progress"
  have "reading_of h [] ?pr = initial_reading c"
    using enqueue_distinct [OF assms, of "{}" "[]"]
    by (simp add: reading_of_def initial_reading_def versions_of_def)
  then show ?thesis
    using reading_ok_initial [of c h]
    by (simp add: discovery_before_checkpoint_def progress_ok_def checkpoints_of_def versions_of_def)
qed

section \<open>Checkpoints that pass the order check\<close>

lemma replay_order_prefix:
  "replay_order c q vis sch (before @ cp # rest) = Ok (Some qe) \<Longrightarrow>
     \<exists>q'. replay_order c q vis sch before = Ok (Some (rc_stream_id cp # q'))"
proof (induction c q vis sch before rule: replay_order.induct)
  case (1 c q vis sch)
  then show ?case by (auto split: list.splits if_splits)
next
  case (2 c q vis sch cp' cps)
  then obtain sid q1 where q: "q = sid # q1" and ok: "sid = rc_stream_id cp'" "sid \<notin> vis"
    "hm_contains (rc_stream_versions cp') sid"
    by (auto split: list.splits if_splits)
  obtain s where s: "of_result (cmd_deserialize c (rc_state cp')) = Ok s"
    using "2.prems" q ok by (auto simp: obind_Ok_iff)
  obtain q2 sch2 where d: "discover_related_streams c s q1 sch = (q2, sch2)" by fastforce
  have "replay_order c q2 (insert sid vis) sch2 (cps @ cp # rest) = Ok (Some qe)"
    using "2.prems" q ok s d by simp
  from "2.IH" [OF q _ d [symmetric] refl this] ok show ?case
    using q s d by simp
qed

lemma discovery_steps_ok:
  assumes "reading_ok c h (reading_of h ids0 pr)" "length ids = length cps"
    and "\<forall>k < length cps. checkpoint_of c h (ids0 @ take (Suc k) ids) (cps ! k)"
    and "replay_order c (pr_queue pr) (pr_visited pr) (pr_scheduled pr) cps = Ok (Some qe)"
  shows "\<exists>pr'. discovery_steps c pr cps = Ok pr' \<and> reading_ok c h (reading_of h (ids0 @ ids) pr')
    \<and> pr_queue pr' = qe"
  using assms
proof (induction cps arbitrary: pr ids0 ids)
  case Nil
  then show ?case by simp
next
  case (Cons cp cps)
  obtain sid ids' where ids: "ids = sid # ids'" using Cons.prems(2) by (cases ids) auto
  have cp: "checkpoint_of c h (ids0 @ [sid]) cp" using Cons.prems(3) ids by auto
  then have des: "cmd_deserialize c (rc_state cp) = Inr (folded c h (ids0 @ [sid]))"
    and name: "rc_stream_id cp = sid" by (simp_all add: checkpoint_of_def)
  obtain q where q: "pr_queue pr = sid # q"
    using Cons.prems(4) name by (auto split: list.splits if_splits)
  let ?s = "folded c h (ids0 @ [sid])"
  obtain q' sch' where d: "discover c ?s q (pr_scheduled pr) = (q', sch')" by fastforce
  let ?pr = "pr\<lparr>pr_state := ?s, pr_queue := q', pr_visited := insert sid (pr_visited pr), pr_scheduled := sch'\<rparr>"
  have ps: "pr_state pr = folded c h ids0"
    using Cons.prems(1) by (simp add: reading_ok_def reading_of_def)
  have s: "?s = foldl (cmd_apply c) (pr_state pr) (h sid)" by (simp add: ps folded_def)
  have ok: "reading_ok c h (reading_of h (ids0 @ [sid]) ?pr)"
    using reading_of_complete(1) [OF Cons.prems(1) q s d, of ?pr] by simp
  have ro: "replay_order c (pr_queue ?pr) (pr_visited ?pr) (pr_scheduled ?pr) cps = Ok (Some qe)"
    using Cons.prems(4) q des d by (simp add: discover_same split: if_splits)
  have "\<forall>k < length cps. checkpoint_of c h ((ids0 @ [sid]) @ take (Suc k) ids') (cps ! k)"
  proof (intro allI impI)
    fix k assume "k < length cps"
    then show "checkpoint_of c h ((ids0 @ [sid]) @ take (Suc k) ids') (cps ! k)"
      using Cons.prems(3) [rule_format, of "Suc k"] ids by simp
  qed
  from Cons.IH [OF ok _ this ro] Cons.prems(2) ids show ?case
    using q des d by (simp add: discover_same)
qed

text \<open>
  Whole runs of the snapshot path over any store that keeps the contract. \<open>steady\<close> says that a
  computation only extends histories; \<open>yields\<close> is its triple: while histories are shorter than
  \<open>2 ^ 64\<close>, the snapshot stays genuine, the result satisfies a postcondition, and there is no panic
  and, with enough fuel, no lack of fuel.
\<close>

definition small :: "(stream_id \<Rightarrow> 'ev list) \<Rightarrow> bool" where
  "small v \<longleftrightarrow> (\<forall>sid. length (v sid) < 2 ^ 64)"

lemma small_extends: "small v' \<Longrightarrow> extends v v' \<Longrightarrow> small v"
  unfolding small_def extends_def by (metis length_append le_add1 le_less_trans)

definition steady ::
  "('st \<Rightarrow> bool) \<Rightarrow> ('st \<Rightarrow> stream_id \<Rightarrow> 'ev list) \<Rightarrow> 'st world \<Rightarrow> ('x, 'a) outcome \<times> 'st world \<Rightarrow> bool" where
  "steady ivt view w r \<longleftrightarrow> ivt (snd (snd r)) \<and> extends (view (snd w)) (view (snd (snd r)))"

definition genuine_stored ::
  "('st \<Rightarrow> stream_id \<Rightarrow> 'ev list) \<Rightarrow> ('st \<Rightarrow> rstring \<Rightarrow> 'json command_state_snapshot option)
     \<Rightarrow> ('ev, 's, 'json, 'x) command \<Rightarrow> rstring \<Rightarrow> 'st \<Rightarrow> bool" where
  "genuine_stored view stored c i st \<longleftrightarrow> (\<forall>snap. stored st i = Some snap \<longrightarrow> genuine c (view st) snap)"

definition yields ::
  "('st \<Rightarrow> stream_id \<Rightarrow> 'ev list) \<Rightarrow> ('st \<Rightarrow> rstring \<Rightarrow> 'json command_state_snapshot option)
     \<Rightarrow> ('ev, 's, 'json, 'x) command \<Rightarrow> rstring \<Rightarrow> bool \<Rightarrow> ('a \<Rightarrow> 'st world \<Rightarrow> bool)
     \<Rightarrow> ('x, 'a) outcome \<times> 'st world \<Rightarrow> bool" where
  "yields view stored c i fin Q r \<longleftrightarrow> (small (view (snd (snd r))) \<longrightarrow>
     genuine_stored view stored c i (snd (snd r))
     \<and> (case fst r of Ok a \<Rightarrow> Q a (snd r) | Err _ \<Rightarrow> True | Panicked \<Rightarrow> False | OutOfFuel \<Rightarrow> \<not> fin))"

text \<open>What a replay from a good progress yields.\<close>

definition replayed ::
  "('st \<Rightarrow> stream_id \<Rightarrow> 'ev list) \<Rightarrow> ('ev, 's, 'json, 'x) command
     \<Rightarrow> ('s, 'json) replay_progress \<Rightarrow> 'st world \<Rightarrow> bool" where
  "replayed view c pr w \<longleftrightarrow>
     (\<exists>h ids. progress_ok c h ids pr \<and> pr_queue pr = [] \<and> behind h (view (snd w)) ids)"

named_theorems steady_intros \<open>computations that only extend histories\<close>

context event_store
begin

lemma steady_pure [steady_intros]: "inv (snd w) \<Longrightarrow> steady inv view w (r, w)"
  by (simp add: steady_def)

lemma steady_wbind [steady_intros]:
  assumes "steady inv view w r" "\<And>a w1. inv (snd w1) \<Longrightarrow> steady inv view w1 (f a w1)"
  shows "steady inv view w (wbind r f)"
proof (cases "(r, f)" rule: wbind.cases)
  case (1 a w1 f')
  then have "steady inv view w1 (f a w1)" using assms by (simp add: steady_def)
  then show ?thesis using 1 assms(1) by (auto simp: steady_def intro: extends_trans)
qed (use assms(1) in \<open>simp_all add: steady_def\<close>)

lemma yields_wbind:
  assumes "yields view stored c i fin P r" "inv (snd (snd r))"
    and "\<And>a w1. inv (snd w1) \<Longrightarrow> steady inv view w1 (f a w1)"
    and "\<And>a w1. r = (Ok a, w1) \<Longrightarrow> inv (snd w1) \<Longrightarrow> small (view (snd w1)) \<Longrightarrow>
        genuine_stored view stored c i (snd w1) \<Longrightarrow> P a w1 \<Longrightarrow> yields view stored c i fin Q (f a w1)"
  shows "yields view stored c i fin Q (wbind r f)"
proof (cases "(r, f)" rule: wbind.cases)
  case (1 a w1 f')
  then have r: "r = (Ok a, w1)" and inv1: "inv (snd w1)" using assms(2) by simp_all
  show ?thesis
  proof (cases "small (view (snd w1))")
    case True
    then have "genuine_stored view stored c i (snd w1)" "P a w1"
      using assms(1) r by (simp_all add: yields_def)
    then show ?thesis using assms(4) [OF r inv1 True] r by simp
  next
    case False
    then have "\<not> small (view (snd (snd (f a w1))))"
      using assms(3) [OF inv1, of a] small_extends by (auto simp: steady_def)
    then show ?thesis using r by (simp add: yields_def)
  qed
qed (use assms(1) in \<open>simp_all add: yields_def\<close>)

end

context snapshot_event_store
begin

lemma interfere_stored:
  assumes "inv st" "\<forall>w \<in> set ws. good_batch ok w"
  shows "stored (interfere ops ws st) i = stored st i"
  using assms
proof (induction ws arbitrary: st)
  case (Cons w ws)
  let ?st1 = "snd (op_append ops st w)"
  have "inv ?st1" using append_extends [of st w] Cons.prems by (auto simp: good_batch_def)
  moreover have "stored ?st1 i = stored st i"
    using append_stored [OF Cons.prems(1)] by (metis surjective_pairing)
  ultimately show ?case using Cons.IH [of ?st1] Cons.prems(2) by (simp add: interfere_def)
qed (simp add: interfere_def)

lemma await_genuine:
  assumes "inv st" "good_schedule ok sched" "genuine_stored view stored c i st"
  shows "genuine_stored view stored c i (interfere ops (sched t) st)"
  unfolding genuine_stored_def
proof (intro allI impI)
  fix snap assume "stored (interfere ops (sched t) st) i = Some snap"
  then have "stored st i = Some snap"
    using interfere_stored [OF assms(1), of "sched t" i] assms(2) by (simp add: good_schedule_def)
  then have "genuine c (view st) snap" using assms(3) by (simp add: genuine_stored_def)
  then show "genuine c (view (interfere ops (sched t) st)) snap"
    by (rule genuine_extends [OF _ await_steady(2) [OF assms(1,2)]])
qed

lemma apply_items_all: "apply_items c s n (map Inr es) = Ok (foldl (cmd_apply c) s es, n + vlen es)"
  by (induction es arbitrary: s n) (simp_all add: ac_simps)

lemma apply_items_error: "Inl err \<in> set items \<Longrightarrow> \<exists>e. apply_items c s n items = Err e"
proof (induction items arbitrary: s n)
  case (Cons item items)
  then show ?case by (cases item) auto
qed simp

text \<open>Folding a stream gives its whole history, or the tail that was asked for, unless the read fails.\<close>

lemma apply_stream_cases:
  assumes "inv st" "good_schedule ok sched"
    and "\<And>v. after = Some v \<Longrightarrow> unat v \<le> length (view (interfere ops (sched t) st) sid)"
  shows "(\<exists>e. apply_command_stream ops sched c s sid after (t, st)
        = (Err e, (Suc t, interfere ops (sched t) st)))
    \<or> apply_command_stream ops sched c s sid after (t, st) =
    (let st1 = interfere ops (sched t) st;
         es = (case after of None \<Rightarrow> view st1 sid | Some v \<Rightarrow> drop (unat v) (view st1 sid))
     in (Ok (foldl (cmd_apply c) s es, vlen es), (Suc t, st1)))"
proof -
  let ?st1 = "interfere ops (sched t) st"
  let ?opened = "case after of Some v \<Rightarrow> op_read_after ops ?st1 sid v | None \<Rightarrow> op_read ops ?st1 sid"
  let ?es = "case after of None \<Rightarrow> view ?st1 sid | Some v \<Rightarrow> drop (unat v) (view ?st1 sid)"
  have inv: "inv ?st1" by (rule await_steady(1) [OF assms(1,2)])
  have run: "apply_command_stream ops sched c s sid after (t, st)
      = (case ?opened of Inl e \<Rightarrow> Err (StoreError e) | Inr items \<Rightarrow> apply_items c s 0 items, (Suc t, ?st1))"
    by (simp add: apply_command_stream_def Let_def)
  show ?thesis
  proof (cases ?opened)
    case (Inl e)
    then show ?thesis using run by simp
  next
    case (Inr items)
    have "items = map Inr ?es \<or> (\<exists>e. Inl e \<in> set items)"
      using Inr read [OF inv] read_after [OF inv assms(3)] by (auto split: option.splits)
    then show ?thesis
    proof
      assume "items = map Inr ?es"
      then show ?thesis using run Inr by (simp add: apply_items_all Let_def)
    next
      assume "\<exists>e. Inl e \<in> set items"
      then obtain e where "apply_items c s 0 items = Err e" using apply_items_error by metis
      then show ?thesis using run Inr by simp
    qed
  qed
qed

lemma apply_steady [steady_intros]:
  assumes "inv (snd w)" "good_schedule ok sched"
  shows "steady inv view w (apply_command_stream ops sched c s sid after w)"
proof -
  obtain t st where w: "w = (t, st)" by (cases w)
  show ?thesis
    using await_steady [OF _ assms(2), of st t] assms(1) w
    by (simp add: steady_def apply_command_stream_def Let_def)
qed

section \<open>Replaying\<close>

lemma replay_steady [steady_intros]:
  assumes "inv (snd w)" "good_schedule ok sched"
  shows "steady inv view w (replay_remaining_streams ops sched c fuel pr w)"
  using assms(1)
proof (induction fuel arbitrary: pr w)
  case 0
  then show ?case by (simp add: steady_def)
next
  case (Suc fuel)
  show ?case
  proof (cases "pr_queue pr")
    case (Cons sid q)
    then show ?thesis
      using Suc by (auto simp: Let_def intro!: steady_intros assms(2) split: prod.splits)
  qed (use Suc.prems in \<open>simp add: steady_def\<close>)
qed

lemma replay_yields:
  assumes others: "good_schedule ok sched" and ser: "faithful_serialization c"
    and "inv (snd w)" "genuine_stored view stored c i (snd w)"
    and "progress_ok c h ids pr" "behind h (view (snd w)) ids"
    and "fin \<longrightarrow> stays_within c U \<and> pr_scheduled pr \<subseteq> U \<and> card U < fuel + length ids"
  shows "yields view stored c i fin (replayed view c) (replay_remaining_streams ops sched c fuel pr w)"
  using assms(3-7)
proof (induction fuel arbitrary: pr w h ids)
  case 0
  have "\<not> fin"
  proof
    assume fin
    then have "stays_within c U" "pr_scheduled pr \<subseteq> U" "card U < length ids" using 0 by auto
    moreover have "distinct ids" "set ids \<subseteq> pr_scheduled pr"
      using 0 by (auto simp: progress_ok_def reading_ok_def wf_reading_def reading_of_def)
    ultimately show False
      using card_mono [of U "set ids"] distinct_card [of ids] by (auto simp: stays_within_def)
  qed
  then show ?case using 0 by (simp add: yields_def)
next
  case (Suc fuel)
  have ok: "reading_ok c h (reading_of h ids pr)" and vs: "hm_same (pr_versions pr) (versions_of h ids)"
    and cps: "checkpoints_of c h ids (pr_checkpoints pr)"
    using Suc.prems(3) by (simp_all add: progress_ok_def)
  show ?case
  proof (cases "pr_queue pr")
    case Nil
    then show ?thesis using Suc.prems by (auto simp: yields_def replayed_def)
  next
    case (Cons sid q)
    have new: "sid \<notin> pr_visited pr"
      using ok Cons by (auto simp: reading_ok_def wf_reading_def reading_of_def)
    obtain t st where w: "w = (t, st)" by (cases w)
    let ?st1 = "interfere ops (sched t) st"
    let ?es = "view ?st1 sid" let ?h = "h(sid := view ?st1 sid)"
    let ?s = "foldl (cmd_apply c) (pr_state pr) ?es"
    have st: "inv st" and gen: "genuine_stored view stored c i st" using Suc.prems(1,2) w by simp_all
    have st1: "inv ?st1" "extends (view st) (view ?st1)" using await_steady [OF st others] by auto
    have gen1: "genuine_stored view stored c i ?st1" by (rule await_genuine [OF st others gen])
    obtain q' sch' where d: "discover c ?s q (pr_scheduled pr) = (q', sch')" by fastforce
    consider (failed) e where "apply_command_stream ops sched c (pr_state pr) sid None w = (Err e, (Suc t, ?st1))"
      | (folded) "apply_command_stream ops sched c (pr_state pr) sid None w = (Ok (?s, vlen ?es), (Suc t, ?st1))"
      using apply_stream_cases [OF st others, of None t sid c "pr_state pr"] w by (auto simp: Let_def)
    then show ?thesis
    proof cases
      case failed
      then show ?thesis using Cons new gen1 by (simp add: yields_def)
    next
      case app: folded
      show ?thesis
      proof (cases "cmd_serialize c ?s")
        case (Inl e)
        then show ?thesis using Cons new app gen1 by (simp add: yields_def)
      next
        case (Inr j)
        let ?vs = "hm_insert sid (vlen ?es) (pr_versions pr)"
        let ?pr = "\<lparr>pr_state = ?s, pr_queue = q', pr_visited = insert sid (pr_visited pr),
           pr_scheduled = sch', pr_versions = ?vs,
           pr_checkpoints = pr_checkpoints pr @ [\<lparr>rc_stream_id = sid, rc_state = j, rc_stream_versions = ?vs\<rparr>]\<rparr>"
        note comp = reading_of_complete [OF ok Cons refl d, of ?pr, simplified]
        have vs': "hm_same ?vs (versions_of ?h (ids @ [sid]))"
          using hm_same_insert [OF vs, of sid "vlen ?es"] comp(2) by simp
        have des: "cmd_deserialize c j = Inr ?s" using ser Inr by (simp add: faithful_serialization_def)
        have "checkpoint_of c ?h (ids @ [sid])
            \<lparr>rc_stream_id = sid, rc_state = j, rc_stream_versions = ?vs\<rparr>"
          using des comp(4) vs' by (simp add: checkpoint_of_def)
        from checkpoints_of_snoc [OF cps comp(3) this]
        have prog: "progress_ok c ?h (ids @ [sid]) ?pr" using comp(1) vs' by (simp add: progress_ok_def)
        have b: "behind ?h (view ?st1) (ids @ [sid])"
          using behind_extends [OF _ st1(2)] Suc.prems(4) w by (auto simp: behind_def)
        have "fin \<longrightarrow> stays_within c U \<and> pr_scheduled ?pr \<subseteq> U \<and> card U < fuel + length (ids @ [sid])"
          using Suc.prems(5) discover_within [OF d] ok Cons
          by (auto simp: reading_ok_def wf_reading_def reading_of_def)
        note ih = Suc.IH [of "(Suc t, ?st1)", OF _ _ prog _ this]
        have "yields view stored c i fin (replayed view c)
            (replay_remaining_streams ops sched c fuel ?pr (Suc t, ?st1))"
          by (rule ih) (simp_all only: snd_conv st1 gen1 b)
        then show ?thesis
          using Cons new app Inr d by (simp add: Let_def discover_same)
      qed
    qed
  qed
qed

end

end
