(* ===== verification/Snapshot_Attempts.thy ===== *)
theory Snapshot_Attempts
  imports Snapshot_Runs
begin

text \<open>
  Reconstruction from a stored snapshot, the preparation of an attempt and the attempt loop: each
  yields what a full replay would have, and the loop's result is serializable.
\<close>

section \<open>Lookups and discovery\<close>

lemma hm_get_versions_of:
  "hm_get (versions_of h ids) y = (if y \<in> set ids then Some (vlen (h y)) else None)"
  by (induction ids) (auto simp: versions_of_def)

lemma enqueue_new_scheduled: "snd (enqueue_new ss q sch) = sch \<union> set ss"
  by (induction ss q sch rule: enqueue_new.induct) auto

lemma discover_scheduled_all: "discover c s q sch = (q', sch') \<Longrightarrow> sch' = sch \<union> related c s"
  using enqueue_new_scheduled [of "_" q sch]
  by (cases "cmd_resolver c") (simp_all add: discover_def related_def prod_eq_iff [symmetric], metis snd_conv)

lemma discovery_within:
  "discovery_steps c pr cps = Ok pr' \<Longrightarrow> stays_within c U \<Longrightarrow> pr_scheduled pr \<subseteq> U \<Longrightarrow> pr_scheduled pr' \<subseteq> U"
proof (induction c pr cps rule: discovery_steps.induct)
  case (2 c pr cp cps)
  obtain sid q s where q: "pr_queue pr = sid # q" and s: "of_result (cmd_deserialize c (rc_state cp)) = Ok s"
    using "2.prems"(1) by (auto simp: obind_Ok_iff split: list.splits)
  obtain q' sch' where d: "discover_related_streams c s q (pr_scheduled pr) = (q', sch')" by fastforce
  have "sch' \<subseteq> U"
    using discover_scheduled_all [OF d [unfolded discover_same]] "2.prems"(2,3) by (auto simp: stays_within_def)
  then show ?case using "2.IH" [OF q d [symmetric] refl] "2.prems" q s d by simp
qed simp

definition reconstructed ::
  "('st \<Rightarrow> stream_id \<Rightarrow> 'ev list) \<Rightarrow> ('ev, 's, 'json, 'x) command \<Rightarrow> ('s, 'json) reconstruction
     \<Rightarrow> 'st world \<Rightarrow> bool" where
  "reconstructed view c r w \<longleftrightarrow> (case r of (s, vs, persist) \<Rightarrow>
     (\<exists>h ids. consistent_read c h ids s \<and> behind h (view (snd w)) ids \<and> hm_same vs (versions_of h ids))
     \<and> (\<forall>snap. persist = Some snap \<longrightarrow> genuine c (view (snd w)) snap))"

lemma replayed_consistent:
  assumes "progress_ok c h ids pr" "pr_queue pr = []"
  shows "consistent_read c h ids (pr_state pr)" and "hm_same (pr_versions pr) (versions_of h ids)"
proof -
  have "reading_ok c h (reading_of h ids pr)" using assms(1) by (simp add: progress_ok_def)
  from reading_ok_finished [OF this] assms(2) show "consistent_read c h ids (pr_state pr)"
    by (simp add: reading_of_def)
  show "hm_same (pr_versions pr) (versions_of h ids)" using assms(1) by (simp add: progress_ok_def)
qed

lemma replacement_genuine:
  assumes "progress_ok c h ids pr" "pr_queue pr = []" "behind h v ids" "faithful_serialization c"
    and "replacement c pr = Ok snap"
  shows "genuine c v snap"
proof -
  note r = replayed_consistent [OF assms(1,2)]
  obtain j where j: "cmd_serialize c (pr_state pr) = Inr j"
    and snap: "snap = with_replay_checkpoints (snapshot_new j (pr_versions pr)) (pr_checkpoints pr)"
    using assms(5) by (cases "cmd_serialize c (pr_state pr)") (auto simp: replacement_def)
  have "cmd_deserialize c j = Inr (pr_state pr)" using assms(4) j by (simp add: faithful_serialization_def)
  moreover have "checkpoints_of c h ids (pr_checkpoints pr)" using assms(1) by (simp add: progress_ok_def)
  ultimately show ?thesis
    using r assms(3) unfolding genuine_def consistent_read_def
    by (intro exI [of _ h] exI [of _ ids]) (simp add: snap with_replay_checkpoints_def snapshot_new_def)
qed

lemma replayed_reconstructed:
  assumes "replayed view c pr w" "faithful_serialization c"
  shows "replacement c pr = Ok snap \<Longrightarrow> reconstructed view c (pr_state pr, pr_versions pr, Some snap) w"
    and "reconstructed view c (pr_state pr, pr_versions pr, None) w"
proof -
  obtain h ids where p: "progress_ok c h ids pr" "pr_queue pr = []" "behind h (view (snd w)) ids"
    using assms(1) unfolding replayed_def by blast
  note r = replayed_consistent [OF p(1,2)]
  have ex: "\<exists>h ids. consistent_read c h ids (pr_state pr) \<and> behind h (view (snd w)) ids
      \<and> hm_same (pr_versions pr) (versions_of h ids)"
    using r p(3) by blast
  then show "reconstructed view c (pr_state pr, pr_versions pr, None) w" by (simp add: reconstructed_def)
  show "reconstructed view c (pr_state pr, pr_versions pr, Some snap) w" if "replacement c pr = Ok snap"
    using ex replacement_genuine [OF p assms(2) that] by (simp add: reconstructed_def)
qed

lemma replacement_cases: "(\<exists>snap. replacement c pr = Ok snap) \<or> (\<exists>e. replacement c pr = Err e)"
  by (cases "cmd_serialize c (pr_state pr)") (simp_all add: replacement_def)

section \<open>A checkpoint whose stream has a tail\<close>

text \<open>The discovery up to a checkpoint of a snapshot that passed the order check.\<close>

lemma discovery_at_checkpoint:
  fixes c :: "('ev, 's, 'json, 'x) command"
  defines "declared \<equiv> decl_streams (cmd_declarations c)"
  assumes "distinct declared" "checkpoints_of c h ids (before @ cp # rest)"
    and "replay_order c declared {} (set declared) (before @ cp # rest) = Ok (Some qe)"
  shows "\<exists>pr q. discovery_before_checkpoint c declared before = Ok pr
    \<and> reading_ok c h (reading_of h (take (length before) ids) pr) \<and> pr_queue pr = rc_stream_id cp # q
    \<and> (\<forall>U. stays_within c U \<longrightarrow> pr_scheduled pr \<subseteq> U)"
proof -
  obtain pr0 where pr0: "discovery_before_checkpoint c declared ([] :: 'json replay_checkpoint list) = Ok pr0"
    "progress_ok c h [] pr0"
    using initial_progress [of c h] assms(2) declared_def by blast
  have pr0_eq: "pr0 = \<lparr>pr_state = cmd_default c, pr_queue = declared, pr_visited = {},
       pr_scheduled = set declared, pr_versions = [], pr_checkpoints = []\<rparr>"
    using pr0(1) by (simp add: discovery_before_checkpoint_def)
  obtain q where ro: "replay_order c declared {} (set declared) before = Ok (Some (rc_stream_id cp # q))"
    using replay_order_prefix [OF assms(4)] by blast
  have len: "length before < length ids" using assms(3) by (simp add: checkpoints_of_def)
  have cps: "\<forall>k < length before. checkpoint_of c h ([] @ take (Suc k) (take (length before) ids)) (before ! k)"
  proof (intro allI impI)
    fix k assume k: "k < length before"
    then have "checkpoint_of c h (take (Suc k) ids) ((before @ cp # rest) ! k)"
      using assms(3) by (simp add: checkpoints_of_def)
    then show "checkpoint_of c h ([] @ take (Suc k) (take (length before) ids)) (before ! k)"
      using k by (simp add: nth_append min_def)
  qed
  have "\<exists>pr'. discovery_steps c pr0 before = Ok pr'
      \<and> reading_ok c h (reading_of h ([] @ take (length before) ids) pr') \<and> pr_queue pr' = rc_stream_id cp # q"
    by (rule discovery_steps_ok) (use pr0(2) len cps ro pr0_eq in \<open>simp_all add: progress_ok_def\<close>)
  then obtain pr where pr: "discovery_steps c pr0 before = Ok pr"
    "reading_ok c h (reading_of h (take (length before) ids) pr)" "pr_queue pr = rc_stream_id cp # q" by auto
  have "pr_scheduled pr \<subseteq> U" if "stays_within c U" for U
    using discovery_within [OF pr(1) that] that pr0_eq by (simp add: stays_within_def declared_def)
  then show ?thesis using pr pr0_eq by (auto simp: discovery_before_checkpoint_def)
qed

text \<open>The progress from which the rest is replayed, once the tail of the checkpoint's stream is folded.\<close>

lemma tail_progress:
  assumes dist: "distinct ids" and cps: "checkpoints_of c h ids (before @ cp # rest)"
    and b: "behind h v ids" and small: "small v" and ser: "faithful_serialization c"
    and ok: "reading_ok c h (reading_of h (take (length before) ids) pr)"
    and q: "pr_queue pr = rc_stream_id cp # q"
    and base: "hm_get (rc_stream_versions cp) (rc_stream_id cp) = Some base"
    and s0: "cmd_deserialize c (rc_state cp) = Inr s0"
    and s: "s = foldl (cmd_apply c) s0 (drop (unat base) (v (rc_stream_id cp)))"
    and n: "n = vlen (drop (unat base) (v (rc_stream_id cp)))"
    and j: "cmd_serialize c s = Inr j"
    and d: "discover c s q (pr_scheduled pr) = (q', sch')"
    and vs: "vs = hm_insert (rc_stream_id cp) (base + n) (rc_stream_versions cp)"
  shows "progress_ok c (h(rc_stream_id cp := v (rc_stream_id cp))) (take (length before) ids @ [rc_stream_id cp])
      \<lparr>pr_state = s, pr_queue = q', pr_visited = insert (rc_stream_id cp) (pr_visited pr),
        pr_scheduled = sch', pr_versions = vs,
        pr_checkpoints = before @ [\<lparr>rc_stream_id = rc_stream_id cp, rc_state = j, rc_stream_versions = vs\<rparr>]\<rparr>"
    and "behind (h(rc_stream_id cp := v (rc_stream_id cp))) v (take (length before) ids @ [rc_stream_id cp])"
proof -
  let ?sid = "rc_stream_id cp" and ?i = "length before"
  let ?ids = "take ?i ids" let ?h = "h(?sid := v ?sid)"
  have len: "?i < length ids" using cps by (simp add: checkpoints_of_def)
  have "checkpoint_of c h (take (Suc ?i) ids) ((before @ cp # rest) ! ?i)"
    using cps len unfolding checkpoints_of_def by blast
  then have cp: "checkpoint_of c h (take (Suc ?i) ids) cp" by simp
  have split: "take (Suc ?i) ids = ?ids @ [?sid]"
    using cp len by (simp add: checkpoint_of_def take_Suc_conv_app_nth)
  have in_ids: "?sid \<in> set ids" by (metis split in_set_takeD in_set_conv_decomp)
  have cp_vs: "hm_same (rc_stream_versions cp) (versions_of h (?ids @ [?sid]))"
    and s0_eq: "s0 = folded c h (?ids @ [?sid])"
    using cp s0 split by (simp_all add: checkpoint_of_def)
  have base_eq: "base = vlen (h ?sid)"
    using base cp_vs by (simp add: hm_same_def hm_get_versions_of)
  obtain es where es: "v ?sid = h ?sid @ es" using b in_ids unfolding behind_def by blast
  have "length (h ?sid) < 2 ^ 64" using small es unfolding small_def by (metis length_append le_add1 le_less_trans)
  then have drop: "drop (unat base) (v ?sid) = es" by (simp add: base_eq unat_vlen es)
  have st: "pr_state pr = folded c h ?ids" using ok by (simp add: reading_ok_def reading_of_def)
  have s_eq: "s = foldl (cmd_apply c) (pr_state pr) (v ?sid)"
    by (simp only: s drop s0_eq st) (simp add: es folded_def)
  let ?pr = "\<lparr>pr_state = s, pr_queue = q', pr_visited = insert ?sid (pr_visited pr), pr_scheduled = sch',
      pr_versions = vs, pr_checkpoints = before @ [\<lparr>rc_stream_id = ?sid, rc_state = j, rc_stream_versions = vs\<rparr>]\<rparr>"
  note comp = reading_of_complete [OF ok q s_eq d, of ?pr, simplified]
  have wf: "hm_wf vs" "hm_get vs = (hm_get (versions_of h (?ids @ [?sid])))(?sid \<mapsto> vlen (v ?sid))"
    using cp_vs unfolding vs n drop by (simp_all add: hm_same_def base_eq es)
  have "hm_wf (versions_of ?h (?ids @ [?sid]))"
    using dist comp(3) by (simp add: distinct_take)
  then have vs_same: "hm_same vs (versions_of ?h (?ids @ [?sid]))"
    using wf by (auto simp: hm_same_def fun_eq_iff hm_get_versions_of)
  have "cmd_deserialize c j = Inr s" using ser j by (simp add: faithful_serialization_def)
  then have new: "checkpoint_of c ?h (?ids @ [?sid])
      \<lparr>rc_stream_id = ?sid, rc_state = j, rc_stream_versions = vs\<rparr>"
    using comp(4) vs_same by (simp add: checkpoint_of_def)
  have "checkpoints_of c h ?ids before"
    unfolding checkpoints_of_def
  proof (intro conjI allI impI)
    show "length before = length ?ids" using len by simp
    fix k assume "k < length ?ids"
    then have k: "k < ?i" by simp
    then have "checkpoint_of c h (take (Suc k) ids) ((before @ cp # rest) ! k)"
      using cps by (simp add: checkpoints_of_def)
    then show "checkpoint_of c h (take (Suc k) ?ids) (before ! k)"
      using k by (simp add: nth_append min_def)
  qed
  from checkpoints_of_snoc [OF this comp(3) new]
  show "progress_ok c ?h (?ids @ [?sid]) ?pr"
    using comp(1) vs_same by (simp add: progress_ok_def)
  show "behind ?h v (?ids @ [?sid])"
    using b by (auto simp: behind_def dest: in_set_takeD)
qed

section \<open>Reconstruction\<close>

context snapshot_event_store
begin

lemma tail_steady [steady_intros]:
  assumes "inv (snd w)" "good_schedule ok sched"
  shows "steady inv view w (replay_from_tail ops sched c fuel declared before cp base s n w)"
  unfolding replay_from_tail_def using assms
  by (auto simp: Let_def intro!: steady_intros split: list.splits prod.splits)

lemma resume_steady [steady_intros]:
  assumes "inv (snd w)" "good_schedule ok sched"
  shows "steady inv view w (resume_from_checkpoints ops sched c fuel declared before rest w)"
  using assms(1)
proof (induction rest arbitrary: before w)
  case (Cons cp rest)
  then show ?case
    by (auto intro!: steady_intros assms(2) split: option.splits prod.splits)
qed (simp add: steady_def)

lemma full_steady [steady_intros]:
  assumes "inv (snd w)" "good_schedule ok sched"
  shows "steady inv view w (full_replay ops sched c fuel declared w)"
  unfolding full_replay_def using assms by (auto intro!: steady_intros)

lemma reconstruct_steady [steady_intros]:
  assumes "inv (snd w)" "good_schedule ok sched"
  shows "steady inv view w (reconstruct_command_snapshot ops sched c fuel declared stored_snap w)"
  unfolding reconstruct_command_snapshot_def using assms
  by (auto intro!: steady_intros split: option.splits)

lemma steady_inv: "steady inv view w r \<Longrightarrow> inv (snd (snd r))"
  by (simp add: steady_def)

lemma yields_result:
  "genuine_stored view stored c i (snd w) \<Longrightarrow> (\<And>a. r = Inr a \<Longrightarrow> Q a w) \<Longrightarrow>
     yields view stored c i fin Q (of_result r, w)"
  by (cases r) (simp_all add: yields_def)

lemma persist_yields:
  assumes "inv (snd w)" "genuine_stored view stored c i (snd w)" "replayed view c pr w"
    and "faithful_serialization c"
  shows "yields view stored c i fin (reconstructed view c)
    (wbind (replacement c pr, w) (\<lambda>snap w. (Ok (pr_state pr, pr_versions pr, Some snap), w)))"
  using replacement_cases [of c pr] replayed_reconstructed(1) [OF assms(3,4)] assms(2)
  by (auto simp: yields_def)

lemma tail_yields:
  fixes c :: "('ev, 's, 'json, 'x) command"
  defines "declared \<equiv> decl_streams (cmd_declarations c)"
  assumes others: "good_schedule ok sched" and ser: "faithful_serialization c"
    and decl: "distinct declared" and inv: "inv (snd w)"
    and gen: "genuine_stored view stored c i (snd w)" and small: "small (view (snd w))"
    and dist: "distinct ids" and cps: "checkpoints_of c h ids (before @ cp # rest)"
    and b: "behind h (view (snd w)) ids"
    and order: "replay_order c declared {} (set declared) (before @ cp # rest) = Ok (Some qe)"
    and base: "hm_get (rc_stream_versions cp) (rc_stream_id cp) = Some base"
    and s0: "cmd_deserialize c (rc_state cp) = Inr s0"
    and s: "s = foldl (cmd_apply c) s0 (drop (unat base) (view (snd w) (rc_stream_id cp)))"
    and n: "n = vlen (drop (unat base) (view (snd w) (rc_stream_id cp)))"
    and fuel: "fin \<longrightarrow> stays_within c U \<and> card U < fuel"
  shows "yields view stored c i fin (reconstructed view c)
    (replay_from_tail ops sched c fuel declared before cp base s n w)"
proof -
  let ?sid = "rc_stream_id cp" and ?vs = "hm_insert (rc_stream_id cp) (base + n) (rc_stream_versions cp)"
  obtain pr q where pr: "discovery_before_checkpoint c declared before = Ok pr"
    "reading_ok c h (reading_of h (take (length before) ids) pr)" "pr_queue pr = ?sid # q"
    "\<forall>U. stays_within c U \<longrightarrow> pr_scheduled pr \<subseteq> U"
    using discovery_at_checkpoint [of c h ids before cp rest qe] decl cps order
    unfolding declared_def by blast
  obtain q' sch' where d: "discover c s q (pr_scheduled pr) = (q', sch')" by fastforce
  show ?thesis
  proof (cases "cmd_serialize c s")
    case (Inl e)
    then show ?thesis using gen by (simp add: replay_from_tail_def Let_def yields_def)
  next
    case (Inr j)
    let ?pr = "\<lparr>pr_state = s, pr_queue = q', pr_visited = insert ?sid (pr_visited pr), pr_scheduled = sch',
      pr_versions = ?vs, pr_checkpoints = before @ [\<lparr>rc_stream_id = ?sid, rc_state = j, rc_stream_versions = ?vs\<rparr>]\<rparr>"
    note p = tail_progress [OF dist cps b small ser pr(2,3) base s0 s n Inr d refl]
    have "fin \<longrightarrow> stays_within c U \<and> pr_scheduled ?pr \<subseteq> U
        \<and> card U < fuel + length (take (length before) ids @ [?sid])"
      using fuel pr(4) discover_scheduled_all [OF d] by (auto simp: stays_within_def)
    from replay_yields [OF others ser inv gen p this]
    have y: "yields view stored c i fin (replayed view c) (replay_remaining_streams ops sched c fuel ?pr w)" .
    have inv1: "inv (snd (snd (replay_remaining_streams ops sched c fuel ?pr w)))"
      by (rule steady_inv [OF replay_steady [OF inv others]])
    have "yields view stored c i fin (reconstructed view c)
      (wbind (replay_remaining_streams ops sched c fuel ?pr w) (\<lambda>pr' w. wbind (replacement c pr', w)
         (\<lambda>snap w. (Ok (pr_state pr', pr_versions pr', Some snap), w))))"
      by (rule yields_wbind [OF y inv1]) (auto intro!: steady_intros persist_yields ser)
    then show ?thesis
      using Inr pr(1,3) d by (simp add: replay_from_tail_def Let_def discover_same)
  qed
qed

lemma resume_yields:
  fixes c :: "('ev, 's, 'json, 'x) command"
  defines "declared \<equiv> decl_streams (cmd_declarations c)"
  assumes others: "good_schedule ok sched" and ser: "faithful_serialization c"
    and decl: "distinct declared"
    and "inv (snd w)" "genuine_stored view stored c i (snd w)"
    and dist: "distinct ids" and "checkpoints_of c h ids (before @ rest)" "behind h (view (snd w)) ids"
    and "replay_order c declared {} (set declared) (before @ rest) = Ok (Some qe)"
    and fuel: "fin \<longrightarrow> stays_within c U \<and> card U < fuel"
  shows "yields view stored c i fin
    (\<lambda>r w. case r of Some res \<Rightarrow> reconstructed view c res w | None \<Rightarrow> behind h (view (snd w)) ids)
    (resume_from_checkpoints ops sched c fuel declared before rest w)"
  using assms(5,6,8-10)
proof (induction rest arbitrary: before w)
  case Nil
  then show ?case by (simp add: yields_def)
next
  case (Cons cp rest)
  let ?sid = "rc_stream_id cp" and ?i = "length before"
  let ?Q = "\<lambda>r w. case r of Some res \<Rightarrow> reconstructed view c res w | None \<Rightarrow> behind h (view (snd w)) ids"
  have len: "?i < length ids" using Cons.prems(3) by (simp add: checkpoints_of_def)
  then have "checkpoint_of c h (take (Suc ?i) ids) ((before @ cp # rest) ! ?i)"
    using Cons.prems(3) unfolding checkpoints_of_def by blast
  then have cp: "checkpoint_of c h (take (Suc ?i) ids) cp" by simp
  then obtain s0 where s0: "cmd_deserialize c (rc_state cp) = Inr s0" by (simp add: checkpoint_of_def)
  have here: "?sid \<in> set (take (Suc ?i) ids)" using cp by (simp add: checkpoint_of_def)
  then obtain base where base: "hm_get (rc_stream_versions cp) ?sid = Some base"
    using cp by (simp add: checkpoint_of_def hm_same_def hm_get_versions_of)
  obtain t st where w: "w = (t, st)" by (cases w)
  let ?st1 = "interfere ops (sched t) st"
  have st: "inv st" "genuine_stored view stored c i st" using Cons.prems(1,2) w by simp_all
  have st1: "inv ?st1" "extends (view st) (view ?st1)" using await_steady [OF st(1) others] by auto
  have gen1: "genuine_stored view stored c i ?st1" by (rule await_genuine [OF st(1) others st(2)])
  have b1: "behind h (view ?st1) ids" using behind_extends [OF Cons.prems(4)] st1(2) w by simp
  have mem: "?sid \<in> set ids" using here by (rule in_set_takeD)
  have "hm_same (rc_stream_versions cp) (versions_of h (take (Suc ?i) ids))"
    using cp by (simp add: checkpoint_of_def)
  then have "hm_get (versions_of h (take (Suc ?i) ids)) ?sid = Some base"
    using base by (simp only: hm_same_def)
  with here have base_eq: "base = vlen (h ?sid)" by (simp only: hm_get_versions_of if_True option.inject)
  have "unat base \<le> length (h ?sid)" by (simp add: base_eq vlen_def unat_of_nat)
  also have "\<dots> \<le> length (view ?st1 ?sid)" using b1 mem by (auto simp: behind_def)
  finally have within: "unat base \<le> length (view ?st1 ?sid)" .
  let ?es = "drop (unat base) (view ?st1 ?sid)"
  let ?s = "foldl (cmd_apply c) s0 ?es"
  consider (failed) e where "apply_command_stream ops sched c s0 ?sid (Some base) w = (Err e, (Suc t, ?st1))"
    | (folded) "apply_command_stream ops sched c s0 ?sid (Some base) w = (Ok (?s, vlen ?es), (Suc t, ?st1))"
    using apply_stream_cases [OF st(1) others, of "Some base" t ?sid c s0] within w by (auto simp: Let_def)
  then show ?case
  proof cases
    case failed
    then show ?thesis using base s0 gen1 by (simp add: yields_def)
  next
    case app: folded
    show ?thesis
    proof (cases "vlen ?es = 0")
      case True
      have "yields view stored c i fin ?Q
          (resume_from_checkpoints ops sched c fuel declared (before @ [cp]) rest (Suc t, ?st1))"
        by (rule Cons.IH) (use st1 gen1 b1 Cons.prems in simp_all)
      then show ?thesis using base s0 app True by simp
    next
      case False
      let ?tail = "replay_from_tail ops sched c fuel declared before cp base ?s (vlen ?es) (Suc t, ?st1)"
      have "yields view stored c i fin ?Q (wbind ?tail (\<lambda>r w. (Ok (Some r), w)))"
      proof (cases "small (view ?st1)")
        case True
        have y: "yields view stored c i fin (reconstructed view c) ?tail"
          unfolding declared_def
          by (rule tail_yields [where h = h and ids = ids and rest = rest and qe = qe and ?s0.0 = s0])
            (use others ser decl st1(1) gen1 True dist b1 Cons.prems(3,5) base s0 fuel declared_def in simp_all)
        have inv1: "inv (snd (snd ?tail))"
          by (rule steady_inv [OF tail_steady [OF _ others]]) (simp add: st1(1))
        show ?thesis
          by (rule yields_wbind [OF y inv1]) (auto intro: steady_intros simp: yields_def)
      next
        case False
        have "steady inv view (Suc t, ?st1) (wbind ?tail (\<lambda>r w. (Ok (Some r), w)))"
          using st1(1) by (intro steady_intros others) simp_all
        then show ?thesis
          using small_extends False by (auto simp: steady_def yields_def)
      qed
      then show ?thesis using base s0 app False by simp
    qed
  qed
qed

end

end
