(* ===== verification/Snapshot_Serializable.thy ===== *)
theory Snapshot_Serializable
  imports Snapshot_Attempts
begin

text \<open>
  The attempt loop of the snapshot path: what an attempt prepares is a batch from a consistent read,
  so a commit is serializable; the loop does not panic and does not run out of fuel.
\<close>

section \<open>The order check\<close>

lemma order_valid_cases:
  fixes c :: "('ev, 's, 'json, 'x) command" and snap :: "'json command_state_snapshot"
  defines "declared \<equiv> decl_streams (cmd_declarations c)"
  shows "(\<exists>e. snapshot_replay_order_is_valid c declared snap = Err e)
    \<or> snapshot_replay_order_is_valid c declared snap = Ok False
    \<or> (snapshot_replay_order_is_valid c declared snap = Ok True
        \<and> replay_order c declared {} (set declared) (snap_checkpoints snap) = Ok (Some []))"
proof -
  have no: "replay_order c q vis sch cps \<noteq> Panicked \<and> replay_order c q vis sch cps \<noteq> OutOfFuel"
    for q vis sch and cps :: "'json replay_checkpoint list"
  proof (induction c q vis sch cps rule: replay_order.induct)
    case (2 c q vis sch cp cps)
    show ?case
    proof (cases "\<exists>rest s. q = rc_stream_id cp # rest \<and> rc_stream_id cp \<notin> vis
        \<and> hm_contains (rc_stream_versions cp) (rc_stream_id cp) \<and> cmd_deserialize c (rc_state cp) = Inr s")
      case True
      then obtain rest s where q: "q = rc_stream_id cp # rest" "cmd_deserialize c (rc_state cp) = Inr s"
        "rc_stream_id cp \<notin> vis" "hm_contains (rc_stream_versions cp) (rc_stream_id cp)" by blast
      obtain q' sch' where d: "discover_related_streams c s rest sch = (q', sch')" by fastforce
      from "2.IH" [OF q(1) _ d [symmetric] refl] q d show ?thesis by simp
    next
      case False
      then show ?thesis
        by (cases "cmd_deserialize c (rc_state cp)") (auto split: list.splits)
    qed
  qed simp
  show ?thesis
    using no [of declared "{}" "set declared" "snap_checkpoints snap"]
    by (cases "replay_order c declared {} (set declared) (snap_checkpoints snap)")
       (auto simp: snapshot_replay_order_is_valid_def discovery_before_checkpoint_def Let_def
         split: option.splits)
qed

context snapshot_event_store
begin

lemma full_yields:
  fixes c :: "('ev, 's, 'json, 'x) command"
  defines "declared \<equiv> decl_streams (cmd_declarations c)"
  assumes others: "good_schedule ok sched" and ser: "faithful_serialization c"
    and decl: "distinct declared" and inv: "inv (snd w)"
    and gen: "genuine_stored view stored c i (snd w)"
    and fuel: "fin \<longrightarrow> stays_within c U \<and> card U < fuel"
  shows "yields view stored c i fin (reconstructed view c) (full_replay ops sched c fuel declared w)"
proof -
  obtain pr0 where pr0: "discovery_before_checkpoint c declared ([] :: 'json replay_checkpoint list) = Ok pr0"
    "progress_ok c (\<lambda>_. []) [] pr0" "pr_scheduled pr0 = set declared"
    using initial_progress [of c "\<lambda>_. []"] decl declared_def by blast
  have "fin \<longrightarrow> stays_within c U \<and> pr_scheduled pr0 \<subseteq> U \<and> card U < fuel + length ([] :: stream_id list)"
    using fuel pr0(3) by (simp add: stays_within_def declared_def)
  from replay_yields [OF others ser inv gen pr0(2) _ this]
  have y: "yields view stored c i fin (replayed view c) (replay_remaining_streams ops sched c fuel pr0 w)"
    by (simp add: behind_def)
  have inv1: "inv (snd (snd (replay_remaining_streams ops sched c fuel pr0 w)))"
    by (rule steady_inv [OF replay_steady [OF inv others]])
  have "yields view stored c i fin (reconstructed view c)
    (wbind (replay_remaining_streams ops sched c fuel pr0 w) (\<lambda>pr w.
       if refresh_threshold \<le> sum_list (map snd (pr_versions pr))
       then wbind (replacement c pr, w) (\<lambda>snap w. (Ok (pr_state pr, pr_versions pr, Some snap), w))
       else (Ok (pr_state pr, pr_versions pr, None), w)))"
  proof (rule yields_wbind [OF y inv1], goal_cases)
    case (1 pr w1)
    then show ?case by (auto intro!: steady_intros)
  next
    case (2 pr w1)
    have "yields view stored c i fin (reconstructed view c) (Ok (pr_state pr, pr_versions pr, None), w1)"
      using 2(4) replayed_reconstructed(2) [OF 2(5) ser] by (simp add: yields_def)
    then show ?case using persist_yields [OF 2(2,4,5) ser] by simp
  qed
  then show ?thesis using pr0(1) by (simp add: full_replay_def)
qed

lemma reconstruct_yields:
  fixes c :: "('ev, 's, 'json, 'x) command"
  defines "declared \<equiv> decl_streams (cmd_declarations c)"
  assumes others: "good_schedule ok sched" and ser: "faithful_serialization c"
    and decl: "distinct declared" and inv: "inv (snd w)"
    and gen: "genuine_stored view stored c i (snd w)"
    and snap: "\<And>snap. found = Some snap \<Longrightarrow> genuine c (view (snd w)) snap"
    and fuel: "fin \<longrightarrow> stays_within c U \<and> card U < fuel"
  shows "yields view stored c i fin (reconstructed view c)
    (reconstruct_command_snapshot ops sched c fuel declared found w)"
proof (cases found)
  case None
  then show ?thesis
    using full_yields [OF others ser decl [unfolded declared_def] inv gen fuel]
    by (simp add: reconstruct_command_snapshot_def declared_def)
next
  case (Some s)
  obtain h ids where h: "distinct ids" "behind h (view (snd w)) ids" "checkpoints_of c h ids (snap_checkpoints s)"
    "cmd_deserialize c (snap_state s) = Inr (folded c h ids)"
    "hm_same (snap_stream_versions s) (versions_of h ids)"
    using snap [OF Some] unfolding genuine_def by blast
  consider (err) e where "snapshot_replay_order_is_valid c declared s = Err e"
    | (no) "snapshot_replay_order_is_valid c declared s = Ok False"
    | (yes) "snapshot_replay_order_is_valid c declared s = Ok True"
      "replay_order c declared {} (set declared) (snap_checkpoints s) = Ok (Some [])"
    using order_valid_cases [of c s] unfolding declared_def by blast
  then show ?thesis
  proof cases
    case err
    then show ?thesis using Some gen by (simp add: reconstruct_command_snapshot_def yields_def)
  next
    case no
    then show ?thesis
      using Some full_yields [OF others ser decl [unfolded declared_def] inv gen fuel]
      by (simp add: reconstruct_command_snapshot_def declared_def)
  next
    case yes
    have cr: "consistent_read c h ids (folded c h ids)"
    proof -
      obtain pr0 where pr0: "discovery_before_checkpoint c declared ([] :: 'json replay_checkpoint list) = Ok pr0"
        "progress_ok c h [] pr0" using initial_progress [of c h] decl declared_def by blast
      then have eq: "pr_queue pr0 = declared" "pr_visited pr0 = {}" "pr_scheduled pr0 = set declared"
        by (auto simp: discovery_before_checkpoint_def)
      have "\<exists>pr'. discovery_steps c pr0 (snap_checkpoints s) = Ok pr'
          \<and> reading_ok c h (reading_of h ([] @ ids) pr') \<and> pr_queue pr' = []"
        by (rule discovery_steps_ok)
          (use pr0(2) h(3) yes(2) eq in \<open>simp_all add: progress_ok_def checkpoints_of_def\<close>)
      then obtain pr :: "('s, 'json) replay_progress" where pr: "reading_ok c h (reading_of h ids pr)" "pr_queue pr = []" by auto
      then have "queue (reading_of h ids pr) = []" by (simp add: reading_of_def)
      from reading_ok_finished [OF pr(1) this] show ?thesis
        using pr(1) by (simp add: reading_of_def reading_ok_def)
    qed
    let ?r = "resume_from_checkpoints ops sched c fuel declared [] (snap_checkpoints s) w"
    have y: "yields view stored c i fin
      (\<lambda>r w. case r of Some res \<Rightarrow> reconstructed view c res w | None \<Rightarrow> behind h (view (snd w)) ids) ?r"
      unfolding declared_def
      by (rule resume_yields [where qe = "[]" and U = U])
        (use others ser decl inv gen h(1-3) yes(2) fuel declared_def in simp_all)
    have inv1: "inv (snd (snd ?r))" by (rule steady_inv [OF resume_steady [OF inv others]])
    have "yields view stored c i fin (reconstructed view c)
      (wbind ?r (\<lambda>r w. case r of
         Some result \<Rightarrow> (Ok result, w)
       | None \<Rightarrow> wbind (of_result (cmd_deserialize c (snap_state s)), w)
           (\<lambda>s' w. (Ok (s', snap_stream_versions s, None), w))))"
    proof (rule yields_wbind [OF y inv1])
      fix a and w1 :: "'st world"
      assume "inv (snd w1)"
      then show "steady inv view w1 (case a of Some result \<Rightarrow> (Ok result, w1)
         | None \<Rightarrow> wbind (of_result (cmd_deserialize c (snap_state s)), w1)
           (\<lambda>s' w. (Ok (s', snap_stream_versions s, None), w)))"
        by (auto intro!: steady_intros split: option.splits)
    next
      fix a and w1 :: "'st world"
      assume "genuine_stored view stored c i (snd w1)"
        "case a of Some res \<Rightarrow> reconstructed view c res w1 | None \<Rightarrow> behind h (view (snd w1)) ids"
      then show "yields view stored c i fin (reconstructed view c) (case a of Some result \<Rightarrow> (Ok result, w1)
         | None \<Rightarrow> wbind (of_result (cmd_deserialize c (snap_state s)), w1)
           (\<lambda>s' w. (Ok (s', snap_stream_versions s, None), w)))"
        using cr h(4,5) by (auto simp: yields_def reconstructed_def split: option.splits)
    qed
    then show ?thesis using Some yes(1) by (simp add: reconstruct_command_snapshot_def)
  qed
qed

section \<open>One attempt\<close>

lemma load_steady [steady_intros]:
  assumes "inv (snd w)" "good_schedule ok sched"
  shows "steady inv view w (load_step ops sched i w)"
  using await_steady [OF _ assms(2)] assms(1)
  by (cases w) (simp add: load_step_def steady_def Let_def)

lemma load_yields:
  assumes "inv (snd w)" "good_schedule ok sched" "genuine_stored view stored c i (snd w)"
  shows "yields view stored c i fin (\<lambda>found w. found = stored (snd w) i) (load_step ops sched i w)"
proof -
  obtain t st where w: "w = (t, st)" by (cases w)
  let ?st1 = "interfere ops (sched t) st"
  have "inv ?st1" "genuine_stored view stored c i ?st1"
    using await_steady(1) [OF _ assms(2)] await_genuine [OF _ assms(2)] assms(1,3) w by simp_all
  then show ?thesis
    using load [of ?st1 i] w by (cases "op_load_snapshot ops ?st1 i") (simp_all add: load_step_def yields_def Let_def)
qed

lemma save_steady [steady_intros]:
  assumes "inv (snd w)" "good_schedule ok sched"
  shows "steady inv view w (save_step ops sched i persist w)"
proof -
  obtain t st where w: "w = (t, st)" by (cases w)
  let ?st1 = "interfere ops (sched t) st"
  have st1: "inv ?st1" "extends (view st) (view ?st1)"
    using await_steady [OF _ assms(2)] assms(1) w by simp_all
  show ?thesis
  proof (cases persist)
    case (Some s)
    obtain r st2 where sv: "op_save_snapshot ops ?st1 i s = (r, st2)" by fastforce
    show ?thesis using save [OF st1(1) sv] st1(2) w Some sv by (simp add: save_step_def steady_def)
  qed (use assms(1) in \<open>simp add: save_step_def steady_def\<close>)
qed

lemma reconstructed_extends:
  assumes "reconstructed view c (s, vs, p) w" "extends (view (snd w)) (view (snd w'))"
  shows "reconstructed view c (s, vs, p) w'"
  using assms(1) behind_extends [OF _ assms(2)] genuine_extends [OF _ assms(2)]
  unfolding reconstructed_def by blast

lemma save_yields:
  assumes inv: "inv (snd w)" and others: "good_schedule ok sched"
    and gen: "genuine_stored view stored c i (snd w)"
    and r: "reconstructed view c (s, vs, persist) w"
  shows "yields view stored c i fin (\<lambda>u w. reconstructed view c (s, vs, persist) w)
    (save_step ops sched i persist w)"
proof (cases persist)
  case None
  then show ?thesis using r gen by (simp add: save_step_def yields_def)
next
  case (Some snap)
  obtain t st where w: "w = (t, st)" by (cases w)
  let ?st1 = "interfere ops (sched t) st"
  have st1: "inv ?st1" "extends (view st) (view ?st1)" "genuine_stored view stored c i ?st1"
    using await_steady [OF _ others] await_genuine [OF _ others] inv gen w by simp_all
  obtain r' st2 where sv: "op_save_snapshot ops ?st1 i snap = (r', st2)" by fastforce
  note law = save [OF st1(1) sv]
  have r1: "reconstructed view c (s, vs, persist) (Suc t, st2)"
    by (rule reconstructed_extends [OF r]) (use w st1(2) law in simp)
  then have "genuine c (view st2) snap" using Some by (simp add: reconstructed_def)
  then have "genuine_stored view stored c i st2"
    using st1(3) law by (auto simp: genuine_stored_def)
  then show ?thesis
    using r1 w Some sv by (cases r') (simp_all add: save_step_def yields_def)
qed

lemma prepare_steady:
  assumes "inv (snd w)" "good_schedule ok sched"
  shows "steady inv view w (prepare_attempt ops sched c fuel i declared w)"
  unfolding prepare_attempt_def using assms
  by (auto intro!: steady_intros split: prod.splits)

lemma prepare_batch:
  assumes "prepare_attempt ops sched c fuel i declared w = (Ok writes, w1)" "good_command ok c"
  shows "good_batch ok writes"
proof -
  obtain s events ex where h: "cmd_handle c s = Inr events"
    "build_stream_writes (cmd_event c) events ex = Inr writes"
    using assms(1) by (auto simp: prepare_attempt_def wbind_Ok_iff build_stream_writes_from_events_def)
  show ?thesis
    using assms(2) h build_stream_writes_wf [OF h(2)] by (auto simp: good_batch_def good_command_def)
qed

lemma prepare_yields:
  fixes c :: "('ev, 's, 'json, 'x) command"
  defines "declared \<equiv> decl_streams (cmd_declarations c)"
  assumes others: "good_schedule ok sched" and ser: "faithful_serialization c"
    and decl: "distinct declared" and inv: "inv (snd w)"
    and gen: "genuine_stored view stored c i (snd w)"
    and fuel: "fin \<longrightarrow> stays_within c U \<and> card U < fuel"
  shows "yields view stored c i fin (\<lambda>writes w. prepared c (view (snd w)) writes)
    (prepare_attempt ops sched c fuel i declared w)"
  unfolding prepare_attempt_def
proof (rule yields_wbind [OF load_yields [OF inv others gen] steady_inv [OF load_steady [OF inv others]]],
    goal_cases)
  case (1 found w1)
  then show ?case using others by (auto intro!: steady_intros split: prod.splits)
next
  case (2 found w1)
  have snap: "\<And>snap. found = Some snap \<Longrightarrow> genuine c (view (snd w1)) snap"
    using 2 by (simp add: genuine_stored_def)
  have y: "yields view stored c i fin (reconstructed view c)
      (reconstruct_command_snapshot ops sched c fuel declared found w1)"
    unfolding declared_def
    by (rule reconstruct_yields [where U = U])
      (use others ser decl 2 snap fuel declared_def in simp_all)
  have inv1: "inv (snd (snd (reconstruct_command_snapshot ops sched c fuel declared found w1)))"
    by (rule steady_inv [OF reconstruct_steady [OF 2(2) others]])
  show ?case
  proof (rule yields_wbind [OF y inv1], goal_cases)
    case (1 r w2)
    then show ?case using others by (auto intro!: steady_intros split: prod.splits)
  next
    case (2 r w2)
    obtain s vs persist where r: "r = (s, vs, persist)" by (cases r)
    have rec: "reconstructed view c (s, vs, persist) w2" using 2(5) r by simp
    note y = save_yields [OF 2(2) others 2(4) rec]
    have inv2: "inv (snd (snd (save_step ops sched i persist w2)))"
      by (rule steady_inv [OF save_steady [OF 2(2) others]])
    show ?case unfolding r prod.case
    proof (rule yields_wbind [OF y inv2], goal_cases)
      case (1 u w3)
      then show ?case by (auto intro!: steady_intros)
    next
      case (2 u w3)
      obtain h ids where h: "consistent_read c h ids s" "behind h (view (snd w3)) ids"
        "hm_same vs (versions_of h ids)" using 2(5) by (auto simp: reconstructed_def)
      show ?case
      proof (cases "cmd_handle c s")
        case (Inr events)
        note prep = preparedI [OF h(1,2) Inr h(3)]
        show ?thesis
          using Inr prep 2(4)
          by (cases "build_stream_writes (cmd_event c) events vs")
             (simp_all add: yields_def build_stream_writes_from_events_def)
      qed (use 2 in \<open>simp add: yields_def\<close>)
    qed
  qed
qed

end

section \<open>The attempt loop\<close>

context snapshot_event_store
begin

lemma append_step_facts:
  assumes "inv (snd w)" "good_schedule ok sched" "good_batch ok writes"
    and "append_step ops sched writes w = (r, w')"
  shows "inv (snd w')" and "extends (view (snd w)) (view (snd w'))"
    and "genuine_stored view stored c i (snd w) \<Longrightarrow> genuine_stored view stored c i (snd w')"
proof -
  obtain t st where w: "w = (t, st)" by (cases w)
  let ?st1 = "interfere ops (sched t) st"
  have st1: "inv ?st1" "extends (view st) (view ?st1)"
    using await_steady [OF _ assms(2)] assms(1) w by simp_all
  have ap: "op_append ops ?st1 writes = (r, snd w')" "w' = (Suc t, snd w')"
    using assms(4) w by (auto simp: append_step_def Let_def split: prod.splits)
  have gb: "wf_writes writes" "\<forall>en \<in> set (entries writes). ok en"
    using assms(3) by (simp_all add: good_batch_def)
  have ext: "extends (view ?st1) (view (snd w'))" and inv': "inv (snd w')"
    using append_extends [OF st1(1) gb] ap(1) by (simp_all add: extends_def)
  show "inv (snd w')" by (rule inv')
  show "extends (view (snd w)) (view (snd w'))" using extends_trans [OF st1(2) ext] w by simp
  assume "genuine_stored view stored c i (snd w)"
  then have "genuine_stored view stored c i ?st1" using await_genuine [OF _ assms(2)] assms(1) w by simp
  then show "genuine_stored view stored c i (snd w')"
    using append_stored [OF st1(1) ap(1)] genuine_extends [OF _ ext, of c] by (simp add: genuine_stored_def)
qed

lemma sleep_step_facts:
  assumes "inv (snd w)" "good_schedule ok sched"
  shows "inv (snd (sleep_step ops sched w))" and "extends (view (snd w)) (view (snd (sleep_step ops sched w)))"
    and "genuine_stored view stored c i (snd w) \<Longrightarrow> genuine_stored view stored c i (snd (sleep_step ops sched w))"
proof -
  obtain t st where w: "w = (t, st)" by (cases w)
  have st: "inv st" using assms(1) w by simp
  note f = await_steady [OF st assms(2), of t] await_genuine [OF st assms(2), of c i t]
  show "inv (snd (sleep_step ops sched w))" "extends (view (snd w)) (view (snd (sleep_step ops sched w)))"
    "genuine_stored view stored c i (snd w) \<Longrightarrow> genuine_stored view stored c i (snd (sleep_step ops sched w))"
    using f w by (simp_all add: sleep_step_def)
qed

text \<open>What one round does after a batch was prepared and its append failed with a conflict.\<close>

lemma attempts_retry:
  assumes "prepare_attempt ops sched c fuel i declared w = (Ok writes, w1)"
    and "append_step ops sched writes w1 = (Inl (VersionConflict a b d), w2)"
    and "attempt < rp_max_retries policy"
  shows "\<exists>hooks'. snapshot_attempts ops sched jitter c policy fuel i declared (Suc rounds) attempt hooks w
    = snapshot_attempts ops sched jitter c policy fuel i declared rounds (attempt + 1) hooks'
        (sleep_step ops sched w2)"
proof -
  have "attempt + 1 \<noteq> 0" using word_less_Suc_unat [OF assms(3)] by (metis unat_0 nat.distinct(1))
  then show ?thesis using assms by (simp add: Let_def non_zero_u32_def) blast
qed

lemma attempts_steady:
  assumes "inv (snd w)" "good_schedule ok sched" "good_command ok c"
    and "snapshot_attempts ops sched jitter c policy fuel i declared rounds attempt hooks w = (r, hooks', w')"
  shows "inv (snd w') \<and> extends (view (snd w)) (view (snd w'))"
  using assms(1,4)
proof (induction rounds arbitrary: attempt hooks w)
  case 0
  then show ?case by simp
next
  case (Suc rounds)
  obtain p w1 where p: "prepare_attempt ops sched c fuel i declared w = (p, w1)"
    by (rule prod.exhaust)
  have w1: "inv (snd w1)" "extends (view (snd w)) (view (snd w1))"
    using prepare_steady [OF Suc.prems(1) assms(2), of c fuel i declared] p by (simp_all add: steady_def)
  show ?case
  proof (cases p)
    case (Ok writes)
    obtain ar w2 where ap: "append_step ops sched writes w1 = (ar, w2)" by (rule prod.exhaust)
    have gb: "good_batch ok writes" using prepare_batch [OF p [unfolded Ok] assms(3)] .
    note f = append_step_facts(1,2) [OF w1(1) assms(2) gb ap]
    have w2: "inv (snd w2)" "extends (view (snd w)) (view (snd w2))" using f extends_trans [OF w1(2)] by auto
    show ?thesis
    proof (cases "(\<exists>a b d. ar = Inl (VersionConflict a b d)) \<and> attempt < rp_max_retries policy")
      case True
      then obtain a b d where ar: "ar = Inl (VersionConflict a b d)" by blast
      obtain hooks2 where "snapshot_attempts ops sched jitter c policy fuel i declared rounds (attempt + 1) hooks2
        (sleep_step ops sched w2) = (r, hooks', w')"
        using attempts_retry [OF p [unfolded Ok] ap [unfolded ar]] True Suc.prems(2) by metis
      from Suc.IH [OF _ this] show ?thesis
        using sleep_step_facts(1,2) [OF w2(1) assms(2)] w2(2) extends_trans by blast
    next
      case False
      then have "w' = w2"
        using Suc.prems(2) p Ok ap by (auto split: sum.splits event_store_error.splits option.splits)
      then show ?thesis using w2 by simp
    qed
  qed (use Suc.prems(2) p w1 in auto)
qed

lemma attempts_sound:
  fixes c :: "('ev, 's, 'json, 'x) command"
  defines "declared \<equiv> decl_streams (cmd_declarations c)"
  assumes others: "good_schedule ok sched" and good: "good_command ok c"
    and ser: "faithful_serialization c" and decl: "distinct declared"
    and max: "rp_max_retries policy \<noteq> - 1"
    and fuel: "fin \<longrightarrow> stays_within c U \<and> card U < fuel"
    and "inv (snd w)" "genuine_stored view stored c i (snd w)" "attempt \<le> rp_max_retries policy"
    and "snapshot_attempts ops sched jitter c policy fuel i declared rounds attempt hooks w = (r, hooks', w')"
    and small: "small (view (snd w'))"
  shows "case r of
      Ok resp \<Rightarrow> result_ok c policy (view (snd w)) (view (snd w')) (ExecOk resp)
    | Err e \<Rightarrow> True
    | Panicked \<Rightarrow> False
    | OutOfFuel \<Rightarrow> \<not> (fin \<and> unat (rp_max_retries policy) < rounds + unat attempt)"
  using assms(8-11)
proof (induction rounds arbitrary: attempt hooks w)
  case 0
  then show ?case by (auto simp: word_le_nat_alt)
next
  case (Suc rounds)
  obtain p w1 where p: "prepare_attempt ops sched c fuel i declared w = (p, w1)"
    by (rule prod.exhaust)
  have w1: "inv (snd w1)" "extends (view (snd w)) (view (snd w1))"
    using prepare_steady [OF Suc.prems(1) others, of c fuel i declared] p by (simp_all add: steady_def)
  have y: "yields view stored c i fin (\<lambda>writes w. prepared c (view (snd w)) writes) (p, w1)"
    using prepare_yields [OF others ser decl [unfolded declared_def] Suc.prems(1,2) fuel] p
    by (simp add: declared_def)
  show ?case
  proof (cases p)
    case (Ok writes)
    obtain ar w2 where ap: "append_step ops sched writes w1 = (ar, w2)" by (rule prod.exhaust)
    have gb: "good_batch ok writes" using prepare_batch [OF p [unfolded Ok] good] .
    note f = append_step_facts [OF w1(1) others gb ap]
    obtain t st where w1_eq: "w1 = (t, st)" by (cases w1)
    let ?st1 = "interfere ops (sched t) st"
    have st1: "inv ?st1" "extends (view st) (view ?st1)"
      using await_steady [OF _ others] w1(1) w1_eq by simp_all
    have ap_op: "op_append ops ?st1 writes = (ar, snd w2)"
      using ap w1_eq by (auto simp: append_step_def Let_def split: prod.splits)
    show ?thesis
    proof (cases "(\<exists>a b d. ar = Inl (VersionConflict a b d)) \<and> attempt < rp_max_retries policy")
      case True
      then obtain a b d where ar: "ar = Inl (VersionConflict a b d)" by blast
      let ?w3 = "sleep_step ops sched w2"
      note sl = sleep_step_facts [OF f(1) others]
      obtain hooks2 where rec: "snapshot_attempts ops sched jitter c policy fuel i declared rounds (attempt + 1) hooks2
        ?w3 = (r, hooks', w')"
        using attempts_retry [OF p [unfolded Ok] ap [unfolded ar]] True Suc.prems(4) by metis
      have "extends (view (snd ?w3)) (view (snd w'))" using attempts_steady [OF sl(1) others good rec] by simp
      then have ext: "extends (view (snd w1)) (view (snd w'))" "extends (view (snd w)) (view (snd ?w3))"
        using f(2) sl(2) w1(2) extends_trans by blast+
      have "genuine_stored view stored c i (snd w1)"
        using y small_extends [OF small ext(1)] by (simp add: yields_def)
      then have gen3: "genuine_stored view stored c i (snd ?w3)" using f(3) sl(3) by blast
      have le: "attempt + 1 \<le> rp_max_retries policy" using True by (simp add: inc_le)
      from Suc.IH [OF sl(1) gen3 le rec] show ?thesis
        using result_ok_extends [OF _ ext(2), of c policy "view (snd w')" "ExecOk (case r of Ok resp \<Rightarrow> resp)"] word_less_Suc_unat [of attempt "rp_max_retries policy"] True
        by (cases r) (simp_all del: result_ok.simps)
    next
      case False
      then have w': "w' = w2"
        using Suc.prems(4) p Ok ap by (auto split: sum.splits event_store_error.splits option.splits)
      show ?thesis
      proof (cases ar)
        case (Inl e)
        then show ?thesis
          using False Suc.prems(4) p Ok ap by (auto split: event_store_error.splits)
      next
        case (Inr u)
        note a = attempts_next [OF Suc.prems(3) max]
        have r: "r = Ok \<lparr>er_attempts = attempt + 1\<rparr>"
          using Suc.prems(4) p Ok ap Inr a(1) by (simp add: execution_response_new_def non_zero_u32_def)
        have small1: "small (view (snd w1))" using small_extends [OF small] f(2) w' by simp
        have "extends (view ?st1) (view (snd w2))"
          using append_extends [OF st1(1), of writes] gb ap_op by (simp add: good_batch_def extends_def)
        then have small_st1: "small (view ?st1)" using small_extends small w' by blast
        have "prepared c (view st) writes" using y small1 Ok w1_eq by (simp add: yields_def)
        then have "prepared c (view ?st1) writes" by (rule prepared_extends [OF _ st1(2)])
        from commit_serializable [OF st1(1) this good ap_op [unfolded Inr]] small_st1
        have "\<exists>ids s events. commits c (view ?st1) (view (snd w2)) ids s events" by (simp add: small_def)
        moreover have "extends (view (snd w)) (view ?st1)" using extends_trans [OF w1(2)] st1(2) w1_eq by simp
        moreover have "unat attempt \<le> unat (rp_max_retries policy)"
          using Suc.prems(3) by (simp add: word_le_nat_alt)
        ultimately show ?thesis using r w' a(2) unfolding r by simp blast
      qed
    qed
  qed (use Suc.prems(4) p y w1 small in \<open>auto simp: yields_def\<close>)
qed

end

text \<open>
  Both paths of \<open>execute\<close> over a store that keeps the contract with snapshots: the outcome is a commit
  against histories the store really had, or an error that changed nothing of its own.
\<close>

lemma execute_snapshot_path:
  assumes "cmd_snapshot_id c = Some i"
    and "execute ops sched jitter fuel c policy st = Some (r, hooks, st')"
  obtains out t where "snapshot_attempts ops sched jitter c policy fuel i
      (decl_streams (cmd_declarations c)) fuel 0 [] (0, st) = (out, hooks, (t, st'))"
    and "case out of Ok resp \<Rightarrow> r = ExecOk resp | Err e \<Rightarrow> r = ExecErr e | Panicked \<Rightarrow> r = ExecPanic
      | OutOfFuel \<Rightarrow> False"
  using assms
  by (auto simp: execute_def execute_with_snapshot_def split: outcome.splits prod.splits)

lemma execute_pipeline_path:
  assumes "cmd_snapshot_id c = None"
    and "execute ops sched jitter fuel c policy st = Some (r, hooks, st')"
  obtains p where "execute_run ops sched jitter fuel c policy st = Some (r, p, st')"
  using assms by (auto simp: execute_def)

context snapshot_event_store
begin

text \<open>What a command is assumed to be, in either path.\<close>

definition runnable :: "('ev, 's, 'json, 'x) command \<Rightarrow> 'st \<Rightarrow> bool" where
  "runnable c st \<longleftrightarrow> inv st \<and> good_command ok c \<and> wf_declarations (cmd_declarations c)
     \<and> faithful_serialization c
     \<and> (\<forall>i. cmd_snapshot_id c = Some i \<longrightarrow> genuine_stored view stored c i st)"

lemma execute_sound:
  assumes "runnable c st" "good_schedule ok sched" "rp_max_retries policy \<noteq> - 1"
    and "execute ops sched jitter fuel c policy st = Some (r, hooks, st')" "small (view st')"
  shows "inv st' \<and> extends (view st) (view st') \<and> result_ok c policy (view st) (view st') r"
proof (cases "cmd_snapshot_id c")
  case None
  have r: "inv st" "good_command ok c" using assms(1) by (simp_all add: runnable_def)
  obtain p where run: "execute_run ops sched jitter fuel c policy st = Some (r, p, st')"
    by (rule execute_pipeline_path [OF None assms(4)])
  show ?thesis
    using drive_sound [OF r(1) run_ok_start r(2) assms(2,3) run [unfolded execute_run_def]] assms(5)
    by (simp add: small_def)
next
  case (Some i)
  obtain out t where run: "snapshot_attempts ops sched jitter c policy fuel i
      (decl_streams (cmd_declarations c)) fuel 0 [] (0, st) = (out, hooks, (t, st'))"
    and out: "case out of Ok resp \<Rightarrow> r = ExecOk resp | Err e \<Rightarrow> r = ExecErr e | Panicked \<Rightarrow> r = ExecPanic
      | OutOfFuel \<Rightarrow> False"
    by (rule execute_snapshot_path [OF Some assms(4)])
  have r: "inv (snd (0 :: nat, st))" "good_command ok c" "faithful_serialization c"
    "distinct (decl_streams (cmd_declarations c))" "genuine_stored view stored c i (snd (0 :: nat, st))"
    using assms(1) Some by (simp_all add: runnable_def wf_declarations_def)
  have nofuel: "False \<longrightarrow> stays_within c {} \<and> card ({} :: stream_id set) < fuel" by simp
  have le: "(0::u32) \<le> rp_max_retries policy" by simp
  have small': "small (view (snd (t, st')))" using assms(5) by simp
  have st: "inv st'" "extends (view st) (view st')"
    using attempts_steady [OF r(1) assms(2) r(2) run] by simp_all
  show ?thesis
    using attempts_sound [OF assms(2) r(2,3,4) assms(3) nofuel r(1,5) le run small'] out st
    by (cases out) auto
qed

end

end
