(* ===== verification/Memory_Correct.thy ===== *)
theory Memory_Correct
  imports Memory_Store Snapshot_Serializable
begin

text \<open>
  Correctness of the in-memory back end: the invariant that ties versions to histories and the
  global log to the streams, its preservation by every operation, and the interpretations of the
  store, checkpoint and coordinator contracts.
\<close>

section \<open>Invariant\<close>

definition mem_view :: "('ev, 'json) store_data \<Rightarrow> stream_id \<Rightarrow> 'ev list" where
  "mem_view data sid = (case hm_get (streams data) sid of None \<Rightarrow> [] | Some (es, _) \<Rightarrow> es)"

definition mem_inv :: "'ev event_type \<Rightarrow> ('ev, 'json) store_data \<Rightarrow> bool" where
  "mem_inv E data \<longleftrightarrow> \<not> poisoned data \<and> hm_wf (streams data)
     \<and> (\<forall>sid es v. hm_get (streams data) sid = Some (es, v) \<longrightarrow> v = vlen es \<and> list_all (ev_is E) es)"

definition well_typed :: "'ev event_type \<Rightarrow> 'ev write_entry \<Rightarrow> bool" where
  "well_typed E en \<longleftrightarrow> ev_is E (we_event en) \<and> typed_entry E en"

lemma mem_inv_new: "mem_inv E memory_new"
  by (simp add: mem_inv_def memory_new_def)

lemma current_version_view: "mem_inv E data \<Longrightarrow> current_version data sid = vlen (mem_view data sid)"
  by (auto simp: mem_inv_def current_version_def mem_view_def split: option.splits)

lemma view_typed: "mem_inv E data \<Longrightarrow> list_all (ev_is E) (mem_view data sid)"
  by (auto simp: mem_inv_def mem_view_def split: option.splits)

lemma downcast_typed: "list_all (ev_is E) es \<Longrightarrow> map (downcast E sid) es = map Inr es"
  by (induction es) (auto simp: downcast_def)

lemma mem_read_view:
  assumes "mem_inv E data"
  shows "mem_read_stream E data sid = Inr (map Inr (mem_view data sid))"
    and "mem_read_stream_after E data sid v = Inr (map Inr (drop (unat v) (mem_view data sid)))"
  using assms view_typed [OF assms, of sid]
  by (auto simp: mem_read_stream_def mem_read_stream_after_def mem_inv_def mem_view_def
      downcast_def list_all_iff dest: in_set_dropD split: option.splits)

lemma push_entry_view:
  "mem_view (push_entry now_v7 en data) =
     (\<lambda>sid. mem_view data sid @ (if we_stream_id en = sid then [we_event en] else []))"
  by (auto simp: push_entry_def mem_view_def Let_def fun_eq_iff split: option.splits prod.splits)

lemma push_entry_inv:
  assumes "mem_inv E data" "ev_is E (we_event en)"
  shows "mem_inv E (push_entry now_v7 en data)"
  using assms
  by (auto simp: mem_inv_def push_entry_def Let_def version_increment_def split: option.splits prod.splits)

lemma push_entries:
  assumes "mem_inv E data" "\<forall>en \<in> set es. ev_is E (we_event en)"
  shows "mem_inv E (fold (push_entry now_v7) es data)"
    and "mem_view (fold (push_entry now_v7) es data) = (\<lambda>sid. mem_view data sid @ events_for es sid)"
  using assms
  by (induction es arbitrary: data) (auto simp: push_entry_inv push_entry_view fun_eq_iff)

lemma check_versions_None_iff:
  "check_versions data ex = None \<longleftrightarrow> (\<forall>(sid, v) \<in> set ex. current_version data sid = v)"
  by (induction data ex rule: check_versions.induct) auto

lemma check_versions_Some:
  "check_versions data ex = Some err \<Longrightarrow> \<exists>sid v. (sid, v) \<in> set ex
     \<and> err = VersionConflict sid v (current_version data sid) \<and> current_version data sid \<noteq> v"
  by (induction data ex rule: check_versions.induct) (auto split: if_splits)

lemma check_versions_match:
  assumes "mem_inv E data"
  shows "check_versions data (expected_versions w) = None \<longleftrightarrow> versions_match mem_view data w"
  using current_version_view [OF assms]
  by (fastforce simp: check_versions_None_iff versions_match_def)

lemma mem_append_ok_iff:
  assumes "mem_inv E data"
  shows "mem_append_events now_v7 data w = (Inr u, data') \<longleftrightarrow>
     versions_match mem_view data w \<and> data' = fold (push_entry now_v7) (entries w) data"
  using assms check_versions_match [OF assms, of w]
  by (auto simp: mem_append_events_def mem_inv_def split: option.splits)

lemma mem_append_err:
  assumes "mem_inv E data" "mem_append_events now_v7 data w = (Inl e, data')"
  shows "data' = data" and "\<exists>sid v. (sid, v) \<in> set (expected_versions w)
     \<and> e = VersionConflict sid v (vlen (mem_view data sid)) \<and> vlen (mem_view data sid) \<noteq> v"
  using assms check_versions_Some [of data "expected_versions w"] current_version_view [OF assms(1)]
  by (auto simp: mem_append_events_def mem_inv_def split: option.splits)

lemma memory_append_kept: "op_append (memory_ops now_v7 E) data w = (Inl e, data') \<Longrightarrow> data' = data"
  by (auto simp: memory_ops_def mem_append_events_def split: if_splits option.splits)

section \<open>The store contract\<close>

interpretation mem: strict_event_store "memory_ops now_v7 E" "mem_inv E" mem_view "well_typed E"
proof (unfold_locales, goal_cases)
  case (1 st sid)
  then show ?case by (simp add: memory_ops_def mem_read_view)
next
  case (2 st w u st')
  then show ?case
    using push_entries [of E st "entries w"]
    by (auto simp: memory_ops_def mem_append_ok_iff well_typed_def)
next
  case (3 st w u st')
  then show ?case by (simp add: memory_ops_def mem_append_ok_iff)
next
  case (4 st w e st')
  then show ?case using mem_append_err(1) by (fastforce simp: memory_ops_def)
next
  case (5 st w sid v actual st')
  then have a: "mem_append_events now_v7 st w = (Inl (VersionConflict sid v actual), st')"
    by (simp add: memory_ops_def)
  show ?case using mem_append_err [OF 5(1) a] by auto
next
  case (6 st w)
  then show ?case by (auto simp: memory_ops_def mem_append_ok_iff)
next
  case (7 st w e st')
  then show ?case using mem_append_err(1) by (fastforce simp: memory_ops_def)
qed

definition mem_stored ::
  "('ev, 'json) store_data \<Rightarrow> rstring \<Rightarrow> 'json command_state_snapshot option" where
  "mem_stored data i = hm_get (command_state_snapshots data) i"

lemma push_entries_snapshots:
  "command_state_snapshots (fold (push_entry now_v7) es data) = command_state_snapshots data"
  by (induction es arbitrary: data) (auto simp: push_entry_def Let_def split: prod.splits option.splits)

interpretation mem_snap:
  snapshot_event_store "memory_ops now_v7 E" "mem_inv E" mem_view "well_typed E" mem_stored
proof (unfold_locales, goal_cases)
  case (1 st sid v)
  then show ?case by (simp add: memory_ops_def mem_read_view)
next
  case (2 st i found)
  then show ?case by (auto simp: memory_ops_def mem_load_snapshot_def mem_stored_def mem_inv_def)
next
  case (3 st i s r st')
  then show ?case
    by (auto simp: memory_ops_def mem_save_snapshot_def mem_stored_def mem_inv_def mem_view_def Let_def
        split: option.splits if_splits)
next
  case (4 st w r st' i)
  then show ?case
    by (auto simp: memory_ops_def mem_append_events_def mem_stored_def push_entries_snapshots
        split: option.splits if_splits)
qed

interpretation mem_cp: checkpoint_store mem_load_checkpoint mem_save_checkpoint "\<lambda>d. \<not> poisoned d"
  by unfold_locales (auto simp: mem_load_checkpoint_def mem_save_checkpoint_def)

interpretation cps: checkpoint_store cp_load cp_save "\<lambda>s. \<not> cp_poisoned s"
  by unfold_locales (auto simp: cp_load_def cp_save_def)

definition mem_leaders :: "('ev, 'json) store_data \<Rightarrow> rstring set" where
  "mem_leaders data = {n. hm_contains (locks data) n}"

definition co_leaders :: "memory_coordinator \<Rightarrow> rstring set" where
  "co_leaders s = {n. hm_contains (co_locks s) n}"

interpretation mem_co: projector_coordinator mem_try_acquire mem_drop_guard mem_leaders
  "\<lambda>d. \<not> poisoned d \<and> \<not> locks_poisoned d" guard_name
  by unfold_locales
     (auto simp: mem_try_acquire_def mem_drop_guard_def mem_leaders_def hm_contains_def)

interpretation co: projector_coordinator co_try_acquire co_drop_guard co_leaders
  "\<lambda>s. \<not> co_poisoned s" guard_name
  by unfold_locales (auto simp: co_try_acquire_def co_drop_guard_def co_leaders_def hm_contains_def)

section \<open>The global log\<close>

text \<open>
  The log that feeds projections and the streams that feed commands hold the same events: for every
  stream, the log's entries are exactly the serialised history, in order; and the identifiers, which
  are the projection cursors, strictly increase.
\<close>

definition log_of_stream :: "('ev, 'json) store_data \<Rightarrow> stream_id \<Rightarrow> log_entry list" where
  "log_of_stream data sid = filter (\<lambda>le. le_stream_id le = sid_str sid) (global_log data)"

text \<open>The first \<open>n\<close> calls of \<open>Uuid::now_v7\<close> return increasing identifiers (its documented promise).\<close>

definition clock_ok :: "(nat \<Rightarrow> uuid) \<Rightarrow> nat \<Rightarrow> bool" where
  "clock_ok now_v7 n \<longleftrightarrow> (\<forall>i < n. now_v7 i < now_v7 (Suc i))"

definition log_inv :: "(nat \<Rightarrow> uuid) \<Rightarrow> 'ev event_type \<Rightarrow> ('ev, 'json) store_data \<Rightarrow> bool" where
  "log_inv now_v7 E data \<longleftrightarrow>
     sorted_wrt (<) (map le_event_id (global_log data))
   \<and> (\<forall>le \<in> set (global_log data). le_event_id le < now_v7 (uuid_calls data)
        \<and> le_event_type le = ev_type_name E)
   \<and> (\<forall>sid. map Inr (map le_event_data (log_of_stream data sid)) = map (ev_to_json E) (mem_view data sid))"

lemma log_inv_new: "log_inv now_v7 E memory_new"
  by (simp add: log_inv_def memory_new_def log_of_stream_def mem_view_def)

lemma push_entry_log:
  "global_log (push_entry now_v7 en data) = global_log data @
     [\<lparr>le_event_id = now_v7 (uuid_calls data), le_stream_id = sid_str (we_stream_id en),
       le_event_type = we_event_type en, le_event_data = we_event_data en\<rparr>]"
  "uuid_calls (push_entry now_v7 en data) = Suc (uuid_calls data)"
  by (auto simp: push_entry_def Let_def split: option.splits prod.splits)

lemma push_entry_log_inv:
  assumes "now_v7 (uuid_calls data) < now_v7 (Suc (uuid_calls data))" "log_inv now_v7 E data"
    and "typed_entry E en"
  shows "log_inv now_v7 E (push_entry now_v7 en data)"
proof -
  let ?d = "push_entry now_v7 en data"
  note lt = assms(1)
  have old: "\<forall>le \<in> set (global_log data). le_event_id le < now_v7 (uuid_calls data)
      \<and> le_event_type le = ev_type_name E"
    using assms(2) by (simp add: log_inv_def)
  have "sorted_wrt (<) (map le_event_id (global_log ?d))"
    using assms(2) old by (simp add: push_entry_log sorted_wrt_append log_inv_def)
  moreover have "le_event_id le < now_v7 (uuid_calls ?d) \<and> le_event_type le = ev_type_name E"
    if le: "le \<in> set (global_log ?d)" for le
  proof (cases "le \<in> set (global_log data)")
    case True
    with old have o: "le_event_id le < now_v7 (uuid_calls data)" "le_event_type le = ev_type_name E"
      by blast+
    from o(1) lt have "le_event_id le < now_v7 (Suc (uuid_calls data))"
      by (rule order.strict_trans)
    with o(2) show ?thesis by (simp only: push_entry_log(2))
  next
    case False
    with le have "le_event_id le = now_v7 (uuid_calls data)" "le_event_type le = we_event_type en"
      by (auto simp: push_entry_log(1))
    with lt assms(3) show ?thesis by (simp only: push_entry_log(2) typed_entry_def)
  qed
  moreover have "map Inr (map le_event_data (log_of_stream ?d sid)) = map (ev_to_json E) (mem_view ?d sid)"
    for sid
    using assms(2,3) stream_id.expand [of sid "we_stream_id en"]
    by (auto simp: push_entry_log push_entry_view log_of_stream_def typed_entry_def log_inv_def)
  ultimately show ?thesis by (simp add: log_inv_def)
qed

lemma push_entries_calls:
  "uuid_calls (fold (push_entry now_v7) es data) = uuid_calls data + length es"
  by (induction es arbitrary: data) (simp_all add: push_entry_log(2))

lemma push_entries_log_inv:
  assumes "clock_ok now_v7 (uuid_calls data + length es)" "log_inv now_v7 E data"
    and "\<forall>en \<in> set es. typed_entry E en"
  shows "log_inv now_v7 E (fold (push_entry now_v7) es data)"
  using assms
proof (induction es arbitrary: data)
  case (Cons en es)
  have "now_v7 (uuid_calls data) < now_v7 (Suc (uuid_calls data))"
    using Cons.prems(1) by (simp add: clock_ok_def)
  then have "log_inv now_v7 E (push_entry now_v7 en data)"
    using Cons.prems by (intro push_entry_log_inv) auto
  with Cons.IH Cons.prems show ?case by (simp add: push_entry_log(2))
qed simp

lemma mem_append_calls:
  "uuid_calls (snd (mem_append_events now_v7 data w)) \<le> uuid_calls data + length (entries w)"
  by (simp add: mem_append_events_def push_entries_calls split: option.splits)

lemma mem_append_log_inv:
  assumes "clock_ok now_v7 (uuid_calls data + length (entries w))" "log_inv now_v7 E data"
    and "\<forall>en \<in> set (entries w). typed_entry E en"
  shows "log_inv now_v7 E (snd (mem_append_events now_v7 data w))"
  using push_entries_log_inv [OF assms] assms(2)
  by (auto simp: mem_append_events_def split: option.splits)

lemma appends_log_inv:
  assumes "clock_ok now_v7 (uuid_calls data + (\<Sum>w\<leftarrow>ws. length (entries w)))" "log_inv now_v7 E data"
    and "\<forall>w \<in> set ws. \<forall>en \<in> set (entries w). typed_entry E en"
  shows "log_inv now_v7 E (fold (\<lambda>w d. snd (mem_append_events now_v7 d w)) ws data)"
  using assms
proof (induction ws arbitrary: data)
  case (Cons w ws)
  let ?d = "snd (mem_append_events now_v7 data w)"
  have "log_inv now_v7 E ?d"
    using Cons.prems by (intro mem_append_log_inv) (auto simp: clock_ok_def)
  moreover have "clock_ok now_v7 (uuid_calls ?d + (\<Sum>w\<leftarrow>ws. length (entries w)))"
    using Cons.prems(1) mem_append_calls [of now_v7 data w] by (auto simp: clock_ok_def)
  ultimately show ?case using Cons by simp
qed simp

text \<open>The histories' append-only law on the log: an append only adds at the end.\<close>

lemma mem_append_log_prefix:
  "\<exists>les. global_log (snd (mem_append_events now_v7 data w)) = global_log data @ les"
proof -
  have "\<exists>les. global_log (fold (push_entry now_v7) es data) = global_log data @ les" for es
  proof (induction es arbitrary: data)
    case (Cons en es)
    obtain les where "global_log (fold (push_entry now_v7) es (push_entry now_v7 en data))
        = global_log (push_entry now_v7 en data) @ les" using Cons by blast
    then show ?case by (simp add: push_entry_log(1))
  qed simp
  then show ?thesis by (auto simp: mem_append_events_def split: option.splits)
qed

section \<open>Snapshots\<close>

text \<open>A stored snapshot never regresses: whatever is saved, the new one covers the old.\<close>

definition snapshots_wf :: "('ev, 'json) store_data \<Rightarrow> bool" where
  "snapshots_wf data \<longleftrightarrow>
     (\<forall>i s. hm_get (command_state_snapshots data) i = Some s \<longrightarrow> hm_wf (snap_stream_versions s))"

lemma mem_save_snapshot_result:
  assumes "\<not> poisoned data" "mem_save_snapshot data i s = (r, data')"
  shows "hm_get (command_state_snapshots data') j =
     (if j \<noteq> i then hm_get (command_state_snapshots data) j
      else case hm_get (command_state_snapshots data) i of
             None \<Rightarrow> Some s | Some old \<Rightarrow> Some (if covers s old then s else old))"
  using assms by (auto simp: mem_save_snapshot_def Let_def split: option.splits if_splits)

lemma mem_save_snapshot_wf:
  "snapshots_wf data \<Longrightarrow> hm_wf (snap_stream_versions s) \<Longrightarrow>
     snapshots_wf (snd (mem_save_snapshot data i s))"
  by (auto simp: snapshots_wf_def mem_save_snapshot_def Let_def split: option.splits if_splits)

lemma mem_save_snapshot_poisoned [simp]:
  "poisoned (snd (mem_save_snapshot data i s)) = poisoned data"
  by (simp add: mem_save_snapshot_def Let_def)

lemma snapshot_saves_cover:
  assumes "\<not> poisoned data" "snapshots_wf data"
    and "\<forall>(i, s) \<in> set saves. hm_wf (snap_stream_versions s)"
    and "hm_get (command_state_snapshots data) j = Some old"
  shows "\<exists>new. mem_load_snapshot (fold (\<lambda>(i, s) d. snd (mem_save_snapshot d i s)) saves data) j = Inr (Some new)
    \<and> covers new old \<and> (new = old \<or> (j, new) \<in> set saves)"
  using assms
proof (induction saves arbitrary: data old)
  case Nil
  then show ?case
    by (auto simp: mem_load_snapshot_def snapshots_wf_def intro: covers_refl)
next
  case (Cons sv saves)
  obtain i s where sv: "sv = (i, s)" by (cases sv)
  let ?d = "snd (mem_save_snapshot data i s)"
  have wf: "snapshots_wf ?d" using Cons.prems(2,3) sv by (simp add: mem_save_snapshot_wf)
  obtain mid where mid: "hm_get (command_state_snapshots ?d) j = Some mid"
    "mid = old \<or> (i = j \<and> mid = s \<and> covers s old)"
    using mem_save_snapshot_result [OF Cons.prems(1), of i s "fst (mem_save_snapshot data i s)" ?d j]
      Cons.prems(4) by (auto split: if_splits)
  have old_wf: "hm_wf (snap_stream_versions old)" "hm_wf (snap_stream_versions mid)"
    using Cons.prems(2,4) mid(1) wf by (auto simp: snapshots_wf_def)
  have cov: "covers mid old" using mid(2) old_wf(1) covers_refl by blast
  obtain new where new: "mem_load_snapshot (fold (\<lambda>(i, s) d. snd (mem_save_snapshot d i s)) saves ?d) j
      = Inr (Some new)" "covers new mid" "new = mid \<or> (j, new) \<in> set saves"
    using Cons.IH [OF _ wf _ mid(1)] Cons.prems(1,3) by auto
  have "covers new old" by (rule covers_trans [OF new(2) cov old_wf(2,1)])
  then show ?case using new mid(2) sv by (intro exI [of _ new]) auto
qed

text \<open>
  The executor on the in-memory back end: the facts of the contract, through its interpretation.
\<close>

lemma typed_command_good:
  assumes "typed_command E c"
  shows "good_command (well_typed E) c"
  unfolding good_command_def
proof (intro allI impI ballI)
  fix s events ex w en
  assume h: "cmd_handle c s = Inr events" and b: "build_stream_writes (cmd_event c) events ex = Inr w"
    and en: "en \<in> set (entries w)"
  note t = build_stream_writes_typed [OF b]
  have "we_event en \<in> set events" using en t(2) by auto
  then show "well_typed E en"
    using assms h en t(1) by (auto simp: well_typed_def typed_command_def list_all_iff)
qed

text \<open>What a command on the in-memory store is assumed to be, in either path of \<open>execute\<close>.\<close>

definition ready ::
  "'ev event_type \<Rightarrow> ('ev, 's, 'json, 'x) command \<Rightarrow> ('ev, 'json) store_data \<Rightarrow> bool" where
  "ready E c st \<longleftrightarrow> mem_inv E st \<and> typed_command E c \<and> wf_declarations (cmd_declarations c)
     \<and> faithful_serialization c
     \<and> (\<forall>i. cmd_snapshot_id c = Some i \<longrightarrow> genuine_stored mem_view mem_stored c i st)"

lemma execute_memory_sound:
  assumes "ready E c st" "good_schedule (well_typed E) sched" "rp_max_retries policy \<noteq> - 1"
    and "execute (memory_ops now_v7 E) sched jitter fuel c policy st = Some (r, hooks, st')"
    and "small (mem_view st')"
  shows "mem_inv E st' \<and> extends (mem_view st) (mem_view st') \<and> result_ok c policy (mem_view st) (mem_view st') r"
proof -
  have "mem_snap.runnable E c st"
    using assms(1) by (simp add: ready_def mem_snap.runnable_def typed_command_good)
  from mem_snap.execute_sound [OF this assms(2-5)] show ?thesis .
qed

end
