(* ===== verification/Sample_Command.thy ===== *)
theory Sample_Command
  imports Memory_Correct
begin

text \<open>
  A small concrete application, the concrete input of the witnesses: accounts whose events are
  deposits, a command that reads one account, follows a link to a second one, and deposits; and a
  rival batch that commits between the reads of the first attempt and its append.
\<close>

definition account_a :: stream_id where "account_a = StreamId [97]"
definition account_b :: stream_id where "account_b = StreamId [98]"

type_synonym deposit = "stream_id \<times> nat"

definition deposit_event :: "deposit event_type" where
  "deposit_event = \<lparr>ev_stream_id = fst, ev_type_name = [68], ev_rust_name = [100], ev_is = (\<lambda>_. True),
     ev_to_json = (\<lambda>(sid, n). Inr (n # sid_str sid)),
     ev_from_json = (\<lambda>j. case j of [] \<Rightarrow> None | n # s \<Rightarrow> Some (StreamId s, n))\<rparr>"

definition deposit_command :: "(deposit, nat, nat, unit) command" where
  "deposit_command = \<lparr>cmd_event = deposit_event, cmd_declarations = StreamDeclarations [account_a],
     cmd_default = 0, cmd_apply = (\<lambda>s e. s + snd e),
     cmd_handle = (\<lambda>s. if s < 100 then Inr [(account_b, s + 1)] else Inl (ValidationError [])),
     cmd_resolver = Some (\<lambda>s. [account_b, account_a]), cmd_snapshot_id = None,
     cmd_serialize = Inr, cmd_deserialize = Inr\<rparr>"

definition sample_policy :: retry_policy where
  "sample_policy = \<lparr>rp_max_retries = 2, rp_backoff_strategy = Exponential 10, rp_metrics_hook = True\<rparr>"

definition deposit_entry :: "deposit \<Rightarrow> deposit write_entry" where
  "deposit_entry d = \<lparr>we_stream_id = fst d, we_event = d, we_event_type = [68],
     we_event_data = snd d # sid_str (fst d)\<rparr>"

definition rival_batch :: "deposit stream_writes" where
  "rival_batch = \<lparr>entries = [deposit_entry (account_a, 7)], expected_versions = [(account_a, 0)]\<rparr>"

definition rival_schedule :: "nat \<Rightarrow> deposit stream_writes list" where
  "rival_schedule t = (if t = 2 then [rival_batch] else [])"

text \<open>Rivals that commit to the account the command reads before each of its three appends.\<close>

definition stubborn_rivals :: "nat \<Rightarrow> deposit stream_writes list" where
  "stubborn_rivals t = (if t \<in> {2, 6, 10} then
       [\<lparr>entries = [deposit_entry (account_a, 7)], expected_versions = [(account_a, of_nat (t div 4))]\<rparr>]
     else [])"

definition sample_clock :: "nat \<Rightarrow> uuid" where
  "sample_clock n = of_nat n"

text \<open>The same command with a snapshot id.\<close>

definition snapshot_command :: "(deposit, nat, nat, unit) command" where
  "snapshot_command = deposit_command\<lparr>cmd_snapshot_id := Some [115]\<rparr>"

text \<open>Runs on the in-memory store with enough fuel.\<close>

definition sample_run ::
  "(nat \<Rightarrow> deposit stream_writes list) \<Rightarrow> (deposit, nat, nat, unit) command
     \<Rightarrow> (unit exec_result \<times> retry_context list \<times> (deposit, nat) store_data) option" where
  "sample_run sched c = execute (memory_ops sample_clock deposit_event) sched (\<lambda>_ d. d) 12 c
     sample_policy memory_new"

definition final_store ::
  "(unit exec_result \<times> retry_context list \<times> (deposit, nat) store_data) option \<Rightarrow> (deposit, nat) store_data" where
  "final_store r = snd (snd (the r))"

lemmas sample_defs = account_a_def account_b_def deposit_event_def deposit_command_def
  sample_policy_def deposit_entry_def rival_batch_def

lemma sample_policy_retries: "rp_max_retries sample_policy \<noteq> - 1"
  by (simp add: sample_policy_def)

lemma deposit_command_typed: "typed_command deposit_event deposit_command"
  by (simp add: typed_command_def deposit_event_def deposit_command_def)

lemma rival_good: "good_schedule (well_typed deposit_event) rival_schedule"
  by (simp add: good_schedule_def rival_schedule_def good_batch_def wf_writes_def well_typed_def typed_entry_def sample_defs)

lemma stubborn_good: "good_schedule (well_typed deposit_event) stubborn_rivals"
  by (simp add: good_schedule_def stubborn_rivals_def good_batch_def wf_writes_def well_typed_def typed_entry_def sample_defs)

lemma rival_batch_good: "good_batch (well_typed deposit_event) rival_batch"
  by (simp add: good_batch_def wf_writes_def well_typed_def typed_entry_def sample_defs)

lemma deposit_within: "stays_within deposit_command {account_a, account_b}"
  by (simp add: stays_within_def related_def deposit_command_def)

definition store_with_snapshot :: "(deposit, nat) store_data" where
  "store_with_snapshot =
     memory_new\<lparr>command_state_snapshots := [([115], snapshot_new 2 [(account_a, 9)])]\<rparr>"

lemma snapshot_command_typed: "typed_command deposit_event snapshot_command"
  by (simp_all add: typed_command_def deposit_event_def deposit_command_def snapshot_command_def)

lemma some_the: "x \<noteq> None \<Longrightarrow> fst (the x) = r \<Longrightarrow> x = Some (r, fst (snd (the x)), snd (snd (the x)))"
  by auto

lemma sample_run_rival:
  "sample_run rival_schedule deposit_command
   = Some (ExecOk \<lparr>er_attempts = 2\<rparr>, fst (snd (the (sample_run rival_schedule deposit_command))),
       final_store (sample_run rival_schedule deposit_command))"
proof -
  have "sample_run rival_schedule deposit_command \<noteq> None" by code_simp
  moreover have "fst (the (sample_run rival_schedule deposit_command)) = ExecOk \<lparr>er_attempts = 2\<rparr>"
    by code_simp
  ultimately show ?thesis unfolding final_store_def by (rule some_the)
qed

lemma snapshot_run_rival:
  "sample_run rival_schedule snapshot_command
   = Some (ExecOk \<lparr>er_attempts = 2\<rparr>, fst (snd (the (sample_run rival_schedule snapshot_command))),
       final_store (sample_run rival_schedule snapshot_command))"
proof -
  have "sample_run rival_schedule snapshot_command \<noteq> None" by code_simp
  moreover have "fst (the (sample_run rival_schedule snapshot_command)) = ExecOk \<lparr>er_attempts = 2\<rparr>"
    by code_simp
  ultimately show ?thesis unfolding final_store_def by (rule some_the)
qed

lemma exhausted_run_result:
  "sample_run stubborn_rivals deposit_command
   = Some (ExecErr (ConcurrencyError 2), fst (snd (the (sample_run stubborn_rivals deposit_command))),
       final_store (sample_run stubborn_rivals deposit_command))"
proof -
  have "sample_run stubborn_rivals deposit_command \<noteq> None" by code_simp
  moreover have "fst (the (sample_run stubborn_rivals deposit_command)) = ExecErr (ConcurrencyError 2)"
    by code_simp
  ultimately show ?thesis unfolding final_store_def by (rule some_the)
qed

lemma sample_run_streams:
  "streams (final_store (sample_run rival_schedule deposit_command)) =
     [(account_a, ([(account_a, 7)], 1)), (account_b, ([(account_b, 8)], 1))]"
  "streams (final_store (sample_run rival_schedule snapshot_command)) =
     [(account_a, ([(account_a, 7)], 1)), (account_b, ([(account_b, 8)], 1))]"
  "streams (final_store (sample_run stubborn_rivals deposit_command)) =
     [(account_a, ([(account_a, 7), (account_a, 7), (account_a, 7)], 3))]"
  unfolding account_a_def account_b_def by code_simp+

lemma sample_run_small:
  "small (mem_view (final_store (sample_run rival_schedule deposit_command)))"
  "small (mem_view (final_store (sample_run rival_schedule snapshot_command)))"
  "small (mem_view (final_store (sample_run stubborn_rivals deposit_command)))"
  by (simp_all add: small_def mem_view_def sample_run_streams)

lemma fresh_genuine: "genuine_stored mem_view mem_stored c i (memory_new :: (deposit, nat) store_data)"
  by (simp add: genuine_stored_def mem_stored_def memory_new_def)

lemma sample_serialization: "faithful_serialization snapshot_command"
  by (simp add: faithful_serialization_def snapshot_command_def deposit_command_def)

lemma snapshot_within: "stays_within snapshot_command {account_a, account_b}"
  by (simp add: stays_within_def related_def snapshot_command_def deposit_command_def)

lemma deposit_ready: "ready deposit_event deposit_command memory_new"
  by (simp add: ready_def mem_inv_new deposit_command_typed)
     (simp add: wf_declarations_def deposit_command_def faithful_serialization_def)

lemma snapshot_ready: "ready deposit_event snapshot_command (memory_new :: (deposit, nat) store_data)"
  by (simp add: ready_def mem_inv_new snapshot_command_typed sample_serialization fresh_genuine)
     (simp add: wf_declarations_def snapshot_command_def deposit_command_def)

end
