(* ===== verification/Memory_Properties.thy ===== *)
theory Memory_Properties
  imports Sample_Command
begin

text \<open>
  The properties of the in-memory back end: atomic appends, optimistic concurrency, the agreement of
  the global log with the streams, snapshots, checkpoints and leadership.
\<close>

section \<open>Appends\<close>

text \<open>
  C4. \<open>append_events\<close> is atomic and checks every registered stream: it succeeds exactly when all
  expected versions are current, then every stream grows by its events of the batch in batch order;
  otherwise the store is untouched and the error names a registered stream, its expected version
  and its different current version.
\<close>

theorem memory_append_atomic:
  assumes "mem_inv E data" and "good_batch (well_typed E) w"
  shows "case mem_append_events now_v7 data w of
      (Inr u, data') \<Rightarrow> versions_match mem_view data w \<and> mem_inv E data'
        \<and> (\<forall>sid. mem_view data' sid = mem_view data sid @ events_for (entries w) sid)
    | (Inl e, data') \<Rightarrow> \<not> versions_match mem_view data w \<and> data' = data
        \<and> (\<exists>sid v. (sid, v) \<in> set (expected_versions w)
             \<and> e = VersionConflict sid v (vlen (mem_view data sid)) \<and> vlen (mem_view data sid) \<noteq> v)"
proof -
  obtain r data' where r: "mem_append_events now_v7 data w = (r, data')" by fastforce
  have typed: "\<forall>en \<in> set (entries w). ev_is E (we_event en)"
    using assms(2) by (simp add: good_batch_def well_typed_def)
  show ?thesis
  proof (cases r)
    case (Inr u)
    with r have "versions_match mem_view data w" "data' = fold (push_entry now_v7) (entries w) data"
      using mem_append_ok_iff [OF assms(1), of now_v7 w "()" data'] by simp_all
    then show ?thesis
      using r Inr push_entries [OF assms(1) typed] by simp
  next
    case (Inl e)
    then have "\<not> versions_match mem_view data w"
      using r mem_append_ok_iff [OF assms(1), of now_v7 w "()"] by auto
    then show ?thesis
      using r Inl mem_append_err [OF assms(1), of now_v7 w e data'] by simp
  qed
qed

theorem memory_append_atomic_witness:
  "mem_view (snd (mem_append_events sample_clock (memory_new :: (deposit, nat) store_data) rival_batch)) account_a
     = [(account_a, 7)]"
proof -
  have inv: "mem_inv deposit_event (memory_new :: (deposit, nat) store_data)"
    by (rule mem_inv_new)
  have "good_batch (well_typed deposit_event) rival_batch"
    by (rule rival_batch_good)
  note a = memory_append_atomic [OF inv this, of sample_clock]
  let ?r = "mem_append_events sample_clock (memory_new :: (deposit, nat) store_data) rival_batch"
  have "fst ?r = Inr ()"
    unfolding rival_batch_def deposit_entry_def account_a_def by code_simp
  then have "mem_view (snd ?r) account_a
      = mem_view (memory_new :: (deposit, nat) store_data) account_a @ events_for (entries rival_batch) account_a"
    using a by (cases ?r) simp
  then show ?thesis by (simp add: mem_view_def memory_new_def rival_batch_def deposit_entry_def)
qed

text \<open>
  First writer wins: of two batches prepared against the same histories, when the first one has
  committed an event to a stream the second one registered, the second append fails and changes no
  stream.
\<close>

theorem second_writer_loses:
  assumes "mem_inv E data" and "good_batch (well_typed E) w1" and "good_batch (well_typed E) w2"
    and "mem_append_events now_v7 data w1 = (Inr u, data1)" and "versions_match mem_view data w2"
    and "en \<in> set (entries w1)" and "we_stream_id en \<in> fst ` set (expected_versions w2)"
    and "\<And>sid. length (mem_view data1 sid) < 2 ^ 64"
  shows "\<exists>e data2. mem_append_events now_v7 data1 w2 = (Inl e, data2) \<and> mem_view data2 = mem_view data1"
  using assms mem.second_writer_conflicts [of E data w1 w2 now_v7 u data1 en]
  by (simp add: good_batch_def memory_ops_def)

theorem second_writer_loses_witness:
  "\<exists>e data2. mem_append_events sample_clock
       (snd (mem_append_events sample_clock (memory_new :: (deposit, nat) store_data) rival_batch)) rival_batch
     = (Inl e, data2)
     \<and> mem_view data2 = mem_view (snd (mem_append_events sample_clock
          (memory_new :: (deposit, nat) store_data) rival_batch))"
proof -
  let ?d = "memory_new :: (deposit, nat) store_data"
  let ?r = "mem_append_events sample_clock ?d rival_batch"
  have gb: "good_batch (well_typed deposit_event) rival_batch"
    by (rule rival_batch_good)
  have r: "?r = (Inr (), snd ?r)"
  proof -
    have "fst ?r = Inr ()" unfolding rival_batch_def deposit_entry_def account_a_def by code_simp
    then show ?thesis by (metis prod.collapse)
  qed
  have s: "streams (snd ?r) = [(account_a, ([(account_a, 7)], 1))]"
    unfolding rival_batch_def deposit_entry_def account_a_def by code_simp
  have vm: "versions_match mem_view ?d rival_batch"
    by (simp add: versions_match_def rival_batch_def mem_view_def memory_new_def)
  have en: "deposit_entry (account_a, 7) \<in> set (entries rival_batch)"
    "we_stream_id (deposit_entry (account_a, 7)) \<in> fst ` set (expected_versions rival_batch)"
    by (simp_all add: rival_batch_def deposit_entry_def)
  have len: "length (mem_view (snd ?r) sid) < 2 ^ 64" for sid
    by (simp add: mem_view_def s)
  show ?thesis by (rule second_writer_loses [OF mem_inv_new gb gb r vm en len])
qed

section \<open>The global log\<close>

text \<open>
  C5. Projections and commands see the same events: after any sequence of appends on a fresh store,
  succeeded or not, the identifiers of the global log strictly increase and, for every stream, the
  log's payloads for that stream are the serialised history of the stream in order.
\<close>

theorem global_log_consistent:
  assumes "clock_ok now_v7 (\<Sum>w\<leftarrow>ws. length (entries w))"
    and "\<forall>w \<in> set ws. good_batch (well_typed E) w"
  shows "log_inv now_v7 E (fold (\<lambda>w d. snd (mem_append_events now_v7 d w)) ws memory_new)"
  using assms appends_log_inv [of now_v7 memory_new ws E] log_inv_new
  by (auto simp: good_batch_def well_typed_def memory_new_def)

theorem global_log_consistent_witness:
  "log_inv sample_clock deposit_event
     (fold (\<lambda>w d. snd (mem_append_events sample_clock d w)) [rival_batch, rival_batch]
        (memory_new :: (deposit, nat) store_data))"
  by (rule global_log_consistent)
     (use rival_batch_good in \<open>auto simp: clock_ok_def sample_clock_def rival_batch_def
        rival_schedule_def less_Suc_eq numeral_2_eq_2\<close>)

text \<open>
  \<open>read_stream_after\<close> is \<open>read_stream\<close> with the first \<open>version\<close> events skipped, and both agree
  with the trait's default method.
\<close>

theorem memory_read_after:
  assumes "mem_inv E data"
  shows "mem_read_stream_after E data sid v = default_read_stream_after (mem_read_stream E data) sid v
    \<and> mem_read_stream_after E data sid v = Inr (map Inr (drop (unat v) (mem_view data sid)))"
  using mem_read_view [OF assms] by (simp add: default_read_stream_after_def drop_map)

theorem memory_read_after_witness:
  "mem_read_stream_after deposit_event (memory_new :: (deposit, nat) store_data) account_a 3 = Inr []"
proof -
  have inv: "mem_inv deposit_event (memory_new :: (deposit, nat) store_data)"
    by (rule mem_inv_new)
  have "mem_view (memory_new :: (deposit, nat) store_data) account_a = []"
    by (simp add: mem_view_def memory_new_def)
  then show ?thesis using conjunct2 [OF memory_read_after [OF inv, of account_a 3]] by simp
qed

section \<open>Snapshots, checkpoints, leadership\<close>

text \<open>
  Saving command-state snapshots never loses ground: after any sequence of saves, the stored
  snapshot of an identifier is one of those saved under it (or the one from before), and its versions
  cover those of the snapshot that was stored first.
\<close>

theorem snapshot_never_regresses:
  assumes "\<not> poisoned data" and "snapshots_wf data"
    and "\<forall>(i, s) \<in> set saves. hm_wf (snap_stream_versions s)"
    and "hm_get (command_state_snapshots data) j = Some old"
  shows "\<exists>new. mem_load_snapshot (fold (\<lambda>(i, s) d. snd (mem_save_snapshot d i s)) saves data) j = Inr (Some new)
    \<and> covers new old \<and> (new = old \<or> (j, new) \<in> set saves)"
  using snapshot_saves_cover [OF assms] .

theorem snapshot_never_regresses_witness:
  "\<exists>new. mem_load_snapshot (fold (\<lambda>(i, s) d. snd (mem_save_snapshot d i s))
       [([115], snapshot_new 1 [(account_a, 5)])] store_with_snapshot) [115] = Inr (Some new)
     \<and> covers new (snapshot_new 2 [(account_a, 9)])"
proof -
  have "\<not> poisoned store_with_snapshot" "snapshots_wf store_with_snapshot"
    "hm_get (command_state_snapshots store_with_snapshot) [115] = Some (snapshot_new 2 [(account_a, 9)])"
    by (auto simp: store_with_snapshot_def snapshots_wf_def memory_new_def snapshot_new_def split: if_splits)
  moreover have "\<forall>(i, s) \<in> set [([115::nat], snapshot_new (1::nat) [(account_a, 5)])]. hm_wf (snap_stream_versions s)"
    by (simp add: snapshot_new_def)
  ultimately show ?thesis using snapshot_never_regresses by blast
qed

text \<open>
  Checkpoints: after any sequence of saves the last one of a subscription is what loads, and
  the saves of other subscriptions do not touch it; for the store's own table and the stand-alone one.
\<close>

theorem checkpoints_last_write_wins:
  assumes "\<not> poisoned data" and "\<not> cp_poisoned s"
  shows "mem_load_checkpoint (fold (\<lambda>(n, p) d. snd (mem_save_checkpoint d n p)) saves data) m =
      (case map_of (rev saves) m of Some p \<Rightarrow> Inr (Some p) | None \<Rightarrow> mem_load_checkpoint data m)
    \<and> cp_load (fold (\<lambda>(n, p) d. snd (cp_save d n p)) saves s) m =
      (case map_of (rev saves) m of Some p \<Rightarrow> Inr (Some p) | None \<Rightarrow> cp_load s m)"
  using mem_cp.load_after_saves [OF assms(1)] cps.load_after_saves [OF assms(2)] by blast

theorem checkpoints_last_write_wins_witness:
  "cp_load (fold (\<lambda>(n, p) d. snd (cp_save d n p))
      [([97], StreamPosition 1), ([98], StreamPosition 2), ([97], StreamPosition 3)]
      checkpoint_store_new) [97] = Inr (Some (StreamPosition 3))"
  using checkpoints_last_write_wins [of "memory_new :: (deposit, nat) store_data" checkpoint_store_new
      "[([97], StreamPosition 1), ([98], StreamPosition 2), ([97], StreamPosition 3)]" "[97]"]
  by (simp add: memory_new_def checkpoint_store_new_def)

text \<open>
  Leadership of a subscription is exclusive and is given back: while a guard lives a second
  acquisition fails and changes nothing; after the guard is dropped it succeeds; for the store's own
  lock table and the stand-alone coordinator.
\<close>

theorem leadership_is_exclusive:
  assumes "\<not> poisoned data" and "\<not> locks_poisoned data" and "mem_try_acquire data n = (Inr g, data1)"
    and "\<not> co_poisoned s" and "co_try_acquire s n = (Inr h, s1)"
  shows "(\<exists>e. mem_try_acquire data1 n = (Inl e, data1))
    \<and> (\<exists>g' data2. mem_try_acquire (mem_drop_guard data1 g) n = (Inr g', data2))
    \<and> (\<exists>e. co_try_acquire s1 n = (Inl e, s1))
    \<and> (\<exists>h' s2. co_try_acquire (co_drop_guard s1 h) n = (Inr h', s2))"
  using mem_co.leadership_exclusive [OF _ assms(3)] co.leadership_exclusive [OF _ assms(5)] assms(1,2,4)
  by simp

theorem leadership_is_exclusive_witness:
  "\<exists>e. co_try_acquire (snd (co_try_acquire coordinator_new [97])) [97]
     = (Inl e, snd (co_try_acquire coordinator_new [97]))"
proof -
  let ?d = "memory_new :: (deposit, nat) store_data"
  have "mem_try_acquire ?d [97] = (Inr (MemoryGuard [97]), snd (mem_try_acquire ?d [97]))"
    by (simp add: mem_try_acquire_def memory_new_def hm_contains_def)
  moreover have "co_try_acquire coordinator_new [97]
      = (Inr (MemoryGuard [97]), snd (co_try_acquire coordinator_new [97]))"
    by (simp add: co_try_acquire_def coordinator_new_def hm_contains_def)
  ultimately show ?thesis
    using leadership_is_exclusive [of ?d "[97]" _ _ coordinator_new]
    by (simp add: memory_new_def coordinator_new_def)
qed

end
