(* ===== verification/Command_Properties.thy ===== *)
theory Command_Properties
  imports Sample_Command
begin

text \<open>
  The properties of the vocabulary a command is written in: validated names, declarations, the batch
  builder and the retry delay.
\<close>

text \<open>
  What the validators of a stream identifier accept, without mentioning the trimming: some white space, a
  name that neither starts nor ends with white space, and some white space again.
\<close>

lemma str_trim_parts:
  obtains l r where "s = l @ str_trim s @ r" and "list_all is_whitespace (l @ r)"
proof -
  let ?d = "dropWhile is_whitespace s"
  have "s = takeWhile is_whitespace s @ str_trim s @ rev (takeWhile is_whitespace (rev ?d))"
    by (simp add: str_trim_def flip: rev_append)
  then show thesis
    by (rule that) (auto simp: list_all_iff dest: set_takeWhileD)
qed

lemma str_trim_between:
  assumes "list_all is_whitespace (l @ r)" "name \<noteq> []"
    and "\<not> is_whitespace (hd name)" "\<not> is_whitespace (last name)"
  shows "str_trim (l @ name @ r) = name"
proof -
  have space: "\<forall>c \<in> set l. is_whitespace c" "\<forall>c \<in> set (rev r). is_whitespace c"
    using assms(1) by (auto simp: list_all_iff)
  have "dropWhile is_whitespace (l @ name @ r) = name @ r"
    using space(1) assms(2,3) by (simp add: dropWhile_append2 dropWhile_eq_self_iff)
  moreover have "dropWhile is_whitespace (rev (name @ r)) = rev name"
    using space(2) assms(2,4) by (simp only: rev_append dropWhile_append2 dropWhile_eq_self_iff hd_rev) simp
  ultimately show ?thesis by (simp add: str_trim_def)
qed

lemma stream_id_accepts:
  "stream_id_try_new raw = Inr (StreamId name) \<longleftrightarrow>
     (\<exists>l r. raw = l @ name @ r \<and> list_all is_whitespace (l @ r))
     \<and> name \<noteq> [] \<and> \<not> is_whitespace (hd name) \<and> \<not> is_whitespace (last name)
     \<and> length name \<le> 255 \<and> (\<forall>c \<in> set name. c \<notin> {42, 63, 91, 93})"
  (is "?accepted \<longleftrightarrow> ?parts \<and> ?ends \<and> ?first \<and> ?final \<and> ?short \<and> ?plain")
proof
  assume ?accepted
  then have t: "name = str_trim raw" and rest: ?ends ?short ?plain by (auto simp: try_new_simps glob_free_iff)
  have ?parts using str_trim_parts [of raw] unfolding t by metis
  then show "?parts \<and> ?ends \<and> ?first \<and> ?final \<and> ?short \<and> ?plain"
    using rest str_trim_ends [of raw] t by simp
next
  assume a: "?parts \<and> ?ends \<and> ?first \<and> ?final \<and> ?short \<and> ?plain"
  then obtain l r where "raw = l @ name @ r" "list_all is_whitespace (l @ r)" by blast
  then have "str_trim raw = name" using str_trim_between a by blast
  then show ?accepted using a by (auto simp: try_new_simps glob_free_iff)
qed

text \<open>
  C8. Declaring streams keeps the caller's order and succeeds exactly for a non-empty list without
  repetition; otherwise the error is \<open>Empty\<close> or names the first stream that repeats an earlier one;
  adding a participant is declaring the longer list.
\<close>

theorem declarations_distinct:
  shows "(case try_from_streams ss of
      Inr d \<Rightarrow> decl_streams d = ss \<and> ss \<noteq> [] \<and> distinct ss \<and> \<not> decl_is_empty d
    | Inl DeclEmpty \<Rightarrow> ss = []
    | Inl (DuplicateStream s) \<Rightarrow> \<exists>pre post. ss = pre @ s # post \<and> s \<in> set pre \<and> distinct pre)
    \<and> with_participant (StreamDeclarations ss) p = try_from_streams (ss @ [p])"
proof -
  have dup: "\<exists>pre post. ss = pre @ s # post \<and> s \<in> set pre \<and> distinct pre"
    if "try_from_streams ss = Inl (DuplicateStream s)" for s
  proof -
    have "collect_distinct {} [] ss = Inl (DuplicateStream s)"
      using that by (cases "collect_distinct {} [] ss") (auto simp: try_from_streams_def split: if_splits)
    from collect_distinct_duplicate [OF this] show ?thesis by auto
  qed
  have empty: "ss = []" if "try_from_streams ss = Inl DeclEmpty"
  proof (cases "collect_distinct {} [] ss")
    case (Inl e)
    then show ?thesis using that collect_distinct_duplicate [OF Inl] by (auto simp: try_from_streams_def)
  next
    case (Inr r)
    then have "r = ss" by (simp add: collect_distinct_Inr_iff)
    then show ?thesis using that Inr by (auto simp: try_from_streams_def split: if_splits)
  qed
  show ?thesis
    using dup empty by (auto simp: with_participant_def try_from_streams_Inr_iff wf_declarations_def
        decl_is_empty_def split: sum.splits stream_declarations_error.splits)
qed

text \<open>
  C9. Building the batch of a command from the versions it read: a batch holds exactly the handler's
  events in order, each with its type's name and serialised data and for a stream that was read, and
  expects exactly the versions read; a refusal is the error of the first event that goes to a stream
  that was not read, or does not serialise.
\<close>

theorem batch_of_command:
  assumes "hm_wf versions"
  shows "case build_stream_writes E events versions of
      Inr w \<Rightarrow> expected_versions w = versions \<and> map we_event (entries w) = events
        \<and> list_all (typed_entry E) (entries w) \<and> wf_writes w
        \<and> (\<forall>e \<in> set events. hm_contains versions (ev_stream_id E e))
    | Inl err \<Rightarrow> \<exists>pre e post. events = pre @ e # post
        \<and> (\<forall>x \<in> set pre. hm_contains versions (ev_stream_id E x) \<and> (\<exists>d. ev_to_json E x = Inr d))
        \<and> (if hm_contains versions (ev_stream_id E e)
           then \<exists>detail. ev_to_json E e = Inl detail \<and> err = SerializationFailed (ev_stream_id E e) detail
           else err = UndeclaredStream (ev_stream_id E e))"
proof (cases "build_stream_writes E events versions")
  case (Inr w)
  then show ?thesis
    using build_stream_writes_facts [OF Inr assms] by (simp add: list_all_iff hm_contains_iff)
next
  case (Inl err)
  then have "try_fold (writes_append E) \<lparr>entries = [], expected_versions = versions\<rparr> events = Inl err"
    by (simp add: build_stream_writes_eq [OF assms])
  from try_fold_append_error [OF this] show ?thesis using Inl by simp
qed

theorem batch_of_command_witness:
  "build_stream_writes deposit_event [(account_b, 1)] [(account_a, 4)] = Inl (UndeclaredStream account_b)
   \<and> (\<exists>pre e post. [(account_b, 1)] = pre @ e # post)"
  using batch_of_command [of "[(account_a, 4)]" "[(account_b, 1)]" deposit_event]
  by (simp add: build_stream_writes_eq writes_append_def hm_contains_def sample_defs split: sum.splits)
     blast

text \<open>
  C10. The exponential back-off before jitter is \<open>base * 2 ^ attempt\<close> cut off at \<open>u64::MAX\<close>, without
  wrap-around, and never decreases with the attempt, except that a base of 0 gives 0 below attempt 64
  and \<open>u64::MAX\<close> from there on; a fixed strategy ignores the attempt and the jitter.
\<close>

theorem retry_delay_saturates:
  shows "unat (base_delay base n) =
      (if base = 0 \<and> 64 \<le> unat n then 2 ^ 64 - 1 else min (unat base * 2 ^ unat n) (2 ^ 64 - 1))
    \<and> (unat n \<le> unat m \<longrightarrow> base_delay base n \<le> base_delay base m)
    \<and> compute_retry_delay_ms jitter (Exponential base) n = jitter (base_delay base n)
    \<and> compute_retry_delay_ms jitter (Fixed d) n = d"
  using base_delay_mono unat_base_delay_exact [of base n] by (simp add: compute_retry_delay_ms_def)

theorem retry_delay_saturates_witness:
  "unat (3::u32) \<le> unat (64::u32) \<and> base_delay 0 3 \<le> base_delay 0 64 \<and> base_delay 0 3 \<noteq> base_delay 0 64"
  using retry_delay_saturates [of 0 3 64 id 7]
  by (simp add: base_delay_def checked_pow2_u64_def checked_mul_u64_def)

end
