(* ===== verification/Projection_Pipeline.thy ===== *)
theory Projection_Pipeline
  imports Store_Contracts
begin

text \<open>
  The projection runner: the pure state machine of \<open>eventcore/src/projection_pipeline.rs\<close>, one
  definition per phase, and the shell, configuration and entry point of
  \<open>eventcore/src/projection.rs\<close>. A \<open>Duration\<close> is a number of nanoseconds. The floating-point part
  of the retry delay, \<open>(base_ms as f64 * multiplier.powi(n)) as u64\<close>, is the parameter \<open>float_delay\<close>
  and \<open>'f\<close> is the type of the multiplier.
\<close>

section \<open>Configuration\<close>

type_synonym duration = nat

definition from_millis :: "nat \<Rightarrow> duration" where
  "from_millis n = n * 1000000"

definition as_millis :: "duration \<Rightarrow> nat" where
  "as_millis d = d div 1000000"

record poll_config =
  poll_interval :: duration
  empty_poll_backoff :: duration
  poll_failure_backoff :: duration
  max_consecutive_poll_failures :: u32

definition poll_config_default :: poll_config where
  "poll_config_default = \<lparr>poll_interval = from_millis 100, empty_poll_backoff = from_millis 50,
     poll_failure_backoff = from_millis 100, max_consecutive_poll_failures = 5\<rparr>"

record 'f event_retry_config =
  max_retry_attempts_of :: max_retry_attempts
  retry_delay :: duration
  retry_backoff_multiplier :: 'f
  max_retry_delay :: duration

definition event_retry_config_default :: "'f \<Rightarrow> 'f event_retry_config" where
  "event_retry_config_default two = \<lparr>max_retry_attempts_of = 3, retry_delay = from_millis 100,
     retry_backoff_multiplier = two, max_retry_delay = from_millis 5000\<rparr>"

datatype poll_mode = Batch | Continuous

record 'f projection_config =
  pc_continuous :: bool
  pc_poll_interval :: duration
  pc_empty_poll_backoff :: duration
  pc_poll_failure_backoff :: duration
  pc_max_consecutive_poll_failures :: u32
  pc_event_retry_max_attempts :: max_retry_attempts
  pc_event_retry_delay :: duration
  pc_event_retry_backoff_multiplier :: 'f
  pc_event_retry_max_delay :: duration

definition projection_config_default :: "'f \<Rightarrow> 'f projection_config" where
  "projection_config_default two =
     (let poll = poll_config_default; retry = event_retry_config_default two in
      \<lparr>pc_continuous = False, pc_poll_interval = poll_interval poll,
        pc_empty_poll_backoff = empty_poll_backoff poll,
        pc_poll_failure_backoff = poll_failure_backoff poll,
        pc_max_consecutive_poll_failures = max_consecutive_poll_failures poll,
        pc_event_retry_max_attempts = max_retry_attempts_of retry,
        pc_event_retry_delay = retry_delay retry,
        pc_event_retry_backoff_multiplier = retry_backoff_multiplier retry,
        pc_event_retry_max_delay = max_retry_delay retry\<rparr>)"

definition continuous :: "'f projection_config \<Rightarrow> 'f projection_config" where
  "continuous c = c\<lparr>pc_continuous := True\<rparr>"

text \<open>The builder's setters.\<close>

definition set_poll_interval :: "duration \<Rightarrow> 'f projection_config \<Rightarrow> 'f projection_config" where
  "set_poll_interval x c = c\<lparr>pc_poll_interval := x\<rparr>"

definition set_empty_poll_backoff :: "duration \<Rightarrow> 'f projection_config \<Rightarrow> 'f projection_config" where
  "set_empty_poll_backoff x c = c\<lparr>pc_empty_poll_backoff := x\<rparr>"

definition set_poll_failure_backoff :: "duration \<Rightarrow> 'f projection_config \<Rightarrow> 'f projection_config" where
  "set_poll_failure_backoff x c = c\<lparr>pc_poll_failure_backoff := x\<rparr>"

definition set_max_consecutive_poll_failures :: "u32 \<Rightarrow> 'f projection_config \<Rightarrow> 'f projection_config" where
  "set_max_consecutive_poll_failures x c = c\<lparr>pc_max_consecutive_poll_failures := x\<rparr>"

definition set_event_retry_max_attempts :: "max_retry_attempts \<Rightarrow> 'f projection_config \<Rightarrow> 'f projection_config" where
  "set_event_retry_max_attempts x c = c\<lparr>pc_event_retry_max_attempts := x\<rparr>"

definition set_event_retry_delay :: "duration \<Rightarrow> 'f projection_config \<Rightarrow> 'f projection_config" where
  "set_event_retry_delay x c = c\<lparr>pc_event_retry_delay := x\<rparr>"

definition set_event_retry_backoff_multiplier :: "'f \<Rightarrow> 'f projection_config \<Rightarrow> 'f projection_config" where
  "set_event_retry_backoff_multiplier x c = c\<lparr>pc_event_retry_backoff_multiplier := x\<rparr>"

definition set_event_retry_max_delay :: "duration \<Rightarrow> 'f projection_config \<Rightarrow> 'f projection_config" where
  "set_event_retry_max_delay x c = c\<lparr>pc_event_retry_max_delay := x\<rparr>"

definition to_poll_config :: "'f projection_config \<Rightarrow> poll_config" where
  "to_poll_config c = \<lparr>poll_interval = pc_poll_interval c, empty_poll_backoff = pc_empty_poll_backoff c,
     poll_failure_backoff = pc_poll_failure_backoff c,
     max_consecutive_poll_failures = pc_max_consecutive_poll_failures c\<rparr>"

definition to_event_retry_config :: "'f projection_config \<Rightarrow> 'f event_retry_config" where
  "to_event_retry_config c = \<lparr>max_retry_attempts_of = pc_event_retry_max_attempts c,
     retry_delay = pc_event_retry_delay c,
     retry_backoff_multiplier = pc_event_retry_backoff_multiplier c,
     max_retry_delay = pc_event_retry_max_delay c\<rparr>"

definition to_poll_mode :: "'f projection_config \<Rightarrow> poll_mode" where
  "to_poll_mode c = (if pc_continuous c then Continuous else Batch)"

section \<open>Projectors\<close>

text \<open>
  The trait \<open>Projector\<close> as a dictionary. \<open>apply\<close> and \<open>on_error\<close> take \<open>&mut self\<close>, so both return
  the projector's next state \<open>'p\<close>; \<open>apply\<close> may also have changed the context before it failed.
\<close>

record ('ev, 'p, 'ctx, 'err) projector =
  pj_name :: rstring
  pj_event_type :: rstring
  pj_apply :: "'p \<Rightarrow> 'ev \<Rightarrow> stream_position \<Rightarrow> 'ctx \<Rightarrow> ('err + unit) \<times> 'p \<times> 'ctx"
  pj_on_error :: "'p \<Rightarrow> 'err failure_context \<Rightarrow> failure_strategy \<times> 'p"
  pj_default_context :: 'ctx

datatype projection_error = Failed rstring | LeadershipError rstring

section \<open>The state machine\<close>

datatype projection_effect =
  ReadEvents event_filter event_page
| LoadCheckpoint rstring
| SaveCheckpoint rstring stream_position
| SleepFor duration

datatype 'ev projection_effect_result =
  EventsRead "rstring + ('ev \<times> stream_position) list"
| CheckpointLoaded "rstring + stream_position option"
| CheckpointSaved "rstring + unit"
| PSlept

datatype projection_step =
  PYield projection_effect
| PDone "projection_error + unit"
| PPanic

datatype ('ev, 'ctx) projection_phase =
  PhLoadCheckpoint
| PhAwaitingCheckpoint
| PhPollEvents "stream_position option" 'ctx u32
| PhAwaitingEvents "stream_position option" 'ctx u32
| PhProcessingEvents "('ev \<times> stream_position) list" nat u32 "stream_position option" 'ctx
| PhAwaitingCheckpointSave "('ev \<times> stream_position) list" nat "stream_position option" 'ctx
| PhAwaitingSkipCheckpointSave "('ev \<times> stream_position) list" nat "stream_position option" 'ctx
| PhAwaitingEventRetrySleep "('ev \<times> stream_position) list" nat u32 "stream_position option" 'ctx
| PhAwaitingPollFailureSleep "stream_position option" 'ctx u32
| PhAwaitingPollSleep "stream_position option" 'ctx
| PhDone

record ('ev, 'p, 'ctx, 'err, 'f) projection =
  pp_projector :: "('ev, 'p, 'ctx, 'err) projector"
  pp_state :: 'p
  pp_has_checkpoint_store :: bool
  pp_poll_mode :: poll_mode
  pp_poll_config :: poll_config
  pp_event_retry_config :: "'f event_retry_config"
  pp_phase :: "('ev, 'ctx) projection_phase"

definition projection_new ::
  "('ev, 'p, 'ctx, 'err) projector \<Rightarrow> 'p \<Rightarrow> bool \<Rightarrow> poll_mode \<Rightarrow> poll_config \<Rightarrow> 'f event_retry_config
     \<Rightarrow> ('ev, 'p, 'ctx, 'err, 'f) projection" where
  "projection_new pj s has_store mode poll retry =
     \<lparr>pp_projector = pj, pp_state = s, pp_has_checkpoint_store = has_store, pp_poll_mode = mode,
       pp_poll_config = poll, pp_event_retry_config = retry,
       pp_phase = (if has_store then PhLoadCheckpoint
                   else PhPollEvents None (pj_default_context pj) 0)\<rparr>"

definition page_size :: batch_size where
  "page_size = 1000"

definition step_load_checkpoint ::
  "('ev, 'p, 'ctx, 'err, 'f) projection \<Rightarrow> ('ev, 'p, 'ctx, 'err, 'f) projection \<times> projection_step" where
  "step_load_checkpoint p =
     (p\<lparr>pp_phase := PhAwaitingCheckpoint\<rparr>, PYield (LoadCheckpoint (pj_name (pp_projector p))))"

definition step_poll_events ::
  "('ev, 'p, 'ctx, 'err, 'f) projection \<Rightarrow> stream_position option \<Rightarrow> 'ctx \<Rightarrow> u32
     \<Rightarrow> ('ev, 'p, 'ctx, 'err, 'f) projection \<times> projection_step" where
  "step_poll_events p last_checkpoint ctx failures =
     (let f = with_event_type filter_all (pj_event_type (pp_projector p));
          pg = (case last_checkpoint of
                  Some position \<Rightarrow> page_after position page_size
                | None \<Rightarrow> page_first page_size)
      in (p\<lparr>pp_phase := PhAwaitingEvents last_checkpoint ctx failures\<rparr>, PYield (ReadEvents f pg)))"

text \<open>The delay before the \<open>n\<close>-th retry of an event, capped.\<close>

definition event_retry_delay ::
  "(nat \<Rightarrow> 'f \<Rightarrow> int \<Rightarrow> u64) \<Rightarrow> 'f event_retry_config \<Rightarrow> u32 \<Rightarrow> duration" where
  "event_retry_delay float_delay cfg n =
     min (from_millis (unat (float_delay (as_millis (retry_delay cfg)) (retry_backoff_multiplier cfg)
            (sint n - 1))))
       (max_retry_delay cfg)"

function step_processing ::
  "(nat \<Rightarrow> 'f \<Rightarrow> int \<Rightarrow> u64) \<Rightarrow> ('ev, 'p, 'ctx, 'err, 'f) projection
     \<Rightarrow> ('ev \<times> stream_position) list \<Rightarrow> nat \<Rightarrow> u32 \<Rightarrow> stream_position option \<Rightarrow> 'ctx
     \<Rightarrow> ('ev, 'p, 'ctx, 'err, 'f) projection \<times> projection_step" where
  "step_processing float_delay p events index retry_count last_checkpoint ctx =
     (if length events \<le> index then
        if pp_poll_mode p = Batch then (p\<lparr>pp_phase := PhDone\<rparr>, PDone (Inr ()))
        else (p\<lparr>pp_phase := PhAwaitingPollSleep last_checkpoint ctx\<rparr>,
              PYield (SleepFor (if events \<noteq> [] then poll_interval (pp_poll_config p)
                                else empty_poll_backoff (pp_poll_config p))))
      else
        let (event, position) = events ! index; pj = pp_projector p in
        case pj_apply pj (pp_state p) event position ctx of
          (Inr _, s, ctx') \<Rightarrow>
            if pp_has_checkpoint_store p then
              (p\<lparr>pp_state := s, pp_phase := PhAwaitingCheckpointSave events index (Some position) ctx'\<rparr>,
               PYield (SaveCheckpoint (pj_name pj) position))
            else step_processing float_delay (p\<lparr>pp_state := s\<rparr>) events (Suc index) 0 (Some position) ctx'
        | (Inl err, s, ctx') \<Rightarrow>
            (case pj_on_error pj s \<lparr>fc_error = err, fc_position = position, fc_retry_count = retry_count\<rparr> of
               (Fatal, s') \<Rightarrow>
                 (p\<lparr>pp_state := s', pp_phase := PhDone\<rparr>, PDone (Inl (Failed (lit ''projector apply failed''))))
             | (Skip, s') \<Rightarrow>
                 if pp_has_checkpoint_store p then
                   (p\<lparr>pp_state := s',
                      pp_phase := PhAwaitingSkipCheckpointSave events index (Some position) ctx'\<rparr>,
                    PYield (SaveCheckpoint (pj_name pj) position))
                 else step_processing float_delay (p\<lparr>pp_state := s'\<rparr>) events (Suc index) 0 (Some position) ctx'
             | (Retry, s') \<Rightarrow>
                 if max_retry_attempts_of (pp_event_retry_config p) \<le> retry_count then
                   (p\<lparr>pp_state := s', pp_phase := PhDone\<rparr>,
                    PDone (Inl (Failed (lit ''projector apply failed after max retries''))))
                 else
                   (p\<lparr>pp_state := s',
                      pp_phase := PhAwaitingEventRetrySleep events index (retry_count + 1) last_checkpoint ctx'\<rparr>,
                    PYield (SleepFor (event_retry_delay float_delay (pp_event_retry_config p) (retry_count + 1))))))"
  by pat_completeness auto

termination step_processing
  by (relation "measure (\<lambda>(_, _, events, index, _, _, _). length events - index)") auto

declare step_processing.simps [simp del]

definition pstep ::
  "(nat \<Rightarrow> 'f \<Rightarrow> int \<Rightarrow> u64) \<Rightarrow> ('ev, 'p, 'ctx, 'err, 'f) projection
     \<Rightarrow> ('ev, 'p, 'ctx, 'err, 'f) projection \<times> projection_step" where
  "pstep float_delay p =
     (case pp_phase p of
        PhLoadCheckpoint \<Rightarrow> step_load_checkpoint p
      | PhPollEvents last_checkpoint ctx failures \<Rightarrow> step_poll_events p last_checkpoint ctx failures
      | PhProcessingEvents events index retries last_checkpoint ctx \<Rightarrow>
          step_processing float_delay p events index retries last_checkpoint ctx
      | _ \<Rightarrow> (p\<lparr>pp_phase := PhDone\<rparr>, PPanic))"

section \<open>resume\<close>

definition resume_checkpoint ::
  "('ev, 'p, 'ctx, 'err, 'f) projection \<Rightarrow> 'ev projection_effect_result
     \<Rightarrow> ('ev, 'p, 'ctx, 'err, 'f) projection \<times> projection_step" where
  "resume_checkpoint p result =
     (case result of
        CheckpointLoaded (Inr cp) \<Rightarrow> step_poll_events p cp (pj_default_context (pp_projector p)) 0
      | CheckpointLoaded (Inl e) \<Rightarrow>
          (p\<lparr>pp_phase := PhDone\<rparr>, PDone (Inl (Failed (lit ''failed to load checkpoint for projector ''
             @ [39] @ pj_name (pp_projector p) @ [39] @ lit '': '' @ e))))
      | _ \<Rightarrow> (p\<lparr>pp_phase := PhDone\<rparr>, PPanic))"

definition resume_events ::
  "(nat \<Rightarrow> 'f \<Rightarrow> int \<Rightarrow> u64) \<Rightarrow> ('ev, 'p, 'ctx, 'err, 'f) projection \<Rightarrow> stream_position option \<Rightarrow> 'ctx
     \<Rightarrow> u32 \<Rightarrow> 'ev projection_effect_result
     \<Rightarrow> ('ev, 'p, 'ctx, 'err, 'f) projection \<times> projection_step" where
  "resume_events float_delay p last_checkpoint ctx failures result =
     (case result of
        EventsRead (Inr events) \<Rightarrow> step_processing float_delay p events 0 0 last_checkpoint ctx
      | EventsRead (Inl e) \<Rightarrow>
          if max_consecutive_poll_failures (pp_poll_config p) \<le> failures then
            (p\<lparr>pp_phase := PhDone\<rparr>,
             PDone (Inl (Failed (lit ''failed to read events after max retries: '' @ e))))
          else
            (p\<lparr>pp_phase := PhAwaitingPollFailureSleep last_checkpoint ctx (failures + 1)\<rparr>,
             PYield (SleepFor (poll_failure_backoff (pp_poll_config p))))
      | _ \<Rightarrow> (p\<lparr>pp_phase := PhDone\<rparr>, PPanic))"

text \<open>
  After a checkpoint save its error is only logged and the result is not inspected further: the next
  event is processed whatever came back. The phases that wait for a sleep do not look at their result.
\<close>

definition presume_step ::
  "(nat \<Rightarrow> 'f \<Rightarrow> int \<Rightarrow> u64) \<Rightarrow> ('ev, 'p, 'ctx, 'err, 'f) projection \<Rightarrow> 'ev projection_effect_result
     \<Rightarrow> ('ev, 'p, 'ctx, 'err, 'f) projection \<times> projection_step" where
  "presume_step float_delay p result =
     (case pp_phase p of
        PhAwaitingCheckpoint \<Rightarrow> resume_checkpoint p result
      | PhAwaitingEvents last_checkpoint ctx failures \<Rightarrow>
          resume_events float_delay p last_checkpoint ctx failures result
      | PhAwaitingCheckpointSave events index last_checkpoint ctx \<Rightarrow>
          step_processing float_delay p events (Suc index) 0 last_checkpoint ctx
      | PhAwaitingSkipCheckpointSave events index last_checkpoint ctx \<Rightarrow>
          step_processing float_delay p events (Suc index) 0 last_checkpoint ctx
      | PhAwaitingEventRetrySleep events index retries last_checkpoint ctx \<Rightarrow>
          step_processing float_delay p events index retries last_checkpoint ctx
      | PhAwaitingPollFailureSleep last_checkpoint ctx failures \<Rightarrow>
          step_poll_events p last_checkpoint ctx failures
      | PhAwaitingPollSleep last_checkpoint ctx \<Rightarrow> step_poll_events p last_checkpoint ctx 0
      | _ \<Rightarrow> (p\<lparr>pp_phase := PhDone\<rparr>, PPanic))"

section \<open>The shell\<close>

text \<open>
  A back end with its errors as the strings the shell turns them into. The environment \<open>env t\<close> is
  what other tasks do to the back end before the \<open>t\<close>-th await point.
\<close>

record ('st, 'ev, 'guard) projection_backend =
  pb_read :: "'st \<Rightarrow> event_filter \<Rightarrow> event_page \<Rightarrow> rstring + ('ev \<times> stream_position) list"
  pb_load :: "'st \<Rightarrow> rstring \<Rightarrow> rstring + stream_position option"
  pb_save :: "'st \<Rightarrow> rstring \<Rightarrow> stream_position \<Rightarrow> (rstring + unit) \<times> 'st"
  pb_acquire :: "'st \<Rightarrow> rstring \<Rightarrow> (rstring + 'guard) \<times> 'st"
  pb_release :: "'st \<Rightarrow> 'guard \<Rightarrow> 'st"

text \<open>What the store of checkpoints answers when there is none (\<open>NoCheckpointStore\<close>).\<close>

definition no_checkpoint_load :: "'st \<Rightarrow> rstring \<Rightarrow> rstring + stream_position option" where
  "no_checkpoint_load st name = Inr None"

definition no_checkpoint_save :: "'st \<Rightarrow> rstring \<Rightarrow> stream_position \<Rightarrow> (rstring + unit) \<times> 'st" where
  "no_checkpoint_save st name position = (Inr (), st)"

definition dispatch ::
  "('st, 'ev, 'guard) projection_backend \<Rightarrow> bool \<Rightarrow> projection_effect \<Rightarrow> 'st
     \<Rightarrow> 'ev projection_effect_result \<times> 'st" where
  "dispatch be has_store eff st =
     (case eff of
        LoadCheckpoint name \<Rightarrow>
          (CheckpointLoaded (if has_store then pb_load be st name else no_checkpoint_load st name), st)
      | ReadEvents f pg \<Rightarrow> (EventsRead (pb_read be st f pg), st)
      | SaveCheckpoint name position \<Rightarrow>
          (let (r, st') = (if has_store then pb_save be st name position
                           else no_checkpoint_save st name position)
           in (CheckpointSaved r, st'))
      | SleepFor d \<Rightarrow> (PSlept, st))"

datatype run_outcome = RunDone "projection_error + unit" | RunPanic

text \<open>The loop of \<open>run\<close>, with the effects it dispatched so far, oldest first.\<close>

fun run_loop ::
  "(nat \<Rightarrow> 'f \<Rightarrow> int \<Rightarrow> u64) \<Rightarrow> ('st, 'ev, 'guard) projection_backend \<Rightarrow> (nat \<Rightarrow> 'st \<Rightarrow> 'st)
     \<Rightarrow> nat \<Rightarrow> nat \<Rightarrow> ('ev, 'p, 'ctx, 'err, 'f) projection \<times> projection_step \<Rightarrow> 'st
     \<Rightarrow> (run_outcome \<times> ('ev, 'p, 'ctx, 'err, 'f) projection \<times> 'st \<times> projection_effect list) option" where
  "run_loop float_delay be env 0 t ps st = None"
| "run_loop float_delay be env (Suc fuel) t (p, s) st =
     (case s of
        PDone r \<Rightarrow> Some (RunDone r, p, st, [])
      | PPanic \<Rightarrow> Some (RunPanic, p, st, [])
      | PYield eff \<Rightarrow>
          (let (result, st') = dispatch be (pp_has_checkpoint_store p) eff (env t st) in
           map_option (\<lambda>(r, p', st'', effs). (r, p', st'', eff # effs))
             (run_loop float_delay be env fuel (Suc t) (presume_step float_delay p result) st')))"

text \<open>
  \<open>run_projection\<close>: leadership first, then a runner with the back end as its checkpoint store; the
  guard is dropped when the run ends, whatever its result.
\<close>

definition run_projection ::
  "(nat \<Rightarrow> 'f \<Rightarrow> int \<Rightarrow> u64) \<Rightarrow> ('st, 'ev, 'guard) projection_backend \<Rightarrow> (nat \<Rightarrow> 'st \<Rightarrow> 'st) \<Rightarrow> nat
     \<Rightarrow> ('ev, 'p, 'ctx, 'err) projector \<Rightarrow> 'p \<Rightarrow> 'f projection_config \<Rightarrow> 'st
     \<Rightarrow> (run_outcome \<times> 'p \<times> 'st \<times> projection_effect list) option" where
  "run_projection float_delay be env fuel pj s cfg st =
     (case pb_acquire be (env 0 st) (pj_name pj) of
        (Inl e, st') \<Rightarrow> Some (RunDone (Inl (LeadershipError e)), s, st', [])
      | (Inr g, st') \<Rightarrow>
          map_option (\<lambda>(r, p, st'', effs). (r, pp_state p, pb_release be st'' g, effs))
            (run_loop float_delay be env fuel 1
              (pstep float_delay (projection_new pj s True (to_poll_mode cfg) (to_poll_config cfg)
                 (to_event_retry_config cfg))) st'))"

end
