(* ===== verification/Projection_Runs.thy ===== *)
theory Projection_Runs
  imports Projection_Pipeline
begin

text \<open>
  The projection runner against a direct specification: one event is delivered with its retries,
  a page is delivered in order, and the state machine with its shell does exactly that, saving one
  checkpoint per handled event in order and nothing beyond the event that stopped it.
\<close>

section \<open>The specification\<close>

datatype ('p, 'ctx) delivery = Handled 'p 'ctx | Stopped projection_error 'p

function deliver ::
  "('ev, 'p, 'ctx, 'err) projector \<Rightarrow> u32 \<Rightarrow> u32 \<Rightarrow> 'p \<Rightarrow> 'ev \<Rightarrow> stream_position \<Rightarrow> 'ctx
     \<Rightarrow> ('p, 'ctx) delivery" where
  "deliver pj limit retries s event position ctx =
     (case pj_apply pj s event position ctx of
        (Inr _, s1, ctx1) \<Rightarrow> Handled s1 ctx1
      | (Inl err, s1, ctx1) \<Rightarrow>
          (case pj_on_error pj s1 \<lparr>fc_error = err, fc_position = position, fc_retry_count = retries\<rparr> of
             (Fatal, s2) \<Rightarrow> Stopped (Failed (lit ''projector apply failed'')) s2
           | (Skip, s2) \<Rightarrow> Handled s2 ctx1
           | (Retry, s2) \<Rightarrow>
               if limit \<le> retries then Stopped (Failed (lit ''projector apply failed after max retries'')) s2
               else deliver pj limit (retries + 1) s2 event position ctx1))"
  by pat_completeness auto

termination deliver
proof (relation "measure (\<lambda>(_, limit, retries, _). unat limit - unat retries)", goal_cases)
  case (2 pj limit retries)
  then have less: "retries < limit" by simp
  then have "unat retries < unat limit" by (simp add: word_less_nat_alt)
  with word_less_Suc_unat [OF less] show ?case by simp
qed simp

declare deliver.simps [simp del]

text \<open>How many events were handled, the projector and context afterwards, and why it stopped.\<close>

fun deliver_all ::
  "('ev, 'p, 'ctx, 'err) projector \<Rightarrow> u32 \<Rightarrow> 'p \<Rightarrow> 'ctx \<Rightarrow> ('ev \<times> stream_position) list
     \<Rightarrow> nat \<times> 'p \<times> projection_error option" where
  "deliver_all pj limit s ctx [] = (0, s, None)"
| "deliver_all pj limit s ctx ((event, position) # events) =
     (case deliver pj limit 0 s event position ctx of
        Handled s' ctx' \<Rightarrow>
          (let (n, r) = deliver_all pj limit s' ctx' events in (Suc n, r))
      | Stopped err s' \<Rightarrow> (0, s', Some err))"

lemma deliver_all_handled: "fst (deliver_all pj limit s ctx events) \<le> length events"
  by (induction pj limit s ctx events rule: deliver_all.induct)
     (auto split: delivery.splits prod.splits)

definition saves :: "projection_effect list \<Rightarrow> stream_position list" where
  "saves effs = List.map_filter (\<lambda>e. case e of SaveCheckpoint _ pos \<Rightarrow> Some pos | _ \<Rightarrow> None) effs"

lemma saves_simps [simp]:
  "saves [] = []" "saves (SaveCheckpoint n pos # effs) = pos # saves effs"
  "saves (SleepFor d # effs) = saves effs" "saves (ReadEvents f pg # effs) = saves effs"
  "saves (LoadCheckpoint n # effs) = saves effs" "saves (effs @ effs') = saves effs @ saves effs'"
  by (simp_all add: saves_def map_filter_def)

section \<open>One event\<close>

definition prepend ::
  "'e list \<Rightarrow> ('a \<times> 'b \<times> 'c \<times> 'e list) option \<Rightarrow> ('a \<times> 'b \<times> 'c \<times> 'e list) option" where
  "prepend effs r = map_option (\<lambda>(a, b, c, effs'). (a, b, c, effs @ effs')) r"

lemma prepend_simps [simp]: "prepend [] r = r" "prepend xs (prepend ys r) = prepend (xs @ ys) r"
  by (simp_all add: prepend_def option.map_comp comp_def case_prod_unfold option.map_ident)

lemma prepend_Some [simp]: "prepend effs (Some (a, b, c, effs')) = Some (a, b, c, effs @ effs')"
  by (simp add: prepend_def)

lemma run_loop_yield:
  "run_loop fd be env (Suc fuel) t (p, PYield eff) st =
     (let (result, st') = dispatch be (pp_has_checkpoint_store p) eff (env t st) in
      prepend [eff] (run_loop fd be env fuel (Suc t) (presume_step fd p result) st'))"
  by (simp add: prepend_def)

text \<open>The old phase is overwritten, so it does not matter.\<close>

lemma step_processing_phase:
  "step_processing fd (p\<lparr>pp_phase := x\<rparr>) events i rc cp ctx = step_processing fd p events i rc cp ctx"
proof (induction fd p events i rc cp ctx rule: step_processing.induct)
  case (1 fd p events i rc cp ctx)
  have comm: "p\<lparr>pp_phase := x, pp_state := s\<rparr> = p\<lparr>pp_state := s, pp_phase := x\<rparr>" for s by simp
  show ?case
    unfolding step_processing.simps [of fd "p\<lparr>pp_phase := x\<rparr>"] step_processing.simps [of fd p]
    using 1 by (auto simp: Let_def comm split: prod.splits sum.splits failure_strategy.splits)
qed

lemma deliver_run:
  fixes p :: "('ev, 'p, 'ctx, 'err, 'f) projection" and be :: "('st, 'ev, 'guard) projection_backend"
  assumes "pp_has_checkpoint_store p" "pp_projector p = pj"
    and "max_retry_attempts_of (pp_event_retry_config p) = limit"
    and "i < length events" "events ! i = (event, position)" "retries \<le> limit"
  shows "case deliver pj limit retries (pp_state p) event position ctx of
      Handled s' ctx' \<Rightarrow> \<exists>k t' st' effs. k \<le> unat limit - unat retries \<and> saves effs = [position]
        \<and> (\<forall>fuel. run_loop fd be env (Suc k + fuel) t (step_processing fd p events i retries cp ctx) st
             = prepend effs (run_loop fd be env fuel t'
                 (step_processing fd (p\<lparr>pp_state := s'\<rparr>) events (Suc i) 0 (Some position) ctx') st'))
    | Stopped err s' \<Rightarrow> \<exists>k st' effs p'. k \<le> unat limit - unat retries \<and> saves effs = [] \<and> pp_state p' = s'
        \<and> (\<forall>fuel. run_loop fd be env (Suc k + fuel) t (step_processing fd p events i retries cp ctx) st
             = Some (RunDone (Inl err), p', st', effs))"
  using assms
proof (induction pj limit retries "pp_state p" event position ctx arbitrary: p t st cp rule: deliver.induct)
  case (1 pj limit retries event position ctx)
  note prems = "1.prems"
  have sp: "step_processing fd p events i retries cp ctx =
     (case pj_apply pj (pp_state p) event position ctx of
          (Inr _, s, ctx') \<Rightarrow>
              (p\<lparr>pp_state := s, pp_phase := PhAwaitingCheckpointSave events i (Some position) ctx'\<rparr>,
               PYield (SaveCheckpoint (pj_name pj) position))
        | (Inl err, s, ctx') \<Rightarrow>
            (case pj_on_error pj s \<lparr>fc_error = err, fc_position = position, fc_retry_count = retries\<rparr> of
               (Fatal, s') \<Rightarrow>
                 (p\<lparr>pp_state := s', pp_phase := PhDone\<rparr>, PDone (Inl (Failed (lit ''projector apply failed''))))
             | (Skip, s') \<Rightarrow>
                   (p\<lparr>pp_state := s',
                      pp_phase := PhAwaitingSkipCheckpointSave events i (Some position) ctx'\<rparr>,
                    PYield (SaveCheckpoint (pj_name pj) position))
             | (Retry, s') \<Rightarrow>
                 if limit \<le> retries then
                   (p\<lparr>pp_state := s', pp_phase := PhDone\<rparr>,
                    PDone (Inl (Failed (lit ''projector apply failed after max retries''))))
                 else
                   (p\<lparr>pp_state := s',
                      pp_phase := PhAwaitingEventRetrySleep events i (retries + 1) cp ctx'\<rparr>,
                    PYield (SleepFor (event_retry_delay fd (pp_event_retry_config p) (retries + 1))))))"
    using prems by (subst step_processing.simps)
      (simp add: Let_def split: prod.splits sum.splits failure_strategy.splits)
  obtain r s1 ctx1 where ap: "pj_apply pj (pp_state p) event position ctx = (r, s1, ctx1)"
    by (rule prod_cases3)
  show ?case
  proof (cases r)
    case (Inr u)
    let ?save = "pb_save be (env t st) (pj_name pj) position"
    have "run_loop fd be env (Suc 0 + fuel) t (step_processing fd p events i retries cp ctx) st
        = prepend [SaveCheckpoint (pj_name pj) position] (run_loop fd be env fuel (Suc t)
            (step_processing fd (p\<lparr>pp_state := s1\<rparr>) events (Suc i) 0 (Some position) ctx1) (snd ?save))" for fuel
      using prems(1) by (simp add: sp ap Inr run_loop_yield dispatch_def presume_step_def step_processing_phase
          del: run_loop.simps split: prod.splits)
    then show ?thesis
      unfolding deliver.simps [of pj limit retries] ap Inr
      by (simp del: run_loop.simps) (intro exI [of _ 0] exI conjI allI, auto)
  next
    case (Inl err)
    let ?fc = "\<lparr>fc_error = err, fc_position = position, fc_retry_count = retries\<rparr>"
    obtain strategy s2 where st2: "pj_on_error pj s1 ?fc = (strategy, s2)" by (rule prod.exhaust)
    show ?thesis
    proof (cases strategy)
      case Fatal
      then show ?thesis
        by (subst deliver.simps) (simp add: ap Inl st2 sp, intro exI [of _ 0] exI conjI allI, auto)
    next
      case Skip
      let ?save = "pb_save be (env t st) (pj_name pj) position"
      have "run_loop fd be env (Suc 0 + fuel) t (step_processing fd p events i retries cp ctx) st
        = prepend [SaveCheckpoint (pj_name pj) position] (run_loop fd be env fuel (Suc t)
            (step_processing fd (p\<lparr>pp_state := s2\<rparr>) events (Suc i) 0 (Some position) ctx1) (snd ?save))" for fuel
        using prems(1) by (simp add: sp ap Inl st2 Skip run_loop_yield dispatch_def presume_step_def
            step_processing_phase del: run_loop.simps split: prod.splits)
      then show ?thesis
        unfolding deliver.simps [of pj limit retries] ap Inl
        by (simp add: st2 Skip del: run_loop.simps) (intro exI [of _ 0] exI conjI allI, auto)
    next
      case Retry
      show ?thesis
      proof (cases "limit \<le> retries")
        case True
        then show ?thesis
          by (subst deliver.simps)
            (simp add: ap Inl st2 sp Retry, intro exI [of _ 0] exI conjI allI, auto)
      next
        case False
        then have less: "retries < limit" by simp
        have Suc_u: "unat (retries + 1) = Suc (unat retries)" by (rule word_less_Suc_unat [OF less])
        have un: "unat retries < unat limit" using less by (simp add: word_less_nat_alt)
        have le: "retries + 1 \<le> limit" using less by (simp add: inc_le)
        let ?p = "p\<lparr>pp_state := s2\<rparr>"
        let ?d = "SleepFor (event_retry_delay fd (pp_event_retry_config p) (retries + 1))"
        have run: "run_loop fd be env (Suc (Suc k) + fuel) t (step_processing fd p events i retries cp ctx) st
          = prepend [?d] (run_loop fd be env (Suc k + fuel) (Suc t)
              (step_processing fd ?p events i (retries + 1) cp ctx1) (env t st))" for k fuel
          using prems(1) False
          by (simp add: sp ap Inl st2 Retry run_loop_yield dispatch_def presume_step_def step_processing_phase
              del: run_loop.simps(2))
        have dl: "deliver pj limit retries (pp_state p) event position ctx
            = deliver pj limit (retries + 1) s2 event position ctx1"
          by (subst deliver.simps) (use False in \<open>simp add: ap Inl st2 Retry\<close>)
        have oe: "(Retry, pp_state ?p) = pj_on_error pj s1 ?fc" using st2 Retry by simp
        note ih = "1.hyps" [OF ap [symmetric] Inl refl oe refl False, where t = "Suc t" and cp = cp and st = "env t st",
            simplified]
        show ?thesis
        proof (cases "deliver pj limit (retries + 1) s2 event position ctx1")
          case (Handled s' ctx')
          obtain k t' st' effs where k: "k \<le> unat limit - unat (retries + 1)" "saves effs = [position]"
            and r: "\<And>fuel. run_loop fd be env (Suc k + fuel) (Suc t) (step_processing fd ?p events i (retries + 1) cp ctx1) (env t st)
             = prepend effs (run_loop fd be env fuel t'
                 (step_processing fd (?p\<lparr>pp_state := s'\<rparr>) events (Suc i) 0 (Some position) ctx') st')"
            using ih prems le Handled by auto
          have "\<And>fuel. run_loop fd be env (Suc (Suc k) + fuel) t (step_processing fd p events i retries cp ctx) st
             = prepend (?d # effs) (run_loop fd be env fuel t'
                 (step_processing fd (p\<lparr>pp_state := s'\<rparr>) events (Suc i) 0 (Some position) ctx') st')"
            unfolding run r by simp
          then show ?thesis
            unfolding dl Handled using k Suc_u un
            by (simp del: run_loop.simps)
               (intro exI [of _ "Suc k"] exI [of _ t'] exI [of _ st'] exI [of _ "?d # effs"] conjI allI, auto)
        next
          case (Stopped er s')
          obtain k st' effs p' where k: "k \<le> unat limit - unat (retries + 1)" "saves effs = []" "pp_state p' = s'"
            and r: "\<And>fuel. run_loop fd be env (Suc k + fuel) (Suc t) (step_processing fd ?p events i (retries + 1) cp ctx1) (env t st)
             = Some (RunDone (Inl er), p', st', effs)"
            using ih prems le Stopped by auto
          have "\<And>fuel. run_loop fd be env (Suc (Suc k) + fuel) t (step_processing fd p events i retries cp ctx) st
             = Some (RunDone (Inl er), p', st', ?d # effs)"
            unfolding run r by simp
          then show ?thesis
            unfolding dl Stopped using k Suc_u un
            by (simp del: run_loop.simps)
               (intro exI [of _ "Suc k"] exI [of _ st'] exI [of _ "?d # effs"] exI [of _ p'] conjI allI, auto)
        qed
      qed
    qed
  qed
qed

text \<open>
  Whole projection runs: a page is delivered in order with one checkpoint per handled event, a batch
  run is one page after the stored checkpoint, and a reader that keeps failing stops the run.
\<close>

section \<open>A page\<close>

lemma page_run:
  fixes p :: "('ev, 'p, 'ctx, 'err, 'f) projection" and be :: "('st, 'ev, 'guard) projection_backend"
  assumes "pp_has_checkpoint_store p" "pp_poll_mode p = Batch"
    and "pp_projector p = pj" "max_retry_attempts_of (pp_event_retry_config p) = limit"
    and "deliver_all pj limit (pp_state p) ctx (drop i events) = (n, s', err)"
    and "length (drop i events) * (unat limit + 1) < fuel"
  shows "\<exists>p' st' effs. run_loop fd be env fuel t (step_processing fd p events i 0 cp ctx) st
      = Some (RunDone (case err of None \<Rightarrow> Inr () | Some e \<Rightarrow> Inl e), p', st', effs)
    \<and> pp_state p' = s' \<and> saves effs = map snd (take n (drop i events))"
  using assms
proof (induction "drop i events" arbitrary: i p ctx n t st cp fuel)
  case Nil
  then have "length events \<le> i" "0 < fuel" by simp_all
  then obtain fuel' where "fuel = Suc fuel'" by (cases fuel) auto
  then show ?case
    using Nil \<open>length events \<le> i\<close> by (subst step_processing.simps) auto
next
  case (Cons ep rest)
  obtain event position where ep: "ep = (event, position)" by (cases ep)
  have i: "i < length events" using Cons.hyps(2) by (metis drop_eq_Nil2 list.distinct(1) not_le)
  have nth: "events ! i = (event, position)" "drop (Suc i) events = rest"
    using Cons.hyps(2) ep by (simp_all add: Cons_nth_drop_Suc [OF i, symmetric])
  have split: "drop i events = (event, position) # drop (Suc i) events" using Cons.hyps(2) ep nth by simp
  have zero: "(0::u32) \<le> limit" by simp
  note d = deliver_run [OF Cons.prems(1,3,4) i nth(1) zero,
      where fd = fd and be = be and env = env and t = t and ctx = ctx and cp = cp and st = st]
  have len: "length (drop i events) * (unat limit + 1)
      = (unat limit + 1) + length (drop (Suc i) events) * (unat limit + 1)" unfolding split by simp
  show ?case
  proof (cases "deliver pj limit 0 (pp_state p) event position ctx")
    case (Handled s1 ctx1)
    obtain k t1 st1 effs1 where k: "k \<le> unat limit - unat (0::u32)" "saves effs1 = [position]"
      and run: "\<And>fuel. run_loop fd be env (Suc k + fuel) t (step_processing fd p events i 0 cp ctx) st
        = prepend effs1 (run_loop fd be env fuel t1
             (step_processing fd (p\<lparr>pp_state := s1\<rparr>) events (Suc i) 0 (Some position) ctx1) st1)"
      using d Handled by auto
    obtain m r where m: "deliver_all pj limit s1 ctx1 (drop (Suc i) events) = (m, r)" by (rule prod.exhaust)
    have n: "n = Suc m" "r = (s', err)"
      using Cons.prems(5) m Handled unfolding split by simp_all
    define fuel1 where "fuel1 = fuel - Suc k"
    have f: "fuel = Suc k + fuel1" "length (drop (Suc i) events) * (unat limit + 1) < fuel1"
      using Cons.prems(6) k(1) len unfolding fuel1_def by simp_all
    have "\<exists>p' st' effs. run_loop fd be env fuel1 t1
         (step_processing fd (p\<lparr>pp_state := s1\<rparr>) events (Suc i) 0 (Some position) ctx1) st1
      = Some (RunDone (case err of None \<Rightarrow> Inr () | Some e \<Rightarrow> Inl e), p', st', effs)
      \<and> pp_state p' = s' \<and> saves effs = map snd (take m (drop (Suc i) events))"
      by (rule Cons.hyps(1)) (use Cons.prems m n f nth(2) in simp_all)
    then obtain p' st' effs where fin: "run_loop fd be env fuel1 t1
         (step_processing fd (p\<lparr>pp_state := s1\<rparr>) events (Suc i) 0 (Some position) ctx1) st1
      = Some (RunDone (case err of None \<Rightarrow> Inr () | Some e \<Rightarrow> Inl e), p', st', effs)"
      "pp_state p' = s'" "saves effs = map snd (take m (drop (Suc i) events))" by blast
    have "run_loop fd be env fuel t (step_processing fd p events i 0 cp ctx) st
      = Some (RunDone (case err of None \<Rightarrow> Inr () | Some e \<Rightarrow> Inl e), p', st', effs1 @ effs)"
      unfolding f(1) run fin(1) by simp
    moreover have "saves (effs1 @ effs) = map snd (take n (drop i events))"
      using k(2) fin(3) unfolding n(1) split by simp
    ultimately show ?thesis using fin(2) by blast
  next
    case (Stopped er s1)
    obtain k st' effs p' where k: "k \<le> unat limit - unat (0::u32)" "saves effs = []" "pp_state p' = s1"
      and run: "\<And>fuel. run_loop fd be env (Suc k + fuel) t (step_processing fd p events i 0 cp ctx) st
        = Some (RunDone (Inl er), p', st', effs)"
      using d Stopped by auto
    have n: "n = 0" "s' = s1" "err = Some er"
      using Cons.prems(5) Stopped unfolding split by simp_all
    have "fuel = Suc k + (fuel - Suc k)" using Cons.prems(6) k(1) len by simp
    then have "run_loop fd be env fuel t (step_processing fd p events i 0 cp ctx) st
        = Some (RunDone (Inl er), p', st', effs)"
      using run [of "fuel - Suc k"] by simp
    then show ?thesis using k n by auto
  qed
qed

section \<open>A batch run\<close>

definition first_page :: "stream_position option \<Rightarrow> event_page" where
  "first_page cp = (case cp of Some position \<Rightarrow> page_after position page_size | None \<Rightarrow> page_first page_size)"

lemma batch_start:
  fixes pj :: "('ev, 'p, 'ctx, 'err) projector" and be :: "('st, 'ev, 'guard) projection_backend"
    and cfg :: "'f projection_config" and env :: "nat \<Rightarrow> 'st \<Rightarrow> 'st"
  defines "p \<equiv> \<lambda>s. projection_new pj s True (to_poll_mode cfg) (to_poll_config cfg) (to_event_retry_config cfg)"
  assumes load: "pb_load be (env 1 st0) (pj_name pj) = Inr cp"
    and read: "pb_read be (env 2 (env 1 st0)) (with_event_type filter_all (pj_event_type pj)) (first_page cp)
      = Inr events"
  shows "run_loop fd be env (Suc (Suc fuel)) 1 (pstep fd (p s)) st0 =
    prepend [LoadCheckpoint (pj_name pj), ReadEvents (with_event_type filter_all (pj_event_type pj)) (first_page cp)]
      (run_loop fd be env fuel 3 (step_processing fd (p s) events 0 0 cp (pj_default_context pj)) (env 2 (env 1 st0)))"
proof -
  have new: "pp_phase (p s) = PhLoadCheckpoint" "pp_has_checkpoint_store (p s)" "pp_projector (p s) = pj"
    by (simp_all add: projection_new_def p_def)
  show ?thesis
    using load read unfolding numeral_2_eq_2 numeral_3_eq_3
    by (simp add: pstep_def new step_load_checkpoint_def run_loop_yield dispatch_def
        presume_step_def resume_checkpoint_def step_poll_events_def first_page_def resume_events_def Let_def
        step_processing_phase del: run_loop.simps)
qed

lemma batch_page:
  fixes pj :: "('ev, 'p, 'ctx, 'err) projector" and be :: "('st, 'ev, 'guard) projection_backend"
    and cfg :: "'f projection_config"
  defines "p \<equiv> \<lambda>s. projection_new pj s True (to_poll_mode cfg) (to_poll_config cfg) (to_event_retry_config cfg)"
  assumes "\<not> pc_continuous cfg"
    and "deliver_all pj (pc_event_retry_max_attempts cfg) s (pj_default_context pj) events = (n, s', err)"
    and "length events * (unat (pc_event_retry_max_attempts cfg) + 1) < fuel"
  shows "\<exists>p' st' effs. run_loop fd be env fuel t (step_processing fd (p s) events 0 0 cp (pj_default_context pj)) st
      = Some (RunDone (case err of None \<Rightarrow> Inr () | Some e \<Rightarrow> Inl e), p', st', effs)
    \<and> pp_state p' = s' \<and> saves effs = map snd (take n (drop 0 events))"
  by (rule page_run [where limit = "pc_event_retry_max_attempts cfg" and pj = pj])
     (use assms in \<open>simp_all add: projection_new_def to_poll_mode_def to_event_retry_config_def\<close>)

lemma batch_run:
  assumes acq: "pb_acquire be (env 0 st) (pj_name pj) = (Inr g, st0)"
    and batch: "\<not> pc_continuous cfg"
    and load: "pb_load be (env 1 st0) (pj_name pj) = Inr cp"
    and read: "pb_read be (env 2 (env 1 st0)) (with_event_type filter_all (pj_event_type pj)) (first_page cp)
      = Inr events"
    and all: "deliver_all pj (pc_event_retry_max_attempts cfg) s (pj_default_context pj) events = (n, s', err)"
    and fuel: "length events * (unat (pc_event_retry_max_attempts cfg) + 1) + 2 < fuel"
  shows "\<exists>st' effs. run_projection fd be env fuel pj s cfg st
      = Some (RunDone (case err of None \<Rightarrow> Inr () | Some e \<Rightarrow> Inl e), s', st', effs)
    \<and> saves effs = map snd (take n events)"
proof -
  obtain fuel' where f: "fuel = Suc (Suc fuel')"
    "length events * (unat (pc_event_retry_max_attempts cfg) + 1) < fuel'"
    using fuel that [of "fuel - 2"] by simp
  note start = batch_start [where fuel = fuel' and s = s and cfg = cfg and fd = fd, OF load read, folded f(1)]
  show ?thesis
    using batch_page [OF batch all f(2), where fd = fd and be = be and env = env and t = 3 and cp = cp
        and st = "env 2 (env 1 st0)"] start acq
    by (auto simp: run_projection_def)
qed

section \<open>A reader that keeps failing\<close>

lemma failing_reads:
  assumes "pp_phase p = PhAwaitingEvents cp ctx failures"
    and "\<And>st f pg. pb_read be st f pg = Inl e"
    and "max_consecutive_poll_failures (pp_poll_config p) = limit" "failures \<le> limit"
    and "2 * (unat limit - unat failures) + 2 \<le> fuel"
  shows "\<exists>p' st' effs. run_loop fd be env fuel t (p, PYield (ReadEvents f pg)) st
      = Some (RunDone (Inl (Failed (lit ''failed to read events after max retries: '' @ e))), p', st', effs)
    \<and> length (filter (\<lambda>x. \<exists>f pg. x = ReadEvents f pg) effs) = Suc (unat limit - unat failures)
    \<and> saves effs = [] \<and> pp_state p' = pp_state p"
  using assms
proof (induction "unat limit - unat failures" arbitrary: p failures fuel t st f pg)
  case 0
  obtain fuel' where f: "fuel = Suc (Suc fuel')" using "0.prems"(5) that [of "fuel - 2"] by simp
  have "limit \<le> failures" using 0 by (simp add: word_le_nat_alt)
  then show ?case
    using 0 by (simp add: f dispatch_def presume_step_def resume_events_def)
next
  case (Suc d)
  have less: "failures < limit" using Suc.hyps(2) by (simp add: word_less_nat_alt)
  have Su: "unat (failures + 1) = Suc (unat failures)" by (rule word_less_Suc_unat [OF less])
  obtain fuel' where f: "fuel = Suc (Suc fuel')" "2 * (unat limit - unat (failures + 1)) + 2 \<le> fuel'"
    using Suc.prems(5) Suc.hyps(2) Su that [of "fuel - 2"] by simp
  let ?p = "p\<lparr>pp_phase := PhAwaitingEvents cp ctx (failures + 1)\<rparr>"
  let ?f = "with_event_type filter_all (pj_event_type (pp_projector p))"
  have le: "failures + 1 \<le> limit" using less by (simp add: inc_le)
  have d': "d = unat limit - unat (failures + 1)" using Suc.hyps(2) Su by simp
  have "\<exists>p' st' effs. run_loop fd be env fuel' (Suc (Suc t)) (?p, PYield (ReadEvents ?f (first_page cp))) (env (Suc t) (env t st))
      = Some (RunDone (Inl (Failed (lit ''failed to read events after max retries: '' @ e))), p', st', effs)
    \<and> length (filter (\<lambda>x. \<exists>f pg. x = ReadEvents f pg) effs) = Suc (unat limit - unat (failures + 1))
    \<and> saves effs = [] \<and> pp_state p' = pp_state ?p"
    by (rule Suc.hyps(1) [OF d']) (use Suc.prems f le in simp_all)
  then obtain p' st' effs where r: "run_loop fd be env fuel' (Suc (Suc t)) (?p, PYield (ReadEvents ?f (first_page cp))) (env (Suc t) (env t st))
      = Some (RunDone (Inl (Failed (lit ''failed to read events after max retries: '' @ e))), p', st', effs)"
    "length (filter (\<lambda>x. \<exists>f pg. x = ReadEvents f pg) effs) = Suc (unat limit - unat (failures + 1))"
    "saves effs = []" "pp_state p' = pp_state p" by auto
  have ne: "\<not> limit \<le> failures" using less by simp
  have "run_loop fd be env fuel t (p, PYield (ReadEvents f pg)) st
      = prepend [ReadEvents f pg, SleepFor (poll_failure_backoff (pp_poll_config p))]
         (run_loop fd be env fuel' (Suc (Suc t)) (?p, PYield (ReadEvents ?f (first_page cp))) (env (Suc t) (env t st)))"
    using Suc.prems(1-3) ne unfolding f(1)
    by (simp add: run_loop_yield dispatch_def presume_step_def resume_events_def step_poll_events_def
        first_page_def Let_def del: run_loop.simps)
  then show ?case using r d' Suc.hyps(2) by (simp add: r)
qed

end
