(* ===== verification/Projection_Contract.thy ===== *)
theory Projection_Contract
  imports Projection_Runs "HOL-Library.Sublist"
begin

text \<open>
  What the projection runner relies on: the paging contract of \<open>EventReader\<close> and, with the checkpoint
  store and the leadership coordinator, the contract of the back end of \<open>run_projection\<close>. Inside them:
  paging covers the log, and any number of batch runs, however they end and whatever other tasks
  append meanwhile, hands the projector a prefix of the selected events, once each, in order.
\<close>

section \<open>EventReader\<close>

text \<open>
  \<open>chosen st f\<close> are the events a filter selects, with their cursors in increasing order. A read is the
  first \<open>limit\<close> of those after the page's cursor.
\<close>

definition unseen :: "('ev \<times> stream_position) list \<Rightarrow> stream_position option \<Rightarrow> ('ev \<times> stream_position) list" where
  "unseen events cp = (case cp of None \<Rightarrow> events | Some q \<Rightarrow> filter (\<lambda>(e, p). q < p) events)"

locale event_reader =
  fixes read :: "'st \<Rightarrow> event_filter \<Rightarrow> event_page \<Rightarrow> 'err + ('ev \<times> stream_position) list"
    and rinv :: "'st \<Rightarrow> bool"
    and chosen :: "'st \<Rightarrow> event_filter \<Rightarrow> ('ev \<times> stream_position) list"
  assumes read_page: "rinv st \<Longrightarrow> read st f pg
      = Inr (take (unat (page_limit pg)) (unseen (chosen st f) (after_position pg)))"
    and increasing: "rinv st \<Longrightarrow> sorted_wrt (<) (map snd (chosen st f))"

text \<open>The cursor after a prefix was seen skips exactly that prefix.\<close>

lemma unseen_skip:
  assumes "sorted_wrt (<) (map snd events)" "unseen events cp = done1 @ (e, p) # rest"
  shows "unseen events (Some p) = rest"
proof -
  have part: "\<exists>ys. events = ys @ unseen events cp \<and> (\<forall>(e', q) \<in> set ys. case cp of None \<Rightarrow> False | Some c \<Rightarrow> q \<le> c)"
  proof (cases cp)
    case None
    then show ?thesis by (simp add: unseen_def)
  next
    case (Some c)
    have "\<exists>ys. events = ys @ filter (\<lambda>(e, p). c < p) events \<and> (\<forall>(e', q) \<in> set ys. q \<le> c)"
      using assms(1)
    proof (induction events)
      case (Cons ev events)
      obtain e1 p1 where ev: "ev = (e1, p1)" by (cases ev)
      show ?case
      proof (cases "c < p1")
        case True
        have "filter (\<lambda>(e, p). c < p) events = events"
          using Cons.prems True by (auto simp: ev intro!: filter_True)
        then show ?thesis using True by (intro exI [of _ "[]"]) (simp add: ev)
      next
        case False
        obtain ys where "events = ys @ filter (\<lambda>(e, p). c < p) events" "\<forall>(e', q) \<in> set ys. q \<le> c"
          using Cons by auto
        with False show ?thesis by (intro exI [of _ "ev # ys"]) (simp add: ev)
      qed
    qed simp
    with Some show ?thesis by (simp add: unseen_def)
  qed
  then obtain ys where ys: "events = ys @ done1 @ (e, p) # rest" unfolding assms(2) by auto
  have "sorted_wrt (<) (map snd (ys @ done1) @ p # map snd rest)"
    using assms(1) unfolding ys by simp
  then have "\<forall>q \<in> set (map snd (ys @ done1)). q < p" "\<forall>q \<in> set (map snd rest). p < q"
    by (auto simp: sorted_wrt_append)
  then have "\<forall>x \<in> set (ys @ done1). \<not> p < snd x" "\<forall>x \<in> set rest. p < snd x"
    unfolding set_map ball_simps(9) by (simp_all add: not_less order.strict_implies_order)
  then have "filter (\<lambda>(e, q). p < q) (ys @ done1) = []" "filter (\<lambda>(e, q). p < q) rest = rest"
    by (simp_all only: filter_empty_conv filter_id_conv case_prod_unfold)
  then show ?thesis unfolding unseen_def ys by simp
qed

lemma unseen_take:
  assumes "sorted_wrt (<) (map snd events)"
  shows "unseen events (if take n (unseen events cp) = [] then cp else Some (snd (last (take n (unseen events cp)))))
    = drop n (unseen events cp)"
proof (cases "take n (unseen events cp) = []")
  case True
  then show ?thesis by auto
next
  case False
  let ?t = "take n (unseen events cp)"
  obtain e p where l: "last ?t = (e, p)" by (cases "last ?t")
  have "unseen events cp = butlast ?t @ (e, p) # drop n (unseen events cp)"
    using append_butlast_last_id [OF False] l
    by (metis append_Cons append_assoc append_take_drop_id self_append_conv2)
  from unseen_skip [OF assms this] False l show ?thesis by simp
qed

lemma unseen_append: "unseen (events @ rest) cp = unseen events cp @ unseen rest cp"
  by (cases cp) (simp_all add: unseen_def)

text \<open>Reading page after page, each from the cursor of the last event of the one before.\<close>

fun read_pages ::
  "('st \<Rightarrow> event_filter \<Rightarrow> event_page \<Rightarrow> 'err + ('ev \<times> stream_position) list) \<Rightarrow> 'st \<Rightarrow> event_filter \<Rightarrow> nat
     \<Rightarrow> event_page \<Rightarrow> 'err + ('ev \<times> stream_position) list" where
  "read_pages rd st f 0 pg = Inr []"
| "read_pages rd st f (Suc k) pg =
     (case rd st f pg of
        Inl e \<Rightarrow> Inl e
      | Inr events \<Rightarrow>
          (case next_from_results pg events of
             None \<Rightarrow> Inr []
           | Some pg' \<Rightarrow>
               (case read_pages rd st f k pg' of Inl e \<Rightarrow> Inl e | Inr rest \<Rightarrow> Inr (events @ rest))))"

context event_reader
begin

lemma pages_cover:
  assumes "rinv st"
  shows "read_pages read st f k pg
    = Inr (take (k * unat (page_limit pg)) (unseen (chosen st f) (after_position pg)))"
proof (induction k arbitrary: pg)
  case (Suc k)
  let ?n = "unat (page_limit pg)" and ?u = "unseen (chosen st f) (after_position pg)"
  show ?case
  proof (cases "take ?n ?u = []")
    case True
    then have "?n = 0 \<or> ?u = []" by simp
    then show ?thesis
      by (elim disjE) (simp_all add: read_page [OF assms] next_from_results_def)
  next
    case False
    have skip: "unseen (chosen st f) (Some (snd (last (take ?n ?u)))) = drop ?n ?u"
      
      using unseen_take [OF increasing [OF assms, of f], where n = ?n and cp = "after_position pg"]
      unfolding if_not_P [OF False] .
    show ?thesis
      using False
      by (simp add: read_page [OF assms] next_from_results_def Suc skip take_add)
  qed
qed simp

end

section \<open>The back end of a projection\<close>

text \<open>
  The reader, a checkpoint store and leadership in one back end; saving, acquiring and releasing do not
  change the events, and leadership does not change the checkpoints.
\<close>

locale projection_store =
  event_reader "pb_read be" pinv chosen + cp: checkpoint_store "pb_load be" "pb_save be" pinv
  for be :: "('st, 'ev, 'guard) projection_backend" and pinv :: "'st \<Rightarrow> bool"
    and chosen :: "'st \<Rightarrow> event_filter \<Rightarrow> ('ev \<times> stream_position) list" +
  assumes save_chosen: "pinv st \<Longrightarrow> chosen (snd (pb_save be st n p)) = chosen st"
    and acquire_keeps: "pinv st \<Longrightarrow> pb_acquire be st n = (r, st') \<Longrightarrow>
          pinv st' \<and> chosen st' = chosen st \<and> pb_load be st' = pb_load be st"
    and release_keeps: "pinv st \<Longrightarrow> pinv (pb_release be st g) \<and> chosen (pb_release be st g) = chosen st
          \<and> pb_load be (pb_release be st g) = pb_load be st"

text \<open>
  What the other tasks may do while projection \<open>nm\<close> runs: append events at the end of the log, and
  anything else that keeps the invariant, but nobody else saves its checkpoint.
\<close>

definition only_appends ::
  "('st \<Rightarrow> rstring \<Rightarrow> rstring + stream_position option) \<Rightarrow> ('st \<Rightarrow> bool)
     \<Rightarrow> ('st \<Rightarrow> event_filter \<Rightarrow> ('ev \<times> stream_position) list) \<Rightarrow> rstring \<Rightarrow> 'st \<Rightarrow> 'st \<Rightarrow> bool" where
  "only_appends ld pinv chosen nm st st' \<longleftrightarrow> pinv st' \<and> ld st' nm = ld st nm
     \<and> (\<forall>f. prefix (chosen st f) (chosen st' f))"

definition good_env ::
  "('st \<Rightarrow> rstring \<Rightarrow> rstring + stream_position option) \<Rightarrow> ('st \<Rightarrow> bool)
     \<Rightarrow> ('st \<Rightarrow> event_filter \<Rightarrow> ('ev \<times> stream_position) list) \<Rightarrow> rstring \<Rightarrow> (nat \<Rightarrow> 'st \<Rightarrow> 'st) \<Rightarrow> bool" where
  "good_env ld pinv chosen nm env \<longleftrightarrow> (\<forall>t st. pinv st \<longrightarrow> only_appends ld pinv chosen nm st (env t st))"

text \<open>The steps of a projection name no other subscription in their saves.\<close>

definition runs_as :: "rstring \<Rightarrow> ('ev, 'p, 'ctx, 'err, 'f) projection \<Rightarrow> bool" where
  "runs_as nm p \<longleftrightarrow> pp_has_checkpoint_store p \<and> pj_name (pp_projector p) = nm"

lemma runs_as_update [simp]:
  "runs_as nm (p\<lparr>pp_phase := x\<rparr>) = runs_as nm p" "runs_as nm (p\<lparr>pp_state := s\<rparr>) = runs_as nm p"
  by (simp_all add: runs_as_def)

definition own_saves :: "rstring \<Rightarrow> ('ev, 'p, 'ctx, 'err, 'f) projection \<times> projection_step \<Rightarrow> bool" where
  "own_saves nm ps \<longleftrightarrow> runs_as nm (fst ps)
     \<and> (\<forall>n q. snd ps = PYield (SaveCheckpoint n q) \<longrightarrow> n = nm)"

lemma own_saves_step_poll: "own_saves nm (step_poll_events p cp ctx k) \<longleftrightarrow> runs_as nm p"
  by (simp add: own_saves_def step_poll_events_def Let_def)

lemma own_saves_simps:
  "own_saves nm (p, PDone res) \<longleftrightarrow> runs_as nm p"
  "own_saves nm (p, PPanic) \<longleftrightarrow> runs_as nm p"
  "own_saves nm (p, PYield (SleepFor d)) \<longleftrightarrow> runs_as nm p"
  "own_saves nm (p, PYield (LoadCheckpoint n)) \<longleftrightarrow> runs_as nm p"
  "own_saves nm (p, PYield (SaveCheckpoint n q)) \<longleftrightarrow> runs_as nm p \<and> n = nm"
  by (auto simp: own_saves_def)

lemma own_saves_processing:
  "runs_as nm p \<Longrightarrow> own_saves nm (step_processing fd p events i rc cp ctx)"
proof (induction fd p events i rc cp ctx rule: step_processing.induct)
  case (1 fd p events i rc cp ctx)
  show ?case
    unfolding step_processing.simps [of fd p]
    using 1 by (auto simp: own_saves_simps runs_as_def Let_def split: prod.splits sum.splits failure_strategy.splits)
qed

lemma own_saves_resume:
  assumes "runs_as nm p"
  shows "own_saves nm (presume_step fd p r)"
proof -
  have "own_saves nm (resume_checkpoint p r)"
    using assms by (cases r) (auto simp: resume_checkpoint_def own_saves_simps own_saves_step_poll split: sum.split)
  moreover have "own_saves nm (resume_events fd p cp ctx k r)" for cp ctx k
    using assms by (cases r) (auto simp: resume_events_def own_saves_simps own_saves_processing split: sum.split)
  ultimately show ?thesis
    using assms by (cases "pp_phase p")
      (simp_all add: presume_step_def own_saves_simps own_saves_step_poll own_saves_processing)
qed

lemma own_saves_step:
  assumes "runs_as nm p"
  shows "own_saves nm (pstep fd p)"
  using assms by (cases "pp_phase p")
    (simp_all add: pstep_def own_saves_simps own_saves_step_poll own_saves_processing step_load_checkpoint_def)

end
