(* ===== verification/Projection_Resume.thy ===== *)
theory Projection_Resume
  imports Projection_Contract
begin

text \<open>
  Batch runs over a back end that keeps the projection contract: what one run saves, and how the next
  one continues from it.
\<close>

section \<open>What a run leaves in the store\<close>

text \<open>One run after the other, each with its own projector state and its own interference.\<close>

fun batch_runs ::
  "(nat \<Rightarrow> 'f \<Rightarrow> int \<Rightarrow> u64) \<Rightarrow> ('st, 'ev, 'guard) projection_backend \<Rightarrow> nat
     \<Rightarrow> ('ev, 'p, 'ctx, 'err) projector \<Rightarrow> 'f projection_config \<Rightarrow> ('p \<times> (nat \<Rightarrow> 'st \<Rightarrow> 'st)) list \<Rightarrow> 'st
     \<Rightarrow> (stream_position list \<times> 'st) option" where
  "batch_runs fd be fuel pj cfg [] st = Some ([], st)"
| "batch_runs fd be fuel pj cfg ((s, env) # runs) st =
     (case run_projection fd be env fuel pj s cfg st of
        None \<Rightarrow> None
      | Some (r, s', st', effs) \<Rightarrow>
          map_option (\<lambda>(ps, st''). (saves effs @ ps, st'')) (batch_runs fd be fuel pj cfg runs st'))"

definition own_events :: "('ev, 'p, 'ctx, 'err) projector \<Rightarrow> event_filter" where
  "own_events pj = with_event_type filter_all (pj_event_type pj)"

text \<open>The checkpoint after a list of saves.\<close>

definition checkpoint_after :: "stream_position option \<Rightarrow> stream_position list \<Rightarrow> stream_position option" where
  "checkpoint_after cp ps = (if ps = [] then cp else Some (last ps))"

lemma checkpoint_after_simps [simp]:
  "checkpoint_after cp [] = cp" "checkpoint_after cp (p # ps) = checkpoint_after (Some p) ps"
  "checkpoint_after cp (ps @ qs) = checkpoint_after (checkpoint_after cp ps) qs"
  by (auto simp: checkpoint_after_def)

lemma unseen_prefix: "prefix xs ys \<Longrightarrow> prefix (unseen xs cp) (unseen ys cp)"
  by (auto simp: prefix_def unseen_append)

lemma unseen_checkpoint:
  assumes "sorted_wrt (<) (map snd events)" "prefix ps (map snd (unseen events cp))"
  shows "unseen events (checkpoint_after cp ps) = drop (length ps) (unseen events cp)"
proof -
  obtain zs where zs: "map snd (unseen events cp) = ps @ zs" using assms(2) by (rule prefixE)
  then have ps: "ps = map snd (take (length ps) (unseen events cp))"
    by (metis append_eq_conv_conj take_map)
  show ?thesis
  proof (cases "ps = []")
    case False
    let ?t = "take (length ps) (unseen events cp)"
    have ne: "?t \<noteq> []" using False ps by (metis list.map_disc_iff)
    then have "last ps = snd (last ?t)" using ps by (metis last_map)
    then show ?thesis
      using unseen_take [OF assms(1), where n = "length ps" and cp = cp] ne False
      by (simp add: checkpoint_after_def)
  qed simp
qed

lemma first_page_fields: "after_position (first_page cp) = cp" "page_limit (first_page cp) = page_size"
  by (simp_all add: first_page_def page_first_def page_after_def split: option.split)

context projection_store
begin

lemma run_loop_store:
  assumes "good_env (pb_load be) pinv chosen nm env" "own_saves nm ps" "pinv st"
    and "run_loop fd be env fuel t ps st = Some (r, p', st', effs)" "pb_load be st nm = Inr cp"
  shows "pinv st' \<and> (\<forall>f. prefix (chosen st f) (chosen st' f))
    \<and> pb_load be st' nm = Inr (checkpoint_after cp (saves effs))"
  using assms(2-)
proof (induction fuel arbitrary: t ps st cp effs)
  case (Suc fuel)
  obtain p s where ps: "ps = (p, s)" by (cases ps)
  have runs: "runs_as nm p" "pp_has_checkpoint_store p" using Suc.prems(1) by (simp_all add: ps own_saves_def runs_as_def)
  show ?case
  proof (cases s)
    case (PYield eff)
    obtain result st1 where d: "dispatch be True eff (env t st) = (result, st1)" by (rule prod.exhaust)
    have env: "pinv (env t st)" "pb_load be (env t st) nm = Inr cp" "\<forall>f. prefix (chosen st f) (chosen (env t st) f)"
      using assms(1) Suc.prems(2,4) by (simp_all add: good_env_def only_appends_def)
    obtain effs' where effs: "effs = eff # effs'"
      and rest: "run_loop fd be env fuel (Suc t) (presume_step fd p result) st1 = Some (r, p', st', effs')"
      using Suc.prems(3) d by (auto simp: ps PYield runs(2))
    have own: "own_saves nm (presume_step fd p result)" by (rule own_saves_resume [OF runs(1)])
    define cp1 where "cp1 = checkpoint_after cp (saves [eff])"
    have st1: "pinv st1 \<and> chosen st1 = chosen (env t st) \<and> pb_load be st1 nm = Inr cp1"
    proof (cases eff)
      case (SaveCheckpoint n q)
      then have n: "n = nm" using Suc.prems(1) by (simp add: ps PYield own_saves_simps)
      have "st1 = snd (pb_save be (env t st) nm q)"
        using d by (auto simp: dispatch_def SaveCheckpoint n split: prod.splits)
      then show ?thesis
        using cp.save_ok [OF env(1), of nm q] cp.load_save [OF env(1), of nm q] save_chosen [OF env(1), of nm q]
        by (auto simp: cp1_def SaveCheckpoint)
    qed (use d env in \<open>auto simp: dispatch_def cp1_def\<close>)
    have "pinv st' \<and> (\<forall>f. prefix (chosen st1 f) (chosen st' f))
      \<and> pb_load be st' nm = Inr (checkpoint_after cp1 (saves effs'))"
      by (rule Suc.IH [OF own _ rest]) (use st1 in simp_all)
    moreover have "checkpoint_after cp (saves effs) = checkpoint_after cp1 (saves effs')"
      using saves_simps(6) [of "[eff]" effs'] by (simp add: cp1_def effs)
    ultimately show ?thesis
      using st1 env(3) by (metis prefix_order.trans)
  qed (use Suc.prems in \<open>auto simp: ps\<close>)
qed simp

text \<open>One batch run: what it saves is a prefix of the events the checkpoint has not covered yet.\<close>

lemma batch_run_saves:
  assumes "good_env (pb_load be) pinv chosen (pj_name pj) env" "pinv st" "\<not> pc_continuous cfg"
    and "unat page_size * (unat (pc_event_retry_max_attempts cfg) + 1) + 2 < fuel"
    and "pb_load be st (pj_name pj) = Inr cp"
  obtains r s' st' effs where "run_projection fd be env fuel pj s cfg st = Some (r, s', st', effs)"
    and "pinv st'" "prefix (chosen st (own_events pj)) (chosen st' (own_events pj))"
    and "pb_load be st' (pj_name pj) = Inr (checkpoint_after cp (saves effs))"
    and "prefix (saves effs) (map snd (unseen (chosen st' (own_events pj)) cp))"
    and "(\<exists>e st0. pb_acquire be (env 0 st) (pj_name pj) = (Inl e, st0))
      \<or> (\<exists>g st0 st2 st3. pb_acquire be (env 0 st) (pj_name pj) = (Inr g, st0) \<and> pinv st3 \<and> st' = pb_release be st3 g
          \<and> prefix (chosen st (own_events pj)) (chosen st2 (own_events pj))
          \<and> saves effs = (let page = take (unat page_size) (unseen (chosen st2 (own_events pj)) cp)
              in map snd (take (fst (deliver_all pj (pc_event_retry_max_attempts cfg) s (pj_default_context pj) page)) page)))"
proof -
  let ?nm = "pj_name pj" and ?F = "own_events pj" and ?limit = "pc_event_retry_max_attempts cfg"
  note env = assms(1) [unfolded good_env_def only_appends_def, rule_format]
  have e0: "pinv (env 0 st)" "pb_load be (env 0 st) ?nm = Inr cp" "prefix (chosen st ?F) (chosen (env 0 st) ?F)"
    using env [OF assms(2)] assms(5) by auto
  obtain a st0 where acq: "pb_acquire be (env 0 st) ?nm = (a, st0)" by (rule prod.exhaust)
  have s0: "pinv st0" "chosen st0 = chosen (env 0 st)" "pb_load be st0 ?nm = Inr cp"
    using acquire_keeps [OF e0(1) acq] e0(2) by auto
  show thesis
  proof (cases a)
    case (Inl e)
    show ?thesis
      by (rule that [of "RunDone (Inl (LeadershipError e))" s st0 "[]"])
         (use acq Inl s0 e0(3) in \<open>auto simp: run_projection_def\<close>)
  next
    case (Inr g)
    let ?st1 = "env 1 st0"
    let ?st2 = "env 2 ?st1"
    have e1: "pinv ?st1" "pb_load be ?st1 ?nm = Inr cp" "prefix (chosen st0 ?F) (chosen ?st1 ?F)"
      using env [OF s0(1)] s0(3) by auto
    have e2: "pinv ?st2" "pb_load be ?st2 ?nm = Inr cp" "prefix (chosen ?st1 ?F) (chosen ?st2 ?F)"
      using env [OF e1(1)] e1(2) by auto
    define events where "events = take (unat page_size) (unseen (chosen ?st2 ?F) cp)"
    have read: "pb_read be ?st2 ?F (first_page cp) = Inr events"
      unfolding read_page [OF e2(1)] first_page_fields events_def ..
    obtain n s' err where all: "deliver_all pj ?limit s (pj_default_context pj) events = (n, s', err)"
      by (rule prod_cases3)
    obtain fuel' where f: "fuel = Suc (Suc fuel')" "unat page_size * (unat ?limit + 1) < fuel'"
      using assms(4) that [of "fuel - 2"] by auto
    let ?p = "projection_new pj s True (to_poll_mode cfg) (to_poll_config cfg) (to_event_retry_config cfg)"
    have len: "length events * (unat ?limit + 1) < fuel'"
    proof -
      have "length events * (unat ?limit + 1) \<le> unat page_size * (unat ?limit + 1)"
        by (rule mult_le_mono1) (simp add: events_def)
      then show ?thesis using f(2) by (rule le_less_trans)
    qed
    obtain p' st' effs where page: "run_loop fd be env fuel' 3
        (step_processing fd ?p events 0 0 cp (pj_default_context pj)) ?st2
        = Some (RunDone (case err of None \<Rightarrow> Inr () | Some e \<Rightarrow> Inl e), p', st', effs)"
      and saved: "saves effs = map snd (take n events)"
      using batch_page [OF assms(3) all len, where fd = fd and be = be and env = env and t = 3 and cp = cp
          and st = ?st2] by auto
    have "runs_as ?nm ?p" by (simp add: runs_as_def projection_new_def)
    note store = run_loop_store [OF assms(1) own_saves_processing [OF this] e2(1) page e2(2)]
    let ?rel = "pb_release be st' g"
    have fin: "pinv ?rel" "chosen ?rel = chosen st'" "pb_load be ?rel ?nm = Inr (checkpoint_after cp (saves effs))"
      using release_keeps store by simp_all
    have grows: "prefix (chosen st ?F) (chosen ?st2 ?F)" "prefix (chosen ?st2 ?F) (chosen ?rel ?F)"
      using e0(3) s0(2) e1(3) e2(3) store fin(2) by (auto intro: prefix_order.trans)
    have "prefix (take n events) (unseen (chosen ?st2 ?F) cp)"
      unfolding events_def by (metis take_is_prefix prefix_order.trans)
    then have "prefix (take n events) (unseen (chosen ?rel ?F) cp)"
      using unseen_prefix [OF grows(2)] by (rule prefix_order.trans)
    then have pre: "prefix (saves effs) (map snd (unseen (chosen ?rel ?F) cp))"
      unfolding saved by (rule map_mono_prefix)
    let ?effs = "[LoadCheckpoint ?nm, ReadEvents ?F (first_page cp)] @ effs"
    note start = batch_start [where fuel = fuel' and s = s and cfg = cfg and fd = fd,
        OF e1(2) read [unfolded own_events_def], folded f(1) own_events_def]
    have whole: "run_loop fd be env fuel 1 (pstep fd ?p) st0
        = Some (RunDone (case err of None \<Rightarrow> Inr () | Some e \<Rightarrow> Inl e), p', st', ?effs)"
      by (simp only: start page prepend_Some)
    have run: "run_projection fd be env fuel pj s cfg st
        = Some (RunDone (case err of None \<Rightarrow> Inr () | Some e \<Rightarrow> Inl e), pp_state p', ?rel, ?effs)"
      by (simp only: run_projection_def acq Inr prod.case sum.case whole option.map)
    have all_saved: "saves ?effs = (let page = take (unat page_size) (unseen (chosen ?st2 ?F) cp)
        in map snd (take (fst (deliver_all pj ?limit s (pj_default_context pj) page)) page))"
      using saved all by (simp add: events_def Let_def)
    have led: "\<exists>g' st0' st2 st3. pb_acquire be (env 0 st) ?nm = (Inr g', st0') \<and> pinv st3 \<and> ?rel = pb_release be st3 g'
        \<and> prefix (chosen st ?F) (chosen st2 ?F)
        \<and> saves ?effs = (let page = take (unat page_size) (unseen (chosen st2 ?F) cp)
            in map snd (take (fst (deliver_all pj ?limit s (pj_default_context pj) page)) page))"
      by (rule exI [of _ g], rule exI [of _ st0], rule exI [of _ ?st2], rule exI [of _ st'])
        (use acq Inr store grows(1) all_saved in simp)
    show ?thesis
      by (rule that [OF run fin(1) prefix_order.trans [OF grows] _ _ disjI2 [OF led]]) (use fin(3) pre in simp_all)
  qed
qed

text \<open>
  Any number of batch runs saves a prefix of the events that were waiting: none twice, none skipped,
  in order, and the stored checkpoint is the last of them.
\<close>

lemma batch_runs_resume:
  assumes "\<forall>(s, env) \<in> set runs. good_env (pb_load be) pinv chosen (pj_name pj) env"
    and "pinv st" "\<not> pc_continuous cfg"
    and "unat page_size * (unat (pc_event_retry_max_attempts cfg) + 1) + 2 < fuel"
    and "pb_load be st (pj_name pj) = Inr cp"
  shows "\<exists>ps st'. batch_runs fd be fuel pj cfg runs st = Some (ps, st') \<and> pinv st'
    \<and> pb_load be st' (pj_name pj) = Inr (checkpoint_after cp ps)
    \<and> prefix (chosen st (own_events pj)) (chosen st' (own_events pj))
    \<and> prefix ps (map snd (unseen (chosen st' (own_events pj)) cp))"
  using assms(1,2,5)
proof (induction runs arbitrary: st cp)
  case (Cons sr runs)
  let ?F = "own_events pj"
  obtain s env where sr: "sr = (s, env)" by (cases sr)
  have ge: "good_env (pb_load be) pinv chosen (pj_name pj) env" using Cons.prems(1) sr by simp
  obtain r s' st1 effs where run: "run_projection fd be env fuel pj s cfg st = Some (r, s', st1, effs)"
    and st1: "pinv st1" "prefix (chosen st ?F) (chosen st1 ?F)"
      "pb_load be st1 (pj_name pj) = Inr (checkpoint_after cp (saves effs))"
      "prefix (saves effs) (map snd (unseen (chosen st1 ?F) cp))"
    by (rule batch_run_saves [OF ge Cons.prems(2) assms(3,4) Cons.prems(3), where fd = fd and s = s])
  obtain ps st' where runs: "batch_runs fd be fuel pj cfg runs st1 = Some (ps, st')"
    and st': "pinv st'" "pb_load be st' (pj_name pj) = Inr (checkpoint_after (checkpoint_after cp (saves effs)) ps)"
      "prefix (chosen st1 ?F) (chosen st' ?F)"
      "prefix ps (map snd (unseen (chosen st' ?F) (checkpoint_after cp (saves effs))))"
    using Cons.IH [OF _ st1(1,3)] Cons.prems(1) by auto
  have pre: "prefix (saves effs) (map snd (unseen (chosen st' ?F) cp))"
    using st1(4) map_mono_prefix [OF unseen_prefix [OF st'(3)]] by (rule prefix_order.trans)
  have "unseen (chosen st' ?F) (checkpoint_after cp (saves effs))
      = drop (length (saves effs)) (unseen (chosen st' ?F) cp)"
    by (rule unseen_checkpoint [OF increasing [OF st'(1)] pre])
  then have rest: "prefix ps (drop (length (saves effs)) (map snd (unseen (chosen st' ?F) cp)))"
    using st'(4) by (simp add: drop_map)
  obtain zs where zs: "map snd (unseen (chosen st' ?F) cp) = saves effs @ zs" using pre by (rule prefixE)
  have "prefix (saves effs @ ps) (map snd (unseen (chosen st' ?F) cp))"
    using rest by (simp add: zs)
  then show ?case
    using run runs st' st1(2) by (auto simp: sr intro: prefix_order.trans)
qed simp

end

end
