(* ===== verification/Memory_Projection.thy ===== *)
theory Memory_Projection
  imports Memory_Correct Projection_Resume
begin

text \<open>
  Projections over the in-memory back end: its reader, checkpoint table and lock table as the back end
  of \<open>run_projection\<close>, and the interpretation of the projection contract on it. The texts of the
  errors are the parameters \<open>show_read\<close>, \<open>show_checkpoint\<close> and \<open>show_lock\<close> (their \<open>Display\<close>).
\<close>

section \<open>The back end\<close>

definition memory_backend ::
  "(event_store_error \<Rightarrow> rstring) \<Rightarrow> (memory_checkpoint_error \<Rightarrow> rstring) \<Rightarrow> (memory_coordination_error \<Rightarrow> rstring)
     \<Rightarrow> (rstring \<Rightarrow> (rstring \<Rightarrow> bool) option) \<Rightarrow> 'ev event_type
     \<Rightarrow> (('ev, 'json) store_data, 'ev, memory_guard) projection_backend" where
  "memory_backend show_read show_checkpoint show_lock glob_compile E =
     \<lparr>pb_read = \<lambda>data f pg. map_sum show_read id (mem_read_events glob_compile E data f pg),
       pb_load = \<lambda>data n. map_sum show_checkpoint id (mem_load_checkpoint data n),
       pb_save = \<lambda>data n q. apfst (map_sum show_checkpoint id) (mem_save_checkpoint data n q),
       pb_acquire = \<lambda>data n. apfst (map_sum show_lock id) (mem_try_acquire data n),
       pb_release = mem_drop_guard\<rparr>"

section \<open>The invariant\<close>

text \<open>What an event type's JSON promises (\<open>serde\<close>): what was written is read back.\<close>

definition decodes :: "'ev event_type \<Rightarrow> bool" where
  "decodes E \<longleftrightarrow> (\<forall>e j. ev_to_json E e = Inr j \<longrightarrow> ev_from_json E j = Some e)"

text \<open>\<open>N\<close> bounds the identifiers the process generates, which increase up to it.\<close>

definition projectable :: "(nat \<Rightarrow> uuid) \<Rightarrow> nat \<Rightarrow> 'ev event_type \<Rightarrow> ('ev, 'json) store_data \<Rightarrow> bool" where
  "projectable now_v7 N E data \<longleftrightarrow> decodes E \<and> clock_ok now_v7 N \<and> uuid_calls data \<le> N
     \<and> mem_inv E data \<and> log_inv now_v7 E data"

text \<open>The events of the log a filter selects.\<close>

definition log_events ::
  "(rstring \<Rightarrow> (rstring \<Rightarrow> bool) option) \<Rightarrow> 'ev event_type \<Rightarrow> ('ev, 'json) store_data \<Rightarrow> event_filter
     \<Rightarrow> ('ev \<times> stream_position) list" where
  "log_events glob_compile E data f =
     map (\<lambda>le. (the (ev_from_json E (le_event_data le)), StreamPosition (le_event_id le)))
       (filter (\<lambda>le. selects glob_compile (ev_type_name E) f (le_stream_id le) (le_event_type le)) (global_log data))"

lemma projectable_decodes:
  assumes "projectable now_v7 N E data" "le \<in> set (global_log data)"
  shows "\<exists>e. ev_from_json E (le_event_data le) = Some e"
proof -
  let ?sid = "StreamId (le_stream_id le)"
  have "le_event_data le \<in> set (map le_event_data (log_of_stream data ?sid))"
    using assms(2) by (auto simp: log_of_stream_def)
  then have "(Inr (le_event_data le) :: rstring + rstring) \<in> set (map Inr (map le_event_data (log_of_stream data ?sid)))"
    by auto
  moreover have "map Inr (map le_event_data (log_of_stream data ?sid)) = map (ev_to_json E) (mem_view data ?sid)"
    using assms(1) unfolding projectable_def log_inv_def by blast
  ultimately have "Inr (le_event_data le) \<in> set (map (ev_to_json E) (mem_view data ?sid))"
    by (simp only:)
  then obtain e where "ev_to_json E e = Inr (le_event_data le)" by auto
  then show ?thesis using assms(1) unfolding projectable_def decodes_def by blast
qed

lemma projectable_read:
  assumes "projectable now_v7 N E data"
  shows "mem_read_events glob_compile E data f pg
    = Inr (take (unat (page_limit pg)) (unseen (log_events glob_compile E data f) (after_position pg)))"
proof -
  let ?sel = "\<lambda>le. selects glob_compile (ev_type_name E) f (le_stream_id le) (le_event_type le)"
  let ?dec = "\<lambda>le. (the (ev_from_json E (le_event_data le)), StreamPosition (le_event_id le))"
  have decode: "List.map_filter (\<lambda>le. map_option (\<lambda>e. (e, StreamPosition (le_event_id le)))
      (ev_from_json E (le_event_data le))) les = map ?dec les"
    if "set les \<subseteq> set (global_log data)" for les
    using that
  proof (induction les)
    case (Cons le les)
    obtain e where "ev_from_json E (le_event_data le) = Some e"
      using projectable_decodes [OF assms, of le] Cons.prems by auto
    then show ?case using Cons by (simp add: map_filter_def)
  qed (simp add: map_filter_def)
  let ?page = "filter (\<lambda>le. after_cursor pg (le_event_id le) \<and> ?sel le) (global_log data)"
  have cursor: "map ?dec ?page = unseen (log_events glob_compile E data f) (after_position pg)"
    by (cases "after_position pg")
       (auto simp: unseen_def log_events_def after_cursor_def filter_map position_order comp_def
         intro!: arg_cong [where f = "map _"] filter_cong)
  have "set (take (unat (page_limit pg)) ?page) \<subseteq> set (global_log data)"
    by (auto dest: in_set_takeD)
  then show ?thesis
    using assms by (simp add: mem_read_events_def decode projectable_def mem_inv_def take_map cursor [symmetric])
qed

lemma projectable_increasing:
  "projectable now_v7 N E data \<Longrightarrow> sorted_wrt (<) (map snd (log_events glob_compile E data f))"
  by (auto simp: projectable_def log_inv_def log_events_def position_order sorted_wrt_map comp_def
      intro: sorted_wrt_filter)

lemma projectable_fields [simp]:
  "projectable now_v7 N E (data\<lparr>checkpoints := c\<rparr>) = projectable now_v7 N E data"
  "projectable now_v7 N E (data\<lparr>locks := l\<rparr>) = projectable now_v7 N E data"
  "log_events glob_compile E (data\<lparr>checkpoints := c\<rparr>) f = log_events glob_compile E data f"
  "log_events glob_compile E (data\<lparr>locks := l\<rparr>) f = log_events glob_compile E data f"
  by (simp_all add: projectable_def log_events_def mem_inv_def log_inv_def log_of_stream_def mem_view_def)

lemma projectable_alive: "projectable now_v7 N E data \<Longrightarrow> \<not> poisoned data"
  by (simp add: projectable_def mem_inv_def)

interpretation mem_reader: event_reader "mem_read_events glob_compile E" "projectable now_v7 N E" "log_events glob_compile E"
  by unfold_locales (simp_all add: projectable_read projectable_increasing)

interpretation mem_proj: projection_store "memory_backend show_read show_checkpoint show_lock glob_compile E"
  "projectable now_v7 N E" "log_events glob_compile E"
proof (unfold_locales, goal_cases)
  case (1 st f pg)
  then show ?case by (simp add: memory_backend_def projectable_read)
next
  case (2 st f)
  then show ?case by (rule projectable_increasing)
next
  case (3 st n p)
  then show ?case using projectable_alive [OF 3] by (simp add: memory_backend_def mem_save_checkpoint_def)
next
  case (4 st n)
  then show ?case using projectable_alive [OF 4] by (simp add: memory_backend_def mem_load_checkpoint_def)
next
  case (5 st n p m)
  then show ?case using projectable_alive [OF 5]
    by (simp add: memory_backend_def mem_load_checkpoint_def mem_save_checkpoint_def)
next
  case (6 st n p)
  then show ?case using projectable_alive [OF 6]
    by (simp add: memory_backend_def mem_save_checkpoint_def fun_eq_iff)
next
  case (7 st n r st')
  then show ?case using projectable_alive [OF 7(1)]
    by (auto simp: memory_backend_def mem_try_acquire_def mem_load_checkpoint_def fun_eq_iff split: if_splits)
next
  case (8 st g)
  then show ?case using projectable_alive [OF 8]
    by (auto simp: memory_backend_def mem_drop_guard_def mem_load_checkpoint_def fun_eq_iff)
qed

section \<open>Other writers\<close>

text \<open>
  The other tasks of the process append batches while the projection runs, as long as the clock's
  range lasts.
\<close>

definition writer :: "(nat \<Rightarrow> uuid) \<Rightarrow> nat \<Rightarrow> 'ev stream_writes \<Rightarrow> ('ev, 'json) store_data \<Rightarrow> ('ev, 'json) store_data" where
  "writer now_v7 N w data =
     (if uuid_calls data + length (entries w) \<le> N then snd (mem_append_events now_v7 data w) else data)"

definition writers ::
  "(nat \<Rightarrow> uuid) \<Rightarrow> nat \<Rightarrow> (nat \<Rightarrow> 'ev stream_writes list) \<Rightarrow> nat \<Rightarrow> ('ev, 'json) store_data \<Rightarrow> ('ev, 'json) store_data" where
  "writers now_v7 N sched t = fold (writer now_v7 N) (sched t)"

lemma push_entries_checkpoints: "checkpoints (fold (push_entry now_v7) es data) = checkpoints data"
  by (induction es arbitrary: data) (simp_all add: push_entry_def Let_def split: prod.splits)

lemma mem_append_keeps_checkpoints:
  "mem_load_checkpoint (snd (mem_append_events now_v7 data w)) n = mem_load_checkpoint data n"
proof -
  have "poisoned (fold (push_entry now_v7) es data) = poisoned data" for es
    by (induction es arbitrary: data) (simp_all add: push_entry_def Let_def split: prod.splits)
  then show ?thesis
    by (simp add: mem_append_events_def mem_load_checkpoint_def push_entries_checkpoints split: option.split)
qed

lemma writer_projectable:
  assumes "projectable now_v7 N E data" "good_batch (well_typed E) w"
  shows "projectable now_v7 N E (writer now_v7 N w data)"
    and "prefix (log_events glob_compile E data f) (log_events glob_compile E (writer now_v7 N w data) f)"
    and "mem_load_checkpoint (writer now_v7 N w data) n = mem_load_checkpoint data n"
proof -
  let ?d = "snd (mem_append_events now_v7 data w)"
  have inv: "mem_inv E data" "log_inv now_v7 E data" "decodes E" "clock_ok now_v7 N" "uuid_calls data \<le> N"
    using assms(1) by (simp_all add: projectable_def)
  have "mem_inv E ?d"
    using mem.append_extends [OF inv(1), of w] assms(2) by (simp add: memory_ops_def good_batch_def)
  moreover have "log_inv now_v7 E ?d" if "uuid_calls data + length (entries w) \<le> N"
    by (rule mem_append_log_inv [OF _ inv(2)])
       (use inv(4) that assms(2) in \<open>auto simp: clock_ok_def good_batch_def well_typed_def\<close>)
  moreover have "uuid_calls ?d \<le> uuid_calls data + length (entries w)" by (rule mem_append_calls)
  ultimately show "projectable now_v7 N E (writer now_v7 N w data)"
    using inv by (auto simp: projectable_def writer_def)
  obtain les where "global_log ?d = global_log data @ les" using mem_append_log_prefix by blast
  then show "prefix (log_events glob_compile E data f) (log_events glob_compile E (writer now_v7 N w data) f)"
    by (auto simp: writer_def log_events_def)
  show "mem_load_checkpoint (writer now_v7 N w data) n = mem_load_checkpoint data n"
    by (simp add: writer_def mem_append_keeps_checkpoints)
qed

lemma writers_projectable:
  assumes "projectable now_v7 N E data" "\<forall>w \<in> set ws. good_batch (well_typed E) w"
  shows "projectable now_v7 N E (fold (writer now_v7 N) ws data)
    \<and> mem_load_checkpoint (fold (writer now_v7 N) ws data) nm = mem_load_checkpoint data nm
    \<and> (\<forall>f. prefix (log_events glob_compile E data f) (log_events glob_compile E (fold (writer now_v7 N) ws data) f))"
  using assms
proof (induction ws arbitrary: data)
  case (Cons w ws)
  have "good_batch (well_typed E) w" using Cons.prems(2) by simp
  note w = writer_projectable [OF Cons.prems(1) this]
  show ?case
    using Cons.IH [OF w(1)] w(2,3) Cons.prems(2) by simp (metis prefix_order.trans)
qed simp

lemma writers_good_env:
  assumes "good_schedule (well_typed E) sched"
  shows "good_env (pb_load (memory_backend show_read show_checkpoint show_lock glob_compile E))
    (projectable now_v7 N E) (log_events glob_compile E) nm (writers now_v7 N sched)"
proof -
  have "\<forall>w \<in> set (sched t). good_batch (well_typed E) w" for t
    using assms by (simp add: good_schedule_def)
  note w = writers_projectable [OF _ this, where nm = nm]
  show ?thesis
    unfolding good_env_def only_appends_def writers_def
    by (simp add: memory_backend_def w)
qed

end
