(* ===== verification/Projection_Progress.thy ===== *)
theory Projection_Progress
  imports Memory_Projection
begin

text \<open>
  Safety of the projection runner over an arbitrary back end: the panics of the state machine are
  unreachable, a continuous run never ends in success, and the failure strategies.
\<close>

section \<open>Every effect is answered in a phase that expects it\<close>

definition awaits ::
  "('ev, 'p, 'ctx, 'err, 'f) projection \<times> projection_step \<Rightarrow> bool" where
  "awaits ps = (case ps of (p, s) \<Rightarrow> (case s of
       PPanic \<Rightarrow> False
     | PDone r \<Rightarrow> r = Inr () \<longrightarrow> pp_poll_mode p = Batch
     | PYield eff \<Rightarrow> (case eff of
           LoadCheckpoint n \<Rightarrow> pp_phase p = PhAwaitingCheckpoint
         | ReadEvents f pg \<Rightarrow> (\<exists>cp ctx k. pp_phase p = PhAwaitingEvents cp ctx k)
         | SaveCheckpoint n q \<Rightarrow>
             (\<exists>events i cp ctx. pp_phase p = PhAwaitingCheckpointSave events i cp ctx
                \<or> pp_phase p = PhAwaitingSkipCheckpointSave events i cp ctx)
         | SleepFor d \<Rightarrow>
             (\<exists>events i k cp ctx. pp_phase p = PhAwaitingEventRetrySleep events i k cp ctx)
             \<or> (\<exists>cp ctx k. pp_phase p = PhAwaitingPollFailureSleep cp ctx k)
             \<or> (\<exists>cp ctx. pp_phase p = PhAwaitingPollSleep cp ctx \<and> pp_poll_mode p = Continuous))))"

lemma awaits_simps:
  "awaits (p, PDone r) \<longleftrightarrow> r = Inr () \<longrightarrow> pp_poll_mode p = Batch"
  "awaits (p\<lparr>pp_phase := PhAwaitingCheckpointSave events i cp ctx\<rparr>, PYield (SaveCheckpoint n q))"
  "awaits (p\<lparr>pp_state := s, pp_phase := PhAwaitingCheckpointSave events i cp ctx\<rparr>, PYield (SaveCheckpoint n q))"
  "awaits (p\<lparr>pp_state := s, pp_phase := PhAwaitingSkipCheckpointSave events i cp ctx\<rparr>, PYield (SaveCheckpoint n q))"
  "awaits (p\<lparr>pp_state := s, pp_phase := PhAwaitingEventRetrySleep events i k cp ctx\<rparr>, PYield (SleepFor d))"
  "awaits (p\<lparr>pp_phase := PhAwaitingPollSleep cp ctx\<rparr>, PYield (SleepFor d)) \<longleftrightarrow> pp_poll_mode p = Continuous"
  by (auto simp: awaits_def)

lemma awaits_step_poll: "awaits (step_poll_events p cp ctx k)"
  by (simp add: awaits_def step_poll_events_def Let_def)

lemma step_processing_mode:
  "pp_poll_mode (fst (step_processing fd p events i rc cp ctx)) = pp_poll_mode p"
proof (induction fd p events i rc cp ctx rule: step_processing.induct)
  case (1 fd p events i rc cp ctx)
  show ?case
    unfolding step_processing.simps [of fd p]
    using 1 by (auto simp: Let_def split: prod.splits sum.splits failure_strategy.splits)
qed

lemma awaits_step_processing: "awaits (step_processing fd p events i rc cp ctx)"
proof (induction fd p events i rc cp ctx rule: step_processing.induct)
  case (1 fd p events i rc cp ctx)
  show ?case
    unfolding step_processing.simps [of fd p]
    using 1 poll_mode.exhaust [of "pp_poll_mode p"]
    by (auto simp: awaits_simps Let_def split: prod.splits sum.splits failure_strategy.splits)
qed

lemma presume_step_mode: "pp_poll_mode (fst (presume_step fd p r)) = pp_poll_mode p"
  by (cases "pp_phase p"; cases r)
     (auto simp: presume_step_def resume_checkpoint_def resume_events_def step_poll_events_def
       step_processing_mode Let_def split: sum.split)

lemma awaits_resume:
  assumes "awaits (p, PYield eff)" "dispatch be b eff st = (r, st')"
  shows "awaits (presume_step fd p r)"
proof (cases eff)
  case (LoadCheckpoint n)
  with assms obtain x where "pp_phase p = PhAwaitingCheckpoint" "r = CheckpointLoaded x"
    by (auto simp: awaits_def dispatch_def)
  then show ?thesis
    by (cases x) (simp_all add: presume_step_def resume_checkpoint_def awaits_step_poll awaits_def [of "(_, PDone _)"])
next
  case (ReadEvents f pg)
  with assms obtain x cp ctx k where "pp_phase p = PhAwaitingEvents cp ctx k" "r = EventsRead x"
    by (auto simp: awaits_def dispatch_def)
  then show ?thesis
    by (cases x) (auto simp: presume_step_def resume_events_def awaits_step_processing awaits_def [of "(_, PDone _)"]
        awaits_def [of "(_, PYield (SleepFor _))"])
next
  case (SaveCheckpoint n q)
  with assms show ?thesis
    by (auto simp: awaits_def [of "(p, _)"] presume_step_def awaits_step_processing)
next
  case (SleepFor d)
  with assms show ?thesis
    by (auto simp: awaits_def [of "(p, _)"] presume_step_def awaits_step_processing awaits_step_poll)
qed

lemma run_loop_safe:
  assumes "awaits ps" "run_loop fd be env fuel t ps st = Some (r, p', st', effs)"
  shows "r \<noteq> RunPanic \<and> (pp_poll_mode (fst ps) = Continuous \<longrightarrow> r \<noteq> RunDone (Inr ()))"
  using assms
proof (induction fuel arbitrary: t ps st effs)
  case (Suc fuel)
  obtain p s where ps: "ps = (p, s)" by (cases ps)
  show ?case
  proof (cases s)
    case (PYield eff)
    obtain result st1 where d: "dispatch be (pp_has_checkpoint_store p) eff (env t st) = (result, st1)"
      by (rule prod.exhaust)
    obtain effs' where rest: "run_loop fd be env fuel (Suc t) (presume_step fd p result) st1 = Some (r, p', st', effs')"
      using Suc.prems(2) d by (auto simp: ps PYield)
    have "awaits (presume_step fd p result)"
      by (rule awaits_resume [OF _ d]) (use Suc.prems(1) ps PYield in simp)
    from Suc.IH [OF this rest] show ?thesis by (simp add: ps presume_step_mode)
  qed (use Suc.prems in \<open>auto simp: ps awaits_def\<close>)
qed simp

lemma run_projection_safe:
  assumes "run_projection fd be env fuel pj s cfg st = Some (r, s', st', effs)"
  shows "r \<noteq> RunPanic \<and> (pc_continuous cfg \<longrightarrow> r \<noteq> RunDone (Inr ()))"
proof -
  let ?p = "projection_new pj s True (to_poll_mode cfg) (to_poll_config cfg) (to_event_retry_config cfg)"
  have "awaits (pstep fd ?p)" "pp_poll_mode (fst (pstep fd ?p)) = to_poll_mode cfg"
    by (simp_all add: pstep_def projection_new_def step_load_checkpoint_def awaits_def)
  note safe = run_loop_safe [OF this(1), unfolded this(2)]
  obtain a st0 where acq: "pb_acquire be (env 0 st) (pj_name pj) = (a, st0)" by (rule prod.exhaust)
  show ?thesis
  proof (cases a)
    case (Inr g)
    then obtain p' st1 where "run_loop fd be env fuel 1 (pstep fd ?p) st0 = Some (r, p', st1, effs)"
      using assms acq by (auto simp: run_projection_def)
    from safe [OF this] show ?thesis by (simp add: to_poll_mode_def)
  qed (use assms acq in \<open>auto simp: run_projection_def\<close>)
qed

section \<open>Failure strategies\<close>

lemma deliver_skip:
  assumes "\<And>s fc. fst (pj_on_error pj s fc) = Skip"
  shows "\<exists>s' ctx'. deliver pj limit k s event position ctx = Handled s' ctx'"
  using assms by (subst deliver.simps) (auto split: prod.splits sum.splits failure_strategy.splits,
    (metis failure_strategy.distinct fst_conv)+)

text \<open>
  The effects of a run, one by one. \<open>applied\<close> is what the projector and its context become over events
  whose application succeeds at once; \<open>failed_attempts\<close> what they become over failing applications of one
  event, each followed by \<open>on_error\<close> with the retries so far.
\<close>

definition applied ::
  "('ev, 'p, 'ctx, 'err) projector \<Rightarrow> ('ev \<times> stream_position) list \<Rightarrow> 'p \<times> 'ctx \<Rightarrow> 'p \<times> 'ctx" where
  "applied pj events sc = fold (\<lambda>(e, q) (s, ctx). snd (pj_apply pj s e q ctx)) events sc"

fun failed_attempts ::
  "('ev, 'p, 'ctx, 'err) projector \<Rightarrow> 'ev \<Rightarrow> stream_position \<Rightarrow> u32 list \<Rightarrow> 'p \<times> 'ctx \<Rightarrow> 'p \<times> 'ctx" where
  "failed_attempts pj event position [] sc = sc"
| "failed_attempts pj event position (k # ks) (s, ctx) =
     (case pj_apply pj s event position ctx of
        (r, s1, ctx1) \<Rightarrow> failed_attempts pj event position ks
          (snd (pj_on_error pj s1 \<lparr>fc_error = projl r, fc_position = position, fc_retry_count = k\<rparr>), ctx1))"

definition retry_sleeps :: "(nat \<Rightarrow> 'f \<Rightarrow> int \<Rightarrow> u64) \<Rightarrow> 'f event_retry_config \<Rightarrow> nat list \<Rightarrow> projection_effect list" where
  "retry_sleeps fd rc ns = map (\<lambda>n. SleepFor (event_retry_delay fd rc (of_nat n))) ns"

lemma applied_run:
  fixes be :: "('st, 'ev, 'guard) projection_backend"
  assumes "pp_has_checkpoint_store p" "pp_projector p = pj" "drop i events = before @ rest"
    and "\<And>e q s ctx. (e, q) \<in> set before \<Longrightarrow> \<exists>s' ctx'. pj_apply pj s e q ctx = (Inr (), s', ctx')"
  shows "\<exists>t' st' cp'. \<forall>fuel. run_loop fd be env (length before + fuel) t (step_processing fd p events i 0 cp ctx) st
    = prepend (map (\<lambda>(e, q). SaveCheckpoint (pj_name pj) q) before)
        (run_loop fd be env fuel t' (step_processing fd
          (p\<lparr>pp_state := fst (applied pj before (pp_state p, ctx))\<rparr>) events (i + length before) 0 cp'
          (snd (applied pj before (pp_state p, ctx)))) st')"
  using assms
proof (induction before arbitrary: i p ctx t st cp)
  case Nil
  then show ?case by (auto simp: applied_def)
next
  case (Cons ep before)
  obtain e q where ep: "ep = (e, q)" by (cases ep)
  have i: "i < length events" using Cons.prems(3) by (metis append_Cons drop_eq_Nil2 list.distinct(1) not_le)
  then have nth: "events ! i = (e, q)" "drop (Suc i) events = before @ rest"
    using Cons.prems(3) ep by (simp_all add: Cons_nth_drop_Suc [OF i, symmetric])
  obtain s1 ctx1 where ap: "pj_apply pj (pp_state p) e q ctx = (Inr (), s1, ctx1)"
    using Cons.prems(4) [of e q "pp_state p" ctx] ep by auto
  let ?p = "p\<lparr>pp_state := s1\<rparr>" and ?st = "snd (pb_save be (env t st) (pj_name pj) q)"
  have step: "run_loop fd be env (Suc fuel) t (step_processing fd p events i 0 cp ctx) st
      = prepend [SaveCheckpoint (pj_name pj) q] (run_loop fd be env fuel (Suc t)
          (step_processing fd ?p events (Suc i) 0 (Some q) ctx1) ?st)" for fuel
    using Cons.prems(1,2) i nth(1)
    by (subst step_processing.simps) (simp add: ap Let_def run_loop_yield dispatch_def presume_step_def
        step_processing_phase del: run_loop.simps split: prod.splits)
  let ?rest = "\<lambda>t' st' cp' fuel. run_loop fd be env fuel t' (step_processing fd
      (?p\<lparr>pp_state := fst (applied pj before (pp_state ?p, ctx1))\<rparr>) events (Suc i + length before) 0 cp'
      (snd (applied pj before (pp_state ?p, ctx1)))) st'"
  have "\<exists>t' st' cp'. \<forall>fuel. run_loop fd be env (length before + fuel) (Suc t)
        (step_processing fd ?p events (Suc i) 0 (Some q) ctx1) ?st
    = prepend (map (\<lambda>(e, q). SaveCheckpoint (pj_name pj) q) before) (?rest t' st' cp' fuel)"
    by (rule Cons.IH) (use Cons.prems nth(2) in auto)
  then obtain t' st' cp' where rest: "\<And>fuel. run_loop fd be env (length before + fuel) (Suc t)
        (step_processing fd ?p events (Suc i) 0 (Some q) ctx1) ?st
    = prepend (map (\<lambda>(e, q). SaveCheckpoint (pj_name pj) q) before) (?rest t' st' cp' fuel)" by blast
  have state: "applied pj (ep # before) (pp_state p, ctx) = applied pj before (s1, ctx1)"
    by (simp add: ep ap applied_def)
  have "run_loop fd be env (length (ep # before) + fuel) t (step_processing fd p events i 0 cp ctx) st
    = prepend (map (\<lambda>(e, q). SaveCheckpoint (pj_name pj) q) (ep # before)) (?rest t' st' cp' fuel)" for fuel
    unfolding list.size(4) add_Suc add_0_right add_Suc_right step rest prepend_simps(2)
    by (simp add: ep del: run_loop.simps)
  then show ?case unfolding state by (intro exI [of _ t'] exI [of _ st'] exI [of _ cp'] allI)
    (simp del: run_loop.simps)
qed

lemma poison_run:
  fixes be :: "('st, 'ev, 'guard) projection_backend"
  assumes "pp_has_checkpoint_store p" "pp_projector p = pj" "max_retry_attempts_of (pp_event_retry_config p) = limit"
    and "i < length events" "events ! i = (event, position)"
    and "\<And>s ctx. \<exists>err s' ctx'. pj_apply pj s event position ctx = (Inl err, s', ctx')"
    and "\<And>s fc. fst (pj_on_error pj s fc) = Retry" "k \<le> limit" "unat limit - unat k < fuel"
  shows "\<exists>p' st'. run_loop fd be env fuel t (step_processing fd p events i k cp ctx) st
      = Some (RunDone (Inl (Failed (lit ''projector apply failed after max retries''))), p', st',
          retry_sleeps fd (pp_event_retry_config p) [Suc (unat k)..<Suc (unat limit)])
    \<and> pp_state p' = fst (failed_attempts pj event position (map of_nat [unat k..<Suc (unat limit)]) (pp_state p, ctx))"
  using assms(1,2,3,8,9)
proof (induction "unat limit - unat k" arbitrary: k p ctx t st fuel)
  case 0
  then have "limit \<le> k" by (simp add: word_le_nat_alt)
  then have le: "limit = k" using "0.prems"(4) by simp
  obtain err s1 ctx1 where a: "pj_apply pj (pp_state p) event position ctx = (Inl err, s1, ctx1)"
    using assms(6) by blast
  obtain s2 where o: "pj_on_error pj s1 \<lparr>fc_error = err, fc_position = position, fc_retry_count = k\<rparr> = (Retry, s2)"
    using assms(7) by (metis prod.collapse)
  obtain fuel' where f: "fuel = Suc fuel'" using "0.prems"(5) by (cases fuel) auto
  show ?case
    using "0.prems" assms(4,5) a o unfolding f le
    by (subst step_processing.simps) (simp add: retry_sleeps_def)
next
  case (Suc d)
  have less: "k < limit" using Suc.hyps(2) by (simp add: word_less_nat_alt)
  have Su: "unat (k + 1) = Suc (unat k)" by (rule word_less_Suc_unat [OF less])
  obtain err s1 ctx1 where a: "pj_apply pj (pp_state p) event position ctx = (Inl err, s1, ctx1)"
    using assms(6) by blast
  obtain s2 where o: "pj_on_error pj s1 \<lparr>fc_error = err, fc_position = position, fc_retry_count = k\<rparr> = (Retry, s2)"
    using assms(7) by (metis prod.collapse)
  obtain fuel' where f: "fuel = Suc fuel'" "unat limit - unat (k + 1) < fuel'"
    using Suc.prems(5) Su Suc.hyps(2) by (cases fuel) auto
  let ?p = "p\<lparr>pp_state := s2\<rparr>" and ?rc = "pp_event_retry_config p"
  have step: "run_loop fd be env fuel t (step_processing fd p events i k cp ctx) st
      = prepend [SleepFor (event_retry_delay fd ?rc (k + 1))] (run_loop fd be env fuel' (Suc t)
          (step_processing fd ?p events i (k + 1) cp ctx1) (env t st))"
    using Suc.prems(1-3) assms(4,5) less unfolding f(1)
    by (subst step_processing.simps) (simp add: a o Let_def not_le [symmetric] run_loop_yield dispatch_def
        presume_step_def step_processing_phase del: run_loop.simps split: prod.splits)
  have d: "d = unat limit - unat (k + 1)" using Suc.hyps(2) Su by simp
  have "\<exists>p' st'. run_loop fd be env fuel' (Suc t) (step_processing fd ?p events i (k + 1) cp ctx1) (env t st)
      = Some (RunDone (Inl (Failed (lit ''projector apply failed after max retries''))), p', st',
          retry_sleeps fd (pp_event_retry_config ?p) [Suc (unat (k + 1))..<Suc (unat limit)])
    \<and> pp_state p' = fst (failed_attempts pj event position (map of_nat [unat (k + 1)..<Suc (unat limit)]) (pp_state ?p, ctx1))"
    by (rule Suc.hyps(1) [OF d]) (use Suc.prems f(2) less in \<open>simp_all add: inc_le\<close>)
  then obtain p' st' where r: "run_loop fd be env fuel' (Suc t) (step_processing fd ?p events i (k + 1) cp ctx1) (env t st)
      = Some (RunDone (Inl (Failed (lit ''projector apply failed after max retries''))), p', st',
          retry_sleeps fd ?rc [Suc (Suc (unat k))..<Suc (unat limit)])"
    "pp_state p' = fst (failed_attempts pj event position (map of_nat [Suc (unat k)..<Suc (unat limit)]) (s2, ctx1))"
    unfolding Su by auto
  have less': "unat k < unat limit" using less by (simp add: word_less_nat_alt)
  have n: "of_nat (Suc (unat k)) = k + 1" by (simp add: Su [symmetric] del: of_nat_Suc)
  have sleeps: "retry_sleeps fd ?rc [Suc (unat k)..<Suc (unat limit)]
      = SleepFor (event_retry_delay fd ?rc (k + 1)) # retry_sleeps fd ?rc [Suc (Suc (unat k))..<Suc (unat limit)]"
    unfolding retry_sleeps_def n [symmetric] using less' by (simp only: upt_conv_Cons Suc_less_eq list.map)
  have attempts: "failed_attempts pj event position (map of_nat [unat k..<Suc (unat limit)]) (pp_state p, ctx)
      = failed_attempts pj event position (map of_nat [Suc (unat k)..<Suc (unat limit)]) (s2, ctx1)"
    using less' a o by (simp add: upt_conv_Cons del: upt_Suc)
  show ?case unfolding step r(1) sleeps attempts using r(2) by simp
qed

text \<open>
  Progress of batch runs: over a back end whose leadership is given to a free subscription and free
  again after its guard is dropped, enough runs of a projector that stops at no event deliver every
  event that was waiting when the first one began.
\<close>

section \<open>The contract\<close>

locale leading_store = projection_store be pinv chosen
  for be :: "('st, 'ev, 'guard) projection_backend" and pinv :: "'st \<Rightarrow> bool"
    and chosen :: "'st \<Rightarrow> event_filter \<Rightarrow> ('ev \<times> stream_position) list" +
  fixes free :: "'st \<Rightarrow> rstring \<Rightarrow> bool" and guards :: "'guard \<Rightarrow> rstring"
  assumes acquire_free: "pinv st \<Longrightarrow> free st n \<Longrightarrow> \<exists>g st'. pb_acquire be st n = (Inr g, st')"
    and acquire_guards: "pinv st \<Longrightarrow> pb_acquire be st n = (Inr g, st') \<Longrightarrow> guards g = n"
    and release_free: "pinv st \<Longrightarrow> free (pb_release be st g) (guards g)"

text \<open>The other tasks leave the leadership of the projection free.\<close>

definition keeps_free :: "('st \<Rightarrow> bool) \<Rightarrow> ('st \<Rightarrow> rstring \<Rightarrow> bool) \<Rightarrow> rstring \<Rightarrow> (nat \<Rightarrow> 'st \<Rightarrow> 'st) \<Rightarrow> bool" where
  "keeps_free pinv free nm env \<longleftrightarrow> (\<forall>t st. pinv st \<longrightarrow> free st nm \<longrightarrow> free (env t st) nm)"

text \<open>
  No event stops the projector while its state is one of \<open>fine\<close>, and it stays there: within \<open>limit\<close> retries
  either an application succeeds or \<open>on_error\<close> skips the event. A projector that always skips is such a
  one, and one whose applications succeed, whatever its strategy, and one that recovers when it retries.
\<close>

definition tolerant :: "('ev, 'p, 'ctx, 'err) projector \<Rightarrow> u32 \<Rightarrow> ('p \<Rightarrow> bool) \<Rightarrow> bool" where
  "tolerant pj limit fine \<longleftrightarrow> (\<forall>s event position ctx. fine s \<longrightarrow>
     (\<exists>s' ctx'. deliver pj limit 0 s event position ctx = Handled s' ctx' \<and> fine s'))"

lemma skips_tolerant: "(\<And>s fc. fst (pj_on_error pj s fc) = Skip) \<Longrightarrow> tolerant pj limit (\<lambda>_. True)"
  unfolding tolerant_def by (intro allI impI) (simp add: deliver_skip)

lemma applies_tolerant:
  assumes "\<And>s e q ctx. fine s \<Longrightarrow> \<exists>s' ctx'. pj_apply pj s e q ctx = (Inr (), s', ctx') \<and> fine s'"
  shows "tolerant pj limit fine"
  unfolding tolerant_def
proof (intro allI impI)
  fix s e q ctx assume "fine s"
  then obtain s' ctx' where "pj_apply pj s e q ctx = (Inr (), s', ctx')" "fine s'" using assms by blast
  then show "\<exists>s' ctx'. deliver pj limit 0 s e q ctx = Handled s' ctx' \<and> fine s'"
    by (subst deliver.simps) simp
qed

lemma deliver_all_tolerant:
  assumes "tolerant pj limit fine" "fine s"
  shows "\<exists>s'. deliver_all pj limit s ctx events = (length events, s', None)"
  using assms(2)
proof (induction events arbitrary: s ctx)
  case (Cons ep events)
  obtain e q where ep: "ep = (e, q)" by (cases ep)
  obtain s' ctx' where "deliver pj limit 0 s e q ctx = Handled s' ctx'" "fine s'"
    using assms(1) Cons.prems unfolding tolerant_def by blast
  moreover obtain s'' where "deliver_all pj limit s' ctx' events = (length events, s'', None)"
    using Cons.IH [OF \<open>fine s'\<close>] by blast
  ultimately show ?case by (simp add: ep)
qed simp

context leading_store
begin

lemma batch_runs_progress:
  assumes "\<forall>(s, env) \<in> set runs. fine s \<and> good_env (pb_load be) pinv chosen (pj_name pj) env
      \<and> keeps_free pinv free (pj_name pj) env"
    and "pinv st" "free st (pj_name pj)" "tolerant pj (pc_event_retry_max_attempts cfg) fine" "\<not> pc_continuous cfg"
    and "unat page_size * (unat (pc_event_retry_max_attempts cfg) + 1) + 2 < fuel"
    and "pb_load be st (pj_name pj) = Inr cp"
  shows "\<exists>ps st'. batch_runs fd be fuel pj cfg runs st = Some (ps, st')
    \<and> min (unat page_size * length runs) (length (unseen (chosen st (own_events pj)) cp)) \<le> length ps"
  using assms(1,2,3,7)
proof (induction runs arbitrary: st cp)
  case (Cons sr runs)
  let ?F = "own_events pj" and ?nm = "pj_name pj"
  obtain s env where sr: "sr = (s, env)" by (cases sr)
  have env: "good_env (pb_load be) pinv chosen ?nm env" "keeps_free pinv free ?nm env" and fine: "fine s"
    using Cons.prems(1) sr by simp_all
  have e0: "pinv (env 0 st)" "free (env 0 st) ?nm"
    using env Cons.prems(2,3) by (auto simp: good_env_def only_appends_def keeps_free_def)
  obtain r s' st1 effs where run: "run_projection fd be env fuel pj s cfg st = Some (r, s', st1, effs)"
    and st1: "pinv st1" "prefix (chosen st ?F) (chosen st1 ?F)"
      "pb_load be st1 ?nm = Inr (checkpoint_after cp (saves effs))"
      "prefix (saves effs) (map snd (unseen (chosen st1 ?F) cp))"
    and led: "(\<exists>e st0. pb_acquire be (env 0 st) ?nm = (Inl e, st0))
      \<or> (\<exists>g st0 st2 st3. pb_acquire be (env 0 st) ?nm = (Inr g, st0) \<and> pinv st3 \<and> st1 = pb_release be st3 g
          \<and> prefix (chosen st ?F) (chosen st2 ?F)
          \<and> saves effs = (let page = take (unat page_size) (unseen (chosen st2 ?F) cp)
              in map snd (take (fst (deliver_all pj (pc_event_retry_max_attempts cfg) s (pj_default_context pj) page)) page)))"
    by (rule batch_run_saves [OF env(1) Cons.prems(2) assms(5,6) Cons.prems(4), where fd = fd and s = s])
  obtain g st0 st2 st3 where g: "pb_acquire be (env 0 st) ?nm = (Inr g, st0)" "pinv st3" "st1 = pb_release be st3 g"
    "prefix (chosen st ?F) (chosen st2 ?F)"
    and saved: "saves effs = (let page = take (unat page_size) (unseen (chosen st2 ?F) cp)
        in map snd (take (fst (deliver_all pj (pc_event_retry_max_attempts cfg) s (pj_default_context pj) page)) page))"
    using led acquire_free [OF e0] by auto
  have free1: "free st1 ?nm" using release_free [OF g(2), of g] acquire_guards [OF e0(1) g(1)] g(3) by simp
  have "saves effs = map snd (take (unat page_size) (unseen (chosen st2 ?F) cp))"
    using deliver_all_tolerant [OF assms(4) fine, of "pj_default_context pj"
        "take (unat page_size) (unseen (chosen st2 ?F) cp)"]
    by (auto simp: saved Let_def min_def)
  then have page: "min (unat page_size) (length (unseen (chosen st ?F) cp)) \<le> length (saves effs)"
    using prefix_length_le [OF unseen_prefix [OF g(4), of cp]] by simp
  obtain ps st' where runs: "batch_runs fd be fuel pj cfg runs st1 = Some (ps, st')"
    and ps: "min (unat page_size * length runs) (length (unseen (chosen st1 ?F) (checkpoint_after cp (saves effs)))) \<le> length ps"
    using Cons.IH [OF _ st1(1) free1 st1(3)] Cons.prems(1) by auto
  have "unseen (chosen st1 ?F) (checkpoint_after cp (saves effs)) = drop (length (saves effs)) (unseen (chosen st1 ?F) cp)"
    by (rule unseen_checkpoint [OF increasing [OF st1(1)] st1(4)])
  then have "length (unseen (chosen st ?F) cp) - length (saves effs)
      \<le> length (unseen (chosen st1 ?F) (checkpoint_after cp (saves effs)))"
    using prefix_length_le [OF unseen_prefix [OF st1(2), of cp]] by simp
  then have "min (unat page_size * length (sr # runs)) (length (unseen (chosen st ?F) cp)) \<le> length (saves effs @ ps)"
    using page ps by simp
  then show ?case using run runs by (auto simp: sr)
qed simp

end

section \<open>The in-memory store\<close>

definition mem_free :: "('ev, 'json) store_data \<Rightarrow> rstring \<Rightarrow> bool" where
  "mem_free d n \<longleftrightarrow> \<not> locks_poisoned d \<and> \<not> hm_contains (locks d) n"

definition mem_alive :: "(nat \<Rightarrow> uuid) \<Rightarrow> nat \<Rightarrow> 'ev event_type \<Rightarrow> ('ev, 'json) store_data \<Rightarrow> bool" where
  "mem_alive now_v7 N E d \<longleftrightarrow> projectable now_v7 N E d \<and> \<not> locks_poisoned d"

interpretation mem_lead: leading_store "memory_backend show_read show_checkpoint show_lock glob_compile E"
  "mem_alive now_v7 N E" "log_events glob_compile E" mem_free guard_name
proof (unfold_locales, goal_cases)
  case (1 st f pg)
  then show ?case by (simp add: mem_alive_def mem_proj.read_page [where ?now_v7.0 = now_v7 and N = N])
next
  case (2 st f)
  then show ?case by (auto simp: mem_alive_def intro: projectable_increasing)
next
  case (3 st n p)
  then show ?case using mem_proj.cp.save_ok [where st = st and n = n and p = p and ?now_v7.0 = now_v7 and N = N]
    by (auto simp: mem_alive_def memory_backend_def mem_save_checkpoint_def split: if_splits)
next
  case (4 st n)
  then show ?case using mem_proj.cp.load_ok [where st = st and n = n and ?now_v7.0 = now_v7 and N = N]
    by (simp add: mem_alive_def)
next
  case (5 st n p m)
  then show ?case
    using mem_proj.cp.load_save [where st = st and n = n and p = p and m = m and ?now_v7.0 = now_v7 and N = N]
    by (simp add: mem_alive_def)
next
  case (6 st n p)
  then show ?case
    using mem_proj.save_chosen [where st = st and n = n and p = p and ?now_v7.0 = now_v7 and N = N] by (simp add: mem_alive_def)
next
  case (7 st n r st')
  then show ?case
    using mem_proj.acquire_keeps [where st = st and n = n and r = r and st' = st' and ?now_v7.0 = now_v7 and N = N]
    by (auto simp: mem_alive_def memory_backend_def mem_try_acquire_def split: if_splits)
next
  case (8 st g)
  then show ?case using mem_proj.release_keeps [where st = st and g = g and ?now_v7.0 = now_v7 and N = N]
    by (auto simp: mem_alive_def memory_backend_def mem_drop_guard_def)
next
  case (9 st n)
  then show ?case using projectable_alive [of now_v7 N E st]
    by (simp add: mem_alive_def mem_free_def memory_backend_def mem_try_acquire_def)
next
  case (10 st n g st')
  then show ?case by (auto simp: memory_backend_def mem_try_acquire_def split: if_splits)
next
  case (11 st g)
  then show ?case
    by (cases g) (simp add: mem_alive_def mem_free_def memory_backend_def mem_drop_guard_def hm_contains_def)
qed

lemma push_entries_locks:
  "locks (fold (push_entry now_v7) es data) = locks data"
  "locks_poisoned (fold (push_entry now_v7) es data) = locks_poisoned data"
  by (induction es arbitrary: data) (simp_all add: push_entry_def Let_def split: prod.splits)

lemma writers_locks:
  "locks (writers now_v7 N sched t data) = locks data"
  "locks_poisoned (writers now_v7 N sched t data) = locks_poisoned data"
proof -
  have w: "locks (writer now_v7 N w d) = locks d" "locks_poisoned (writer now_v7 N w d) = locks_poisoned d" for w d
    by (simp_all add: writer_def mem_append_events_def push_entries_locks split: option.split)
  have "locks (fold (writer now_v7 N) ws d) = locks d \<and> locks_poisoned (fold (writer now_v7 N) ws d) = locks_poisoned d" for ws d
    by (induction ws arbitrary: d) (simp_all add: w)
  then show "locks (writers now_v7 N sched t data) = locks data"
    "locks_poisoned (writers now_v7 N sched t data) = locks_poisoned data"
    unfolding writers_def by blast+
qed

lemma writers_alive:
  assumes "good_schedule (well_typed E) sched"
  shows "good_env (pb_load (memory_backend show_read show_checkpoint show_lock glob_compile E))
      (mem_alive now_v7 N E) (log_events glob_compile E) nm (writers now_v7 N sched)"
    and "keeps_free (mem_alive now_v7 N E) mem_free nm (writers now_v7 N sched)"
  using writers_good_env [OF assms, where ?now_v7.0 = now_v7 and N = N and nm = nm and show_read = show_read
      and show_checkpoint = show_checkpoint and show_lock = show_lock and glob_compile = glob_compile]
  by (auto simp: good_env_def only_appends_def keeps_free_def mem_alive_def mem_free_def writers_locks)

text \<open>Enough runs save every position that was waiting.\<close>

lemma saves_reach:
  assumes "prefix ps ys" "prefix xs ys" "length xs \<le> length ps"
  shows "prefix xs ps"
  using assms by (meson prefix_length_prefix)

end
