(* ===== verification/Sample_Projection.thy ===== *)
theory Sample_Projection
  imports Projection_Progress Sample_Command
begin

text \<open>
  The concrete input of the projection witnesses: three deposits in the log of the in-memory store and
  a projector that collects their amounts, refuses large ones, and treats a refusal by a given
  strategy.
\<close>

definition three_deposits :: "deposit stream_writes" where
  "three_deposits = \<lparr>entries = map deposit_entry [(account_a, 7), (account_a, 500), (account_a, 3)],
     expected_versions = [(account_a, 0)]\<rparr>"

definition sample_log :: "(deposit, nat) store_data" where
  "sample_log = snd (mem_append_events sample_clock memory_new three_deposits)"

definition collector :: "failure_strategy \<Rightarrow> (deposit, nat list, unit, unit) projector" where
  "collector strategy = \<lparr>pj_name = [112], pj_event_type = [68],
     pj_apply = (\<lambda>s e q ctx. if snd e < 100 then (Inr (), s @ [snd e], ctx) else (Inl (), s, ctx)),
     pj_on_error = (\<lambda>s fc. (strategy, s)), pj_default_context = ()\<rparr>"

text \<open>A projector that refuses a large amount once: it notes a zero and asks for a retry, which succeeds.\<close>

definition recovering :: "(deposit, nat list, unit, unit) projector" where
  "recovering = (collector Retry)\<lparr>pj_apply := \<lambda>s e q ctx.
     if snd e < 100 \<or> (s \<noteq> [] \<and> last s = 0) then (Inr (), s @ [snd e], ctx) else (Inl (), s @ [0], ctx)\<rparr>"

lemma recovering_tolerant: "tolerant recovering 3 (\<lambda>_. True)"
  unfolding tolerant_def
proof (intro allI impI)
  fix s e q ctx
  have again: "\<exists>s' ctx'. deliver recovering 3 1 (s @ [0]) e q () = Handled s' ctx'"
    by (subst deliver.simps) (simp add: recovering_def)
  show "\<exists>s' ctx'. deliver recovering 3 0 s e q ctx = Handled s' ctx' \<and> True"
    using again by (subst deliver.simps) (auto simp: recovering_def collector_def)
qed

definition sample_backend :: "((deposit, nat) store_data, deposit, memory_guard) projection_backend" where
  "sample_backend = memory_backend (\<lambda>_. []) (\<lambda>_. []) (\<lambda>_. [104]) (\<lambda>_. None) deposit_event"

definition sample_config :: "unit projection_config" where
  "sample_config = projection_config_default ()"

definition sample_delay :: "nat \<Rightarrow> unit \<Rightarrow> int \<Rightarrow> u64" where
  "sample_delay base multiplier n = of_nat base"

lemma deposit_decodes: "decodes deposit_event"
  by (auto simp: decodes_def deposit_event_def)

lemma three_deposits_good: "good_batch (well_typed deposit_event) three_deposits"
  by (auto simp: good_batch_def wf_writes_def well_typed_def typed_entry_def three_deposits_def sample_defs)

lemma sample_clock_ok: "clock_ok sample_clock 1000"
proof -
  have "(of_nat i :: uuid) < of_nat (Suc i)" if "i < 1000" for i
  proof -
    have "unat (of_nat k :: uuid) = k" if "k \<le> 1000" for k
      using that by (simp add: unat_of_nat)
    then show ?thesis using that unfolding word_less_nat_alt by (metis Suc_leI lessI less_imp_le)
  qed
  then show ?thesis unfolding clock_ok_def sample_clock_def by simp
qed

lemma sample_log_fields:
  "global_log sample_log = map (\<lambda>(i, n). \<lparr>le_event_id = sample_clock i, le_stream_id = [97], le_event_type = [68],
     le_event_data = [n, 97]\<rparr>) [(0, 7), (1, 500), (2, 3)]"
  "checkpoints sample_log = []" "locks sample_log = []" "uuid_calls sample_log = 3"
  "poisoned sample_log = False" "locks_poisoned sample_log = False"
  unfolding sample_log_def three_deposits_def deposit_entry_def account_a_def by code_simp+

lemma sample_log_projectable: "projectable sample_clock 1000 deposit_event sample_log"
proof -
  have "projectable sample_clock 1000 deposit_event (memory_new :: (deposit, nat) store_data)"
    by (simp add: projectable_def deposit_decodes sample_clock_ok mem_inv_new log_inv_new)
      (simp add: memory_new_def)
  from writer_projectable(1) [OF this three_deposits_good] show ?thesis
    by (simp add: writer_def sample_log_def memory_new_def three_deposits_def)
qed

lemma sample_log_events:
  "log_events (\<lambda>_. None) deposit_event sample_log (own_events (collector strategy))
     = [((account_a, 7), StreamPosition 0), ((account_a, 500), StreamPosition 1), ((account_a, 3), StreamPosition 2)]"
  by (simp add: log_events_def sample_log_fields own_events_def collector_def with_event_type_def filter_all_def
      selects_def deposit_event_def account_a_def sample_clock_def)

text \<open>The first calls of a batch run over the log of the three deposits.\<close>

lemma sample_steps:
  "pb_acquire sample_backend sample_log (pj_name (collector strategy))
    = (Inr (MemoryGuard [112]), sample_log\<lparr>locks := [([112], ())]\<rparr>)"
  "pb_load sample_backend (sample_log\<lparr>locks := ls\<rparr>) n = Inr None"
  by (simp_all add: sample_backend_def memory_backend_def mem_try_acquire_def sample_log_fields collector_def
      hm_contains_def hm_insert_def mem_load_checkpoint_def)

lemma sample_page:
  "pb_read sample_backend (sample_log\<lparr>locks := ls\<rparr>) (with_event_type filter_all (pj_event_type (collector strategy)))
      \<lparr>after_position = None, page_limit = 1000\<rparr>
    = Inr [((account_a, 7), StreamPosition 0), ((account_a, 500), StreamPosition 1), ((account_a, 3), StreamPosition 2)]"
proof -
  have "projectable sample_clock 1000 deposit_event (sample_log\<lparr>locks := ls\<rparr>)"
    using sample_log_projectable by simp
  from projectable_read [OF this] show ?thesis
    using sample_log_events [of strategy, unfolded own_events_def]
    by (simp add: sample_backend_def memory_backend_def unseen_def)
qed

lemma sample_config_fields: "\<not> pc_continuous sample_config" "pc_event_retry_max_attempts sample_config = 3"
  by (simp_all add: sample_config_def projection_config_default_def event_retry_config_default_def Let_def)

end
