(* ===== verification/Projection_Properties.thy ===== *)
theory Projection_Properties
  imports Sample_Projection
begin

text \<open>
  The properties of the projection runner, over an arbitrary back end where they hold for one and over
  the in-memory store where they rest on the contract of the reader and the checkpoint store.
\<close>

section \<open>Delivery\<close>

text \<open>
  C11. Checkpointing loses and repeats nothing: any number of batch runs of a projector on the
  in-memory store, however each of them ends and whatever the other tasks append between their steps,
  saves the positions of a prefix of the events that were waiting after the first checkpoint, in log
  order, each once; the checkpoint in the store is the last of them; and every run returns.
\<close>

theorem projection_resumes:
  assumes "projectable now_v7 N E st" and "\<forall>(s, sched) \<in> set runs. good_schedule (well_typed E) sched"
    and "\<not> pc_continuous cfg" and "1000 * (unat (pc_event_retry_max_attempts cfg) + 1) + 2 < fuel"
    and "mem_load_checkpoint st (pj_name pj) = Inr cp"
  shows "\<exists>ps st'. batch_runs fd (memory_backend show_read show_checkpoint show_lock glob_compile E) fuel pj cfg
        (map (\<lambda>(s, sched). (s, writers now_v7 N sched)) runs) st = Some (ps, st')
    \<and> mem_load_checkpoint st' (pj_name pj) = Inr (if ps = [] then cp else Some (last ps))
    \<and> prefix ps (map snd (unseen (log_events glob_compile E st' (own_events pj)) cp))"
proof -
  let ?be = "memory_backend show_read show_checkpoint show_lock glob_compile E"
  have env: "\<forall>(s, env) \<in> set (map (\<lambda>(s, sched). (s, writers now_v7 N sched)) runs).
      good_env (pb_load ?be) (projectable now_v7 N E) (log_events glob_compile E) (pj_name pj) env"
    using assms(2) by (auto intro: writers_good_env)
  have fuel: "unat page_size * (unat (pc_event_retry_max_attempts cfg) + 1) + 2 < fuel"
    using assms(4) by (simp add: page_size_def)
  have cp: "pb_load ?be st (pj_name pj) = Inr cp" using assms(5) by (simp add: memory_backend_def)
  obtain ps st' where run: "batch_runs fd ?be fuel pj cfg (map (\<lambda>(s, sched). (s, writers now_v7 N sched)) runs) st
      = Some (ps, st')" and st': "projectable now_v7 N E st'"
      "pb_load ?be st' (pj_name pj) = Inr (checkpoint_after cp ps)"
      "prefix ps (map snd (unseen (log_events glob_compile E st' (own_events pj)) cp))"
    using mem_proj.batch_runs_resume [OF env assms(1,3) fuel cp, where fd = fd] by blast
  have "mem_load_checkpoint st' (pj_name pj) = Inr (checkpoint_after cp ps)"
    using st'(2) projectable_alive [OF st'(1)] by (simp add: memory_backend_def mem_load_checkpoint_def)
  then show ?thesis using run st'(3) by (simp add: checkpoint_after_def)
qed

theorem projection_resumes_witness:
  "\<exists>ps st'. batch_runs sample_delay sample_backend 5000 (collector Fatal) sample_config
       (map (\<lambda>(s, sched). (s, writers sample_clock 1000 sched)) [([], rival_schedule), ([], \<lambda>_. [])]) sample_log
     = Some (ps, st')
     \<and> mem_load_checkpoint st' [112] = Inr (if ps = [] then None else Some (last ps))"
proof -
  have runs: "\<forall>(s, sched) \<in> set [([] :: nat list, rival_schedule), ([], \<lambda>_. [])].
      good_schedule (well_typed deposit_event) sched"
    using rival_good by (simp add: good_schedule_def)
  have cp: "mem_load_checkpoint sample_log (pj_name (collector Fatal)) = Inr None"
    by (simp add: mem_load_checkpoint_def sample_log_fields)
  have cfg: "\<not> pc_continuous sample_config" "1000 * (unat (pc_event_retry_max_attempts sample_config) + 1) + 2 < 5000"
    by (simp_all add: sample_config_def projection_config_default_def event_retry_config_default_def Let_def)
  from projection_resumes [OF sample_log_projectable runs cfg cp, where fd = sample_delay
      and show_read = "\<lambda>_. []" and show_checkpoint = "\<lambda>_. []" and show_lock = "\<lambda>_. [104]" and glob_compile = "\<lambda>_. None"]
  show ?thesis by (auto simp: sample_backend_def collector_def)
qed

text \<open>
  C23. Progress: when the leadership is free, no event stops the projector (within the configured
  retries \<open>apply\<close> succeeds or \<open>on_error\<close> skips, in every state that the projector gets into) and no clock
  runs out, as many batch runs as there are pages of waiting events deliver, whatever the other tasks
  append meanwhile, every event that was waiting when the first run began: its position is among the
  saved checkpoints, in order.
\<close>

theorem projection_catches_up:
  assumes "mem_alive now_v7 N E st" "mem_free st (pj_name pj)"
    and "tolerant pj (pc_event_retry_max_attempts cfg) fine"
    and "\<forall>(s, sched) \<in> set runs. fine s \<and> good_schedule (well_typed E) sched"
    and "\<not> pc_continuous cfg" and "1000 * (unat (pc_event_retry_max_attempts cfg) + 1) + 2 < fuel"
    and "mem_load_checkpoint st (pj_name pj) = Inr cp"
    and "length (unseen (log_events glob_compile E st (own_events pj)) cp) \<le> 1000 * length runs"
  shows "\<exists>ps st'. batch_runs fd (memory_backend show_read show_checkpoint show_lock glob_compile E) fuel pj cfg
        (map (\<lambda>(s, sched). (s, writers now_v7 N sched)) runs) st = Some (ps, st')
    \<and> prefix (map snd (unseen (log_events glob_compile E st (own_events pj)) cp)) ps"
proof -
  let ?be = "memory_backend show_read show_checkpoint show_lock glob_compile E"
  let ?runs = "map (\<lambda>(s, sched). (s, writers now_v7 N sched)) runs" and ?view = "\<lambda>d. log_events glob_compile E d (own_events pj)"
  have env: "\<forall>(s, env) \<in> set ?runs. fine s \<and> good_env (pb_load ?be) (mem_alive now_v7 N E) (log_events glob_compile E) (pj_name pj) env
      \<and> keeps_free (mem_alive now_v7 N E) mem_free (pj_name pj) env"
    using assms(4) by (auto intro: writers_alive)
  then have good: "\<forall>(s, env) \<in> set ?runs. good_env (pb_load ?be) (mem_alive now_v7 N E) (log_events glob_compile E) (pj_name pj) env"
    by fast
  have fuel: "unat page_size * (unat (pc_event_retry_max_attempts cfg) + 1) + 2 < fuel"
    using assms(6) by (simp add: page_size_def)
  have cp: "pb_load ?be st (pj_name pj) = Inr cp" using assms(7) by (simp add: memory_backend_def)
  obtain ps st' where run: "batch_runs fd ?be fuel pj cfg ?runs st = Some (ps, st')"
    and len: "min (unat page_size * length runs) (length (unseen (?view st) cp)) \<le> length ps"
    using mem_lead.batch_runs_progress [OF env assms(1,2,3,5) fuel cp, where fd = fd] by auto
  have "prefix (?view st) (?view st')" "prefix ps (map snd (unseen (?view st') cp))"
    using mem_lead.batch_runs_resume [OF good assms(1,5) fuel cp, where fd = fd] run by auto
  then have "prefix (map snd (unseen (?view st) cp)) ps"
    using saves_reach [OF _ map_mono_prefix [OF unseen_prefix]] len assms(8) by (simp add: page_size_def)
  then show ?thesis using run by blast
qed

theorem projection_catches_up_witness:
  "\<exists>ps st'. batch_runs sample_delay sample_backend 5000 recovering sample_config
       (map (\<lambda>(s, sched). (s, writers sample_clock 1000 sched)) [([], rival_schedule)]) sample_log = Some (ps, st')
     \<and> prefix [StreamPosition 0, StreamPosition 1, StreamPosition 2] ps"
proof -
  have pj: "pj_name recovering = [112]" "own_events recovering = own_events (collector Retry)"
    by (simp_all add: recovering_def collector_def own_events_def)
  have alive: "mem_alive sample_clock 1000 deposit_event sample_log" "mem_free sample_log (pj_name recovering)"
    using sample_log_projectable by (simp_all add: mem_alive_def mem_free_def sample_log_fields hm_contains_def)
  have tolerant: "tolerant recovering (pc_event_retry_max_attempts sample_config) (\<lambda>_. True)"
    unfolding sample_config_fields(2) by (rule recovering_tolerant)
  have runs: "\<forall>(s, sched) \<in> set [([] :: nat list, rival_schedule)]. True \<and> good_schedule (well_typed deposit_event) sched"
    using rival_good by simp
  have cfg: "\<not> pc_continuous sample_config" "1000 * (unat (pc_event_retry_max_attempts sample_config) + 1) + 2 < 5000"
    by (simp_all add: sample_config_def projection_config_default_def event_retry_config_default_def Let_def)
  have cp: "mem_load_checkpoint sample_log (pj_name recovering) = Inr None"
    by (simp add: mem_load_checkpoint_def sample_log_fields)
  have few: "length (unseen (log_events (\<lambda>_. None) deposit_event sample_log (own_events recovering)) None)
      \<le> 1000 * length [([] :: nat list, rival_schedule)]"
    by (simp add: pj sample_log_events unseen_def)
  from projection_catches_up [OF alive tolerant runs cfg cp few, where fd = sample_delay
      and show_read = "\<lambda>_. []" and show_checkpoint = "\<lambda>_. []" and show_lock = "\<lambda>_. [104]"]
  show ?thesis by (simp add: sample_backend_def pj sample_log_events unseen_def)
qed

text \<open>
  C12. A batch run over any back end hands the projector the one page of at most 1000 events it reads
  after the stored checkpoint, in order and with the retries its strategy asks for, and saves one
  checkpoint per handled event, none for the event that stopped it; it ends in success exactly when
  the whole page was handled.
\<close>

theorem batch_run_delivers:
  assumes "pb_acquire be (env 0 st) (pj_name pj) = (Inr g, st0)" and "\<not> pc_continuous cfg"
    and "pb_load be (env 1 st0) (pj_name pj) = Inr cp"
    and "pb_read be (env 2 (env 1 st0)) (with_event_type filter_all (pj_event_type pj))
          \<lparr>after_position = cp, page_limit = 1000\<rparr> = Inr events"
    and "deliver_all pj (pc_event_retry_max_attempts cfg) s (pj_default_context pj) events = (n, s', err)"
    and "length events * (unat (pc_event_retry_max_attempts cfg) + 1) + 2 < fuel"
  shows "\<exists>st' effs. run_projection fd be env fuel pj s cfg st
      = Some (RunDone (case err of None \<Rightarrow> Inr () | Some e \<Rightarrow> Inl e), s', st', effs)
    \<and> saves effs = map snd (take n events)"
proof -
  have "first_page cp = \<lparr>after_position = cp, page_limit = 1000\<rparr>"
    by (cases cp) (simp_all add: first_page_def page_first_def page_after_def page_size_def)
  then show ?thesis using batch_run [of be env st pj g st0 cfg cp events] assms by simp
qed

text \<open>The retrying collector stops at the second deposit: one event handled, its checkpoint saved.\<close>

lemma collector_deliveries:
  "deliver_all (collector Retry) 3 [] () [((account_a, 7), StreamPosition 0), ((account_a, 500), StreamPosition 1),
      ((account_a, 3), StreamPosition 2)]
    = (1, [7], Some (Failed (lit ''projector apply failed after max retries'')))"
  by (simp add: collector_def deliver.simps Let_def)

theorem batch_run_delivers_witness:
  "\<exists>st' effs. run_projection sample_delay sample_backend (\<lambda>_ st. st) 20 (collector Retry) [] sample_config sample_log
     = Some (RunDone (Inl (Failed (lit ''projector apply failed after max retries''))), [7], st', effs)
     \<and> saves effs = [StreamPosition 0]"
proof -
  have d: "deliver_all (collector Retry) (pc_event_retry_max_attempts sample_config) []
      (pj_default_context (collector Retry)) [((account_a, 7), StreamPosition 0), ((account_a, 500), StreamPosition 1),
      ((account_a, 3), StreamPosition 2)] = (1, [7], Some (Failed (lit ''projector apply failed after max retries'')))"
    unfolding sample_config_fields(2) using collector_deliveries by (simp add: collector_def)
  from batch_run_delivers [where be = sample_backend and env = "\<lambda>_ st. st" and fd = sample_delay and fuel = 20,
      OF sample_steps(1) sample_config_fields(1) sample_steps(2) sample_page d]
  show ?thesis by (simp add: sample_config_fields(2))
qed

section \<open>Stopping\<close>

text \<open>
  C13. Over every back end, whatever it answers: the runner never reaches one of its panics, and in
  continuous mode it never returns success.
\<close>

theorem projection_never_panics:
  assumes "run_projection fd be env fuel pj s cfg st = Some (r, s', st', effs)"
  shows "r \<noteq> RunPanic \<and> (pc_continuous cfg \<longrightarrow> r \<noteq> RunDone (Inr ()))"
  using run_projection_safe [OF assms] .

theorem projection_never_panics_witness:
  "\<exists>r. run_projection sample_delay sample_backend (\<lambda>_ st. st) 20 (collector Fatal) [] (continuous sample_config)
       (sample_log\<lparr>locks := [([112], ())]\<rparr>) = Some (r, [], sample_log\<lparr>locks := [([112], ())]\<rparr>, [])
     \<and> r \<noteq> RunPanic \<and> r \<noteq> RunDone (Inr ())"
proof -
  have run: "run_projection sample_delay sample_backend (\<lambda>_ st. st) 20 (collector Fatal) [] (continuous sample_config)
       (sample_log\<lparr>locks := [([112], ())]\<rparr>)
     = Some (RunDone (Inl (LeadershipError [104])), [], sample_log\<lparr>locks := [([112], ())]\<rparr>, [])"
    by (simp add: run_projection_def sample_backend_def memory_backend_def mem_try_acquire_def sample_log_fields
        collector_def hm_contains_def)
  show ?thesis using projection_never_panics [OF run] run by (auto simp: continuous_def)
qed

text \<open>
  C14. A reader that keeps failing stops the projection with an error, after exactly one read more
  than \<open>max_consecutive_poll_failures\<close>, without a checkpoint and without touching the projector.
\<close>

theorem failing_reader_stops:
  assumes "pb_acquire be (env 0 st) (pj_name pj) = (Inr g, st0)"
    and "pb_load be (env 1 st0) (pj_name pj) = Inr cp"
    and "\<And>st f pg. pb_read be st f pg = Inl e"
    and "2 * unat (pc_max_consecutive_poll_failures cfg) + 3 \<le> fuel"
  shows "\<exists>st' effs. run_projection fd be env fuel pj s cfg st
      = Some (RunDone (Inl (Failed (lit ''failed to read events after max retries: '' @ e))), s, st', effs)
    \<and> length (filter (\<lambda>x. \<exists>f pg. x = ReadEvents f pg) effs) = Suc (unat (pc_max_consecutive_poll_failures cfg))
    \<and> saves effs = []"
proof -
  let ?p = "projection_new pj s True (to_poll_mode cfg) (to_poll_config cfg) (to_event_retry_config cfg)"
  let ?q = "?p\<lparr>pp_phase := PhAwaitingEvents cp (pj_default_context pj) 0\<rparr>"
  let ?read = "ReadEvents (with_event_type filter_all (pj_event_type pj)) (first_page cp)"
  obtain fuel' where f: "fuel = Suc fuel'" "2 * (unat (pc_max_consecutive_poll_failures cfg) - unat (0::u32)) + 2 \<le> fuel'"
    using assms(4) that [of "fuel - 1"] by simp
  have start: "run_loop fd be env fuel 1 (pstep fd ?p) st0
      = prepend [LoadCheckpoint (pj_name pj)] (run_loop fd be env fuel' 2 (?q, PYield ?read) (env 1 st0))"
    using assms(2) unfolding f(1)
    by (simp add: pstep_def projection_new_def step_load_checkpoint_def run_loop_yield dispatch_def numeral_2_eq_2
        presume_step_def resume_checkpoint_def step_poll_events_def first_page_def Let_def del: run_loop.simps)
  have "pp_phase ?q = PhAwaitingEvents cp (pj_default_context pj) 0"
    "max_consecutive_poll_failures (pp_poll_config ?q) = pc_max_consecutive_poll_failures cfg"
    "pp_state ?q = s"
    by (simp_all add: projection_new_def to_poll_config_def)
  note fr = failing_reads [where be = be, OF this(1) assms(3) this(2) _ f(2), where fd = fd and env = env and t = 2
      and f = "with_event_type filter_all (pj_event_type pj)" and pg = "first_page cp" and st = "env 1 st0"]
  obtain p' st' effs where r: "run_loop fd be env fuel' 2 (?q, PYield ?read) (env 1 st0)
      = Some (RunDone (Inl (Failed (lit ''failed to read events after max retries: '' @ e))), p', st', effs)"
    "length (filter (\<lambda>x. \<exists>f pg. x = ReadEvents f pg) effs) = Suc (unat (pc_max_consecutive_poll_failures cfg))"
    "saves effs = []" "pp_state p' = s"
    using fr \<open>pp_state ?q = s\<close> by auto
  have "run_loop fd be env fuel 1 (pstep fd ?p) st0
      = Some (RunDone (Inl (Failed (lit ''failed to read events after max retries: '' @ e))), p', st',
          [LoadCheckpoint (pj_name pj)] @ effs)"
    unfolding start r(1) by simp
  then have "run_projection fd be env fuel pj s cfg st
      = Some (RunDone (Inl (Failed (lit ''failed to read events after max retries: '' @ e))), s,
          pb_release be st' g, [LoadCheckpoint (pj_name pj)] @ effs)"
    by (simp only: run_projection_def assms(1) prod.case sum.case option.map r(4))
  then show ?thesis using r(2,3) by auto
qed

definition broken_backend :: "(unit, deposit, unit) projection_backend" where
  "broken_backend = \<lparr>pb_read = (\<lambda>_ _ _. Inl [120]), pb_load = (\<lambda>_ _. Inr None), pb_save = (\<lambda>_ _ _. (Inr (), ())),
     pb_acquire = (\<lambda>_ _. (Inr (), ())), pb_release = (\<lambda>_ _. ())\<rparr>"

theorem failing_reader_stops_witness:
  "\<exists>st' effs. run_projection sample_delay broken_backend (\<lambda>_ st. st) 13 (collector Fatal) [] sample_config ()
      = Some (RunDone (Inl (Failed (lit ''failed to read events after max retries: '' @ [120]))), [], st', effs)
    \<and> length (filter (\<lambda>x. \<exists>f pg. x = ReadEvents f pg) effs) = 6 \<and> saves effs = []"
proof -
  have five: "pc_max_consecutive_poll_failures sample_config = 5"
    by (simp add: sample_config_def projection_config_default_def poll_config_default_def Let_def)
  from failing_reader_stops [where be = broken_backend and env = "\<lambda>_ st. st" and st = "()" and pj = "collector Fatal"
      and g = "()" and ?st0.0 = "()" and cp = None and e = "[120]" and cfg = sample_config and fuel = 13
      and s = "[]" and fd = sample_delay]
  show ?thesis by (simp add: broken_backend_def five)
qed

section \<open>Failure strategies\<close>

text \<open>
  What \<open>on_error\<close> decides: a projector that always skips handles the whole page and the batch run
  succeeds with one checkpoint per event, whichever applications failed.
\<close>

theorem skipping_completes:
  assumes "pb_acquire be (env 0 st) (pj_name pj) = (Inr g, st0)" and "\<not> pc_continuous cfg"
    and "pb_load be (env 1 st0) (pj_name pj) = Inr cp"
    and "pb_read be (env 2 (env 1 st0)) (with_event_type filter_all (pj_event_type pj)) (first_page cp) = Inr events"
    and "\<And>s fc. fst (pj_on_error pj s fc) = Skip"
    and "length events * (unat (pc_event_retry_max_attempts cfg) + 1) + 2 < fuel"
  shows "\<exists>s' st' effs. run_projection fd be env fuel pj s cfg st = Some (RunDone (Inr ()), s', st', effs)
    \<and> saves effs = map snd events"
proof -
  obtain s' where "deliver_all pj (pc_event_retry_max_attempts cfg) s (pj_default_context pj) events
      = (length events, s', None)"
    using deliver_all_tolerant [OF skips_tolerant [OF assms(5)]] by blast
  from batch_run [of be env st pj g st0 cfg cp events, OF assms(1-4) this assms(6), where fd = fd]
  show ?thesis by auto
qed

theorem skipping_completes_witness:
  "\<exists>s' st' effs. run_projection sample_delay sample_backend (\<lambda>_ st. st) 20 (collector Skip) [] sample_config sample_log
     = Some (RunDone (Inr ()), s', st', effs) \<and> saves effs = [StreamPosition 0, StreamPosition 1, StreamPosition 2]"
proof -
  have page: "pb_read sample_backend (sample_log\<lparr>locks := [([112], ())]\<rparr>)
      (with_event_type filter_all (pj_event_type (collector Skip))) (first_page None)
    = Inr [((account_a, 7), StreamPosition 0), ((account_a, 500), StreamPosition 1), ((account_a, 3), StreamPosition 2)]"
    using sample_page by (simp add: first_page_def page_first_def page_size_def)
  have skip: "fst (pj_on_error (collector Skip) s fc) = Skip" for s fc by (simp add: collector_def)
  from skipping_completes [where be = sample_backend and env = "\<lambda>_ st. st" and fd = sample_delay and fuel = 20,
      OF sample_steps(1) sample_config_fields(1) sample_steps(2) page skip]
  show ?thesis by (simp add: sample_config_fields(2))
qed

text \<open>
  C15. An event that always fails under \<open>Retry\<close> stops the batch run with the error of exhausted
  retries, and this is all the run does: it loads the checkpoint, reads the page, saves one checkpoint per
  event before the failing one, and then sleeps before each of exactly \<open>max_retry_attempts\<close> retries, for the
  first, second, and so on delay of its backoff; neither the failing event nor those after it are
  checkpointed. The projector is left as the applications of the earlier events and
  \<open>max_retry_attempts + 1\<close> failing applications leave it, with \<open>on_error\<close> told the retries so far after each.
\<close>

theorem poison_event_stops:
  assumes "pb_acquire be (env 0 st) (pj_name pj) = (Inr g, st0)" and "\<not> pc_continuous cfg"
    and "pb_load be (env 1 st0) (pj_name pj) = Inr cp"
    and "pb_read be (env 2 (env 1 st0)) (with_event_type filter_all (pj_event_type pj)) (first_page cp)
          = Inr (before @ (event, position) # after)"
    and "\<And>s fc. fst (pj_on_error pj s fc) = Retry"
    and "\<And>s ctx. \<exists>err s' ctx'. pj_apply pj s event position ctx = (Inl err, s', ctx')"
    and "\<And>e q s ctx. (e, q) \<in> set before \<Longrightarrow> \<exists>s' ctx'. pj_apply pj s e q ctx = (Inr (), s', ctx')"
    and "length before + unat (pc_event_retry_max_attempts cfg) + 2 < fuel"
  shows "\<exists>st'. run_projection fd be env fuel pj s cfg st
      = Some (RunDone (Inl (Failed (lit ''projector apply failed after max retries''))),
          fst (failed_attempts pj event position (map of_nat [0..<Suc (unat (pc_event_retry_max_attempts cfg))])
            (applied pj before (s, pj_default_context pj))),
          st',
          LoadCheckpoint (pj_name pj) # ReadEvents (with_event_type filter_all (pj_event_type pj)) (first_page cp)
            # map (\<lambda>(e, q). SaveCheckpoint (pj_name pj) q) before
            @ map (\<lambda>n. SleepFor (event_retry_delay fd (to_event_retry_config cfg) (of_nat n)))
                [1..<Suc (unat (pc_event_retry_max_attempts cfg))])"
proof -
  let ?limit = "pc_event_retry_max_attempts cfg" and ?sc = "applied pj before (s, pj_default_context pj)"
  let ?events = "before @ (event, position) # after"
  let ?p = "projection_new pj s True (to_poll_mode cfg) (to_poll_config cfg) (to_event_retry_config cfg)"
  let ?q = "?p\<lparr>pp_state := fst ?sc\<rparr>"
  define fuel' where "fuel' = fuel - (2 + length before)"
  have f: "fuel = Suc (Suc (length before + fuel'))" "unat ?limit - unat (0::u32) < fuel'"
    using assms(8) by (simp_all add: fuel'_def)
  have new: "pp_has_checkpoint_store ?p" "pp_projector ?p = pj" "pp_state ?p = s"
    "pp_event_retry_config ?p = to_event_retry_config cfg"
    by (simp_all add: projection_new_def)
  note start = batch_start [where fuel = "length before + fuel'" and s = s and cfg = cfg and fd = fd,
      OF assms(3,4), folded f(1)]
  obtain t' st' cp' where "\<And>fuel. run_loop fd be env (length before + fuel) 3
      (step_processing fd ?p ?events 0 0 cp (pj_default_context pj)) (env 2 (env 1 st0))
    = prepend (map (\<lambda>(e, q). SaveCheckpoint (pj_name pj) q) before)
        (run_loop fd be env fuel t' (step_processing fd ?q ?events (length before) 0 cp' (snd ?sc)) st')"
    using applied_run [where p = ?p and i = 0 and events = ?events and before = before and rest = "(event, position) # after"
        and be = be and env = env and fd = fd and t = 3 and cp = cp and ctx = "pj_default_context pj"
        and st = "env 2 (env 1 st0)", OF new(1,2) _ assms(7)] new(3) by auto
  moreover obtain p' st2 where "run_loop fd be env fuel' t' (step_processing fd ?q ?events (length before) 0 cp' (snd ?sc)) st'
      = Some (RunDone (Inl (Failed (lit ''projector apply failed after max retries''))), p', st2,
          retry_sleeps fd (to_event_retry_config cfg) [1..<Suc (unat ?limit)])"
    "pp_state p' = fst (failed_attempts pj event position (map of_nat [0..<Suc (unat ?limit)]) ?sc)"
    using poison_run [where p = ?q and pj = pj and limit = ?limit and i = "length before" and events = ?events
        and event = event and position = position and k = 0 and fuel = fuel' and be = be and env = env and fd = fd
        and t = t' and cp = cp' and ctx = "snd ?sc" and st = st', OF _ _ _ _ _ assms(6,5) _ f(2)] new
    by (auto simp: to_event_retry_config_def simp del: upt_Suc)
  ultimately show ?thesis
    using start assms(1) by (simp add: run_projection_def retry_sleeps_def del: upt_Suc)
qed

theorem poison_event_stops_witness:
  "\<exists>st'. run_projection sample_delay sample_backend (\<lambda>_ st. st) 20 (collector Retry) [] sample_config sample_log
     = Some (RunDone (Inl (Failed (lit ''projector apply failed after max retries''))), [7], st',
         [LoadCheckpoint [112], ReadEvents (with_event_type filter_all [68]) (first_page None),
          SaveCheckpoint [112] (StreamPosition 0), SleepFor 100000000, SleepFor 100000000, SleepFor 100000000])"
proof -
  have page: "pb_read sample_backend (sample_log\<lparr>locks := [([112], ())]\<rparr>)
      (with_event_type filter_all (pj_event_type (collector Retry))) (first_page None)
    = Inr ([((account_a, 7), StreamPosition 0)] @ ((account_a, 500), StreamPosition 1) # [((account_a, 3), StreamPosition 2)])"
    using sample_page by (simp add: first_page_def page_first_def page_size_def)
  have retry: "fst (pj_on_error (collector Retry) s fc) = Retry" for s fc by (simp add: collector_def)
  have bad: "\<exists>err s' ctx'. pj_apply (collector Retry) s (account_a, 500) (StreamPosition 1) ctx = (Inl err, s', ctx')"
    for s ctx by (simp add: collector_def)
  have good: "\<exists>s' ctx'. pj_apply (collector Retry) s e q ctx = (Inr (), s', ctx')"
    if "(e, q) \<in> set [((account_a, 7::nat), StreamPosition 0)]" for e q s ctx
    using that by (simp add: collector_def)
  have delay: "event_retry_delay sample_delay (to_event_retry_config sample_config) n = 100000000" for n
    by (simp add: event_retry_delay_def sample_delay_def to_event_retry_config_def sample_config_def
        projection_config_default_def event_retry_config_default_def from_millis_def as_millis_def Let_def)
  have three: "[Suc 0..<4] = [1, 2, 3]" by (simp add: upt_rec)
  have left: "fst (failed_attempts (collector Retry) (account_a, 500) (StreamPosition 1) ks
      (applied (collector Retry) [((account_a, 7), StreamPosition 0)] ([], ()))) = [7]" for ks
  proof -
    have "fst (failed_attempts (collector Retry) (account_a, 500) (StreamPosition 1) ks (s, ctx)) = s" for s ctx
      by (induction ks) (simp_all add: collector_def)
    then show ?thesis by (simp add: applied_def) (simp add: collector_def)
  qed
  from poison_event_stops [where be = sample_backend and env = "\<lambda>_ st. st" and fd = sample_delay and fuel = 20
      and s = "[]", OF sample_steps(1) sample_config_fields(1) sample_steps(2) page retry bad good]
  show ?thesis by (simp add: sample_config_fields(2) three delay left) (simp add: collector_def)
qed

section \<open>Paging and leadership\<close>

text \<open>
  Paging over the in-memory store covers the log: reading \<open>k\<close> pages, each from the cursor of the
  last event of the one before, gives the first \<open>k * limit\<close> of the selected events after the first
  cursor, in the order of their increasing positions, none twice and none skipped.
\<close>

theorem memory_pages_cover:
  assumes "projectable now_v7 N E data"
  shows "read_pages (mem_read_events glob_compile E) data f k pg
      = Inr (take (k * unat (page_limit pg)) (unseen (log_events glob_compile E data f) (after_position pg)))
    \<and> sorted_wrt (<) (map snd (log_events glob_compile E data f))"
  using mem_reader.pages_cover [OF assms] mem_reader.increasing [OF assms] by blast

theorem memory_pages_cover_witness:
  "read_pages (mem_read_events (\<lambda>_. None) deposit_event) sample_log (own_events (collector Skip)) 2
     (page_after (StreamPosition 0) 1)
   = Inr [((account_a, 500), StreamPosition 1), ((account_a, 3), StreamPosition 2)]"
  using memory_pages_cover [OF sample_log_projectable, of "\<lambda>_. None" "own_events (collector Skip)" 2
      "page_after (StreamPosition 0) 1"]
  by (simp add: page_after_def sample_log_events unseen_def less_stream_position_def numeral_2_eq_2)

text \<open>
  \<open>run_projection\<close> leads while it runs and only then: when another instance holds the leadership it
  reports that and neither dispatches an effect nor touches the projector; when it acquired it, nobody
  leads the subscription after it returned.
\<close>

theorem projection_leadership:
  fixes st :: "('ev, 'json) store_data"
  assumes "run_projection fd (memory_backend show_read show_checkpoint show_lock glob_compile E) env fuel pj s cfg st
      = Some (r, s', st', effs)"
    and "\<not> poisoned (env 0 st)" and "\<not> locks_poisoned (env 0 st)"
  shows "if pj_name pj \<in> mem_leaders (env 0 st)
    then r = RunDone (Inl (LeadershipError (show_lock (LeadershipNotAcquired (pj_name pj)))))
      \<and> s' = s \<and> st' = env 0 st \<and> effs = []
    else pj_name pj \<notin> mem_leaders st' \<or> locks_poisoned st'"
proof (cases "pj_name pj \<in> mem_leaders (env 0 st)")
  case True
  then show ?thesis
    using assms by (simp add: run_projection_def memory_backend_def mem_try_acquire_def mem_leaders_def)
next
  case False
  let ?be = "memory_backend show_read show_checkpoint show_lock glob_compile E
      :: (('ev, 'json) store_data, 'ev, memory_guard) projection_backend"
  have "\<exists>st0. pb_acquire ?be (env 0 st) (pj_name pj) = (Inr (MemoryGuard (pj_name pj)), st0)"
    using False assms(2,3) by (simp add: memory_backend_def mem_try_acquire_def mem_leaders_def)
  then obtain st1 where "st' = pb_release ?be st1 (MemoryGuard (pj_name pj))"
    using assms(1) by (auto simp: run_projection_def)
  then have "pj_name pj \<notin> mem_leaders st' \<or> locks_poisoned st'"
    by (simp add: memory_backend_def mem_drop_guard_def mem_leaders_def hm_contains_def)
  then show ?thesis using False by simp
qed

theorem projection_leadership_witness:
  "\<exists>r. run_projection sample_delay sample_backend (\<lambda>_ st. st) 20 (collector Fatal) [] sample_config
       (sample_log\<lparr>locks := [([112], ())]\<rparr>) = Some (r, [], sample_log\<lparr>locks := [([112], ())]\<rparr>, [])
     \<and> r = RunDone (Inl (LeadershipError [104]))"
proof -
  let ?st = "sample_log\<lparr>locks := [([112], ())]\<rparr>"
  have run: "run_projection sample_delay sample_backend (\<lambda>_ st. st) 20 (collector Fatal) [] sample_config ?st
     = Some (RunDone (Inl (LeadershipError [104])), [], ?st, [])"
    by (simp add: run_projection_def sample_backend_def memory_backend_def mem_try_acquire_def sample_log_fields
        collector_def hm_contains_def)
  have held: "pj_name (collector Fatal) \<in> mem_leaders ((\<lambda>_ st. st) (0 :: nat) ?st)"
    by (simp add: mem_leaders_def hm_contains_def collector_def)
  show ?thesis
    using projection_leadership [OF run [unfolded sample_backend_def]] held run by (simp add: sample_log_fields)
qed

end
