(* ===== verification/Ordered_Maps.thy ===== *)
theory Ordered_Maps
  imports Prelude
begin

text \<open>
  \<open>BTreeMap\<close> as an association list with increasing keys: iteration is in key order, insertion replaces
  an equal key, and the loop that pushes values under their keys groups them.
\<close>

section \<open>Insertion\<close>

text \<open>\<open>map.insert(k, v)\<close>.\<close>

fun bt_insert :: "'k :: linorder \<Rightarrow> 'v \<Rightarrow> ('k \<times> 'v) list \<Rightarrow> ('k \<times> 'v) list" where
  "bt_insert k v [] = [(k, v)]"
| "bt_insert k v ((k', w) # m) =
     (if k < k' then (k, v) # (k', w) # m
      else if k = k' then (k, v) # m
      else (k', w) # bt_insert k v m)"

definition bt_wf :: "('k :: linorder \<times> 'v) list \<Rightarrow> bool" where
  "bt_wf m \<longleftrightarrow> sorted_wrt (<) (map fst m)"

lemma bt_wf_distinct: "bt_wf m \<Longrightarrow> hm_wf m"
  unfolding bt_wf_def strict_sorted_iff by blast

lemma bt_insert_keys: "fst ` set (bt_insert k v m) = insert k (fst ` set m)"
  by (induction k v m rule: bt_insert.induct) auto

lemma bt_insert_wf: "bt_wf m \<Longrightarrow> bt_wf (bt_insert k v m)"
proof (induction k v m rule: bt_insert.induct)
  case (2 k v k' w m)
  show ?case
  proof (cases "k \<le> k'")
    case True
    then show ?thesis using 2(2) by (auto simp: bt_wf_def)
  next
    case False
    have "\<forall>a \<in> fst ` set m. k' < a" using 2(2) by (auto simp: bt_wf_def)
    then have "\<forall>a \<in> fst ` set (bt_insert k v m). k' < a" using False by (simp add: bt_insert_keys)
    moreover have "bt_wf (bt_insert k v m)" using 2 False by (simp add: bt_wf_def)
    ultimately show ?thesis using False by (auto simp: bt_wf_def)
  qed
qed (simp add: bt_wf_def)

lemma bt_insert_get [simp]: "hm_get (bt_insert k v m) = (hm_get m)(k \<mapsto> v)"
  by (induction k v m rule: bt_insert.induct) (auto simp: fun_eq_iff)

section \<open>Grouping\<close>

text \<open>\<open>map.entry(k).or_default().push(x)\<close>.\<close>

fun bt_push :: "'k :: linorder \<Rightarrow> 'v \<Rightarrow> ('k \<times> 'v list) list \<Rightarrow> ('k \<times> 'v list) list" where
  "bt_push k x [] = [(k, [x])]"
| "bt_push k x ((k', xs) # m) =
     (if k < k' then (k, [x]) # (k', xs) # m
      else if k = k' then (k', xs @ [x]) # m
      else (k', xs) # bt_push k x m)"

lemma bt_push_keys: "fst ` set (bt_push k x m) = insert k (fst ` set m)"
  by (induction k x m rule: bt_push.induct) auto

lemma bt_push_wf: "bt_wf m \<Longrightarrow> bt_wf (bt_push k x m)"
proof (induction k x m rule: bt_push.induct)
  case (2 k x k' xs m)
  show ?case
  proof (cases "k \<le> k'")
    case True
    then show ?thesis using 2(2) by (auto simp: bt_wf_def)
  next
    case False
    have "\<forall>a \<in> fst ` set m. k' < a" using 2(2) by (auto simp: bt_wf_def)
    then have "\<forall>a \<in> fst ` set (bt_push k x m). k' < a" using False by (simp add: bt_push_keys)
    moreover have "bt_wf (bt_push k x m)" using 2 False by (simp add: bt_wf_def)
    ultimately show ?thesis using False by (auto simp: bt_wf_def)
  qed
qed (simp add: bt_wf_def)

lemma bt_push_get:
  "bt_wf m \<Longrightarrow> hm_get (bt_push k x m) j =
     (if j = k then Some ((case hm_get m k of None \<Rightarrow> [] | Some xs \<Rightarrow> xs) @ [x]) else hm_get m j)"
proof (induction k x m rule: bt_push.induct)
  case (2 k x k' xs m)
  have "hm_get m k = None" if "k < k'"
    using 2(2) that by (auto simp: bt_wf_def map_of_eq_None_iff)
  then show ?case using 2 by (auto simp: bt_wf_def)
qed simp

text \<open>A loop that pushes \<open>val x\<close> under \<open>key x\<close> for every \<open>x\<close> groups the values by key, in loop order.\<close>

definition group_by :: "('x \<Rightarrow> 'k :: linorder) \<Rightarrow> ('x \<Rightarrow> 'v) \<Rightarrow> 'x list \<Rightarrow> ('k \<times> 'v list) list" where
  "group_by key val xs = fold (\<lambda>x. bt_push (key x) (val x)) xs []"

lemma group_by_wf: "bt_wf (group_by key val xs)"
proof -
  have "bt_wf m \<Longrightarrow> bt_wf (fold (\<lambda>x. bt_push (key x) (val x)) xs m)" for m :: "('a \<times> 'b list) list"
    by (induction xs arbitrary: m) (simp_all add: bt_push_wf)
  then show ?thesis by (simp add: group_by_def bt_wf_def)
qed

lemma group_by_get:
  "hm_get (group_by key val xs) k =
     (let vs = map val (filter (\<lambda>x. key x = k) xs) in if vs = [] then None else Some vs)"
proof (induction xs rule: rev_induct)
  case (snoc x xs)
  have "group_by key val (xs @ [x]) = bt_push (key x) (val x) (group_by key val xs)"
    by (simp add: group_by_def)
  then show ?case using snoc by (auto simp: bt_push_get [OF group_by_wf] Let_def)
qed (simp add: group_by_def)

lemma group_by_in:
  "(k, vs) \<in> set (group_by key val xs) \<longleftrightarrow> vs = map val (filter (\<lambda>x. key x = k) xs) \<and> vs \<noteq> []"
  unfolding hm_get_in [OF bt_wf_distinct [OF group_by_wf]] by (auto simp: group_by_get Let_def)

end
