(* ===== verification/Transaction_Graph.thy ===== *)
theory Transaction_Graph
  imports Streams Ordered_Maps
begin

text \<open>
  The transaction graph of the file back end (\<open>eventcore-fs/src/merge.rs\<close> and the linearization of
  \<open>eventcore-fs/src/index.rs\<close>): headers with their parents, ancestry, forks, dangling parents, replica
  collisions, tips, depth and the canonical order. \<open>headers\<close> is the \<open>HashMap\<close> from transaction ids to
  headers.
\<close>

section \<open>Headers\<close>

record transaction_header =
  th_format_version :: u32
  th_transaction_id :: uuid
  th_replica_id :: uuid
  th_parents :: "uuid list"
  th_created_at :: rstring
  th_stream_bases :: "(rstring \<times> usize) list"
  th_content_hash :: "rstring option"

type_synonym headers = "(uuid, transaction_header) hashmap"

type_synonym path_buf = rstring

datatype fs_error =
  InitFailed path_buf rstring
| StoreLocked path_buf
| Corrupted path_buf rstring
| ReplicaIdentityConflict uuid uuid uuid

section \<open>Ancestry\<close>

text \<open>The inner loop of \<open>is_ancestor\<close>: \<open>None\<close> is the early \<open>return true\<close>.\<close>

fun scan_parents :: "uuid \<Rightarrow> uuid list \<Rightarrow> uuid list \<Rightarrow> uuid set \<Rightarrow> (uuid list \<times> uuid set) option" where
  "scan_parents ancestor [] stack seen = Some (stack, seen)"
| "scan_parents ancestor (parent # parents) stack seen =
     (if parent = ancestor then None
      else if parent \<in> seen then scan_parents ancestor parents stack seen
      else scan_parents ancestor parents (parent # stack) (insert parent seen))"

definition parents_of :: "headers \<Rightarrow> uuid \<Rightarrow> uuid list" where
  "parents_of headers t = (case hm_get headers t of None \<Rightarrow> [] | Some h \<Rightarrow> th_parents h)"

definition all_parents :: "headers \<Rightarrow> uuid set" where
  "all_parents headers = (\<Union>(t, h) \<in> set headers. set (th_parents h))"

lemma finite_all_parents [simp]: "finite (all_parents headers)"
  by (auto simp: all_parents_def)

lemma parents_of_subset: "set (parents_of headers t) \<subseteq> all_parents headers"
proof
  fix x
  assume "x \<in> set (parents_of headers t)"
  then obtain h where "hm_get headers t = Some h" "x \<in> set (th_parents h)"
    by (cases "hm_get headers t") (simp_all add: parents_of_def)
  then have "(t, h) \<in> set headers" "x \<in> set (th_parents h)" by (simp_all add: map_of_SomeD)
  then show "x \<in> all_parents headers" unfolding all_parents_def by blast
qed

lemma scan_parents_Some:
  "scan_parents a ps stack seen = Some (stack', seen') \<Longrightarrow>
     a \<notin> set ps \<and> seen' = seen \<union> set ps \<and> set stack' = set stack \<union> (set ps - seen)
     \<and> (seen' = seen \<longrightarrow> stack' = stack)"
  by (induction a ps stack seen rule: scan_parents.induct) (auto split: if_splits)

lemma scan_parents_None: "scan_parents a ps stack seen = None \<longleftrightarrow> a \<in> set ps"
  by (induction a ps stack seen rule: scan_parents.induct) auto

text \<open>The outer loop: the stack's top is the list's head.\<close>

function ancestor_loop :: "uuid \<Rightarrow> headers \<Rightarrow> uuid list \<Rightarrow> uuid set \<Rightarrow> bool" where
  "ancestor_loop ancestor headers [] seen = False"
| "ancestor_loop ancestor headers (current # stack) seen =
     (case hm_get headers current of
        None \<Rightarrow> ancestor_loop ancestor headers stack seen
      | Some header \<Rightarrow>
          (case scan_parents ancestor (th_parents header) stack seen of
             None \<Rightarrow> True
           | Some (stack', seen') \<Rightarrow> ancestor_loop ancestor headers stack' seen'))"
  by pat_completeness auto

termination
proof (relation "measures [\<lambda>(a, headers, stack, seen). card (all_parents headers - seen),
    \<lambda>(a, headers, stack, seen). length stack]", goal_cases)
  case (3 a headers c stack seen header r stack' seen')
  then have get: "hm_get headers c = Some header" and
    s: "scan_parents a (th_parents header) stack seen = Some (stack', seen')" by simp_all
  note f = scan_parents_Some [OF s]
  show ?case
  proof (cases "seen' = seen")
    case False
    have "set (th_parents header) \<subseteq> all_parents headers"
      using parents_of_subset [of headers c] get by (simp add: parents_of_def)
    then have "all_parents headers - seen' \<subset> all_parents headers - seen" using f False by auto
    then show ?thesis by (simp add: psubset_card_mono)
  qed (use f in simp)
qed simp_all

text \<open>The ancestors of a transaction: reached over one or more parent links.\<close>

definition parent_rel :: "headers \<Rightarrow> (uuid \<times> uuid) set" where
  "parent_rel headers = {(p, t). p \<in> set (parents_of headers t)}"

abbreviation ancestor :: "headers \<Rightarrow> uuid \<Rightarrow> uuid \<Rightarrow> bool" where
  "ancestor headers a t \<equiv> (a, t) \<in> (parent_rel headers)\<^sup>+"

definition is_ancestor :: "uuid \<Rightarrow> uuid \<Rightarrow> headers \<Rightarrow> bool" where
  "is_ancestor anc descendant headers = ancestor_loop anc headers [descendant] {}"

text \<open>The loop's invariant: what was seen and left the stack has been expanded.\<close>

definition expanded :: "uuid \<Rightarrow> headers \<Rightarrow> uuid list \<Rightarrow> uuid set \<Rightarrow> bool" where
  "expanded a headers stack seen \<longleftrightarrow>
     (\<forall>x \<in> seen - set stack. \<forall>p \<in> set (parents_of headers x). p \<noteq> a \<and> p \<in> seen)"

lemma expanded_ancestor:
  assumes "expanded a headers stack seen" "ancestor headers a x" "x \<in> seen"
  shows "\<exists>y \<in> set stack. ancestor headers a y"
  using assms(2,3)
proof (induction rule: trancl_induct)
  case (base y)
  then show ?case using assms(1) by (auto simp: expanded_def parent_rel_def)
next
  case (step y z)
  then have "ancestor headers a z" by (meson trancl.trancl_into_trancl)
  moreover have "z \<in> set stack \<or> y \<in> seen"
    using step assms(1) by (auto simp: expanded_def parent_rel_def)
  ultimately show ?case using step.IH by blast
qed

declare ancestor_loop.simps [simp del]

lemma ancestor_loop_correct:
  "expanded a headers stack seen \<Longrightarrow>
     ancestor_loop a headers stack seen \<longleftrightarrow> (\<exists>x \<in> set stack. ancestor headers a x)"
proof (induction a headers stack seen rule: ancestor_loop.induct)
  case (2 a headers c stack seen)
  show ?case
  proof (cases "hm_get headers c")
    case None
    then have no: "parents_of headers c = []" by (simp add: parents_of_def)
    have "p \<noteq> a \<and> p \<in> seen" if "x \<in> seen - set stack" "p \<in> set (parents_of headers x)" for x p
    proof -
      have "x \<noteq> c" using that(2) no by (metis empty_iff list.set(1))
      then have "x \<in> seen - set (c # stack)" using that(1) by simp
      then show ?thesis using "2.prems" that(2) unfolding expanded_def by blast
    qed
    then have "expanded a headers stack seen" unfolding expanded_def by blast
    moreover have "\<not> ancestor headers a c"
    proof
      assume "ancestor headers a c"
      then obtain y where "(y, c) \<in> parent_rel headers" by (meson tranclD2)
      then show False using no by (simp add: parent_rel_def)
    qed
    ultimately show ?thesis using "2.IH"(1) [OF None] None by (simp add: ancestor_loop.simps)
  next
    case (Some h)
    then have ps: "th_parents h = parents_of headers c" by (simp add: parents_of_def)
    show ?thesis
    proof (cases "scan_parents a (th_parents h) stack seen")
      case None
      then have "ancestor headers a c" by (auto simp: scan_parents_None ps parent_rel_def)
      then show ?thesis using Some None by (simp add: ancestor_loop.simps)
    next
      case (Some r)
      obtain stack' seen' where r: "r = (stack', seen')" by (cases r)
      note f = scan_parents_Some [OF Some [unfolded r], unfolded ps]
      have ex: "expanded a headers stack' seen'"
        unfolding expanded_def
      proof (intro ballI)
        fix x p
        assume x: "x \<in> seen' - set stack'" "p \<in> set (parents_of headers x)"
        show "p \<noteq> a \<and> p \<in> seen'"
        proof (cases "x = c")
          case False
          then have "x \<in> seen - set (c # stack)" using x(1) f by auto
          then show ?thesis using "2.prems" x(2) f unfolding expanded_def by blast
        qed (use x f in auto)
      qed
      have "(\<exists>x \<in> set stack'. ancestor headers a x) \<longleftrightarrow> (\<exists>x \<in> set (c # stack). ancestor headers a x)"
      proof
        assume "\<exists>x \<in> set stack'. ancestor headers a x"
        then obtain x where x: "x \<in> set stack'" "ancestor headers a x" by blast
        show "\<exists>x \<in> set (c # stack). ancestor headers a x"
        proof (cases "x \<in> set stack")
          case False
          then have "(x, c) \<in> parent_rel headers" using f x(1) by (auto simp: parent_rel_def)
          then show ?thesis using x(2) by (auto intro: trancl_into_trancl)
        qed (use x in auto)
      next
        assume "\<exists>x \<in> set (c # stack). ancestor headers a x"
        then consider "ancestor headers a c" | x where "x \<in> set stack" "ancestor headers a x" by auto
        then show "\<exists>x \<in> set stack'. ancestor headers a x"
        proof cases
          case 1
          then obtain p where "p \<in> set (parents_of headers c)" "ancestor headers a p"
            using f by (auto simp: parent_rel_def elim: tranclE)
          then show ?thesis using expanded_ancestor [OF ex, of p] f by auto
        qed (use f in auto)
      qed
      then show ?thesis
        using "2.IH"(2) [OF \<open>hm_get headers c = Some h\<close> Some r [symmetric] ex] \<open>hm_get headers c = Some h\<close> Some r by (simp add: ancestor_loop.simps)
    qed
  qed
qed (simp add: ancestor_loop.simps)

lemma is_ancestor_iff: "is_ancestor a t headers \<longleftrightarrow> ancestor headers a t"
proof -
  have "expanded a headers [t] {}" by (simp add: expanded_def)
  then show ?thesis by (simp only: is_ancestor_def ancestor_loop_correct) simp
qed

end
