(* ===== verification/Fs_Merge.thy ===== *)
theory Fs_Merge
  imports Transaction_Graph
begin

text \<open>
  Forks, dangling parents and replica collisions (\<open>eventcore-fs/src/merge.rs\<close>), with the specification
  of fork detection over the header map alone. A \<open>TransactionId\<close> is its UUID.
\<close>

section \<open>Types\<close>

type_synonym transaction_id = uuid

record fork =
  fork_stream_id :: stream_id
  fork_base_version :: stream_version
  fork_transactions :: "transaction_id list"

record dangling_transaction =
  dt_transaction_id :: transaction_id
  dt_missing_parents :: "transaction_id list"

record integrity_failure =
  if_transaction_id :: transaction_id
  if_detail :: rstring

record store_status =
  ss_forks :: "fork list"
  ss_dangling :: "dangling_transaction list"
  ss_integrity_failures :: "integrity_failure list"

definition is_clean :: "store_status \<Rightarrow> bool" where
  "is_clean s \<longleftrightarrow> ss_forks s = [] \<and> ss_dangling s = [] \<and> ss_integrity_failures s = []"

section \<open>Operations\<close>

definition fork_is_resolved :: "uuid list \<Rightarrow> headers \<Rightarrow> bool" where
  "fork_is_resolved heads headers =
     list_ex (\<lambda>candidate. list_all (\<lambda>head. is_ancestor head candidate headers) heads) (map fst headers)"

definition detect_dangling_in :: "headers \<Rightarrow> dangling_transaction list" where
  "detect_dangling_in headers =
     sort_key dt_transaction_id
       (List.map_filter
          (\<lambda>h. let missing = filter (\<lambda>p. \<not> hm_contains headers p) (th_parents h)
               in if missing = [] then None
                  else Some \<lparr>dt_transaction_id = th_transaction_id h, dt_missing_parents = missing\<rparr>)
          (map snd headers))"

text \<open>The loops over \<open>j\<close> and \<open>i\<close> of \<open>check_replica_collisions\<close>: the first concurrent pair.\<close>

fun collides_with :: "headers \<Rightarrow> uuid \<Rightarrow> uuid list \<Rightarrow> uuid option" where
  "collides_with headers first [] = None"
| "collides_with headers first (second # rest) =
     (if \<not> is_ancestor first second headers \<and> \<not> is_ancestor second first headers then Some second
      else collides_with headers first rest)"

fun first_collision :: "headers \<Rightarrow> uuid list \<Rightarrow> (uuid \<times> uuid) option" where
  "first_collision headers [] = None"
| "first_collision headers (first # rest) =
     (case collides_with headers first rest of
        Some second \<Rightarrow> Some (first, second)
      | None \<Rightarrow> first_collision headers rest)"

definition replica_step :: "headers \<Rightarrow> uuid \<Rightarrow> uuid list \<Rightarrow> fs_error + unit" where
  "replica_step headers replica_id transactions =
     (if length transactions < 2 then Inr ()
      else (case first_collision headers (sort transactions) of
              Some (first, second) \<Rightarrow> Inl (ReplicaIdentityConflict first second replica_id)
            | None \<Rightarrow> Inr ()))"

definition check_replica_collisions :: "headers \<Rightarrow> fs_error + unit" where
  "check_replica_collisions headers =
     try_fold (\<lambda>_ (replica_id, transactions). replica_step headers replica_id transactions)
       () (group_by th_replica_id th_transaction_id (map snd headers))"

text \<open>The claims of all headers, and the transactions grouped by the (stream, base) they claim.\<close>

definition claims :: "headers \<Rightarrow> ((rstring \<times> usize) \<times> uuid) list" where
  "claims headers =
     concat (map (\<lambda>h. map (\<lambda>claim. (claim, th_transaction_id h)) (th_stream_bases h)) (map snd headers))"

definition claim_groups :: "headers \<Rightarrow> ((rstring \<times> usize) \<times> uuid list) list" where
  "claim_groups headers = group_by fst snd (claims headers)"

definition fork_step ::
  "(nutype_error \<Rightarrow> rstring) \<Rightarrow> headers \<Rightarrow> fork list \<Rightarrow> (rstring \<times> usize) \<times> uuid list
     \<Rightarrow> fs_error + fork list" where
  "fork_step show_name headers forks grp =
     (let ((stream, base), candidates) = grp in
      if length candidates < 2 then Inr forks
      else if fork_is_resolved candidates headers then Inr forks
      else (case stream_id_try_new stream of
              Inl e \<Rightarrow> Inl (Corrupted stream (lit ''invalid stream id in transaction header: '' @ show_name e))
            | Inr sid \<Rightarrow>
                Inr (forks @ [\<lparr>fork_stream_id = sid, fork_base_version = base,
                               fork_transactions = sort candidates\<rparr>])))"

definition detect_forks_in :: "(nutype_error \<Rightarrow> rstring) \<Rightarrow> headers \<Rightarrow> fs_error + fork list" where
  "detect_forks_in show_name headers =
     rbind (check_replica_collisions headers)
       (\<lambda>_. try_fold (fork_step show_name headers) [] (claim_groups headers))"

section \<open>Specification\<close>

definition wf_headers :: "headers \<Rightarrow> bool" where
  "wf_headers headers \<longleftrightarrow> hm_wf headers
     \<and> (\<forall>(t, h) \<in> set headers. th_transaction_id h = t \<and> hm_wf (th_stream_bases h)
          \<and> (\<forall>(s, b) \<in> set (th_stream_bases h). stream_id_try_new s = Inr (StreamId s)))"

definition claimants :: "headers \<Rightarrow> rstring \<times> usize \<Rightarrow> uuid set" where
  "claimants headers claim = {t. \<exists>h. hm_get headers t = Some h \<and> claim \<in> set (th_stream_bases h)}"

definition joined :: "headers \<Rightarrow> uuid set \<Rightarrow> bool" where
  "joined headers ts \<longleftrightarrow> (\<exists>c h. hm_get headers c = Some h \<and> (\<forall>t \<in> ts. ancestor headers t c))"

definition concurrent :: "headers \<Rightarrow> uuid \<Rightarrow> uuid \<Rightarrow> bool" where
  "concurrent headers t u \<longleftrightarrow> t \<noteq> u \<and> \<not> ancestor headers t u \<and> \<not> ancestor headers u t"

definition replicas_linear :: "headers \<Rightarrow> bool" where
  "replicas_linear headers \<longleftrightarrow> (\<forall>t u h g. hm_get headers t = Some h \<longrightarrow> hm_get headers u = Some g \<longrightarrow>
     th_replica_id h = th_replica_id g \<longrightarrow> \<not> concurrent headers t u)"

definition forked_claims :: "headers \<Rightarrow> (rstring \<times> usize) set" where
  "forked_claims headers =
     {claim. 2 \<le> card (claimants headers claim) \<and> \<not> joined headers (claimants headers claim)}"

definition fork_spec :: "headers \<Rightarrow> fork list" where
  "fork_spec headers =
     map (\<lambda>(s, b). \<lparr>fork_stream_id = StreamId s, fork_base_version = b,
            fork_transactions = sorted_list_of_set (claimants headers (s, b))\<rparr>)
       (sorted_list_of_set (forked_claims headers))"

section \<open>Correctness\<close>

lemma wf_headers_get:
  assumes "wf_headers headers"
  shows "hm_get headers t = Some h \<longleftrightarrow> (t, h) \<in> set headers"
  using hm_get_in [of headers t h] assms by (simp add: wf_headers_def)

lemma wf_headers_facts:
  assumes "wf_headers headers" "hm_get headers t = Some h"
  shows "th_transaction_id h = t" "hm_wf (th_stream_bases h)"
    "(s, b) \<in> set (th_stream_bases h) \<Longrightarrow> stream_id_try_new s = Inr (StreamId s)"
  using assms unfolding wf_headers_get [OF assms(1)] by (auto simp: wf_headers_def)

lemma wf_headers_ids:
  assumes "wf_headers headers"
  shows "map th_transaction_id (map snd headers) = map fst headers"
  using assms by (auto simp: wf_headers_def)

lemma fork_is_resolved_iff:
  "fork_is_resolved heads headers \<longleftrightarrow> joined headers (set heads)"
proof -
  have keys: "c \<in> set (map fst headers) \<longleftrightarrow> (\<exists>h. hm_get headers c = Some h)" for c
    using map_of_eq_None_iff [of headers c] by auto
  have "fork_is_resolved heads headers
      \<longleftrightarrow> (\<exists>c. c \<in> set (map fst headers) \<and> (\<forall>t \<in> set heads. ancestor headers t c))"
    unfolding fork_is_resolved_def list_ex_iff list_all_iff is_ancestor_iff by blast
  then show ?thesis unfolding keys joined_def by blast
qed

lemma collides_with_facts:
  "case collides_with headers t us of
     Some u \<Rightarrow> u \<in> set us \<and> \<not> ancestor headers t u \<and> \<not> ancestor headers u t
   | None \<Rightarrow> \<forall>u \<in> set us. ancestor headers t u \<or> ancestor headers u t"
  by (induction us) (auto simp: is_ancestor_iff split: option.splits)

lemma first_collision_facts:
  "sorted_wrt (<) ts \<Longrightarrow> case first_collision headers ts of
     Some (t, u) \<Rightarrow> t \<in> set ts \<and> u \<in> set ts \<and> t < u \<and> concurrent headers t u
   | None \<Rightarrow> \<forall>t \<in> set ts. \<forall>u \<in> set ts. \<not> concurrent headers t u"
proof (induction ts)
  case (Cons t ts)
  show ?case
  proof (cases "collides_with headers t ts")
    case None
    then have "\<forall>u \<in> set ts. \<not> concurrent headers t u \<and> \<not> concurrent headers u t"
      using collides_with_facts [where headers = headers and t = t and us = ts] by (auto simp: concurrent_def)
    then show ?thesis
      using Cons None by (auto simp: concurrent_def [of headers t t] split: option.splits)
  next
    case (Some u)
    then show ?thesis
      using Cons.prems collides_with_facts [where headers = headers and t = t and us = ts] by (auto simp: concurrent_def)
  qed
qed simp

lemma sorted_sort_distinct: "distinct xs \<Longrightarrow> sorted_wrt (<) (sort xs)" for xs :: "'a :: linorder list"
  by (simp add: strict_sorted_iff)

lemma sort_sorted_list: "distinct xs \<Longrightarrow> sort xs = sorted_list_of_set (set xs)" for xs :: "'a :: linorder list"
  by (metis sorted_list_of_set_sort_remdups distinct_remdups_id)

lemma filter_claim:
  "distinct bases \<Longrightarrow> filter (\<lambda>x. fst x = c) (map (\<lambda>c. (c, t)) bases) = (if c \<in> set bases then [(c, t)] else [])"
  by (induction bases) auto

lemma group_candidates:
  assumes "wf_headers headers"
  shows "map snd (filter (\<lambda>x. fst x = c) (claims headers))
    = map th_transaction_id (filter (\<lambda>h. c \<in> set (th_stream_bases h)) (map snd headers))"
proof -
  have "\<forall>h \<in> set (map snd headers). distinct (th_stream_bases h)"
    using assms by (auto simp: wf_headers_def distinct_map)
  then have "map snd (filter (\<lambda>x. fst x = c)
      (concat (map (\<lambda>h. map (\<lambda>c. (c, th_transaction_id h)) (th_stream_bases h)) hs)))
    = map th_transaction_id (filter (\<lambda>h. c \<in> set (th_stream_bases h)) hs)"
    if "set hs \<subseteq> set (map snd headers)" for hs
    using that by (induction hs) (auto simp: filter_claim)
  then show ?thesis unfolding claims_def by blast
qed

lemma group_candidates_set:
  assumes "wf_headers headers"
  shows "set (map snd (filter (\<lambda>x. fst x = c) (claims headers))) = claimants headers c"
    and "distinct (map snd (filter (\<lambda>x. fst x = c) (claims headers)))"
proof -
  have "(\<exists>h. (t, h) \<in> set headers \<and> c \<in> set (th_stream_bases h))
      \<longleftrightarrow> t \<in> th_transaction_id ` {h \<in> snd ` set headers. c \<in> set (th_stream_bases h)}" for t
    using assms by (force simp: wf_headers_def image_iff)
  then show "set (map snd (filter (\<lambda>x. fst x = c) (claims headers))) = claimants headers c"
    unfolding group_candidates [OF assms] claimants_def wf_headers_get [OF assms] by auto
  have "distinct (map th_transaction_id (map snd headers))"
    unfolding wf_headers_ids [OF assms] using assms by (simp add: wf_headers_def)
  then show "distinct (map snd (filter (\<lambda>x. fst x = c) (claims headers)))"
    unfolding group_candidates [OF assms] by (rule distinct_map_filter)
qed

lemma claim_group_facts:
  assumes "wf_headers headers" "(c, ts) \<in> set (claim_groups headers)"
  shows "set ts = claimants headers c" "distinct ts" "length ts = card (claimants headers c)"
    and "stream_id_try_new (fst c) = Inr (StreamId (fst c))"
proof -
  have "ts = map snd (filter (\<lambda>x. fst x = c) (claims headers)) \<and> ts \<noteq> []"
    using assms(2) unfolding claim_groups_def group_by_in .
  note ts = conjunct1 [OF this] conjunct2 [OF this]
  show st: "set ts = claimants headers c" "distinct ts"
    unfolding ts(1) by (rule group_candidates_set [OF assms(1)])+
  then show "length ts = card (claimants headers c)" by (metis distinct_card)
  obtain t where "t \<in> claimants headers c" using st(1) ts(2) by (cases ts) auto
  then show "stream_id_try_new (fst c) = Inr (StreamId (fst c))"
    using wf_headers_facts(3) [OF assms(1)] by (cases c) (auto simp: claimants_def)
qed

lemma check_replica_collisions_facts:
  assumes "wf_headers headers"
  shows "case check_replica_collisions headers of
      Inr _ \<Rightarrow> replicas_linear headers
    | Inl e \<Rightarrow> \<exists>t u r h g. e = ReplicaIdentityConflict t u r \<and> t < u \<and> concurrent headers t u
        \<and> hm_get headers t = Some h \<and> hm_get headers u = Some g \<and> th_replica_id h = r \<and> th_replica_id g = r"
proof -
  let ?groups = "group_by th_replica_id th_transaction_id (map snd headers)"
  let ?ids = "\<lambda>r. map th_transaction_id (filter (\<lambda>h. th_replica_id h = r) (map snd headers))"
  have dist: "distinct (?ids r)" for r
    by (rule distinct_map_filter) (use assms in \<open>simp add: wf_headers_ids wf_headers_def del: map_map\<close>)
  have mem: "t \<in> set (?ids r) \<longleftrightarrow> (\<exists>h. hm_get headers t = Some h \<and> th_replica_id h = r)" for t r
    unfolding wf_headers_get [OF assms] using assms by (force simp: wf_headers_def image_iff)
  have step: "case replica_step headers r ts of
      Inr _ \<Rightarrow> \<forall>t \<in> set ts. \<forall>u \<in> set ts. \<not> concurrent headers t u
    | Inl e \<Rightarrow> \<exists>t u. e = ReplicaIdentityConflict t u r \<and> t < u \<and> concurrent headers t u \<and> t \<in> set ts \<and> u \<in> set ts"
    if "distinct ts" for r ts
  proof (cases "length ts < 2")
    case True
    then have "\<forall>t \<in> set ts. \<forall>u \<in> set ts. t = u"
      by (cases ts rule: remdups_adj.cases) auto
    then show ?thesis using True by (auto simp: replica_step_def concurrent_def)
  next
    case False
    then show ?thesis
      using first_collision_facts [OF sorted_sort_distinct [OF that], of headers]
      by (auto simp: replica_step_def split: option.splits)
  qed
  let ?run = "try_fold (\<lambda>_ (r, ts). replica_step headers r ts) ()"
  have loop: "case ?run gs of
      Inr _ \<Rightarrow> \<forall>(r, ts) \<in> set gs. \<forall>t \<in> set ts. \<forall>u \<in> set ts. \<not> concurrent headers t u
    | Inl e \<Rightarrow> \<exists>t u r ts. (r, ts) \<in> set gs \<and> e = ReplicaIdentityConflict t u r \<and> t < u
        \<and> concurrent headers t u \<and> t \<in> set ts \<and> u \<in> set ts"
    if "\<forall>(r, ts) \<in> set gs. distinct ts" for gs
    using that
  proof (induction gs)
    case (Cons g gs)
    obtain r ts where g: "g = (r, ts)" by (cases g)
    have "distinct ts" using Cons.prems g by simp
    note st = step [OF this, of r]
    show ?case
    proof (cases "replica_step headers r ts")
      case (Inl e)
      then show ?thesis using st unfolding g by auto
    next
      case (Inr u)
      then show ?thesis using st Cons unfolding g by (cases "?run gs") auto
    qed
  qed simp
  have d: "\<forall>(r, ts) \<in> set ?groups. distinct ts" using dist by (auto simp: group_by_in)
  show ?thesis
  proof (cases "check_replica_collisions headers")
    case (Inr u)
    then have c: "\<forall>(r, ts) \<in> set ?groups. \<forall>t \<in> set ts. \<forall>u \<in> set ts. \<not> concurrent headers t u"
      using loop [OF d] by (simp add: check_replica_collisions_def)
    have "\<not> concurrent headers t u"
      if "hm_get headers t = Some h" "hm_get headers u = Some g" "th_replica_id h = th_replica_id g" for t u h g
    proof -
      have tu: "t \<in> set (?ids (th_replica_id h))" "u \<in> set (?ids (th_replica_id h))"
        using mem that by metis+
      then have "?ids (th_replica_id h) \<noteq> []" by (metis empty_iff list.set(1))
      then have "(th_replica_id h, ?ids (th_replica_id h)) \<in> set ?groups" unfolding group_by_in by blast
      then show ?thesis using c tu by blast
    qed
    then show ?thesis using Inr unfolding replicas_linear_def by auto
  next
    case (Inl e)
    then obtain t u r ts where e: "(r, ts) \<in> set ?groups" "e = ReplicaIdentityConflict t u r" "t < u"
        "concurrent headers t u" "t \<in> set ts" "u \<in> set ts"
      using loop [OF d] by (auto simp: check_replica_collisions_def)
    then have "t \<in> set (?ids r)" "u \<in> set (?ids r)" unfolding group_by_in by blast+
    then obtain h g where "hm_get headers t = Some h" "hm_get headers u = Some g" "th_replica_id h = r"
        "th_replica_id g = r" unfolding mem by blast
    then show ?thesis using e Inl by auto
  qed
qed

definition is_fork_group :: "headers \<Rightarrow> (rstring \<times> usize) \<times> uuid list \<Rightarrow> bool" where
  "is_fork_group headers g \<longleftrightarrow> 2 \<le> length (snd g) \<and> \<not> fork_is_resolved (snd g) headers"

definition spec_fork :: "headers \<Rightarrow> rstring \<times> usize \<Rightarrow> fork" where
  "spec_fork headers c = \<lparr>fork_stream_id = StreamId (fst c), fork_base_version = snd c,
     fork_transactions = sorted_list_of_set (claimants headers c)\<rparr>"

lemma fork_spec_map: "fork_spec headers = map (spec_fork headers) (sorted_list_of_set (forked_claims headers))"
  by (simp add: fork_spec_def spec_fork_def case_prod_unfold)

lemma fork_loop:
  assumes "wf_headers headers" "set gs \<subseteq> set (claim_groups headers)"
  shows "try_fold (fork_step show_name headers) forks gs
    = Inr (forks @ map (spec_fork headers \<circ> fst) (filter (is_fork_group headers) gs))"
  using assms(2)
proof (induction gs arbitrary: forks)
  case (Cons g gs)
  obtain c ts where g: "g = (c, ts)" by (cases g)
  have "(c, ts) \<in> set (claim_groups headers)" using Cons.prems g by simp
  note f = claim_group_facts [OF assms(1) this]
  have "sort ts = sorted_list_of_set (claimants headers c)"
    using sort_sorted_list [OF f(2)] f(1) by simp
  then have "fork_step show_name headers forks g
      = Inr (if is_fork_group headers g then forks @ [spec_fork headers c] else forks)"
    using f(4) by (cases c) (auto simp: fork_step_def g is_fork_group_def spec_fork_def)
  then show ?case using Cons g by simp
qed simp

lemma fork_groups:
  assumes "wf_headers headers"
  shows "map fst (filter (is_fork_group headers) (claim_groups headers)) = sorted_list_of_set (forked_claims headers)"
proof -
  let ?gs = "filter (is_fork_group headers) (claim_groups headers)"
  have "bt_wf (claim_groups headers)" unfolding claim_groups_def by (rule group_by_wf)
  then have sorted: "sorted_wrt (<) (map fst ?gs)"
    unfolding bt_wf_def sorted_wrt_map by (rule sorted_wrt_filter)
  have "c \<in> fst ` set ?gs \<longleftrightarrow> c \<in> forked_claims headers" for c
  proof
    assume "c \<in> fst ` set ?gs"
    then obtain ts where ts: "(c, ts) \<in> set (claim_groups headers)" "is_fork_group headers (c, ts)" by auto
    then show "c \<in> forked_claims headers"
      using claim_group_facts [OF assms ts(1)]
      by (simp add: is_fork_group_def forked_claims_def fork_is_resolved_iff)
  next
    assume c: "c \<in> forked_claims headers"
    let ?ts = "map snd (filter (\<lambda>x. fst x = c) (claims headers))"
    have "set ?ts = claimants headers c" by (rule group_candidates_set [OF assms])
    moreover have "claimants headers c \<noteq> {}" using c by (auto simp: forked_claims_def)
    ultimately have "?ts \<noteq> []" by (metis list.set(1))
    then have g: "(c, ?ts) \<in> set (claim_groups headers)" unfolding claim_groups_def group_by_in by blast
    have "is_fork_group headers (c, ?ts)"
      using claim_group_facts [OF assms g] c
      by (simp add: is_fork_group_def forked_claims_def fork_is_resolved_iff del: length_map)
    then show "c \<in> fst ` set ?gs" using g by force
  qed
  then have "set (map fst ?gs) = forked_claims headers" by auto
  then show ?thesis
    using sorted sorted_list_of_set.idem_if_sorted_distinct [of "map fst ?gs"]
    by (simp add: strict_sorted_iff)
qed

lemma detect_forks_spec:
  assumes "wf_headers headers"
  shows "case detect_forks_in show_name headers of
      Inr forks \<Rightarrow> replicas_linear headers \<and> forks = fork_spec headers
    | Inl e \<Rightarrow> \<exists>t u r h g. e = ReplicaIdentityConflict t u r \<and> t < u \<and> concurrent headers t u
        \<and> hm_get headers t = Some h \<and> hm_get headers u = Some g \<and> th_replica_id h = r \<and> th_replica_id g = r"
proof -
  have forks: "try_fold (fork_step show_name headers) [] (claim_groups headers) = Inr (fork_spec headers)"
    using fork_loop [OF assms order.refl, of show_name "[]"] fork_groups [OF assms]
    by (simp add: fork_spec_map map_map [symmetric] del: map_map)
  show ?thesis
    using check_replica_collisions_facts [OF assms]
    by (cases "check_replica_collisions headers") (simp_all add: detect_forks_in_def forks)
qed

text \<open>Nothing of this depends on the iteration order of the map.\<close>

lemma fork_spec_same: "hm_get a = hm_get b \<Longrightarrow> fork_spec a = fork_spec b"
  by (simp add: fork_spec_def forked_claims_def claimants_def joined_def parent_rel_def parents_of_def)

lemma parent_rel_insert:
  assumes "hm_get headers m = None"
  shows "parent_rel (hm_insert m h headers) = parent_rel headers \<union> {(p, m) |p. p \<in> set (th_parents h)}"
  using assms by (auto simp: parent_rel_def parents_of_def split: option.splits if_splits)

lemma ancestor_insert:
  "hm_get headers m = None \<Longrightarrow> ancestor headers a t \<Longrightarrow> ancestor (hm_insert m h headers) a t"
  using trancl_mono_subset [of "parent_rel headers" "parent_rel (hm_insert m h headers)"]
  by (auto simp: parent_rel_insert)

end
