(* ===== verification/Fs_Linearize.thy ===== *)
theory Fs_Linearize
  imports Fs_Merge
begin

text \<open>
  The canonical order of transactions and the tips (\<open>eventcore-fs/src/index.rs\<close>): depth with its memo,
  the sort by (depth, creation time, replica, id), and what they promise: parents first, every
  transaction once, and the same order on every replica with the same files.
\<close>

section \<open>Operations\<close>

text \<open>
  \<open>transaction_depth\<close> recurses over the parents without a check for cycles; the fuel stands for the
  call stack, and \<open>None\<close> for its overflow.
\<close>

fun transaction_depth ::
    "nat \<Rightarrow> headers \<Rightarrow> uuid \<Rightarrow> (uuid, nat) hashmap \<Rightarrow> (nat \<times> (uuid, nat) hashmap) option"
  and best_parent ::
    "nat \<Rightarrow> headers \<Rightarrow> uuid list \<Rightarrow> nat \<Rightarrow> (uuid, nat) hashmap \<Rightarrow> (nat \<times> (uuid, nat) hashmap) option" where
  "transaction_depth 0 headers t memo = None"
| "transaction_depth (Suc fuel) headers t memo =
     (case hm_get memo t of
        Some d \<Rightarrow> Some (d, memo)
      | None \<Rightarrow>
          (case hm_get headers t of
             None \<Rightarrow> Some (0, hm_insert t 0 memo)
           | Some h \<Rightarrow>
               (case best_parent fuel headers (th_parents h) 0 memo of
                  None \<Rightarrow> None
                | Some (d, memo') \<Rightarrow> Some (d, hm_insert t d memo'))))"
| "best_parent fuel headers [] best memo = Some (best, memo)"
| "best_parent fuel headers (p # ps) best memo =
     (if hm_contains headers p then
        (case transaction_depth fuel headers p memo of
           None \<Rightarrow> None
         | Some (d, memo') \<Rightarrow> best_parent fuel headers ps (max best (d + 1)) memo')
      else best_parent fuel headers ps best memo)"

type_synonym order_key = "nat \<times> rstring \<times> uuid \<times> uuid"

fun key_all ::
  "nat \<Rightarrow> headers \<Rightarrow> (uuid \<times> transaction_header) list \<Rightarrow> (uuid, nat) hashmap
     \<Rightarrow> (uuid \<times> order_key) list option" where
  "key_all fuel headers [] memo = Some []"
| "key_all fuel headers ((t, h) # rest) memo =
     (case transaction_depth fuel headers t memo of
        None \<Rightarrow> None
      | Some (d, memo') \<Rightarrow>
          map_option (\<lambda>keyed. (t, (d, th_created_at h, th_replica_id h, t)) # keyed)
            (key_all fuel headers rest memo'))"

definition linearize :: "headers \<Rightarrow> uuid list option" where
  "linearize headers =
     map_option (\<lambda>keyed. map fst (sort_key snd keyed)) (key_all (Suc (length headers)) headers headers [])"

definition compute_tips :: "headers \<Rightarrow> uuid list" where
  "compute_tips headers =
     (let referenced = concat (map th_parents (map snd headers))
      in sort (filter (\<lambda>t. t \<notin> set referenced) (map fst headers)))"

section \<open>Depth\<close>

definition best_of :: "headers \<Rightarrow> (uuid \<Rightarrow> nat) \<Rightarrow> uuid list \<Rightarrow> nat \<Rightarrow> nat" where
  "best_of headers D ps best = fold (\<lambda>p b. if hm_contains headers p then max b (D p + 1) else b) ps best"

lemma best_of_simps [simp]:
  "best_of headers D [] best = best"
  "best_of headers D (p # ps) best =
     best_of headers D ps (if hm_contains headers p then max best (D p + 1) else best)"
  by (simp_all add: best_of_def)

lemma best_of_cong:
  "(\<And>p. p \<in> set ps \<Longrightarrow> hm_contains headers p \<Longrightarrow> D p = D' p) \<Longrightarrow> best_of headers D ps best = best_of headers D' ps best"
  by (induction ps arbitrary: best) simp_all

lemma best_of_ge: "best \<le> best_of headers D ps best"
  by (induction ps arbitrary: best) (auto intro: order.trans [OF max.cobounded1])

lemma best_of_parent:
  "p \<in> set ps \<Longrightarrow> hm_contains headers p \<Longrightarrow> D p < best_of headers D ps best"
proof (induction ps arbitrary: best)
  case (Cons q ps)
  show ?case
  proof (cases "p = q")
    case True
    have "max best (D p + 1) \<le> best_of headers D ps (max best (D p + 1))" by (rule best_of_ge)
    then show ?thesis using True Cons.prems by simp
  qed (use Cons in auto)
qed simp

lemma best_of_less:
  "best < n \<Longrightarrow> (\<And>p. p \<in> set ps \<Longrightarrow> hm_contains headers p \<Longrightarrow> D p + 1 < n) \<Longrightarrow> best_of headers D ps best < n"
  by (induction ps arbitrary: best) auto

text \<open>
  The depth without a memo, unfolded to a bound. On an acyclic graph the present ancestors of a
  transaction bound it, so beyond them the bound does not matter.
\<close>

fun depth_upto :: "nat \<Rightarrow> headers \<Rightarrow> uuid \<Rightarrow> nat" where
  "depth_upto 0 headers t = 0"
| "depth_upto (Suc n) headers t = best_of headers (depth_upto n headers) (parents_of headers t) 0"

definition depth :: "headers \<Rightarrow> uuid \<Rightarrow> nat" where
  "depth headers t = depth_upto (length headers) headers t"

definition acyclic_headers :: "headers \<Rightarrow> bool" where
  "acyclic_headers headers \<longleftrightarrow> acyclic (parent_rel headers)"

definition rank :: "headers \<Rightarrow> uuid \<Rightarrow> nat" where
  "rank headers t = card {a. ancestor headers a t \<and> hm_contains headers a}"

lemma finite_keys [simp]: "finite {a. P a \<and> hm_contains headers a}"
  by (rule finite_subset [of _ "fst ` set headers"]) (auto simp: hm_contains_iff)

lemma rank_less:
  assumes "acyclic_headers headers" "p \<in> set (parents_of headers t)" "hm_contains headers p"
  shows "rank headers p < rank headers t"
proof -
  have edge: "(p, t) \<in> parent_rel headers" using assms(2) by (simp add: parent_rel_def)
  have "{a. ancestor headers a p \<and> hm_contains headers a} \<subseteq> {a. ancestor headers a t \<and> hm_contains headers a}"
    using edge by (auto intro: trancl_into_trancl)
  moreover have "p \<in> {a. ancestor headers a t \<and> hm_contains headers a}" using edge assms(3) by auto
  moreover have "\<not> ancestor headers p p" using assms(1) by (simp add: acyclic_headers_def acyclic_def)
  ultimately show ?thesis unfolding rank_def by (intro psubset_card_mono) auto
qed

lemma rank_bound: "rank headers t \<le> length headers"
proof -
  have "rank headers t \<le> card (fst ` set headers)"
    unfolding rank_def by (rule card_mono) (auto simp: hm_contains_iff)
  also have "\<dots> \<le> length headers"
    by (metis card_image_le card_length finite_set order.trans)
  finally show ?thesis .
qed

lemma depth_upto_stable:
  assumes "acyclic_headers headers"
  shows "rank headers t \<le> n \<Longrightarrow> depth_upto (Suc n) headers t = depth_upto n headers t"
proof (induction n arbitrary: t)
  case 0
  have "\<not> hm_contains headers p" if "p \<in> set (parents_of headers t)" for p
    using rank_less [OF assms that] 0 by auto
  then have "best_of headers D (parents_of headers t) 0 = 0" for D
  proof -
    have "best_of headers D ps 0 = 0" if "\<forall>p \<in> set ps. \<not> hm_contains headers p" for ps
      using that by (induction ps) auto
    then show ?thesis using \<open>\<And>p. p \<in> set (parents_of headers t) \<Longrightarrow> \<not> hm_contains headers p\<close> by blast
  qed
  then show ?case by simp
next
  case (Suc n)
  have "depth_upto (Suc n) headers p = depth_upto n headers p"
    if "p \<in> set (parents_of headers t)" "hm_contains headers p" for p
    using rank_less [OF assms that] Suc.prems by (intro Suc.IH) simp
  then show ?case unfolding depth_upto.simps(2) [of "Suc n"] depth_upto.simps(2) [of n headers t]
    by (rule best_of_cong)
qed

lemma depth_eq:
  assumes "acyclic_headers headers"
  shows "depth headers t = best_of headers (depth headers) (parents_of headers t) 0"
  using depth_upto_stable [OF assms rank_bound [of headers t]] by (simp add: depth_def [abs_def])

lemma depth_less:
  assumes "acyclic_headers headers" "p \<in> set (parents_of headers t)" "hm_contains headers p"
  shows "depth headers p < depth headers t"
  unfolding depth_eq [OF assms(1), of t] by (rule best_of_parent [OF assms(2,3)])

lemma depth_ancestor:
  assumes "acyclic_headers headers" "ancestor headers a t" "hm_contains headers a"
  shows "depth headers a < depth headers t"
  using assms(2)
proof (induction rule: trancl_induct)
  case (base y)
  then show ?case using depth_less [OF assms(1) _ assms(3)] by (simp add: parent_rel_def)
next
  case (step y z)
  obtain x where "(x, y) \<in> parent_rel headers" using step.hyps(1) by (meson tranclD2)
  then have "hm_contains headers y"
    by (cases "hm_get headers y") (simp_all add: parent_rel_def parents_of_def hm_contains_def)
  then show ?case using step depth_less [OF assms(1), of y z] by (simp add: parent_rel_def)
qed

section \<open>The memo and the fuel\<close>

definition memo_ok :: "headers \<Rightarrow> (uuid, nat) hashmap \<Rightarrow> bool" where
  "memo_ok headers memo \<longleftrightarrow> (\<forall>t d. hm_get memo t = Some d \<longrightarrow> d = depth headers t)"

lemma memo_ok_insert: "memo_ok headers memo \<Longrightarrow> memo_ok headers (hm_insert t (depth headers t) memo)"
  by (simp add: memo_ok_def)

lemma transaction_depth_correct:
  shows "memo_ok headers memo \<Longrightarrow> rank headers t < fuel \<Longrightarrow> acyclic_headers headers \<Longrightarrow>
      \<exists>memo'. transaction_depth fuel headers t memo = Some (depth headers t, memo') \<and> memo_ok headers memo'"
    and "memo_ok headers memo \<Longrightarrow> \<forall>p \<in> set ps. hm_contains headers p \<longrightarrow> rank headers p < fuel \<Longrightarrow>
      acyclic_headers headers \<Longrightarrow>
      \<exists>memo'. best_parent fuel headers ps best memo = Some (best_of headers (depth headers) ps best, memo')
        \<and> memo_ok headers memo'"
proof (induction fuel headers t memo and fuel headers ps best memo
    rule: transaction_depth_best_parent.induct)
  case (2 fuel headers t memo)
  show ?case
  proof (cases "hm_get memo t")
    case (Some d)
    then show ?thesis using 2(2) by (simp add: memo_ok_def)
  next
    case m: None
    show ?thesis
    proof (cases "hm_get headers t")
      case None
      then have d: "depth headers t = 0"
        using depth_eq [OF 2(4), of t] by (simp add: parents_of_def)
      then show ?thesis using m None memo_ok_insert [OF 2(2), of t] by simp
    next
      case (Some h)
      have ps: "parents_of headers t = th_parents h" using Some by (simp add: parents_of_def)
      have "\<forall>p \<in> set (th_parents h). hm_contains headers p \<longrightarrow> rank headers p < fuel"
        using rank_less [OF 2(4), of _ t] 2(3) unfolding ps
        by (meson less_Suc_eq_le less_le_trans)
      from 2(1) [OF m Some 2(2) this 2(4)] obtain memo' where
        b: "best_parent fuel headers (th_parents h) 0 memo = Some (best_of headers (depth headers) (th_parents h) 0, memo')"
        and ok: "memo_ok headers memo'" by blast
      have "best_of headers (depth headers) (th_parents h) 0 = depth headers t"
        using depth_eq [OF 2(4), of t] ps by simp
      then show ?thesis using m Some b memo_ok_insert [OF ok, of t] by simp
    qed
  qed
next
  case (4 fuel headers p ps best memo)
  show ?case
  proof (cases "hm_contains headers p")
    case True
    obtain memo' where d: "transaction_depth fuel headers p memo = Some (depth headers p, memo')" "memo_ok headers memo'"
      using 4(1) [OF True 4(4) _ 4(6)] 4(5) True by auto
    show ?thesis
      using 4(2) [OF True d(1) refl d(2) _ 4(6)] 4(5) True d(1) by simp
  next
    case False
    then show ?thesis using 4(3) [OF False 4(4) _ 4(6)] 4(5) by simp
  qed
qed auto

section \<open>The canonical order\<close>

definition order_key :: "headers \<Rightarrow> uuid \<times> transaction_header \<Rightarrow> order_key" where
  "order_key headers = (\<lambda>(t, h). (depth headers t, th_created_at h, th_replica_id h, t))"

definition canonical_order :: "headers \<Rightarrow> uuid list" where
  "canonical_order headers =
     map (\<lambda>(d, c, r, t). t) (sorted_list_of_set (order_key headers ` set headers))"

lemma rank_less_length:
  assumes "acyclic_headers headers" "hm_contains headers t"
  shows "rank headers t < length headers"
proof -
  have "{a. ancestor headers a t \<and> hm_contains headers a} \<subset> fst ` set headers"
    using assms by (auto simp: acyclic_headers_def acyclic_def hm_contains_iff)
  then have "rank headers t < card (fst ` set headers)"
    unfolding rank_def by (intro psubset_card_mono) auto
  also have "\<dots> \<le> length headers" by (metis card_image_le card_length finite_set order.trans)
  finally show ?thesis .
qed

lemma key_all_correct:
  assumes "acyclic_headers headers" "memo_ok headers memo"
  shows "key_all (Suc (length headers)) headers hs memo = Some (map (\<lambda>(t, h). (t, order_key headers (t, h))) hs)"
  using assms(2)
proof (induction hs arbitrary: memo)
  case (Cons th hs)
  obtain t h where th: "th = (t, h)" by (cases th)
  have "rank headers t < Suc (length headers)" using rank_bound [of headers t] by simp
  from transaction_depth_correct(1) [OF Cons.prems this assms(1)] obtain memo' where
    "transaction_depth (Suc (length headers)) headers t memo = Some (depth headers t, memo')" "memo_ok headers memo'"
    by blast
  then show ?case using Cons.IH by (simp add: th order_key_def del: transaction_depth.simps)
qed simp

lemma sorted_list_unique:
  "distinct xs \<Longrightarrow> set xs = S \<Longrightarrow> sorted xs \<Longrightarrow> xs = sorted_list_of_set S"
  for xs :: "'a :: linorder list"
  by (auto simp: sorted_list_of_set.idem_if_sorted_distinct)

lemma linearize_spec:
  assumes "acyclic_headers headers" "hm_wf headers"
  shows "linearize headers = Some (canonical_order headers)"
proof -
  let ?keyed = "map (\<lambda>(t, h). (t, order_key headers (t, h))) headers"
  let ?sorted = "sort_key snd ?keyed"
  have "map snd ?keyed = map (order_key headers) headers" by auto
  moreover have "distinct (map (order_key headers) headers)"
  proof -
    have "map (\<lambda>(d, c, r, t). t) (map (order_key headers) headers) = map fst headers"
      by (auto simp: order_key_def)
    then have "distinct (map (\<lambda>(d, c, r, t). t) (map (order_key headers) headers))" using assms(2) by (simp only:)
    then show ?thesis by (rule distinct_map [THEN iffD1, THEN conjunct1])
  qed
  moreover have "mset (map snd ?sorted) = mset (map snd ?keyed)" by (simp only: mset_map mset_sort)
  ultimately have m: "mset (map snd ?sorted) = mset (map (order_key headers) headers)"
    and d: "distinct (map (order_key headers) headers)" by (simp_all only:)
  have "distinct (map snd ?sorted)" by (rule mset_eq_imp_distinct_iff [OF m, THEN iffD2, OF d])
  moreover have "set (map snd ?sorted) = order_key headers ` set headers"
    by (rule mset_eq_setD [OF m, unfolded set_map [of "order_key headers"]])
  moreover have "sorted (map snd ?sorted)" by (rule sorted_sort_key)
  ultimately have keys: "map snd ?sorted = sorted_list_of_set (order_key headers ` set headers)"
    by (intro sorted_list_unique)
  have "\<forall>x \<in> set ?sorted. fst x = (\<lambda>(d, c, r, t). t) (snd x)" by (auto simp: order_key_def)
  then have "map fst ?sorted = map (\<lambda>(d, c, r, t). t) (map snd ?sorted)" by auto
  then have "map fst ?sorted = canonical_order headers" by (simp only: keys canonical_order_def)
  moreover have "memo_ok headers []" by (simp add: memo_ok_def)
  ultimately show ?thesis
    using key_all_correct [OF assms(1)] by (simp add: linearize_def)
qed

lemma canonical_order_set: "set (canonical_order headers) = fst ` set headers"
  by (force simp: canonical_order_def order_key_def image_iff)

lemma canonical_order_distinct:
  assumes "hm_wf headers"
  shows "distinct (canonical_order headers)"
  unfolding canonical_order_def distinct_map
proof (intro conjI inj_onI)
  fix x y
  assume "x \<in> set (sorted_list_of_set (order_key headers ` set headers))"
    "y \<in> set (sorted_list_of_set (order_key headers ` set headers))"
    "(case x of (d, c, r, t) \<Rightarrow> t) = (case y of (d, c, r, t) \<Rightarrow> t)"
  then obtain t h g where "(t, h) \<in> set headers" "x = order_key headers (t, h)" "(t, g) \<in> set headers"
    "y = order_key headers (t, g)" by (auto simp: order_key_def)
  moreover then have "h = g" using assms by (meson eq_key_imp_eq_value)
  ultimately show "x = y" by simp
qed simp

lemma canonical_order_parents_first:
  assumes "acyclic_headers headers"
  shows "sorted_wrt (\<lambda>a b. \<not> ancestor headers b a) (canonical_order headers)"
proof -
  let ?ks = "sorted_list_of_set (order_key headers ` set headers)"
  have "sorted ?ks" by simp
  then have "sorted_wrt (\<lambda>x y. fst x \<le> fst y) ?ks"
    by (rule sorted_wrt_mono_rel [rotated]) (auto simp: less_eq_prod_def)
  then have "sorted_wrt (\<lambda>x y. \<not> ancestor headers (snd (snd (snd y))) (snd (snd (snd x)))) ?ks"
  proof (rule sorted_wrt_mono_rel [rotated])
    fix x y
    assume "x \<in> set ?ks" "y \<in> set ?ks" "fst x \<le> fst y"
    then obtain t u h g where xy: "x = order_key headers (t, h)" "y = order_key headers (u, g)" "(u, g) \<in> set headers"
      by auto
    have "hm_contains headers u" using xy(3) by (force simp: hm_contains_iff)
    then have "\<not> ancestor headers u t"
      using depth_ancestor [OF assms, of u t] \<open>fst x \<le> fst y\<close> xy by (auto simp: order_key_def)
    then show "\<not> ancestor headers (snd (snd (snd y))) (snd (snd (snd x)))" using xy by (simp add: order_key_def)
  qed
  then show ?thesis by (simp add: canonical_order_def sorted_wrt_map case_prod_unfold)
qed

text \<open>The order is a function of the map, not of the order in which it is iterated.\<close>

lemma parents_of_same: "hm_get a = hm_get b \<Longrightarrow> parents_of a t = parents_of b t"
  by (simp add: parents_of_def)

lemma depth_upto_same:
  assumes "hm_get a = hm_get b"
  shows "depth_upto n a t = depth_upto n b t"
proof (induction n arbitrary: t)
  case (Suc n)
  have "best_of a D ps best = best_of b D ps best" for D ps best
    by (simp add: best_of_def hm_contains_def assms)
  moreover have "depth_upto n a = depth_upto n b" using Suc by (simp add: fun_eq_iff)
  ultimately show ?case by (simp add: parents_of_same [OF assms])
qed simp

lemma canonical_order_same: "hm_same a b \<Longrightarrow> canonical_order a = canonical_order b"
proof -
  assume same: "hm_same a b"
  then have "hm_get a = hm_get b" by (simp add: hm_same_def)
  then have "order_key a = order_key b"
    using hm_same_length [OF same] by (simp add: order_key_def depth_def depth_upto_same fun_eq_iff)
  then show ?thesis by (simp add: canonical_order_def hm_same_set [OF same])
qed

section \<open>Tips, and a new transaction on top of them\<close>

definition is_tip :: "headers \<Rightarrow> uuid \<Rightarrow> bool" where
  "is_tip headers t \<longleftrightarrow> hm_contains headers t \<and> t \<notin> all_parents headers"

lemma compute_tips_facts:
  "set (compute_tips headers) = {t. is_tip headers t}" "sorted (compute_tips headers)"
  "hm_wf headers \<Longrightarrow> distinct (compute_tips headers)"
  by (auto simp: compute_tips_def Let_def is_tip_def hm_contains_iff all_parents_def)

text \<open>Every transaction has a tip above it.\<close>

lemma below_tip:
  assumes "acyclic_headers headers" "hm_wf headers" "hm_contains headers t"
  shows "\<exists>u. is_tip headers u \<and> depth headers t \<le> depth headers u"
proof -
  let ?S = "{u. depth headers t \<le> depth headers u \<and> hm_contains headers u}"
  have "Max (depth headers ` ?S) \<in> depth headers ` ?S"
    by (rule Max_in) (use assms(3) in auto)
  then obtain u where u: "u \<in> ?S" "depth headers u = Max (depth headers ` ?S)" by auto
  have "u \<notin> all_parents headers"
  proof
    assume "u \<in> all_parents headers"
    then obtain c h where c: "(c, h) \<in> set headers" "u \<in> set (th_parents h)" by (auto simp: all_parents_def)
    then have get: "hm_get headers c = Some h" using hm_get_in [OF assms(2)] by blast
    then have "u \<in> set (parents_of headers c)" using c(2) by (simp add: parents_of_def)
    then have less: "depth headers u < depth headers c" using depth_less [OF assms(1)] u(1) by blast
    then have "c \<in> ?S" using u(1) get by (simp add: hm_contains_def)
    then have "depth headers c \<le> Max (depth headers ` ?S)" by (intro Max_ge) auto
    then show False using less u(2) by simp
  qed
  then show ?thesis using u(1) by (auto simp: is_tip_def)
qed

text \<open>A transaction with a fresh id that nothing refers to, put on top of a well-formed graph.\<close>

definition new_transaction :: "headers \<Rightarrow> uuid \<Rightarrow> transaction_header \<Rightarrow> bool" where
  "new_transaction headers m h \<longleftrightarrow> hm_wf headers \<and> acyclic_headers headers
     \<and> hm_get headers m = None \<and> m \<notin> all_parents headers \<and> m \<notin> set (th_parents h)"

lemma grown_eq: "new_transaction headers m h \<Longrightarrow> hm_insert m h headers = headers @ [(m, h)]"
  by (rule hm_insert_new) (simp add: new_transaction_def map_of_eq_None_iff)

lemma grown_parents:
  "parents_of (hm_insert m h headers) t = (if t = m then th_parents h else parents_of headers t)"
  by (simp add: parents_of_def)

lemma grown_contains: "hm_contains (hm_insert m h headers) t \<longleftrightarrow> t = m \<or> hm_contains headers t"
  by (simp add: hm_contains_def)

lemma grown_ancestor:
  assumes "new_transaction headers m h"
  shows "\<not> ancestor (hm_insert m h headers) m t"
    and "t \<noteq> m \<Longrightarrow> ancestor (hm_insert m h headers) a t \<longleftrightarrow> ancestor headers a t"
proof -
  let ?new = "hm_insert m h headers"
  have rel: "parent_rel ?new = parent_rel headers \<union> {(p, m) |p. p \<in> set (th_parents h)}"
    by (rule parent_rel_insert) (use assms in \<open>simp add: new_transaction_def\<close>)
  have no_child: "(m, t) \<notin> parent_rel ?new" for t
    using assms parents_of_subset [of headers t]
    by (auto simp: new_transaction_def grown_parents parent_rel_def split: if_splits)
  then show "\<not> ancestor ?new m t" by (meson tranclD)
  have edge: "(a, t) \<in> parent_rel headers" if "(a, t) \<in> parent_rel ?new" "t \<noteq> m" for a t
    using that by (auto simp: rel)
  have old: "ancestor headers a t" if "ancestor ?new a t" "t \<noteq> m" for a t
    using that
  proof (induction rule: trancl_induct)
    case (base y)
    then show ?case using edge by blast
  next
    case (step y z)
    then have "y \<noteq> m" using no_child by metis
    then show ?case using step edge by (meson trancl_into_trancl)
  qed
  have "ancestor ?new a t" if "ancestor headers a t"
    by (rule ancestor_insert [OF _ that]) (use assms in \<open>simp add: new_transaction_def\<close>)
  then show "t \<noteq> m \<Longrightarrow> ancestor ?new a t \<longleftrightarrow> ancestor headers a t" using old by blast
qed

lemma grown_acyclic:
  assumes "new_transaction headers m h"
  shows "acyclic_headers (hm_insert m h headers)"
  unfolding acyclic_headers_def acyclic_def
proof
  fix t
  show "\<not> ancestor (hm_insert m h headers) t t"
    using grown_ancestor [OF assms, of t] assms
    by (cases "t = m") (auto simp: new_transaction_def acyclic_headers_def acyclic_def)
qed

lemma grown_depth:
  assumes new: "new_transaction headers m h"
  shows "t \<noteq> m \<Longrightarrow> depth (hm_insert m h headers) t = depth headers t"
proof (induction "rank headers t" arbitrary: t rule: less_induct)
  case less
  let ?new = "hm_insert m h headers"
  have acyc: "acyclic_headers headers" using new by (simp add: new_transaction_def)
  have m: "p \<noteq> m" if "p \<in> set (parents_of headers t)" for p
    using that parents_of_subset [of headers t] new by (auto simp: new_transaction_def)
  have "best_of ?new (depth ?new) (parents_of headers t) 0 = best_of ?new (depth headers) (parents_of headers t) 0"
  proof (rule best_of_cong)
    fix p
    assume p: "p \<in> set (parents_of headers t)" "hm_contains ?new p"
    then have "hm_contains headers p" using m grown_contains by metis
    then show "depth ?new p = depth headers p"
      using less.hyps [OF rank_less [OF acyc p(1)]] m [OF p(1)] by blast
  qed
  also have "\<dots> = best_of headers (depth headers) (parents_of headers t) 0"
  proof -
    have "best_of ?new D ps best = best_of headers D ps best" if "m \<notin> set ps" for D ps best
      using that by (induction ps arbitrary: best) (auto simp: grown_contains)
    then show ?thesis using m by blast
  qed
  finally show ?case
    using depth_eq [OF grown_acyclic [OF new], of t] depth_eq [OF acyc, of t] less.prems
    by (simp add: grown_parents)
qed

text \<open>A transaction whose parents are all the tips comes last, and leaves the order of the others.\<close>

lemma sorted_list_of_set_last:
  assumes "finite S" "\<And>x. x \<in> S \<Longrightarrow> x < k"
  shows "sorted_list_of_set (insert k S) = sorted_list_of_set S @ [k]"
  by (rule sorted_list_unique [symmetric])
     (use assms in \<open>auto simp: sorted_append intro: order.strict_implies_order\<close>)

lemma order_key_last:
  assumes new: "new_transaction headers m h" and deep: "\<And>t g. (t, g) \<in> set headers \<Longrightarrow> depth headers t < depth (hm_insert m h headers) m"
  shows "canonical_order (hm_insert m h headers) = canonical_order headers @ [m]"
proof -
  let ?new = "hm_insert m h headers"
  let ?k = "order_key ?new (m, h)"
  have keys: "order_key ?new x = order_key headers x" if "x \<in> set headers" for x
  proof -
    have "fst x \<noteq> m" using that new by (auto simp: new_transaction_def map_of_eq_None_iff)
    then show ?thesis using grown_depth [OF new] by (cases x) (simp add: order_key_def)
  qed
  have "order_key ?new ` set ?new = insert ?k (order_key headers ` set headers)"
    unfolding grown_eq [OF new] using keys by (auto simp: grown_eq [OF new])
  moreover have "x < ?k" if "x \<in> order_key headers ` set headers" for x
    using that deep by (auto simp: order_key_def less_prod_def)
  ultimately have "sorted_list_of_set (order_key ?new ` set ?new)
      = sorted_list_of_set (order_key headers ` set headers) @ [?k]"
    using sorted_list_of_set_last [of "order_key headers ` set headers" ?k] by simp
  then show ?thesis by (simp add: canonical_order_def order_key_def)
qed

lemma canonical_order_snoc:
  assumes new: "new_transaction headers m h" and tips: "set (compute_tips headers) \<subseteq> set (th_parents h)"
  shows "canonical_order (hm_insert m h headers) = canonical_order headers @ [m]"
proof (rule order_key_last [OF new])
  fix t g
  assume tg: "(t, g) \<in> set headers"
  let ?new = "hm_insert m h headers"
  have wf: "acyclic_headers headers" "hm_wf headers" using new by (simp_all add: new_transaction_def)
  have "hm_contains headers t" using tg by (force simp: hm_contains_iff)
  then obtain u where u: "is_tip headers u" "depth headers t \<le> depth headers u" using below_tip [OF wf] by blast
  then have "u \<in> set (parents_of ?new m)" "hm_contains ?new u" "u \<noteq> m"
    using tips new compute_tips_facts(1) [of headers]
    by (auto simp: grown_parents grown_contains is_tip_def new_transaction_def hm_contains_def)
  then have "depth ?new u < depth ?new m" "depth ?new u = depth headers u"
    using depth_less [OF grown_acyclic [OF new]] grown_depth [OF new] by blast+
  then show "depth headers t < depth ?new m" using u(2) by simp
qed

text \<open>Afterwards it is the only tip.\<close>

lemma compute_tips_snoc:
  assumes new: "new_transaction headers m h" and tips: "set (compute_tips headers) \<subseteq> set (th_parents h)"
  shows "compute_tips (hm_insert m h headers) = [m]"
proof -
  let ?new = "hm_insert m h headers"
  have wf: "hm_wf ?new" using new by (simp add: new_transaction_def)
  have "is_tip ?new t \<longleftrightarrow> t = m" for t
    using tips new unfolding compute_tips_facts(1)
    by (auto simp: is_tip_def grown_contains grown_eq [OF new] all_parents_def new_transaction_def hm_contains_def)
  then have "set (compute_tips ?new) = {m}" unfolding compute_tips_facts(1) by blast
  then show ?thesis
    using compute_tips_facts(3) [OF wf] by (cases "compute_tips ?new" rule: remdups_adj.cases) auto
qed

end
