(* ===== verification/Fs_Text.thy ===== *)
theory Fs_Text
  imports Transaction_Graph
begin

text \<open>
  The parts of the standard library the file back end's formats rest on: \<open>str::lines\<close>, \<open>join\<close>, the
  lowercase hexadecimal of bytes, and what reading and writing a file can return.
\<close>

section \<open>Lines\<close>

text \<open>\<open>str::lines\<close>: a line ends at a newline, and a carriage return right before it is dropped with it.\<close>

definition strip_cr :: "rstring \<Rightarrow> rstring" where
  "strip_cr l = (if l \<noteq> [] \<and> last l = 13 then butlast l else l)"

function str_lines :: "rstring \<Rightarrow> rstring list" where
  "str_lines s =
     (if s = [] then []
      else (case dropWhile (\<lambda>c. c \<noteq> 10) s of
              [] \<Rightarrow> [s]
            | _ # rest \<Rightarrow> strip_cr (takeWhile (\<lambda>c. c \<noteq> 10) s) # str_lines rest))"
  by pat_completeness auto

termination
proof (relation "measure length", goal_cases)
  case (2 s c rest)
  have "length (dropWhile (\<lambda>c. c \<noteq> 10) s) \<le> length s" by (rule length_dropWhile_le)
  then show ?case using 2 by (metis Suc_le_eq in_measure length_Cons)
qed simp

declare str_lines.simps [simp del]

lemma str_lines_Nil [simp]: "str_lines [] = []"
  by (simp add: str_lines.simps)

lemma str_lines_Cons [simp]:
  assumes "10 \<notin> set l"
  shows "str_lines (l @ 10 # rest) = strip_cr l # str_lines rest"
proof -
  have "\<forall>x \<in> set l. x \<noteq> 10" using assms by blast
  then have "dropWhile (\<lambda>c. c \<noteq> 10) (l @ 10 # rest) = 10 # rest" "takeWhile (\<lambda>c. c \<noteq> 10) (l @ 10 # rest) = l"
    by (simp_all add: dropWhile_append3 takeWhile_append2)
  then show ?thesis by (simp add: str_lines.simps [of "l @ 10 # rest"])
qed

text \<open>A text that \<open>lines\<close> gives back as one line.\<close>

definition one_line :: "rstring \<Rightarrow> bool" where
  "one_line l \<longleftrightarrow> 10 \<notin> set l \<and> str_trim l \<noteq> [] \<and> strip_cr l = l"

definition unlines :: "rstring list \<Rightarrow> rstring" where
  "unlines ls = concat (map (\<lambda>l. l @ [10]) ls)"

lemma unlines_simps [simp]:
  "unlines [] = []" "unlines (l # ls) = l @ 10 # unlines ls" "unlines (ls @ ls') = unlines ls @ unlines ls'"
  by (simp_all add: unlines_def)

lemma lines_unlines: "list_all one_line ls \<Longrightarrow> str_lines (unlines ls @ rest) = ls @ str_lines rest"
  by (induction ls) (auto simp: one_line_def)

text \<open>\<open>[String]::join\<close>\<close>

fun join_lines :: "rstring list \<Rightarrow> rstring" where
  "join_lines [] = []"
| "join_lines [l] = l"
| "join_lines (l # ls) = l @ 10 # join_lines ls"

lemma join_unlines: "ls \<noteq> [] \<Longrightarrow> join_lines ls @ [10] = unlines ls"
  by (induction ls rule: join_lines.induct) auto

section \<open>Hexadecimal\<close>

definition hex_digit :: "nat \<Rightarrow> nat" where
  "hex_digit n = (if n < 10 then 48 + n else 87 + n)"

text \<open>\<open>{byte:02x}\<close>\<close>

definition hex_pair :: "nat \<Rightarrow> rstring" where
  "hex_pair b = [hex_digit (b div 16), hex_digit (b mod 16)]"

definition hex_byte :: "u8 \<Rightarrow> rstring" where
  "hex_byte b = hex_pair (unat b)"

definition hex_bytes :: "u8 list \<Rightarrow> rstring" where
  "hex_bytes bs = concat (map hex_byte bs)"

lemma hex_digit_inj: "hex_digit a = hex_digit b \<Longrightarrow> a = b"
  by (simp add: hex_digit_def split: if_splits)

lemma hex_pair_inj: "hex_pair a = hex_pair b \<Longrightarrow> a = b"
  by (auto simp: hex_pair_def dest!: hex_digit_inj) (metis div_mult_mod_eq)

lemma hex_byte_inj: "hex_byte a = hex_byte b \<Longrightarrow> a = b"
  unfolding hex_byte_def word_unat_eq_iff by (rule hex_pair_inj)

lemma hex_bytes_inj: "hex_bytes as = hex_bytes bs \<Longrightarrow> as = bs"
proof (induction as arbitrary: bs)
  case Nil
  then show ?case by (cases bs) (simp_all add: hex_bytes_def hex_byte_def hex_pair_def)
next
  case (Cons a as)
  then obtain b bs' where bs: "bs = b # bs'" by (cases bs) (auto simp: hex_bytes_def hex_byte_def hex_pair_def)
  then have "hex_byte a = hex_byte b" "hex_bytes as = hex_bytes bs'"
    using Cons.prems by (simp_all add: hex_bytes_def hex_byte_def hex_pair_def)
  then show ?case using Cons.IH hex_byte_inj bs by blast
qed

text \<open>
  \<open>str::as_bytes\<close>: the UTF-8 encoding of a scalar value. The numbers are below 256 for the values a
  \<open>char\<close> has.
\<close>

definition utf8_char :: "nat \<Rightarrow> nat list" where
  "utf8_char c =
     (if c < 128 then [c]
      else if c < 2048 then [192 + c div 64, 128 + c mod 64]
      else if c < 65536 then [224 + c div 4096, 128 + c div 64 mod 64, 128 + c mod 64]
      else [240 + c div 262144, 128 + c div 4096 mod 64, 128 + c div 64 mod 64, 128 + c mod 64])"

definition utf8 :: "rstring \<Rightarrow> nat list" where
  "utf8 s = concat (map utf8_char s)"

lemma utf8_char_bytes: "c < 1114112 \<Longrightarrow> b \<in> set (utf8_char c) \<Longrightarrow> b < 256"
  by (auto simp: utf8_char_def split: if_splits)

lemma div_mod_step: "c div (n * 64) = d div (n * 64) \<Longrightarrow> c div n mod 64 = d div n mod 64 \<Longrightarrow> c div n = d div n"
  for c d n :: nat
  by (metis div_mult2_eq div_mult_mod_eq)

text \<open>The first byte says how many follow.\<close>

lemma utf8_lead:
  "utf8_char x = b # bs \<Longrightarrow> (b < 128 \<longleftrightarrow> x < 128) \<and> (b < 224 \<longleftrightarrow> x < 2048) \<and> (b < 240 \<longleftrightarrow> x < 65536)"
proof -
  assume e: "utf8_char x = b # bs"
  consider "x < 128" | "128 \<le> x" "x < 2048" | "2048 \<le> x" "x < 65536" | "65536 \<le> x" by linarith
  then show ?thesis
  proof cases
    case 2
    then have "x div 64 < 32" by (simp add: less_mult_imp_div_less)
    then show ?thesis using e 2 by (auto simp: utf8_char_def)
  next
    case 3
    then have "x div 4096 < 16" by (simp add: less_mult_imp_div_less)
    then show ?thesis using e 3 by (auto simp: utf8_char_def)
  qed (use e in \<open>auto simp: utf8_char_def\<close>)
qed

lemma utf8_char_Cons: "\<exists>b bs. utf8_char x = b # bs"
  by (simp add: utf8_char_def)

lemma utf8_char_prefix:
  assumes "utf8_char c @ rest = utf8_char d @ rest'"
  shows "c = d \<and> rest = rest'"
proof -
  obtain b bs b' bs' where bb: "utf8_char c = b # bs" "utf8_char d = b' # bs'" using utf8_char_Cons by metis
  then have "b = b'" using assms by simp
  then have same: "c < 128 \<longleftrightarrow> d < 128" "c < 2048 \<longleftrightarrow> d < 2048" "c < 65536 \<longleftrightarrow> d < 65536"
    using utf8_lead [OF bb(1)] utf8_lead [OF bb(2)] by blast+
  have step: "c = d" if "c div 64 = d div 64" "c mod 64 = d mod 64" using that by (metis div_mult_mod_eq)
  have step2: "c div 64 = d div 64" if "c div 4096 = d div 4096" "c div 64 mod 64 = d div 64 mod 64"
    using div_mod_step [of c 64 d] that by simp
  have step3: "c div 4096 = d div 4096" if "c div 262144 = d div 262144" "c div 4096 mod 64 = d div 4096 mod 64"
    using div_mod_step [of c 4096 d] that by simp
  consider "c < 128" | "128 \<le> c" "c < 2048" | "2048 \<le> c" "c < 65536" | "65536 \<le> c" by linarith
  then show ?thesis
  proof cases
    case 1
    then show ?thesis using assms same by (simp add: utf8_char_def)
  next
    case 2
    then have "c div 64 = d div 64" "c mod 64 = d mod 64" "rest = rest'"
      using assms same by (simp_all add: utf8_char_def)
    then show ?thesis using step by blast
  next
    case 3
    then have "c div 4096 = d div 4096" "c div 64 mod 64 = d div 64 mod 64" "c mod 64 = d mod 64" "rest = rest'"
      using assms same by (simp_all add: utf8_char_def)
    then show ?thesis using step step2 by blast
  next
    case 4
    then have "c div 262144 = d div 262144" "c div 4096 mod 64 = d div 4096 mod 64"
      "c div 64 mod 64 = d div 64 mod 64" "c mod 64 = d mod 64" "rest = rest'"
      using assms same by (simp_all add: utf8_char_def)
    then show ?thesis using step step2 step3 by blast
  qed
qed

lemma utf8_inj: "utf8 s = utf8 t \<Longrightarrow> s = t"
proof (induction s arbitrary: t)
  case Nil
  then show ?case by (cases t) (auto simp: utf8_def utf8_char_def split: if_splits)
next
  case (Cons c s)
  obtain d t' where t: "t = d # t'" using Cons.prems by (cases t) (auto simp: utf8_def utf8_char_def split: if_splits)
  have "utf8_char c @ utf8 s = utf8_char d @ utf8 t'" using Cons.prems unfolding t by (simp add: utf8_def)
  then have "c = d \<and> utf8 s = utf8 t'" by (rule utf8_char_prefix)
  then show ?case using Cons.IH t by blast
qed

section \<open>Files\<close>

text \<open>The results of \<open>fs::read_to_string\<close>, and of opening a file and writing to it.\<close>

datatype file_read = FileContents rstring | FileNotFound rstring | FileReadError rstring

datatype file_write = Written | OpenFailed rstring | WriteFailed rstring nat

end
