(* ===== verification/Fs_Format.thy ===== *)
theory Fs_Format
  imports Fs_Text
begin

text \<open>
  The transaction file (\<open>eventcore-fs/src/format.rs\<close>): a header line, one line per event, and the hash
  of the payload in the header. \<open>serde_json\<close> is a pair of parameters, \<open>to_line\<close> (\<open>to_string\<close>) and
  \<open>from_line\<close> (\<open>from_str\<close>, with the text of its error), and SHA-256 is the parameter \<open>sha256\<close> from
  UTF-8 text to its digest. \<open>'v\<close> is the type of JSON values.
\<close>

section \<open>Records\<close>

definition format_version :: u32 where
  "format_version = 2"

record 'v event_envelope =
  ee_event_id :: uuid
  ee_stream_id :: rstring
  ee_stream_version :: usize
  ee_event_type :: rstring
  ee_event_data :: 'v
  ee_metadata :: 'v

datatype 'v line = LHeader transaction_header | LEvent "'v event_envelope"

datatype 'v loaded_transaction =
  Valid transaction_header "'v event_envelope list"
| Integrity uuid rstring

type_synonym 'v to_line = "'v line \<Rightarrow> rstring option"
type_synonym 'v from_line = "rstring \<Rightarrow> rstring + 'v line"

section \<open>Reading\<close>

definition content_hash :: "(rstring \<Rightarrow> u8 list) \<Rightarrow> rstring \<Rightarrow> rstring" where
  "content_hash sha256 payload = hex_bytes (sha256 payload)"

definition split_header_payload :: "rstring \<Rightarrow> path_buf \<Rightarrow> fs_error + rstring \<times> rstring" where
  "split_header_payload contents path =
     (case dropWhile (\<lambda>c. c \<noteq> 10) contents of
        [] \<Rightarrow> Inl (Corrupted path (lit ''missing header line''))
      | _ # payload \<Rightarrow> Inr (takeWhile (\<lambda>c. c \<noteq> 10) contents, payload))"

definition parse_header :: "'v from_line \<Rightarrow> rstring \<Rightarrow> path_buf \<Rightarrow> fs_error + transaction_header" where
  "parse_header from_line header_line path =
     (case from_line header_line of
        Inr (LHeader h) \<Rightarrow> Inr h
      | Inr (LEvent _) \<Rightarrow> Inl (Corrupted path (lit ''first line is not a header''))
      | Inl e \<Rightarrow> Inl (Corrupted path (lit ''invalid header line: '' @ e)))"

definition parse_event_line ::
  "'v from_line \<Rightarrow> path_buf \<Rightarrow> 'v event_envelope list \<Rightarrow> rstring \<Rightarrow> fs_error + 'v event_envelope list" where
  "parse_event_line from_line path events l =
     (if str_trim l = [] then Inr events
      else (case from_line l of
              Inr (LEvent e) \<Rightarrow> Inr (events @ [e])
            | Inr (LHeader _) \<Rightarrow> Inl (Corrupted path (lit ''unexpected header record among events''))
            | Inl e \<Rightarrow> Inl (Corrupted path (lit ''invalid line: '' @ e))))"

definition parse_events :: "'v from_line \<Rightarrow> rstring \<Rightarrow> path_buf \<Rightarrow> fs_error + 'v event_envelope list" where
  "parse_events from_line payload path = try_fold (parse_event_line from_line path) [] (str_lines payload)"

definition load_transaction ::
  "'v from_line \<Rightarrow> (rstring \<Rightarrow> u8 list) \<Rightarrow> path_buf \<Rightarrow> file_read \<Rightarrow> fs_error + 'v loaded_transaction" where
  "load_transaction from_line sha256 path file =
     (case file of
        FileNotFound e \<Rightarrow> Inl (Corrupted path (lit ''read failed: '' @ e))
      | FileReadError e \<Rightarrow> Inl (Corrupted path (lit ''read failed: '' @ e))
      | FileContents contents \<Rightarrow>
          rbind (split_header_payload contents path) (\<lambda>(header_line, payload).
          rbind (parse_header from_line header_line path) (\<lambda>h.
            (let actual = content_hash sha256 payload in
             case th_content_hash h of
               Some expected \<Rightarrow>
                 if actual \<noteq> expected then
                   Inr (Integrity (th_transaction_id h)
                     (lit ''content hash mismatch: header anchor '' @ expected @ lit '' != computed '' @ actual))
                 else rbind (parse_events from_line payload path) (\<lambda>events. Inr (Valid h events))
             | None \<Rightarrow> rbind (parse_events from_line payload path) (\<lambda>events. Inr (Valid h events))))))"

definition parse_transaction ::
  "'v from_line \<Rightarrow> (rstring \<Rightarrow> u8 list) \<Rightarrow> (uuid \<Rightarrow> rstring) \<Rightarrow> path_buf \<Rightarrow> file_read
     \<Rightarrow> fs_error + transaction_header \<times> 'v event_envelope list" where
  "parse_transaction from_line sha256 show_uuid path file =
     rbind (load_transaction from_line sha256 path file)
       (\<lambda>loaded. case loaded of
          Valid h events \<Rightarrow> Inr (h, events)
        | Integrity t detail \<Rightarrow>
            Inl (Corrupted path (lit ''integrity failure for '' @ show_uuid t @ lit '': '' @ detail)))"

section \<open>Writing\<close>

definition serialize_line :: "'v to_line \<Rightarrow> 'v line \<Rightarrow> event_store_error + rstring" where
  "serialize_line to_line l = (case to_line l of None \<Rightarrow> Inl (StoreFailure AppendEvents) | Some s \<Rightarrow> Inr s)"

definition serialize_transaction ::
  "'v to_line \<Rightarrow> (rstring \<Rightarrow> u8 list) \<Rightarrow> transaction_header \<Rightarrow> 'v event_envelope list
     \<Rightarrow> event_store_error + rstring" where
  "serialize_transaction to_line sha256 h events =
     rbind (collect_results (map (\<lambda>e. serialize_line to_line (LEvent e)) events)) (\<lambda>event_lines.
       let payload = join_lines event_lines @ [10];
           header = h\<lparr>th_content_hash := Some (content_hash sha256 payload)\<rparr>
       in rbind (serialize_line to_line (LHeader header)) (\<lambda>header_line.
            Inr (header_line @ [10] @ payload)))"

section \<open>Round trip\<close>

text \<open>
  What is documented of \<open>serde_json\<close> for these types: compact output is one line of text, and parsing
  it gives the value back.
\<close>

definition serde_laws :: "'v to_line \<Rightarrow> 'v from_line \<Rightarrow> bool" where
  "serde_laws to_line from_line \<longleftrightarrow>
     (\<forall>l s. to_line l = Some s \<longrightarrow> one_line s \<and> from_line s = Inr l)"

lemma split_header_line:
  assumes "10 \<notin> set l"
  shows "split_header_payload (l @ 10 # payload) path = Inr (l, payload)"
proof -
  have "\<forall>x \<in> set l. x \<noteq> 10" using assms by blast
  then show ?thesis by (simp add: split_header_payload_def dropWhile_append3 takeWhile_append2)
qed

lemma parse_event_lines:
  assumes "serde_laws to_line from_line"
    and "map (\<lambda>e. serialize_line to_line (LEvent e)) events = map Inr ls"
  shows "try_fold (parse_event_line from_line path) before ls = Inr (before @ events)" "list_all one_line ls"
proof -
  have "try_fold (parse_event_line from_line path) before ls = Inr (before @ events) \<and> list_all one_line ls"
    using assms(2)
  proof (induction events arbitrary: before ls)
    case (Cons e events)
    then obtain l ls' where ls: "ls = l # ls'" by (cases ls) auto
    then have "to_line (LEvent e) = Some l"
      using Cons.prems by (auto simp: serialize_line_def split: option.splits)
    then have "one_line l" "from_line l = Inr (LEvent e)" using assms(1) unfolding serde_laws_def by blast+
    then show ?case
      using Cons ls by (simp add: parse_event_line_def one_line_def)
  qed simp
  then show "try_fold (parse_event_line from_line path) before ls = Inr (before @ events)" "list_all one_line ls"
    by simp_all
qed

lemma serialize_transaction_shape:
  assumes "serialize_transaction to_line sha256 h events = Inr body"
  obtains ls header_line where "map (\<lambda>e. serialize_line to_line (LEvent e)) events = map Inr ls"
    and "to_line (LHeader (h\<lparr>th_content_hash := Some (content_hash sha256 (join_lines ls @ [10]))\<rparr>)) = Some header_line"
    and "body = header_line @ 10 # (join_lines ls @ [10])"
  using assms
  by (auto simp: serialize_transaction_def rbind_Inr_iff Let_def collect_results_Inr_iff serialize_line_def
      split: option.splits)

lemma str_lines_payload:
  assumes "list_all one_line ls"
  shows "try_fold (parse_event_line from_line path) [] (str_lines (join_lines ls @ [10]))
    = try_fold (parse_event_line from_line path) [] ls"
proof (cases "ls = []")
  case True
  have "str_lines [10] = [[]]" using str_lines_Cons [of "[]" "[]"] by (simp add: strip_cr_def)
  then show ?thesis using True by (simp add: parse_event_line_def str_trim_def)
next
  case False
  then show ?thesis using lines_unlines [OF assms, of "[]"] by (simp add: join_unlines)
qed

lemma load_serialized:
  assumes "serde_laws to_line from_line" "serialize_transaction to_line sha256 h events = Inr body"
  shows "\<exists>anchor. \<forall>path. load_transaction from_line sha256 path (FileContents body)
    = Inr (Valid (h\<lparr>th_content_hash := Some anchor\<rparr>) events)"
proof -
  obtain ls header_line where ls: "map (\<lambda>e. serialize_line to_line (LEvent e)) events = map Inr ls"
    and hl: "to_line (LHeader (h\<lparr>th_content_hash := Some (content_hash sha256 (join_lines ls @ [10]))\<rparr>)) = Some header_line"
    and body: "body = header_line @ 10 # (join_lines ls @ [10])"
    by (rule serialize_transaction_shape [OF assms(2)])
  have hdr: "one_line header_line"
    "from_line header_line = Inr (LHeader (h\<lparr>th_content_hash := Some (content_hash sha256 (join_lines ls @ [10]))\<rparr>))"
    using assms(1) hl unfolding serde_laws_def by blast+
  then have "10 \<notin> set header_line" by (simp add: one_line_def)
  moreover have "parse_events from_line (join_lines ls @ [10]) path = Inr events" for path
    using parse_event_lines(1) [OF assms(1) ls, where path = path and before = "[]"]
      parse_event_lines(2) [OF assms(1) ls]
    by (simp add: parse_events_def str_lines_payload)
  ultimately show ?thesis
    unfolding body by (simp add: load_transaction_def split_header_line parse_header_def hdr(2) Let_def) blast
qed

text \<open>A payload with another hash is never parsed as trustworthy.\<close>

lemma load_tampered:
  assumes "serde_laws to_line from_line" "serialize_transaction to_line sha256 h events = Inr body"
    and "body = header_line @ 10 # payload" "10 \<notin> set header_line"
    and "content_hash sha256 payload' \<noteq> content_hash sha256 payload"
  shows "\<exists>detail. load_transaction from_line sha256 path (FileContents (header_line @ 10 # payload'))
    = Inr (Integrity (th_transaction_id h) detail)"
proof -
  obtain ls hl where hl: "to_line (LHeader (h\<lparr>th_content_hash := Some (content_hash sha256 (join_lines ls @ [10]))\<rparr>)) = Some hl"
    and body: "body = hl @ 10 # (join_lines ls @ [10])"
    by (rule serialize_transaction_shape [OF assms(2)])
  have hdr: "one_line hl"
    "from_line hl = Inr (LHeader (h\<lparr>th_content_hash := Some (content_hash sha256 (join_lines ls @ [10]))\<rparr>))"
    using assms(1) hl unfolding serde_laws_def by blast+
  have "10 \<notin> set hl" using hdr(1) by (simp add: one_line_def)
  then have "split_header_payload body path = Inr (hl, join_lines ls @ [10])"
    unfolding body by (rule split_header_line)
  moreover have "split_header_payload body path = Inr (header_line, payload)"
    unfolding assms(3) by (rule split_header_line [OF assms(4)])
  ultimately have eq: "hl = header_line" "payload = join_lines ls @ [10]" by simp_all
  show ?thesis
    using assms(5) hdr(2)
    by (simp add: load_transaction_def split_header_line [OF assms(4)] parse_header_def eq Let_def)
qed

end
