(* ===== verification/Fs_Ingestion.thy ===== *)
theory Fs_Ingestion
  imports Fs_Text
begin

text \<open>
  The local-ingestion order of the file back end (\<open>eventcore-fs/src/ingestion.rs\<close>): sequence numbers,
  the positions made of them, and the append-only log file. The JSON of a log entry is a pair of
  parameters, with the texts of their errors.
\<close>

section \<open>State and operations\<close>

record ingestion_log =
  seq_by_event :: "(uuid, u64) hashmap"
  next_seq :: u64

definition position_from_seq :: "u64 \<Rightarrow> uuid" where
  "position_from_seq seq = push_bit 64 (ucast seq)"

definition seq_of :: "ingestion_log \<Rightarrow> uuid \<Rightarrow> u64 option" where
  "seq_of lg e = hm_get (seq_by_event lg) e"

definition allocate :: "ingestion_log \<Rightarrow> uuid \<Rightarrow> u64 \<times> ingestion_log" where
  "allocate lg e =
     (let seq = next_seq lg
      in (seq, lg\<lparr>next_seq := next_seq lg + 1, seq_by_event := hm_insert e seq (seq_by_event lg)\<rparr>))"

type_synonym entry_from_line = "rstring \<Rightarrow> rstring + uuid \<times> u64"
type_synonym entry_to_line = "uuid \<times> u64 \<Rightarrow> rstring + rstring"

definition load_line ::
  "entry_from_line \<Rightarrow> path_buf \<Rightarrow> (uuid, u64) hashmap \<times> u64 \<Rightarrow> rstring
     \<Rightarrow> fs_error + (uuid, u64) hashmap \<times> u64" where
  "load_line from_line path = (\<lambda>(seqs, max_seq) l.
     if str_trim l = [] then Inr (seqs, max_seq)
     else (case from_line l of
             Inl e \<Rightarrow> Inl (Corrupted path (lit ''invalid ingestion-log line: '' @ e))
           | Inr (e, seq) \<Rightarrow> Inr (hm_insert e seq seqs, max max_seq seq)))"

definition load_log :: "entry_from_line \<Rightarrow> path_buf \<Rightarrow> file_read \<Rightarrow> fs_error + ingestion_log" where
  "load_log from_line path file =
     (case file of
        FileReadError e \<Rightarrow> Inl (InitFailed path e)
      | _ \<Rightarrow>
          (let contents = (case file of FileContents c \<Rightarrow> c | _ \<Rightarrow> [])
           in rbind (try_fold (load_line from_line path) ([], 0) (str_lines contents))
                (\<lambda>(seqs, max_seq). Inr \<lparr>seq_by_event = seqs, next_seq = max_seq + 1\<rparr>)))"

text \<open>
  \<open>persist\<close>: the file's contents before (\<open>create(true)\<close> makes an absent one empty) and after, and the
  result, for what opening and writing do.
\<close>

definition persist ::
  "entry_to_line \<Rightarrow> path_buf \<Rightarrow> file_write \<Rightarrow> (uuid \<times> u64) list \<Rightarrow> rstring \<Rightarrow> (fs_error + unit) \<times> rstring" where
  "persist to_line path outcome new_entries contents =
     (if new_entries = [] then (Inr (), contents)
      else case outcome of
        OpenFailed e \<Rightarrow> (Inl (InitFailed path e), contents)
      | _ \<Rightarrow>
          (case collect_results (map to_line new_entries) of
             Inl e \<Rightarrow> (Inl (Corrupted path (lit ''failed to serialize ingestion-log entry: '' @ e)), contents)
           | Inr ls \<Rightarrow>
               (case outcome of
                  WriteFailed e n \<Rightarrow> (Inl (InitFailed path e), contents @ take n (unlines ls))
                | _ \<Rightarrow> (Inr (), contents @ unlines ls))))"

section \<open>Positions\<close>

lemma uint_position: "uint (position_from_seq seq) = uint seq * 2 ^ 64"
proof -
  have bound: "uint seq < 2 ^ LENGTH(64)" "0 \<le> uint seq" by (rule unsigned_less) simp
  then have "uint (ucast seq :: uuid) = uint seq"
    by (simp add: unsigned_ucast_eq take_bit_int_eq_self)
  moreover have "uint seq * 2 ^ 64 < 2 ^ 128" "0 \<le> uint seq * 2 ^ 64" using bound by simp_all
  moreover have "uint (push_bit 64 (ucast seq :: uuid)) = take_bit LENGTH(128) (push_bit 64 (uint (ucast seq :: uuid)))"
    by (rule unsigned_push_bit_eq)
  ultimately show ?thesis
    by (simp only: position_from_seq_def push_bit_eq_mult) (simp add: take_bit_int_eq_self)
qed

lemma seq_position_order: "position_from_seq a < position_from_seq b \<longleftrightarrow> a < b"
  unfolding word_less_def uint_position by simp

lemma position_inj: "position_from_seq a = position_from_seq b \<longleftrightarrow> a = b"
  using seq_position_order [of a b] seq_position_order [of b a] by (cases a b rule: linorder_cases) auto

lemma position_not_nil: "0 < seq \<Longrightarrow> 0 < position_from_seq seq"
  using seq_position_order [of 0 seq] unfolding position_from_seq_def by simp

section \<open>Allocation\<close>

text \<open>Every number handed out is positive, below the next one, and handed out once.\<close>

definition log_wf :: "ingestion_log \<Rightarrow> bool" where
  "log_wf lg \<longleftrightarrow> 0 < next_seq lg
     \<and> (\<forall>e s. seq_of lg e = Some s \<longrightarrow> 0 < s \<and> s < next_seq lg)
     \<and> (\<forall>e e' s. seq_of lg e = Some s \<longrightarrow> seq_of lg e' = Some s \<longrightarrow> e = e')"

lemma allocate_wf:
  assumes "log_wf lg" "next_seq lg \<noteq> - 1" "seq_of lg e = None" "allocate lg e = (seq, lg')"
  shows "log_wf lg'" "seq = next_seq lg" "next_seq lg' = next_seq lg + 1"
    "seq_of lg' = (seq_of lg)(e \<mapsto> seq)"
proof -
  have lg': "seq = next_seq lg" "next_seq lg' = next_seq lg + 1" "seq_of lg' = (seq_of lg)(e \<mapsto> seq)"
    using assms(4) by (auto simp: allocate_def Let_def seq_of_def fun_eq_iff)
  then show "seq = next_seq lg" "next_seq lg' = next_seq lg + 1" "seq_of lg' = (seq_of lg)(e \<mapsto> seq)" by blast+
  have "next_seq lg < - 1" using assms(2) by (simp add: word_order.not_eq_extremum)
  then have less: "next_seq lg < next_seq lg + 1" by (simp add: word_less_nat_alt word_less_Suc_unat)
  have old: "seq_of lg x = Some s \<Longrightarrow> 0 < s \<and> s < next_seq lg" for x s
    using assms(1) unfolding log_wf_def by blast
  show "log_wf lg'"
    unfolding log_wf_def lg'
  proof (intro conjI allI impI)
    show "0 < next_seq lg + 1" using less by (metis order.strict_trans1 word_zero_le)
  next
    fix x s
    assume "((seq_of lg)(e \<mapsto> next_seq lg)) x = Some s"
    then show "0 < s" "s < next_seq lg + 1"
      using old [of x s] less assms(1) by (auto simp: log_wf_def split: if_splits intro: order.strict_trans)
  next
    fix x y s
    assume "((seq_of lg)(e \<mapsto> next_seq lg)) x = Some s" "((seq_of lg)(e \<mapsto> next_seq lg)) y = Some s"
    then show "x = y"
      using old [of x s] old [of y s] assms(1) by (auto simp: log_wf_def split: if_splits)
  qed
qed

text \<open>Allocating for a list of events, and the entries to persist for it.\<close>

fun allocate_all :: "ingestion_log \<Rightarrow> uuid list \<Rightarrow> (uuid \<times> u64) list \<times> ingestion_log" where
  "allocate_all lg [] = ([], lg)"
| "allocate_all lg (e # es) =
     (let (seq, lg1) = allocate lg e; (rest, lg2) = allocate_all lg1 es in ((e, seq) # rest, lg2))"

lemma allocate_all_append:
  "allocate_all lg (es @ es') =
     (let (xs, lg1) = allocate_all lg es; (ys, lg2) = allocate_all lg1 es' in (xs @ ys, lg2))"
  by (induction es arbitrary: lg) (simp_all add: Let_def split: prod.splits)

lemma next_seq_room:
  fixes w :: u64
  assumes "unat w + Suc n < 2 ^ 64"
  shows "w \<noteq> - 1" "unat (w + 1) = Suc (unat w)"
proof -
  have max: "unat (- 1 :: u64) = 2 ^ 64 - 1" by (simp add: unsigned_minus_1_eq_mask mask_eq_exp_minus_1)
  then show ne: "w \<noteq> - 1" using assms by auto
  then have "w < - 1" by (simp add: word_order.not_eq_extremum)
  then show "unat (w + 1) = Suc (unat w)" by (rule word_less_Suc_unat)
qed

lemma allocate_all_wf:
  assumes "log_wf lg" "unat (next_seq lg) + length es < 2 ^ 64" "distinct es"
    and "\<forall>e \<in> set es. seq_of lg e = None" "allocate_all lg es = (entries, lg')"
  shows "log_wf lg' \<and> unat (next_seq lg') = unat (next_seq lg) + length es \<and> map fst entries = es
    \<and> seq_of lg' = seq_of lg ++ map_of entries \<and> (\<forall>(e, s) \<in> set entries. next_seq lg \<le> s)"
  using assms
proof (induction es arbitrary: lg entries)
  case (Cons e es)
  obtain seq lg1 where a: "allocate lg e = (seq, lg1)" by (rule prod.exhaust)
  obtain rest where r: "allocate_all lg1 es = (rest, lg')" "entries = (e, seq) # rest"
    using Cons.prems(5) a by (auto simp: Let_def split: prod.splits)
  have room: "next_seq lg \<noteq> - 1" "unat (next_seq lg + 1) = Suc (unat (next_seq lg))"
    using next_seq_room [of "next_seq lg" "length es"] Cons.prems(2) by simp_all
  have "seq_of lg e = None" using Cons.prems(4) by simp
  note a1 = allocate_wf [OF Cons.prems(1) room(1) this a]
  have ih: "log_wf lg'" "unat (next_seq lg') = unat (next_seq lg1) + length es" "map fst rest = es"
    "seq_of lg' = seq_of lg1 ++ map_of rest" "\<forall>(e, s) \<in> set rest. next_seq lg1 \<le> s"
  proof -
    have "\<forall>x \<in> set es. seq_of lg1 x = None" using Cons.prems(3,4) by (auto simp: a1(4))
    moreover have "unat (next_seq lg1) + length es < 2 ^ 64" "distinct es"
      using Cons.prems(2,3) a1(3) room(2) by simp_all
    ultimately show "log_wf lg'" "unat (next_seq lg') = unat (next_seq lg1) + length es" "map fst rest = es"
      "seq_of lg' = seq_of lg1 ++ map_of rest" "\<forall>(e, s) \<in> set rest. next_seq lg1 \<le> s"
      using Cons.IH [OF a1(1) _ _ _ r(1)] by blast+
  qed
  have up: "next_seq lg \<le> next_seq lg1" unfolding a1(3) using room(2) by (simp add: word_le_nat_alt)
  have "e \<notin> fst ` set rest" using Cons.prems(3) ih(3) by force
  then have none: "hm_get rest e = None" by (simp add: map_of_eq_None_iff)
  have "seq_of lg1 ++ map_of rest = seq_of lg ++ map_of entries"
  proof
    fix x
    show "(seq_of lg1 ++ map_of rest) x = (seq_of lg ++ map_of entries) x"
      using none by (simp add: a1 r(2) map_add_def split: option.split)
  qed
  then have "seq_of lg' = seq_of lg ++ map_of entries" using ih(4) by simp
  moreover have "\<forall>(e, s) \<in> set entries. next_seq lg \<le> s"
    using ih(5) up unfolding r(2) by (auto simp: a1(2) intro: order.trans)
  moreover have "unat (next_seq lg') = unat (next_seq lg) + length (e # es)" "map fst entries = e # es"
    using ih(2,3) a1(3) room(2) r(2) by simp_all
  ultimately show ?case using ih(1) by blast
qed simp

section \<open>The log file\<close>

definition entry_laws :: "entry_to_line \<Rightarrow> entry_from_line \<Rightarrow> bool" where
  "entry_laws to_line from_line \<longleftrightarrow>
     (\<forall>entry s. to_line entry = Inr s \<longrightarrow> one_line s \<and> from_line s = Inr entry)"

text \<open>A log file as \<open>persist\<close> leaves it, and the log it stands for.\<close>

definition log_file :: "entry_from_line \<Rightarrow> rstring \<Rightarrow> ingestion_log \<Rightarrow> bool" where
  "log_file from_line contents lg \<longleftrightarrow> (\<exists>ls. contents = unlines ls \<and> list_all one_line ls
     \<and> (\<forall>path. try_fold (load_line from_line path) ([], 0) ls = Inr (seq_by_event lg, next_seq lg - 1)))"

lemma log_file_load:
  "log_file from_line contents lg \<Longrightarrow> load_log from_line path (FileContents contents) = Inr lg"
  using lines_unlines [of _ "[]"] by (auto simp: log_file_def load_log_def Let_def)

lemma load_allocated:
  assumes "entry_laws to_line from_line" "unat (next_seq lg) + length es < 2 ^ 64" "0 < next_seq lg"
    and "allocate_all lg es = (entries, lg')" "map to_line entries = map Inr ls"
  shows "try_fold (load_line from_line path) (seq_by_event lg, next_seq lg - 1) ls
      = Inr (seq_by_event lg', next_seq lg' - 1) \<and> list_all one_line ls"
  using assms(2-)
proof (induction es arbitrary: lg entries ls)
  case (Cons e es)
  obtain seq lg1 where a: "allocate lg e = (seq, lg1)" by (rule prod.exhaust)
  obtain rest where r: "allocate_all lg1 es = (rest, lg')" "entries = (e, seq) # rest"
    using Cons.prems(3) a by (auto simp: Let_def split: prod.splits)
  obtain l ls' where ls: "ls = l # ls'" "to_line (e, seq) = Inr l" "map to_line rest = map Inr ls'"
    using Cons.prems(4) r(2) by (cases ls) auto
  have l: "one_line l" "from_line l = Inr (e, seq)" using assms(1) ls(2) unfolding entry_laws_def by blast+
  have room: "unat (next_seq lg + 1) = Suc (unat (next_seq lg))"
    using next_seq_room(2) [of "next_seq lg" "length es"] Cons.prems(1) by simp
  have a1: "seq = next_seq lg" "next_seq lg1 = next_seq lg + 1" "seq_by_event lg1 = hm_insert e seq (seq_by_event lg)"
    using a by (auto simp: allocate_def Let_def)
  define v where "v = next_seq lg - 1"
  have v: "next_seq lg = v + 1" by (simp add: v_def)
  then have "v \<noteq> - 1" using Cons.prems(2) by auto
  then have "v < - 1" by (simp add: word_order.not_eq_extremum)
  then have "v \<le> next_seq lg" unfolding v by (simp add: word_le_nat_alt word_less_Suc_unat)
  then have step: "load_line from_line path (seq_by_event lg, next_seq lg - 1) l
      = Inr (seq_by_event lg1, next_seq lg1 - 1)"
    using l unfolding v_def [symmetric] by (simp add: load_line_def one_line_def a1 max_def)
  have "try_fold (load_line from_line path) (seq_by_event lg1, next_seq lg1 - 1) ls'
      = Inr (seq_by_event lg', next_seq lg' - 1) \<and> list_all one_line ls'"
    by (rule Cons.IH [OF _ _ r(1) ls(3)]) (use Cons.prems room a1 in \<open>simp_all add: word_less_nat_alt\<close>)
  then show ?case using step l by (simp add: ls)
qed simp

lemma allocate_all_increasing:
  assumes "log_wf lg" "unat (next_seq lg) + length es < 2 ^ 64" "distinct es"
    and "\<forall>e \<in> set es. seq_of lg e = None" "allocate_all lg es = (entries, lg')"
  shows "sorted_wrt (<) (map snd entries)"
  using assms
proof (induction es arbitrary: lg entries)
  case (Cons e es)
  obtain seq lg1 where a: "allocate lg e = (seq, lg1)" by (rule prod.exhaust)
  obtain rest where r: "allocate_all lg1 es = (rest, lg')" "entries = (e, seq) # rest"
    using Cons.prems(5) a by (auto simp: Let_def split: prod.splits)
  have room: "next_seq lg \<noteq> - 1" "unat (next_seq lg + 1) = Suc (unat (next_seq lg))"
    using next_seq_room [of "next_seq lg" "length es"] Cons.prems(2) by simp_all
  have "seq_of lg e = None" using Cons.prems(4) by simp
  note a1 = allocate_wf [OF Cons.prems(1) room(1) this a]
  have l1: "unat (next_seq lg1) + length es < 2 ^ 64" "distinct es" "\<forall>x \<in> set es. seq_of lg1 x = None"
    using Cons.prems(2-4) a1(3,4) room(2) by auto
  have "sorted_wrt (<) (map snd rest)" by (rule Cons.IH [OF a1(1) l1 r(1)])
  moreover have "next_seq lg1 \<le> s" if "(x, s) \<in> set rest" for x s
    using allocate_all_wf [OF a1(1) l1 r(1)] that by blast
  moreover have "seq < next_seq lg1" using a1(2,3) room(2) by (simp add: word_less_nat_alt)
  ultimately show ?case unfolding r(2) by (force intro: order.strict_trans2)
qed simp

text \<open>Appending the entries of an allocation to the file of a log gives the file of the new log.\<close>

lemma log_file_append:
  assumes "entry_laws to_line from_line" "unat (next_seq lg) + length es < 2 ^ 64" "0 < next_seq lg"
    and "allocate_all lg es = (entries, lg')" "map to_line entries = map Inr ls" "log_file from_line contents lg"
  shows "log_file from_line (contents @ unlines ls) lg'"
proof -
  obtain ls0 where ls0: "contents = unlines ls0" "list_all one_line ls0"
    "\<And>path. try_fold (load_line from_line path) ([], 0) ls0 = Inr (seq_by_event lg, next_seq lg - 1)"
    using assms(6) unfolding log_file_def by blast
  note l = load_allocated [OF assms(1-5)]
  have "contents @ unlines ls = unlines (ls0 @ ls)" "list_all one_line (ls0 @ ls)" using ls0 l by simp_all
  moreover have "try_fold (load_line from_line path) ([], 0) (ls0 @ ls) = Inr (seq_by_event lg', next_seq lg' - 1)" for path
    unfolding try_fold_append ls0(3) rbind.simps using l by (rule conjunct1)
  ultimately show ?thesis unfolding log_file_def by blast
qed

end
