(* ===== verification/Fs_Index.thy ===== *)
theory Fs_Index
  imports Fs_Linearize Fs_Format Fs_Ingestion
begin

text \<open>
  The in-memory index (\<open>eventcore-fs/src/index.rs\<close>): building it from the transactions and the
  ingestion log, scanning a directory, the envelopes of a new transaction and the step that adds it.
\<close>

section \<open>State\<close>

record 'v indexed_event =
  ix_event_id :: uuid
  ix_stream_id :: rstring
  ix_event_type :: rstring
  ix_event_data :: 'v

record 'v index =
  ix_headers :: headers
  ix_by_ingestion :: "(uuid \<times> 'v indexed_event) list"
  ix_streams :: "(rstring, 'v indexed_event list) hashmap"
  ix_tips :: "uuid list"
  ix_log :: ingestion_log
  ix_integrity_failures :: "(uuid \<times> rstring) list"

definition stream_events :: "(rstring, 'v indexed_event list) hashmap \<Rightarrow> rstring \<Rightarrow> 'v indexed_event list" where
  "stream_events m s = (case hm_get m s of None \<Rightarrow> [] | Some xs \<Rightarrow> xs)"

definition stream_head :: "'v index \<Rightarrow> rstring \<Rightarrow> usize" where
  "stream_head ix s = vlen (stream_events (ix_streams ix) s)"

text \<open>\<open>streams.entry(id).or_default().push(event)\<close>\<close>

definition push_event ::
  "'v indexed_event \<Rightarrow> (rstring, 'v indexed_event list) hashmap \<Rightarrow> (rstring, 'v indexed_event list) hashmap" where
  "push_event x m = hm_insert (ix_stream_id x) (stream_events m (ix_stream_id x) @ [x]) m"

definition ingest_appended :: "'v indexed_event \<Rightarrow> 'v index \<Rightarrow> (uuid \<times> (uuid \<times> u64)) \<times> 'v index" where
  "ingest_appended x ix =
     (let (seq, lg) = allocate (ix_log ix) (ix_event_id x); position = position_from_seq seq
      in ((position, (ix_event_id x, seq)),
          ix\<lparr>ix_log := lg, ix_by_ingestion := ix_by_ingestion ix @ [(position, x)]\<rparr>))"

section \<open>build_index\<close>

definition to_indexed :: "'v event_envelope \<Rightarrow> 'v indexed_event" where
  "to_indexed e = \<lparr>ix_event_id = ee_event_id e, ix_stream_id = ee_stream_id e,
     ix_event_type = ee_event_type e, ix_event_data = ee_event_data e\<rparr>"

record 'v index_walk =
  wk_streams :: "(rstring, 'v indexed_event list) hashmap"
  wk_positioned :: "(uuid \<times> 'v indexed_event) list"
  wk_new_entries :: "(uuid \<times> u64) list"
  wk_log :: ingestion_log

definition walk_event :: "'v event_envelope \<Rightarrow> 'v index_walk \<Rightarrow> 'v index_walk" where
  "walk_event e w =
     (let x = to_indexed e;
          (seq, new, lg) =
            (case seq_of (wk_log w) (ix_event_id x) of
               Some seq \<Rightarrow> (seq, [], wk_log w)
             | None \<Rightarrow> (let (seq, lg) = allocate (wk_log w) (ix_event_id x) in (seq, [(ix_event_id x, seq)], lg)))
      in w\<lparr>wk_streams := push_event x (wk_streams w),
           wk_positioned := wk_positioned w @ [(position_from_seq seq, x)],
           wk_new_entries := wk_new_entries w @ new, wk_log := lg\<rparr>)"

text \<open>The loop over the canonical order; each transaction's events are removed from the map when met.\<close>

fun walk_order :: "uuid list \<Rightarrow> (uuid, 'v event_envelope list) hashmap \<Rightarrow> 'v index_walk \<Rightarrow> 'v index_walk" where
  "walk_order [] events_by_txn w = w"
| "walk_order (t # order) events_by_txn w =
     (let events = (case hm_get events_by_txn t of None \<Rightarrow> [] | Some es \<Rightarrow> es)
      in walk_order order (hm_remove t events_by_txn) (fold walk_event events w))"

definition headers_map :: "(transaction_header \<times> 'v event_envelope list) list \<Rightarrow> headers" where
  "headers_map txs = fold (\<lambda>(h, es). hm_insert (th_transaction_id h) h) txs []"

definition events_map ::
  "(transaction_header \<times> 'v event_envelope list) list \<Rightarrow> (uuid, 'v event_envelope list) hashmap" where
  "events_map txs = fold (\<lambda>(h, es). hm_insert (th_transaction_id h) es) txs []"

text \<open>\<open>None\<close>: the recursion over a cyclic graph does not return.\<close>

definition build_index ::
  "(transaction_header \<times> 'v event_envelope list) list \<Rightarrow> ingestion_log
     \<Rightarrow> ('v index \<times> (uuid \<times> u64) list) option" where
  "build_index txs lg =
     (let headers = headers_map txs in
      map_option
        (\<lambda>order.
           let w = walk_order order (events_map txs)
                     \<lparr>wk_streams = [], wk_positioned = [], wk_new_entries = [], wk_log = lg\<rparr>
           in (\<lparr>ix_headers = headers, ix_by_ingestion = sort_key fst (wk_positioned w),
                 ix_streams = wk_streams w, ix_tips = compute_tips headers, ix_log = wk_log w,
                 ix_integrity_failures = []\<rparr>,
               wk_new_entries w))
        (linearize headers))"

section \<open>build_envelopes\<close>

definition next_offset :: "(rstring, usize) hashmap \<Rightarrow> rstring \<Rightarrow> usize" where
  "next_offset added key = (case hm_get added key of None \<Rightarrow> 0 | Some n \<Rightarrow> n) + 1"

fun build_envelopes_loop ::
  "(nat \<Rightarrow> uuid) \<Rightarrow> 'v \<Rightarrow> 'v index \<Rightarrow> (rstring, usize) hashmap \<Rightarrow> nat \<Rightarrow> (rstring \<times> rstring \<times> 'v) list
     \<Rightarrow> 'v event_envelope list \<times> 'v indexed_event list \<times> nat" where
  "build_envelopes_loop now_v7 no_metadata ix added calls [] = ([], [], calls)"
| "build_envelopes_loop now_v7 no_metadata ix added calls ((key, ty, v) # items) =
     (let offset = next_offset added key;
          e = \<lparr>ee_event_id = now_v7 calls, ee_stream_id = key, ee_stream_version = stream_head ix key + offset,
                ee_event_type = ty, ee_event_data = v, ee_metadata = no_metadata\<rparr>;
          x = \<lparr>ix_event_id = now_v7 calls, ix_stream_id = key, ix_event_type = ty, ix_event_data = v\<rparr>;
          (es, xs, calls') = build_envelopes_loop now_v7 no_metadata ix (hm_insert key offset added) (Suc calls) items
      in (e # es, x # xs, calls'))"

definition build_envelopes ::
  "(nat \<Rightarrow> uuid) \<Rightarrow> 'v \<Rightarrow> 'v index \<Rightarrow> nat \<Rightarrow> (rstring \<times> rstring \<times> 'v) list
     \<Rightarrow> 'v event_envelope list \<times> 'v indexed_event list \<times> nat" where
  "build_envelopes now_v7 no_metadata ix calls items = build_envelopes_loop now_v7 no_metadata ix [] calls items"

section \<open>scan_index\<close>

text \<open>\<open>path.extension() == Some("jsonl")\<close> of a file name.\<close>

definition is_jsonl :: "rstring \<Rightarrow> bool" where
  "is_jsonl name \<longleftrightarrow> starts_with (rev name) (rev (lit ''.jsonl'')) \<and> name \<noteq> lit ''.jsonl''"

type_synonym 'v scanned =
  "(transaction_header \<times> 'v event_envelope list) list \<times> (uuid \<times> rstring) list"

text \<open>One directory entry: an error, or a file's name and what reading it returns.\<close>

definition scan_entry ::
  "'v from_line \<Rightarrow> (rstring \<Rightarrow> u8 list) \<Rightarrow> path_buf \<Rightarrow> 'v scanned \<Rightarrow> rstring + rstring \<times> file_read
     \<Rightarrow> fs_error + 'v scanned" where
  "scan_entry from_line sha256 dir = (\<lambda>(txs, failures) entry.
     case entry of
       Inl e \<Rightarrow> Inl (InitFailed dir e)
     | Inr (name, file) \<Rightarrow>
         if \<not> is_jsonl name then Inr (txs, failures)
         else rbind (load_transaction from_line sha256 (dir @ 47 # name) file) (\<lambda>loaded.
           case loaded of
             Valid h events \<Rightarrow> Inr (txs @ [(h, events)], failures)
           | Integrity t detail \<Rightarrow> Inr (txs, failures @ [(t, detail)])))"

definition scan_index ::
  "'v from_line \<Rightarrow> (rstring \<Rightarrow> u8 list) \<Rightarrow> entry_from_line \<Rightarrow> entry_to_line \<Rightarrow> path_buf \<Rightarrow> path_buf
     \<Rightarrow> rstring + (rstring + rstring \<times> file_read) list \<Rightarrow> file_read \<Rightarrow> file_write
     \<Rightarrow> ((fs_error + 'v index) \<times> rstring) option" where
  "scan_index from_line sha256 entry_from_line entry_to_line dir log_path listing log_read log_write =
     (let log_contents = (case log_read of FileContents c \<Rightarrow> c | _ \<Rightarrow> []) in
      case listing of
        Inl e \<Rightarrow> Some (Inl (InitFailed dir e), log_contents)
      | Inr files \<Rightarrow>
          (case try_fold (scan_entry from_line sha256 dir) ([], []) files of
             Inl e \<Rightarrow> Some (Inl e, log_contents)
           | Inr (txs, failures) \<Rightarrow>
               (case load_log entry_from_line log_path log_read of
                  Inl e \<Rightarrow> Some (Inl e, log_contents)
                | Inr lg \<Rightarrow>
                    map_option
                      (\<lambda>(ix, new_entries).
                         let (written, contents) = persist entry_to_line log_path log_write new_entries log_contents
                         in (case written of
                               Inl e \<Rightarrow> Inl e
                             | Inr _ \<Rightarrow> Inr (ix\<lparr>ix_integrity_failures := failures\<rparr>), contents))
                      (build_index txs lg))))"

section \<open>Adding a transaction\<close>

text \<open>The update under the write lock that \<open>append_events\<close> and the merge share, up to the tips.\<close>

fun push_all :: "'v indexed_event list \<Rightarrow> 'v index \<Rightarrow> (uuid \<times> u64) list \<times> 'v index" where
  "push_all [] ix = ([], ix)"
| "push_all (x # xs) ix =
     (let ((position, entry), ix1) = ingest_appended x (ix\<lparr>ix_streams := push_event x (ix_streams ix)\<rparr>);
          (rest, ix2) = push_all xs ix1
      in (entry # rest, ix2))"

definition add_transaction ::
  "uuid \<Rightarrow> transaction_header \<Rightarrow> 'v indexed_event list \<Rightarrow> 'v index \<Rightarrow> (uuid \<times> u64) list \<times> 'v index" where
  "add_transaction t h new_events ix = push_all new_events (ix\<lparr>ix_headers := hm_insert t h (ix_headers ix)\<rparr>)"

end
