(* ===== verification/Fs_Config.thy ===== *)
theory Fs_Config
  imports Fs_Format Fs_Ingestion
begin

text \<open>
  Configuration, directory layout and replica identity of the file back end (\<open>eventcore-fs/src/config.rs\<close>
  and \<open>replica.rs\<close>), and the disk they act on: one map from file names to contents per directory of the
  layout. What the operating system answers is the parameter \<open>io\<close>; an answer that is an error is
  possible at every call. A write that fails may leave a prefix of the text behind.
\<close>

section \<open>Paths\<close>

text \<open>\<open>Path::join\<close> with a relative name.\<close>

definition path_join :: "path_buf \<Rightarrow> rstring \<Rightarrow> path_buf" where
  "path_join p name = (if p = [] then name else if last p = 47 then p @ name else p @ 47 # name)"

datatype fsync_policy = FsyncFull | FsyncNone

record fs_config =
  cf_root :: path_buf
  cf_fsync :: fsync_policy
  cf_replica_id :: "uuid option"

definition config_new :: "path_buf \<Rightarrow> fs_config" where
  "config_new root = \<lparr>cf_root = root, cf_fsync = FsyncFull, cf_replica_id = None\<rparr>"

definition with_fsync :: "fs_config \<Rightarrow> fsync_policy \<Rightarrow> fs_config" where
  "with_fsync c policy = c\<lparr>cf_fsync := policy\<rparr>"

definition with_replica_id :: "fs_config \<Rightarrow> uuid \<Rightarrow> fs_config" where
  "with_replica_id c r = c\<lparr>cf_replica_id := Some r\<rparr>"

record roots =
  rt_root :: path_buf
  rt_events :: path_buf
  rt_tmp :: path_buf
  rt_eventcore :: path_buf
  rt_snapshots :: path_buf
  rt_index :: path_buf

definition roots_new :: "path_buf \<Rightarrow> roots" where
  "roots_new root =
     \<lparr>rt_root = root, rt_events = path_join root (lit ''events''), rt_tmp = path_join root (lit ''tmp''),
       rt_eventcore = path_join root (lit ''.eventcore''),
       rt_snapshots = path_join root (lit ''.eventcore/snapshots''), rt_index = path_join root (lit ''index'')\<rparr>"

definition store_lock_path :: "roots \<Rightarrow> path_buf" where
  "store_lock_path r = path_join (rt_root r) (lit ''.lock'')"

definition replica_id_path :: "roots \<Rightarrow> path_buf" where
  "replica_id_path r = path_join (rt_eventcore r) (lit ''replica_id'')"

definition replica_fingerprint_path :: "roots \<Rightarrow> path_buf" where
  "replica_fingerprint_path r = path_join (rt_eventcore r) (lit ''replica_fingerprint'')"

definition ingestion_log_path :: "roots \<Rightarrow> path_buf" where
  "ingestion_log_path r = path_join (rt_index r) (lit ''ingestion.log'')"

definition snapshot_file :: "rstring \<Rightarrow> rstring" where
  "snapshot_file filename = filename @ lit ''.json''"

definition snapshot_path :: "roots \<Rightarrow> rstring \<Rightarrow> path_buf" where
  "snapshot_path r filename = path_join (rt_snapshots r) (snapshot_file filename)"

definition snapshot_tmp_file :: "rstring \<Rightarrow> rstring" where
  "snapshot_tmp_file filename = filename @ lit ''.json.tmp''"

definition event_file :: "(uuid \<Rightarrow> rstring) \<Rightarrow> uuid \<Rightarrow> rstring" where
  "event_file show_uuid t = show_uuid t @ lit ''.jsonl''"

definition event_path :: "roots \<Rightarrow> (uuid \<Rightarrow> rstring) \<Rightarrow> uuid \<Rightarrow> path_buf" where
  "event_path r show_uuid t = path_join (rt_events r) (event_file show_uuid t)"

definition tmp_file :: "(uuid \<Rightarrow> rstring) \<Rightarrow> uuid \<Rightarrow> rstring" where
  "tmp_file show_uuid t = show_uuid t @ lit ''.jsonl.tmp''"

section \<open>The disk\<close>

type_synonym directory = "(rstring, rstring) hashmap"

record disk =
  dk_root :: directory
  dk_events :: directory
  dk_tmp :: directory
  dk_eventcore :: directory
  dk_snapshots :: directory
  dk_index :: directory

text \<open>What creating, filling, syncing and renaming a file answers, and opening and locking one.\<close>

datatype write_fault =
  NoFault
| CreateFault rstring
| WriteFault rstring nat
| SyncFault rstring
| RenameFault rstring
| DirSyncFault rstring

datatype lock_attempt = LockOpenFailed rstring | LockHeld | LockError rstring | LockAcquired

record io_step =
  io_mkdir :: "path_buf \<Rightarrow> rstring option"
  io_read_dir :: "rstring option"
  io_entry :: "rstring \<Rightarrow> rstring option"
  io_try_lock :: "path_buf \<Rightarrow> lock_attempt"
  io_not_found :: rstring
  io_read :: "path_buf \<Rightarrow> rstring option"
  io_write :: "path_buf \<Rightarrow> file_write"
  io_file :: write_fault
  io_log :: file_write

definition read_file :: "io_step \<Rightarrow> path_buf \<Rightarrow> directory \<Rightarrow> rstring \<Rightarrow> file_read" where
  "read_file io path dir name =
     (case io_read io path of
        Some e \<Rightarrow> FileReadError e
      | None \<Rightarrow> (case hm_get dir name of None \<Rightarrow> FileNotFound (io_not_found io) | Some c \<Rightarrow> FileContents c))"

text \<open>\<open>fs::write\<close>: create or truncate, then write.\<close>

definition write_file ::
  "io_step \<Rightarrow> path_buf \<Rightarrow> rstring \<Rightarrow> rstring \<Rightarrow> directory \<Rightarrow> (rstring + unit) \<times> directory" where
  "write_file io path name contents dir =
     (case io_write io path of
        OpenFailed e \<Rightarrow> (Inl e, dir)
      | WriteFailed e n \<Rightarrow> (Inl e, hm_insert name (take n contents) dir)
      | Written \<Rightarrow> (Inr (), hm_insert name contents dir))"

text \<open>
  \<open>write_transaction_file\<close>: into a temporary file, synced under \<open>FsyncFull\<close>, then renamed into place. A
  failure to sync the directory is ignored here, and reported by \<open>write_snapshot_file\<close>, whose two
  files are in one directory.
\<close>

definition write_transaction_file ::
  "write_fault \<Rightarrow> fsync_policy \<Rightarrow> rstring \<Rightarrow> rstring \<Rightarrow> rstring \<Rightarrow> directory \<times> directory
     \<Rightarrow> (rstring + unit) \<times> directory \<times> directory" where
  "write_transaction_file fault fsync tmp final body = (\<lambda>(tmp_dir, events_dir).
     let staged = (hm_insert tmp body tmp_dir, events_dir);
         renamed = (Inr (), hm_remove tmp (hm_insert tmp body tmp_dir), hm_insert final body events_dir)
     in (case fault of
           CreateFault e \<Rightarrow> (Inl e, tmp_dir, events_dir)
         | WriteFault e n \<Rightarrow> (Inl e, hm_insert tmp (take n body) tmp_dir, events_dir)
         | SyncFault e \<Rightarrow> if fsync = FsyncFull then (Inl e, staged) else renamed
         | RenameFault e \<Rightarrow> (Inl e, staged)
         | _ \<Rightarrow> renamed))"

definition write_snapshot_file ::
  "write_fault \<Rightarrow> fsync_policy \<Rightarrow> rstring \<Rightarrow> rstring \<Rightarrow> rstring \<Rightarrow> directory \<Rightarrow> (rstring + unit) \<times> directory" where
  "write_snapshot_file fault fsync tmp final body dir =
     (let staged = hm_insert tmp body dir; renamed = hm_insert final body (hm_remove tmp staged)
      in (case fault of
            CreateFault e \<Rightarrow> (Inl e, dir)
          | WriteFault e n \<Rightarrow> (Inl e, hm_insert tmp (take n body) dir)
          | SyncFault e \<Rightarrow> if fsync = FsyncFull then (Inl e, staged) else (Inr (), renamed)
          | RenameFault e \<Rightarrow> (Inl e, staged)
          | DirSyncFault e \<Rightarrow> if fsync = FsyncFull then (Inl e, renamed) else (Inr (), renamed)
          | NoFault \<Rightarrow> (Inr (), renamed)))"

section \<open>Creating the layout\<close>

fun make_dirs :: "io_step \<Rightarrow> path_buf list \<Rightarrow> fs_error + unit" where
  "make_dirs io [] = Inr ()"
| "make_dirs io (dir # dirs) =
     (case io_mkdir io dir of Some e \<Rightarrow> Inl (InitFailed dir e) | None \<Rightarrow> make_dirs io dirs)"

definition create_dirs :: "io_step \<Rightarrow> roots \<Rightarrow> fs_error + unit" where
  "create_dirs io r = make_dirs io [rt_events r, rt_tmp r, rt_eventcore r, rt_snapshots r, rt_index r]"

section \<open>Replica identity\<close>

text \<open>The facts of the machine the fingerprint is made of.\<close>

record working_copy =
  wc_machine_files :: "file_read list"
  wc_hostname :: "rstring option"
  wc_canonical_path :: "rstring + rstring"
  wc_git_inode :: "rstring option"

fun first_machine_id :: "file_read list \<Rightarrow> rstring option" where
  "first_machine_id [] = None"
| "first_machine_id (file # files) =
     (case file of
        FileContents c \<Rightarrow> if str_trim c \<noteq> [] then Some (str_trim c) else first_machine_id files
      | _ \<Rightarrow> first_machine_id files)"

definition machine_id :: "working_copy \<Rightarrow> rstring" where
  "machine_id wc =
     (case first_machine_id (wc_machine_files wc) of
        Some i \<Rightarrow> i
      | None \<Rightarrow> (case wc_hostname wc of Some h \<Rightarrow> h | None \<Rightarrow> lit ''unknown''))"

definition git_inode :: "working_copy \<Rightarrow> rstring" where
  "git_inode wc = (case wc_git_inode wc of Some i \<Rightarrow> i | None \<Rightarrow> lit ''none'')"

definition compute_fingerprint :: "working_copy \<Rightarrow> roots \<Rightarrow> rstring" where
  "compute_fingerprint wc r =
     (let path = (case wc_canonical_path wc of Inr p \<Rightarrow> p | Inl _ \<Rightarrow> rt_root r)
      in lit ''machine='' @ machine_id wc @ lit '';path='' @ path @ lit '';git='' @ git_inode wc)"

definition fingerprint_matches :: "io_step \<Rightarrow> roots \<Rightarrow> rstring \<Rightarrow> disk \<Rightarrow> fs_error + bool" where
  "fingerprint_matches io r current d =
     (let path = replica_fingerprint_path r in
      case read_file io path (dk_eventcore d) (lit ''replica_fingerprint'') of
        FileContents recorded \<Rightarrow> Inr (recorded = current)
      | FileNotFound _ \<Rightarrow> Inr False
      | FileReadError e \<Rightarrow> Inl (InitFailed path e))"

definition regenerate ::
  "io_step \<Rightarrow> (uuid \<Rightarrow> rstring) \<Rightarrow> roots \<Rightarrow> rstring \<Rightarrow> uuid \<Rightarrow> disk \<Rightarrow> (fs_error + uuid) \<times> disk" where
  "regenerate io show_uuid r fingerprint fresh d =
     (let id_path = replica_id_path r;
          (written, dir) = write_file io id_path (lit ''replica_id'') (show_uuid fresh) (dk_eventcore d) in
      case written of
        Inl e \<Rightarrow> (Inl (InitFailed id_path e), d\<lparr>dk_eventcore := dir\<rparr>)
      | Inr _ \<Rightarrow>
          (let fingerprint_path = replica_fingerprint_path r;
               (written, dir) = write_file io fingerprint_path (lit ''replica_fingerprint'') fingerprint dir in
           case written of
             Inl e \<Rightarrow> (Inl (InitFailed fingerprint_path e), d\<lparr>dk_eventcore := dir\<rparr>)
           | Inr _ \<Rightarrow> (Inr fresh, d\<lparr>dk_eventcore := dir\<rparr>)))"

text \<open>\<open>fresh\<close> is what \<open>Uuid::now_v7\<close> returns if a new identity is made.\<close>

definition load_or_create_replica_id ::
  "io_step \<Rightarrow> (uuid \<Rightarrow> rstring) \<Rightarrow> (rstring \<Rightarrow> rstring + uuid) \<Rightarrow> working_copy \<Rightarrow> roots \<Rightarrow> fs_config
     \<Rightarrow> uuid \<Rightarrow> disk \<Rightarrow> (fs_error + uuid) \<times> disk" where
  "load_or_create_replica_id io show_uuid parse_uuid wc r config fresh d =
     (case cf_replica_id config of
        Some i \<Rightarrow> (Inr i, d)
      | None \<Rightarrow>
          (let current = compute_fingerprint wc r; id_path = replica_id_path r in
           case read_file io id_path (dk_eventcore d) (lit ''replica_id'') of
             FileContents contents \<Rightarrow>
               (case parse_uuid (str_trim contents) of
                  Inl e \<Rightarrow> (Inl (Corrupted id_path (lit ''invalid replica id: '' @ e)), d)
                | Inr recorded \<Rightarrow>
                    (case fingerprint_matches io r current d of
                       Inl e \<Rightarrow> (Inl e, d)
                     | Inr matches \<Rightarrow>
                         if matches then (Inr recorded, d) else regenerate io show_uuid r current fresh d))
           | FileNotFound _ \<Rightarrow> regenerate io show_uuid r current fresh d
           | FileReadError e \<Rightarrow> (Inl (InitFailed id_path e), d)))"

end
