(* ===== verification/Fs_Store.thy ===== *)
theory Fs_Store
  imports Fs_Index Fs_Config Store_Contracts
begin

text \<open>
  The file back end's store (\<open>eventcore-fs/src/lib.rs\<close>): opening, \<open>EventStore\<close>, \<open>EventReader\<close> and the
  merge mode. The libraries it calls (\<open>serde_json\<close>, \<open>uuid\<close>, \<open>sha2\<close>, \<open>chrono\<close>, \<open>glob\<close>, the file system) are
  the fields of the record \<open>fs_env\<close>. An operation holds the append lock for its whole body, so it is one
  transition; the index's \<open>RwLock\<close> is the index and a flag that says whether a panic poisoned it.
\<close>

section \<open>State\<close>

record ('v, 'ev, 'json) fs_env =
  fx_to_line :: "'v to_line"
  fx_from_line :: "'v from_line"
  fx_sha256 :: "rstring \<Rightarrow> u8 list"
  fx_entry_to_line :: entry_to_line
  fx_entry_from_line :: entry_from_line
  fx_parse_value :: "rstring \<Rightarrow> 'v option"
  fx_from_value :: "'v \<Rightarrow> rstring + 'ev"
  fx_to_value :: "'ev \<Rightarrow> rstring + 'v"
  fx_no_metadata :: 'v
  fx_snapshot_to_json :: "'json command_state_snapshot \<Rightarrow> rstring option"
  fx_snapshot_from_json :: "rstring \<Rightarrow> 'json command_state_snapshot option"
  fx_show_uuid :: "uuid \<Rightarrow> rstring"
  fx_parse_uuid :: "rstring \<Rightarrow> rstring + uuid"
  fx_show_name :: "nutype_error \<Rightarrow> rstring"
  fx_show_error :: "fs_error \<Rightarrow> rstring"
  fx_glob_compile :: "rstring \<Rightarrow> (rstring \<Rightarrow> bool) option"
  fx_now_v7 :: "nat \<Rightarrow> uuid"
  fx_created_at :: "nat \<Rightarrow> rstring"
  fx_io :: "nat \<Rightarrow> io_step"

record 'v fs_store =
  fs_roots :: roots
  fs_replica_id :: uuid
  fs_config :: fs_config
  fs_index :: "'v index"
  fs_poisoned :: bool
  fs_disk :: disk
  fs_uuid_calls :: nat
  fs_io_calls :: nat

definition now_io :: "('v, 'ev, 'json) fs_env \<Rightarrow> 'v fs_store \<Rightarrow> io_step" where
  "now_io X st = fx_io X (fs_io_calls st)"

definition log_name :: rstring where
  "log_name = lit ''ingestion.log''"

text \<open>
  \<open>IngestionLog::persist\<close> on the store's disk. An empty log file and none are read alike, so a call that
  writes nothing leaves the directory as it was.
\<close>

definition log_of :: "disk \<Rightarrow> rstring" where
  "log_of d = (case hm_get (dk_index d) log_name of None \<Rightarrow> [] | Some c \<Rightarrow> c)"

definition with_log :: "rstring \<Rightarrow> disk \<Rightarrow> disk" where
  "with_log contents d =
     (if contents = log_of d then d else d\<lparr>dk_index := hm_insert log_name contents (dk_index d)\<rparr>)"

definition persist_log ::
  "('v, 'ev, 'json) fs_env \<Rightarrow> (uuid \<times> u64) list \<Rightarrow> 'v fs_store \<Rightarrow> (fs_error + unit) \<times> 'v fs_store" where
  "persist_log X new_entries st =
     (let (written, contents) = persist (fx_entry_to_line X) (ingestion_log_path (fs_roots st))
            (io_log (now_io X st)) new_entries (log_of (fs_disk st))
      in (written, st\<lparr>fs_disk := with_log contents (fs_disk st), fs_io_calls := Suc (fs_io_calls st)\<rparr>))"

section \<open>Reading a stream\<close>

definition fs_decode ::
  "('v, 'ev, 'json) fs_env \<Rightarrow> stream_id \<Rightarrow> 'v indexed_event \<Rightarrow> event_store_error + 'ev" where
  "fs_decode X sid x =
     (case fx_from_value X (ix_event_data x) of
        Inl detail \<Rightarrow> Inl (DeserializationFailed sid detail) | Inr e \<Rightarrow> Inr e)"

definition fs_read_stream ::
  "('v, 'ev, 'json) fs_env \<Rightarrow> 'v fs_store \<Rightarrow> stream_id \<Rightarrow> event_store_error + 'ev event_stream" where
  "fs_read_stream X st sid =
     (if fs_poisoned st then Inl (StoreFailure ReadStream)
      else Inr (case hm_get (ix_streams (fs_index st)) (sid_str sid) of
                  None \<Rightarrow> [] | Some stream \<Rightarrow> map (fs_decode X sid) stream))"

definition fs_read_stream_after ::
  "('v, 'ev, 'json) fs_env \<Rightarrow> 'v fs_store \<Rightarrow> stream_id \<Rightarrow> stream_version
     \<Rightarrow> event_store_error + 'ev event_stream" where
  "fs_read_stream_after X st sid exclusive_version =
     (if fs_poisoned st then Inl (StoreFailure ReadStream)
      else Inr (case hm_get (ix_streams (fs_index st)) (sid_str sid) of
                  None \<Rightarrow> [] | Some stream \<Rightarrow> map (fs_decode X sid) (drop (unat exclusive_version) stream)))"

section \<open>Appending\<close>

fun check_heads :: "'v index \<Rightarrow> (stream_id, stream_version) hashmap \<Rightarrow> event_store_error option" where
  "check_heads ix [] = None"
| "check_heads ix ((sid, expected) # rest) =
     (let current = stream_head ix (sid_str sid) in
      if current \<noteq> expected then Some (VersionConflict sid expected current) else check_heads ix rest)"

definition entry_item ::
  "('v, 'ev, 'json) fs_env \<Rightarrow> 'ev write_entry \<Rightarrow> event_store_error + rstring \<times> rstring \<times> 'v" where
  "entry_item X en =
     (case fx_parse_value X (we_event_data en) of
        None \<Rightarrow> Inl (StoreFailure AppendEvents)
      | Some v \<Rightarrow> Inr (sid_str (we_stream_id en), we_event_type en, v))"

definition expected_bases :: "(stream_id, stream_version) hashmap \<Rightarrow> (rstring \<times> usize) list" where
  "expected_bases expected = sort_key fst (map (\<lambda>(sid, v). (sid_str sid, v)) expected)"

definition new_header ::
  "('v, 'ev, 'json) fs_env \<Rightarrow> 'v fs_store \<Rightarrow> uuid \<Rightarrow> uuid list \<Rightarrow> (rstring \<times> usize) list \<Rightarrow> transaction_header" where
  "new_header X st t parents bases =
     \<lparr>th_format_version = format_version, th_transaction_id = t, th_replica_id = fs_replica_id st,
       th_parents = parents, th_created_at = fx_created_at X (fs_uuid_calls st),
       th_stream_bases = bases, th_content_hash = None\<rparr>"

text \<open>Writing the transaction's file; the temporary file and the final one are in the layout's directories.\<close>

definition store_transaction ::
  "('v, 'ev, 'json) fs_env \<Rightarrow> uuid \<Rightarrow> rstring \<Rightarrow> 'v fs_store \<Rightarrow> (rstring + unit) \<times> 'v fs_store" where
  "store_transaction X t body st =
     (let d = fs_disk st;
          (written, tmp_dir, events_dir) = write_transaction_file (io_file (now_io X st)) (cf_fsync (fs_config st))
             (tmp_file (fx_show_uuid X) t) (event_file (fx_show_uuid X) t) body (dk_tmp d, dk_events d)
      in (written, st\<lparr>fs_disk := d\<lparr>dk_tmp := tmp_dir, dk_events := events_dir\<rparr>,
                     fs_io_calls := Suc (fs_io_calls st)\<rparr>))"

definition fs_append_events ::
  "('v, 'ev, 'json) fs_env \<Rightarrow> 'v fs_store \<Rightarrow> 'ev stream_writes \<Rightarrow> (event_store_error + unit) \<times> 'v fs_store" where
  "fs_append_events X st w =
     (if entries w = [] then (Inr (), st)
      else
        let ix = fs_index st; t = fx_now_v7 X (fs_uuid_calls st); calls = Suc (fs_uuid_calls st) in
        if fs_poisoned st then (Inl (StoreFailure AppendEvents), st\<lparr>fs_uuid_calls := calls\<rparr>)
        else case check_heads ix (expected_versions w) of
          Some e \<Rightarrow> (Inl e, st\<lparr>fs_uuid_calls := calls\<rparr>)
        | None \<Rightarrow>
            (case collect_results (map (entry_item X) (entries w)) of
               Inl e \<Rightarrow> (Inl e, st\<lparr>fs_uuid_calls := calls\<rparr>)
             | Inr items \<Rightarrow>
                 (let (envelopes, new_events, calls') = build_envelopes (fx_now_v7 X) (fx_no_metadata X) ix calls items;
                      st1 = st\<lparr>fs_uuid_calls := calls'\<rparr>;
                      h = new_header X st1 t (ix_tips ix) (expected_bases (expected_versions w)) in
                  case serialize_transaction (fx_to_line X) (fx_sha256 X) h envelopes of
                    Inl e \<Rightarrow> (Inl e, st1)
                  | Inr body \<Rightarrow>
                      (let (written, st2) = store_transaction X t body st1 in
                       case written of
                         Inl _ \<Rightarrow> (Inl (StoreFailure AppendEvents), st2)
                       | Inr _ \<Rightarrow>
                           (let (new_entries, ix') = add_transaction t h new_events ix;
                                (persisted, st3) = persist_log X new_entries (st2\<lparr>fs_index := ix'\<lparr>ix_tips := [t]\<rparr>\<rparr>)
                            in (map_err (\<lambda>_. StoreFailure AppendEvents) persisted, st3))))))"

section \<open>Command-state snapshots\<close>

definition snapshot_filename :: "('v, 'ev, 'json) fs_env \<Rightarrow> rstring \<Rightarrow> rstring" where
  "snapshot_filename X i = hex_bytes (fx_sha256 X i)"

definition read_snapshot_file :: "('v, 'ev, 'json) fs_env \<Rightarrow> 'v fs_store \<Rightarrow> rstring \<Rightarrow> file_read" where
  "read_snapshot_file X st filename =
     read_file (now_io X st) (snapshot_path (fs_roots st) filename) (dk_snapshots (fs_disk st)) (snapshot_file filename)"

definition fs_load_snapshot ::
  "('v, 'ev, 'json) fs_env \<Rightarrow> 'v fs_store \<Rightarrow> rstring \<Rightarrow> event_store_error + 'json command_state_snapshot option" where
  "fs_load_snapshot X st i =
     (case read_snapshot_file X st (snapshot_filename X i) of
        FileNotFound _ \<Rightarrow> Inr None
      | FileReadError _ \<Rightarrow> Inl (StoreFailure ReadStream)
      | FileContents contents \<Rightarrow>
          (case fx_snapshot_from_json X contents of
             None \<Rightarrow> Inl (StoreFailure ReadStream) | Some s \<Rightarrow> Inr (Some s)))"

definition write_snapshot ::
  "('v, 'ev, 'json) fs_env \<Rightarrow> rstring \<Rightarrow> 'json command_state_snapshot \<Rightarrow> 'v fs_store
     \<Rightarrow> (event_store_error + unit) \<times> 'v fs_store" where
  "write_snapshot X filename s st =
     (case fx_snapshot_to_json X s of
        None \<Rightarrow> (Inl (StoreFailure AppendEvents), st)
      | Some body \<Rightarrow>
          (let d = fs_disk st;
               (written, dir) = write_snapshot_file (io_file (now_io X st)) (cf_fsync (fs_config st))
                  (snapshot_tmp_file filename) (snapshot_file filename) body (dk_snapshots d)
           in (map_err (\<lambda>_. StoreFailure AppendEvents) written,
               st\<lparr>fs_disk := d\<lparr>dk_snapshots := dir\<rparr>, fs_io_calls := Suc (fs_io_calls st)\<rparr>)))"

definition fs_save_snapshot ::
  "('v, 'ev, 'json) fs_env \<Rightarrow> 'v fs_store \<Rightarrow> rstring \<Rightarrow> 'json command_state_snapshot
     \<Rightarrow> (event_store_error + unit) \<times> 'v fs_store" where
  "fs_save_snapshot X st i s =
     (let filename = snapshot_filename X i in
      case read_snapshot_file X st filename of
        FileContents contents \<Rightarrow>
          (case fx_snapshot_from_json X contents of
             None \<Rightarrow> (Inl (StoreFailure AppendEvents), st)
           | Some stored \<Rightarrow> if \<not> covers s stored then (Inr (), st) else write_snapshot X filename s st)
      | FileNotFound _ \<Rightarrow> write_snapshot X filename s st
      | FileReadError _ \<Rightarrow> (Inl (StoreFailure AppendEvents), st))"

definition fs_ops :: "('v, 'ev, 'json) fs_env \<Rightarrow> ('v fs_store, 'ev, 'json) store_ops" where
  "fs_ops X =
     \<lparr>op_read = fs_read_stream X, op_read_after = fs_read_stream_after X, op_append = fs_append_events X,
      op_load_snapshot = fs_load_snapshot X, op_save_snapshot = fs_save_snapshot X\<rparr>"

section \<open>EventReader\<close>

definition fs_read_events ::
  "('v, 'ev, 'json) fs_env \<Rightarrow> 'ev event_type \<Rightarrow> 'v fs_store \<Rightarrow> event_filter \<Rightarrow> event_page
     \<Rightarrow> event_store_error + ('ev \<times> stream_position) list" where
  "fs_read_events X E st f pg =
     (if fs_poisoned st then Inl (StoreFailure ReadStream)
      else Inr (List.map_filter
             (\<lambda>(position, x). case fx_from_value X (ix_event_data x) of
                Inl _ \<Rightarrow> None | Inr e \<Rightarrow> Some (e, StreamPosition position))
             (take (unat (page_limit pg))
               (filter (\<lambda>(position, x). after_cursor pg position
                   \<and> selects (fx_glob_compile X) (ev_type_name E) f (ix_stream_id x) (ix_event_type x))
                 (ix_by_ingestion (fs_index st))))))"

section \<open>Opening\<close>

definition GITIGNORE :: rstring where
  "GITIGNORE = unlines (map lit
     [''# eventcore-fs: only events/ is the committed source of truth.'', ''/tmp/'', ''/checkpoints/'',
      ''/locks/'', ''/index/'', ''/.eventcore/'', ''/.lock''])"

definition GITATTRIBUTES :: rstring where
  "GITATTRIBUTES = unlines [lit ''events/** merge=union'']"

definition write_if_absent ::
  "io_step \<Rightarrow> path_buf \<Rightarrow> rstring \<Rightarrow> rstring \<Rightarrow> directory \<Rightarrow> (fs_error + unit) \<times> directory" where
  "write_if_absent io path name contents dir =
     (if hm_contains dir name then (Inr (), dir)
      else (let (written, dir') = write_file io path name contents dir
            in (map_err (InitFailed path) written, dir')))"

definition write_git_metadata :: "io_step \<Rightarrow> roots \<Rightarrow> disk \<Rightarrow> (fs_error + unit) \<times> disk" where
  "write_git_metadata io r d =
     (let (ignored, dir) = write_if_absent io (path_join (rt_root r) (lit ''.gitignore'')) (lit ''.gitignore'')
            GITIGNORE (dk_root d) in
      case ignored of
        Inl e \<Rightarrow> (Inl e, d\<lparr>dk_root := dir\<rparr>)
      | Inr _ \<Rightarrow>
          (let (attributes, dir') = write_if_absent io (path_join (rt_root r) (lit ''.gitattributes''))
                 (lit ''.gitattributes'') GITATTRIBUTES dir
           in (attributes, d\<lparr>dk_root := dir'\<rparr>)))"

definition acquire_store_lock :: "io_step \<Rightarrow> path_buf \<Rightarrow> fs_error + unit" where
  "acquire_store_lock io path =
     (case io_try_lock io path of
        LockOpenFailed e \<Rightarrow> Inl (InitFailed path e)
      | LockHeld \<Rightarrow> Inl (StoreLocked path)
      | LockError e \<Rightarrow> Inl (InitFailed path e)
      | LockAcquired \<Rightarrow> Inr ())"

definition store_listing :: "io_step \<Rightarrow> roots \<Rightarrow> disk \<Rightarrow> rstring + (rstring + rstring \<times> file_read) list" where
  "store_listing io r d =
     (case io_read_dir io of
        Some e \<Rightarrow> Inl e
      | None \<Rightarrow> Inr (map (\<lambda>(name, c). case io_entry io name of
            Some e \<Rightarrow> Inl e
          | None \<Rightarrow> Inr (name, read_file io (path_join (rt_events r) name) (dk_events d) name)) (dk_events d)))"

text \<open>\<open>scan_index\<close> on the store's disk. \<open>None\<close>: the linearization does not return (a cyclic graph).\<close>

definition scan_store ::
  "('v, 'ev, 'json) fs_env \<Rightarrow> roots \<Rightarrow> io_step \<Rightarrow> disk \<Rightarrow> ((fs_error + 'v index) \<times> disk) option" where
  "scan_store X r io d =
     map_option (\<lambda>(scanned, contents). (scanned, with_log contents d))
       (scan_index (fx_from_line X) (fx_sha256 X) (fx_entry_from_line X) (fx_entry_to_line X) (rt_events r)
          (ingestion_log_path r) (store_listing io r d) (read_file io (ingestion_log_path r) (dk_index d) log_name)
          (io_log io))"

definition fs_open_with_config ::
  "('v, 'ev, 'json) fs_env \<Rightarrow> working_copy \<Rightarrow> fs_config \<Rightarrow> nat \<Rightarrow> nat \<Rightarrow> disk
     \<Rightarrow> ((fs_error + 'v fs_store) \<times> disk) option" where
  "fs_open_with_config X wc config uuid_calls io_calls d =
     (let r = roots_new (cf_root config); io = fx_io X io_calls in
      case create_dirs io r of
        Inl e \<Rightarrow> Some (Inl e, d)
      | Inr _ \<Rightarrow>
          (let (meta, d1) = write_git_metadata io r d in
           case meta of
             Inl e \<Rightarrow> Some (Inl e, d1)
           | Inr _ \<Rightarrow>
               (case acquire_store_lock io (store_lock_path r) of
                  Inl e \<Rightarrow> Some (Inl e, d1)
                | Inr _ \<Rightarrow>
                    (let (replica, d2) = load_or_create_replica_id io (fx_show_uuid X) (fx_parse_uuid X) wc r config
                           (fx_now_v7 X uuid_calls) d1 in
                     case replica of
                       Inl e \<Rightarrow> Some (Inl e, d2)
                     | Inr replica_id \<Rightarrow>
                         map_option
                           (\<lambda>(scanned, d3).
                              (map_sum id (\<lambda>ix. \<lparr>fs_roots = r, fs_replica_id = replica_id, fs_config = config,
                                 fs_index = ix, fs_poisoned = False, fs_disk = d3,
                                 fs_uuid_calls = Suc uuid_calls, fs_io_calls = Suc io_calls\<rparr>) scanned, d3))
                           (scan_store X r io d2)))))"

definition fs_open ::
  "('v, 'ev, 'json) fs_env \<Rightarrow> working_copy \<Rightarrow> path_buf \<Rightarrow> nat \<Rightarrow> nat \<Rightarrow> disk
     \<Rightarrow> ((fs_error + 'v fs_store) \<times> disk) option" where
  "fs_open X wc root uuid_calls io_calls d = fs_open_with_config X wc (config_new root) uuid_calls io_calls d"

end
