(* ===== verification/Fs_Index_Correct.thy ===== *)
theory Fs_Index_Correct
  imports Fs_Index
begin

text \<open>
  What the index holds: the streams are the events of the canonical order, stream by stream; the
  ingestion view is every event under the position of its sequence number; known events keep their
  number and new ones get larger ones.
\<close>

section \<open>Pushing events\<close>

definition of_stream :: "rstring \<Rightarrow> 'v indexed_event list \<Rightarrow> 'v indexed_event list" where
  "of_stream s xs = filter (\<lambda>x. ix_stream_id x = s) xs"

lemma of_stream_simps [simp]:
  "of_stream s [] = []"
  "of_stream s (x # xs) = (if ix_stream_id x = s then x # of_stream s xs else of_stream s xs)"
  "of_stream s (xs @ ys) = of_stream s xs @ of_stream s ys"
  by (simp_all add: of_stream_def)

lemma stream_events_Nil [simp]: "stream_events [] s = []"
  by (simp add: stream_events_def)

lemma stream_events_push [simp]:
  "stream_events (push_event x m) s = stream_events m s @ of_stream s [x]"
  by (simp add: push_event_def stream_events_def)

lemma push_event_wf [simp]: "hm_wf m \<Longrightarrow> hm_wf (push_event x m)"
  by (simp add: push_event_def)

definition positioned :: "(uuid \<times> u64) list \<Rightarrow> 'v indexed_event list \<Rightarrow> (uuid \<times> 'v indexed_event) list" where
  "positioned new_entries xs = map2 (\<lambda>(e, seq) x. (position_from_seq seq, x)) new_entries xs"

lemma push_all_facts:
  assumes "push_all xs ix = (new_entries, ix')"
  shows "(new_entries, ix_log ix') = allocate_all (ix_log ix) (map ix_event_id xs)
    \<and> ix_by_ingestion ix' = ix_by_ingestion ix @ positioned new_entries xs
    \<and> (\<forall>s. stream_events (ix_streams ix') s = stream_events (ix_streams ix) s @ of_stream s xs)
    \<and> (hm_wf (ix_streams ix) \<longrightarrow> hm_wf (ix_streams ix'))
    \<and> ix_headers ix' = ix_headers ix \<and> ix_tips ix' = ix_tips ix
    \<and> ix_integrity_failures ix' = ix_integrity_failures ix"
  using assms
proof (induction xs arbitrary: ix new_entries)
  case (Cons x xs)
  let ?ix1 = "snd (ingest_appended x (ix\<lparr>ix_streams := push_event x (ix_streams ix)\<rparr>))"
  obtain seq lg where a: "allocate (ix_log ix) (ix_event_id x) = (seq, lg)" by (rule prod.exhaust)
  have ix1: "ix_log ?ix1 = lg" "ix_by_ingestion ?ix1 = ix_by_ingestion ix @ [(position_from_seq seq, x)]"
    "ix_streams ?ix1 = push_event x (ix_streams ix)" "ix_headers ?ix1 = ix_headers ix" "ix_tips ?ix1 = ix_tips ix"
    "ix_integrity_failures ?ix1 = ix_integrity_failures ix"
    by (simp_all add: ingest_appended_def a Let_def)
  obtain rest where r: "push_all xs ?ix1 = (rest, ix')" "new_entries = (ix_event_id x, seq) # rest"
    using Cons.prems by (auto simp: ingest_appended_def a Let_def split: prod.splits)
  show ?case
    using Cons.IH [OF r(1)] unfolding ix1 r(2)
    by (auto simp: a Let_def positioned_def split: prod.split)
qed (simp add: positioned_def)

lemma add_transaction_facts:
  assumes "add_transaction t h xs ix = (new_entries, ix')"
  shows "(new_entries, ix_log ix') = allocate_all (ix_log ix) (map ix_event_id xs)"
    "ix_by_ingestion ix' = ix_by_ingestion ix @ positioned new_entries xs"
    "stream_events (ix_streams ix') s = stream_events (ix_streams ix) s @ of_stream s xs"
    "hm_wf (ix_streams ix) \<Longrightarrow> hm_wf (ix_streams ix')"
    "ix_headers ix' = hm_insert t h (ix_headers ix)" "ix_tips ix' = ix_tips ix"
    "ix_integrity_failures ix' = ix_integrity_failures ix"
proof -
  let ?ix = "ix\<lparr>ix_headers := hm_insert t h (ix_headers ix)\<rparr>"
  have ix: "ix_log ?ix = ix_log ix" "ix_by_ingestion ?ix = ix_by_ingestion ix" "ix_streams ?ix = ix_streams ix"
    "ix_headers ?ix = hm_insert t h (ix_headers ix)" "ix_tips ?ix = ix_tips ix"
    "ix_integrity_failures ?ix = ix_integrity_failures ix" by simp_all
  note p = push_all_facts [OF assms [unfolded add_transaction_def], unfolded ix]
  show "(new_entries, ix_log ix') = allocate_all (ix_log ix) (map ix_event_id xs)"
    "ix_by_ingestion ix' = ix_by_ingestion ix @ positioned new_entries xs"
    "stream_events (ix_streams ix') s = stream_events (ix_streams ix) s @ of_stream s xs"
    "hm_wf (ix_streams ix) \<Longrightarrow> hm_wf (ix_streams ix')"
    "ix_headers ix' = hm_insert t h (ix_headers ix)" "ix_tips ix' = ix_tips ix"
    "ix_integrity_failures ix' = ix_integrity_failures ix"
    using p by blast+
qed

section \<open>The envelopes of a new transaction\<close>

lemma build_envelopes_loop_facts:
  assumes "build_envelopes_loop now_v7 no_metadata ix added calls items = (es, xs, calls')"
  shows "calls' = calls + length items \<and> map to_indexed es = xs
    \<and> map (\<lambda>x. (ix_stream_id x, ix_event_type x, ix_event_data x)) xs = items
    \<and> map ix_event_id xs = map now_v7 [calls ..< calls']"
  using assms
proof (induction items arbitrary: added calls es xs)
  case (Cons item items)
  obtain key ty v where item: "item = (key, ty, v)" by (cases item)
  obtain es1 xs1 where l: "build_envelopes_loop now_v7 no_metadata ix (hm_insert key (next_offset added key) added)
      (Suc calls) items = (es1, xs1, calls')"
    and x: "es = \<lparr>ee_event_id = now_v7 calls, ee_stream_id = key, ee_stream_version = stream_head ix key + next_offset added key,
              ee_event_type = ty, ee_event_data = v, ee_metadata = no_metadata\<rparr> # es1"
      "xs = \<lparr>ix_event_id = now_v7 calls, ix_stream_id = key, ix_event_type = ty, ix_event_data = v\<rparr> # xs1"
    using Cons.prems unfolding item by (auto simp: Let_def split: prod.splits)
  note ih = Cons.IH [OF l]
  have "[calls ..< calls'] = calls # [Suc calls ..< calls']" using ih by (simp add: upt_rec)
  then show ?case using ih unfolding x item by (simp add: to_indexed_def)
qed simp

text \<open>The advisory version is the stream's length when the event is pushed.\<close>

lemma next_offset_insert:
  "next_offset (hm_insert key o' added) k = (if k = key then o' + 1 else next_offset added k)"
  by (simp add: next_offset_def)

lemma build_envelopes_loop_versions:
  assumes "build_envelopes_loop now_v7 no_metadata ix added calls items = (es, xs, calls')"
    and "es = before @ e # after"
  shows "ee_stream_version e = stream_head ix (ee_stream_id e) + next_offset added (ee_stream_id e)
    + vlen (filter (\<lambda>b. ee_stream_id b = ee_stream_id e) before)"
  using assms
proof (induction items arbitrary: added calls es xs before)
  case (Cons item items)
  obtain key ty v where item: "item = (key, ty, v)" by (cases item)
  obtain es1 xs1 where l: "build_envelopes_loop now_v7 no_metadata ix (hm_insert key (next_offset added key) added)
      (Suc calls) items = (es1, xs1, calls')"
    and es: "es = \<lparr>ee_event_id = now_v7 calls, ee_stream_id = key, ee_stream_version = stream_head ix key + next_offset added key,
              ee_event_type = ty, ee_event_data = v, ee_metadata = no_metadata\<rparr> # es1"
    using Cons.prems(1) unfolding item by (auto simp: Let_def split: prod.splits)
  show ?case
  proof (cases before)
    case Nil
    then show ?thesis using Cons.prems(2) unfolding es by auto
  next
    case (Cons b before')
    then have "es1 = before' @ e # after" "ee_stream_id b = key" using Cons.prems(2) unfolding es by auto
    then show ?thesis using Cons.IH [OF l] by (simp add: Cons next_offset_insert)
  qed
qed simp

section \<open>The walk over the canonical order\<close>

definition txn_events :: "(uuid, 'v event_envelope list) hashmap \<Rightarrow> uuid \<Rightarrow> 'v event_envelope list" where
  "txn_events m t = (case hm_get m t of None \<Rightarrow> [] | Some es \<Rightarrow> es)"

lemma walk_order_fold:
  "distinct order \<Longrightarrow> walk_order order m w = fold walk_event (concat (map (txn_events m) order)) w"
proof (induction order arbitrary: m w)
  case (Cons t order)
  have same: "map (txn_events (hm_remove t m)) order = map (txn_events m) order"
    using Cons.prems by (auto simp: txn_events_def)
  have "walk_order (t # order) m w = walk_order order (hm_remove t m) (fold walk_event (txn_events m t) w)"
    by (simp add: txn_events_def)
  then show ?case using Cons by (simp add: same)
qed simp

text \<open>Sequence numbers: a known event keeps its own, a new one is allocated.\<close>

fun assign :: "ingestion_log \<Rightarrow> uuid list \<Rightarrow> (uuid \<times> u64) list \<times> ingestion_log" where
  "assign lg [] = ([], lg)"
| "assign lg (e # es) =
     (case seq_of lg e of
        Some _ \<Rightarrow> assign lg es
      | None \<Rightarrow> (let (seq, lg1) = allocate lg e; (rest, lg2) = assign lg1 es in ((e, seq) # rest, lg2)))"

lemma seq_of_allocate: "allocate lg e = (seq, lg') \<Longrightarrow> seq_of lg' = (seq_of lg)(e \<mapsto> seq)"
  by (auto simp: allocate_def Let_def seq_of_def fun_eq_iff)

lemma assign_keeps: "assign lg es = (new_entries, lg') \<Longrightarrow> seq_of lg e = Some seq \<Longrightarrow> seq_of lg' e = Some seq"
proof (induction lg es arbitrary: new_entries rule: assign.induct)
  case (2 lg e' es)
  then show ?case
    by (cases "seq_of lg e'"; cases "e = e'") (auto simp: seq_of_allocate Let_def split: prod.splits)
qed simp

lemma assign_covers: "assign lg es = (new_entries, lg') \<Longrightarrow> e \<in> set es \<Longrightarrow> seq_of lg' e \<noteq> None"
proof (induction lg es arbitrary: new_entries rule: assign.induct)
  case (2 lg e' es)
  show ?case
  proof (cases "seq_of lg e'")
    case (Some seq)
    then have a: "assign lg es = (new_entries, lg')" using 2(3) by simp
    show ?thesis
      using assign_keeps [OF a Some] "2.IH"(2) [OF Some a] 2(4) by auto
  next
    case None
    obtain seq lg1 where al: "allocate lg e' = (seq, lg1)" by (rule prod.exhaust)
    obtain rest where a: "assign lg1 es = (rest, lg')" using 2(3) None al by (auto simp: Let_def split: prod.splits)
    have "seq_of lg1 e' = Some seq" by (simp add: seq_of_allocate [OF al])
    then show ?thesis
      using assign_keeps [OF a] "2.IH"(1) [OF None refl al [symmetric] a] 2(4) al by auto
  qed
qed simp

lemma assign_dom:
  "assign lg es = (new_entries, lg') \<Longrightarrow> seq_of lg' e \<noteq> None \<Longrightarrow> seq_of lg e \<noteq> None \<or> e \<in> set es"
proof (induction lg es arbitrary: new_entries rule: assign.induct)
  case (2 lg e' es)
  show ?case
  proof (cases "seq_of lg e'")
    case None
    obtain seq lg1 where al: "allocate lg e' = (seq, lg1)" by (rule prod.exhaust)
    obtain rest where a: "assign lg1 es = (rest, lg')" using 2(3) None al by (auto simp: Let_def split: prod.splits)
    show ?thesis
      using "2.IH"(1) [OF None refl al [symmetric] a 2(4)] by (auto simp: seq_of_allocate [OF al] split: if_splits)
  qed (use 2 in auto)
qed simp

lemma assign_known: "\<forall>e \<in> set es. seq_of lg e \<noteq> None \<Longrightarrow> assign lg es = ([], lg)"
  by (induction es) auto

lemma assign_allocate:
  "distinct es \<Longrightarrow> assign lg es = allocate_all lg (filter (\<lambda>e. seq_of lg e = None) es)"
proof (induction es arbitrary: lg)
  case (Cons e es)
  show ?case
  proof (cases "seq_of lg e")
    case None
    obtain seq lg1 where al: "allocate lg e = (seq, lg1)" by (rule prod.exhaust)
    have "filter (\<lambda>e. seq_of lg1 e = None) es = filter (\<lambda>e. seq_of lg e = None) es"
      using Cons.prems by (intro filter_cong) (auto simp: seq_of_allocate [OF al])
    then show ?thesis using Cons None al by (simp add: Let_def)
  qed (use Cons in auto)
qed simp

lemma fold_walk_facts:
  assumes "assign (wk_log w) (map ee_event_id es) = (new_entries, lg)"
  shows "wk_log (fold walk_event es w) = lg
    \<and> wk_new_entries (fold walk_event es w) = wk_new_entries w @ new_entries
    \<and> wk_positioned (fold walk_event es w) = wk_positioned w
        @ map (\<lambda>e. (position_from_seq (the (seq_of lg (ee_event_id e))), to_indexed e)) es
    \<and> (\<forall>s. stream_events (wk_streams (fold walk_event es w)) s = stream_events (wk_streams w) s @ of_stream s (map to_indexed es))
    \<and> (hm_wf (wk_streams w) \<longrightarrow> hm_wf (wk_streams (fold walk_event es w)))"
  using assms
proof (induction es arbitrary: w new_entries)
  case (Cons e es)
  have id: "ix_event_id (to_indexed e) = ee_event_id e" by (simp add: to_indexed_def)
  obtain seq new lg1 rest where
    step: "wk_log (walk_event e w) = lg1" "wk_new_entries (walk_event e w) = wk_new_entries w @ new"
      "wk_positioned (walk_event e w) = wk_positioned w @ [(position_from_seq seq, to_indexed e)]"
      "wk_streams (walk_event e w) = push_event (to_indexed e) (wk_streams w)"
    and rest: "assign lg1 (map ee_event_id es) = (rest, lg)" "new_entries = new @ rest"
    and seq: "seq_of lg1 (ee_event_id e) = Some seq"
  proof (cases "seq_of (wk_log w) (ee_event_id e)")
    case None
    obtain seq lg1 where al: "allocate (wk_log w) (ee_event_id e) = (seq, lg1)" by (rule prod.exhaust)
    show ?thesis
      by (rule that [of lg1 "[(ee_event_id e, seq)]" seq "tl new_entries"])
         (use Cons.prems None al in \<open>auto simp: walk_event_def id Let_def seq_of_allocate [OF al] split: prod.splits\<close>)
  next
    case (Some seq)
    show ?thesis
      by (rule that [of "wk_log w" "[]" seq new_entries])
         (use Cons.prems Some in \<open>auto simp: walk_event_def id Let_def\<close>)
  qed
  have "seq_of lg (ee_event_id e) = Some seq" by (rule assign_keeps [OF rest(1) seq])
  moreover note ih = Cons.IH [of "walk_event e w" rest, unfolded step(1), OF rest(1)]
  ultimately show ?case unfolding rest(2) using ih by (simp add: step)
qed simp

section \<open>build_index\<close>

definition canonical_events :: "(transaction_header \<times> 'v event_envelope list) list \<Rightarrow> 'v event_envelope list" where
  "canonical_events txs = concat (map (txn_events (events_map txs)) (canonical_order (headers_map txs)))"

lemma fold_insert_wf:
  "hm_wf m \<Longrightarrow> hm_wf (fold (\<lambda>x. hm_insert (f x) (g x)) xs m)"
  by (induction xs arbitrary: m) simp_all

lemma headers_map_wf: "hm_wf (headers_map txs)"
  unfolding headers_map_def case_prod_unfold by (rule fold_insert_wf) simp

lemma build_index_facts:
  assumes "acyclic_headers (headers_map txs)"
    and "assign lg (map ee_event_id (canonical_events txs)) = (new_entries, lg')"
  shows "\<exists>ix. build_index txs lg = Some (ix, new_entries) \<and> ix_headers ix = headers_map txs
    \<and> ix_log ix = lg' \<and> ix_tips ix = compute_tips (headers_map txs) \<and> ix_integrity_failures ix = []
    \<and> hm_wf (ix_streams ix)
    \<and> (\<forall>s. stream_events (ix_streams ix) s = of_stream s (map to_indexed (canonical_events txs)))
    \<and> ix_by_ingestion ix = sort_key fst
        (map (\<lambda>e. (position_from_seq (the (seq_of lg' (ee_event_id e))), to_indexed e)) (canonical_events txs))"
proof -
  let ?w = "\<lparr>wk_streams = [], wk_positioned = [], wk_new_entries = [], wk_log = lg\<rparr> :: 'a index_walk"
  have lin: "linearize (headers_map txs) = Some (canonical_order (headers_map txs))"
    by (rule linearize_spec [OF assms(1) headers_map_wf])
  have walk: "walk_order (canonical_order (headers_map txs)) (events_map txs) ?w
      = fold walk_event (canonical_events txs) ?w"
    unfolding canonical_events_def by (rule walk_order_fold [OF canonical_order_distinct [OF headers_map_wf]])
  have "assign (wk_log ?w) (map ee_event_id (canonical_events txs)) = (new_entries, lg')" using assms(2) by simp
  note f = fold_walk_facts [OF this]
  show ?thesis using f by (simp add: build_index_def lin Let_def walk)
qed

end
