(* ===== verification/Fs_Store_Correct.thy ===== *)
theory Fs_Store_Correct
  imports Fs_Store Fs_Index_Correct Snapshot_Serializable
begin

text \<open>
  The file back end keeps the contract of \<open>EventStore\<close>: what a committed append did to the index and the
  disk, and the interpretations of the store's locales.
\<close>

section \<open>What the store relies on\<close>

text \<open>\<open>serde_json\<close>: an event's JSON parses to a value that decodes to the event.\<close>

definition value_laws :: "('v, 'ev, 'json) fs_env \<Rightarrow> 'ev event_type \<Rightarrow> bool" where
  "value_laws X E \<longleftrightarrow>
     (\<forall>e j. ev_to_json E e = Inr j \<longrightarrow> (\<exists>v. fx_parse_value X j = Some v \<and> fx_from_value X v = Inr e))"

text \<open>
  The ingestion log is written after the index changed, and its failure is reported. \<open>log_writable X n\<close>: the
  \<open>n\<close>-th access to the disk, if it is a write of the log, succeeds. That every one does (\<open>logs_written\<close>) is no
  part of the store's invariant \<open>fs_inv\<close>; it is a hypothesis of the properties on restarts and replicas, since
  a log with lost entries does not give a reopened store the positions of the running one.
\<close>

definition log_writable :: "('v, 'ev, 'json) fs_env \<Rightarrow> nat \<Rightarrow> bool" where
  "log_writable X n \<longleftrightarrow> io_log (fx_io X n) = Written \<and> (\<forall>entry. \<exists>l. fx_entry_to_line X entry = Inr l)"

definition logs_written :: "('v, 'ev, 'json) fs_env \<Rightarrow> bool" where
  "logs_written X \<longleftrightarrow> (\<forall>n. log_writable X n)"

text \<open>\<open>serde_json\<close>: a stored snapshot is read back.\<close>

definition snapshot_laws :: "('v, 'ev, 'json) fs_env \<Rightarrow> bool" where
  "snapshot_laws X \<longleftrightarrow> (\<forall>s body. fx_snapshot_to_json X s = Some body \<longrightarrow> fx_snapshot_from_json X body = Some s)"

definition log_contents :: "'v fs_store \<Rightarrow> rstring" where
  "log_contents st = log_of (fs_disk st)"

lemma with_log_facts:
  "log_of (with_log contents d) = contents" "dk_events (with_log contents d) = dk_events d"
  "dk_snapshots (with_log contents d) = dk_snapshots d" "with_log (log_of d) d = d"
  "dk_eventcore (with_log contents d) = dk_eventcore d" "dk_root (with_log contents d) = dk_root d"
  by (simp_all add: with_log_def log_of_def)

lemma persist_written:
  assumes "logs_written X" "outcome = Written"
  shows "\<exists>ls. persist (fx_entry_to_line X) path outcome new_entries contents = (Inr (), contents @ unlines ls)
    \<and> map (fx_entry_to_line X) new_entries = map Inr ls"
proof -
  obtain ls where ls: "collect_results (map (fx_entry_to_line X) new_entries) = Inr ls"
    using collect_results_total [of new_entries "fx_entry_to_line X"] assms by (auto simp: logs_written_def log_writable_def)
  then have m: "map (fx_entry_to_line X) new_entries = map Inr ls" by (simp add: collect_results_Inr_iff)
  then have "ls = [] \<longleftrightarrow> new_entries = []" by (metis length_0_conv length_map)
  then show ?thesis
    using assms(2) ls m by (cases "new_entries = []") (auto simp: persist_def intro!: exI [of _ ls])
qed

lemma persist_log_written:
  assumes "logs_written X"
  shows "\<exists>ls st'. persist_log X new_entries st = (Inr (), st') \<and> map (fx_entry_to_line X) new_entries = map Inr ls
    \<and> log_contents st' = log_contents st @ unlines ls \<and> fs_index st' = fs_index st
    \<and> dk_events (fs_disk st') = dk_events (fs_disk st) \<and> dk_snapshots (fs_disk st') = dk_snapshots (fs_disk st)
    \<and> fs_poisoned st' = fs_poisoned st \<and> fs_uuid_calls st' = fs_uuid_calls st \<and> fs_roots st' = fs_roots st
    \<and> fs_replica_id st' = fs_replica_id st \<and> fs_config st' = fs_config st"
proof -
  have "io_log (now_io X st) = Written" using assms by (simp add: logs_written_def log_writable_def now_io_def)
  then obtain ls where "persist (fx_entry_to_line X) (ingestion_log_path (fs_roots st)) (io_log (now_io X st)) new_entries
      (log_of (fs_disk st)) = (Inr (), log_of (fs_disk st) @ unlines ls)"
    "map (fx_entry_to_line X) new_entries = map Inr ls"
    using persist_written [OF assms] by blast
  then show ?thesis by (auto simp: persist_log_def log_contents_def with_log_facts)
qed

definition same_frame :: "'v fs_store \<Rightarrow> 'v fs_store \<Rightarrow> bool" where
  "same_frame st st' \<longleftrightarrow> fs_poisoned st' = fs_poisoned st \<and> fs_roots st' = fs_roots st
     \<and> fs_replica_id st' = fs_replica_id st \<and> fs_config st' = fs_config st
     \<and> dk_snapshots (fs_disk st') = dk_snapshots (fs_disk st)"

text \<open>Whether the log was written, and without \<open>logs_written\<close>: all new entries, or a failure and a prefix.\<close>

lemma persist_log_cases:
  assumes "persist_log X new_entries st = (r, st')"
  shows "fs_index st' = fs_index st \<and> dk_events (fs_disk st') = dk_events (fs_disk st)
    \<and> same_frame st st' \<and> fs_uuid_calls st' = fs_uuid_calls st
    \<and> (r = Inr () \<longrightarrow> (\<exists>ls. map (fx_entry_to_line X) new_entries = map Inr ls
         \<and> log_contents st' = log_contents st @ unlines ls))
    \<and> (\<exists>part. log_contents st' = log_contents st @ part) \<and> (log_writable X (fs_io_calls st) \<longrightarrow> r = Inr ())"
proof -
  obtain written contents where p: "persist (fx_entry_to_line X) (ingestion_log_path (fs_roots st))
      (io_log (now_io X st)) new_entries (log_of (fs_disk st)) = (written, contents)" by (rule prod.exhaust)
  have "(written = Inr () \<longrightarrow> (\<exists>ls. map (fx_entry_to_line X) new_entries = map Inr ls
        \<and> contents = log_of (fs_disk st) @ unlines ls))
      \<and> (\<exists>part. contents = log_of (fs_disk st) @ part)"
    using p by (auto simp: persist_def collect_results_Inr_iff split: if_splits file_write.splits sum.splits)
  moreover have "written = Inr ()" if "log_writable X (fs_io_calls st)"
    using that p collect_results_total [of new_entries "fx_entry_to_line X"]
    by (auto simp: persist_def log_writable_def now_io_def split: if_splits sum.splits)
  ultimately show ?thesis
    using assms p by (auto simp: persist_log_def Let_def log_contents_def with_log_facts same_frame_def)
qed

section \<open>A committed append\<close>

text \<open>
  The events of a batch are in the index and in a transaction file of their own (\<open>published\<close>); the append
  succeeded when their positions are in the ingestion log as well (\<open>committed\<close>).
\<close>

definition published ::
  "('v, 'ev, 'json) fs_env \<Rightarrow> 'v fs_store \<Rightarrow> 'ev stream_writes \<Rightarrow> transaction_header \<Rightarrow> 'v event_envelope list
     \<Rightarrow> (uuid \<times> u64) list \<Rightarrow> 'v fs_store \<Rightarrow> bool" where
  "published X st w h envelopes new_entries st' \<longleftrightarrow>
     check_heads (fs_index st) (expected_versions w) = None
   \<and> (\<exists>items new_events body ix'. collect_results (map (entry_item X) (entries w)) = Inr items
       \<and> build_envelopes (fx_now_v7 X) (fx_no_metadata X) (fs_index st) (Suc (fs_uuid_calls st)) items
           = (envelopes, new_events, fs_uuid_calls st')
       \<and> h = new_header X (st\<lparr>fs_uuid_calls := fs_uuid_calls st'\<rparr>) (fx_now_v7 X (fs_uuid_calls st))
               (ix_tips (fs_index st)) (expected_bases (expected_versions w))
       \<and> serialize_transaction (fx_to_line X) (fx_sha256 X) h envelopes = Inr body
       \<and> add_transaction (fx_now_v7 X (fs_uuid_calls st)) h new_events (fs_index st) = (new_entries, ix')
       \<and> fs_index st' = ix'\<lparr>ix_tips := [fx_now_v7 X (fs_uuid_calls st)]\<rparr>
       \<and> dk_events (fs_disk st') = hm_insert (event_file (fx_show_uuid X) (fx_now_v7 X (fs_uuid_calls st))) body
           (dk_events (fs_disk st)))"

definition committed ::
  "('v, 'ev, 'json) fs_env \<Rightarrow> 'v fs_store \<Rightarrow> 'ev stream_writes \<Rightarrow> transaction_header \<Rightarrow> 'v event_envelope list
     \<Rightarrow> (uuid \<times> u64) list \<Rightarrow> 'v fs_store \<Rightarrow> bool" where
  "committed X st w h envelopes new_entries st' \<longleftrightarrow> published X st w h envelopes new_entries st'
     \<and> (\<exists>ls. map (fx_entry_to_line X) new_entries = map Inr ls \<and> log_contents st' = log_contents st @ unlines ls)"

definition unchanged :: "'v fs_store \<Rightarrow> 'v fs_store \<Rightarrow> bool" where
  "unchanged st st' \<longleftrightarrow> fs_index st' = fs_index st \<and> dk_events (fs_disk st') = dk_events (fs_disk st)
     \<and> dk_index (fs_disk st') = dk_index (fs_disk st) \<and> fs_uuid_calls st \<le> fs_uuid_calls st'"

lemma store_transaction_facts:
  assumes "store_transaction X t body st = (r, st')"
  shows "same_frame st st' \<and> fs_index st' = fs_index st \<and> fs_uuid_calls st' = fs_uuid_calls st
    \<and> dk_index (fs_disk st') = dk_index (fs_disk st) \<and> fs_io_calls st' = Suc (fs_io_calls st)
    \<and> (io_file (now_io X st) = NoFault \<longrightarrow> r = Inr ())
    \<and> dk_events (fs_disk st') = (case r of Inl _ \<Rightarrow> dk_events (fs_disk st)
        | Inr _ \<Rightarrow> hm_insert (event_file (fx_show_uuid X) t) body (dk_events (fs_disk st)))"
  using assms
  by (auto simp: store_transaction_def write_transaction_file_def same_frame_def Let_def
      split: write_fault.splits if_splits)

lemma build_envelopes_calls:
  "build_envelopes now_v7 no_metadata ix calls items = (es, xs, calls') \<Longrightarrow> calls' = calls + length items"
  unfolding build_envelopes_def by (drule build_envelopes_loop_facts) (elim conjE)

lemma serialize_error:
  assumes "serialize_transaction to_line sha256 h es = Inl e"
  shows "e = StoreFailure AppendEvents"
proof -
  have line: "serialize_line to_line l = Inl e' \<Longrightarrow> e' = StoreFailure AppendEvents" for l e'
    by (simp add: serialize_line_def split: option.splits)
  show ?thesis
  proof (cases "collect_results (map (\<lambda>e. serialize_line to_line (LEvent e)) es)")
    case (Inl e')
    then have "e' = StoreFailure AppendEvents" using line collect_results_Inl by fastforce
    then show ?thesis using assms Inl by (simp add: serialize_transaction_def)
  next
    case (Inr ls)
    obtain l e' where "serialize_line to_line l = Inl e'" "e = e'"
      using assms Inr unfolding serialize_transaction_def rbind.simps Let_def
      by (cases "serialize_line to_line (LHeader (h\<lparr>th_content_hash := Some (content_hash sha256 (join_lines ls @ [10]))\<rparr>))")
         auto
    then show ?thesis using line by blast
  qed
qed

text \<open>What can make the storage refuse a batch before its events are published.\<close>

definition append_faults :: "('v, 'ev, 'json) fs_env \<Rightarrow> 'v fs_store \<Rightarrow> 'ev stream_writes \<Rightarrow> bool" where
  "append_faults X st w \<longleftrightarrow> (\<exists>en \<in> set (entries w). fx_parse_value X (we_event_data en) = None)
     \<or> (\<exists>l. fx_to_line X l = None) \<or> io_file (now_io X st) \<noteq> NoFault"

lemma serialize_total:
  assumes "\<And>l. to_line l \<noteq> None"
  shows "\<exists>body. serialize_transaction to_line sha256 h es = Inr body"
proof -
  have l: "\<exists>s. serialize_line to_line l = Inr s" for l
    using assms [of l] by (auto simp: serialize_line_def)
  obtain ls where "collect_results (map (\<lambda>e. serialize_line to_line (LEvent e)) es) = Inr ls"
    using collect_results_total [of es "\<lambda>e. serialize_line to_line (LEvent e)"] l by blast
  moreover obtain s where
    "serialize_line to_line (LHeader (h\<lparr>th_content_hash := Some (content_hash sha256 (join_lines ls @ [10]))\<rparr>)) = Inr s"
    using l by blast
  ultimately show ?thesis by (simp add: serialize_transaction_def Let_def)
qed

text \<open>
  Every outcome of an append: nothing to do, a failure before anything was published, success, or a failing
  write of the ingestion log after the events were published.
\<close>

lemma fs_append_outcomes:
  assumes "\<not> fs_poisoned st" "fs_append_events X st w = (r, st')"
  shows "same_frame st st' \<and>
     ((r = Inr () \<and> entries w = [] \<and> st' = st)
    \<or> (\<exists>e. r = Inl e \<and> entries w \<noteq> [] \<and> unchanged st st'
         \<and> (check_heads (fs_index st) (expected_versions w) = Some e
            \<or> check_heads (fs_index st) (expected_versions w) = None \<and> e = StoreFailure AppendEvents
               \<and> append_faults X st w))
    \<or> (\<exists>h envelopes new_entries. r = Inr () \<and> entries w \<noteq> [] \<and> committed X st w h envelopes new_entries st')
    \<or> (\<exists>h envelopes new_entries. r = Inl (StoreFailure AppendEvents) \<and> entries w \<noteq> []
         \<and> \<not> log_writable X (Suc (fs_io_calls st))
         \<and> published X st w h envelopes new_entries st' \<and> (\<exists>part. log_contents st' = log_contents st @ part)))"
proof (cases "entries w = []")
  case True
  then show ?thesis using assms(2) by (simp add: fs_append_events_def same_frame_def)
next
  case ne: False
  let ?t = "fx_now_v7 X (fs_uuid_calls st)"
  show ?thesis
  proof (cases "check_heads (fs_index st) (expected_versions w)")
    case (Some e)
    then show ?thesis
      using assms ne by (auto simp: fs_append_events_def Let_def same_frame_def unchanged_def)
  next
    case heads: None
    show ?thesis
    proof (cases "collect_results (map (entry_item X) (entries w))")
      case (Inl e)
      then obtain en where "en \<in> set (entries w)" "entry_item X en = Inl e" using collect_results_Inl by fastforce
      then have "e = StoreFailure AppendEvents" "append_faults X st w"
        by (auto simp: entry_item_def append_faults_def split: option.splits)
      then show ?thesis
        using assms ne heads Inl by (auto simp: fs_append_events_def Let_def same_frame_def unchanged_def)
    next
      case items: (Inr items)
      obtain es xs calls' where be: "build_envelopes (fx_now_v7 X) (fx_no_metadata X) (fs_index st)
          (Suc (fs_uuid_calls st)) items = (es, xs, calls')" by (rule prod_cases3)
      have calls: "fs_uuid_calls st \<le> calls'" using build_envelopes_calls [OF be] by simp
      let ?st1 = "st\<lparr>fs_uuid_calls := calls'\<rparr>"
      let ?h = "new_header X ?st1 ?t (ix_tips (fs_index st)) (expected_bases (expected_versions w))"
      show ?thesis
      proof (cases "serialize_transaction (fx_to_line X) (fx_sha256 X) ?h es")
        case (Inl e)
        then have "e = StoreFailure AppendEvents" by (rule serialize_error)
        moreover have "append_faults X st w"
          using serialize_total [of "fx_to_line X" "fx_sha256 X" ?h es] Inl by (auto simp: append_faults_def)
        ultimately show ?thesis
          using assms ne heads items be Inl calls by (auto simp: fs_append_events_def Let_def same_frame_def unchanged_def)
      next
        case body: (Inr body)
        obtain written st2 where w2: "store_transaction X ?t body ?st1 = (written, st2)" by (rule prod.exhaust)
        note f2 = store_transaction_facts [OF w2]
        show ?thesis
        proof (cases written)
          case (Inl e)
          then have "append_faults X st w" using f2 by (auto simp: append_faults_def now_io_def)
          then show ?thesis
            using assms ne heads items be body w2 f2 calls Inl
            by (auto simp: fs_append_events_def Let_def same_frame_def unchanged_def)
        next
          case (Inr u)
          obtain new_entries ix' where add: "add_transaction ?t ?h xs (fs_index st) = (new_entries, ix')" by (rule prod.exhaust)
          let ?st2 = "st2\<lparr>fs_index := ix'\<lparr>ix_tips := [?t]\<rparr>\<rparr>"
          obtain persisted st3 where p: "persist_log X new_entries ?st2 = (persisted, st3)" by (rule prod.exhaust)
          note log = persist_log_cases [OF p]
          have res: "r = map_err (\<lambda>_. StoreFailure AppendEvents) persisted" "st' = st3"
            using assms ne heads items be body w2 Inr add p by (simp_all add: fs_append_events_def Let_def)
          have same: "log_contents ?st2 = log_contents st" using f2 by (simp add: log_contents_def log_of_def)
          have frame: "same_frame st st'" using log f2 res(2) by (simp add: same_frame_def)
          have pub: "published X st w ?h es new_entries st'"
            unfolding published_def using heads items be body add log f2 res(2) Inr by auto
          show ?thesis
          proof (cases persisted)
            case (Inl e)
            then have "\<not> log_writable X (Suc (fs_io_calls st))" using log f2 by auto
            then show ?thesis using ne res pub frame log same Inl by auto
          next
            case (Inr u)
            then have "committed X st w ?h es new_entries st'"
              using pub log same res(2) by (simp add: committed_def)
            then show ?thesis using ne res frame Inr by auto
          qed
        qed
      qed
    qed
  qed
qed

text \<open>Where the log can be written, the last outcome does not happen.\<close>

lemma fs_append_cases:
  assumes "logs_written X" "\<not> fs_poisoned st" "fs_append_events X st w = (r, st')"
  shows "same_frame st st' \<and>
     ((r = Inr () \<and> entries w = [] \<and> st' = st)
    \<or> (\<exists>e. r = Inl e \<and> entries w \<noteq> [] \<and> unchanged st st'
         \<and> (check_heads (fs_index st) (expected_versions w) = Some e
            \<or> check_heads (fs_index st) (expected_versions w) = None \<and> e = StoreFailure AppendEvents))
    \<or> (\<exists>h envelopes new_entries. r = Inr () \<and> entries w \<noteq> [] \<and> committed X st w h envelopes new_entries st'))"
  using fs_append_outcomes [OF assms(2,3)] assms(1) unfolding logs_written_def by blast

section \<open>The histories\<close>

definition decoded :: "('v, 'ev, 'json) fs_env \<Rightarrow> 'v indexed_event \<Rightarrow> 'ev" where
  "decoded X x = projr (fx_from_value X (ix_event_data x))"

definition decodable :: "('v, 'ev, 'json) fs_env \<Rightarrow> 'v indexed_event \<Rightarrow> bool" where
  "decodable X x \<longleftrightarrow> fx_from_value X (ix_event_data x) = Inr (decoded X x)"

definition fs_view :: "('v, 'ev, 'json) fs_env \<Rightarrow> 'v fs_store \<Rightarrow> stream_id \<Rightarrow> 'ev list" where
  "fs_view X st sid = map (decoded X) (stream_events (ix_streams (fs_index st)) (sid_str sid))"

definition fs_inv :: "('v, 'ev, 'json) fs_env \<Rightarrow> 'ev event_type \<Rightarrow> 'v fs_store \<Rightarrow> bool" where
  "fs_inv X E st \<longleftrightarrow> value_laws X E \<and> snapshot_laws X \<and> \<not> fs_poisoned st
     \<and> (\<forall>s. list_all (decodable X) (stream_events (ix_streams (fs_index st)) s))"

lemma decode_all:
  "list_all (decodable X) xs \<Longrightarrow> map (fs_decode X sid) xs = map Inr (map (decoded X) xs)"
  by (induction xs) (simp_all add: fs_decode_def decodable_def)

lemma fs_read_view:
  assumes "fs_inv X E st"
  shows "fs_read_stream X st sid = Inr (map Inr (fs_view X st sid))"
    and "fs_read_stream_after X st sid v = Inr (map Inr (drop (unat v) (fs_view X st sid)))"
proof -
  have d: "list_all (decodable X) (stream_events (ix_streams (fs_index st)) (sid_str sid))" "\<not> fs_poisoned st"
    using assms by (simp_all add: fs_inv_def)
  then show "fs_read_stream X st sid = Inr (map Inr (fs_view X st sid))"
    using decode_all [OF d(1), of sid]
    by (cases "hm_get (ix_streams (fs_index st)) (sid_str sid)")
       (simp_all add: fs_read_stream_def fs_view_def stream_events_def)
  have "list_all (decodable X) (drop (unat v) (stream_events (ix_streams (fs_index st)) (sid_str sid)))"
    using d(1) by (auto simp: list_all_iff dest: in_set_dropD)
  from decode_all [OF this, of sid]
  show "fs_read_stream_after X st sid v = Inr (map Inr (drop (unat v) (fs_view X st sid)))"
    using d(2) by (cases "hm_get (ix_streams (fs_index st)) (sid_str sid)")
      (simp_all add: fs_read_stream_after_def fs_view_def stream_events_def drop_map)
qed

lemma check_heads_None:
  "check_heads ix es = None \<longleftrightarrow> (\<forall>(sid, v) \<in> set es. v = vlen (stream_events (ix_streams ix) (sid_str sid)))"
  by (induction ix es rule: check_heads.induct) (auto simp: Let_def stream_head_def)

lemma check_heads_Some:
  "check_heads ix es = Some e \<Longrightarrow> \<exists>(sid, v) \<in> set es.
     e = VersionConflict sid v (vlen (stream_events (ix_streams ix) (sid_str sid)))
     \<and> v \<noteq> vlen (stream_events (ix_streams ix) (sid_str sid))"
  by (induction ix es rule: check_heads.induct) (auto simp: Let_def stream_head_def split: if_splits)

lemma fs_versions_match:
  "versions_match (fs_view X) st w \<longleftrightarrow> check_heads (fs_index st) (expected_versions w) = None"
  by (simp add: versions_match_def check_heads_None fs_view_def vlen_def)

lemma entry_items:
  assumes "value_laws X E" "\<forall>en \<in> set ens. typed_entry E en" "collect_results (map (entry_item X) ens) = Inr items"
    and "map (\<lambda>x. (ix_stream_id x, ix_event_type x, ix_event_data x)) xs = items"
  shows "map (decoded X) (of_stream (sid_str sid) xs) = events_for ens sid \<and> list_all (decodable X) xs"
  using assms(2-4)
proof (induction ens arbitrary: items xs)
  case (Cons en ens)
  obtain v where v: "fx_parse_value X (we_event_data en) = Some v" "fx_from_value X v = Inr (we_event en)"
    using assms(1) Cons.prems(1) unfolding value_laws_def typed_entry_def by force
  have item: "entry_item X en = Inr (sid_str (we_stream_id en), we_event_type en, v)"
    by (simp add: entry_item_def v(1))
  obtain items' where i: "collect_results (map (entry_item X) ens) = Inr items'"
    "items = (sid_str (we_stream_id en), we_event_type en, v) # items'"
    using Cons.prems(2) item by (auto split: sum.splits)
  obtain x xs' where x: "xs = x # xs'" "ix_stream_id x = sid_str (we_stream_id en)" "ix_event_data x = v"
    "map (\<lambda>x. (ix_stream_id x, ix_event_type x, ix_event_data x)) xs' = items'"
    using Cons.prems(3) unfolding i(2) by auto
  show ?case
    using Cons.IH [OF _ i(1) x(4)] Cons.prems(1) v(2) x by (auto simp: decoded_def decodable_def stream_id.expand)
qed simp

lemma published_streams:
  assumes "published X st w h envelopes new_entries st'"
  obtains items xs where "collect_results (map (entry_item X) (entries w)) = Inr items"
    and "map (\<lambda>x. (ix_stream_id x, ix_event_type x, ix_event_data x)) xs = items"
    and "xs = map to_indexed envelopes"
    and "\<forall>s. stream_events (ix_streams (fs_index st')) s = stream_events (ix_streams (fs_index st)) s @ of_stream s xs"
    and "(new_entries, ix_log (fs_index st')) = allocate_all (ix_log (fs_index st)) (map ix_event_id xs)"
    and "ix_by_ingestion (fs_index st') = ix_by_ingestion (fs_index st) @ positioned new_entries xs"
    and "hm_wf (ix_streams (fs_index st)) \<longrightarrow> hm_wf (ix_streams (fs_index st'))"
    and "ix_headers (fs_index st') = hm_insert (fx_now_v7 X (fs_uuid_calls st)) h (ix_headers (fs_index st))"
    and "map ix_event_id xs = map (fx_now_v7 X) [Suc (fs_uuid_calls st) ..< fs_uuid_calls st']"
    and "ix_tips (fs_index st') = [fx_now_v7 X (fs_uuid_calls st)]"
proof -
  obtain items xs body ix' where c: "collect_results (map (entry_item X) (entries w)) = Inr items"
    "build_envelopes (fx_now_v7 X) (fx_no_metadata X) (fs_index st) (Suc (fs_uuid_calls st)) items
       = (envelopes, xs, fs_uuid_calls st')"
    "add_transaction (fx_now_v7 X (fs_uuid_calls st)) h xs (fs_index st) = (new_entries, ix')"
    "fs_index st' = ix'\<lparr>ix_tips := [fx_now_v7 X (fs_uuid_calls st)]\<rparr>"
    using assms unfolding published_def by blast
  note b = build_envelopes_loop_facts [OF c(2) [unfolded build_envelopes_def]]
  note p = add_transaction_facts [OF c(3)]
  have fields: "ix_streams (fs_index st') = ix_streams ix'" "ix_log (fs_index st') = ix_log ix'"
    "ix_by_ingestion (fs_index st') = ix_by_ingestion ix'" "ix_headers (fs_index st') = ix_headers ix'"
    "ix_tips (fs_index st') = [fx_now_v7 X (fs_uuid_calls st)]"
    unfolding c(4) by simp_all
  show thesis
  proof (rule that [OF c(1), of xs])
    show "map (\<lambda>x. (ix_stream_id x, ix_event_type x, ix_event_data x)) xs = items" using b by blast
    show "xs = map to_indexed envelopes" using b by blast
    show "map ix_event_id xs = map (fx_now_v7 X) [Suc (fs_uuid_calls st) ..< fs_uuid_calls st']" using b by blast
    show "\<forall>s. stream_events (ix_streams (fs_index st')) s = stream_events (ix_streams (fs_index st)) s @ of_stream s xs"
      "(new_entries, ix_log (fs_index st')) = allocate_all (ix_log (fs_index st)) (map ix_event_id xs)"
      "ix_by_ingestion (fs_index st') = ix_by_ingestion (fs_index st) @ positioned new_entries xs"
      "hm_wf (ix_streams (fs_index st)) \<longrightarrow> hm_wf (ix_streams (fs_index st'))"
      "ix_headers (fs_index st') = hm_insert (fx_now_v7 X (fs_uuid_calls st)) h (ix_headers (fs_index st))"
      "ix_tips (fs_index st') = [fx_now_v7 X (fs_uuid_calls st)]"
      unfolding fields by (intro allI p(3), rule p(1), rule p(2), intro impI p(4), assumption, rule p(5), rule refl)
  qed
qed

lemma fs_commit_view:
  assumes "fs_inv X E st" "\<forall>en \<in> set (entries w). typed_entry E en"
    and "published X st w h envelopes new_entries st'" "same_frame st st'"
  shows "fs_inv X E st' \<and> fs_view X st' = (\<lambda>sid. fs_view X st sid @ events_for (entries w) sid)"
proof -
  obtain items xs where c: "collect_results (map (entry_item X) (entries w)) = Inr items"
    "map (\<lambda>x. (ix_stream_id x, ix_event_type x, ix_event_data x)) xs = items"
    "\<forall>s. stream_events (ix_streams (fs_index st')) s = stream_events (ix_streams (fs_index st)) s @ of_stream s xs"
    by (rule published_streams [OF assms(3)])
  have laws: "value_laws X E" using assms(1) by (simp add: fs_inv_def)
  note e = entry_items [OF laws assms(2) c(1,2)]
  have "list_all (decodable X) (of_stream s xs)" for s using e by (auto simp: of_stream_def list_all_iff)
  then show ?thesis
    using assms(1,4) e c(3) by (auto simp: fs_inv_def fs_view_def same_frame_def fun_eq_iff)
qed

section \<open>The contract\<close>

text \<open>The transaction file of an append, named after the identifier it took.\<close>

definition file_added :: "('v, 'ev, 'json) fs_env \<Rightarrow> 'v fs_store \<Rightarrow> 'v fs_store \<Rightarrow> bool" where
  "file_added X st st' \<longleftrightarrow> (\<exists>body. dk_events (fs_disk st')
     = hm_insert (event_file (fx_show_uuid X) (fx_now_v7 X (fs_uuid_calls st))) body (dk_events (fs_disk st)))"

text \<open>The outcomes in terms of the histories.\<close>

lemma fs_append_histories:
  assumes "fs_inv X E st" "\<forall>en \<in> set (entries w). typed_entry E en" "fs_append_events X st w = (r, st')"
  shows "fs_inv X E st' \<and> same_frame st st'
    \<and> (case r of
      Inr _ \<Rightarrow> (entries w \<noteq> [] \<longrightarrow> versions_match (fs_view X) st w \<and> file_added X st st')
        \<and> fs_view X st' = (\<lambda>sid. fs_view X st sid @ events_for (entries w) sid)
    | Inl e \<Rightarrow>
        (e = StoreFailure AppendEvents \<and> \<not> log_writable X (Suc (fs_io_calls st)) \<and> versions_match (fs_view X) st w
           \<and> file_added X st st' \<and> fs_view X st' = (\<lambda>sid. fs_view X st sid @ events_for (entries w) sid))
      \<or> (fs_index st' = fs_index st \<and> dk_events (fs_disk st') = dk_events (fs_disk st)
           \<and> (e = StoreFailure AppendEvents \<and> append_faults X st w \<and> versions_match (fs_view X) st w
              \<or> (\<exists>(sid, v) \<in> set (expected_versions w). e = VersionConflict sid v (vlen (fs_view X st sid))
                   \<and> v \<noteq> vlen (fs_view X st sid)))))"
proof -
  have alive: "\<not> fs_poisoned st" using assms(1) by (simp add: fs_inv_def)
  note out = fs_append_outcomes [OF alive assms(3)]
  then have frame: "same_frame st st'" by blast
  from out consider (nothing) "r = Inr ()" "entries w = []" "st' = st"
    | (stale) e where "r = Inl e" "unchanged st st'" "check_heads (fs_index st) (expected_versions w) = Some e"
    | (fault) "r = Inl (StoreFailure AppendEvents)" "unchanged st st'"
        "check_heads (fs_index st) (expected_versions w) = None" "append_faults X st w"
    | (success) h envelopes new_entries where "r = Inr ()" "published X st w h envelopes new_entries st'"
    | (log) h envelopes new_entries where "r = Inl (StoreFailure AppendEvents)"
        "\<not> log_writable X (Suc (fs_io_calls st))" "published X st w h envelopes new_entries st'"
    unfolding committed_def by (elim conjE disjE exE; hypsubst?; blast)
  then show ?thesis
  proof cases
    case nothing
    then show ?thesis using assms(1) frame by simp
  next
    case stale
    then have "fs_inv X E st'" using assms(1) frame by (simp add: fs_inv_def unchanged_def same_frame_def)
    then show ?thesis
      using stale frame check_heads_Some [OF stale(3)] by (auto simp: unchanged_def fs_view_def vlen_def)
  next
    case fault
    then have "versions_match (fs_view X) st w" by (simp only: fs_versions_match)
    moreover have "fs_inv X E st'"
      using fault assms(1) frame by (simp add: fs_inv_def unchanged_def same_frame_def)
    ultimately show ?thesis using fault frame by (simp add: unchanged_def)
  next
    case success
    then have "versions_match (fs_view X) st w" "file_added X st st'"
      by (simp only: fs_versions_match published_def, auto simp: published_def file_added_def)
    then show ?thesis using fs_commit_view [OF assms(1,2) success(2) frame] success(1) frame by simp
  next
    case log
    then have "versions_match (fs_view X) st w" "file_added X st st'"
      by (simp only: fs_versions_match published_def, auto simp: published_def file_added_def)
    then show ?thesis using fs_commit_view [OF assms(1,2) log(3) frame] log(1,2) frame by simp
  qed
qed

interpretation fs: event_store "fs_ops X" "fs_inv X E" "fs_view X" "typed_entry E"
proof (unfold_locales, goal_cases)
  case (1 st sid)
  then show ?case by (simp add: fs_ops_def fs_read_view)
next
  case (2 st w u st')
  then show ?case using fs_append_histories [of X E st w "Inr u" st'] by (simp add: fs_ops_def)
next
  case (3 st w u st')
  then show ?case using fs_append_histories [of X E st w "Inr u" st'] by (simp add: fs_ops_def)
next
  case (4 st w e st')
  then show ?case
    using fs_append_histories [of X E st w "Inl e" st'] by (auto simp: fs_ops_def fs_view_def fun_eq_iff)
next
  case (5 st w sid v actual st')
  then show ?case
    using fs_append_histories [of X E st w "Inl (VersionConflict sid v actual)" st']
    by (auto simp: fs_ops_def fs_view_def fun_eq_iff)
qed

section \<open>Snapshots\<close>

definition fs_stored :: "('v, 'ev, 'json) fs_env \<Rightarrow> 'v fs_store \<Rightarrow> rstring \<Rightarrow> 'json command_state_snapshot option" where
  "fs_stored X st i =
     (case hm_get (dk_snapshots (fs_disk st)) (snapshot_file (snapshot_filename X i)) of
        None \<Rightarrow> None | Some c \<Rightarrow> fx_snapshot_from_json X c)"

lemma write_snapshot_kept:
  assumes "snapshot_laws X" "write_snapshot X filename s st = (r, st')"
  shows "fs_index st' = fs_index st \<and> fs_poisoned st' = fs_poisoned st
    \<and> (hm_get (dk_snapshots (fs_disk st')) (snapshot_file filename) = hm_get (dk_snapshots (fs_disk st)) (snapshot_file filename)
       \<or> (\<exists>body. hm_get (dk_snapshots (fs_disk st')) (snapshot_file filename) = Some body
            \<and> fx_snapshot_from_json X body = Some s))"
proof -
  have ne: "snapshot_file filename \<noteq> snapshot_tmp_file filename"
    by (simp add: snapshot_file_def snapshot_tmp_file_def lit_def)
  show ?thesis
    using assms ne
    by (auto simp: write_snapshot_def write_snapshot_file_def snapshot_laws_def Let_def
        split: option.splits write_fault.splits if_splits)
qed

lemma fs_save_kept:
  assumes "snapshot_laws X" "fs_save_snapshot X st i s = (r, st')"
  shows "fs_index st' = fs_index st \<and> fs_poisoned st' = fs_poisoned st
    \<and> (fs_stored X st' i = fs_stored X st i \<or> fs_stored X st' i = Some s)"
proof -
  consider "st' = st" | "write_snapshot X (snapshot_filename X i) s st = (r, st')"
    using assms(2) by (auto simp: fs_save_snapshot_def Let_def split: file_read.splits option.splits if_splits)
  then show ?thesis
  proof cases
    case 2
    then show ?thesis using write_snapshot_kept [OF assms(1) 2] by (auto simp: fs_stored_def)
  qed simp
qed

interpretation fs_snap: snapshot_event_store "fs_ops X" "fs_inv X E" "fs_view X" "typed_entry E" "fs_stored X"
proof (unfold_locales, goal_cases)
  case (1 st sid v)
  then show ?case by (simp add: fs_ops_def fs_read_view)
next
  case (2 st i found)
  then show ?case
    by (auto simp: fs_ops_def fs_load_snapshot_def read_snapshot_file_def read_file_def fs_stored_def
        split: option.splits)
next
  case (3 st i s r st')
  have "snapshot_laws X" "fs_save_snapshot X st i s = (r, st')" using 3 by (simp_all add: fs_inv_def fs_ops_def)
  from fs_save_kept [OF this] show ?case using 3(1) by (auto simp: fs_inv_def fs_view_def fun_eq_iff)
next
  case (4 st w r st' i)
  have "\<not> fs_poisoned st" "fs_append_events X st w = (r, st')"
    using 4 by (simp_all add: fs_inv_def fs_ops_def)
  from fs_append_outcomes [OF this] show ?case by (auto simp: fs_stored_def same_frame_def)
qed

end
