(* ===== verification/Fs_Synced.thy ===== *)
theory Fs_Synced
  imports Fs_Store_Correct
begin

text \<open>
  The running index and the files agree: \<open>synced\<close> says that the index is what scanning the directory
  and the log gives. A scan establishes it, whatever the order of the directory's entries and whichever
  files a merge added; an append preserves it; and two synced indexes over the same files and the same
  log show the same streams, cursors and tips.
\<close>

section \<open>The recorded transactions\<close>

type_synonym 'v transactions = "(transaction_header \<times> 'v event_envelope list) list"

definition uuid_laws :: "('v, 'ev, 'json) fs_env \<Rightarrow> bool" where
  "uuid_laws X \<longleftrightarrow> inj (fx_show_uuid X) \<and> (\<forall>t. fx_show_uuid X t \<noteq> [] \<and> str_trim (fx_show_uuid X t) = fx_show_uuid X t
     \<and> fx_parse_uuid X (fx_show_uuid X t) = Inr t)"

definition tx_id :: "transaction_header \<times> 'v event_envelope list \<Rightarrow> uuid" where
  "tx_id tx = th_transaction_id (fst tx)"

definition tx_file ::
  "('v, 'ev, 'json) fs_env \<Rightarrow> rstring \<times> rstring \<Rightarrow> transaction_header \<times> 'v event_envelope list \<Rightarrow> bool" where
  "tx_file X f tx \<longleftrightarrow> fst f = event_file (fx_show_uuid X) (tx_id tx)
     \<and> (\<forall>path. load_transaction (fx_from_line X) (fx_sha256 X) path (FileContents (snd f)) = Inr (Valid (fst tx) (snd tx)))"

definition dir_txs :: "('v, 'ev, 'json) fs_env \<Rightarrow> directory \<Rightarrow> 'v transactions \<Rightarrow> bool" where
  "dir_txs X dir txs \<longleftrightarrow> list_all2 (tx_file X) dir txs"

definition all_events :: "'v transactions \<Rightarrow> 'v event_envelope list" where
  "all_events txs = concat (map snd txs)"

definition graph_ok :: "'v transactions \<Rightarrow> bool" where
  "graph_ok txs \<longleftrightarrow> distinct (map tx_id txs) \<and> acyclic_headers (headers_map txs)
     \<and> distinct (map ee_event_id (all_events txs))"

lemma fold_insert_new:
  "distinct (map f xs) \<Longrightarrow> f ` set xs \<inter> fst ` set m = {} \<Longrightarrow>
     fold (\<lambda>x. hm_insert (f x) (g x)) xs m = m @ map (\<lambda>x. (f x, g x)) xs"
proof (induction xs arbitrary: m)
  case (Cons x xs)
  then have "hm_insert (f x) (g x) m = m @ [(f x, g x)]" by (intro hm_insert_new) auto
  then show ?case using Cons by auto
qed simp

lemma headers_map_eq: "distinct (map tx_id txs) \<Longrightarrow> headers_map txs = map (\<lambda>tx. (tx_id tx, fst tx)) txs"
  unfolding headers_map_def case_prod_unfold tx_id_def [symmetric]
  using fold_insert_new [of tx_id txs "[]" fst] by simp

lemma events_map_eq: "distinct (map tx_id txs) \<Longrightarrow> events_map txs = map (\<lambda>tx. (tx_id tx, snd tx)) txs"
  unfolding events_map_def case_prod_unfold tx_id_def [symmetric]
  using fold_insert_new [of tx_id txs "[]" snd] by simp

lemma map_of_tagged:
  "distinct (map f xs) \<Longrightarrow> map_of (map (\<lambda>x. (f x, g x)) xs) k = Some v \<longleftrightarrow> (\<exists>x \<in> set xs. f x = k \<and> g x = v)"
  by (subst hm_get_in [symmetric]) (auto simp: comp_def)

lemma map_of_tagged_same:
  assumes "distinct (map f xs)" "distinct (map f ys)" "set xs = set ys"
  shows "map_of (map (\<lambda>x. (f x, g x)) xs) = map_of (map (\<lambda>x. (f x, g x)) ys)"
proof
  fix k
  show "map_of (map (\<lambda>x. (f x, g x)) xs) k = map_of (map (\<lambda>x. (f x, g x)) ys) k"
    using map_of_tagged [OF assms(1), of g k] map_of_tagged [OF assms(2), of g k] assms(3)
    by (metis not_None_eq)
qed

lemma canonical_events_same:
  assumes "graph_ok txs" "graph_ok txs'" "set txs = set txs'"
  shows "hm_same (headers_map txs) (headers_map txs')" "canonical_events txs = canonical_events txs'"
proof -
  have d: "distinct (map tx_id txs)" "distinct (map tx_id txs')" using assms by (simp_all add: graph_ok_def)
  show same: "hm_same (headers_map txs) (headers_map txs')"
    using map_of_tagged_same [OF d assms(3), of fst] d
    unfolding hm_same_def by (intro conjI headers_map_wf) (simp only: headers_map_eq [OF d(1)] headers_map_eq [OF d(2)])
  have "hm_get (events_map txs) = hm_get (events_map txs')"
    using map_of_tagged_same [OF d assms(3), of snd] by (simp add: events_map_eq [OF d(1)] events_map_eq [OF d(2)])
  then have "txn_events (events_map txs) = txn_events (events_map txs')" by (simp add: txn_events_def fun_eq_iff)
  then show "canonical_events txs = canonical_events txs'"
    by (simp add: canonical_events_def canonical_order_same [OF same])
qed

lemma mset_concat_cong: "mset xss = mset yss \<Longrightarrow> mset (concat xss) = mset (concat yss)"
  by (simp only: mset_concat sum_mset_sum_list [symmetric] mset_map)

lemma canonical_events_set:
  assumes "graph_ok txs"
  shows "mset (canonical_events txs) = mset (all_events txs)"
proof -
  have d: "distinct (map tx_id txs)" using assms by (simp add: graph_ok_def)
  have order: "mset (canonical_order (headers_map txs)) = mset (map tx_id txs)"
  proof (rule set_eq_iff_mset_eq_distinct [THEN iffD1])
    show "distinct (canonical_order (headers_map txs))" by (rule canonical_order_distinct [OF headers_map_wf])
    show "set (canonical_order (headers_map txs)) = set (map tx_id txs)"
      by (auto simp: canonical_order_set headers_map_eq [OF d] image_iff)
  qed (rule d)
  have get: "hm_get (events_map txs) (tx_id tx) = Some (snd tx)" if "tx \<in> set txs" for tx
    unfolding events_map_eq [OF d] map_of_tagged [OF d] using that by blast
  have "map (txn_events (events_map txs)) (map tx_id txs) = map snd txs"
    unfolding map_map by (rule map_cong [OF refl]) (simp add: txn_events_def get)
  then have "mset (map (txn_events (events_map txs)) (canonical_order (headers_map txs))) = mset (map snd txs)"
    unfolding mset_map [of _ "canonical_order _"] order mset_map [symmetric] by (rule arg_cong)
  then have "mset (concat (map (txn_events (events_map txs)) (canonical_order (headers_map txs)))) = mset (concat (map snd txs))"
    by (rule mset_concat_cong)
  then show ?thesis by (simp only: canonical_events_def all_events_def)
qed

lemma canonical_events_distinct: "graph_ok txs \<Longrightarrow> distinct (map ee_event_id (canonical_events txs))"
proof -
  assume ok: "graph_ok txs"
  have "mset (map ee_event_id (canonical_events txs)) = mset (map ee_event_id (all_events txs))"
    unfolding mset_map canonical_events_set [OF ok] ..
  then show ?thesis using ok mset_eq_imp_distinct_iff unfolding graph_ok_def by blast
qed

section \<open>Agreement\<close>

definition unanchored :: "transaction_header \<Rightarrow> transaction_header" where
  "unanchored h = h\<lparr>th_content_hash := None\<rparr>"

definition placed :: "ingestion_log \<Rightarrow> 'v event_envelope \<Rightarrow> uuid \<times> 'v indexed_event" where
  "placed lg e = (position_from_seq (the (seq_of lg (ee_event_id e))), to_indexed e)"

definition index_of :: "'v transactions \<Rightarrow> 'v index \<Rightarrow> bool" where
  "index_of txs ix \<longleftrightarrow>
     map (apsnd unanchored) (ix_headers ix) = map (\<lambda>tx. (tx_id tx, unanchored (fst tx))) txs
   \<and> ix_tips ix = compute_tips (headers_map txs) \<and> hm_wf (ix_streams ix)
   \<and> (\<forall>s. stream_events (ix_streams ix) s = of_stream s (map to_indexed (canonical_events txs)))
   \<and> ix_by_ingestion ix = sort_key fst (map (placed (ix_log ix)) (canonical_events txs))
   \<and> log_wf (ix_log ix) \<and> (\<forall>e \<in> set (canonical_events txs). seq_of (ix_log ix) (ee_event_id e) \<noteq> None)"

definition synced_to :: "('v, 'ev, 'json) fs_env \<Rightarrow> 'v transactions \<Rightarrow> directory \<Rightarrow> rstring \<Rightarrow> 'v index \<Rightarrow> bool" where
  "synced_to X txs dir contents ix \<longleftrightarrow> dir_txs X dir txs \<and> graph_ok txs \<and> index_of txs ix
     \<and> log_file (fx_entry_from_line X) contents (ix_log ix)"

text \<open>What a user of the store sees of an index.\<close>

definition same_index :: "'v index \<Rightarrow> 'v index \<Rightarrow> bool" where
  "same_index a b \<longleftrightarrow> (\<forall>s. stream_events (ix_streams a) s = stream_events (ix_streams b) s)
     \<and> ix_by_ingestion a = ix_by_ingestion b \<and> ix_tips a = ix_tips b
     \<and> hm_same (map (apsnd unanchored) (ix_headers a)) (map (apsnd unanchored) (ix_headers b))"

lemma index_of_unique:
  assumes "index_of txs a" "index_of txs' b" "graph_ok txs" "graph_ok txs'" "set txs = set txs'"
    and "\<forall>e \<in> set (canonical_events txs). seq_of (ix_log a) (ee_event_id e) = seq_of (ix_log b) (ee_event_id e)"
  shows "same_index a b"
proof -
  note same = canonical_events_same [OF assms(3-5)]
  have d: "distinct (map tx_id txs)" "distinct (map tx_id txs')" using assms(3,4) by (simp_all add: graph_ok_def)
  have "map (placed (ix_log a)) (canonical_events txs) = map (placed (ix_log b)) (canonical_events txs')"
    unfolding same(2) [symmetric] by (rule map_cong [OF refl]) (simp add: placed_def assms(6))
  moreover have "compute_tips (headers_map txs) = compute_tips (headers_map txs')"
  proof -
    have "is_tip (headers_map txs) = is_tip (headers_map txs')"
      using same(1) hm_same_set [OF same(1)] by (simp add: is_tip_def hm_contains_def hm_same_def all_parents_def fun_eq_iff)
    then have "set (compute_tips (headers_map txs)) = set (compute_tips (headers_map txs'))"
      by (simp add: compute_tips_facts(1))
    then show ?thesis
      using sorted_distinct_set_unique compute_tips_facts(2) compute_tips_facts(3) [OF headers_map_wf] by blast
  qed
  moreover have "hm_same (map (\<lambda>tx. (tx_id tx, unanchored (fst tx))) txs) (map (\<lambda>tx. (tx_id tx, unanchored (fst tx))) txs')"
    using map_of_tagged_same [OF d assms(5), of "\<lambda>tx. unanchored (fst tx)"] d by (simp add: hm_same_def comp_def)
  ultimately show ?thesis
    using assms(1,2) same(2) unfolding index_of_def same_index_def by (simp only:) blast
qed

section \<open>A new transaction on the tips\<close>

lemma headers_map_snoc: "headers_map (txs @ [tx]) = hm_insert (tx_id tx) (fst tx) (headers_map txs)"
  by (simp add: headers_map_def tx_id_def case_prod_unfold)

lemma events_map_snoc: "events_map (txs @ [tx]) = hm_insert (tx_id tx) (snd tx) (events_map txs)"
  by (simp add: events_map_def tx_id_def case_prod_unfold)

lemma canonical_events_snoc:
  assumes "new_transaction (headers_map txs) (tx_id tx) (fst tx)"
    and "set (compute_tips (headers_map txs)) \<subseteq> set (th_parents (fst tx))"
  shows "canonical_events (txs @ [tx]) = canonical_events txs @ snd tx"
proof -
  have "tx_id tx \<notin> set (canonical_order (headers_map txs))"
    using assms(1) by (auto simp: new_transaction_def canonical_order_set map_of_eq_None_iff)
  then have "map (txn_events (events_map (txs @ [tx]))) (canonical_order (headers_map txs))
      = map (txn_events (events_map txs)) (canonical_order (headers_map txs))"
    by (intro map_cong [OF refl]) (auto simp: txn_events_def events_map_snoc)
  moreover have "canonical_order (headers_map (txs @ [tx])) = canonical_order (headers_map txs) @ [tx_id tx]"
    unfolding headers_map_snoc by (rule canonical_order_snoc [OF assms])
  moreover have "txn_events (events_map (txs @ [tx])) (tx_id tx) = snd tx" by (simp add: txn_events_def events_map_snoc)
  ultimately show ?thesis
    by (simp only: canonical_events_def map_append list.map concat_append concat.simps append_Nil2)
qed

lemma sort_key_append:
  fixes f :: "'a \<Rightarrow> 'k :: linorder"
  assumes "\<forall>a \<in> set as. \<forall>b \<in> set bs. f a < f b" "sorted (map f bs)"
  shows "sort_key f (as @ bs) = sort_key f as @ bs"
proof (rule properties_for_sort_key)
  show "mset (sort_key f as @ bs) = mset (as @ bs)" by simp
  show "filter (\<lambda>x. f k = f x) (sort_key f as @ bs) = filter (\<lambda>x. f k = f x) (as @ bs)" for k
  proof -
    have eq: "(\<lambda>x. f k = f x) = (\<lambda>x. f x = f k)" by auto
    show ?thesis unfolding eq by (simp add: sort_key_stable)
  qed
  show "sorted (map f (sort_key f as @ bs))"
    using assms by (auto simp: sorted_append less_imp_le)
qed

lemma positioned_placed:
  "map fst new_entries = map ee_event_id es \<Longrightarrow> \<forall>(e, s) \<in> set new_entries. seq_of lg e = Some s \<Longrightarrow>
     positioned new_entries (map to_indexed es) = map (placed lg) es"
proof (induction es arbitrary: new_entries)
  case (Cons e es)
  then show ?case by (cases new_entries) (auto simp: positioned_def placed_def)
qed (simp add: positioned_def)

text \<open>Allocating for new events leaves the known ones where they are and puts the new ones behind.\<close>

lemma allocated_view:
  assumes "log_wf lg" "unat (next_seq lg) + length es < 2 ^ 64" "distinct (map ee_event_id es)"
    and "\<forall>e \<in> set es. seq_of lg (ee_event_id e) = None" "\<forall>e \<in> set old. seq_of lg (ee_event_id e) \<noteq> None"
    and "allocate_all lg (map ee_event_id es) = (new_entries, lg')"
  shows "sort_key fst (map (placed lg') (old @ es)) = sort_key fst (map (placed lg) old) @ map (placed lg') es"
    and "positioned new_entries (map to_indexed es) = map (placed lg') es"
    and "\<forall>e \<in> set (old @ es). seq_of lg' (ee_event_id e) \<noteq> None"
    and "log_wf lg'"
proof -
  have l: "unat (next_seq lg) + length (map ee_event_id es) < 2 ^ 64" "\<forall>e \<in> set (map ee_event_id es). seq_of lg e = None"
    using assms(2,4) by auto
  note a = allocate_all_wf [OF assms(1) l(1) assms(3) l(2) assms(6)]
  show "log_wf lg'" using a by blast
  have keys: "map fst new_entries = map ee_event_id es" using a by blast
  then have d: "hm_wf new_entries" using assms(3) by simp
  have seq: "seq_of lg' = seq_of lg ++ map_of new_entries" using a by blast
  have new: "seq_of lg' e = Some s" if "(e, s) \<in> set new_entries" for e s
    using that hm_get_in [OF d] by (simp add: seq)
  then show pos: "positioned new_entries (map to_indexed es) = map (placed lg') es"
    by (intro positioned_placed [OF keys]) blast
  have kept: "seq_of lg' (ee_event_id e) = seq_of lg (ee_event_id e)" if "e \<in> set old" for e
  proof -
    have "ee_event_id e \<notin> fst ` set new_entries"
      using that assms(4,5) by (metis (no_types, lifting) keys image_iff list.set_map)
    then show ?thesis by (simp add: seq map_add_def map_of_eq_None_iff [THEN iffD2] split: option.split)
  qed
  then have old: "map (placed lg') old = map (placed lg) old" by (auto simp: placed_def)
  have es_pos: "map fst (map (placed lg') es) = map (position_from_seq \<circ> snd) new_entries"
    unfolding pos [symmetric] positioned_def using keys by (induction new_entries es rule: list_induct2') auto
  have below: "fst (placed lg e) < fst (placed lg' e')" if "e \<in> set old" "e' \<in> set es" for e e'
  proof -
    obtain s where s: "seq_of lg (ee_event_id e) = Some s" using assms(5) \<open>e \<in> set old\<close> by blast
    then have "s < next_seq lg" using assms(1) unfolding log_wf_def by blast
    moreover have "ee_event_id e' \<in> fst ` set new_entries"
      using keys that(2) by (metis image_eqI list.set_map)
    then obtain s' where "(ee_event_id e', s') \<in> set new_entries" by auto
    moreover then have "next_seq lg \<le> s'" using a by blast
    ultimately show ?thesis using s new by (simp add: placed_def seq_position_order)
  qed
  have "sorted_wrt (<) (map snd new_entries)"
    by (rule allocate_all_increasing [OF assms(1) l(1) assms(3) l(2) assms(6)])
  then have "sorted_wrt (<) (map (position_from_seq \<circ> snd) new_entries)"
    by (simp add: sorted_wrt_map seq_position_order)
  then have "sorted (map fst (map (placed lg') es))" unfolding es_pos by (simp only: strict_sorted_iff)
  then show "sort_key fst (map (placed lg') (old @ es)) = sort_key fst (map (placed lg) old) @ map (placed lg') es"
    unfolding map_append old by (intro sort_key_append) (use below in auto)
  show "\<forall>e \<in> set (old @ es). seq_of lg' (ee_event_id e) \<noteq> None"
  proof
    fix e
    assume "e \<in> set (old @ es)"
    then consider "e \<in> set old" | "e \<in> set es" by auto
    then show "seq_of lg' (ee_event_id e) \<noteq> None"
    proof cases
      case 2
      then have "ee_event_id e \<in> fst ` set new_entries" using keys by (metis image_eqI list.set_map)
      then show ?thesis using new by force
    qed (use kept assms(5) in auto)
  qed
qed

end
