(* ===== verification/Fs_Restart.thy ===== *)
theory Fs_Restart
  imports Fs_Synced
begin

text \<open>
  Appending and scanning keep \<open>synced_to\<close>: a committed append adds its transaction at the end of the
  canonical order and of the ingestion view, and scanning the directory, in any order of its entries
  and with any files added, rebuilds an index under which the known events keep their cursors.
\<close>

section \<open>Appending\<close>

definition file_laws :: "('v, 'ev, 'json) fs_env \<Rightarrow> bool" where
  "file_laws X \<longleftrightarrow> serde_laws (fx_to_line X) (fx_from_line X)
     \<and> entry_laws (fx_entry_to_line X) (fx_entry_from_line X) \<and> uuid_laws X"

text \<open>The identifiers of the calls from \<open>n\<close> to \<open>N\<close> are new to the recorded transactions and the log.\<close>

definition known_ids :: "'v transactions \<Rightarrow> ingestion_log \<Rightarrow> uuid set" where
  "known_ids txs lg = set (map tx_id txs) \<union> all_parents (headers_map txs)
     \<union> set (map ee_event_id (all_events txs)) \<union> {e. seq_of lg e \<noteq> None}"

definition fresh_ids ::
  "('v, 'ev, 'json) fs_env \<Rightarrow> nat \<Rightarrow> nat \<Rightarrow> 'v transactions \<Rightarrow> ingestion_log \<Rightarrow> bool" where
  "fresh_ids X n N txs lg \<longleftrightarrow>
     inj_on (fx_now_v7 X) {n ..< N} \<and> fx_now_v7 X ` {n ..< N} \<inter> known_ids txs lg = {}"

lemma disjoint_sub: "A \<inter> B = {} \<Longrightarrow> A' \<subseteq> A \<Longrightarrow> A' \<inter> B = {}"
  by blast

lemma fresh_ids_later:
  assumes "fresh_ids X n N txs lg" "n \<le> n'"
  shows "fresh_ids X n' N txs lg"
proof -
  have sub: "{n' ..< N} \<subseteq> {n ..< N}" using assms(2) by auto
  have f: "inj_on (fx_now_v7 X) {n ..< N}" "fx_now_v7 X ` {n ..< N} \<inter> known_ids txs lg = {}"
    using assms(1) by (simp_all add: fresh_ids_def)
  have "fx_now_v7 X ` {n' ..< N} \<inter> known_ids txs lg = {}"
    using f(2) image_mono [OF sub, of "fx_now_v7 X"] by (rule disjoint_sub)
  then show ?thesis using inj_on_subset [OF f(1) sub] unfolding fresh_ids_def by (rule conjI [rotated])
qed

lemma event_file_inj:
  "uuid_laws X \<Longrightarrow> event_file (fx_show_uuid X) t = event_file (fx_show_uuid X) u \<longleftrightarrow> t = u"
  by (auto simp: event_file_def uuid_laws_def dest: injD)

lemma dir_keys:
  assumes "dir_txs X dir txs"
  shows "map fst dir = map (\<lambda>tx. event_file (fx_show_uuid X) (tx_id tx)) txs"
  using assms unfolding dir_txs_def by (induction rule: list_all2_induct) (simp_all add: tx_file_def)

lemma all_parents_insert:
  "hm_get headers t = None \<Longrightarrow> all_parents (hm_insert t h headers) = all_parents headers \<union> set (th_parents h)"
  by (subst hm_insert_new) (auto simp: map_of_eq_None_iff all_parents_def)

lemma all_events_snoc: "all_events (txs @ [tx]) = all_events txs @ snd tx"
  by (simp add: all_events_def)

lemma index_of_ids:
  assumes "index_of txs ix"
  shows "map fst (ix_headers ix) = map tx_id txs"
proof -
  have "map fst (map (apsnd unanchored) (ix_headers ix)) = map fst (map (\<lambda>tx. (tx_id tx, unanchored (fst tx))) txs)"
    using assms unfolding index_of_def by (simp only:)
  then show ?thesis by (simp add: comp_def)
qed

lemma commit_synced:
  assumes laws: "file_laws X" and synced: "synced_to X txs (dk_events (fs_disk st)) (log_contents st) (fs_index st)"
    and com: "committed X st w h envelopes new_entries st'"
    and fresh: "fresh_ids X (fs_uuid_calls st) N txs (ix_log (fs_index st))" "fs_uuid_calls st' \<le> N"
    and room: "unat (next_seq (ix_log (fs_index st))) + length envelopes < 2 ^ 64"
  shows "\<exists>anchor. let tx = (h\<lparr>th_content_hash := Some anchor\<rparr>, envelopes) in
      synced_to X (txs @ [tx]) (dk_events (fs_disk st')) (log_contents st') (fs_index st')
      \<and> tx_id tx = fx_now_v7 X (fs_uuid_calls st)
      \<and> th_parents h = compute_tips (headers_map txs)
      \<and> new_transaction (headers_map txs) (tx_id tx) (fst tx)
      \<and> ix_by_ingestion (fs_index st') = ix_by_ingestion (fs_index st) @ positioned new_entries (map to_indexed envelopes)
      \<and> fresh_ids X (fs_uuid_calls st') N (txs @ [tx]) (ix_log (fs_index st'))"
proof -
  let ?t = "fx_now_v7 X (fs_uuid_calls st)"
  let ?file = "event_file (fx_show_uuid X) ?t"
  have dir: "dir_txs X (dk_events (fs_disk st)) txs" and graph: "graph_ok txs" and ix: "index_of txs (fs_index st)"
    and log: "log_file (fx_entry_from_line X) (log_contents st) (ix_log (fs_index st))"
    using synced by (simp_all add: synced_to_def)
  obtain items xs where xs: "xs = map to_indexed envelopes"
    "\<forall>s. stream_events (ix_streams (fs_index st')) s = stream_events (ix_streams (fs_index st)) s @ of_stream s xs"
    "(new_entries, ix_log (fs_index st')) = allocate_all (ix_log (fs_index st)) (map ix_event_id xs)"
    "ix_by_ingestion (fs_index st') = ix_by_ingestion (fs_index st) @ positioned new_entries xs"
    "hm_wf (ix_streams (fs_index st)) \<longrightarrow> hm_wf (ix_streams (fs_index st'))"
    "ix_headers (fs_index st') = hm_insert ?t h (ix_headers (fs_index st))"
    "map ix_event_id xs = map (fx_now_v7 X) [Suc (fs_uuid_calls st) ..< fs_uuid_calls st']"
    "ix_tips (fs_index st') = [?t]"
    by (rule published_streams [OF com [unfolded committed_def, THEN conjunct1]])
  obtain body ls where b: "serialize_transaction (fx_to_line X) (fx_sha256 X) h envelopes = Inr body"
    "dk_events (fs_disk st') = hm_insert ?file body (dk_events (fs_disk st))"
    "map (fx_entry_to_line X) new_entries = map Inr ls" "log_contents st' = log_contents st @ unlines ls"
    "th_transaction_id h = ?t" "th_parents h = ix_tips (fs_index st)" "Suc (fs_uuid_calls st) \<le> fs_uuid_calls st'"
    using com build_envelopes_calls unfolding committed_def published_def new_header_def by fastforce
  obtain anchor where anchor: "\<And>path. load_transaction (fx_from_line X) (fx_sha256 X) path (FileContents body)
      = Inr (Valid (h\<lparr>th_content_hash := Some anchor\<rparr>) envelopes)"
    using load_serialized [OF _ b(1), of "fx_from_line X"] laws unfolding file_laws_def by blast
  define tx where "tx = (h\<lparr>th_content_hash := Some anchor\<rparr>, envelopes)"
  have tx: "tx_id tx = ?t" "snd tx = envelopes" "th_parents (fst tx) = compute_tips (headers_map txs)"
    "unanchored (fst tx) = unanchored h"
    using b ix by (simp_all add: tx_def tx_id_def index_of_def unanchored_def)
  have ids: "map ee_event_id envelopes = map (fx_now_v7 X) [Suc (fs_uuid_calls st) ..< fs_uuid_calls st']"
    using xs(1,7) by (simp add: comp_def to_indexed_def)
  have now: "fx_now_v7 X k \<notin> known_ids txs (ix_log (fs_index st))" if "fs_uuid_calls st \<le> k" "k < fs_uuid_calls st'" for k
    using fresh that unfolding fresh_ids_def by force
  have inj: "inj_on (fx_now_v7 X) {fs_uuid_calls st ..< fs_uuid_calls st'}"
    using fresh inj_on_subset [of "fx_now_v7 X" "{fs_uuid_calls st ..< N}"] unfolding fresh_ids_def by auto
  have t_new: "?t \<notin> known_ids txs (ix_log (fs_index st))" using now b(7) by simp
  have d: "distinct (map tx_id txs)" using graph by (simp add: graph_ok_def)
  have tips: "set (compute_tips (headers_map txs)) \<subseteq> set (map tx_id txs)"
    by (auto simp: compute_tips_facts(1) is_tip_def hm_contains_iff headers_map_eq [OF d])
  have new: "new_transaction (headers_map txs) (tx_id tx) (fst tx)"
    unfolding new_transaction_def tx
  proof (intro conjI headers_map_wf)
    show "acyclic_headers (headers_map txs)" using graph by (simp add: graph_ok_def)
    show "hm_get (headers_map txs) ?t = None"
      using t_new by (auto simp: map_of_eq_None_iff headers_map_eq [OF d] known_ids_def)
    show "?t \<notin> all_parents (headers_map txs)" "?t \<notin> set (compute_tips (headers_map txs))"
      using t_new tips by (auto simp: known_ids_def)
  qed
  have ces: "canonical_events (txs @ [tx]) = canonical_events txs @ envelopes"
    using canonical_events_snoc [OF new] by (simp add: tx)
  have ev_new: "e \<in> set envelopes \<Longrightarrow> ee_event_id e \<notin> known_ids txs (ix_log (fs_index st))" for e
  proof -
    assume "e \<in> set envelopes"
    then have "ee_event_id e \<in> set (map (fx_now_v7 X) [Suc (fs_uuid_calls st) ..< fs_uuid_calls st'])"
      unfolding ids [symmetric] by simp
    then show ?thesis using now by auto
  qed
  have ev_dist: "distinct (map ee_event_id envelopes)"
    unfolding ids using inj by (auto simp: distinct_map intro: inj_on_subset)
  have graph': "graph_ok (txs @ [tx])"
    unfolding graph_ok_def
  proof (intro conjI)
    show "distinct (map tx_id (txs @ [tx]))" using d t_new tx(1) by (auto simp: known_ids_def)
    show "acyclic_headers (headers_map (txs @ [tx]))" unfolding headers_map_snoc by (rule grown_acyclic [OF new])
    have "set (map ee_event_id (all_events txs)) \<inter> set (map ee_event_id envelopes) = {}"
    proof -
      have "ee_event_id e \<notin> set (map ee_event_id (all_events txs))" if "e \<in> set envelopes" for e
        using ev_new [OF that] by (simp add: known_ids_def)
      then show ?thesis by (auto simp del: set_map) (simp add: image_iff, metis)
    qed
    then show "distinct (map ee_event_id (all_events (txs @ [tx])))"
      using graph ev_dist tx(2) unfolding all_events_snoc by (simp add: graph_ok_def)
  qed
  have unknown: "\<forall>e \<in> set envelopes. seq_of (ix_log (fs_index st)) (ee_event_id e) = None"
    using ev_new by (auto simp: known_ids_def)
  have known: "\<forall>e \<in> set (canonical_events txs). seq_of (ix_log (fs_index st)) (ee_event_id e) \<noteq> None"
    and wf: "log_wf (ix_log (fs_index st))" using ix by (simp_all add: index_of_def)
  have alloc: "allocate_all (ix_log (fs_index st)) (map ee_event_id envelopes) = (new_entries, ix_log (fs_index st'))"
    using xs(1,3) by (simp add: comp_def to_indexed_def)
  note view = allocated_view [OF wf room ev_dist unknown known alloc]
  have index': "index_of (txs @ [tx]) (fs_index st')"
    unfolding index_of_def ces
  proof (intro conjI)
    have "?t \<notin> fst ` set (ix_headers (fs_index st))"
      using t_new index_of_ids [OF ix] by (metis (no_types, lifting) UnI1 known_ids_def list.set_map)
    then show "map (apsnd unanchored) (ix_headers (fs_index st'))
        = map (\<lambda>tx. (tx_id tx, unanchored (fst tx))) (txs @ [tx])"
      using ix tx unfolding xs(6) by (simp add: hm_insert_new index_of_def)
    show "ix_tips (fs_index st') = compute_tips (headers_map (txs @ [tx]))"
      using compute_tips_snoc [OF new] unfolding headers_map_snoc xs(8) by (simp add: tx)
    show "hm_wf (ix_streams (fs_index st'))" using xs(5) ix by (simp add: index_of_def)
    show "\<forall>s. stream_events (ix_streams (fs_index st')) s
        = of_stream s (map to_indexed (canonical_events txs @ envelopes))"
      using xs(1,2) ix by (simp add: index_of_def)
    show "ix_by_ingestion (fs_index st')
        = sort_key fst (map (placed (ix_log (fs_index st'))) (canonical_events txs @ envelopes))"
      unfolding view(1) xs(4) xs(1) view(2) using ix by (simp add: index_of_def)
    show "log_wf (ix_log (fs_index st'))" by (rule view(4))
    show "\<forall>e \<in> set (canonical_events txs @ envelopes). seq_of (ix_log (fs_index st')) (ee_event_id e) \<noteq> None"
      by (rule view(3))
  qed
  have log': "log_file (fx_entry_from_line X) (log_contents st') (ix_log (fs_index st'))"
    unfolding b(4) by (rule log_file_append [OF _ _ _ alloc b(3) log])
      (use laws room wf in \<open>simp_all add: file_laws_def log_wf_def\<close>)
  have "?file \<notin> fst ` set (dk_events (fs_disk st))"
  proof
    assume "?file \<in> fst ` set (dk_events (fs_disk st))"
    then have "?file \<in> set (map fst (dk_events (fs_disk st)))" by simp
    then obtain u where "u \<in> set txs" "tx_id u = ?t"
      unfolding dir_keys [OF dir] using event_file_inj [of X] laws by (auto simp: file_laws_def)
    then have "?t \<in> set (map tx_id txs)" by (metis image_eqI list.set_map)
    then show False using t_new unfolding known_ids_def by blast
  qed
  then have dir': "dir_txs X (dk_events (fs_disk st')) (txs @ [tx])"
  proof -
    assume "?file \<notin> fst ` set (dk_events (fs_disk st))"
    then have "dk_events (fs_disk st') = dk_events (fs_disk st) @ [(?file, body)]"
      unfolding b(2) by (rule hm_insert_new)
    moreover have "tx_file X (?file, body) tx" using anchor tx(1) by (simp add: tx_file_def) (simp add: tx_def)
    ultimately show ?thesis using dir unfolding dir_txs_def by (simp add: list_all2_appendI)
  qed
  have "seq_of (ix_log (fs_index st')) = seq_of (ix_log (fs_index st)) ++ map_of new_entries
      \<and> map fst new_entries = map ee_event_id envelopes"
    using allocate_all_wf [OF wf _ ev_dist _ alloc] room unknown by simp
  then have dom: "{e. seq_of (ix_log (fs_index st')) e \<noteq> None}
      \<subseteq> {e. seq_of (ix_log (fs_index st)) e \<noteq> None} \<union> set (map ee_event_id envelopes)"
    by (auto simp: map_add_Some_iff dest!: map_of_SomeD) (metis fst_conv image_eqI list.set_map)
  have evs: "set (map ee_event_id envelopes) \<subseteq> fx_now_v7 X ` {fs_uuid_calls st ..< fs_uuid_calls st'}"
    unfolding ids by auto
  have "?t \<in> fx_now_v7 X ` {fs_uuid_calls st ..< fs_uuid_calls st'}" using b(7) by auto
  moreover have "all_parents (headers_map (txs @ [tx])) \<subseteq> all_parents (headers_map txs) \<union> set (map tx_id txs)"
    unfolding headers_map_snoc using new tips tx(3) by (auto simp: all_parents_insert new_transaction_def)
  ultimately have grow: "known_ids (txs @ [tx]) (ix_log (fs_index st'))
      \<subseteq> known_ids txs (ix_log (fs_index st)) \<union> fx_now_v7 X ` {fs_uuid_calls st ..< fs_uuid_calls st'}"
    using dom evs unfolding known_ids_def all_events_snoc map_append set_append tx(2) list.map list.set tx(1)
    by blast
  have "fresh_ids X (fs_uuid_calls st') N (txs @ [tx]) (ix_log (fs_index st'))"
  proof -
    have sub: "{fs_uuid_calls st' ..< N} \<subseteq> {fs_uuid_calls st ..< N}"
      "{fs_uuid_calls st ..< fs_uuid_calls st'} \<subseteq> {fs_uuid_calls st ..< N}" using b(7) fresh(2) by auto
    have all: "inj_on (fx_now_v7 X) {fs_uuid_calls st ..< N}" using fresh(1) by (simp add: fresh_ids_def)
    have "fx_now_v7 X ` {fs_uuid_calls st' ..< N} \<inter> fx_now_v7 X ` {fs_uuid_calls st ..< fs_uuid_calls st'} = {}"
      using inj_on_image_Int [OF all sub] by auto
    moreover have "fx_now_v7 X ` {fs_uuid_calls st' ..< N} \<inter> known_ids txs (ix_log (fs_index st)) = {}"
      using fresh(1) sub(1) unfolding fresh_ids_def by blast
    ultimately show ?thesis using grow inj_on_subset [OF all sub(1)] unfolding fresh_ids_def by blast
  qed
  then have "synced_to X (txs @ [tx]) (dk_events (fs_disk st')) (log_contents st') (fs_index st')
      \<and> tx_id tx = ?t \<and> th_parents h = compute_tips (headers_map txs)
      \<and> new_transaction (headers_map txs) (tx_id tx) (fst tx)
      \<and> ix_by_ingestion (fs_index st') = ix_by_ingestion (fs_index st) @ positioned new_entries (map to_indexed envelopes)
      \<and> fresh_ids X (fs_uuid_calls st') N (txs @ [tx]) (ix_log (fs_index st'))"
    using dir' graph' index' log' tx new xs(1,4) b(6) ix by (simp add: synced_to_def index_of_def)
  then show ?thesis unfolding tx_def Let_def by blast
qed

section \<open>Scanning\<close>

text \<open>A step at which the file system answers every read, and the log can be written.\<close>

definition reads_work :: "io_step \<Rightarrow> bool" where
  "reads_work io \<longleftrightarrow> io_read_dir io = None \<and> (\<forall>name. io_entry io name = None) \<and> (\<forall>path. io_read io path = None)"

lemma is_jsonl_event_file:
  assumes "uuid_laws X"
  shows "is_jsonl (event_file (fx_show_uuid X) t)"
proof -
  have "fx_show_uuid X t \<noteq> []" using assms by (simp add: uuid_laws_def)
  then show ?thesis by (auto simp: is_jsonl_def event_file_def starts_with_append)
qed

lemma scan_files:
  assumes "uuid_laws X" "list_all2 (tx_file X) fs txs"
  shows "try_fold (scan_entry (fx_from_line X) (fx_sha256 X) path) (before, failures)
      (map (\<lambda>(name, c). Inr (name, FileContents c)) fs) = Inr (before @ txs, failures)"
  using assms(2)
proof (induction arbitrary: before rule: list_all2_induct)
  case (Cons f fs tx txs)
  obtain name c h es where f: "f = (name, c)" "tx = (h, es)" by (metis surj_pair)
  have "scan_entry (fx_from_line X) (fx_sha256 X) path (before, failures) (Inr (name, FileContents c))
      = Inr (before @ [(h, es)], failures)"
    using Cons(1) is_jsonl_event_file [OF assms(1)] by (simp add: scan_entry_def tx_file_def f)
  then show ?case using Cons(3) [of "before @ [(h, es)]"] by (simp add: f)
qed simp

lemma dir_listing:
  assumes "reads_work io" "hm_wf (dk_events d)"
  shows "store_listing io r d = Inr (map (\<lambda>(name, c). Inr (name, FileContents c)) (dk_events d))"
proof -
  have "read_file io path (dk_events d) name = FileContents c" if "(name, c) \<in> set (dk_events d)" for path name c
  proof -
    have "hm_get (dk_events d) name = Some c" using that hm_get_in [OF assms(2)] by blast
    then show ?thesis using assms(1) by (simp add: read_file_def reads_work_def)
  qed
  then show ?thesis using assms(1) by (auto simp: store_listing_def reads_work_def)
qed

lemma load_store_log:
  assumes "reads_work io" "log_file from_line (log_of d) lg"
  shows "load_log from_line path (read_file io path' (dk_index d) log_name) = Inr lg"
    "(case read_file io path' (dk_index d) log_name of FileContents c \<Rightarrow> c | _ \<Rightarrow> []) = log_of d"
proof -
  note l = log_file_load [OF assms(2), of path]
  show "load_log from_line path (read_file io path' (dk_index d) log_name) = Inr lg"
    using assms(1) l by (auto simp: read_file_def reads_work_def log_of_def load_log_def split: option.split)
  show "(case read_file io path' (dk_index d) log_name of FileContents c \<Rightarrow> c | _ \<Rightarrow> []) = log_of d"
    using assms(1) by (auto simp: read_file_def reads_work_def log_of_def split: option.split)
qed

lemma dir_wf:
  assumes "uuid_laws X" "dir_txs X dir txs" "distinct (map tx_id txs)"
  shows "hm_wf dir"
  using assms(3) unfolding dir_keys [OF assms(2)]
  by (induction txs) (auto simp: event_file_inj [OF assms(1)])

lemma scan_synced:
  assumes laws: "file_laws X" "logs_written X" and io: "reads_work io" "io_log io = Written"
    and dir: "dir_txs X (dk_events d) txs" "graph_ok txs"
    and log: "log_file (fx_entry_from_line X) (log_of d) lg" "log_wf lg"
    and room: "unat (next_seq lg) + length (all_events txs) < 2 ^ 64"
  shows "\<exists>ix d' new_entries. scan_store X r io d = Some (Inr ix, d')
    \<and> synced_to X txs (dk_events d) (log_of d') ix \<and> dk_events d' = dk_events d
    \<and> assign lg (map ee_event_id (canonical_events txs)) = (new_entries, ix_log ix)
    \<and> (new_entries = [] \<longrightarrow> d' = d)"
proof -
  let ?ids = "map ee_event_id (canonical_events txs)"
  obtain new_entries lg' where a: "assign lg ?ids = (new_entries, lg')" by (rule prod.exhaust)
  have acyclic: "acyclic_headers (headers_map txs)" "distinct (map tx_id txs)"
    using dir(2) by (simp_all add: graph_ok_def)
  obtain ix where ix: "build_index txs lg = Some (ix, new_entries)" "ix_headers ix = headers_map txs" "ix_log ix = lg'"
    "ix_tips ix = compute_tips (headers_map txs)" "hm_wf (ix_streams ix)"
    "\<forall>s. stream_events (ix_streams ix) s = of_stream s (map to_indexed (canonical_events txs))"
    "ix_by_ingestion ix = sort_key fst
        (map (\<lambda>e. (position_from_seq (the (seq_of lg' (ee_event_id e))), to_indexed e)) (canonical_events txs))"
    "ix_integrity_failures ix = []"
    using build_index_facts [OF acyclic(1) a] by blast
  have wf: "hm_wf (dk_events d)" using dir_wf [OF _ dir(1) acyclic(2)] laws(1) by (simp add: file_laws_def)
  have files: "try_fold (scan_entry (fx_from_line X) (fx_sha256 X) (rt_events r)) ([], [])
      (map (\<lambda>(name, c). Inr (name, FileContents c)) (dk_events d)) = Inr (txs, [])"
    using scan_files [of X "dk_events d" txs _ "[]" "[]"] laws(1) dir(1) by (simp add: file_laws_def dir_txs_def)
  obtain ls where p: "persist (fx_entry_to_line X) (ingestion_log_path r) (io_log io) new_entries (log_of d)
      = (Inr (), log_of d @ unlines ls)" "map (fx_entry_to_line X) new_entries = map Inr ls"
    using persist_written [OF laws(2) io(2)] by blast
  let ?ix = "ix\<lparr>ix_integrity_failures := []\<rparr>"
  let ?d = "with_log (log_of d @ unlines ls) d"
  have same: "?ix = ix" by (simp add: ix(8) [symmetric])
  have scan: "scan_store X r io d = Some (Inr ix, ?d)"
    using load_store_log [OF io(1) log(1)]
    by (simp add: scan_store_def scan_index_def dir_listing [OF io(1) wf] files ix(1) p(1) Let_def same)
  have dist: "distinct ?ids" by (rule canonical_events_distinct [OF dir(2)])
  have len: "length ?ids = length (all_events txs)"
    unfolding length_map by (rule mset_eq_length [OF canonical_events_set [OF dir(2)]])
  let ?fresh = "filter (\<lambda>e. seq_of lg e = None) ?ids"
  have alloc: "allocate_all lg ?fresh = (new_entries, lg')" using a unfolding assign_allocate [OF dist] .
  have room': "unat (next_seq lg) + length ?fresh < 2 ^ 64"
    by (rule le_less_trans [OF add_left_mono [OF length_filter_le] room [folded len]])
  have wf': "log_wf lg'"
  proof -
    have "distinct ?fresh" "\<forall>e \<in> set ?fresh. seq_of lg e = None" using dist by simp_all
    then show ?thesis using allocate_all_wf [OF log(2) room' _ _ alloc] by blast
  qed
  have file': "log_file (fx_entry_from_line X) (log_of d @ unlines ls) lg'"
    by (rule log_file_append [OF _ room' _ alloc p(2) log(1)])
      (use laws(1) log(2) in \<open>simp_all add: file_laws_def log_wf_def\<close>)
  have "index_of txs ix"
    unfolding index_of_def
  proof (intro conjI)
    show "map (apsnd unanchored) (ix_headers ix) = map (\<lambda>tx. (tx_id tx, unanchored (fst tx))) txs"
      by (simp add: ix(2) headers_map_eq [OF acyclic(2)])
    show "ix_by_ingestion ix = sort_key fst (map (placed (ix_log ix)) (canonical_events txs))"
      unfolding ix(3,7) placed_def ..
    show "\<forall>e \<in> set (canonical_events txs). seq_of (ix_log ix) (ee_event_id e) \<noteq> None"
      unfolding ix(3) using assign_covers [OF a] by simp
  qed (use ix wf' in simp_all)
  then have "synced_to X txs (dk_events d) (log_of ?d) ix"
    using dir file' ix(3) by (simp add: synced_to_def with_log_facts)
  moreover have "new_entries = [] \<longrightarrow> ?d = d"
    using p(2) with_log_facts(4) [of d] by (cases ls) auto
  ultimately show ?thesis using scan a ix(3) by (auto simp: with_log_facts)
qed

end
