(* ===== verification/Fs_Converge.thy ===== *)
theory Fs_Converge
  imports Fs_Restart
begin

text \<open>
  What follows from agreement of index and files: restarting in any order of the directory gives the same
  index, replicas with the same files show the same streams and forks, and files a merge adds never
  move the events already seen.
\<close>

section \<open>The order of the directory\<close>

lemma hm_same_mset: "hm_same a b \<Longrightarrow> mset a = mset b"
  using hm_same_set [of a b] by (auto simp: hm_same_def distinct_map intro: set_eq_iff_mset_eq_distinct [THEN iffD1])

lemma dir_txs_unique:
  assumes "dir_txs X dir txs" "dir_txs X dir txs'"
  shows "txs = txs'"
proof -
  have "list_all2 (tx_file X) dir txs \<Longrightarrow> list_all2 (tx_file X) dir txs' \<Longrightarrow> txs = txs'"
  proof (induction dir txs arbitrary: txs' rule: list_all2_induct)
    case (Cons f fs tx txs)
    then obtain tx' txs1 where t: "txs' = tx' # txs1" "tx_file X f tx'" "list_all2 (tx_file X) fs txs1"
      by (cases txs') auto
    have "tx = tx'" using Cons(1) t(2) unfolding tx_file_def by (metis loaded_transaction.inject(1) prod.expand sum.inject(2))
    then show ?case using Cons t by simp
  qed simp
  then show ?thesis using assms by (simp add: dir_txs_def)
qed

lemma dir_txs_reorder:
  assumes "dir_txs X dir txs" "hm_same dir dir'"
  obtains txs' where "dir_txs X dir' txs'" "mset txs' = mset txs"
  using list_all2_reorder_left_invariance [OF assms(1) [unfolded dir_txs_def] hm_same_mset [OF assms(2), symmetric]]
  by (auto simp: dir_txs_def)

lemma acyclic_same: "hm_get a = hm_get b \<Longrightarrow> acyclic_headers a = acyclic_headers b"
  by (simp add: acyclic_headers_def parent_rel_def parents_of_def)

lemma graph_ok_reorder:
  assumes "graph_ok txs" "mset txs' = mset txs"
  shows "graph_ok txs'" "set txs' = set txs"
proof -
  show set: "set txs' = set txs" by (rule mset_eq_setD [OF assms(2)])
  have d: "distinct (map tx_id txs)" "distinct (map ee_event_id (all_events txs))" "acyclic_headers (headers_map txs)"
    using assms(1) by (simp_all add: graph_ok_def)
  have "mset (map tx_id txs') = mset (map tx_id txs)" using assms(2) by simp
  then have d': "distinct (map tx_id txs')" using d(1) mset_eq_imp_distinct_iff by blast
  have "mset (all_events txs') = mset (all_events txs)"
    unfolding all_events_def by (rule mset_concat_cong) (use assms(2) in simp)
  then have "mset (map ee_event_id (all_events txs')) = mset (map ee_event_id (all_events txs))" by simp
  then have ev: "distinct (map ee_event_id (all_events txs'))" using d(2) mset_eq_imp_distinct_iff by blast
  have "hm_get (headers_map txs') = hm_get (headers_map txs)"
    unfolding headers_map_eq [OF d(1)] headers_map_eq [OF d'] by (rule map_of_tagged_same [OF d' d(1) set])
  then show "graph_ok txs'" using d' d(3) ev acyclic_same unfolding graph_ok_def by blast
qed

section \<open>Restart\<close>

lemma restart_same:
  assumes "file_laws X" "logs_written X" "reads_work io" "io_log io = Written"
    and "synced_to X txs (dk_events d) (log_of d) ix" "hm_same (dk_events d) dir"
    and "unat (next_seq (ix_log ix)) + length (all_events txs) < 2 ^ 64"
  shows "\<exists>ix'. scan_store X r io (d\<lparr>dk_events := dir\<rparr>) = Some (Inr ix', d\<lparr>dk_events := dir\<rparr>) \<and> same_index ix ix'"
proof -
  let ?d = "d\<lparr>dk_events := dir\<rparr>"
  have s: "dir_txs X (dk_events d) txs" "graph_ok txs" "index_of txs ix"
    "log_file (fx_entry_from_line X) (log_of d) (ix_log ix)" using assms(5) by (simp_all add: synced_to_def)
  obtain txs' where t: "dir_txs X dir txs'" "mset txs' = mset txs" by (rule dir_txs_reorder [OF s(1) assms(6)])
  note g = graph_ok_reorder [OF s(2) t(2)]
  have same: "canonical_events txs' = canonical_events txs" by (rule canonical_events_same(2) [OF g(1) s(2) g(2)])
  have known: "\<forall>e \<in> set (canonical_events txs'). seq_of (ix_log ix) (ee_event_id e) \<noteq> None" and wf: "log_wf (ix_log ix)"
    using s(3) by (simp_all add: index_of_def same)
  have dir: "dir_txs X (dk_events ?d) txs'" "log_file (fx_entry_from_line X) (log_of ?d) (ix_log ix)"
    using t(1) s(4) by (simp_all add: log_of_def)
  have room: "unat (next_seq (ix_log ix)) + length (all_events txs') < 2 ^ 64"
    using assms(7) mset_eq_length [OF t(2)] mset_concat_cong [of "map snd txs'" "map snd txs"] t(2)
    by (simp add: all_events_def) (metis mset_map size_mset)
  obtain ix' d' new_entries where sc: "scan_store X r io ?d = Some (Inr ix', d')" "synced_to X txs' (dk_events ?d) (log_of d') ix'"
    "assign (ix_log ix) (map ee_event_id (canonical_events txs')) = (new_entries, ix_log ix')"
    "new_entries = [] \<longrightarrow> d' = ?d"
    using scan_synced [OF assms(1-4) dir(1) g(1) dir(2) wf room] by blast
  have "new_entries = [] \<and> ix_log ix' = ix_log ix"
    using sc(3) assign_known [of "map ee_event_id (canonical_events txs')" "ix_log ix"] known by simp
  then have "same_index ix ix'"
    using index_of_unique [OF s(3) _ s(2) g(1) g(2) [symmetric]] sc(2) by (simp add: synced_to_def)
  then show ?thesis using sc(1,4) \<open>new_entries = [] \<and> ix_log ix' = ix_log ix\<close> by auto
qed

section \<open>Convergence\<close>

lemma replicas_agree:
  assumes "synced_to X txs (dk_events a) la ixa" "synced_to X txs' (dk_events b) lb ixb"
    and "hm_same (dk_events a) (dk_events b)"
  shows "(\<forall>s. stream_events (ix_streams ixa) s = stream_events (ix_streams ixb) s) \<and> ix_tips ixa = ix_tips ixb
    \<and> hm_same (map (apsnd unanchored) (ix_headers ixa)) (map (apsnd unanchored) (ix_headers ixb))"
proof -
  have s: "dir_txs X (dk_events a) txs" "graph_ok txs" "index_of txs ixa"
    "dir_txs X (dk_events b) txs'" "graph_ok txs'" "index_of txs' ixb"
    using assms(1,2) by (simp_all add: synced_to_def)
  obtain txs1 where t: "dir_txs X (dk_events b) txs1" "mset txs1 = mset txs" by (rule dir_txs_reorder [OF s(1) assms(3)])
  then have "txs1 = txs'" using dir_txs_unique s(4) by blast
  then have set: "set txs = set txs'" using graph_ok_reorder [OF s(2) t(2)] by simp
  define ixb' where "ixb' = ixb\<lparr>ix_log := ix_log ixa, ix_by_ingestion := ix_by_ingestion ixa\<rparr>"
  have same: "canonical_events txs = canonical_events txs'" by (rule canonical_events_same(2) [OF s(2,5) set])
  have "index_of txs' ixb'"
    using s(3,6) same by (simp add: index_of_def ixb'_def)
  then have "same_index ixa ixb'"
    by (rule index_of_unique [OF s(3) _ s(2,5) set]) (simp add: ixb'_def)
  then show ?thesis by (simp add: same_index_def ixb'_def)
qed

section \<open>Merged files\<close>

lemma sort_key_append_both:
  fixes f :: "'a \<Rightarrow> 'k :: linorder"
  assumes "\<forall>a \<in> set as. \<forall>b \<in> set bs. f a < f b"
  shows "sort_key f (as @ bs) = sort_key f as @ sort_key f bs"
proof (rule properties_for_sort_key)
  show "filter (\<lambda>x. f k = f x) (sort_key f as @ sort_key f bs) = filter (\<lambda>x. f k = f x) (as @ bs)" for k
  proof -
    have eq: "(\<lambda>x. f k = f x) = (\<lambda>x. f x = f k)" by auto
    show ?thesis unfolding eq by (simp add: sort_key_stable)
  qed
  show "sorted (map f (sort_key f as @ sort_key f bs))"
    using assms by (auto simp: sorted_append less_imp_le)
qed simp

lemma sort_key_mset_eq:
  fixes f :: "'a \<Rightarrow> 'k :: linorder"
  assumes "mset xs = mset ys" "inj_on f (set xs)"
  shows "sort_key f xs = sort_key f ys"
  by (rule sort_key_inj_key_eq) (use assms in simp_all)

lemma assign_new:
  assumes "assign lg es = (new_entries, lg')" "log_wf lg" "distinct es" "unat (next_seq lg) + length es < 2 ^ 64"
    and "seq_of lg e = None" "seq_of lg' e = Some s"
  shows "next_seq lg \<le> s"
proof -
  let ?fresh = "filter (\<lambda>e. seq_of lg e = None) es"
  have a: "allocate_all lg ?fresh = (new_entries, lg')" using assms(1) unfolding assign_allocate [OF assms(3)] .
  have "unat (next_seq lg) + length ?fresh < 2 ^ 64"
    by (rule le_less_trans [OF add_left_mono [OF length_filter_le] assms(4)])
  moreover have "distinct ?fresh" "\<forall>e \<in> set ?fresh. seq_of lg e = None" using assms(3) by simp_all
  ultimately have f: "seq_of lg' = seq_of lg ++ map_of new_entries" "\<forall>(e, s) \<in> set new_entries. next_seq lg \<le> s"
    using allocate_all_wf [OF assms(2) _ _ _ a] by blast+
  have "map_of new_entries e = Some s" using assms(5,6) unfolding f(1) by (simp add: map_add_Some_iff)
  then show ?thesis using f(2) map_of_SomeD by fastforce
qed

lemma placed_inj:
  assumes "log_wf lg" "distinct (map ee_event_id es)" "\<forall>e \<in> set es. seq_of lg (ee_event_id e) \<noteq> None"
  shows "inj_on fst (set (map (placed lg) es))"
proof (rule inj_onI)
  fix p q
  assume "p \<in> set (map (placed lg) es)" "q \<in> set (map (placed lg) es)" "fst p = fst q"
  then obtain d e where de: "d \<in> set es" "e \<in> set es" "p = placed lg d" "q = placed lg e"
    "position_from_seq (the (seq_of lg (ee_event_id d))) = position_from_seq (the (seq_of lg (ee_event_id e)))"
    by (auto simp: placed_def)
  obtain s t where st: "seq_of lg (ee_event_id d) = Some s" "seq_of lg (ee_event_id e) = Some t"
    using assms(3) de(1,2) by blast
  then have "s = t" using de(5) by (simp add: position_inj)
  then have "ee_event_id d = ee_event_id e" using assms(1) st unfolding log_wf_def by blast
  then have "d = e" using assms(2) de(1,2) by (auto simp: distinct_map dest: inj_onD)
  then show "p = q" using de by simp
qed

lemma merge_extends_view:
  assumes old: "index_of txs ix" "graph_ok txs" and new: "index_of txs' ix'" "graph_ok txs'"
    and sub: "set txs \<subseteq> set txs'"
    and log: "assign (ix_log ix) (map ee_event_id (canonical_events txs')) = (new_entries, ix_log ix')"
    and room: "unat (next_seq (ix_log ix)) + length (all_events txs') < 2 ^ 64"
    and unseen: "\<forall>e \<in> set (all_events txs') - set (all_events txs). seq_of (ix_log ix) (ee_event_id e) = None"
  shows "\<exists>later. ix_by_ingestion ix' = ix_by_ingestion ix @ later"
proof -
  let ?ces = "canonical_events txs" and ?ces' = "canonical_events txs'"
  let ?lg = "ix_log ix" and ?lg' = "ix_log ix'"
  have wf: "log_wf ?lg" "log_wf ?lg'" and known: "\<forall>e \<in> set ?ces. seq_of ?lg (ee_event_id e) \<noteq> None"
    and known': "\<forall>e \<in> set ?ces'. seq_of ?lg' (ee_event_id e) \<noteq> None"
    and view: "ix_by_ingestion ix = sort_key fst (map (placed ?lg) ?ces)"
      "ix_by_ingestion ix' = sort_key fst (map (placed ?lg') ?ces')"
    using old(1) new(1) by (simp_all add: index_of_def)
  have sets: "set ?ces = set (all_events txs)" "set ?ces' = set (all_events txs')"
    by (rule mset_eq_setD [OF canonical_events_set], rule old new)+
  have dist: "distinct (map ee_event_id ?ces)" "distinct (map ee_event_id ?ces')"
    by (rule canonical_events_distinct, rule old new)+
  have "length (map ee_event_id ?ces') = length (all_events txs')"
    unfolding length_map by (rule mset_eq_length [OF canonical_events_set [OF new(2)]])
  then have room': "unat (next_seq ?lg) + length (map ee_event_id ?ces') < 2 ^ 64" using room by (simp only:)
  define fresh where "fresh = filter (\<lambda>e. e \<notin> set ?ces) ?ces'"
  have "set ?ces \<subseteq> set ?ces'" using sub unfolding sets by (auto simp: all_events_def)
  then have "set (?ces @ fresh) = set ?ces'" by (auto simp: fresh_def)
  moreover have "distinct (?ces @ fresh)" "distinct ?ces'"
    using dist by (auto simp: fresh_def distinct_map)
  ultimately have m: "mset ?ces' = mset (?ces @ fresh)" by (metis set_eq_iff_mset_eq_distinct)
  have keep: "placed ?lg' e = placed ?lg e" if "e \<in> set ?ces" for e
  proof -
    obtain s where "seq_of ?lg (ee_event_id e) = Some s" using known \<open>e \<in> set ?ces\<close> by blast
    then show ?thesis using assign_keeps [OF log] by (simp add: placed_def)
  qed
  have above: "fst (placed ?lg d) < fst (placed ?lg' e)" if d: "d \<in> set ?ces" and e: "e \<in> set fresh" for d e
  proof -
    obtain s where s: "seq_of ?lg (ee_event_id d) = Some s" using known d by auto
    then have "s < next_seq ?lg" using wf(1) unfolding log_wf_def by blast
    moreover have "seq_of ?lg (ee_event_id e) = None" "e \<in> set ?ces'"
      using e unseen sets unfolding fresh_def by auto
    moreover obtain t where t: "seq_of ?lg' (ee_event_id e) = Some t" using known' calculation(3) by auto
    ultimately have "next_seq ?lg \<le> t"
      using assign_new [OF log wf(1) dist(2) room'] by blast
    then show ?thesis using s t \<open>s < next_seq ?lg\<close> by (simp add: placed_def seq_position_order)
  qed
  have "ix_by_ingestion ix' = sort_key fst (map (placed ?lg') (?ces @ fresh))"
    unfolding view(2)
    by (rule sort_key_mset_eq) (use m placed_inj [OF wf(2) dist(2) known'] in simp_all)
  also have "\<dots> = sort_key fst (map (placed ?lg) ?ces @ map (placed ?lg') fresh)"
    using keep by (simp cong: map_cong)
  also have "\<dots> = sort_key fst (map (placed ?lg) ?ces) @ sort_key fst (map (placed ?lg') fresh)"
    by (rule sort_key_append_both) (use above in auto)
  finally show ?thesis unfolding view(1) by blast
qed

text \<open>
  Opening a store (\<open>open_with_config\<close>) where no call of the file system fails: the layout, the git
  metadata and the replica identity touch neither the transaction files nor the ingestion log, so what
  the index holds is what scanning finds.
\<close>

definition quiet_io :: "io_step \<Rightarrow> bool" where
  "quiet_io io \<longleftrightarrow> (\<forall>path. io_mkdir io path = None) \<and> (\<forall>path. io_try_lock io path = LockAcquired)
     \<and> (\<forall>path. io_write io path = Written) \<and> io_log io = Written \<and> reads_work io"

text \<open>A recorded replica identity parses, or the configuration gives one.\<close>

definition identity_ok :: "('v, 'ev, 'json) fs_env \<Rightarrow> fs_config \<Rightarrow> disk \<Rightarrow> bool" where
  "identity_ok X c d \<longleftrightarrow> cf_replica_id c \<noteq> None
     \<or> (\<forall>s. hm_get (dk_eventcore d) (lit ''replica_id'') = Some s \<longrightarrow> (\<exists>u. fx_parse_uuid X (str_trim s) = Inr u))"

lemma make_dirs_ok: "\<forall>path. io_mkdir io path = None \<Longrightarrow> make_dirs io dirs = Inr ()"
  by (induction dirs) simp_all

lemma write_if_absent_ok:
  "\<forall>path. io_write io path = Written \<Longrightarrow> \<exists>dir'. write_if_absent io path name contents dir = (Inr (), dir')"
  by (simp add: write_if_absent_def write_file_def)

lemma write_git_metadata_ok:
  assumes "\<forall>path. io_write io path = Written"
  shows "\<exists>dir. write_git_metadata io r d = (Inr (), d\<lparr>dk_root := dir\<rparr>)"
proof -
  obtain a where a: "write_if_absent io (path_join (rt_root r) (lit ''.gitignore'')) (lit ''.gitignore'') GITIGNORE
      (dk_root d) = (Inr (), a)"
    using write_if_absent_ok [OF assms] by blast
  obtain b where "write_if_absent io (path_join (rt_root r) (lit ''.gitattributes'')) (lit ''.gitattributes'')
      GITATTRIBUTES a = (Inr (), b)"
    using write_if_absent_ok [OF assms] by blast
  then show ?thesis using a by (simp add: write_git_metadata_def) blast
qed

lemma regenerate_ok:
  assumes "\<forall>path. io_write io path = Written"
  shows "\<exists>dir. regenerate io show_uuid r fingerprint fresh d = (Inr fresh, d\<lparr>dk_eventcore := dir\<rparr>)"
  using assms by (simp add: regenerate_def write_file_def Let_def) blast

lemma same_disk: "\<exists>dir. d = d\<lparr>dk_eventcore := dir\<rparr>"
  by (rule exI [of _ "dk_eventcore d"]) simp

lemma replica_id_ok:
  assumes "quiet_io io" "identity_ok X c d"
  shows "\<exists>i dir. load_or_create_replica_id io (fx_show_uuid X) (fx_parse_uuid X) wc r c fresh d
    = (Inr i, d\<lparr>dk_eventcore := dir\<rparr>)"
proof (cases "cf_replica_id c")
  case (Some i)
  then show ?thesis using same_disk by (simp add: load_or_create_replica_id_def)
next
  case None
  have w: "\<forall>path. io_write io path = Written" and reads: "\<forall>path. io_read io path = None"
    using assms(1) by (simp_all add: quiet_io_def reads_work_def)
  let ?current = "compute_fingerprint wc r"
  note gen = regenerate_ok [OF w, of "fx_show_uuid X" r ?current fresh d]
  show ?thesis
  proof (cases "hm_get (dk_eventcore d) (lit ''replica_id'')")
    case none: None
    then show ?thesis using gen None reads by (auto simp: load_or_create_replica_id_def read_file_def Let_def)
  next
    case (Some s)
    then obtain u where u: "fx_parse_uuid X (str_trim s) = Inr u" using assms(2) None by (auto simp: identity_ok_def)
    have "\<exists>m. fingerprint_matches io r ?current d = Inr m"
      using reads by (cases "hm_get (dk_eventcore d) (lit ''replica_fingerprint'')")
        (auto simp: fingerprint_matches_def read_file_def intro: exI [of _ False])
    then obtain m where "fingerprint_matches io r ?current d = Inr m" ..
    then show ?thesis using gen None Some u reads same_disk
      by (cases m) (auto simp: load_or_create_replica_id_def read_file_def Let_def)
  qed
qed

lemma open_scans:
  assumes "quiet_io (fx_io X n)" "identity_ok X c d"
  obtains i root_dir core_dir where
    "fs_open_with_config X wc c u n d =
       map_option (\<lambda>(scanned, d').
          (map_sum id (\<lambda>ix. \<lparr>fs_roots = roots_new (cf_root c), fs_replica_id = i, fs_config = c, fs_index = ix,
             fs_poisoned = False, fs_disk = d', fs_uuid_calls = Suc u, fs_io_calls = Suc n\<rparr>) scanned, d'))
         (scan_store X (roots_new (cf_root c)) (fx_io X n) (d\<lparr>dk_root := root_dir, dk_eventcore := core_dir\<rparr>))"
proof -
  let ?io = "fx_io X n" and ?r = "roots_new (cf_root c)"
  have q: "\<forall>path. io_mkdir ?io path = None" "\<forall>path. io_write ?io path = Written"
    "\<forall>path. io_try_lock ?io path = LockAcquired" using assms(1) by (simp_all add: quiet_io_def)
  obtain root_dir where g: "write_git_metadata ?io ?r d = (Inr (), d\<lparr>dk_root := root_dir\<rparr>)"
    using write_git_metadata_ok [OF q(2)] by blast
  have "identity_ok X c (d\<lparr>dk_root := root_dir\<rparr>)" using assms(2) by (simp add: identity_ok_def)
  from replica_id_ok [OF assms(1) this] obtain i core_dir where
    "load_or_create_replica_id ?io (fx_show_uuid X) (fx_parse_uuid X) wc ?r c (fx_now_v7 X u) (d\<lparr>dk_root := root_dir\<rparr>)
      = (Inr i, d\<lparr>dk_root := root_dir, dk_eventcore := core_dir\<rparr>)"
    by fastforce
  moreover have "create_dirs ?io ?r = Inr ()" unfolding create_dirs_def by (rule make_dirs_ok [OF q(1)])
  moreover have "acquire_store_lock ?io (store_lock_path ?r) = Inr ()" using q(3) by (simp add: acquire_store_lock_def)
  ultimately show thesis using g
    by (intro that [of i core_dir root_dir]) (simp add: fs_open_with_config_def Let_def)
qed

section \<open>Opening again\<close>

lemma index_of_length: "index_of txs ix \<Longrightarrow> graph_ok txs \<Longrightarrow> length (ix_by_ingestion ix) = length (all_events txs)"
  using mset_eq_length [OF canonical_events_set] by (fastforce simp: index_of_def)

text \<open>
  The files of the store in any order of the directory, and its ingestion log: the store that opens on
  them has the same index.
\<close>

lemma reopen_same:
  assumes laws: "file_laws X" "logs_written X" and io: "quiet_io (fx_io X n)" "identity_ok X c d"
    and synced: "synced_to X txs dir contents ix"
    and disk: "hm_same dir (dk_events d)" "log_of d = contents"
    and room: "unat (next_seq (ix_log ix)) + length (ix_by_ingestion ix) < 2 ^ 64"
  shows "\<exists>st' d'. fs_open_with_config X wc c u n d = Some (Inr st', d') \<and> same_index ix (fs_index st')
    \<and> dk_events d' = dk_events d \<and> log_of d' = contents \<and> fs_disk st' = d' \<and> \<not> fs_poisoned st'"
proof -
  obtain i a b where o: "fs_open_with_config X wc c u n d =
       map_option (\<lambda>(scanned, d').
          (map_sum id (\<lambda>ix. \<lparr>fs_roots = roots_new (cf_root c), fs_replica_id = i, fs_config = c, fs_index = ix,
             fs_poisoned = False, fs_disk = d', fs_uuid_calls = Suc u, fs_io_calls = Suc n\<rparr>) scanned, d'))
         (scan_store X (roots_new (cf_root c)) (fx_io X n) (d\<lparr>dk_root := a, dk_eventcore := b\<rparr>))"
    by (rule open_scans [OF io])
  let ?d2 = "d\<lparr>dk_root := a, dk_eventcore := b\<rparr>"
  have s: "synced_to X txs (dk_events (?d2\<lparr>dk_events := dir\<rparr>)) (log_of (?d2\<lparr>dk_events := dir\<rparr>)) ix"
    using synced disk(2) by (simp add: log_of_def)
  have len: "unat (next_seq (ix_log ix)) + length (all_events txs) < 2 ^ 64"
    using room index_of_length [of txs ix] synced by (simp add: synced_to_def)
  have q: "reads_work (fx_io X n)" "io_log (fx_io X n) = Written" using io(1) by (simp_all add: quiet_io_def)
  have dir: "hm_same (dk_events (?d2\<lparr>dk_events := dir\<rparr>)) (dk_events d)" using disk(1) by simp
  obtain ix' where "scan_store X (roots_new (cf_root c)) (fx_io X n) (?d2\<lparr>dk_events := dir, dk_events := dk_events d\<rparr>)
      = Some (Inr ix', ?d2\<lparr>dk_events := dir, dk_events := dk_events d\<rparr>)" "same_index ix ix'"
    using restart_same [OF laws q s dir len] by blast
  moreover have "?d2\<lparr>dk_events := dir, dk_events := dk_events d\<rparr> = ?d2" by simp
  ultimately show ?thesis using disk(2) unfolding o by (simp add: log_of_def)
qed

end
