(* ===== verification/Fs_Steps.thy ===== *)
theory Fs_Steps
  imports Fs_Converge
begin

text \<open>
  The life of a file store as a step relation: appends, and merges, after which the store is opened again
  on the larger set of files. Every step keeps the index in agreement with the files and extends what a
  projection reads at its end.
\<close>

section \<open>The invariant\<close>

definition readable :: "('v, 'ev, 'json) fs_env \<Rightarrow> 'v transactions \<Rightarrow> bool" where
  "readable X txs \<longleftrightarrow> (\<forall>e \<in> set (all_events txs). decodable X (to_indexed e))"

definition fs_agrees :: "('v, 'ev, 'json) fs_env \<Rightarrow> nat \<Rightarrow> 'v transactions \<Rightarrow> 'v fs_store \<Rightarrow> bool" where
  "fs_agrees X N txs st \<longleftrightarrow> synced_to X txs (dk_events (fs_disk st)) (log_contents st) (fs_index st)
     \<and> fresh_ids X (fs_uuid_calls st) N txs (ix_log (fs_index st)) \<and> readable X txs
     \<and> \<not> fs_poisoned st"

definition fs_synced :: "('v, 'ev, 'json) fs_env \<Rightarrow> 'ev event_type \<Rightarrow> nat \<Rightarrow> 'v fs_store \<Rightarrow> bool" where
  "fs_synced X E N st \<longleftrightarrow> value_laws X E \<and> snapshot_laws X \<and> logs_written X \<and> file_laws X
     \<and> (\<exists>txs. fs_agrees X N txs st)"

section \<open>Steps\<close>

text \<open>
  A merge adds transaction files to the directory, in any order, whose events this replica has not seen;
  the store is then opened again, which scans the directory.
\<close>

definition merged_in ::
  "('v, 'ev, 'json) fs_env \<Rightarrow> nat \<Rightarrow> 'v fs_store \<Rightarrow> directory \<Rightarrow> 'v transactions \<Rightarrow> bool" where
  "merged_in X N st dir txs' \<longleftrightarrow> set (dk_events (fs_disk st)) \<subseteq> set dir \<and> dir_txs X dir txs' \<and> graph_ok txs'
     \<and> readable X txs' \<and> fresh_ids X (fs_uuid_calls st) N txs' (ix_log (fs_index st))
     \<and> (\<forall>tx \<in> set txs'. event_file (fx_show_uuid X) (tx_id tx) \<notin> fst ` set (dk_events (fs_disk st)) \<longrightarrow>
          (\<forall>e \<in> set (snd tx). seq_of (ix_log (fs_index st)) (ee_event_id e) = None))
     \<and> unat (next_seq (ix_log (fs_index st))) + length (all_events txs') < 2 ^ 64"

inductive fs_step :: "('v, 'ev, 'json) fs_env \<Rightarrow> 'ev event_type \<Rightarrow> nat \<Rightarrow> 'v fs_store \<Rightarrow> 'v fs_store \<Rightarrow> bool"
  for X :: "('v, 'ev, 'json) fs_env" and E :: "'ev event_type" and N :: nat where
  append_step:
    "fs_append_events X st w = (r, st') \<Longrightarrow> \<forall>en \<in> set (entries w). typed_entry E en \<Longrightarrow>
     fs_uuid_calls st' \<le> N \<Longrightarrow> unat (next_seq (ix_log (fs_index st))) + length (entries w) < 2 ^ 64 \<Longrightarrow>
     fs_step X E N st st'"
| merge_step:
    "merged_in X N st dir txs' \<Longrightarrow> reads_work io \<Longrightarrow> io_log io = Written \<Longrightarrow>
     scan_store X (fs_roots st) io ((fs_disk st)\<lparr>dk_events := dir\<rparr>) = Some (Inr ix, d) \<Longrightarrow>
     fs_step X E N st (st\<lparr>fs_index := ix, fs_disk := d\<rparr>)"

inductive_cases fs_stepE: "fs_step X E N st st'"

abbreviation fs_steps :: "('v, 'ev, 'json) fs_env \<Rightarrow> 'ev event_type \<Rightarrow> nat \<Rightarrow> 'v fs_store \<Rightarrow> 'v fs_store \<Rightarrow> bool" where
  "fs_steps X E N \<equiv> (fs_step X E N)\<^sup>*\<^sup>*"

definition view_extends :: "'v fs_store \<Rightarrow> 'v fs_store \<Rightarrow> bool" where
  "view_extends st st' \<longleftrightarrow>
     (\<exists>later. ix_by_ingestion (fs_index st') = ix_by_ingestion (fs_index st) @ later)"

lemma view_extends_refl [simp]: "view_extends st st"
  by (simp add: view_extends_def)

lemma view_extends_trans: "view_extends a b \<Longrightarrow> view_extends b c \<Longrightarrow> view_extends a c"
  unfolding view_extends_def by (metis append_assoc)

section \<open>Steps keep the invariant\<close>

lemma committed_typed:
  assumes "committed X st w h envelopes new_entries st'" "value_laws X E" "\<forall>en \<in> set (entries w). typed_entry E en"
  shows "length envelopes = length (entries w)" "\<forall>e \<in> set envelopes. decodable X (to_indexed e)"
proof -
  obtain items xs where c: "collect_results (map (entry_item X) (entries w)) = Inr items"
    "map (\<lambda>x. (ix_stream_id x, ix_event_type x, ix_event_data x)) xs = items" "xs = map to_indexed envelopes"
    by (rule published_streams [OF assms(1) [unfolded committed_def, THEN conjunct1]])
  have "length items = length (entries w)"
    using c(1) by (simp add: collect_results_Inr_iff) (metis length_map)
  then show "length envelopes = length (entries w)" using c(2,3) by (metis length_map)
  show "\<forall>e \<in> set envelopes. decodable X (to_indexed e)"
    using entry_items [OF assms(2,3) c(1,2)] unfolding c(3) by (simp add: list_all_iff)
qed

lemma commit_agrees:
  assumes laws: "value_laws X E" "file_laws X" and agrees: "fs_agrees X N txs st"
    and com: "committed X st w h envelopes new_entries st'" "same_frame st st'"
    and typed: "\<forall>en \<in> set (entries w). typed_entry E en" and calls: "fs_uuid_calls st' \<le> N"
    and room: "unat (next_seq (ix_log (fs_index st))) + length (entries w) < 2 ^ 64"
  obtains tx where "fs_agrees X N (txs @ [tx]) st'" "snd tx = envelopes" "unanchored (fst tx) = unanchored h"
    "tx_id tx = fx_now_v7 X (fs_uuid_calls st)" "th_parents (fst tx) = compute_tips (headers_map txs)"
    "new_transaction (headers_map txs) (tx_id tx) (fst tx)" "view_extends st st'"
proof -
  have a: "synced_to X txs (dk_events (fs_disk st)) (log_contents st) (fs_index st)"
    "fresh_ids X (fs_uuid_calls st) N txs (ix_log (fs_index st))" "readable X txs" "\<not> fs_poisoned st"
    using agrees by (simp_all add: fs_agrees_def)
  note t = committed_typed [OF com(1) laws(1) typed]
  have len: "unat (next_seq (ix_log (fs_index st))) + length envelopes < 2 ^ 64" using room t(1) by simp
  obtain anchor where c: "let tx = (h\<lparr>th_content_hash := Some anchor\<rparr>, envelopes) in
      synced_to X (txs @ [tx]) (dk_events (fs_disk st')) (log_contents st') (fs_index st')
      \<and> tx_id tx = fx_now_v7 X (fs_uuid_calls st)
      \<and> th_parents h = compute_tips (headers_map txs)
      \<and> new_transaction (headers_map txs) (tx_id tx) (fst tx)
      \<and> ix_by_ingestion (fs_index st') = ix_by_ingestion (fs_index st) @ positioned new_entries (map to_indexed envelopes)
      \<and> fresh_ids X (fs_uuid_calls st') N (txs @ [tx]) (ix_log (fs_index st'))"
    using commit_synced [OF laws(2) a(1) com(1) a(2) calls len] by blast
  define tx where "tx = (h\<lparr>th_content_hash := Some anchor\<rparr>, envelopes)"
  note c = c [unfolded Let_def, folded tx_def]
  have tx: "snd tx = envelopes" "unanchored (fst tx) = unanchored h" "th_parents (fst tx) = th_parents h"
    by (simp_all add: tx_def unanchored_def)
  have "readable X (txs @ [tx])" using a(3) t(2) tx(1) by (auto simp: readable_def all_events_snoc)
  then have "fs_agrees X N (txs @ [tx]) st'" using c a(4) com(2) by (simp add: fs_agrees_def same_frame_def)
  moreover have "view_extends st st'" using c by (auto simp: view_extends_def)
  moreover have "th_parents (fst tx) = compute_tips (headers_map txs)" using c tx(3) by simp
  ultimately show thesis using that [of tx] tx(1,2) c by blast
qed

lemma append_step_synced:
  assumes "fs_synced X E N st" "fs_append_events X st w = (r, st')" "\<forall>en \<in> set (entries w). typed_entry E en"
    and "fs_uuid_calls st' \<le> N" "unat (next_seq (ix_log (fs_index st))) + length (entries w) < 2 ^ 64"
  shows "fs_synced X E N st' \<and> view_extends st st'"
proof -
  have laws: "value_laws X E" "snapshot_laws X" "logs_written X" "file_laws X"
    using assms(1) by (simp_all add: fs_synced_def)
  obtain txs where a: "synced_to X txs (dk_events (fs_disk st)) (log_contents st) (fs_index st)"
    "fresh_ids X (fs_uuid_calls st) N txs (ix_log (fs_index st))" "readable X txs" "\<not> fs_poisoned st"
    using assms(1) unfolding fs_synced_def fs_agrees_def by blast
  from fs_append_cases [OF laws(3) a(4) assms(2)] have frame: "same_frame st st'"
    and "st' = st \<or> unchanged st st' \<or> (\<exists>h envelopes new_entries. committed X st w h envelopes new_entries st')"
    by blast+
  then consider "st' = st" | "unchanged st st'"
    | h envelopes new_entries where "committed X st w h envelopes new_entries st'" by blast
  then show ?thesis
  proof cases
    case 2
    then have "synced_to X txs (dk_events (fs_disk st')) (log_contents st') (fs_index st')"
      using a(1) by (simp add: unchanged_def log_contents_def log_of_def)
    moreover have "fresh_ids X (fs_uuid_calls st') N txs (ix_log (fs_index st'))"
      using fresh_ids_later [OF a(2)] 2 by (simp add: unchanged_def)
    ultimately have "fs_agrees X N txs st'" using a(3,4) frame by (simp add: fs_agrees_def same_frame_def)
    then show ?thesis using laws 2 by (auto simp: fs_synced_def view_extends_def unchanged_def)
  next
    case 3
    obtain txs where a: "fs_agrees X N txs st" using assms(1) unfolding fs_synced_def by blast
    show ?thesis
      by (rule commit_agrees [OF laws(1,4) a 3 frame assms(3-5)]) (use laws in \<open>auto simp: fs_synced_def\<close>)
  qed (use assms(1) in simp)
qed

lemma merged_txs:
  assumes "dir_txs X dir txs" "dir_txs X dir' txs'" "set dir \<subseteq> set dir'" "uuid_laws X" "hm_wf dir'"
  shows "set txs \<subseteq> set txs'"
proof
  fix tx
  assume "tx \<in> set txs"
  then obtain f where f: "f \<in> set dir" "tx_file X f tx"
    using assms(1) unfolding dir_txs_def by (metis in_set_conv_nth list_all2_conv_all_nth)
  then obtain tx' where t: "tx' \<in> set txs'" "tx_file X f tx'"
    using assms(2,3) unfolding dir_txs_def by (metis in_set_conv_nth list_all2_conv_all_nth subsetD)
  then have "tx' = tx" using f(2) unfolding tx_file_def
    by (metis loaded_transaction.inject(1) prod.expand sum.inject(2))
  then show "tx \<in> set txs'" using t(1) by simp
qed

lemma known_after_scan:
  assumes "assign lg (map ee_event_id (canonical_events txs)) = (new_entries, lg')" "graph_ok txs"
  shows "known_ids txs lg' \<subseteq> known_ids txs lg"
proof -
  have "seq_of lg' e \<noteq> None \<Longrightarrow> seq_of lg e \<noteq> None \<or> e \<in> set (map ee_event_id (canonical_events txs))" for e
    by (rule assign_dom [OF assms(1)])
  moreover have "set (map ee_event_id (canonical_events txs)) = set (map ee_event_id (all_events txs))"
    using mset_eq_setD [OF canonical_events_set [OF assms(2)]] by simp
  ultimately show ?thesis unfolding known_ids_def by blast
qed

lemma merge_step_synced:
  assumes "fs_synced X E N st" "merged_in X N st dir txs'" "reads_work io" "io_log io = Written"
    and "scan_store X (fs_roots st) io ((fs_disk st)\<lparr>dk_events := dir\<rparr>) = Some (Inr ix, d)"
  shows "fs_synced X E N (st\<lparr>fs_index := ix, fs_disk := d\<rparr>) \<and> view_extends st (st\<lparr>fs_index := ix, fs_disk := d\<rparr>)"
proof -
  let ?d = "(fs_disk st)\<lparr>dk_events := dir\<rparr>" and ?lg = "ix_log (fs_index st)"
  have laws: "value_laws X E" "snapshot_laws X" "logs_written X" "file_laws X"
    using assms(1) by (simp_all add: fs_synced_def)
  then have uuid: "uuid_laws X" by (simp add: file_laws_def)
  obtain txs where a: "dir_txs X (dk_events (fs_disk st)) txs" "graph_ok txs" "index_of txs (fs_index st)"
    "log_file (fx_entry_from_line X) (log_contents st) ?lg" "\<not> fs_poisoned st"
    using assms(1) unfolding fs_synced_def fs_agrees_def synced_to_def by blast
  have m: "set (dk_events (fs_disk st)) \<subseteq> set dir" "dir_txs X dir txs'" "graph_ok txs'" "readable X txs'"
    "fresh_ids X (fs_uuid_calls st) N txs' ?lg" "unat (next_seq ?lg) + length (all_events txs') < 2 ^ 64"
    "\<forall>tx \<in> set txs'. event_file (fx_show_uuid X) (tx_id tx) \<notin> fst ` set (dk_events (fs_disk st)) \<longrightarrow>
          (\<forall>e \<in> set (snd tx). seq_of ?lg (ee_event_id e) = None)"
    using assms(2) by (simp_all add: merged_in_def)
  have "dir_txs X (dk_events ?d) txs'" "log_file (fx_entry_from_line X) (log_of ?d) ?lg" "log_wf ?lg"
    using m(2) a(3,4) by (simp_all add: log_contents_def log_of_def index_of_def)
  from scan_synced [OF laws(4,3) assms(3,4) this(1) m(3) this(2,3) m(6), of "fs_roots st"]
  obtain new_entries where sc: "synced_to X txs' dir (log_of d) ix" "dk_events d = dir"
    "assign ?lg (map ee_event_id (canonical_events txs')) = (new_entries, ix_log ix)"
    using assms(5) by auto
  have ix: "index_of txs' ix" using sc(1) by (simp add: synced_to_def)
  have wf: "hm_wf dir" using dir_wf [OF uuid m(2)] m(3) by (simp add: graph_ok_def)
  have sub: "set txs \<subseteq> set txs'" by (rule merged_txs [OF a(1) m(2,1) uuid wf])
  have unseen: "\<forall>e \<in> set (all_events txs') - set (all_events txs). seq_of ?lg (ee_event_id e) = None"
  proof
    fix e
    assume "e \<in> set (all_events txs') - set (all_events txs)"
    then obtain tx where tx: "tx \<in> set txs'" "e \<in> set (snd tx)" "tx \<notin> set txs" by (auto simp: all_events_def)
    have "event_file (fx_show_uuid X) (tx_id tx) \<notin> fst ` set (dk_events (fs_disk st))"
    proof
      assume "event_file (fx_show_uuid X) (tx_id tx) \<in> fst ` set (dk_events (fs_disk st))"
      then have "event_file (fx_show_uuid X) (tx_id tx) \<in> set (map fst (dk_events (fs_disk st)))" by simp
      then obtain tx' where "tx' \<in> set txs" "tx_id tx' = tx_id tx"
        unfolding dir_keys [OF a(1)] using event_file_inj [OF uuid] by auto
      then show False using sub tx m(3) by (metis distinct_map graph_ok_def inj_onD subsetD)
    qed
    then show "seq_of ?lg (ee_event_id e) = None" using m(7) tx by blast
  qed
  obtain later where later: "ix_by_ingestion ix = ix_by_ingestion (fs_index st) @ later"
    using merge_extends_view [OF a(3,2) ix m(3) sub sc(3) m(6) unseen] by blast
  have "fresh_ids X (fs_uuid_calls st) N txs' (ix_log ix)"
    using m(5) known_after_scan [OF sc(3) m(3)] unfolding fresh_ids_def by blast
  then have "fs_agrees X N txs' (st\<lparr>fs_index := ix, fs_disk := d\<rparr>)"
    using sc(1,2) m(4) a(5) by (simp add: fs_agrees_def log_contents_def)
  then show ?thesis using laws later unfolding fs_synced_def view_extends_def by auto
qed

lemma fs_step_synced:
  assumes "fs_step X E N st st'" "fs_synced X E N st"
  shows "fs_synced X E N st' \<and> view_extends st st'"
  using assms(1)
proof (cases rule: fs_step.cases)
  case (append_step w r)
  then show ?thesis using append_step_synced [OF assms(2)] by blast
next
  case (merge_step dir txs' io ix d)
  then show ?thesis using merge_step_synced [OF assms(2)] by blast
qed

lemma fs_steps_synced:
  "fs_steps X E N st st' \<Longrightarrow> fs_synced X E N st \<Longrightarrow> fs_synced X E N st' \<and> view_extends st st'"
proof (induction rule: rtranclp_induct)
  case (step st1 st2)
  then show ?case using fs_step_synced view_extends_trans by blast
qed simp

end
