(* ===== verification/Fs_Coordination.thy ===== *)
theory Fs_Coordination
  imports Fs_Config Store_Contracts
begin

text \<open>
  The checkpoint store and the projector coordinator of the file back end
  (\<open>eventcore-fs/src/coordination.rs\<close>): one file per subscription, named by the hexadecimal of the name's
  bytes, and one advisory lock per subscription. Both interpret the contracts of their traits.
\<close>

section \<open>File names\<close>

definition sanitize :: "rstring \<Rightarrow> rstring" where
  "sanitize name = concat (map hex_pair (utf8 name))"

lemma concat_hex_inj: "concat (map hex_pair as) = concat (map hex_pair bs) \<Longrightarrow> as = bs"
proof (induction as arbitrary: bs)
  case Nil
  then show ?case by (cases bs) (simp_all add: hex_pair_def)
next
  case (Cons a as)
  obtain b bs' where bs: "bs = b # bs'" using Cons.prems by (cases bs) (auto simp: hex_pair_def)
  then have "hex_pair a @ concat (map hex_pair as) = hex_pair b @ concat (map hex_pair bs')" using Cons.prems by simp
  moreover have "length (hex_pair a) = length (hex_pair b)" by (simp add: hex_pair_def)
  ultimately have "hex_pair a = hex_pair b" "concat (map hex_pair as) = concat (map hex_pair bs')" by simp_all
  then show ?case using Cons.IH hex_pair_inj bs by blast
qed

lemma sanitize_inj: "sanitize a = sanitize b \<longleftrightarrow> a = b"
  unfolding sanitize_def using concat_hex_inj utf8_inj by blast

lemma inj_sanitize: "inj sanitize"
  by (simp add: inj_def sanitize_inj)

section \<open>Checkpoints\<close>

datatype checkpoint_error = CheckpointIo rstring | CheckpointCorrupted path_buf rstring

record file_checkpoints =
  ck_dir :: path_buf
  ck_files :: directory
  ck_calls :: nat

definition checkpoint_file :: "rstring \<Rightarrow> rstring" where
  "checkpoint_file name = sanitize name @ lit ''.json''"

text \<open>\<open>with_extension("json.tmp")\<close>; a name that is only \<open>.json\<close> has no extension to replace.\<close>

definition checkpoint_tmp :: "rstring \<Rightarrow> rstring" where
  "checkpoint_tmp name =
     (if sanitize name = [] then lit ''.json.json.tmp'' else sanitize name @ lit ''.json.tmp'')"

definition open_checkpoints :: "io_step \<Rightarrow> path_buf \<Rightarrow> directory \<Rightarrow> checkpoint_error + file_checkpoints" where
  "open_checkpoints io root existing =
     (let dir = path_join root (lit ''checkpoints'') in
      case io_mkdir io dir of
        Some e \<Rightarrow> Inl (CheckpointIo e)
      | None \<Rightarrow> Inr \<lparr>ck_dir = dir, ck_files = existing, ck_calls = 0\<rparr>)"

definition ck_load ::
  "(nat \<Rightarrow> io_step) \<Rightarrow> (rstring \<Rightarrow> rstring + uuid) \<Rightarrow> file_checkpoints \<Rightarrow> rstring
     \<Rightarrow> checkpoint_error + stream_position option" where
  "ck_load io parse_uuid s name =
     (let path = path_join (ck_dir s) (checkpoint_file name) in
      case read_file (io (ck_calls s)) path (ck_files s) (checkpoint_file name) of
        FileContents contents \<Rightarrow>
          (case parse_uuid (str_trim contents) of
             Inl e \<Rightarrow> Inl (CheckpointCorrupted path e)
           | Inr u \<Rightarrow> Inr (Some (StreamPosition u)))
      | FileNotFound _ \<Rightarrow> Inr None
      | FileReadError e \<Rightarrow> Inl (CheckpointIo e))"

text \<open>\<open>fs::write\<close> of the temporary file and \<open>fs::rename\<close>, without a sync.\<close>

definition ck_save ::
  "(nat \<Rightarrow> io_step) \<Rightarrow> (uuid \<Rightarrow> rstring) \<Rightarrow> file_checkpoints \<Rightarrow> rstring \<Rightarrow> stream_position
     \<Rightarrow> (checkpoint_error + unit) \<times> file_checkpoints" where
  "ck_save io show_uuid s name p =
     (let (written, files) = write_snapshot_file (io_file (io (ck_calls s))) FsyncNone (checkpoint_tmp name)
            (checkpoint_file name) (show_uuid (pos_uuid p)) (ck_files s)
      in (map_err CheckpointIo written, s\<lparr>ck_files := files, ck_calls := Suc (ck_calls s)\<rparr>))"

text \<open>The file system answers, and \<open>uuid\<close> reads what it wrote.\<close>

definition checkpoint_io :: "(nat \<Rightarrow> io_step) \<Rightarrow> (uuid \<Rightarrow> rstring) \<Rightarrow> (rstring \<Rightarrow> rstring + uuid) \<Rightarrow> bool" where
  "checkpoint_io io show_uuid parse_uuid \<longleftrightarrow>
     (\<forall>n. (\<forall>path. io_read (io n) path = None) \<and> io_file (io n) = NoFault)
     \<and> (\<forall>u. parse_uuid (str_trim (show_uuid u)) = Inr u)"

definition ck_inv :: "(nat \<Rightarrow> io_step) \<Rightarrow> (uuid \<Rightarrow> rstring) \<Rightarrow> (rstring \<Rightarrow> rstring + uuid) \<Rightarrow> file_checkpoints \<Rightarrow> bool" where
  "ck_inv io show_uuid parse_uuid s \<longleftrightarrow> checkpoint_io io show_uuid parse_uuid
     \<and> (\<forall>name c. hm_get (ck_files s) (checkpoint_file name) = Some c \<longrightarrow> (\<exists>u. parse_uuid (str_trim c) = Inr u))"

lemma checkpoint_names:
  "checkpoint_file m = checkpoint_file n \<longleftrightarrow> m = n" "checkpoint_file m \<noteq> checkpoint_tmp n"
  by (auto simp: checkpoint_file_def checkpoint_tmp_def sanitize_inj lit_def)

lemma ck_save_files:
  assumes "ck_inv io show_uuid parse_uuid s"
  shows "ck_save io show_uuid s n p = (Inr (), snd (ck_save io show_uuid s n p))"
    and "hm_get (ck_files (snd (ck_save io show_uuid s n p))) (checkpoint_file m)
      = (if m = n then Some (show_uuid (pos_uuid p)) else hm_get (ck_files s) (checkpoint_file m))"
  using assms checkpoint_names
  by (auto simp: ck_save_def ck_inv_def checkpoint_io_def write_snapshot_file_def Let_def)

interpretation fs_cp: checkpoint_store "ck_load io parse_uuid" "ck_save io show_uuid" "ck_inv io show_uuid parse_uuid"
proof (unfold_locales, goal_cases)
  case (1 st n p)
  have "ck_inv io show_uuid parse_uuid (snd (ck_save io show_uuid st n p))"
    using 1 ck_save_files(2) [OF 1, of n p] by (auto simp: ck_inv_def checkpoint_io_def split: if_splits)
  then show ?case using ck_save_files(1) [OF 1] by blast
next
  case (2 st n)
  then show ?case
    by (cases "hm_get (ck_files st) (checkpoint_file n)")
       (fastforce simp: ck_load_def ck_inv_def checkpoint_io_def read_file_def Let_def)+
next
  case (3 st n p m)
  have "io_read (io k) path = None" "parse_uuid (str_trim (show_uuid u)) = Inr u" for k path u
    using 3 by (simp_all add: ck_inv_def checkpoint_io_def)
  moreover have "ck_dir (snd (ck_save io show_uuid st n p)) = ck_dir st"
    by (simp add: ck_save_def Let_def split: prod.split)
  ultimately show ?case
    using ck_save_files(2) [OF 3, of n p m] by (auto simp: ck_load_def read_file_def Let_def split: option.split)
qed

section \<open>Leadership\<close>

datatype coordination_error = NotLeader rstring | CoordinationIo rstring

record file_coordinator =
  fl_dir :: path_buf
  fl_locked :: "(rstring, unit) hashmap"

text \<open>The open lock file, by the subscription it was opened for.\<close>

datatype leadership_guard = FileLeadershipGuard (guard_subscription: rstring)

definition open_coordinator :: "io_step \<Rightarrow> path_buf \<Rightarrow> coordination_error + file_coordinator" where
  "open_coordinator io root =
     (let dir = path_join root (lit ''locks'') in
      case io_mkdir io dir of
        Some e \<Rightarrow> Inl (CoordinationIo e) | None \<Rightarrow> Inr \<lparr>fl_dir = dir, fl_locked = []\<rparr>)"

definition lock_file :: "rstring \<Rightarrow> rstring" where
  "lock_file name = sanitize name @ lit ''.lock''"

text \<open>\<open>LockHeld\<close> of the parameter is a lock another process holds.\<close>

definition fl_try_acquire ::
  "(path_buf \<Rightarrow> lock_attempt) \<Rightarrow> file_coordinator \<Rightarrow> rstring
     \<Rightarrow> (coordination_error + leadership_guard) \<times> file_coordinator" where
  "fl_try_acquire try_lock s name =
     (let file = lock_file name in
      case try_lock (path_join (fl_dir s) file) of
        LockOpenFailed e \<Rightarrow> (Inl (CoordinationIo e), s)
      | LockError e \<Rightarrow> (Inl (CoordinationIo e), s)
      | LockHeld \<Rightarrow> (Inl (NotLeader name), s)
      | LockAcquired \<Rightarrow>
          if hm_contains (fl_locked s) file then (Inl (NotLeader name), s)
          else (Inr (FileLeadershipGuard name), s\<lparr>fl_locked := hm_insert file () (fl_locked s)\<rparr>))"

text \<open>Dropping the guard closes the file, which releases the lock.\<close>

definition fl_drop_guard :: "file_coordinator \<Rightarrow> leadership_guard \<Rightarrow> file_coordinator" where
  "fl_drop_guard s g = s\<lparr>fl_locked := hm_remove (lock_file (guard_subscription g)) (fl_locked s)\<rparr>"

definition fl_leaders :: "file_coordinator \<Rightarrow> rstring set" where
  "fl_leaders s = {n. hm_contains (fl_locked s) (lock_file n)}"

lemma lock_file_inj: "lock_file m = lock_file n \<longleftrightarrow> m = n"
  by (simp add: lock_file_def sanitize_inj)

text \<open>Among the handles of one process, whose lock files can be opened and are not held elsewhere.\<close>

definition lockable :: "(path_buf \<Rightarrow> lock_attempt) \<Rightarrow> bool" where
  "lockable try_lock \<longleftrightarrow> (\<forall>path. try_lock path = LockAcquired)"

interpretation fs_co: projector_coordinator "fl_try_acquire try_lock" fl_drop_guard fl_leaders
  "\<lambda>s. lockable try_lock" guard_subscription
  by unfold_locales
    (auto simp: fl_try_acquire_def fl_drop_guard_def fl_leaders_def lockable_def hm_contains_def lock_file_inj Let_def)

end
