(* ===== verification/Fs_Projection.thy ===== *)
theory Fs_Projection
  imports Fs_Steps Fs_Coordination Projection_Resume
begin

text \<open>
  Projections over the file back end: its reader, checkpoint files and lock files as the back end of
  \<open>run_projection\<close>, the interpretations of the reader's and the projection's contracts, and the steps of
  the store (appends, merges and reopening) as what may happen while a projection runs.
\<close>

section \<open>The back end\<close>

record 'v file_backend =
  fb_store :: "'v fs_store"
  fb_checkpoints :: file_checkpoints
  fb_leaders :: file_coordinator

text \<open>The \<open>Display\<close> of the three error types.\<close>

record fs_shows =
  sh_read :: "event_store_error \<Rightarrow> rstring"
  sh_checkpoint :: "checkpoint_error \<Rightarrow> rstring"
  sh_lock :: "coordination_error \<Rightarrow> rstring"

definition file_backend_ops ::
  "('v, 'ev, 'json) fs_env \<Rightarrow> 'ev event_type \<Rightarrow> fs_shows
     \<Rightarrow> ('v file_backend, 'ev, leadership_guard) projection_backend" where
  "file_backend_ops X E S =
     \<lparr>pb_read = \<lambda>b f pg. map_sum (sh_read S) id (fs_read_events X E (fb_store b) f pg),
       pb_load = \<lambda>b n. map_sum (sh_checkpoint S) id (ck_load (fx_io X) (fx_parse_uuid X) (fb_checkpoints b) n),
       pb_save = \<lambda>b n q. (let (r, cks) = ck_save (fx_io X) (fx_show_uuid X) (fb_checkpoints b) n q
                         in (map_sum (sh_checkpoint S) id r, b\<lparr>fb_checkpoints := cks\<rparr>)),
       pb_acquire = \<lambda>b n. (let (r, co) = fl_try_acquire (io_try_lock (fx_io X 0)) (fb_leaders b) n
                          in (map_sum (sh_lock S) id r, b\<lparr>fb_leaders := co\<rparr>)),
       pb_release = \<lambda>b g. b\<lparr>fb_leaders := fl_drop_guard (fb_leaders b) g\<rparr>\<rparr>"

section \<open>What a reader sees\<close>

definition chosen_events ::
  "('v, 'ev, 'json) fs_env \<Rightarrow> 'ev event_type \<Rightarrow> 'v index \<Rightarrow> event_filter \<Rightarrow> ('ev \<times> stream_position) list" where
  "chosen_events X E ix f =
     map (\<lambda>(p, x). (decoded X x, StreamPosition p))
       (filter (\<lambda>(p, x). selects (fx_glob_compile X) (ev_type_name E) f (ix_stream_id x) (ix_event_type x))
         (ix_by_ingestion ix))"

definition readable_index :: "('v, 'ev, 'json) fs_env \<Rightarrow> 'v index \<Rightarrow> bool" where
  "readable_index X ix \<longleftrightarrow> sorted_wrt (<) (map fst (ix_by_ingestion ix))
     \<and> (\<forall>(p, x) \<in> set (ix_by_ingestion ix). decodable X x)"

lemma synced_readable:
  assumes "fs_synced X E N st"
  shows "readable_index X (fs_index st)" "\<not> fs_poisoned st"
proof -
  obtain txs where a: "graph_ok txs" "index_of txs (fs_index st)" "readable X txs" "\<not> fs_poisoned st"
    using assms unfolding fs_synced_def fs_agrees_def synced_to_def by blast
  show "\<not> fs_poisoned st" by (rule a(4))
  let ?lg = "ix_log (fs_index st)"
  let ?ps = "map (placed ?lg) (canonical_events txs)"
  have wf: "log_wf ?lg" "\<forall>e \<in> set (canonical_events txs). seq_of ?lg (ee_event_id e) \<noteq> None"
    and view: "ix_by_ingestion (fs_index st) = sort_key fst ?ps" using a(2) by (simp_all add: index_of_def)
  have inj: "inj_on fst (set ?ps)" by (rule placed_inj [OF wf(1) canonical_events_distinct [OF a(1)] wf(2)])
  have "distinct ?ps"
    unfolding distinct_map
  proof (intro conjI inj_onI)
    show "distinct (canonical_events txs)" using canonical_events_distinct [OF a(1)] by (simp add: distinct_map)
    fix d e
    assume "d \<in> set (canonical_events txs)" "e \<in> set (canonical_events txs)" "placed ?lg d = placed ?lg e"
    then show "d = e"
      using canonical_events_distinct [OF a(1)] by (auto simp: placed_def to_indexed_def distinct_map dest: inj_onD)
  qed
  then have "distinct (map fst (sort_key fst ?ps))" using inj by (simp add: distinct_map)
  then have "sorted_wrt (<) (map fst (sort_key fst ?ps))" by (simp add: strict_sorted_iff)
  moreover have "\<forall>(p, x) \<in> set (sort_key fst ?ps). decodable X x"
    using a(3) mset_eq_setD [OF canonical_events_set [OF a(1)]] by (auto simp: placed_def readable_def)
  ultimately show "readable_index X (fs_index st)" unfolding readable_index_def view by blast
qed

lemma map_filter_decoded:
  "\<forall>(p, x) \<in> set ps. decodable X x \<Longrightarrow>
     List.map_filter (\<lambda>(p, x). case fx_from_value X (ix_event_data x) of
        Inl _ \<Rightarrow> None | Inr e \<Rightarrow> Some (e, StreamPosition p)) ps
     = map (\<lambda>(p, x). (decoded X x, StreamPosition p)) ps"
  by (induction ps) (auto simp: map_filter_def decodable_def split: sum.splits)

lemma fs_read_page:
  assumes "readable_index X (fs_index st)" "\<not> fs_poisoned st"
  shows "fs_read_events X E st f pg
    = Inr (take (unat (page_limit pg)) (unseen (chosen_events X E (fs_index st) f) (after_position pg)))"
proof -
  let ?sel = "\<lambda>x. selects (fx_glob_compile X) (ev_type_name E) f (ix_stream_id x) (ix_event_type x)"
  let ?page = "filter (\<lambda>(p, x). after_cursor pg p \<and> ?sel x) (ix_by_ingestion (fs_index st))"
  have "\<forall>(p, x) \<in> set (take (unat (page_limit pg)) ?page). decodable X x"
    using assms(1) by (auto simp: readable_index_def dest!: in_set_takeD)
  note dec = map_filter_decoded [OF this]
  have "map (\<lambda>(p, x). (decoded X x, StreamPosition p)) ?page
      = unseen (chosen_events X E (fs_index st) f) (after_position pg)"
    by (cases "after_position pg")
       (auto simp: unseen_def chosen_events_def after_cursor_def filter_map less_stream_position_def comp_def
         case_prod_unfold intro!: arg_cong [where f = "map _"] filter_cong)
  then have "map (\<lambda>(p, x). (decoded X x, StreamPosition p)) (take (unat (page_limit pg)) ?page)
      = take (unat (page_limit pg)) (unseen (chosen_events X E (fs_index st) f) (after_position pg))"
    by (simp add: take_map [symmetric])
  then show ?thesis using assms(2) dec by (simp add: fs_read_events_def)
qed

lemma chosen_increasing:
  "readable_index X ix \<Longrightarrow> sorted_wrt (<) (map snd (chosen_events X E ix f))"
  by (auto simp: readable_index_def chosen_events_def less_stream_position_def sorted_wrt_map comp_def
      case_prod_unfold intro: sorted_wrt_filter)

lemma chosen_prefix: "view_extends st st' \<Longrightarrow> prefix (chosen_events X E (fs_index st) f) (chosen_events X E (fs_index st') f)"
  by (auto simp: view_extends_def chosen_events_def)

section \<open>The contracts\<close>

interpretation fs_reader: event_reader "fs_read_events X E" "fs_synced X E N" "\<lambda>st. chosen_events X E (fs_index st)"
  by unfold_locales (simp_all add: fs_read_page chosen_increasing synced_readable)

definition backend_ok :: "('v, 'ev, 'json) fs_env \<Rightarrow> 'ev event_type \<Rightarrow> nat \<Rightarrow> 'v file_backend \<Rightarrow> bool" where
  "backend_ok X E N b \<longleftrightarrow> fs_synced X E N (fb_store b)
     \<and> ck_inv (fx_io X) (fx_show_uuid X) (fx_parse_uuid X) (fb_checkpoints b)"

interpretation fs_proj: projection_store "file_backend_ops X E S" "backend_ok X E N"
  "\<lambda>b. chosen_events X E (fs_index (fb_store b))"
proof (unfold_locales, goal_cases)
  case (1 st f pg)
  then show ?case by (simp add: file_backend_ops_def backend_ok_def fs_reader.read_page [where N = N])
next
  case (2 st f)
  then show ?case by (simp add: backend_ok_def fs_reader.increasing [where N = N])
next
  case (3 st n p)
  then show ?case
    using fs_cp.save_ok [where io = "fx_io X" and show_uuid = "fx_show_uuid X" and parse_uuid = "fx_parse_uuid X"
        and st = "fb_checkpoints st" and n = n and p = p]
    by (auto simp: file_backend_ops_def backend_ok_def)
next
  case (4 st n)
  then show ?case
    using fs_cp.load_ok [where io = "fx_io X" and show_uuid = "fx_show_uuid X" and parse_uuid = "fx_parse_uuid X"
        and st = "fb_checkpoints st" and n = n]
    by (auto simp: file_backend_ops_def backend_ok_def)
next
  case (5 st n p m)
  then show ?case
    using fs_cp.load_save [where io = "fx_io X" and show_uuid = "fx_show_uuid X" and parse_uuid = "fx_parse_uuid X"
        and st = "fb_checkpoints st" and n = n and p = p and m = m]
    by (cases "ck_save (fx_io X) (fx_show_uuid X) (fb_checkpoints st) n p")
       (simp add: file_backend_ops_def backend_ok_def)
next
  case (6 st n p)
  then show ?case by (simp add: file_backend_ops_def Let_def split: prod.split)
next
  case (7 st n r st')
  then show ?case by (auto simp: file_backend_ops_def backend_ok_def Let_def fun_eq_iff split: prod.splits)
next
  case (8 st g)
  then show ?case by (auto simp: file_backend_ops_def backend_ok_def fun_eq_iff)
qed

text \<open>What happens to the store while a projection runs: any number of its steps, and nothing else.\<close>

definition store_life ::
  "('v, 'ev, 'json) fs_env \<Rightarrow> 'ev event_type \<Rightarrow> nat \<Rightarrow> (nat \<Rightarrow> 'v file_backend \<Rightarrow> 'v file_backend) \<Rightarrow> bool" where
  "store_life X E N env \<longleftrightarrow>
     (\<forall>t b. fs_steps X E N (fb_store b) (fb_store (env t b)) \<and> fb_checkpoints (env t b) = fb_checkpoints b)"

lemma store_life_good:
  "store_life X E N env \<Longrightarrow> good_env (pb_load (file_backend_ops X E S)) (backend_ok X E N)
     (\<lambda>b. chosen_events X E (fs_index (fb_store b))) nm env"
  using fs_steps_synced [of X E N] chosen_prefix
  unfolding store_life_def good_env_def only_appends_def backend_ok_def
  by (fastforce simp: file_backend_ops_def)

end
