(* ===== verification/Fs_Reconcile.thy ===== *)
theory Fs_Reconcile
  imports Fs_Store_Correct
begin

text \<open>
  Merge mode (\<open>eventcore-fs/src/lib.rs\<close>, \<open>merge.rs\<close>): fork detection and status on the store, the context
  handed to a resolver, the merge transaction and the pass over all forks; and what a new transaction
  does to the set of forks.
\<close>

section \<open>Status\<close>

definition poisoned_index :: "'v fs_store \<Rightarrow> fs_error" where
  "poisoned_index st = Corrupted (rt_root (fs_roots st)) (lit ''index lock poisoned'')"

definition fs_detect_forks :: "('v, 'ev, 'json) fs_env \<Rightarrow> 'v fs_store \<Rightarrow> fs_error + fork list" where
  "fs_detect_forks X st =
     (if fs_poisoned st then Inl (poisoned_index st)
      else detect_forks_in (fx_show_name X) (ix_headers (fs_index st)))"

definition fs_store_status :: "('v, 'ev, 'json) fs_env \<Rightarrow> 'v fs_store \<Rightarrow> fs_error + store_status" where
  "fs_store_status X st =
     rbind (fs_detect_forks X st) (\<lambda>forks.
       Inr \<lparr>ss_forks = forks, ss_dangling = detect_dangling_in (ix_headers (fs_index st)),
            ss_integrity_failures =
              map (\<lambda>(t, detail). \<lparr>if_transaction_id = t, if_detail = detail\<rparr>) (ix_integrity_failures (fs_index st))\<rparr>)"

definition topology_generation :: "'v fs_store \<Rightarrow> fs_error + nat" where
  "topology_generation st =
     (if fs_poisoned st then Inl (poisoned_index st)
      else Inr (length (filter (\<lambda>h. 1 < length (th_parents h)) (map snd (ix_headers (fs_index st))))))"

section \<open>The resolver's view of a fork\<close>

record 'ev branch_view =
  bv_transaction_id :: transaction_id
  bv_events :: "'ev list"

record 'ev fork_context =
  fc_stream_id :: stream_id
  fc_base_version :: stream_version
  fc_branches :: "'ev branch_view list"

datatype 'ev resolution_outcome = Resolve "'ev list" | Unresolvable rstring

record reconcile_report =
  rr_resolved :: nat
  rr_unresolved :: "stream_id list"

definition branch_event ::
  "('v, 'ev, 'json) fs_env \<Rightarrow> path_buf \<Rightarrow> 'v event_envelope \<Rightarrow> fs_error + 'ev" where
  "branch_event X path e =
     map_err (\<lambda>detail. Corrupted path (lit ''branch event does not match resolver type: '' @ detail))
       (fx_from_value X (ee_event_data e))"

definition branch ::
  "('v, 'ev, 'json) fs_env \<Rightarrow> 'v fs_store \<Rightarrow> fork \<Rightarrow> transaction_id \<Rightarrow> fs_error + 'ev branch_view" where
  "branch X st fork t =
     (let path = event_path (fs_roots st) (fx_show_uuid X) t;
          file = read_file (now_io X st) path (dk_events (fs_disk st)) (event_file (fx_show_uuid X) t) in
      rbind (parse_transaction (fx_from_line X) (fx_sha256 X) (fx_show_uuid X) path file) (\<lambda>(h, envelopes).
      rbind (collect_results (map (branch_event X path)
              (filter (\<lambda>e. ee_stream_id e = sid_str (fork_stream_id fork)) envelopes))) (\<lambda>events.
      Inr \<lparr>bv_transaction_id = t, bv_events = events\<rparr>)))"

definition build_fork_context ::
  "('v, 'ev, 'json) fs_env \<Rightarrow> 'v fs_store \<Rightarrow> fork \<Rightarrow> fs_error + 'ev fork_context" where
  "build_fork_context X st fork =
     rbind (collect_results (map (branch X st fork) (fork_transactions fork))) (\<lambda>branches.
       Inr \<lparr>fc_stream_id = fork_stream_id fork, fc_base_version = fork_base_version fork, fc_branches = branches\<rparr>)"

section \<open>The merge transaction\<close>

definition merge_item ::
  "('v, 'ev, 'json) fs_env \<Rightarrow> 'ev event_type \<Rightarrow> 'v fs_store \<Rightarrow> 'ev \<Rightarrow> fs_error + rstring \<times> rstring \<times> 'v" where
  "merge_item X E st e =
     (case fx_to_value X e of
        Inl detail \<Rightarrow> Inl (Corrupted (rt_root (fs_roots st)) (lit ''failed to serialize resolution event: '' @ detail))
      | Inr v \<Rightarrow> Inr (sid_str (ev_stream_id E e), ev_type_name E, v))"

definition merge_bases :: "'v index \<Rightarrow> rstring list \<Rightarrow> (rstring \<times> usize) list" where
  "merge_bases ix keys = sort_key fst (map (\<lambda>key. (key, stream_head ix key)) (remdups keys))"

definition write_merge_transaction ::
  "('v, 'ev, 'json) fs_env \<Rightarrow> 'ev event_type \<Rightarrow> fork \<Rightarrow> 'ev list \<Rightarrow> 'v fs_store \<Rightarrow> (fs_error + unit) \<times> 'v fs_store" where
  "write_merge_transaction X E fork events st =
     (let t = fx_now_v7 X (fs_uuid_calls st); st0 = st\<lparr>fs_uuid_calls := Suc (fs_uuid_calls st)\<rparr>;
          root = rt_root (fs_roots st) in
      case collect_results (map (merge_item X E st) events) of
        Inl e \<Rightarrow> (Inl e, st0)
      | Inr items \<Rightarrow>
          if fs_poisoned st then (Inl (poisoned_index st), st0)
          else
            (let ix = fs_index st;
                 (envelopes, new_events, calls) =
                   build_envelopes (fx_now_v7 X) (fx_no_metadata X) ix (Suc (fs_uuid_calls st)) items;
                 st1 = st\<lparr>fs_uuid_calls := calls\<rparr>;
                 h = new_header X st1 t (fork_transactions fork) (merge_bases ix (map fst items)) in
             case serialize_transaction (fx_to_line X) (fx_sha256 X) h envelopes of
               Inl _ \<Rightarrow> (Inl (Corrupted root (lit ''failed to serialize merge transaction'')), st1)
             | Inr body \<Rightarrow>
                 (let (written, st2) = store_transaction X t body st1 in
                  case written of
                    Inl e \<Rightarrow> (Inl (InitFailed (event_path (fs_roots st) (fx_show_uuid X) t) e), st2)
                  | Inr _ \<Rightarrow>
                      (let (new_entries, ix') = add_transaction t h new_events ix;
                           (persisted, st3) = persist_log X new_entries
                              (st2\<lparr>fs_index := ix'\<lparr>ix_tips := compute_tips (ix_headers ix')\<rparr>\<rparr>)
                       in (map_err (\<lambda>e. Corrupted root (lit ''failed to persist ingestion log: '' @ fx_show_error X e))
                             persisted, st3)))))"

section \<open>The pass over all forks\<close>

fun reconcile_loop ::
  "('v, 'ev, 'json) fs_env \<Rightarrow> 'ev event_type \<Rightarrow> ('ev fork_context \<Rightarrow> 'ev resolution_outcome) \<Rightarrow> fork list
     \<Rightarrow> reconcile_report \<Rightarrow> 'v fs_store \<Rightarrow> (fs_error + reconcile_report) \<times> 'v fs_store" where
  "reconcile_loop X E resolver [] report st = (Inr report, st)"
| "reconcile_loop X E resolver (fork # forks) report st =
     (case build_fork_context X st fork of
        Inl e \<Rightarrow> (Inl e, st)
      | Inr ctx \<Rightarrow>
          (case resolver ctx of
             Unresolvable _ \<Rightarrow>
               reconcile_loop X E resolver forks
                 (report\<lparr>rr_unresolved := rr_unresolved report @ [fork_stream_id fork]\<rparr>) st
           | Resolve events \<Rightarrow>
               (case write_merge_transaction X E fork events st of
                  (Inl e, st') \<Rightarrow> (Inl e, st')
                | (Inr _, st') \<Rightarrow>
                    reconcile_loop X E resolver forks (report\<lparr>rr_resolved := rr_resolved report + 1\<rparr>) st')))"

definition fs_reconcile ::
  "('v, 'ev, 'json) fs_env \<Rightarrow> 'ev event_type \<Rightarrow> ('ev fork_context \<Rightarrow> 'ev resolution_outcome) \<Rightarrow> 'v fs_store
     \<Rightarrow> (fs_error + reconcile_report) \<times> 'v fs_store" where
  "fs_reconcile X E resolver st =
     (case fs_detect_forks X st of
        Inl e \<Rightarrow> (Inl e, st)
      | Inr forks \<Rightarrow> reconcile_loop X E resolver forks \<lparr>rr_resolved = 0, rr_unresolved = []\<rparr> st)"

section \<open>Forks after a new transaction\<close>

lemma claimants_insert:
  assumes "hm_get headers m = None"
  shows "claimants (hm_insert m h headers) c = claimants headers c \<union> (if c \<in> set (th_stream_bases h) then {m} else {})"
  using assms by (auto simp: claimants_def)

lemma joined_insert:
  assumes "hm_get headers m = None" "joined headers ts"
  shows "joined (hm_insert m h headers) ts"
proof -
  obtain c g where c: "hm_get headers c = Some g" "\<forall>t \<in> ts. ancestor headers t c"
    using assms(2) unfolding joined_def by blast
  then have "hm_get (hm_insert m h headers) c = Some g" using assms(1) by auto
  then show ?thesis using c(2) ancestor_insert [OF assms(1)] unfolding joined_def by blast
qed

lemma joined_by_parents:
  assumes "hm_get headers m = None" "ts \<subseteq> set (th_parents h)"
  shows "joined (hm_insert m h headers) ts"
proof -
  have "(t, m) \<in> parent_rel (hm_insert m h headers)" if "t \<in> ts" for t
    using that assms by (auto simp: parent_rel_def grown_parents)
  moreover have "hm_get (hm_insert m h headers) m = Some h" by simp
  ultimately show ?thesis unfolding joined_def by blast
qed

text \<open>A claim the new transaction does not make can only stop being a fork.\<close>

lemma forked_insert:
  assumes "hm_get headers m = None"
  shows "forked_claims (hm_insert m h headers) \<subseteq> forked_claims headers \<union> set (th_stream_bases h)"
  using joined_insert [OF assms, of _ h] by (auto simp: forked_claims_def claimants_insert [OF assms])

lemma merge_resolves:
  assumes "hm_get headers m = None" "claimants headers c \<subseteq> set (th_parents h)" "c \<notin> set (th_stream_bases h)"
  shows "c \<notin> forked_claims (hm_insert m h headers)"
  using joined_by_parents [OF assms(1,2)] assms(3) by (simp add: forked_claims_def claimants_insert [OF assms(1)])

lemma tip_above:
  assumes "acyclic_headers headers" "hm_wf headers" "hm_contains headers t"
  shows "\<exists>u. is_tip headers u \<and> (t = u \<or> ancestor headers t u)"
proof -
  let ?S = "{u. (t = u \<or> ancestor headers t u) \<and> hm_contains headers u}"
  have "Max (depth headers ` ?S) \<in> depth headers ` ?S"
    by (rule Max_in) (use assms(3) in auto)
  then obtain u where u: "u \<in> ?S" "depth headers u = Max (depth headers ` ?S)" by (metis (no_types, lifting) imageE)
  have "u \<notin> all_parents headers"
  proof
    assume "u \<in> all_parents headers"
    then obtain c h where c: "(c, h) \<in> set headers" "u \<in> set (th_parents h)" by (auto simp: all_parents_def)
    then have get: "hm_get headers c = Some h" using hm_get_in [OF assms(2)] by blast
    then have par: "u \<in> set (parents_of headers c)" using c(2) by (simp add: parents_of_def)
    then have "(u, c) \<in> parent_rel headers" by (simp add: parent_rel_def)
    then have "ancestor headers t c" using u(1) by (auto intro: trancl_into_trancl)
    moreover have "hm_contains headers c" using get by (simp add: hm_contains_def)
    ultimately have "depth headers c \<le> Max (depth headers ` ?S)" by (intro Max_ge) auto
    moreover have "depth headers u < depth headers c" using depth_less [OF assms(1) par] u(1) by simp
    ultimately show False using u(2) by simp
  qed
  then show ?thesis using u(1) by (auto simp: is_tip_def)
qed

text \<open>
  A transaction on all the tips descends from every other one: no fork among the others is reported any
  more, and every claim of its own that another transaction made too is reported.
\<close>

lemma new_on_tips_forks:
  assumes new: "new_transaction headers m h" and tips: "set (compute_tips headers) \<subseteq> set (th_parents h)"
  shows "forked_claims (hm_insert m h headers) = {c \<in> set (th_stream_bases h). claimants headers c \<noteq> {}}"
proof -
  let ?new = "hm_insert m h headers"
  have n: "hm_get headers m = None" "acyclic_headers headers" "hm_wf headers"
    using new by (simp_all add: new_transaction_def)
  have above: "ancestor ?new t m" if t: "hm_contains headers t" for t
  proof -
    obtain u where u: "is_tip headers u" "t = u \<or> ancestor headers t u" using tip_above [OF n(2,3) t] by blast
    then have "u \<in> set (th_parents h)" using tips compute_tips_facts(1) [of headers] by auto
    then have "(u, m) \<in> parent_rel ?new" by (simp add: parent_rel_def grown_parents)
    then show ?thesis using u(2) ancestor_insert [OF n(1), of t u h] by (auto intro: trancl_into_trancl)
  qed
  have sub: "claimants headers c \<subseteq> {t. hm_contains headers t}" for c by (auto simp: claimants_def hm_contains_def)
  have "hm_get ?new m = Some h" by simp
  then have "joined ?new (claimants headers c)" for c
    using above sub [of c] unfolding joined_def by blast
  moreover have "\<not> joined ?new (insert m ts)" for ts
    using grown_ancestor(1) [OF new] by (auto simp: joined_def)
  moreover have "m \<notin> claimants headers c" "finite (claimants headers c)" for c
    using n(1) finite_subset [of "claimants headers c" "fst ` set headers"]
    by (auto simp: claimants_def dest!: map_of_SomeD)
  moreover have "2 \<le> Suc (card (claimants headers c)) \<longleftrightarrow> claimants headers c \<noteq> {}" for c
    using calculation(4) [of c] by (auto simp: card_gt_0_iff Suc_le_eq)
  ultimately show ?thesis by (auto simp: forked_claims_def claimants_insert [OF n(1)] split: if_splits)
qed

section \<open>What a pass leaves\<close>

lemma write_merge_headers:
  assumes "write_merge_transaction X E fork events st = (Inr u, st')" "logs_written X"
  shows "\<exists>h. ix_headers (fs_index st') = hm_insert (fx_now_v7 X (fs_uuid_calls st)) h (ix_headers (fs_index st))
    \<and> th_parents h = fork_transactions fork \<and> fs_uuid_calls st < fs_uuid_calls st'
    \<and> (\<forall>s. \<exists>later. stream_events (ix_streams (fs_index st')) s = stream_events (ix_streams (fs_index st)) s @ later)"
proof -
  let ?t = "fx_now_v7 X (fs_uuid_calls st)"
  obtain items where items: "collect_results (map (merge_item X E st) events) = Inr items"
    using assms(1) by (cases "collect_results (map (merge_item X E st) events)") (auto simp: write_merge_transaction_def Let_def)
  obtain es xs calls where be: "build_envelopes (fx_now_v7 X) (fx_no_metadata X) (fs_index st)
      (Suc (fs_uuid_calls st)) items = (es, xs, calls)" by (rule prod_cases3)
  let ?st1 = "st\<lparr>fs_uuid_calls := calls\<rparr>"
  let ?h = "new_header X ?st1 ?t (fork_transactions fork) (merge_bases (fs_index st) (map fst items))"
  obtain body where body: "serialize_transaction (fx_to_line X) (fx_sha256 X) ?h es = Inr body"
    using assms(1) items be by (cases "serialize_transaction (fx_to_line X) (fx_sha256 X) ?h es")
      (auto simp: write_merge_transaction_def Let_def split: if_splits)
  obtain written st2 where w2: "store_transaction X ?t body ?st1 = (written, st2)" by (rule prod.exhaust)
  note f2 = store_transaction_facts [OF w2]
  obtain new_entries ix' where add: "add_transaction ?t ?h xs (fs_index st) = (new_entries, ix')" by (rule prod.exhaust)
  let ?st2 = "st2\<lparr>fs_index := ix'\<lparr>ix_tips := compute_tips (ix_headers ix')\<rparr>\<rparr>"
  obtain ls st3 where p: "persist_log X new_entries ?st2 = (Inr (), st3)" "fs_index st3 = fs_index ?st2"
    "fs_uuid_calls st3 = fs_uuid_calls ?st2"
    using persist_log_written [OF assms(2), of new_entries ?st2] by blast
  have "st' = st3"
    using assms(1) items be body w2 add p(1)
    by (auto simp: write_merge_transaction_def Let_def split: if_splits sum.splits)
  then have "fs_index st' = ix'\<lparr>ix_tips := compute_tips (ix_headers ix')\<rparr>" "fs_uuid_calls st' = calls"
    using p(2,3) f2 by simp_all
  moreover have "fs_uuid_calls st < calls" using build_envelopes_calls [OF be] by simp
  ultimately show ?thesis
    using add_transaction_facts(3,5) [OF add] by (auto simp: new_header_def intro!: exI [of _ ?h])
qed

definition fresh_keys :: "('v, 'ev, 'json) fs_env \<Rightarrow> nat \<Rightarrow> nat \<Rightarrow> headers \<Rightarrow> bool" where
  "fresh_keys X n N headers \<longleftrightarrow>
     inj_on (fx_now_v7 X) {n ..< N} \<and> (\<forall>k \<in> {n ..< N}. hm_get headers (fx_now_v7 X k) = None)"

lemma fresh_keys_insert:
  assumes "fresh_keys X n N headers" "n < n'" "n' \<le> N"
  shows "fresh_keys X n' N (hm_insert (fx_now_v7 X n) h headers)"
proof -
  have inj: "inj_on (fx_now_v7 X) {n ..< N}" using assms(1) by (simp add: fresh_keys_def)
  have sub: "{n' ..< N} \<subseteq> {n ..< N}" using assms(2) by auto
  have "fx_now_v7 X k \<noteq> fx_now_v7 X n" if "k \<in> {n' ..< N}" for k
    using inj_on_eq_iff [OF inj, of k n] that assms(2,3) by auto
  then show ?thesis using assms(1) inj_on_subset [OF inj sub] sub unfolding fresh_keys_def by auto
qed

definition claim_of :: "fork \<Rightarrow> rstring \<times> usize" where
  "claim_of f = (sid_str (fork_stream_id f), fork_base_version f)"

text \<open>A fork still reported: not handled yet, declined, or claimed by a transaction the pass made.\<close>

definition remaining :: "headers \<Rightarrow> headers \<Rightarrow> fork list \<Rightarrow> stream_id list \<Rightarrow> rstring \<times> usize \<Rightarrow> bool" where
  "remaining before now forks declined c \<longleftrightarrow> c \<in> claim_of ` set forks \<or> StreamId (fst c) \<in> set declined
     \<or> (\<exists>m h. hm_get now m = Some h \<and> c \<in> set (th_stream_bases h) \<and> hm_get before m = None)"

lemma claimants_grown:
  "claimants now c \<subseteq> claimants before c \<union> {m. \<exists>h. hm_get now m = Some h \<and> c \<in> set (th_stream_bases h) \<and> hm_get before m = None}"
  if "\<forall>t h. hm_get before t = Some h \<longrightarrow> hm_get now t = Some h"
proof
  fix t
  assume "t \<in> claimants now c"
  then obtain h where h: "hm_get now t = Some h" "c \<in> set (th_stream_bases h)" by (auto simp: claimants_def)
  show "t \<in> claimants before c \<union> {m. \<exists>h. hm_get now m = Some h \<and> c \<in> set (th_stream_bases h) \<and> hm_get before m = None}"
    using h that by (cases "hm_get before t") (auto simp: claimants_def)
qed

lemma remaining_step:
  assumes "\<forall>t h. hm_get before t = Some h \<longrightarrow> hm_get now t = Some h"
    and "\<forall>c \<in> forked_claims now. remaining before now (f # forks) declined c"
    and "set (fork_transactions f) = claimants before (claim_of f)" "th_parents h = fork_transactions f"
    and "hm_get now m = None"
  shows "\<forall>c \<in> forked_claims (hm_insert m h now). remaining before (hm_insert m h now) forks declined c"
proof
  fix c
  assume c: "c \<in> forked_claims (hm_insert m h now)"
  let ?now = "hm_insert m h now"
  have m0: "hm_get before m = None" using assms(1,5) by (cases "hm_get before m") auto
  show "remaining before ?now forks declined c"
  proof (cases "c \<in> set (th_stream_bases h)")
    case True
    then show ?thesis using m0 unfolding remaining_def by (intro disjI2 exI [of _ m] exI [of _ h]) simp
  next
    case False
    then have "c \<in> forked_claims now" using c forked_insert [OF assms(5)] by blast
    then have r: "remaining before now (f # forks) declined c" using assms(2) by blast
    have mono: "\<exists>m' h'. hm_get ?now m' = Some h' \<and> c \<in> set (th_stream_bases h') \<and> hm_get before m' = None"
      if "hm_get now m' = Some h'" "c \<in> set (th_stream_bases h')" "hm_get before m' = None" for m' h'
      using that assms(5) by (intro exI [of _ m'] exI [of _ h']) auto
    show ?thesis
    proof (cases "c = claim_of f")
      case True
      have "\<not> claimants now c \<subseteq> set (th_parents h)"
        using merge_resolves [OF assms(5) _ False] c by blast
      then obtain x where x: "x \<in> claimants now c" "x \<notin> claimants before c" using assms(3,4) True by auto
      then have "x \<in> {m. \<exists>h. hm_get now m = Some h \<and> c \<in> set (th_stream_bases h) \<and> hm_get before m = None}"
        using claimants_grown [OF assms(1), of c] by blast
      then obtain m' h' where "hm_get now m' = Some h'" "c \<in> set (th_stream_bases h')" "hm_get before m' = None"
        by blast
      then show ?thesis using mono unfolding remaining_def by blast
    next
      case ne: False
      then consider "c \<in> claim_of ` set forks" | "StreamId (fst c) \<in> set declined"
        | m' h' where "hm_get now m' = Some h'" "c \<in> set (th_stream_bases h')" "hm_get before m' = None"
        using r unfolding remaining_def by (metis image_insert insertE list.simps(15))
      then show ?thesis by cases (use mono in \<open>unfold remaining_def, blast+\<close>)
    qed
  qed
qed

lemma reconcile_loop_calls:
  assumes "logs_written X" "reconcile_loop X E resolver forks report st = (Inr report', st')"
  shows "fs_uuid_calls st \<le> fs_uuid_calls st'"
  using assms(2)
proof (induction forks arbitrary: report st)
  case (Cons f forks)
  obtain ctx where ctx: "build_fork_context X st f = Inr ctx"
    using Cons.prems by (cases "build_fork_context X st f") auto
  show ?case
  proof (cases "resolver ctx")
    case (Unresolvable reason)
    then show ?thesis using Cons.IH Cons.prems ctx by simp
  next
    case (Resolve events)
    then obtain u st1 where "write_merge_transaction X E f events st = (Inr u, st1)"
      "reconcile_loop X E resolver forks (report\<lparr>rr_resolved := rr_resolved report + 1\<rparr>) st1 = (Inr report', st')"
      using Cons.prems ctx by (auto split: prod.splits sum.splits)
    then show ?thesis using write_merge_headers [OF _ assms(1)] Cons.IH by fastforce
  qed
qed simp

lemma reconcile_loop_forks:
  assumes "logs_written X" "\<forall>t h. hm_get before t = Some h \<longrightarrow> hm_get (ix_headers (fs_index st)) t = Some h"
    and "\<forall>f \<in> set forks. set (fork_transactions f) = claimants before (claim_of f)"
    and "\<forall>c \<in> forked_claims (ix_headers (fs_index st)).
      remaining before (ix_headers (fs_index st)) forks (rr_unresolved report) c"
    and "fresh_keys X (fs_uuid_calls st) N (ix_headers (fs_index st))"
    and "reconcile_loop X E resolver forks report st = (Inr report', st')" "fs_uuid_calls st' \<le> N"
  shows "(\<forall>c \<in> forked_claims (ix_headers (fs_index st')).
        remaining before (ix_headers (fs_index st')) [] (rr_unresolved report') c)
    \<and> rr_resolved report' + length (rr_unresolved report')
        = rr_resolved report + length (rr_unresolved report) + length forks
    \<and> (\<forall>s. \<exists>later. stream_events (ix_streams (fs_index st')) s = stream_events (ix_streams (fs_index st)) s @ later)
    \<and> fs_uuid_calls st \<le> fs_uuid_calls st'"
  using assms(2-)
proof (induction forks arbitrary: report st)
  case Nil
  then show ?case by simp
next
  case (Cons f forks)
  let ?now = "ix_headers (fs_index st)"
  obtain ctx where ctx: "build_fork_context X st f = Inr ctx"
    using Cons.prems(5) by (cases "build_fork_context X st f") auto
  show ?case
  proof (cases "resolver ctx")
    case (Unresolvable reason)
    let ?report = "report\<lparr>rr_unresolved := rr_unresolved report @ [fork_stream_id f]\<rparr>"
    have run: "reconcile_loop X E resolver forks ?report st = (Inr report', st')"
      using Cons.prems(5) ctx Unresolvable by simp
    have declined: "\<forall>c \<in> forked_claims ?now. remaining before ?now forks (rr_unresolved ?report) c"
    proof
      fix c
      assume "c \<in> forked_claims ?now"
      then have "remaining before ?now (f # forks) (rr_unresolved report) c" using Cons.prems(3) by blast
      then show "remaining before ?now forks (rr_unresolved ?report) c"
        unfolding remaining_def by (auto simp: claim_of_def)
    qed
    have "\<forall>f \<in> set forks. set (fork_transactions f) = claimants before (claim_of f)" using Cons.prems(2) by simp
    from Cons.IH [OF Cons.prems(1) this declined Cons.prems(4) run Cons.prems(6)] show ?thesis by simp
  next
    case (Resolve events)
    obtain u st1 where w: "write_merge_transaction X E f events st = (Inr u, st1)"
      and run: "reconcile_loop X E resolver forks (report\<lparr>rr_resolved := rr_resolved report + 1\<rparr>) st1 = (Inr report', st')"
      using Cons.prems(5) ctx Resolve by (auto split: prod.splits sum.splits)
    let ?m = "fx_now_v7 X (fs_uuid_calls st)"
    obtain h where h: "ix_headers (fs_index st1) = hm_insert ?m h ?now" "th_parents h = fork_transactions f"
      "fs_uuid_calls st < fs_uuid_calls st1"
      "\<forall>s. \<exists>later. stream_events (ix_streams (fs_index st1)) s = stream_events (ix_streams (fs_index st)) s @ later"
      using write_merge_headers [OF w assms(1)] by blast
    have le: "fs_uuid_calls st1 \<le> fs_uuid_calls st'" by (rule reconcile_loop_calls [OF assms(1) run])
    then have room: "fs_uuid_calls st1 \<le> N" "fs_uuid_calls st < N" using Cons.prems(6) h(3) by simp_all
    have new: "hm_get ?now ?m = None" using Cons.prems(4) room(2) by (simp add: fresh_keys_def)
    have grown: "\<forall>t g. hm_get before t = Some g \<longrightarrow> hm_get (ix_headers (fs_index st1)) t = Some g"
      using Cons.prems(1) new unfolding h(1) by auto
    have forks: "\<forall>f \<in> set forks. set (fork_transactions f) = claimants before (claim_of f)"
      and f: "set (fork_transactions f) = claimants before (claim_of f)" using Cons.prems(2) by simp_all
    have rem: "\<forall>c \<in> forked_claims (ix_headers (fs_index st1)). remaining before (ix_headers (fs_index st1)) forks
        (rr_unresolved (report\<lparr>rr_resolved := rr_resolved report + 1\<rparr>)) c"
      using remaining_step [OF Cons.prems(1,3) f h(2) new] unfolding h(1) by simp
    have fresh: "fresh_keys X (fs_uuid_calls st1) N (ix_headers (fs_index st1))"
      unfolding h(1) by (rule fresh_keys_insert [OF Cons.prems(4) h(3) room(1)])
    note ih = Cons.IH [OF grown forks rem fresh run Cons.prems(6)]
    have "\<exists>later. stream_events (ix_streams (fs_index st')) s = stream_events (ix_streams (fs_index st)) s @ later" for s
      using ih h(4) by (metis append_assoc)
    then show ?thesis using ih h(3) by simp
  qed
qed

end
