(* ===== verification/Fs_Sample.thy ===== *)
theory Fs_Sample
  imports Fs_Projection Fs_Reconcile Sample_Command
begin

text \<open>
  A concrete environment of the file back end for the witnesses: a line format for headers, envelopes
  and log entries with its decoder, a clock, a file system without faults, and the small application of
  \<open>Sample_Command\<close> on it. The texts are numbers above 13 behind a letter, so a line has no newline.
\<close>

section \<open>A line format\<close>

fun dec_nat :: "rstring \<Rightarrow> nat \<times> rstring" where
  "dec_nat [] = (0, [])"
| "dec_nat (c # r) = (c - 14, r)"

definition enc_nat :: "nat \<Rightarrow> rstring" where "enc_nat n = [n + 14]"

definition enc_word :: "'a :: len word \<Rightarrow> rstring" where "enc_word w = enc_nat (unat w)"

definition dec_word :: "rstring \<Rightarrow> 'a :: len word \<times> rstring" where "dec_word l = apfst of_nat (dec_nat l)"

fun dec_many :: "(rstring \<Rightarrow> 'a \<times> rstring) \<Rightarrow> nat \<Rightarrow> rstring \<Rightarrow> 'a list \<times> rstring" where
  "dec_many d 0 l = ([], l)"
| "dec_many d (Suc n) l = (let (x, r) = d l; (xs, r') = dec_many d n r in (x # xs, r'))"

definition enc_list :: "('a \<Rightarrow> rstring) \<Rightarrow> 'a list \<Rightarrow> rstring" where
  "enc_list f xs = enc_nat (length xs) @ concat (map f xs)"

definition dec_list :: "(rstring \<Rightarrow> 'a \<times> rstring) \<Rightarrow> rstring \<Rightarrow> 'a list \<times> rstring" where
  "dec_list d l = (let (n, r) = dec_nat l in dec_many d n r)"

definition enc_header :: "transaction_header \<Rightarrow> rstring" where
  "enc_header h = enc_word (th_format_version h) @ enc_word (th_transaction_id h) @ enc_word (th_replica_id h)
     @ enc_list enc_word (th_parents h) @ enc_list enc_nat (th_created_at h)
     @ enc_list (\<lambda>(s, b). enc_list enc_nat s @ enc_word b) (th_stream_bases h)
     @ (case th_content_hash h of None \<Rightarrow> enc_nat 0 | Some s \<Rightarrow> enc_nat 1 @ enc_list enc_nat s)"

definition dec_base :: "rstring \<Rightarrow> (rstring \<times> usize) \<times> rstring" where
  "dec_base l = (let (s, r) = dec_list dec_nat l; (b, r') = dec_word r in ((s, b), r'))"

definition dec_header :: "rstring \<Rightarrow> transaction_header \<times> rstring" where
  "dec_header l =
     (let (v, l1) = dec_word l; (t, l2) = dec_word l1; (rep, l3) = dec_word l2;
          (ps, l4) = dec_list dec_word l3; (at, l5) = dec_list dec_nat l4; (bs, l6) = dec_list dec_base l5;
          (n, l7) = dec_nat l6;
          (hash, l8) = (if n = 0 then (None, l7) else apfst Some (dec_list dec_nat l7))
      in (\<lparr>th_format_version = v, th_transaction_id = t, th_replica_id = rep, th_parents = ps,
           th_created_at = at, th_stream_bases = bs, th_content_hash = hash\<rparr>, l8))"

definition enc_envelope :: "rstring event_envelope \<Rightarrow> rstring" where
  "enc_envelope e = enc_word (ee_event_id e) @ enc_list enc_nat (ee_stream_id e) @ enc_word (ee_stream_version e)
     @ enc_list enc_nat (ee_event_type e) @ enc_list enc_nat (ee_event_data e) @ enc_list enc_nat (ee_metadata e)"

definition dec_envelope :: "rstring \<Rightarrow> rstring event_envelope \<times> rstring" where
  "dec_envelope l =
     (let (i, l1) = dec_word l; (s, l2) = dec_list dec_nat l1; (v, l3) = dec_word l2;
          (ty, l4) = dec_list dec_nat l3; (d, l5) = dec_list dec_nat l4; (m, l6) = dec_list dec_nat l5
      in (\<lparr>ee_event_id = i, ee_stream_id = s, ee_stream_version = v, ee_event_type = ty, ee_event_data = d,
           ee_metadata = m\<rparr>, l6))"

fun sample_to_line :: "rstring to_line" where
  "sample_to_line (LHeader h) = Some (72 # enc_header h)"
| "sample_to_line (LEvent e) = Some (69 # enc_envelope e)"

definition sample_from_line :: "rstring from_line" where
  "sample_from_line l =
     (case l of [] \<Rightarrow> Inl []
      | c # r \<Rightarrow> if c = 72 then Inr (LHeader (fst (dec_header r)))
               else if c = 69 then Inr (LEvent (fst (dec_envelope r))) else Inl [c])"

definition sample_entry_to_line :: entry_to_line where
  "sample_entry_to_line entry = Inr (76 # enc_word (fst entry) @ enc_word (snd entry))"

definition sample_entry_from_line :: entry_from_line where
  "sample_entry_from_line l =
     (case l of [] \<Rightarrow> Inl []
      | c # r \<Rightarrow> (let (e, r1) = dec_word r; (s, r2) = dec_word r1 in Inr (e, s)))"

lemma dec_enc [simp]:
  "dec_nat (enc_nat n @ r) = (n, r)" "dec_word (enc_word w @ r) = (w, r)"
  "dec_nat (enc_nat n) = (n, [])" "dec_word (enc_word w) = (w, [])"
  by (simp_all add: enc_nat_def enc_word_def dec_word_def)

lemma dec_enc_many:
  "\<forall>x \<in> set xs. \<forall>r. d (f x @ r) = (x, r) \<Longrightarrow> dec_many d (length xs) (concat (map f xs) @ r) = (xs, r)"
  by (induction xs) simp_all

lemma dec_enc_list:
  "(\<And>x r. d (f x @ r) = (x, r)) \<Longrightarrow> dec_list d (enc_list f xs @ r) = (xs, r)"
  by (simp add: dec_list_def enc_list_def dec_enc_many)

lemma dec_enc_lists [simp]:
  "dec_list dec_nat (enc_list enc_nat s @ r) = (s, r)" "dec_list dec_word (enc_list enc_word ws @ r) = (ws, r)"
  "dec_list dec_base (enc_list (\<lambda>(s, b). enc_list enc_nat s @ enc_word b) bs @ r) = (bs, r)"
  by (simp_all add: dec_enc_list dec_base_def case_prod_unfold)

lemma dec_enc_header: "dec_header (enc_header h @ r) = (h, r)"
  by (cases "th_content_hash h") (simp_all add: dec_header_def enc_header_def)

lemma dec_enc_envelope: "dec_envelope (enc_envelope e @ r) = (e, r)"
  by (simp add: dec_envelope_def enc_envelope_def)

lemma sample_round_trip:
  "sample_to_line l = Some s \<Longrightarrow> sample_from_line s = Inr l"
  "sample_entry_to_line entry = Inr s \<Longrightarrow> sample_entry_from_line s = Inr entry"
  using dec_enc_header [of _ "[]"] dec_enc_envelope [of _ "[]"]
  by (cases l; auto simp: sample_from_line_def sample_entry_to_line_def sample_entry_from_line_def)+

definition high :: "rstring \<Rightarrow> bool" where "high l \<longleftrightarrow> (\<forall>c \<in> set l. 14 \<le> c)"

lemma high_simps [simp]:
  "high []" "high (a @ b) \<longleftrightarrow> high a \<and> high b" "high (enc_nat n)" "high (enc_word w)"
  "high (enc_list f xs) \<longleftrightarrow> (\<forall>x \<in> set xs. high (f x))"
  by (auto simp: high_def enc_nat_def enc_word_def enc_list_def)

lemma high_lines: "high (enc_header h)" "high (enc_envelope e)"
  by (auto simp: enc_header_def enc_envelope_def split: option.split)

lemma trim_marked: "\<not> is_whitespace c \<Longrightarrow> str_trim (c # l) \<noteq> []"
  by (auto simp: str_trim_def dropWhile_eq_Nil_conv)

lemma high_one_line:
  assumes "high l" "c \<in> {69, 72, 76}"
  shows "one_line (c # l)"
proof -
  have "\<not> is_whitespace c" "c \<noteq> 10" "c \<noteq> 13" using assms(2) by (auto simp: is_whitespace_def)
  moreover have "10 \<notin> set l" using assms(1) by (auto simp: high_def)
  moreover have "l \<noteq> [] \<longrightarrow> last l \<noteq> 13" using assms(1) last_in_set [of l] unfolding high_def by fastforce
  ultimately show ?thesis by (simp add: one_line_def strip_cr_def trim_marked)
qed

lemma sample_serde: "serde_laws sample_to_line sample_from_line" "entry_laws sample_entry_to_line sample_entry_from_line"
  unfolding serde_laws_def entry_laws_def
proof (safe)
  fix l s
  assume l: "sample_to_line l = Some s"
  show "one_line s" using l by (cases l) (auto intro!: high_one_line high_lines)
  show "sample_from_line s = Inr l" by (rule sample_round_trip(1) [OF l])
next
  fix a b s
  assume e: "sample_entry_to_line (a, b) = Inr s"
  show "one_line s" using e by (auto simp: sample_entry_to_line_def intro!: high_one_line)
  show "sample_entry_from_line s = Inr (a, b)" by (rule sample_round_trip(2) [OF e])
qed

section \<open>The environment\<close>

definition enc_versions :: "(stream_id \<times> stream_version) list \<Rightarrow> rstring" where
  "enc_versions = enc_list (\<lambda>(sid, v). enc_list enc_nat (sid_str sid) @ enc_word v)"

definition dec_versions :: "rstring \<Rightarrow> (stream_id \<times> stream_version) list \<times> rstring" where
  "dec_versions = dec_list (\<lambda>l. let ((s, v), r) = dec_base l in ((StreamId s, v), r))"

definition enc_snapshot :: "nat command_state_snapshot \<Rightarrow> rstring" where
  "enc_snapshot s = enc_nat (snap_state s) @ enc_versions (snap_stream_versions s)
     @ enc_list (\<lambda>c. enc_list enc_nat (sid_str (rc_stream_id c)) @ enc_nat (rc_state c)
         @ enc_versions (rc_stream_versions c)) (snap_checkpoints s)"

definition dec_checkpoint :: "rstring \<Rightarrow> nat replay_checkpoint \<times> rstring" where
  "dec_checkpoint l =
     (let (s, l1) = dec_list dec_nat l; (n, l2) = dec_nat l1; (vs, l3) = dec_versions l2
      in (\<lparr>rc_stream_id = StreamId s, rc_state = n, rc_stream_versions = vs\<rparr>, l3))"

definition dec_snapshot :: "rstring \<Rightarrow> nat command_state_snapshot option" where
  "dec_snapshot l =
     (let (n, l1) = dec_nat l; (vs, l2) = dec_versions l1; (cs, l3) = dec_list dec_checkpoint l2
      in if l3 = [] then Some \<lparr>snap_state = n, snap_stream_versions = vs, snap_checkpoints = cs\<rparr> else None)"

lemma dec_enc_versions [simp]: "dec_versions (enc_versions vs @ r) = (vs, r)"
  unfolding dec_versions_def enc_versions_def by (rule dec_enc_list) (simp add: dec_base_def case_prod_unfold)

lemma dec_enc_snapshot: "dec_snapshot (enc_snapshot s) = Some s"
proof -
  have "dec_list dec_checkpoint (enc_list (\<lambda>c. enc_list enc_nat (sid_str (rc_stream_id c)) @ enc_nat (rc_state c)
         @ enc_versions (rc_stream_versions c)) cs @ r) = (cs, r)" for cs r
    by (rule dec_enc_list) (simp add: dec_checkpoint_def)
  from this [where r = "[]"] show ?thesis by (simp add: dec_snapshot_def enc_snapshot_def)
qed

definition sample_io :: io_step where
  "sample_io = \<lparr>io_mkdir = (\<lambda>_. None), io_read_dir = None, io_entry = (\<lambda>_. None),
     io_try_lock = (\<lambda>_. LockAcquired), io_not_found = [], io_read = (\<lambda>_. None), io_write = (\<lambda>_. Written),
     io_file = NoFault, io_log = Written\<rparr>"

definition sample_value :: "rstring \<Rightarrow> rstring + deposit" where
  "sample_value v = (case v of [] \<Rightarrow> Inl [] | n # s \<Rightarrow> Inr (StreamId s, n))"

definition sample_parse_uuid :: "rstring \<Rightarrow> rstring + uuid" where
  "sample_parse_uuid s = (if length s = 3 then Inr (of_nat (s ! 1)) else Inl s)"

definition sample_env :: "(rstring, deposit, nat) fs_env" where
  "sample_env = \<lparr>fx_to_line = sample_to_line, fx_from_line = sample_from_line, fx_sha256 = map of_nat,
     fx_entry_to_line = sample_entry_to_line, fx_entry_from_line = sample_entry_from_line,
     fx_parse_value = Some, fx_from_value = sample_value, fx_to_value = (\<lambda>(sid, n). Inr (n # sid_str sid)),
     fx_no_metadata = [], fx_snapshot_to_json = (\<lambda>s. Some (enc_snapshot s)), fx_snapshot_from_json = dec_snapshot,
     fx_show_uuid = (\<lambda>t. [65, unat t, 66]), fx_parse_uuid = sample_parse_uuid, fx_show_name = (\<lambda>_. []),
     fx_show_error = (\<lambda>_. []), fx_glob_compile = (\<lambda>p. Some (\<lambda>s. s = p)), fx_now_v7 = (\<lambda>n. of_nat (Suc n)),
     fx_created_at = (\<lambda>n. [n]), fx_io = (\<lambda>_. sample_io)\<rparr>"

definition empty_disk :: disk where
  "empty_disk = \<lparr>dk_root = [], dk_events = [], dk_tmp = [], dk_eventcore = [], dk_snapshots = [], dk_index = []\<rparr>"

definition empty_index :: "rstring index" where
  "empty_index = \<lparr>ix_headers = [], ix_by_ingestion = [], ix_streams = [], ix_tips = [],
     ix_log = \<lparr>seq_by_event = [], next_seq = 1\<rparr>, ix_integrity_failures = []\<rparr>"

text \<open>A fresh store of the replica \<open>rep\<close> whose clock has been read \<open>n\<close> times.\<close>

definition empty_store :: "uuid \<Rightarrow> nat \<Rightarrow> rstring fs_store" where
  "empty_store rep n = \<lparr>fs_roots = roots_new [47], fs_replica_id = rep, fs_config = config_new [47],
     fs_index = empty_index, fs_poisoned = False, fs_disk = empty_disk, fs_uuid_calls = n, fs_io_calls = 0\<rparr>"

lemma sample_laws:
  "value_laws sample_env deposit_event" "snapshot_laws sample_env" "logs_written sample_env" "file_laws sample_env"
proof -
  show "value_laws sample_env deposit_event"
    by (auto simp: value_laws_def sample_env_def deposit_event_def sample_value_def)
  show "snapshot_laws sample_env" by (auto simp: snapshot_laws_def sample_env_def dec_enc_snapshot)
  show "logs_written sample_env"
    by (auto simp: logs_written_def log_writable_def sample_env_def sample_io_def sample_entry_to_line_def)
  have "str_trim [65, n, 66] = [65, n, 66]" for n by (simp add: str_trim_def is_whitespace_def)
  then have "uuid_laws sample_env"
    by (auto simp: uuid_laws_def sample_env_def sample_parse_uuid_def inj_on_def word_unat_eq_iff)
  then show "file_laws sample_env" using sample_serde by (simp add: file_laws_def sample_env_def)
qed

lemma sample_clock_fresh: "n \<le> 2 ^ 64 \<Longrightarrow> inj_on (fx_now_v7 sample_env) {k ..< n}"
proof (rule inj_onI)
  fix x y
  assume n: "n \<le> 2 ^ 64" and xy: "x \<in> {k ..< n}" "y \<in> {k ..< n}" "fx_now_v7 sample_env x = fx_now_v7 sample_env y"
  have "Suc x < 2 ^ 128" "Suc y < 2 ^ 128" using n xy(1,2) by simp_all
  then have "unat (of_nat (Suc x) :: uuid) = Suc x" "unat (of_nat (Suc y) :: uuid) = Suc y"
    by (simp_all add: unsigned_of_nat take_bit_nat_eq_self del: of_nat_Suc)
  moreover have "(of_nat (Suc x) :: uuid) = of_nat (Suc y)" using xy(3) by (simp add: sample_env_def)
  ultimately show "x = y" by (metis nat.inject)
qed

lemma no_transactions:
  "headers_map [] = []" "canonical_events [] = []" "compute_tips [] = []" "all_parents [] = {}" "all_events [] = []"
  "acyclic_headers []" "graph_ok []"
proof -
  have "parent_rel [] = {}" by (auto simp: parent_rel_def parents_of_def)
  then show a: "acyclic_headers []" by (simp add: acyclic_headers_def acyclic_def)
  show h: "headers_map [] = []" by (simp add: headers_map_def)
  have "canonical_order [] = []" by (simp add: canonical_order_def)
  then show "canonical_events [] = []" by (simp only: canonical_events_def h list.map concat.simps)
  show "compute_tips [] = []" "all_parents [] = {}" "all_events [] = []"
    by (simp_all add: compute_tips_def all_parents_def all_events_def)
  show "graph_ok []" using a by (simp add: graph_ok_def headers_map_def all_events_def)
qed

lemma empty_store_agrees:
  assumes "N \<le> 2 ^ 64"
  shows "fs_agrees sample_env N [] (empty_store rep n)"
proof -
  have lg: "log_wf \<lparr>seq_by_event = [], next_seq = 1\<rparr>" "seq_of \<lparr>seq_by_event = [], next_seq = 1\<rparr> = (\<lambda>_. None)"
    by (simp_all add: log_wf_def seq_of_def fun_eq_iff)
  have "index_of [] empty_index"
    by (simp add: index_of_def no_transactions empty_index_def lg of_stream_def stream_events_def)
  moreover have "log_file (fx_entry_from_line sample_env) [] (ix_log empty_index)"
    unfolding log_file_def by (rule exI [of _ "[]"]) (simp add: empty_index_def)
  moreover have "fresh_ids sample_env n N [] (ix_log empty_index)"
    using sample_clock_fresh [OF assms] by (simp add: fresh_ids_def known_ids_def no_transactions empty_index_def lg)
  ultimately show ?thesis
    by (simp add: fs_agrees_def synced_to_def empty_store_def empty_disk_def dir_txs_def log_contents_def log_of_def
        readable_def no_transactions)
qed

lemma empty_store_synced: "N \<le> 2 ^ 64 \<Longrightarrow> fs_synced sample_env deposit_event N (empty_store rep n)"
  using empty_store_agrees sample_laws unfolding fs_synced_def by blast

end
