(* ===== verification/Fs_Store_Properties.thy ===== *)
theory Fs_Store_Properties
  imports Fs_Sample Fs_Converge
begin

text \<open>
  The properties of the file back end's store: the executor on it, what an append does on every path,
  reopening, and the agreement of replicas that hold the same files.
\<close>

section \<open>Helpers\<close>

lemma typed_command_entries:
  assumes "typed_command E c"
  shows "good_command (typed_entry E) c"
  unfolding good_command_def
proof (intro allI impI ballI)
  fix s events ex w en
  assume b: "build_stream_writes (cmd_event c) events ex = Inr w" and en: "en \<in> set (entries w)"
  have "cmd_event c = E" using assms by (simp add: typed_command_def)
  then show "typed_entry E en" using build_stream_writes_typed(1) [OF b] en by blast
qed

section \<open>Properties\<close>

text \<open>
  C16. Serializability of \<open>execute\<close> on the file store, with or without a state snapshot, whatever other
  writers commit at its await points and whichever writes to the disk fail, theirs or its own, the
  ingestion log's included: when it returns a response, there is a moment at which its whole read was consistent with the store and its events, and only
  they, were appended at exactly that moment; the attempts stay within the policy.
\<close>

theorem file_execute_serializable:
  assumes "fs_inv X E st" "typed_command E c" "wf_declarations (cmd_declarations c)" "faithful_serialization c"
    and "\<forall>i. cmd_snapshot_id c = Some i \<longrightarrow> genuine_stored (fs_view X) (fs_stored X) c i st"
    and "good_schedule (typed_entry E) sched" "rp_max_retries policy \<noteq> - 1"
    and "execute (fs_ops X) sched jitter fuel c policy st = Some (ExecOk resp, hooks, st')"
    and "small (fs_view X st')"
  shows "fs_inv X E st' \<and> 1 \<le> unat (er_attempts resp)
    \<and> unat (er_attempts resp) \<le> Suc (unat (rp_max_retries policy))
    \<and> (\<exists>v ids s events. extends (fs_view X st) v \<and> commits c v (fs_view X st') ids s events)"
proof -
  have "fs_snap.runnable X E c st"
    using assms(1-5) typed_command_entries by (simp add: fs_snap.runnable_def)
  from fs_snap.execute_sound [OF this assms(6-9)] show ?thesis by simp
qed

definition file_run ::
  "(unit exec_result \<times> retry_context list \<times> rstring fs_store) option" where
  "file_run = execute (fs_ops sample_env) rival_schedule (\<lambda>_ d. d) 12 snapshot_command sample_policy (empty_store 7 0)"

lemma file_run_result:
  "file_run = Some (ExecOk \<lparr>er_attempts = 2\<rparr>, fst (snd (the file_run)), snd (snd (the file_run)))"
proof (rule some_the)
  show "file_run \<noteq> None" "fst (the file_run) = ExecOk \<lparr>er_attempts = 2\<rparr>" by code_simp+
qed

lemma empty_store_inv: "fs_inv sample_env deposit_event (empty_store rep n)"
  using sample_laws by (simp add: fs_inv_def empty_store_def empty_index_def stream_events_def)

lemma sample_schedule_typed: "good_schedule (typed_entry deposit_event) rival_schedule"
  by (simp add: good_schedule_def rival_schedule_def good_batch_def wf_writes_def typed_entry_def sample_defs)

lemma small_view:
  assumes "list_all (\<lambda>(k, xs). length xs < 2 ^ 64) (ix_streams (fs_index st))"
  shows "small (fs_view X st)"
  unfolding small_def
proof
  fix sid
  show "length (fs_view X st sid) < 2 ^ 64"
    using assms by (auto simp: fs_view_def stream_events_def list_all_iff split: option.split dest!: map_of_SomeD)
qed

lemma file_run_small: "small (fs_view sample_env (snd (snd (the file_run))))"
proof (rule small_view)
  have "list_all (\<lambda>(k, xs). length xs < 9) (ix_streams (fs_index (snd (snd (the file_run)))))" by code_simp
  then show "list_all (\<lambda>(k, xs). length xs < 2 ^ 64) (ix_streams (fs_index (snd (snd (the file_run)))))"
    by (auto simp: list_all_iff)
qed

theorem file_execute_serializable_witness:
  "\<exists>v ids s events. extends (fs_view sample_env (empty_store 7 0)) v
     \<and> commits snapshot_command v (fs_view sample_env (snd (snd (the file_run)))) ids s events"
proof -
  have decl: "wf_declarations (cmd_declarations snapshot_command)"
    by (simp add: wf_declarations_def snapshot_command_def deposit_command_def)
  have fresh: "\<forall>i. cmd_snapshot_id snapshot_command = Some i \<longrightarrow>
      genuine_stored (fs_view sample_env) (fs_stored sample_env) snapshot_command i (empty_store 7 0)"
    by (simp add: genuine_stored_def fs_stored_def empty_store_def empty_disk_def)
  note ex = file_execute_serializable [OF empty_store_inv snapshot_command_typed decl sample_serialization fresh
      sample_schedule_typed sample_policy_retries file_run_result [unfolded file_run_def] file_run_small [unfolded file_run_def]]
  show ?thesis using ex unfolding file_run_def by (elim conjE)
qed

text \<open>
  C18. What \<open>append_events\<close> on the file store does on every path. A success extends every stream by exactly
  its events of the batch, adds their transaction file and, if there are any, happened at the expected
  versions. An error is one of three: a conflict with a stream's real version, or a storage failure because
  a line does not serialise or the transaction file cannot be written, both of which leave the index and
  the transaction files untouched; or a failing write of the ingestion log, which is reported although
  the batch matched the versions and its events are in the index and in their transaction file. So a
  batch against the current versions whose lines serialise and whose file is written is in the store, and
  reported as such exactly where the log can be written.
\<close>

theorem file_append_outcomes:
  assumes "fs_inv X E st" "\<forall>en \<in> set (entries w). typed_entry E en" "fs_append_events X st w = (r, st')"
  shows "fs_inv X E st'
    \<and> (case r of
      Inr _ \<Rightarrow> (entries w \<noteq> [] \<longrightarrow> versions_match (fs_view X) st w \<and> file_added X st st')
        \<and> fs_view X st' = (\<lambda>sid. fs_view X st sid @ events_for (entries w) sid)
    | Inl e \<Rightarrow>
        (fs_index st' = fs_index st \<and> dk_events (fs_disk st') = dk_events (fs_disk st)
         \<and> (e = StoreFailure AppendEvents \<and> ((\<exists>l. fx_to_line X l = None) \<or> io_file (now_io X st) \<noteq> NoFault)
            \<or> (\<exists>(sid, v) \<in> set (expected_versions w). e = VersionConflict sid v (vlen (fs_view X st sid))
                 \<and> v \<noteq> vlen (fs_view X st sid))))
      \<or> (e = StoreFailure AppendEvents \<and> \<not> log_writable X (Suc (fs_io_calls st)) \<and> versions_match (fs_view X) st w
         \<and> file_added X st st' \<and> fs_view X st' = (\<lambda>sid. fs_view X st sid @ events_for (entries w) sid)))
    \<and> (versions_match (fs_view X) st w \<longrightarrow> (\<forall>l. fx_to_line X l \<noteq> None) \<longrightarrow> io_file (now_io X st) = NoFault
         \<longrightarrow> fs_view X st' = (\<lambda>sid. fs_view X st sid @ events_for (entries w) sid)
           \<and> (log_writable X (Suc (fs_io_calls st)) \<longrightarrow> r = Inr ()))"
proof -
  have parses: "fx_parse_value X (we_event_data en) \<noteq> None" if "en \<in> set (entries w)" for en
    using assms(1,2) that by (fastforce simp: fs_inv_def typed_entry_def value_laws_def)
  then have faults: "append_faults X st w \<longleftrightarrow> (\<exists>l. fx_to_line X l = None) \<or> io_file (now_io X st) \<noteq> NoFault"
    by (fastforce simp: append_faults_def)
  note out = fs_append_histories [OF assms]
  show ?thesis
  proof (cases r)
    case (Inr u)
    then show ?thesis using out by simp
  next
    case (Inl e)
    have stale: "\<not> versions_match (fs_view X) st w"
      if "\<exists>(sid, v) \<in> set (expected_versions w). e = VersionConflict sid v (vlen (fs_view X st sid))
        \<and> v \<noteq> vlen (fs_view X st sid)"
      using that by (auto simp: versions_match_def)
    from out Inl consider
        (log) "e = StoreFailure AppendEvents" "\<not> log_writable X (Suc (fs_io_calls st))" "versions_match (fs_view X) st w"
          "file_added X st st'" "fs_view X st' = (\<lambda>sid. fs_view X st sid @ events_for (entries w) sid)"
      | (kept) "fs_index st' = fs_index st" "dk_events (fs_disk st') = dk_events (fs_disk st)"
          "e = StoreFailure AppendEvents \<and> append_faults X st w
            \<or> (\<exists>(sid, v) \<in> set (expected_versions w). e = VersionConflict sid v (vlen (fs_view X st sid))
                 \<and> v \<noteq> vlen (fs_view X st sid))" by auto
    then show ?thesis
    proof cases
      case log
      then show ?thesis using out Inl by simp
    next
      case kept
      have "\<not> (versions_match (fs_view X) st w \<and> (\<forall>l. fx_to_line X l \<noteq> None) \<and> io_file (now_io X st) = NoFault)"
        using kept(3) stale unfolding faults by blast
      then show ?thesis using conjunct1 [OF out] Inl kept(1,2) kept(3) [unfolded faults] by (simp del: not_None_eq) blast
    qed
  qed
qed

text \<open>The sample store on a disk whose ingestion log cannot be opened.\<close>

definition no_log_env :: "(rstring, deposit, nat) fs_env" where
  "no_log_env = sample_env\<lparr>fx_io := \<lambda>_. sample_io\<lparr>io_log := OpenFailed []\<rparr>\<rparr>"

lemma no_log_inv: "fs_inv no_log_env deposit_event (empty_store rep n)"
proof -
  have "decodable no_log_env = decodable sample_env"
    by (simp add: fun_eq_iff decodable_def decoded_def no_log_env_def)
  then show ?thesis
    using empty_store_inv [of rep n]
    by (simp add: fs_inv_def value_laws_def snapshot_laws_def no_log_env_def)
qed

lemma rival_typed: "\<forall>en \<in> set (entries rival_batch). typed_entry deposit_event en"
  by (simp add: typed_entry_def sample_defs)

lemma empty_store_match: "versions_match (fs_view X) (empty_store 7 0) rival_batch"
  by (simp add: versions_match_def fs_view_def empty_store_def empty_index_def stream_events_def rival_batch_def vlen_def)

lemma sample_lines: "fx_to_line sample_env l \<noteq> None" "fx_to_line no_log_env l \<noteq> None"
  by (cases l; simp add: sample_env_def no_log_env_def)+

text \<open>The batch is in the store in either case; where the log cannot be written, the caller is told it failed.\<close>

theorem file_append_outcomes_witness:
  "fst (fs_append_events sample_env (empty_store 7 0) rival_batch) = Inr ()
   \<and> fs_view sample_env (snd (fs_append_events sample_env (empty_store 7 0) rival_batch)) account_a = [(account_a, 7)]
   \<and> fst (fs_append_events no_log_env (empty_store 7 0) rival_batch) = Inl (StoreFailure AppendEvents)
   \<and> fs_view no_log_env (snd (fs_append_events no_log_env (empty_store 7 0) rival_batch)) account_a = [(account_a, 7)]"
proof -
  have current: "fs_view X (empty_store 7 0) account_a = []" for X :: "(rstring, deposit, nat) fs_env"
    by (simp add: fs_view_def empty_store_def empty_index_def stream_events_def)
  have batch: "events_for (entries rival_batch) account_a = [(account_a, 7)]"
    by (simp add: events_for_def sample_defs)
  have quiet: "io_file (now_io sample_env (empty_store 7 0)) = NoFault" "io_file (now_io no_log_env (empty_store 7 0)) = NoFault"
    "log_writable sample_env (Suc (fs_io_calls (empty_store 7 0)))"
    using sample_laws(3) by (simp_all add: now_io_def no_log_env_def sample_env_def sample_io_def logs_written_def)
  note lines = allI [OF sample_lines(1)] allI [OF sample_lines(2)]
  note sample = mp [OF mp [OF mp [OF conjunct2 [OF conjunct2 [OF file_append_outcomes
      [OF empty_store_inv rival_typed prod.collapse [symmetric], of 7 0]]] empty_store_match] lines(1)] quiet(1)]
  note broken = mp [OF mp [OF mp [OF conjunct2 [OF conjunct2 [OF file_append_outcomes
      [OF no_log_inv rival_typed prod.collapse [symmetric], of 7 0]]] empty_store_match] lines(2)] quiet(2)]
  have "fst (fs_append_events no_log_env (empty_store 7 0) rival_batch) = Inl (StoreFailure AppendEvents)" by code_simp
  then show ?thesis
    using fun_cong [OF conjunct1 [OF sample], of account_a] mp [OF conjunct2 [OF sample] quiet(3)]
      fun_cong [OF conjunct1 [OF broken], of account_a]
    by (simp only: current batch append_Nil simp_thms)
qed

text \<open>
  C17. A restart loses nothing and moves no cursor: opening a store whose transaction files are those
  of a running one, in whatever order the directory lists them, beside its ingestion log, and where no
  call of the file system fails, gives an index with the same streams, the same positions in the same
  order, the same tips and the same headers, and writes neither files nor log.
\<close>

theorem reopened_store_same:
  assumes "fs_synced X E N st" "quiet_io (fx_io X n)" "identity_ok X c d"
    and "hm_same (dk_events (fs_disk st)) (dk_events d)" "dk_index d = dk_index (fs_disk st)"
    and "unat (next_seq (ix_log (fs_index st))) + length (ix_by_ingestion (fs_index st)) < 2 ^ 64"
  shows "\<exists>st' d'. fs_open_with_config X wc c u n d = Some (Inr st', d') \<and> same_index (fs_index st) (fs_index st')
    \<and> fs_view X st' = fs_view X st \<and> dk_events d' = dk_events d \<and> log_of d' = log_of d"
proof -
  obtain txs where "synced_to X txs (dk_events (fs_disk st)) (log_contents st) (fs_index st)"
    and laws: "file_laws X" "logs_written X"
    using assms(1) unfolding fs_synced_def fs_agrees_def by blast
  moreover have "log_of d = log_contents st" using assms(5) by (simp add: log_contents_def log_of_def)
  ultimately obtain st' d' where o: "fs_open_with_config X wc c u n d = Some (Inr st', d')"
    "same_index (fs_index st) (fs_index st')" "dk_events d' = dk_events d" "log_of d' = log_of d"
    using reopen_same [OF laws assms(2,3) _ assms(4) _ assms(6)] by metis
  then have "fs_view X st' = fs_view X st" by (simp add: fun_eq_iff fs_view_def same_index_def)
  then show ?thesis using o by blast
qed

definition one_batch_store :: "rstring fs_store" where
  "one_batch_store = snd (fs_append_events sample_env (empty_store 7 0) rival_batch)"

lemma one_batch_synced: "fs_synced sample_env deposit_event 100 one_batch_store"
proof -
  let ?r = "fs_append_events sample_env (empty_store 7 0) rival_batch"
  have calls: "fs_uuid_calls (snd ?r) \<le> 100" by code_simp
  have room: "unat (next_seq (ix_log (fs_index (empty_store 7 0)))) + length (entries rival_batch) < 2 ^ 64"
    by (simp add: empty_store_def empty_index_def rival_batch_def)
  have typed: "\<forall>en \<in> set (entries rival_batch). typed_entry deposit_event en"
    by (simp add: typed_entry_def sample_defs)
  have "fs_synced sample_env deposit_event 100 (empty_store 7 0)" by (rule empty_store_synced) simp
  from append_step_synced [OF this prod.collapse [symmetric] typed calls room]
  show ?thesis unfolding one_batch_store_def by (rule conjunct1)
qed

lemma one_batch_facts:
  "dk_eventcore (fs_disk one_batch_store) = []" "hm_wf (dk_events (fs_disk one_batch_store))"
  "next_seq (ix_log (fs_index one_batch_store)) = 2" "length (ix_by_ingestion (fs_index one_batch_store)) = 1"
  unfolding one_batch_store_def by code_simp+

lemma sample_quiet: "quiet_io (fx_io sample_env n)"
  by (simp add: quiet_io_def reads_work_def sample_env_def sample_io_def)

definition sample_copy :: working_copy where
  "sample_copy = \<lparr>wc_machine_files = [FileContents [109]], wc_hostname = None, wc_canonical_path = Inr [47],
     wc_git_inode = None\<rparr>"

theorem reopened_store_same_witness:
  "\<exists>st' d'. fs_open_with_config sample_env sample_copy (config_new [47]) 9 9 (fs_disk one_batch_store) = Some (Inr st', d')
     \<and> fs_view sample_env st' = fs_view sample_env one_batch_store"
proof -
  have "identity_ok sample_env (config_new [47]) (fs_disk one_batch_store)"
    by (simp add: identity_ok_def one_batch_facts)
  moreover have "unat (next_seq (ix_log (fs_index one_batch_store))) + length (ix_by_ingestion (fs_index one_batch_store))
      < 2 ^ 64" by (simp add: one_batch_facts)
  ultimately show ?thesis
    using reopened_store_same [OF one_batch_synced sample_quiet, where d = "fs_disk one_batch_store"] one_batch_facts(2)
    by (metis hm_same_refl)
qed

end
