(* ===== verification/Fs_Graph_Properties.thy ===== *)
theory Fs_Graph_Properties
  imports Fs_Sample
begin

text \<open>
  The properties of the file back end's transaction graph and files: the canonical order, fork
  detection and the format of a transaction file.
\<close>

section \<open>Sample headers\<close>

definition sample_header :: "uuid \<Rightarrow> uuid \<Rightarrow> uuid list \<Rightarrow> (rstring \<times> usize) list \<Rightarrow> transaction_header" where
  "sample_header t replica parents bases =
     \<lparr>th_format_version = format_version, th_transaction_id = t, th_replica_id = replica, th_parents = parents,
       th_created_at = [50], th_stream_bases = bases, th_content_hash = None\<rparr>"

text \<open>A first transaction and two concurrent ones of different replicas on the same base of one stream.\<close>

definition forked_headers :: headers where
  "forked_headers =
     [(3, sample_header 3 8 [1] [([97], 1)]), (1, sample_header 1 7 [] [([97], 0)]),
      (2, sample_header 2 7 [1] [([97], 1)])]"

lemma hm_get_iff: "hm_wf m \<Longrightarrow> hm_get m k = Some v \<longleftrightarrow> (k, v) \<in> set m"
  by (simp add: hm_get_in [symmetric])

lemma parent_rel_list:
  "hm_wf headers \<Longrightarrow> parent_rel headers = {(p, t). \<exists>h. (t, h) \<in> set headers \<and> p \<in> set (th_parents h)}"
  by (force simp: parent_rel_def parents_of_def hm_get_iff split: option.splits)

lemma forked_headers_acyclic: "acyclic_headers forked_headers" "hm_wf forked_headers"
proof -
  show wf: "hm_wf forked_headers" by (simp add: forked_headers_def)
  have "parent_rel forked_headers \<subseteq> measure unat"
    unfolding parent_rel_list [OF wf] by (auto simp: forked_headers_def sample_header_def)
  then show "acyclic_headers forked_headers"
    unfolding acyclic_headers_def by (rule acyclic_subset [OF wf_acyclic [OF wf_measure]])
qed

lemma forked_headers_wf: "wf_headers forked_headers"
  by (auto simp: wf_headers_def forked_headers_def sample_header_def stream_id_try_new_def validated_text_def
      no_glob_metacharacters_def str_trim_def is_whitespace_def Let_def)

section \<open>Properties\<close>

text \<open>
  C22. The search of \<open>is_ancestor\<close> over the parent links ends on every graph, cyclic or with dangling
  parents, and finds exactly the ancestors: a transaction is one when a chain of one or more parent
  links leads to it.
\<close>

theorem ancestry_search_exact:
  shows "is_ancestor a t headers \<longleftrightarrow> (a, t) \<in> (parent_rel headers)\<^sup>+"
  by (rule is_ancestor_iff)

text \<open>
  C19. The canonical order exists and is the same in every replica: over an acyclic graph \<open>linearize\<close>
  returns, lists every transaction once and none before one of its ancestors, and any other map with
  the same headers, whatever its iteration order, gives the same list.
\<close>

theorem canonical_order_replicated:
  assumes "acyclic_headers headers" "hm_wf headers"
  shows "\<exists>order. linearize headers = Some order \<and> distinct order \<and> set order = fst ` set headers
    \<and> sorted_wrt (\<lambda>t u. \<not> ancestor headers u t) order
    \<and> (\<forall>other. hm_same headers other \<longrightarrow> linearize other = Some order)"
proof (intro exI [of _ "canonical_order headers"] conjI allI impI)
  fix other :: headers
  assume same: "hm_same headers other"
  then have eq: "hm_get headers = hm_get other" "hm_wf other" unfolding hm_same_def by blast+
  have "acyclic_headers other" using acyclic_same [OF eq(1)] assms(1) by blast
  then show "linearize other = Some (canonical_order headers)"
    unfolding canonical_order_same [OF same] by (rule linearize_spec [OF _ eq(2)])
next
  show "linearize headers = Some (canonical_order headers)" by (rule linearize_spec [OF assms])
  show "distinct (canonical_order headers)" by (rule canonical_order_distinct [OF assms(2)])
  show "set (canonical_order headers) = fst ` set headers" by (rule canonical_order_set)
  show "sorted_wrt (\<lambda>t u. \<not> ancestor headers u t) (canonical_order headers)"
    by (rule canonical_order_parents_first [OF assms(1)])
qed

theorem canonical_order_replicated_witness:
  "linearize forked_headers = Some [1, 2, 3] \<and> linearize (rev forked_headers) = Some [1, 2, 3]
   \<and> sorted_wrt (\<lambda>t u. \<not> ancestor forked_headers u t) [1, 2, 3]"
proof -
  have "linearize forked_headers = Some [1, 2, 3]" by code_simp
  moreover have "hm_same forked_headers (rev forked_headers)"
    using forked_headers_acyclic(2) by (simp add: hm_same_def) (auto simp: forked_headers_def)
  ultimately show ?thesis using canonical_order_replicated [OF forked_headers_acyclic] by auto
qed

text \<open>
  C20. Fork detection against its specification: either two concurrent transactions carry the same
  replica identity and the conflict names such a pair, or there is none and the forks are exactly the
  claims (a stream and a base version) that two or more transactions made and no transaction descends
  from all of, in the order of the claims, each with all its claimants in order.
\<close>

theorem forks_detected:
  assumes "wf_headers headers"
  shows "case detect_forks_in show_name headers of
      Inr forks \<Rightarrow> replicas_linear headers \<and> forks = fork_spec headers
    | Inl e \<Rightarrow> \<exists>t u r h g. e = ReplicaIdentityConflict t u r \<and> t < u \<and> concurrent headers t u
        \<and> hm_get headers t = Some h \<and> hm_get headers u = Some g \<and> th_replica_id h = r \<and> th_replica_id g = r"
  by (rule detect_forks_spec [OF assms])

theorem forks_detected_witness:
  "detect_forks_in (\<lambda>_. []) forked_headers
     = Inr [\<lparr>fork_stream_id = StreamId [97], fork_base_version = 1, fork_transactions = [2, 3]\<rparr>]
   \<and> fork_spec forked_headers
     = [\<lparr>fork_stream_id = StreamId [97], fork_base_version = 1, fork_transactions = [2, 3]\<rparr>]"
proof -
  have "detect_forks_in (\<lambda>_. []) forked_headers
     = Inr [\<lparr>fork_stream_id = StreamId [97], fork_base_version = 1, fork_transactions = [2, 3]\<rparr>]" by code_simp
  then show ?thesis using forks_detected [OF forked_headers_wf, of "\<lambda>_. []"] by simp
qed

text \<open>
  C21. A transaction file is self-describing and tamper-evident: what \<open>serialize_transaction\<close> writes
  loads back as the same header, anchored to its payload, and the same envelopes; and the file with
  any other payload whose hash differs loads as an integrity failure of that transaction, never as
  events.
\<close>

theorem transaction_file_round_trip:
  assumes "serde_laws to_line from_line" "serialize_transaction to_line sha256 h events = Inr body"
  shows "(\<exists>anchor. \<forall>path. load_transaction from_line sha256 path (FileContents body)
      = Inr (Valid (h\<lparr>th_content_hash := Some anchor\<rparr>) events))
    \<and> (\<exists>header_line payload. body = header_line @ 10 # payload \<and> 10 \<notin> set header_line
        \<and> (\<forall>other path. sha256 other \<noteq> sha256 payload \<longrightarrow>
             (\<exists>detail. load_transaction from_line sha256 path (FileContents (header_line @ 10 # other))
                = Inr (Integrity (th_transaction_id h) detail))))"
proof
  show "\<exists>anchor. \<forall>path. load_transaction from_line sha256 path (FileContents body)
      = Inr (Valid (h\<lparr>th_content_hash := Some anchor\<rparr>) events)" by (rule load_serialized [OF assms])
  obtain ls header_line where b: "to_line (LHeader (h\<lparr>th_content_hash := Some (content_hash sha256 (join_lines ls @ [10]))\<rparr>))
      = Some header_line" "body = header_line @ 10 # (join_lines ls @ [10])"
    by (rule serialize_transaction_shape [OF assms(2)])
  have line: "10 \<notin> set header_line" using assms(1) b(1) by (auto simp: serde_laws_def one_line_def)
  have hash: "content_hash sha256 a \<noteq> content_hash sha256 b" if "sha256 a \<noteq> sha256 b" for a b
    using that hex_bytes_inj by (auto simp: content_hash_def)
  show "\<exists>header_line payload. body = header_line @ 10 # payload \<and> 10 \<notin> set header_line
        \<and> (\<forall>other path. sha256 other \<noteq> sha256 payload \<longrightarrow>
             (\<exists>detail. load_transaction from_line sha256 path (FileContents (header_line @ 10 # other))
                = Inr (Integrity (th_transaction_id h) detail)))"
    using b(2) line load_tampered [OF assms b(2) line] hash by blast
qed

definition sample_envelope :: "rstring event_envelope" where
  "sample_envelope = \<lparr>ee_event_id = 9, ee_stream_id = [97], ee_stream_version = 1, ee_event_type = [68],
     ee_event_data = [7, 97], ee_metadata = []\<rparr>"

theorem transaction_file_round_trip_witness:
  "\<exists>body. serialize_transaction sample_to_line (map of_nat) (sample_header 1 7 [] [([97], 0)]) [sample_envelope] = Inr body
     \<and> (\<exists>anchor. load_transaction sample_from_line (map of_nat) [] (FileContents body)
          = Inr (Valid ((sample_header 1 7 [] [([97], 0)])\<lparr>th_content_hash := Some anchor\<rparr>) [sample_envelope]))"
proof -
  obtain body where "serialize_transaction sample_to_line (map of_nat) (sample_header 1 7 [] [([97], 0)])
      [sample_envelope] = Inr body"
    by (simp add: serialize_transaction_def serialize_line_def Let_def)
  then show ?thesis using transaction_file_round_trip [OF sample_serde(1)] by blast
qed

end
