(* ===== verification/Fs_Anchors.thy ===== *)
theory Fs_Anchors
  imports Fs_Reconcile Fs_Steps
begin

text \<open>
  A header in memory and the same header read from its file differ in the content hash, which nothing
  in the transaction graph depends on: ancestry, claims, forks and the rules on headers are the same
  with and without the hashes. With that, fork detection on replicas and after an append.
\<close>

abbreviation unanchored_all :: "headers \<Rightarrow> headers" where
  "unanchored_all \<equiv> map (apsnd unanchored)"

lemma unanchored_get: "hm_get (unanchored_all hs) t = map_option unanchored (hm_get hs t)"
  by (induction hs) auto

lemma unanchored_keys: "map fst (unanchored_all hs) = map fst hs"
  by (simp add: comp_def)

lemma unanchored_fields [simp]:
  "th_parents (unanchored h) = th_parents h" "th_stream_bases (unanchored h) = th_stream_bases h"
  "th_replica_id (unanchored h) = th_replica_id h" "th_transaction_id (unanchored h) = th_transaction_id h"
  by (simp_all add: unanchored_def)

lemma unanchored_graph:
  "parents_of (unanchored_all hs) = parents_of hs" "parent_rel (unanchored_all hs) = parent_rel hs"
  "claimants (unanchored_all hs) = claimants hs" "joined (unanchored_all hs) = joined hs"
proof -
  show p: "parents_of (unanchored_all hs) = parents_of hs"
    by (rule ext) (simp add: parents_of_def unanchored_get split: option.split)
  show r: "parent_rel (unanchored_all hs) = parent_rel hs" by (simp add: parent_rel_def p)
  show "claimants (unanchored_all hs) = claimants hs"
    by (rule ext) (auto simp: claimants_def unanchored_get)
  show "joined (unanchored_all hs) = joined hs"
    by (rule ext) (auto simp: joined_def unanchored_get r)
qed

lemma unanchored_forks:
  "forked_claims (unanchored_all hs) = forked_claims hs" "fork_spec (unanchored_all hs) = fork_spec hs"
  "replicas_linear (unanchored_all hs) \<longleftrightarrow> replicas_linear hs"
  "acyclic_headers (unanchored_all hs) \<longleftrightarrow> acyclic_headers hs"
proof -
  show f: "forked_claims (unanchored_all hs) = forked_claims hs"
    unfolding forked_claims_def unanchored_graph ..
  show "fork_spec (unanchored_all hs) = fork_spec hs" unfolding fork_spec_def f unanchored_graph ..
  show "acyclic_headers (unanchored_all hs) \<longleftrightarrow> acyclic_headers hs"
    unfolding acyclic_headers_def unanchored_graph ..
  have "concurrent (unanchored_all hs) = concurrent hs"
    by (intro ext) (simp add: concurrent_def unanchored_graph)
  then show "replicas_linear (unanchored_all hs) \<longleftrightarrow> replicas_linear hs"
    unfolding replicas_linear_def unanchored_get by (fastforce simp: map_option_eq_Some)
qed

lemma unanchored_wf: "wf_headers (unanchored_all hs) \<longleftrightarrow> wf_headers hs"
  unfolding wf_headers_def unanchored_keys by (auto simp: case_prod_unfold)

section \<open>Replicas\<close>

text \<open>What a graph says about forks does not depend on the order of the map.\<close>

lemma wf_headers_same: "hm_same a b \<Longrightarrow> wf_headers a \<longleftrightarrow> wf_headers b"
  unfolding wf_headers_def using hm_same_set [of a b] by (simp add: hm_same_def)

lemma ancestor_same: "hm_get a = hm_get b \<Longrightarrow> parent_rel a = parent_rel b"
  unfolding parent_rel_def using parents_of_same [of a b] by simp

lemma replicas_linear_same: "hm_get a = hm_get b \<Longrightarrow> replicas_linear a \<longleftrightarrow> replicas_linear b"
  unfolding replicas_linear_def concurrent_def using ancestor_same [of a b] by simp

lemma detect_forks_same:
  assumes "hm_same (unanchored_all a) (unanchored_all b)" "wf_headers a" "detect_forks_in show_name a = Inr forks"
  shows "detect_forks_in show_name b = Inr forks"
proof -
  have get: "hm_get (unanchored_all a) = hm_get (unanchored_all b)" using assms(1) unfolding hm_same_def by blast
  have wf: "wf_headers b" using wf_headers_same [OF assms(1)] assms(2) unfolding unanchored_wf by blast
  have f: "replicas_linear a" "forks = fork_spec a" using detect_forks_spec [OF assms(2), of show_name] assms(3) by simp_all
  have lin: "replicas_linear b"
    using replicas_linear_same [OF get] f(1) unfolding unanchored_forks by blast
  have spec: "fork_spec b = fork_spec a" using fork_spec_same [OF get] unfolding unanchored_forks by simp
  show ?thesis
  proof (cases "detect_forks_in show_name b")
    case (Inl e)
    then obtain t u h g where "concurrent b t u" "hm_get b t = Some h" "hm_get b u = Some g"
      "th_replica_id h = th_replica_id g"
      using detect_forks_spec [OF wf, of show_name] by auto
    then show ?thesis using lin unfolding replicas_linear_def by blast
  next
    case (Inr r)
    then show ?thesis using detect_forks_spec [OF wf, of show_name] f(2) spec by simp
  qed
qed

section \<open>Forks after an append\<close>

lemma index_headers:
  assumes "index_of txs ix" "graph_ok txs"
  shows "unanchored_all (ix_headers ix) = unanchored_all (headers_map txs)" "map fst (ix_headers ix) = map tx_id txs"
proof -
  have "distinct (map tx_id txs)" using assms(2) by (simp add: graph_ok_def)
  then show "unanchored_all (ix_headers ix) = unanchored_all (headers_map txs)"
    using assms(1) by (simp add: index_of_def headers_map_eq)
  show "map fst (ix_headers ix) = map tx_id txs" by (rule index_of_ids [OF assms(1)])
qed

lemma append_forks:
  assumes "fs_synced X E N st" "fs_append_events X st w = (Inr (), st')" "entries w \<noteq> []"
    and "\<forall>en \<in> set (entries w). typed_entry E en" "fs_uuid_calls st' \<le> N"
    and "unat (next_seq (ix_log (fs_index st))) + length (entries w) < 2 ^ 64"
  shows "forked_claims (ix_headers (fs_index st'))
    = {c \<in> set (expected_bases (expected_versions w)). claimants (ix_headers (fs_index st)) c \<noteq> {}}"
proof -
  have laws: "value_laws X E" "logs_written X" "file_laws X" using assms(1) by (simp_all add: fs_synced_def)
  obtain txs where agrees: "fs_agrees X N txs st" using assms(1) unfolding fs_synced_def by blast
  have alive: "\<not> fs_poisoned st" using agrees by (simp add: fs_agrees_def)
  obtain h envelopes new_entries where com: "committed X st w h envelopes new_entries st'" "same_frame st st'"
    using fs_append_cases [OF laws(2) alive assms(2)] assms(3) by auto
  obtain tx where t: "fs_agrees X N (txs @ [tx]) st'" "unanchored (fst tx) = unanchored h"
    "th_parents (fst tx) = compute_tips (headers_map txs)" "new_transaction (headers_map txs) (tx_id tx) (fst tx)"
    by (rule commit_agrees [OF laws(1,3) agrees com assms(4-6)])
  have "th_stream_bases h = expected_bases (expected_versions w)"
    using com(1) by (auto simp: committed_def published_def new_header_def)
  then have bases: "th_stream_bases (fst tx) = expected_bases (expected_versions w)"
    using t(2) by (metis unanchored_fields(2))
  have index: "index_of txs (fs_index st)" "graph_ok txs" "index_of (txs @ [tx]) (fs_index st')" "graph_ok (txs @ [tx])"
    using agrees t(1) by (simp_all add: fs_agrees_def synced_to_def)
  have "forked_claims (ix_headers (fs_index st')) = forked_claims (headers_map (txs @ [tx]))"
    using index_headers(1) [OF index(3,4)] unanchored_forks(1) by metis
  moreover have "claimants (ix_headers (fs_index st)) = claimants (headers_map txs)"
    using index_headers(1) [OF index(1,2)] unanchored_graph(3) by metis
  moreover have "forked_claims (hm_insert (tx_id tx) (fst tx) (headers_map txs))
      = {c \<in> set (th_stream_bases (fst tx)). claimants (headers_map txs) c \<noteq> {}}"
    by (rule new_on_tips_forks [OF t(4)]) (simp add: t(3))
  ultimately show ?thesis by (simp add: bases headers_map_snoc)
qed

end
