(* ===== verification/Fs_Replica_Properties.thy ===== *)
theory Fs_Replica_Properties
  imports Fs_Store_Properties Fs_Graph_Properties Fs_Anchors Sample_Projection
begin

text \<open>
  The properties of the file back end across replicas: convergence, what appends and merges do to
  cursors, projections and forks, and the reconciliation pass.
\<close>

section \<open>A merge of two replicas\<close>

text \<open>The batch of \<open>Sample_Command\<close> on the store of replica 7 and on that of replica 8.\<close>

definition other_store :: "rstring fs_store" where
  "other_store = snd (fs_append_events sample_env (empty_store 8 200) rival_batch)"

lemma first_commit:
  assumes "fs_append_events sample_env (empty_store rep n) rival_batch = (Inr (), st)" "fs_uuid_calls st = n + 2"
    and "n + 2 \<le> N" "N \<le> 2 ^ 64"
  obtains tx where "fs_agrees sample_env N [tx] st" "fs_synced sample_env deposit_event N st"
    "tx_id tx = of_nat (Suc n)" "th_parents (fst tx) = []" "map ee_event_id (snd tx) = [of_nat (n + 2)]"
    "th_stream_bases (fst tx) = [([97], 0)]" "th_replica_id (fst tx) = rep"
proof -
  let ?E = "empty_store rep n"
  have typed: "\<forall>en \<in> set (entries rival_batch). typed_entry deposit_event en"
    by (simp add: typed_entry_def sample_defs)
  note start = empty_store_agrees [OF assms(4), of rep n]
  have alive: "\<not> fs_poisoned ?E" by (simp add: empty_store_def)
  obtain h envelopes new_entries where com: "committed sample_env ?E rival_batch h envelopes new_entries st" "same_frame ?E st"
    using fs_append_cases [OF sample_laws(3) alive assms(1)] by (auto simp: rival_batch_def)
  have calls: "fs_uuid_calls st \<le> N" using assms(2,3) by simp
  have room: "unat (next_seq (ix_log (fs_index ?E))) + length (entries rival_batch) < 2 ^ 64"
    by (simp add: empty_store_def empty_index_def rival_batch_def)
  obtain tx where t: "fs_agrees sample_env N ([] @ [tx]) st" "snd tx = envelopes" "unanchored (fst tx) = unanchored h"
    "tx_id tx = fx_now_v7 sample_env (fs_uuid_calls ?E)" "th_parents (fst tx) = compute_tips (headers_map ([] :: rstring transactions))"
    by (rule commit_agrees [OF sample_laws(1,4) start com typed calls room])
  obtain items xs where "xs = map to_indexed envelopes"
    "map ix_event_id xs = map (fx_now_v7 sample_env) [Suc (fs_uuid_calls ?E) ..< fs_uuid_calls st]"
    by (rule published_streams [OF com(1) [unfolded committed_def, THEN conjunct1]])
  then have ids: "map ee_event_id (snd tx) = [of_nat (n + 2)]"
    using assms(2) t(2) by (simp add: comp_def to_indexed_def empty_store_def sample_env_def)
  have h: "th_stream_bases h = [([97], 0)]" "th_replica_id h = rep"
    using com(1) by (auto simp: committed_def published_def new_header_def expected_bases_def rival_batch_def sample_defs empty_store_def)
  have "th_stream_bases (fst tx) = [([97], 0)]" "th_replica_id (fst tx) = rep"
    using h t(3) by (metis unanchored_fields)+
  then show thesis
    using that [of tx] t ids sample_laws
    by (auto simp: fs_synced_def no_transactions empty_store_def sample_env_def)
qed

lemma one_batch_commit:
  obtains tx where "fs_agrees sample_env 100 [tx] one_batch_store" "fs_synced sample_env deposit_event 100 one_batch_store"
    "tx_id tx = 1" "th_parents (fst tx) = []" "map ee_event_id (snd tx) = [2]"
    "th_stream_bases (fst tx) = [([97], 0)]" "th_replica_id (fst tx) = 7"
proof -
  let ?r = "fs_append_events sample_env (empty_store 7 0) rival_batch"
  have r: "fst ?r = Inr ()" "fs_uuid_calls (snd ?r) = 0 + 2" by code_simp+
  then have "?r = (Inr (), one_batch_store)" by (simp add: one_batch_store_def prod_eq_iff)
  from first_commit [OF this, of 100] show thesis using that r(2) by (auto simp: one_batch_store_def)
qed

lemma other_commit:
  obtains tx where "fs_agrees sample_env 300 [tx] other_store" "fs_synced sample_env deposit_event 300 other_store"
    "tx_id tx = 201" "th_parents (fst tx) = []" "map ee_event_id (snd tx) = [202]"
    "th_stream_bases (fst tx) = [([97], 0)]" "th_replica_id (fst tx) = 8"
proof -
  let ?r = "fs_append_events sample_env (empty_store 8 200) rival_batch"
  have r: "fst ?r = Inr ()" "fs_uuid_calls (snd ?r) = 200 + 2" by code_simp+
  then have "?r = (Inr (), other_store)" by (simp add: other_store_def prod_eq_iff)
  from first_commit [OF this, of 300] show thesis using that r(2) by (auto simp: other_store_def)
qed

lemma sample_clock_range:
  "k < 100 \<Longrightarrow> fx_now_v7 sample_env k \<noteq> 201 \<and> fx_now_v7 sample_env k \<noteq> 202"
  "202 \<le> k \<Longrightarrow> k < 300 \<Longrightarrow> fx_now_v7 sample_env k \<noteq> 1 \<and> fx_now_v7 sample_env k \<noteq> 2"
proof -
  have now: "unat (fx_now_v7 sample_env k) = Suc k" if "k < 300"
    using that by (simp add: sample_env_def unsigned_of_nat take_bit_nat_eq_self del: of_nat_Suc)
  show "k < 100 \<Longrightarrow> fx_now_v7 sample_env k \<noteq> 201 \<and> fx_now_v7 sample_env k \<noteq> 202"
    "202 \<le> k \<Longrightarrow> k < 300 \<Longrightarrow> fx_now_v7 sample_env k \<noteq> 1 \<and> fx_now_v7 sample_env k \<noteq> 2"
    using now by auto
qed

lemma store_logs:
  "seq_by_event (ix_log (fs_index one_batch_store)) = [(2, 1)]" "fs_uuid_calls one_batch_store = 2"
  "next_seq (ix_log (fs_index one_batch_store)) = 2"
  "seq_by_event (ix_log (fs_index other_store)) = [(202, 1)]" "fs_uuid_calls other_store = 202"
  "next_seq (ix_log (fs_index other_store)) = 2"
  unfolding one_batch_store_def other_store_def by code_simp+

lemma roots_acyclic:
  assumes "\<And>t h. hm_get headers t = Some h \<Longrightarrow> th_parents h = []"
  shows "acyclic_headers headers" "all_parents headers = {} \<or> \<not> hm_wf headers"
proof -
  have "parents_of headers t = []" for t using assms by (auto simp: parents_of_def split: option.split)
  then have "parent_rel headers = {}" by (simp add: parent_rel_def)
  then show "acyclic_headers headers" by (simp add: acyclic_headers_def acyclic_def)
  show "all_parents headers = {} \<or> \<not> hm_wf headers"
    using assms by (fastforce simp: all_parents_def hm_get_iff)
qed

lemma merge_pair:
  assumes a: "fs_agrees X N [a] st" and b: "fs_agrees X M [b] other" and uuid: "uuid_laws X"
    and roots: "th_parents (fst a) = []" "th_parents (fst b) = []"
    and ids: "tx_id a \<noteq> tx_id b" "distinct (map ee_event_id (snd a @ snd b))"
    and unseen: "\<forall>e \<in> set (snd b). seq_of (ix_log (fs_index st)) (ee_event_id e) = None"
    and clock: "\<forall>k \<in> {fs_uuid_calls st ..< N}. fx_now_v7 X k \<notin> insert (tx_id b) (ee_event_id ` set (snd b))"
    and room: "unat (next_seq (ix_log (fs_index st))) + length (snd a @ snd b) < 2 ^ 64"
  shows "merged_in X N st (dk_events (fs_disk st) @ dk_events (fs_disk other)) [a, b]"
proof -
  have s: "dir_txs X (dk_events (fs_disk st)) [a]" "dir_txs X (dk_events (fs_disk other)) [b]" "readable X [a]" "readable X [b]"
    "fresh_ids X (fs_uuid_calls st) N [a] (ix_log (fs_index st))"
    using a b by (simp_all add: fs_agrees_def synced_to_def)
  have h: "headers_map [a, b] = [(tx_id a, fst a), (tx_id b, fst b)]" using ids(1) by (simp add: headers_map_eq)
  have "acyclic_headers (headers_map [a, b])"
    unfolding h by (rule roots_acyclic(1)) (use roots in \<open>auto split: if_splits\<close>)
  then have g: "graph_ok [a, b]" using ids by (simp add: graph_ok_def all_events_def)
  have p: "all_parents (headers_map [a, b]) = {}" using roots by (simp add: h all_parents_def)
  have "known_ids [a, b] (ix_log (fs_index st))
      \<subseteq> known_ids [a] (ix_log (fs_index st)) \<union> insert (tx_id b) (ee_event_id ` set (snd b))"
    using p unfolding known_ids_def all_events_def by auto
  then have fresh: "fresh_ids X (fs_uuid_calls st) N [a, b] (ix_log (fs_index st))"
    using s(5) clock unfolding fresh_ids_def by blast
  have dir: "dir_txs X (dk_events (fs_disk st) @ dk_events (fs_disk other)) [a, b]"
    using list_all2_appendI [OF s(1,2) [unfolded dir_txs_def]] by (simp add: dir_txs_def)
  have read: "readable X [a, b]" using s(3,4) by (auto simp: readable_def all_events_def)
  have own: "event_file (fx_show_uuid X) (tx_id a) \<in> fst ` set (dk_events (fs_disk st))"
    using dir_keys [OF s(1)] by (auto simp flip: list.set_map)
  have "unat (next_seq (ix_log (fs_index st))) + length (all_events [a, b]) < 2 ^ 64"
    using room by (simp add: all_events_def)
  then show ?thesis using g dir read fresh own unseen unfolding merged_in_def by auto
qed

lemma sample_merges:
  shows "\<exists>txs. merged_in sample_env 100 one_batch_store
      (dk_events (fs_disk one_batch_store) @ dk_events (fs_disk other_store)) txs"
    and "\<exists>txs. merged_in sample_env 300 other_store
      (dk_events (fs_disk other_store) @ dk_events (fs_disk one_batch_store)) txs"
proof -
  have uuid: "uuid_laws sample_env" using sample_laws(4) by (simp add: file_laws_def)
  obtain a where a: "fs_agrees sample_env 100 [a] one_batch_store" "tx_id a = 1" "th_parents (fst a) = []"
    "map ee_event_id (snd a) = [2]" by (rule one_batch_commit)
  obtain b where b: "fs_agrees sample_env 300 [b] other_store" "tx_id b = 201" "th_parents (fst b) = []"
    "map ee_event_id (snd b) = [202]" by (rule other_commit)
  have ids: "ee_event_id ` set (snd a) = {2}" "ee_event_id ` set (snd b) = {202}" "length (snd a) = 1" "length (snd b) = 1"
    using arg_cong [OF a(4), of set] arg_cong [OF b(4), of set] arg_cong [OF a(4), of length] arg_cong [OF b(4), of length]
    by simp_all
  have ev: "e \<in> set (snd a) \<Longrightarrow> ee_event_id e = 2" "e \<in> set (snd b) \<Longrightarrow> ee_event_id e = 202" for e
    using ids(1,2) by blast+
  show "\<exists>txs. merged_in sample_env 100 one_batch_store
      (dk_events (fs_disk one_batch_store) @ dk_events (fs_disk other_store)) txs"
    by (rule exI, rule merge_pair [OF a(1) b(1) uuid a(3) b(3)])
      (use a b ids ev sample_clock_range in \<open>auto simp: seq_of_def store_logs\<close>)
  show "\<exists>txs. merged_in sample_env 300 other_store
      (dk_events (fs_disk other_store) @ dk_events (fs_disk one_batch_store)) txs"
    by (rule exI, rule merge_pair [OF b(1) a(1) uuid b(3) a(3)])
      (use a b ids ev sample_clock_range in \<open>auto simp: seq_of_def store_logs\<close>)
qed

text \<open>A merge can always be opened: the scan of its directory returns an index.\<close>

lemma merge_opens:
  assumes "fs_synced X E N st" "merged_in X N st dir txs" "reads_work io" "io_log io = Written"
  obtains ix d where "scan_store X (fs_roots st) io ((fs_disk st)\<lparr>dk_events := dir\<rparr>) = Some (Inr ix, d)"
    "fs_step X E N st (st\<lparr>fs_index := ix, fs_disk := d\<rparr>)"
proof -
  let ?d = "(fs_disk st)\<lparr>dk_events := dir\<rparr>" and ?lg = "ix_log (fs_index st)"
  obtain old where a: "index_of old (fs_index st)" "log_file (fx_entry_from_line X) (log_contents st) ?lg"
    and laws: "file_laws X" "logs_written X"
    using assms(1) unfolding fs_synced_def fs_agrees_def synced_to_def by blast
  have m: "dir_txs X dir txs" "graph_ok txs" "unat (next_seq ?lg) + length (all_events txs) < 2 ^ 64"
    using assms(2) by (simp_all add: merged_in_def)
  have "dir_txs X (dk_events ?d) txs" "log_file (fx_entry_from_line X) (log_of ?d) ?lg" "log_wf ?lg"
    using m(1) a by (simp_all add: log_contents_def log_of_def index_of_def)
  from scan_synced [OF laws assms(3,4) this(1) m(2) this(2,3) m(3), of "fs_roots st"]
  obtain ix d where sc: "scan_store X (fs_roots st) io ?d = Some (Inr ix, d)" by blast
  show thesis by (rule that [OF sc merge_step [OF assms(2-4) sc]])
qed

section \<open>Properties\<close>

text \<open>
  C24. Replicas converge: two synced stores that hold the same transaction files, each with its own
  ingestion log and its own history of appends, merges and restarts, have the same streams in the same
  order, the same tips and the same headers up to the hash of the payload; and if the one reports
  forks, the other reports the same forks.
\<close>

theorem replicas_converge:
  assumes "fs_synced X E N a" "fs_synced X E M b" "hm_same (dk_events (fs_disk a)) (dk_events (fs_disk b))"
  shows "fs_view X a = fs_view X b \<and> ix_tips (fs_index a) = ix_tips (fs_index b)
    \<and> hm_same (map (apsnd unanchored) (ix_headers (fs_index a))) (map (apsnd unanchored) (ix_headers (fs_index b)))
    \<and> (wf_headers (ix_headers (fs_index a)) \<longrightarrow> fs_detect_forks X a = Inr forks \<longrightarrow> fs_detect_forks X b = Inr forks)"
proof -
  obtain txs txs' where s: "synced_to X txs (dk_events (fs_disk a)) (log_contents a) (fs_index a)"
    "synced_to X txs' (dk_events (fs_disk b)) (log_contents b) (fs_index b)" "\<not> fs_poisoned a" "\<not> fs_poisoned b"
    using assms(1,2) unfolding fs_synced_def fs_agrees_def by blast
  note agree = replicas_agree [OF s(1,2) assms(3)]
  then have "fs_view X a = fs_view X b" by (simp add: fun_eq_iff fs_view_def)
  moreover have "fs_detect_forks X b = Inr forks" if "wf_headers (ix_headers (fs_index a))" "fs_detect_forks X a = Inr forks"
    using detect_forks_same [of "ix_headers (fs_index a)" "ix_headers (fs_index b)"] agree that s(3,4)
    by (simp add: fs_detect_forks_def)
  ultimately show ?thesis using agree by blast
qed

text \<open>
  C25. What a cursor has passed stays as it was: along any sequence of appends, successful or not, and
  of merges of other replicas' files followed by a restart, the store stays in agreement with its
  files and log (a well-formed acyclic graph, the streams in canonical order, positions increasing
  and never reused), and what a projection reads after the last step is what it read before, event by
  event and position by position, followed by the new events.
\<close>

theorem cursors_survive:
  assumes "fs_synced X E N st" "fs_steps X E N st st'"
  shows "fs_synced X E N st' \<and> sorted_wrt (<) (map snd (chosen_events X E (fs_index st') f))
    \<and> prefix (chosen_events X E (fs_index st) f) (chosen_events X E (fs_index st') f)"
proof -
  have s: "fs_synced X E N st'" "view_extends st st'" using fs_steps_synced [OF assms(2,1)] by simp_all
  show ?thesis using s(1) chosen_increasing [OF synced_readable(1) [OF s(1)]] chosen_prefix [OF s(2)] by blast
qed

text \<open>The store after a merge, opened again.\<close>

definition merged_store :: "rstring fs_store \<Rightarrow> rstring fs_store \<Rightarrow> rstring fs_store" where
  "merged_store st other = (case scan_store sample_env (fs_roots st) sample_io
       ((fs_disk st)\<lparr>dk_events := dk_events (fs_disk st) @ dk_events (fs_disk other)\<rparr>) of
     Some (Inr ix, d) \<Rightarrow> st\<lparr>fs_index := ix, fs_disk := d\<rparr> | _ \<Rightarrow> st)"

lemma merged_step:
  assumes "fs_synced sample_env deposit_event N st"
    and "\<exists>txs. merged_in sample_env N st (dk_events (fs_disk st) @ dk_events (fs_disk other)) txs"
  shows "fs_step sample_env deposit_event N st (merged_store st other)"
    and "dk_events (fs_disk (merged_store st other)) = dk_events (fs_disk st) @ dk_events (fs_disk other)"
proof -
  obtain txs where m: "merged_in sample_env N st (dk_events (fs_disk st) @ dk_events (fs_disk other)) txs"
    using assms(2) ..
  have io: "reads_work sample_io" "io_log sample_io = Written" by (simp_all add: reads_work_def sample_io_def)
  let ?d0 = "(fs_disk st)\<lparr>dk_events := dk_events (fs_disk st) @ dk_events (fs_disk other)\<rparr>"
  obtain ix d where o: "scan_store sample_env (fs_roots st) sample_io ?d0 = Some (Inr ix, d)"
    "fs_step sample_env deposit_event N st (st\<lparr>fs_index := ix, fs_disk := d\<rparr>)"
    by (rule merge_opens [OF assms(1) m io])
  then show "fs_step sample_env deposit_event N st (merged_store st other)" by (simp add: merged_store_def)
  have "dk_events d = dk_events ?d0"
    using o(1) with_log_facts(2) by (auto simp: scan_store_def)
  then show "dk_events (fs_disk (merged_store st other)) = dk_events (fs_disk st) @ dk_events (fs_disk other)"
    using o(1) by (simp add: merged_store_def)
qed

lemma merge_steps: "fs_steps sample_env deposit_event 100 (empty_store 7 0) (merged_store one_batch_store other_store)"
proof -
  let ?r = "fs_append_events sample_env (empty_store 7 0) rival_batch"
  have "fs_step sample_env deposit_event 100 (empty_store 7 0) one_batch_store"
  proof (rule append_step)
    show "?r = (fst ?r, one_batch_store)" by (simp add: one_batch_store_def)
    show "fs_uuid_calls one_batch_store \<le> 100" by (simp add: store_logs)
  qed (simp_all add: typed_entry_def sample_defs empty_store_def empty_index_def)
  moreover note merged_step(1) [OF one_batch_synced sample_merges(1)]
  ultimately show ?thesis by (meson rtranclp.rtrancl_into_rtrancl rtranclp.rtrancl_refl)
qed

theorem cursors_survive_witness:
  "fs_synced sample_env deposit_event 100 (merged_store one_batch_store other_store)
   \<and> prefix (chosen_events sample_env deposit_event (fs_index (empty_store 7 0)) filter_all)
       (chosen_events sample_env deposit_event (fs_index (merged_store one_batch_store other_store)) filter_all)"
proof -
  have "fs_synced sample_env deposit_event 100 (empty_store 7 0)" by (rule empty_store_synced) simp
  from cursors_survive [OF this merge_steps] show ?thesis by blast
qed

theorem replicas_converge_witness:
  "fs_view sample_env (merged_store one_batch_store other_store) = fs_view sample_env (merged_store other_store one_batch_store)"
proof -
  have synced: "fs_synced sample_env deposit_event 300 other_store" by (rule other_commit)
  note one = merged_step [OF one_batch_synced sample_merges(1)]
  note two = merged_step [OF synced sample_merges(2)]
  have s: "fs_synced sample_env deposit_event 100 (merged_store one_batch_store other_store)"
    "fs_synced sample_env deposit_event 300 (merged_store other_store one_batch_store)"
    using fs_step_synced one(1) two(1) one_batch_synced synced by blast+
  have wf: "hm_wf (dk_events (fs_disk one_batch_store) @ dk_events (fs_disk other_store))"
    unfolding one_batch_store_def other_store_def by code_simp
  have "hm_same (dk_events (fs_disk one_batch_store) @ dk_events (fs_disk other_store))
      (dk_events (fs_disk other_store) @ dk_events (fs_disk one_batch_store))"
    using wf map_add_comm [of "map_of (dk_events (fs_disk one_batch_store))" "map_of (dk_events (fs_disk other_store))"]
    by (auto simp: hm_same_def dom_map_of_conv_image_fst)
  then show ?thesis using replicas_converge [OF s] one(2) two(2) by simp
qed

text \<open>
  C26. A projection over the file back end resumes across appends, merges and restarts: any number of
  batch runs, with the store making any steps between their effects, saves the positions of a prefix of
  the events that were waiting after the first checkpoint, in order, each once; the checkpoint file
  holds the last of them.
\<close>

theorem file_projection_resumes:
  assumes "backend_ok X E N b" "\<forall>(s, env) \<in> set runs. store_life X E N env"
    and "\<not> pc_continuous cfg" "1000 * (unat (pc_event_retry_max_attempts cfg) + 1) + 2 < fuel"
    and "ck_load (fx_io X) (fx_parse_uuid X) (fb_checkpoints b) (pj_name pj) = Inr cp"
  shows "\<exists>ps b'. batch_runs fd (file_backend_ops X E S) fuel pj cfg runs b = Some (ps, b')
    \<and> ck_load (fx_io X) (fx_parse_uuid X) (fb_checkpoints b') (pj_name pj) = Inr (if ps = [] then cp else Some (last ps))
    \<and> prefix ps (map snd (unseen (chosen_events X E (fs_index (fb_store b')) (own_events pj)) cp))"
proof -
  let ?be = "file_backend_ops X E S"
  have env: "\<forall>(s, env) \<in> set runs. good_env (pb_load ?be) (backend_ok X E N)
      (\<lambda>b. chosen_events X E (fs_index (fb_store b))) (pj_name pj) env"
    using assms(2) store_life_good by fastforce
  have fuel: "unat page_size * (unat (pc_event_retry_max_attempts cfg) + 1) + 2 < fuel"
    using assms(4) by (simp add: page_size_def)
  have cp: "pb_load ?be b (pj_name pj) = Inr cp" using assms(5) by (simp add: file_backend_ops_def)
  obtain ps b' where run: "batch_runs fd ?be fuel pj cfg runs b = Some (ps, b')" "backend_ok X E N b'"
      "pb_load ?be b' (pj_name pj) = Inr (checkpoint_after cp ps)"
      "prefix ps (map snd (unseen (chosen_events X E (fs_index (fb_store b')) (own_events pj)) cp))"
    using fs_proj.batch_runs_resume [OF env assms(1,3) fuel cp, where fd = fd] by blast
  obtain c where c: "ck_load (fx_io X) (fx_parse_uuid X) (fb_checkpoints b') (pj_name pj) = Inr c"
    using fs_cp.load_ok [of "fx_io X" "fx_show_uuid X" "fx_parse_uuid X" "fb_checkpoints b'"] run(2)
    by (auto simp: backend_ok_def)
  then have "c = checkpoint_after cp ps" using run(3) by (simp add: file_backend_ops_def)
  then show ?thesis using run(1,4) c by (simp add: checkpoint_after_def)
qed

text \<open>The merge happens between the second and the third effect of the first run.\<close>

definition sample_file_backend :: "rstring fs_store \<Rightarrow> rstring file_backend" where
  "sample_file_backend st = \<lparr>fb_store = st, fb_checkpoints = \<lparr>ck_dir = [47], ck_files = [], ck_calls = 0\<rparr>,
     fb_leaders = \<lparr>fl_dir = [47], fl_locked = []\<rparr>\<rparr>"

definition merge_at :: "nat \<Rightarrow> nat \<Rightarrow> rstring file_backend \<Rightarrow> rstring file_backend" where
  "merge_at k t b = (if t = k \<and> fb_store b = one_batch_store
     then b\<lparr>fb_store := merged_store one_batch_store other_store\<rparr> else b)"

lemma merge_at_life: "store_life sample_env deposit_event 100 (merge_at k)"
  using merged_step(1) [OF one_batch_synced sample_merges(1)] by (auto simp: store_life_def merge_at_def)

theorem file_projection_resumes_witness:
  "\<exists>ps b'. batch_runs sample_delay (file_backend_ops sample_env deposit_event
        \<lparr>sh_read = \<lambda>_. [], sh_checkpoint = \<lambda>_. [], sh_lock = \<lambda>_. []\<rparr>) 5000 (collector Fatal) sample_config
        [([], merge_at 2), ([], merge_at 0)] (sample_file_backend one_batch_store) = Some (ps, b')
     \<and> ck_load (fx_io sample_env) (fx_parse_uuid sample_env) (fb_checkpoints b') [112]
         = Inr (if ps = [] then None else Some (last ps))"
proof -
  have trim: "str_trim [65, n, 66] = [65, n, 66]" for n by (simp add: str_trim_def is_whitespace_def)
  then have "checkpoint_io (fx_io sample_env) (fx_show_uuid sample_env) (fx_parse_uuid sample_env)"
    by (simp add: checkpoint_io_def sample_env_def sample_io_def sample_parse_uuid_def)
  then have ok: "backend_ok sample_env deposit_event 100 (sample_file_backend one_batch_store)"
    using one_batch_synced by (simp add: backend_ok_def sample_file_backend_def ck_inv_def)
  have life: "\<forall>(s, env) \<in> set [([] :: nat list, merge_at 2), ([], merge_at 0)]. store_life sample_env deposit_event 100 env"
    using merge_at_life by simp
  have cfg: "\<not> pc_continuous sample_config" "1000 * (unat (pc_event_retry_max_attempts sample_config) + 1) + 2 < 5000"
    by (simp_all add: sample_config_def projection_config_default_def event_retry_config_default_def Let_def)
  have cp: "ck_load (fx_io sample_env) (fx_parse_uuid sample_env) (fb_checkpoints (sample_file_backend one_batch_store))
      (pj_name (collector Fatal)) = Inr None"
    by (simp add: ck_load_def sample_file_backend_def read_file_def sample_env_def sample_io_def)
  have "pj_name (collector Fatal) = [112]" by (simp add: collector_def)
  then show ?thesis
    using file_projection_resumes [OF ok life cfg cp, where fd = sample_delay
        and S = "\<lparr>sh_read = \<lambda>_. [], sh_checkpoint = \<lambda>_. [], sh_lock = \<lambda>_. []\<rparr>"] by metis
qed

text \<open>
  C27. What an append leaves of the forks: it takes every tip as a parent, so afterwards the claims that
  \<open>detect_forks\<close> finds in conflict are exactly the appended batch's own claims that an earlier
  transaction made as well; a fork between two earlier transactions is no longer found.
\<close>

theorem append_forks_left:
  assumes "fs_synced X E N st" "fs_append_events X st w = (Inr (), st')" "entries w \<noteq> []"
    and "\<forall>en \<in> set (entries w). typed_entry E en" "fs_uuid_calls st' \<le> N"
    and "unat (next_seq (ix_log (fs_index st))) + length (entries w) < 2 ^ 64"
  shows "forked_claims (ix_headers (fs_index st'))
    = {c \<in> set (expected_bases (expected_versions w)). claimants (ix_headers (fs_index st)) c \<noteq> {}}"
  by (rule append_forks [OF assms])

text \<open>One writer, two batches: the first one only reads the stream that the second one writes.\<close>

definition reading_batch :: "deposit stream_writes" where
  "reading_batch = \<lparr>entries = [deposit_entry (account_a, 7)], expected_versions = [(account_a, 0), (account_b, 0)]\<rparr>"

definition next_batch :: "deposit stream_writes" where
  "next_batch = \<lparr>entries = [deposit_entry (account_b, 9)], expected_versions = [(account_b, 0)]\<rparr>"

definition reading_store :: "rstring fs_store" where
  "reading_store = snd (fs_append_events sample_env (empty_store 7 0) reading_batch)"

definition chain_store :: "rstring fs_store" where
  "chain_store = snd (fs_append_events sample_env reading_store next_batch)"

lemma batches_typed:
  "\<forall>en \<in> set (entries reading_batch). typed_entry deposit_event en"
  "\<forall>en \<in> set (entries next_batch). typed_entry deposit_event en"
  by (simp_all add: typed_entry_def reading_batch_def next_batch_def sample_defs)

lemma chain_facts:
  "fs_uuid_calls reading_store \<le> 50" "next_seq (ix_log (fs_index reading_store)) = 2"
  "fst (fs_append_events sample_env reading_store next_batch) = Inr ()" "fs_uuid_calls chain_store = 4"
  "map (\<lambda>(t, h). (t, th_stream_bases h)) (ix_headers (fs_index reading_store)) = [(1, [([97], 0), ([98], 0)])]"
  "map fst (ix_headers (fs_index chain_store)) = [1, 3]" "wf_headers (ix_headers (fs_index chain_store))"
  "fs_detect_forks sample_env chain_store
     = Inr [\<lparr>fork_stream_id = account_b, fork_base_version = 0, fork_transactions = [1, 3]\<rparr>]"
  unfolding chain_store_def reading_store_def by code_simp+

lemma reading_synced: "fs_synced sample_env deposit_event 50 reading_store"
proof -
  have "fs_synced sample_env deposit_event 50 (empty_store 7 0)" by (rule empty_store_synced) simp
  moreover have "unat (next_seq (ix_log (fs_index (empty_store 7 0)))) + length (entries reading_batch) < 2 ^ 64"
    by (simp add: empty_store_def empty_index_def reading_batch_def)
  ultimately show ?thesis
    using append_step_synced [OF _ prod.collapse [symmetric] batches_typed(1)] chain_facts(1)
    unfolding reading_store_def by blast
qed

theorem append_forks_left_witness:
  "forked_claims (ix_headers (fs_index chain_store)) = {([98], 0)}"
proof -
  have r: "fs_append_events sample_env reading_store next_batch = (Inr (), chain_store)"
    using chain_facts(3) by (simp add: chain_store_def prod_eq_iff)
  obtain h where h: "ix_headers (fs_index reading_store) = [(1, h)]" "th_stream_bases h = [([97], 0), ([98], 0)]"
    using chain_facts(5) by auto
  have "entries next_batch \<noteq> []" "fs_uuid_calls chain_store \<le> 50"
    "unat (next_seq (ix_log (fs_index reading_store))) + length (entries next_batch) < 2 ^ 64"
    by (simp_all add: next_batch_def chain_facts)
  from append_forks_left [OF reading_synced r this(1) batches_typed(2) this(2,3)]
  have "forked_claims (ix_headers (fs_index chain_store))
      = {c. c = ([98], 0) \<and> claimants [(1, h)] c \<noteq> {}}"
    by (simp add: h(1) next_batch_def expected_bases_def account_b_def)
  moreover have "1 \<in> claimants [(1, h)] ([98], 0)" using h(2) by (simp add: claimants_def)
  ultimately show ?thesis by auto
qed

text \<open>
  C28. The reconciliation pass: when \<open>reconcile\<close> returns a report, it counts every detected fork as
  resolved or declined; a claim still in conflict afterwards belongs to a declined stream or is made by
  a transaction the pass wrote; every stream only grew at its end.
\<close>

theorem reconcile_accounts:
  assumes "logs_written X" "wf_headers (ix_headers (fs_index st))"
    and "fs_reconcile X E resolver st = (Inr report, st')" "fs_detect_forks X st = Inr forks"
    and "fresh_keys X (fs_uuid_calls st) N (ix_headers (fs_index st))" "fs_uuid_calls st' \<le> N"
  shows "rr_resolved report + length (rr_unresolved report) = length forks
    \<and> (\<forall>c \<in> forked_claims (ix_headers (fs_index st')). StreamId (fst c) \<in> set (rr_unresolved report)
         \<or> (\<exists>t h. hm_get (ix_headers (fs_index st')) t = Some h \<and> c \<in> set (th_stream_bases h)
              \<and> hm_get (ix_headers (fs_index st)) t = None))
    \<and> (\<forall>s. prefix (stream_events (ix_streams (fs_index st)) s) (stream_events (ix_streams (fs_index st')) s))"
proof -
  let ?before = "ix_headers (fs_index st)" and ?now = "ix_headers (fs_index st')"
  have run: "reconcile_loop X E resolver forks \<lparr>rr_resolved = 0, rr_unresolved = []\<rparr> st = (Inr report, st')"
    using assms(3,4) by (simp add: fs_reconcile_def)
  have "detect_forks_in (fx_show_name X) ?before = Inr forks"
    using assms(4) by (auto simp: fs_detect_forks_def split: if_splits)
  then have forks: "forks = fork_spec ?before" using detect_forks_spec [OF assms(2), of "fx_show_name X"] by simp
  have fin: "finite (claimants ?before c)" for c
    by (rule finite_subset [of _ "fst ` set ?before"]) (force simp: claimants_def dest!: map_of_SomeD)+
  have "finite (forked_claims ?before)"
  proof (rule finite_subset)
    show "forked_claims ?before \<subseteq> (\<Union>(t, h) \<in> set ?before. set (th_stream_bases h))"
      unfolding forked_claims_def
    proof
      fix c
      assume "c \<in> {c. 2 \<le> card (claimants ?before c) \<and> \<not> joined ?before (claimants ?before c)}"
      then have "claimants ?before c \<noteq> {}" by auto
      then show "c \<in> (\<Union>(t, h) \<in> set ?before. set (th_stream_bases h))"
        by (force simp: claimants_def dest!: map_of_SomeD)
    qed
  qed auto
  then have listed: "claim_of ` set forks = forked_claims ?before"
    "\<forall>f \<in> set forks. set (fork_transactions f) = claimants ?before (claim_of f)"
    using fin by (force simp: forks fork_spec_map spec_fork_def claim_of_def image_iff)+
  have "\<forall>c \<in> forked_claims ?before. remaining ?before ?before forks [] c"
    using listed(1) by (simp add: remaining_def)
  from reconcile_loop_forks [OF assms(1) _ listed(2) _ assms(5) run assms(6)] this
  have r: "\<forall>c \<in> forked_claims ?now. remaining ?before ?now [] (rr_unresolved report) c"
    "rr_resolved report + length (rr_unresolved report) = length forks"
    "\<forall>s. \<exists>later. stream_events (ix_streams (fs_index st')) s = stream_events (ix_streams (fs_index st)) s @ later"
    by simp_all
  have pre: "prefix (stream_events (ix_streams (fs_index st)) s) (stream_events (ix_streams (fs_index st')) s)" for s
    using r(3) by (auto simp: prefix_def)
  show ?thesis
    using r(1,2) pre by (auto simp: remaining_def)
qed

text \<open>A resolver that keeps one deposit.\<close>

definition sample_resolver :: "deposit fork_context \<Rightarrow> deposit resolution_outcome" where
  "sample_resolver ctx = Resolve [(account_b, length (fc_branches ctx))]"

definition reconciled_store :: "rstring fs_store" where
  "reconciled_store = snd (fs_reconcile sample_env deposit_event sample_resolver chain_store)"

lemma reconciled_facts:
  "fst (fs_reconcile sample_env deposit_event sample_resolver chain_store) = Inr \<lparr>rr_resolved = 1, rr_unresolved = []\<rparr>"
  "fs_uuid_calls reconciled_store = 6"
  unfolding chain_store_def reading_store_def reconciled_store_def by code_simp+

theorem reconcile_accounts_witness:
  "\<exists>forks. fs_detect_forks sample_env chain_store = Inr forks \<and> length forks = 1
    \<and> (\<forall>s. prefix (stream_events (ix_streams (fs_index chain_store)) s)
        (stream_events (ix_streams (fs_index reconciled_store)) s))"
proof -
  have r: "fs_reconcile sample_env deposit_event sample_resolver chain_store
      = (Inr \<lparr>rr_resolved = 1, rr_unresolved = []\<rparr>, reconciled_store)"
    using reconciled_facts(1) by (simp add: reconciled_store_def prod_eq_iff)
  have "hm_get (ix_headers (fs_index chain_store)) (fx_now_v7 sample_env k) = None" if "4 \<le> k" "k < 9" for k
  proof -
    have "unat (fx_now_v7 sample_env k) = Suc k"
      using that by (simp add: sample_env_def unsigned_of_nat take_bit_nat_eq_self del: of_nat_Suc)
    then have "fx_now_v7 sample_env k \<notin> {1, 3}" using that(1) by auto
    then have "fx_now_v7 sample_env k \<notin> set (map fst (ix_headers (fs_index chain_store)))"
      unfolding chain_facts(6) by simp
    then show ?thesis by (simp add: map_of_eq_None_iff)
  qed
  then have fresh: "fresh_keys sample_env (fs_uuid_calls chain_store) 9 (ix_headers (fs_index chain_store))"
    using sample_clock_fresh [of 9 4] by (auto simp: fresh_keys_def chain_facts)
  have "fs_uuid_calls reconciled_store \<le> 9" by (simp add: reconciled_facts)
  from reconcile_accounts [OF sample_laws(3) chain_facts(7) r chain_facts(8) fresh this]
  show ?thesis using chain_facts(8) by simp
qed

end
