(* ===== verification/Model_Checker.thy ===== *)
theory Model_Checker
  imports Ordered_Maps
begin

text \<open>
  The information-completeness checker (\<open>eventcore/src/model.rs\<close>): descriptors of modeled fields,
  mappings and assumption boundaries, the depth-first search for a provenance path of every field, its
  diagnostics, and the report. The registry of linked descriptors is a parameter. The search takes
  fuel; the \<open>length\<close> of the field map is enough (\<open>Model_Checker_Correct\<close>).
\<close>

section \<open>Descriptors\<close>

datatype descriptor =
  FieldKind rstring rstring bool (ds_location: rstring)
| MappingKind rstring "rstring list" rstring "bool list" (ds_location: rstring)
| AssumptionKind rstring rstring (ds_location: rstring)

definition field_at :: "rstring \<Rightarrow> rstring \<Rightarrow> bool \<Rightarrow> rstring \<Rightarrow> descriptor" where
  "field_at role field root location = FieldKind role field root location"

definition descriptor_field :: "rstring \<Rightarrow> rstring \<Rightarrow> bool \<Rightarrow> descriptor" where
  "descriptor_field role field root = field_at role field root (lit ''<explicit descriptor>'')"

definition mapping_at :: "rstring \<Rightarrow> rstring list \<Rightarrow> rstring \<Rightarrow> bool list \<Rightarrow> rstring \<Rightarrow> descriptor" where
  "mapping_at name sources target temporal_sources location =
     MappingKind name sources target temporal_sources location"

definition descriptor_mapping :: "rstring \<Rightarrow> rstring list \<Rightarrow> rstring \<Rightarrow> bool list \<Rightarrow> descriptor" where
  "descriptor_mapping name sources target temporal_sources =
     mapping_at name sources target temporal_sources (lit ''<explicit descriptor>'')"

definition assumption_at :: "rstring \<Rightarrow> rstring \<Rightarrow> rstring \<Rightarrow> descriptor" where
  "assumption_at name target location = AssumptionKind name target location"

definition descriptor_assumption :: "rstring \<Rightarrow> rstring \<Rightarrow> descriptor" where
  "descriptor_assumption name target = assumption_at name target (lit ''<explicit descriptor>'')"

fun stable_id :: "descriptor \<Rightarrow> rstring" where
  "stable_id (FieldKind role field root location) = field"
| "stable_id (MappingKind name sources target temporal_sources location) = name"
| "stable_id (AssumptionKind name target location) = name"

section \<open>Options, diagnostics and reports\<close>

record check_options =
  co_allow_all_assumptions :: bool
  co_allowed_assumptions :: "rstring set"

definition default_options :: check_options where
  "default_options = \<lparr>co_allow_all_assumptions = False, co_allowed_assumptions = {}\<rparr>"

definition allow_assumptions :: "check_options \<Rightarrow> check_options" where
  "allow_assumptions options = options\<lparr>co_allow_all_assumptions := True\<rparr>"

definition allow_assumption :: "rstring \<Rightarrow> check_options \<Rightarrow> check_options" where
  "allow_assumption name options =
     options\<lparr>co_allowed_assumptions := insert name (co_allowed_assumptions options)\<rparr>"

datatype check_status = Verified | Assumed

datatype check_failure_status = Incomplete

record check_diagnostic =
  dg_code :: rstring
  dg_subject :: rstring
  dg_message :: rstring
  dg_help :: rstring
  dg_trace :: "rstring list"
  dg_location :: "rstring option"

record check_report =
  cr_status :: check_status
  cr_warnings :: "check_diagnostic list"

record check_error =
  ce_diagnostics :: "check_diagnostic list"

definition check_error_status :: "check_error \<Rightarrow> check_failure_status" where
  "check_error_status e = Incomplete"

definition diagnostic :: "rstring \<Rightarrow> rstring \<Rightarrow> rstring \<Rightarrow> rstring \<Rightarrow> check_diagnostic" where
  "diagnostic code subject message help =
     \<lparr>dg_code = code, dg_subject = subject, dg_message = message, dg_help = help,
      dg_trace = [], dg_location = None\<rparr>"

definition diagnostic_at ::
  "rstring \<Rightarrow> rstring \<Rightarrow> rstring \<Rightarrow> rstring \<Rightarrow> rstring \<Rightarrow> check_diagnostic" where
  "diagnostic_at code subject message help location =
     \<lparr>dg_code = code, dg_subject = subject, dg_message = message, dg_help = help,
      dg_trace = [], dg_location = Some location\<rparr>"

definition diagnostic_with_trace ::
  "rstring \<Rightarrow> rstring \<Rightarrow> rstring \<Rightarrow> rstring \<Rightarrow> rstring list \<Rightarrow> check_diagnostic" where
  "diagnostic_with_trace code subject message help trace =
     \<lparr>dg_code = code, dg_subject = subject, dg_message = message, dg_help = help,
      dg_trace = trace, dg_location = None\<rparr>"

definition diagnostic_with_trace_at ::
  "rstring \<Rightarrow> rstring \<Rightarrow> rstring \<Rightarrow> rstring \<Rightarrow> rstring list \<Rightarrow> rstring \<Rightarrow> check_diagnostic" where
  "diagnostic_with_trace_at code subject message help trace location =
     \<lparr>dg_code = code, dg_subject = subject, dg_message = message, dg_help = help,
      dg_trace = trace, dg_location = Some location\<rparr>"

text \<open>The \<open>Display\<close> of a diagnostic.\<close>

definition display_diagnostic :: "check_diagnostic \<Rightarrow> rstring" where
  "display_diagnostic d =
     dg_code d @ lit '': '' @ dg_subject d @ [10] @ lit ''  '' @ dg_message d @ [10]
       @ lit ''help: '' @ dg_help d
     @ (if dg_trace d \<noteq> [] then [10] @ lit ''trace: '' @ join_with (lit '' -> '') (dg_trace d) else [])
     @ (case dg_location d of None \<Rightarrow> [] | Some location \<Rightarrow> [10] @ lit ''location: '' @ location)"

definition sort_diagnostics :: "check_diagnostic list \<Rightarrow> check_diagnostic list" where
  "sort_diagnostics = sort_key (\<lambda>d. (dg_code d, dg_subject d))"

section \<open>The search\<close>

record checker_graph =
  cg_fields :: "(rstring \<times> descriptor) list"
  cg_mappings :: "(rstring \<times> descriptor list) list"
  cg_assumptions :: "(rstring \<times> descriptor list) list"
  cg_options :: check_options

record checker_evaluation =
  ev_used_assumption :: bool
  ev_memo :: "(rstring \<times> bool) list"
  ev_visiting :: "rstring set"
  ev_errors :: "check_diagnostic list"
  ev_path :: "rstring list"

definition push_error :: "check_diagnostic \<Rightarrow> checker_evaluation \<Rightarrow> checker_evaluation" where
  "push_error d ev = ev\<lparr>ev_errors := ev_errors ev @ [d]\<rparr>"

definition memoize :: "rstring \<Rightarrow> bool \<Rightarrow> checker_evaluation \<Rightarrow> checker_evaluation" where
  "memoize field result ev = ev\<lparr>ev_memo := bt_insert field result (ev_memo ev)\<rparr>"

text \<open>The root shortcut that the search, the seed test and the checker's loop share.\<close>

definition root_field :: "(rstring \<times> descriptor) list \<Rightarrow> rstring \<Rightarrow> bool" where
  "root_field field_map field =
     (case hm_get field_map field of Some (FieldKind role f root location) \<Rightarrow> root | _ \<Rightarrow> False)"

definition has_non_temporal_seed ::
  "rstring \<Rightarrow> (rstring \<times> descriptor) list \<Rightarrow> (rstring \<times> descriptor list) list \<Rightarrow> bool" where
  "has_non_temporal_seed field field_map mappings =
     (root_field field_map field \<or>
      (case hm_get mappings field of None \<Rightarrow> False
       | Some recipes \<Rightarrow> list_ex (\<lambda>recipe. case recipe of
             MappingKind name sources target temporal_sources location \<Rightarrow>
               list_all (\<lambda>temporal. \<not> temporal) temporal_sources
           | _ \<Rightarrow> False) recipes))"

text \<open>The boundary test of \<open>find_map\<close>, and the diagnostics of boundaries that are not enabled.\<close>

definition boundary_accepted :: "check_options \<Rightarrow> descriptor \<Rightarrow> bool" where
  "boundary_accepted options boundary =
     (case boundary of
        AssumptionKind name target location \<Rightarrow>
          co_allow_all_assumptions options \<or> name \<in> co_allowed_assumptions options
      | _ \<Rightarrow> False)"

definition boundary_errors :: "rstring \<Rightarrow> descriptor \<Rightarrow> check_diagnostic list" where
  "boundary_errors field boundary =
     (case boundary of
        AssumptionKind name target location \<Rightarrow>
          [diagnostic (lit ''ECM008'') name
             (lit ''assumption boundary for `'' @ field @ lit ''` is not enabled'')
             (lit ''use `CheckOptions::default().allow_assumption('' @ [34] @ name @ [34]
               @ lit '')` or replace it with an executable mapping'')]
      | _ \<Rightarrow> [])"

text \<open>What every return after the field was entered does: leave \<open>visiting\<close> and \<open>path\<close>, memoize.\<close>

definition leave_field :: "rstring \<Rightarrow> bool \<Rightarrow> checker_evaluation \<Rightarrow> bool \<times> checker_evaluation" where
  "leave_field field result ev =
     (result, (memoize field result (ev\<lparr>ev_visiting := ev_visiting ev - {field}\<rparr>))\<lparr>ev_path := butlast (ev_path ev)\<rparr>)"

text \<open>The diagnostics of the search.\<close>

definition missing_source :: "rstring \<Rightarrow> rstring \<Rightarrow> rstring \<Rightarrow> rstring list \<Rightarrow> check_diagnostic" where
  "missing_source name source location path =
     diagnostic_with_trace_at (lit ''ECM004'') name
       (lit ''mapping source `'' @ source @ lit ''` is not a modeled field'')
       (lit ''derive a modeled component for the source owner or correct the mapping path'')
       (path @ [source]) location"

definition ordinary_cycle :: "rstring \<Rightarrow> rstring \<Rightarrow> check_diagnostic" where
  "ordinary_cycle name source = diagnostic (lit ''ECM006'') name
     (lit ''mapping closes an ordinary cycle through `'' @ source @ lit ''`'')
     (lit ''mark the carried state input as `previous(...)` and provide a default seed'')"

definition unseeded_source :: "rstring \<Rightarrow> rstring \<Rightarrow> check_diagnostic" where
  "unseeded_source name source = diagnostic (lit ''ECM007'') name
     (lit ''temporal source `'' @ source @ lit ''` has no non-temporal seed'')
     (lit ''add a default, absence, origin, or non-temporal mapping for the carried field'')"

definition reentered_field :: "rstring \<Rightarrow> rstring list \<Rightarrow> check_diagnostic" where
  "reentered_field field path = diagnostic_with_trace (lit ''ECM006'') field
     (lit ''ordinary provenance cycle has no explicit temporal seed'')
     (lit ''use `previous(...)` with a modeled default/absence seed'') (path @ [field])"

definition missing_producer :: "(rstring \<times> descriptor) list \<Rightarrow> rstring \<Rightarrow> rstring list \<Rightarrow> check_diagnostic" where
  "missing_producer field_map field path = diagnostic_with_trace_at (lit ''ECM003'') field
     (lit ''non-root modeled field has no executable producer'')
     (lit ''add a mapping, default, absence, or explicit origin'') path
     (case hm_get field_map field of None \<Rightarrow> lit ''<unknown>'' | Some d \<Rightarrow> ds_location d)"

text \<open>The loop over the sources of a recipe; \<open>self\<close> is the recursive call.\<close>

fun check_sources ::
  "(rstring \<Rightarrow> checker_evaluation \<Rightarrow> (bool \<times> checker_evaluation) option) \<Rightarrow> checker_graph \<Rightarrow> rstring \<Rightarrow> rstring
     \<Rightarrow> (rstring \<times> bool) list \<Rightarrow> bool \<Rightarrow> checker_evaluation \<Rightarrow> (bool \<times> checker_evaluation) option" where
  "check_sources self G name location [] complete ev = Some (complete, ev)"
| "check_sources self G name location ((source, temporal) # rest) complete ev =
     (if hm_get (cg_fields G) source = None then
        check_sources self G name location rest False
          (push_error (missing_source name source location (ev_path ev)) ev)
      else if source \<in> ev_visiting ev \<and> \<not> temporal then
        check_sources self G name location rest False (push_error (ordinary_cycle name source) ev)
      else if source \<in> ev_visiting ev then
        if \<not> has_non_temporal_seed source (cg_fields G) (cg_mappings G) then
          check_sources self G name location rest False (push_error (unseeded_source name source) ev)
        else check_sources self G name location rest complete ev
      else case self source ev of
          None \<Rightarrow> None
        | Some (result, ev') \<Rightarrow> check_sources self G name location rest (complete \<and> result) ev')"

text \<open>The loop over the recipes of a field.\<close>

fun check_recipes ::
  "(rstring \<Rightarrow> checker_evaluation \<Rightarrow> (bool \<times> checker_evaluation) option) \<Rightarrow> checker_graph
     \<Rightarrow> descriptor list \<Rightarrow> bool \<Rightarrow> checker_evaluation \<Rightarrow> (bool \<times> checker_evaluation) option" where
  "check_recipes self G [] complete ev = Some (complete, ev)"
| "check_recipes self G (MappingKind name sources target temporal_sources location # recipes) complete ev =
     (case check_sources self G name location (zip sources temporal_sources) complete ev of
        None \<Rightarrow> None
      | Some (complete', ev') \<Rightarrow> check_recipes self G recipes complete' ev')"
| "check_recipes self G (recipe # recipes) complete ev = check_recipes self G recipes complete ev"

primrec is_complete ::
  "nat \<Rightarrow> checker_graph \<Rightarrow> rstring \<Rightarrow> checker_evaluation \<Rightarrow> (bool \<times> checker_evaluation) option" where
  "is_complete 0 G field ev = None"
| "is_complete (Suc n) G field ev =
     (case hm_get (ev_memo ev) field of
        Some result \<Rightarrow> Some (result, ev)
      | None \<Rightarrow>
        if root_field (cg_fields G) field then Some (True, memoize field True ev)
        else if field \<in> ev_visiting ev then
          Some (False, memoize field False (push_error (reentered_field field (ev_path ev)) ev))
        else let entered = ev\<lparr>ev_visiting := insert field (ev_visiting ev), ev_path := ev_path ev @ [field]\<rparr> in
          case hm_get (cg_assumptions G) field of
            Some boundaries \<Rightarrow>
              if list_ex (boundary_accepted (cg_options G)) boundaries
              then Some (leave_field field True (entered\<lparr>ev_used_assumption := True\<rparr>))
              else Some (leave_field field False
                     (entered\<lparr>ev_errors := ev_errors entered @ concat (map (boundary_errors field) boundaries)\<rparr>))
          | None \<Rightarrow>
            (case hm_get (cg_mappings G) field of
               None \<Rightarrow>
                 Some (leave_field field False
                   (push_error (missing_producer (cg_fields G) field (ev_path entered)) entered))
             | Some recipes \<Rightarrow>
                 (case check_recipes (is_complete n G) G recipes True entered of
                    None \<Rightarrow> None
                  | Some (complete, ev') \<Rightarrow> Some (leave_field field complete ev'))))"

section \<open>The check\<close>

text \<open>The tables that the registration loop fills.\<close>

record registration =
  rg_errors :: "check_diagnostic list"
  rg_fields :: "(rstring \<times> descriptor) list"
  rg_mappings :: "(rstring \<times> descriptor list) list"
  rg_assumptions :: "(rstring \<times> descriptor list) list"
  rg_identifiers :: "rstring set"

definition no_registration :: registration where
  "no_registration = \<lparr>rg_errors = [], rg_fields = [], rg_mappings = [], rg_assumptions = [], rg_identifiers = {}\<rparr>"

definition insert_descriptor :: "descriptor \<Rightarrow> registration \<Rightarrow> registration" where
  "insert_descriptor descriptor rg =
     (case descriptor of
        FieldKind role field root location \<Rightarrow> rg\<lparr>rg_fields := bt_insert field descriptor (rg_fields rg)\<rparr>
      | MappingKind name sources target temporal_sources location \<Rightarrow>
          rg\<lparr>rg_mappings := bt_push target descriptor (rg_mappings rg)\<rparr>
      | AssumptionKind name target location \<Rightarrow>
          rg\<lparr>rg_assumptions := bt_push target descriptor (rg_assumptions rg)\<rparr>)"

definition duplicate_registration :: "descriptor \<Rightarrow> check_diagnostic" where
  "duplicate_registration descriptor = diagnostic_at (lit ''ECM002'') (stable_id descriptor)
     (lit ''duplicate modeled descriptor registration'')
     (lit ''give the component or mapping a unique name'') (ds_location descriptor)"

definition register_descriptor :: "descriptor \<Rightarrow> registration \<Rightarrow> registration" where
  "register_descriptor descriptor rg =
     insert_descriptor descriptor
       (if stable_id descriptor \<in> rg_identifiers rg then
          rg\<lparr>rg_errors := rg_errors rg @ [duplicate_registration descriptor]\<rparr>
        else rg\<lparr>rg_identifiers := insert (stable_id descriptor) (rg_identifiers rg)\<rparr>)"

definition unknown_target :: "rstring \<Rightarrow> descriptor \<Rightarrow> check_diagnostic" where
  "unknown_target target descriptor = diagnostic_at (lit ''ECM005'') (stable_id descriptor)
     (lit ''registration target `'' @ target @ lit ''` is not a modeled field'')
     (lit ''derive a modeled component for the target owner or correct the target path'')
     (ds_location descriptor)"

definition target_errors ::
  "(rstring \<times> descriptor) list \<Rightarrow> (rstring \<times> descriptor list) list \<Rightarrow> check_diagnostic list" where
  "target_errors field_map groups = concat (map (\<lambda>(target, descriptors).
     if hm_contains field_map target then []
     else map (unknown_target target) descriptors) groups)"

text \<open>The loop that evaluates every field; roots are memoized without a search.\<close>

fun evaluate_fields ::
  "nat \<Rightarrow> checker_graph \<Rightarrow> (rstring \<times> descriptor) list \<Rightarrow> checker_evaluation \<Rightarrow> checker_evaluation option" where
  "evaluate_fields n G [] ev = Some ev"
| "evaluate_fields n G ((field, descriptor) # rest) ev =
     (if (case descriptor of FieldKind role f root location \<Rightarrow> root | _ \<Rightarrow> False)
      then evaluate_fields n G rest (memoize field True ev)
      else case is_complete n G field (ev\<lparr>ev_visiting := {}\<rparr>) of
          None \<Rightarrow> None
        | Some (_, ev') \<Rightarrow> evaluate_fields n G rest ev')"

definition consumed_fields :: "(rstring \<times> descriptor list) list \<Rightarrow> rstring set" where
  "consumed_fields mappings = set (concat (map (\<lambda>descriptor. case descriptor of
       MappingKind name sources target temporal_sources location \<Rightarrow> sources | _ \<Rightarrow> [])
     (concat (map snd mappings))))"

definition field_warnings :: "rstring set \<Rightarrow> (rstring \<times> descriptor) \<Rightarrow> check_diagnostic list" where
  "field_warnings consumed entry =
     (case entry of
        (field, FieldKind role f root location) \<Rightarrow>
          (if root \<and> field \<notin> consumed then
             [diagnostic (lit ''ECM102'') field (lit ''modeled origin is not consumed by any mapping'')
                (lit ''remove the unused field or add an executable mapping that consumes it'')] else [])
          @ (if role = lit ''event'' \<and> field \<notin> consumed then
             [diagnostic (lit ''ECM103'') field (lit ''modeled event field is not consumed downstream'')
                (lit ''add a projection/view mapping or mark the event boundary intentionally opaque'')] else [])
      | _ \<Rightarrow> [])"

definition output_exists :: "(rstring \<times> descriptor) list \<Rightarrow> bool" where
  "output_exists field_map = list_ex (\<lambda>(field, descriptor). case descriptor of
       FieldKind role f root location \<Rightarrow> role = lit ''output'' | _ \<Rightarrow> False) field_map"

definition model_warnings ::
  "(rstring \<times> descriptor) list \<Rightarrow> (rstring \<times> descriptor list) list \<Rightarrow> check_diagnostic list" where
  "model_warnings field_map mappings =
     concat (map (field_warnings (consumed_fields mappings)) field_map)
     @ (if output_exists field_map then [] else
        [diagnostic (lit ''ECM101'') (lit ''model'') (lit ''the linked model has no modeled output'')
           (lit ''add a ModelOutput/ModelView boundary when this model renders a view'')])"

definition initial_evaluation :: "check_diagnostic list \<Rightarrow> checker_evaluation" where
  "initial_evaluation errors =
     \<lparr>ev_used_assumption = False, ev_memo = [], ev_visiting = {}, ev_errors = errors, ev_path = []\<rparr>"

definition registered :: "descriptor list \<Rightarrow> registration" where
  "registered descriptors = fold register_descriptor (sort_key stable_id descriptors) no_registration"

definition graph_of :: "descriptor list \<Rightarrow> check_options \<Rightarrow> checker_graph" where
  "graph_of descriptors options = (let rg = registered descriptors in
     \<lparr>cg_fields = rg_fields rg, cg_mappings = rg_mappings rg, cg_assumptions = rg_assumptions rg,
      cg_options = options\<rparr>)"

definition empty_registry :: check_diagnostic where
  "empty_registry = diagnostic (lit ''ECM001'') (lit ''registry'')
     (lit ''no modeled descriptors were supplied for checking'')
     (lit ''enable `experimental-model-check` and link the application model, or provide benchmark descriptors explicitly'')"

definition check_references :: "descriptor list \<Rightarrow> check_options \<Rightarrow> (check_error + check_report) option" where
  "check_references descriptors options =
     (if descriptors = [] then
        Some (Inl \<lparr>ce_diagnostics = [empty_registry]\<rparr>)
      else let rg = registered descriptors; field_map = rg_fields rg; G = graph_of descriptors options;
               errors = rg_errors rg @ target_errors field_map (rg_mappings rg)
                 @ target_errors field_map (rg_assumptions rg) in
        case evaluate_fields (length field_map) G field_map (initial_evaluation errors) of
          None \<Rightarrow> None
        | Some ev \<Rightarrow>
            Some (let errors' = sort_diagnostics (ev_errors ev);
                      warnings = sort_diagnostics (model_warnings field_map (rg_mappings rg)) in
              if errors' = [] then
                Inr \<lparr>cr_status = (if ev_used_assumption ev then Assumed else Verified), cr_warnings = warnings\<rparr>
              else Inl \<lparr>ce_diagnostics = errors'\<rparr>))"

definition check_descriptors :: "descriptor list \<Rightarrow> check_options \<Rightarrow> (check_error + check_report) option" where
  "check_descriptors descriptors options = check_references descriptors options"

definition check_with :: "descriptor list \<Rightarrow> check_options \<Rightarrow> (check_error + check_report) option" where
  "check_with registry options = check_references registry options"

definition check_model :: "descriptor list \<Rightarrow> (check_error + check_report) option" where
  "check_model registry = check_with registry default_options"

end
