(* ===== verification/Model_Checker_Correct.thy ===== *)
theory Model_Checker_Correct
  imports Model_Checker
begin

text \<open>
  What the information-completeness checker decides. \<open>provided\<close> is the specification: a field has a
  provenance when it is an origin (a root or an accepted assumption), or when every input of every one
  of its mappings is a field that has a provenance, a temporal input of a seeded field being excused.
  The search keeps its memo within this specification, never runs out of fuel, and accepts every model
  whose fields have a provenance without the excuse.
\<close>

section \<open>Provenance\<close>

record provenance =
  pv_fields :: "rstring set"
  pv_origins :: "rstring set"
  pv_inputs :: "rstring \<Rightarrow> (rstring \<times> bool) set option"
  pv_seeded :: "rstring set"

inductive provided :: "bool \<Rightarrow> provenance \<Rightarrow> rstring \<Rightarrow> bool" for excused P where
  origin: "f \<in> pv_origins P \<Longrightarrow> provided excused P f"
| produced: "pv_inputs P f = Some inputs \<Longrightarrow>
    \<forall>(s, temporal) \<in> inputs. s \<in> pv_fields P \<and> (provided excused P s \<or> excused \<and> temporal \<and> s \<in> pv_seeded P) \<Longrightarrow>
    provided excused P f"

inductive_cases provided_cases: "provided excused P f"

lemma provided_excused: "provided False P f \<Longrightarrow> provided excused P f"
  by (induction rule: provided.induct) (blast intro: provided.intros)+

lemma provided_origins:
  assumes "provided excused P f" "pv_fields P = pv_fields Q" "pv_origins P \<subseteq> pv_origins Q"
    "pv_inputs P = pv_inputs Q" "pv_seeded P = pv_seeded Q"
  shows "provided excused Q f"
  using assms(1)
proof (induction rule: provided.induct)
  case (origin f)
  then show ?case using assms(3) by (blast intro: provided.origin)
next
  case (produced f inputs)
  have "pv_inputs Q f = Some inputs" using produced(1) assms(4) by simp
  moreover have "\<forall>(s, temporal) \<in> inputs.
      s \<in> pv_fields Q \<and> (provided excused Q s \<or> excused \<and> temporal \<and> s \<in> pv_seeded Q)"
    using produced(2) assms(2,5) by auto
  ultimately show ?case by (rule provided.produced)
qed

text \<open>What a search for \<open>f\<close> descends into, and why it cannot come back when nothing is excused.\<close>

definition needs :: "provenance \<Rightarrow> rstring \<Rightarrow> rstring \<Rightarrow> bool" where
  "needs P f s \<longleftrightarrow> f \<notin> pv_origins P \<and> (\<exists>inputs. pv_inputs P f = Some inputs \<and> s \<in> fst ` inputs)"

lemma provided_needs: "provided False P f \<Longrightarrow> needs P f s \<Longrightarrow> provided False P s"
  by (erule provided_cases) (fastforce simp: needs_def)+

lemma provided_acyclic: "provided False P f \<Longrightarrow> \<not> (needs P)\<^sup>+\<^sup>+ f f"
proof (induction rule: provided.induct)
  case (origin f)
  have "\<not> needs P f s" for s using origin by (simp add: needs_def)
  then show ?case by (metis tranclpD)
next
  case (produced f inputs)
  show ?case
  proof
    assume "(needs P)\<^sup>+\<^sup>+ f f"
    then obtain s where s: "needs P f s" "(needs P)\<^sup>*\<^sup>* s f" by (metis tranclpD)
    then obtain b where "(s, b) \<in> inputs" using produced(1) by (auto simp: needs_def)
    then have "\<not> (needs P)\<^sup>+\<^sup>+ s s" using produced(2) by auto
    moreover have "(needs P)\<^sup>+\<^sup>+ s s" using s(2,1) by (rule rtranclp_into_tranclp1)
    ultimately show False by blast
  qed
qed

section \<open>The provenance of a graph\<close>

definition recipe_inputs :: "descriptor \<Rightarrow> (rstring \<times> bool) list" where
  "recipe_inputs recipe = (case recipe of
     MappingKind name sources target temporal_sources location \<Rightarrow> zip sources temporal_sources | _ \<Rightarrow> [])"

definition graph_provenance :: "checker_graph \<Rightarrow> provenance" where
  "graph_provenance G =
     \<lparr>pv_fields = {f. hm_get (cg_fields G) f \<noteq> None},
      pv_origins = {f. root_field (cg_fields G) f \<or>
        (\<exists>bs. hm_get (cg_assumptions G) f = Some bs \<and> list_ex (boundary_accepted (cg_options G)) bs)},
      pv_inputs = (\<lambda>f. if hm_get (cg_assumptions G) f \<noteq> None then None
        else map_option (\<lambda>rs. set (concat (map recipe_inputs rs))) (hm_get (cg_mappings G) f)),
      pv_seeded = {f. has_non_temporal_seed f (cg_fields G) (cg_mappings G)}\<rparr>"

text \<open>The provenance a search may rely on: without assumptions until it has used one.\<close>

definition relied :: "checker_graph \<Rightarrow> checker_evaluation \<Rightarrow> provenance" where
  "relied G ev = graph_provenance
     (if ev_used_assumption ev then G else G\<lparr>cg_options := default_options\<rparr>)"

lemma default_boundary [simp]: "\<not> boundary_accepted default_options b"
  by (auto simp: boundary_accepted_def default_options_def split: descriptor.splits)

lemma default_boundaries [simp]: "\<not> list_ex (boundary_accepted default_options) bs"
  by (simp add: list_ex_iff)

lemma relied_fields [simp]:
  "pv_fields (relied G ev) = pv_fields (graph_provenance G)"
  "pv_inputs (relied G ev) = pv_inputs (graph_provenance G)"
  "pv_seeded (relied G ev) = pv_seeded (graph_provenance G)"
  by (simp_all add: relied_def graph_provenance_def cong: if_cong)

lemma relied_grows:
  assumes "provided True (relied G ev) f" "ev_used_assumption ev \<longrightarrow> ev_used_assumption ev'"
  shows "provided True (relied G ev') f"
proof (rule provided_origins [OF assms(1)])
  show "pv_origins (relied G ev) \<subseteq> pv_origins (relied G ev')"
    using assms(2) by (auto simp: relied_def graph_provenance_def)
qed simp_all

lemma relied_root: "root_field (cg_fields G) f \<Longrightarrow> provided True (relied G ev) f"
  by (rule provided.origin) (simp add: relied_def graph_provenance_def)

section \<open>The invariant of the search\<close>

definition search_ok :: "checker_graph \<Rightarrow> checker_evaluation \<Rightarrow> bool" where
  "search_ok G ev \<longleftrightarrow>
     (\<forall>f. hm_get (ev_memo ev) f = Some True \<longrightarrow> provided True (relied G ev) f) \<and>
     (\<forall>f. hm_get (ev_memo ev) f = Some False \<longrightarrow> ev_errors ev \<noteq> []) \<and>
     (ev_used_assumption ev \<longrightarrow> (\<exists>f. f \<in> pv_fields (graph_provenance G) \<and> \<not> root_field (cg_fields G) f
        \<and> f \<in> pv_origins (graph_provenance G)))"

definition grows :: "checker_evaluation \<Rightarrow> checker_evaluation \<Rightarrow> bool" where
  "grows ev ev' \<longleftrightarrow> (ev_used_assumption ev \<longrightarrow> ev_used_assumption ev')
     \<and> (\<exists>es. ev_errors ev' = ev_errors ev @ es)
     \<and> dom (hm_get (ev_memo ev)) \<subseteq> dom (hm_get (ev_memo ev'))
     \<and> ev_visiting ev' = ev_visiting ev \<and> ev_path ev' = ev_path ev"

lemma grows_refl [simp]: "grows ev ev"
  by (simp add: grows_def)

lemma grows_trans: "grows a b \<Longrightarrow> grows b c \<Longrightarrow> grows a c"
  by (auto simp: grows_def)

lemma grows_errors: "grows a b \<Longrightarrow> ev_errors a \<noteq> [] \<Longrightarrow> ev_errors b \<noteq> []"
  by (auto simp: grows_def)

lemma grows_relied: "grows a b \<Longrightarrow> provided True (relied G a) f \<Longrightarrow> provided True (relied G b) f"
  by (erule relied_grows) (simp add: grows_def)

lemma push_error_fields [simp]:
  "ev_used_assumption (push_error d ev) = ev_used_assumption ev" "ev_memo (push_error d ev) = ev_memo ev"
  "ev_visiting (push_error d ev) = ev_visiting ev" "ev_path (push_error d ev) = ev_path ev"
  "ev_errors (push_error d ev) = ev_errors ev @ [d]"
  by (simp_all add: push_error_def)

lemma memoize_fields [simp]:
  "ev_used_assumption (memoize f r ev) = ev_used_assumption ev" "ev_errors (memoize f r ev) = ev_errors ev"
  "ev_visiting (memoize f r ev) = ev_visiting ev" "ev_path (memoize f r ev) = ev_path ev"
  "hm_get (ev_memo (memoize f r ev)) = (hm_get (ev_memo ev))(f \<mapsto> r)"
  by (simp_all add: memoize_def)

lemma relied_cong: "ev_used_assumption a = ev_used_assumption b \<Longrightarrow> relied G a = relied G b"
  by (simp add: relied_def)

lemma push_error_grows: "grows ev (push_error d ev)"
  by (simp add: grows_def)

lemma push_error_ok: "search_ok G ev \<Longrightarrow> search_ok G (push_error d ev)"
  by (simp add: search_ok_def relied_cong [of "push_error d ev" ev])

text \<open>What a call of the search for the field \<open>f\<close> returns.\<close>

definition searched ::
  "checker_graph \<Rightarrow> rstring \<Rightarrow> checker_evaluation \<Rightarrow> bool \<Rightarrow> checker_evaluation \<Rightarrow> bool" where
  "searched G f ev result ev' \<longleftrightarrow> search_ok G ev' \<and> grows ev ev'
     \<and> hm_get (ev_memo ev') f \<noteq> None
     \<and> (if result then provided True (relied G ev') f else ev_errors ev' \<noteq> [])"

definition searches ::
  "(rstring \<Rightarrow> checker_evaluation \<Rightarrow> (bool \<times> checker_evaluation) option) \<Rightarrow> checker_graph \<Rightarrow> rstring set \<Rightarrow> bool" where
  "searches self G visiting \<longleftrightarrow>
     (\<forall>s ev. s \<in> pv_fields (graph_provenance G) \<longrightarrow> s \<notin> visiting \<longrightarrow> ev_visiting ev = visiting \<longrightarrow> search_ok G ev \<longrightarrow>
        (\<exists>result ev'. self s ev = Some (result, ev') \<and> searched G s ev result ev'))"

definition inputs_ok :: "checker_graph \<Rightarrow> checker_evaluation \<Rightarrow> (rstring \<times> bool) set \<Rightarrow> bool" where
  "inputs_ok G ev inputs \<longleftrightarrow> (\<forall>(s, temporal) \<in> inputs. s \<in> pv_fields (graph_provenance G) \<and>
     (provided True (relied G ev) s \<or> temporal \<and> s \<in> pv_seeded (graph_provenance G)))"

lemma inputs_ok_Un [simp]: "inputs_ok G ev (A \<union> B) \<longleftrightarrow> inputs_ok G ev A \<and> inputs_ok G ev B"
  by (auto simp: inputs_ok_def)

lemma inputs_ok_grows: "grows a b \<Longrightarrow> inputs_ok G a inputs \<Longrightarrow> inputs_ok G b inputs"
  unfolding inputs_ok_def by (fast dest: grows_relied)

lemma check_sources_searched:
  assumes "searches self G (ev_visiting ev)" "search_ok G ev"
  shows "\<exists>complete' ev'. check_sources self G name location srcs complete ev = Some (complete', ev')
    \<and> search_ok G ev' \<and> grows ev ev'
    \<and> (if complete' then complete \<and> inputs_ok G ev' (set srcs) else \<not> complete \<or> ev_errors ev' \<noteq> [])"
  using assms
proof (induction srcs arbitrary: complete ev)
  case Nil
  then show ?case by (simp add: inputs_ok_def)
next
  case (Cons p srcs)
  obtain s t where p: "p = (s, t)" by fastforce
  let ?go = "\<lambda>c e. check_sources self G name location srcs c e"
  have after_error: ?case if "check_sources self G name location (p # srcs) complete ev = ?go False (push_error d ev)" for d
  proof -
    obtain c' ev' where "?go False (push_error d ev) = Some (c', ev')" "search_ok G ev'" "grows (push_error d ev) ev'" "\<not> c'"
      using Cons.IH [of "push_error d ev" False] Cons.prems by (auto simp: push_error_ok split: if_splits)
    moreover from this have "ev_errors ev' \<noteq> []" using grows_errors by fastforce
    ultimately show ?thesis using that grows_trans [OF push_error_grows] by (simp add: exI [of _ False])
  qed
  consider (missing) "hm_get (cg_fields G) s = None"
    | (cycle) "hm_get (cg_fields G) s \<noteq> None" "s \<in> ev_visiting ev" "\<not> t"
    | (unseeded) "hm_get (cg_fields G) s \<noteq> None" "s \<in> ev_visiting ev" t "\<not> has_non_temporal_seed s (cg_fields G) (cg_mappings G)"
    | (seeded) "hm_get (cg_fields G) s \<noteq> None" "s \<in> ev_visiting ev" t "has_non_temporal_seed s (cg_fields G) (cg_mappings G)"
    | (search) "hm_get (cg_fields G) s \<noteq> None" "s \<notin> ev_visiting ev"
    by blast
  then show ?case
  proof cases
    case missing
    then show ?thesis by (intro after_error [where d = "missing_source name s location (ev_path ev)"]) (simp add: p del: not_None_eq)
  next
    case cycle
    then show ?thesis by (intro after_error [where d = "ordinary_cycle name s"]) (simp add: p del: not_None_eq)
  next
    case unseeded
    then show ?thesis by (intro after_error [where d = "unseeded_source name s"]) (simp add: p del: not_None_eq)
  next
    case seeded
    then have "s \<in> pv_fields (graph_provenance G)" "s \<in> pv_seeded (graph_provenance G)"
      by (simp_all add: graph_provenance_def)
    moreover have "check_sources self G name location (p # srcs) complete ev = ?go complete ev"
      using seeded by (simp add: p del: not_None_eq)
    moreover obtain c' ev' where "?go complete ev = Some (c', ev')" "search_ok G ev'" "grows ev ev'"
      "if c' then complete \<and> inputs_ok G ev' (set srcs) else \<not> complete \<or> ev_errors ev' \<noteq> []"
      using Cons by blast
    ultimately show ?thesis using seeded(3) by (auto simp: p inputs_ok_def)
  next
    case search
    then have "s \<in> pv_fields (graph_provenance G)" by (simp add: graph_provenance_def)
    then obtain r ev1 where r: "self s ev = Some (r, ev1)" "searched G s ev r ev1"
      using Cons.prems search unfolding searches_def by blast
    then have g: "search_ok G ev1" "grows ev ev1" "ev_visiting ev1 = ev_visiting ev"
      by (simp_all add: searched_def grows_def)
    obtain c' ev' where c: "?go (complete \<and> r) ev1 = Some (c', ev')" "search_ok G ev'" "grows ev1 ev'"
      "if c' then (complete \<and> r) \<and> inputs_ok G ev' (set srcs) else \<not> (complete \<and> r) \<or> ev_errors ev' \<noteq> []"
      using Cons.IH [of ev1 "complete \<and> r"] Cons.prems g by auto
    have "inputs_ok G ev' {p}" if c'
      using that c r(2) \<open>s \<in> pv_fields _\<close> by (auto simp: inputs_ok_def p searched_def dest: grows_relied)
    moreover have "ev_errors ev' \<noteq> []" if "\<not> c'" complete
      using that c r(2) grows_errors by (fastforce simp: searched_def split: if_splits)
    moreover have "check_sources self G name location (p # srcs) complete ev = Some (c', ev')"
      using search r(1) c(1) by (simp add: p del: not_None_eq)
    moreover have "grows ev ev'" using g(2) c(3) by (rule grows_trans)
    moreover have "inputs_ok G ev' (set (p # srcs))" if c' using that calculation(1) c(4) by (auto simp: inputs_ok_def)
    ultimately show ?thesis using c(2,4) by (cases c') auto
  qed
qed

lemma check_recipes_searched:
  assumes "searches self G (ev_visiting ev)" "search_ok G ev"
  shows "\<exists>complete' ev'. check_recipes self G recipes complete ev = Some (complete', ev')
    \<and> search_ok G ev' \<and> grows ev ev'
    \<and> (if complete' then complete \<and> inputs_ok G ev' (set (concat (map recipe_inputs recipes)))
       else \<not> complete \<or> ev_errors ev' \<noteq> [])"
  using assms
proof (induction recipes arbitrary: complete ev)
  case Nil
  then show ?case by (simp add: inputs_ok_def)
next
  case (Cons recipe recipes)
  show ?case
  proof (cases "\<exists>name sources target ts location. recipe = MappingKind name sources target ts location")
    case True
    then obtain name sources target ts location where m: "recipe = MappingKind name sources target ts location" by blast
    obtain c1 ev1 where 1: "check_sources self G name location (zip sources ts) complete ev = Some (c1, ev1)"
      "search_ok G ev1" "grows ev ev1"
      "if c1 then complete \<and> inputs_ok G ev1 (set (zip sources ts)) else \<not> complete \<or> ev_errors ev1 \<noteq> []"
      using check_sources_searched [OF Cons.prems] by blast
    then have "ev_visiting ev1 = ev_visiting ev" by (simp add: grows_def)
    then obtain c' ev' where 2: "check_recipes self G recipes c1 ev1 = Some (c', ev')"
      "search_ok G ev'" "grows ev1 ev'"
      "if c' then c1 \<and> inputs_ok G ev' (set (concat (map recipe_inputs recipes))) else \<not> c1 \<or> ev_errors ev' \<noteq> []"
      using Cons.IH [of ev1 c1] Cons.prems 1(2) by auto
    have "grows ev ev'" using 1(3) 2(3) by (rule grows_trans)
    moreover have "inputs_ok G ev' (set (concat (map recipe_inputs (recipe # recipes))))" if c'
      using that 1(4) 2(4) inputs_ok_grows [OF 2(3)] by (simp add: recipe_inputs_def m)
    moreover have "ev_errors ev' \<noteq> []" if "\<not> c'" complete
      using that 1(4) 2(4) grows_errors [OF 2(3)] by (auto split: if_splits)
    ultimately show ?thesis using 1 2 by (cases c') (auto simp: m split: if_splits)
  next
    case False
    then have "check_recipes self G (recipe # recipes) complete ev = check_recipes self G recipes complete ev"
      "recipe_inputs recipe = []" by (cases recipe; simp add: recipe_inputs_def)+
    then show ?thesis using Cons.IH [OF Cons.prems, of complete] by (simp only: list.map concat.simps append_Nil)
  qed
qed

definition entered_field :: "rstring \<Rightarrow> checker_evaluation \<Rightarrow> checker_evaluation" where
  "entered_field field ev = ev\<lparr>ev_visiting := insert field (ev_visiting ev), ev_path := ev_path ev @ [field]\<rparr>"

lemma leave_searched:
  assumes "search_ok G ev1" "grows (entered_field f ev) ev1" "f \<notin> ev_visiting ev"
    "if result then provided True (relied G ev1) f else ev_errors ev1 \<noteq> []"
  shows "fst (leave_field f result ev1) = result" "searched G f ev result (snd (leave_field f result ev1))"
proof -
  let ?ev' = "snd (leave_field f result ev1)"
  have memo: "hm_get (ev_memo ?ev') = (hm_get (ev_memo ev1))(f \<mapsto> result)" "ev_errors ?ev' = ev_errors ev1"
    "relied G ?ev' = relied G ev1" "ev_used_assumption ?ev' = ev_used_assumption ev1"
    by (simp_all add: leave_field_def relied_def memoize_def)
  have "search_ok G ?ev'" using assms(1,4) by (auto simp: search_ok_def memo split: if_splits)
  moreover have "grows ev ?ev'"
    using assms(2,3) by (auto simp: grows_def memo entered_field_def) (auto simp: leave_field_def)
  ultimately show "searched G f ev result ?ev'" using assms(4) unfolding searched_def memo by simp
  show "fst (leave_field f result ev1) = result" by (simp add: leave_field_def)
qed

lemma returned:
  "is_complete n G f ev = Some p \<Longrightarrow> fst p = r \<Longrightarrow> searched G f ev r (snd p) \<Longrightarrow>
    \<exists>result ev'. is_complete n G f ev = Some (result, ev') \<and> searched G f ev result ev'"
  by (cases p) auto

lemma entered_ok: "search_ok G ev \<Longrightarrow> search_ok G (entered_field f ev)"
  by (simp add: search_ok_def entered_field_def relied_def)

lemma boundary_errors_nonempty:
  assumes "bs \<noteq> []" "\<forall>b \<in> set bs. \<exists>name target location. b = AssumptionKind name target location"
  shows "concat (map (boundary_errors field) bs) \<noteq> []"
  using assms by (cases bs) (auto simp: boundary_errors_def)

text \<open>What the registration loop guarantees about the groups of assumption boundaries.\<close>

definition graph_ok :: "checker_graph \<Rightarrow> bool" where
  "graph_ok G \<longleftrightarrow> (\<forall>f bs. hm_get (cg_assumptions G) f = Some bs \<longrightarrow> concat (map (boundary_errors f) bs) \<noteq> [])"

lemma finite_fields: "finite (pv_fields (graph_provenance G))"
proof -
  have "pv_fields (graph_provenance G) = dom (hm_get (cg_fields G))"
    by (auto simp: graph_provenance_def)
  then show ?thesis by (simp add: finite_dom_map_of)
qed

lemma is_complete_assumed:
  assumes "graph_ok G" "search_ok G ev" "f \<in> pv_fields (graph_provenance G)" "f \<notin> ev_visiting ev"
    "\<not> root_field (cg_fields G) f" "hm_get (cg_assumptions G) f = Some bs" "hm_get (ev_memo ev) f = None"
  shows "\<exists>result ev'. is_complete (Suc n) G f ev = Some (result, ev') \<and> searched G f ev result ev'"
proof (cases "list_ex (boundary_accepted (cg_options G)) bs")
  case True
  let ?e = "(entered_field f ev)\<lparr>ev_used_assumption := True\<rparr>"
  have o: "f \<in> pv_origins (graph_provenance G)" using True assms(6) by (simp add: graph_provenance_def)
  have "provided True (relied G ?e) g" if "provided True (relied G ev) g" for g
    using that by (rule relied_grows) simp
  then have "search_ok G ?e" using assms(2,3,5) o by (auto simp: search_ok_def entered_field_def)
  moreover have "grows (entered_field f ev) ?e" by (simp add: grows_def)
  moreover have "provided True (relied G ?e) f" using o by (simp add: relied_def provided.origin)
  ultimately have "searched G f ev True (snd (leave_field f True ?e))" "fst (leave_field f True ?e) = True"
    using leave_searched [where result = True] assms(4) by simp_all
  moreover have "is_complete (Suc n) G f ev = Some (leave_field f True ?e)"
    using assms(4-7) True by (simp add: entered_field_def Let_def)
  ultimately show ?thesis by (blast intro: returned)
next
  case False
  let ?e = "(entered_field f ev)\<lparr>ev_errors := ev_errors ev @ concat (map (boundary_errors f) bs)\<rparr>"
  have "relied G ?e = relied G ev" by (simp add: relied_def entered_field_def)
  then have "search_ok G ?e" using assms(2) by (auto simp: search_ok_def entered_field_def)
  moreover have "grows (entered_field f ev) ?e" by (simp add: grows_def entered_field_def)
  moreover have "ev_errors ?e \<noteq> []" using assms(1,6) by (simp add: graph_ok_def)
  ultimately have "searched G f ev False (snd (leave_field f False ?e))" "fst (leave_field f False ?e) = False"
    using leave_searched [where result = False] assms(4) by simp_all
  moreover have "is_complete (Suc n) G f ev = Some (leave_field f False ?e)"
    using assms(4-7) False by (simp add: entered_field_def Let_def)
  ultimately show ?thesis by (blast intro: returned)
qed

lemma is_complete_produced:
  assumes "searches (is_complete n G) G (insert f (ev_visiting ev))" "search_ok G ev" "f \<notin> ev_visiting ev"
    "\<not> root_field (cg_fields G) f" "hm_get (cg_assumptions G) f = None" "hm_get (ev_memo ev) f = None"
  shows "\<exists>result ev'. is_complete (Suc n) G f ev = Some (result, ev') \<and> searched G f ev result ev'"
proof (cases "hm_get (cg_mappings G) f")
  case None
  let ?e = "push_error (missing_producer (cg_fields G) f (ev_path (entered_field f ev))) (entered_field f ev)"
  have "searched G f ev False (snd (leave_field f False ?e))" "fst (leave_field f False ?e) = False"
    using leave_searched [where result = False, OF push_error_ok [OF entered_ok [OF assms(2)]] push_error_grows assms(3)]
    by simp_all
  moreover have "is_complete (Suc n) G f ev = Some (leave_field f False ?e)"
    using assms(3-6) None by (simp add: entered_field_def Let_def)
  ultimately show ?thesis by (blast intro: returned)
next
  case (Some recipes)
  have "searches (is_complete n G) G (ev_visiting (entered_field f ev))"
    using assms(1) by (simp add: entered_field_def)
  from check_recipes_searched [OF this entered_ok [OF assms(2)]] obtain c ev1 where
    1: "check_recipes (is_complete n G) G recipes True (entered_field f ev) = Some (c, ev1)"
    "search_ok G ev1" "grows (entered_field f ev) ev1"
    and verdict: "if c then True \<and> inputs_ok G ev1 (set (concat (map recipe_inputs recipes)))
      else \<not> True \<or> ev_errors ev1 \<noteq> []" by blast
  have "provided True (relied G ev1) f" if c
  proof (rule provided.produced)
    show "pv_inputs (relied G ev1) f = Some (set (concat (map recipe_inputs recipes)))"
      using Some assms(5) by (simp add: relied_def graph_provenance_def)
    show "\<forall>(s, temporal) \<in> set (concat (map recipe_inputs recipes)). s \<in> pv_fields (relied G ev1) \<and>
        (provided True (relied G ev1) s \<or> True \<and> temporal \<and> s \<in> pv_seeded (relied G ev1))"
      using that verdict unfolding inputs_ok_def by simp
  qed
  then have "searched G f ev c (snd (leave_field f c ev1))" "fst (leave_field f c ev1) = c"
    using leave_searched [OF 1(2,3) assms(3), of c] verdict by (cases c; simp)+
  moreover have "is_complete (Suc n) G f ev = Some (leave_field f c ev1)"
    using assms(3-6) Some 1(1) by (simp add: entered_field_def Let_def)
  ultimately show ?thesis by (blast intro: returned)
qed

lemma is_complete_searches:
  assumes "graph_ok G" "card (pv_fields (graph_provenance G) - visiting) \<le> n"
  shows "searches (is_complete n G) G visiting"
  using assms(2)
proof (induction n arbitrary: visiting)
  case 0
  then have "pv_fields (graph_provenance G) - visiting = {}" using finite_fields by auto
  then show ?case by (auto simp: searches_def)
next
  case (Suc n)
  show ?case unfolding searches_def
  proof (intro allI impI)
    fix f ev
    assume f: "f \<in> pv_fields (graph_provenance G)" "f \<notin> visiting" "ev_visiting ev = visiting" "search_ok G ev"
    have "pv_fields (graph_provenance G) - insert f visiting = (pv_fields (graph_provenance G) - visiting) - {f}" by blast
    then have "card (pv_fields (graph_provenance G) - insert f visiting) \<le> n"
      using Suc.prems f(1,2) finite_fields by (simp add: card_Diff_singleton)
    then have self: "searches (is_complete n G) G (insert f (ev_visiting ev))" using Suc.IH f(3) by simp
    consider (memo) r where "hm_get (ev_memo ev) f = Some r"
      | (root) "hm_get (ev_memo ev) f = None" "root_field (cg_fields G) f"
      | (boundary) bs where "hm_get (ev_memo ev) f = None" "\<not> root_field (cg_fields G) f" "hm_get (cg_assumptions G) f = Some bs"
      | (producer) "hm_get (ev_memo ev) f = None" "\<not> root_field (cg_fields G) f" "hm_get (cg_assumptions G) f = None"
      by fastforce
    then show "\<exists>result ev'. is_complete (Suc n) G f ev = Some (result, ev') \<and> searched G f ev result ev'"
    proof cases
      case memo
      then have "searched G f ev r ev" using f(4) by (cases r) (auto simp: searched_def search_ok_def)
      then show ?thesis using memo by simp
    next
      case root
      have "relied G (memoize f True ev) = relied G ev" by (simp add: relied_def)
      then have "searched G f ev True (memoize f True ev)"
        using root f(4) relied_root [of G f ev] by (auto simp: searched_def search_ok_def grows_def)
      then show ?thesis using root by (intro exI [of _ True]) simp
    next
      case boundary
      then show ?thesis using is_complete_assumed [OF assms(1) f(4) f(1)] f(2,3) by simp
    next
      case producer
      then show ?thesis using is_complete_produced [OF self f(4)] f(2,3) by simp
    qed
  qed
qed

end
