(* ===== verification/Model_Checker_Verdict.thy ===== *)
theory Model_Checker_Verdict
  imports Model_Checker_Correct
begin

text \<open>
  The verdict of the information-completeness checker: the search accepts what is provided without
  excuse, the registration loop fills its tables from the descriptors, and \<open>check_references\<close> puts
  both together.
\<close>

section \<open>The search accepts\<close>

definition clean :: "checker_evaluation \<Rightarrow> bool" where
  "clean ev \<longleftrightarrow> ev_errors ev = [] \<and> (\<forall>f. hm_get (ev_memo ev) f \<noteq> Some False)"

definition below :: "checker_graph \<Rightarrow> rstring set \<Rightarrow> rstring \<Rightarrow> bool" where
  "below G visiting s \<longleftrightarrow> s \<in> pv_fields (graph_provenance G) \<and> provided False (graph_provenance G) s
     \<and> (\<forall>v \<in> visiting. (needs (graph_provenance G))\<^sup>+\<^sup>+ v s)"

definition accepts ::
  "(rstring \<Rightarrow> checker_evaluation \<Rightarrow> (bool \<times> checker_evaluation) option) \<Rightarrow> checker_graph \<Rightarrow> rstring set \<Rightarrow> bool" where
  "accepts self G visiting \<longleftrightarrow>
     (\<forall>s ev. below G visiting s \<longrightarrow> ev_visiting ev = visiting \<longrightarrow> clean ev \<longrightarrow>
        (\<exists>ev'. self s ev = Some (True, ev') \<and> clean ev' \<and> ev_visiting ev' = visiting))"

lemma below_fresh: "below G visiting s \<Longrightarrow> s \<notin> visiting"
  by (auto simp: below_def dest: provided_acyclic)

lemma check_sources_accept:
  assumes "accepts self G (ev_visiting ev)" "clean ev" "\<forall>s \<in> fst ` set srcs. below G (ev_visiting ev) s"
  shows "\<exists>ev'. check_sources self G name location srcs complete ev = Some (complete, ev')
    \<and> clean ev' \<and> ev_visiting ev' = ev_visiting ev"
  using assms
proof (induction srcs arbitrary: ev)
  case (Cons p srcs)
  obtain s t where p: "p = (s, t)" by fastforce
  have s: "below G (ev_visiting ev) s" using Cons.prems(3) by (simp add: p)
  then obtain ev1 where 1: "self s ev = Some (True, ev1)" "clean ev1" "ev_visiting ev1 = ev_visiting ev"
    using Cons.prems unfolding accepts_def by blast
  moreover have "hm_get (cg_fields G) s \<noteq> None" "s \<notin> ev_visiting ev"
    using s below_fresh by (auto simp: below_def graph_provenance_def)
  ultimately show ?case using Cons.IH [of ev1] Cons.prems by (auto simp: p)
qed simp

lemma check_recipes_accept:
  assumes "accepts self G (ev_visiting ev)" "clean ev"
    "\<forall>s \<in> fst ` set (concat (map recipe_inputs recipes)). below G (ev_visiting ev) s"
  shows "\<exists>ev'. check_recipes self G recipes complete ev = Some (complete, ev')
    \<and> clean ev' \<and> ev_visiting ev' = ev_visiting ev"
  using assms
proof (induction recipes arbitrary: ev)
  case (Cons recipe recipes)
  show ?case
  proof (cases recipe)
    case (MappingKind name sources target ts location)
    then have "\<forall>s \<in> fst ` set (zip sources ts). below G (ev_visiting ev) s"
      using Cons.prems(3) by (fastforce simp: recipe_inputs_def)
    from check_sources_accept [OF Cons.prems(1,2) this] obtain ev1 where
      "check_sources self G name location (zip sources ts) complete ev = Some (complete, ev1)"
      "clean ev1" "ev_visiting ev1 = ev_visiting ev" by blast
    moreover have "\<forall>s \<in> fst ` set (concat (map recipe_inputs recipes)). below G (ev_visiting ev) s"
      using Cons.prems(3) by (simp add: image_Un)
    ultimately show ?thesis using Cons.IH [of ev1] Cons.prems(1) MappingKind by simp
  qed (use Cons in \<open>simp_all add: recipe_inputs_def\<close>)
qed simp

lemma clean_leave:
  "clean ev \<Longrightarrow> clean (snd (leave_field f True ev))"
  "ev_visiting (snd (leave_field f r ev)) = ev_visiting ev - {f}"
  by (simp_all add: clean_def leave_field_def memoize_def)

lemma is_complete_accepts:
  "card (pv_fields (graph_provenance G) - visiting) \<le> n \<Longrightarrow> accepts (is_complete n G) G visiting"
proof (induction n arbitrary: visiting)
  case 0
  then have "pv_fields (graph_provenance G) - visiting = {}" using finite_fields by auto
  then have "\<not> below G visiting s" for s using below_fresh [of G visiting s] by (auto simp: below_def)
  then show ?case by (simp add: accepts_def)
next
  case (Suc n)
  let ?P = "graph_provenance G"
  show ?case unfolding accepts_def
  proof (intro allI impI)
    fix f ev
    assume f: "below G visiting f" "ev_visiting ev = visiting" "clean ev"
    let ?e = "entered_field f ev"
    have fresh: "f \<notin> visiting" using f(1) by (rule below_fresh)
    have e: "clean ?e" "ev_visiting ?e = insert f visiting"
      using f(2,3) by (simp_all add: clean_def entered_field_def)
    have "pv_fields ?P - insert f visiting = (pv_fields ?P - visiting) - {f}" by blast
    then have self: "accepts (is_complete n G) G (insert f visiting)"
      using Suc f(1) fresh finite_fields by (simp add: card_Diff_singleton below_def)
    show "\<exists>ev'. is_complete (Suc n) G f ev = Some (True, ev') \<and> clean ev' \<and> ev_visiting ev' = visiting"
    proof (cases "hm_get (ev_memo ev) f = None \<and> \<not> root_field (cg_fields G) f")
      case False
      show ?thesis
      proof (cases "hm_get (ev_memo ev) f")
        case None
        then show ?thesis using False f(2,3) by (simp add: clean_def)
      next
        case (Some r)
        then show ?thesis using f(2,3) by (cases r) (simp_all add: clean_def)
      qed
    next
      case True
      have leave: "\<exists>ev'. is_complete (Suc n) G f ev = Some (True, ev') \<and> clean ev' \<and> ev_visiting ev' = visiting"
        if "is_complete (Suc n) G f ev = Some (leave_field f True ev1)" "clean ev1" "ev_visiting ev1 = insert f visiting" for ev1
        using that clean_leave(1) [of ev1 f] clean_leave(2) [of f True ev1] fresh by (auto simp: leave_field_def)
      show ?thesis
      proof (cases "f \<in> pv_origins ?P")
        case boundary: True
        then obtain bs where "hm_get (cg_assumptions G) f = Some bs" "list_ex (boundary_accepted (cg_options G)) bs"
          using True by (auto simp: graph_provenance_def)
        then have "is_complete (Suc n) G f ev = Some (leave_field f True (?e\<lparr>ev_used_assumption := True\<rparr>))"
          using True fresh f(2) by (simp add: entered_field_def Let_def)
        moreover have "clean (?e\<lparr>ev_used_assumption := True\<rparr>)" using e(1) by (simp add: clean_def)
        moreover have "ev_visiting (?e\<lparr>ev_used_assumption := True\<rparr>) = insert f visiting" using e(2) by simp
        ultimately show ?thesis by (rule leave)
      next
        case producer: False
        then obtain inputs where inputs: "pv_inputs ?P f = Some inputs" "\<forall>(s, t) \<in> inputs. s \<in> pv_fields ?P \<and> provided False ?P s"
          using f(1) by (auto simp: below_def elim: provided_cases)
        then obtain recipes where r: "hm_get (cg_assumptions G) f = None" "hm_get (cg_mappings G) f = Some recipes"
          "inputs = set (concat (map recipe_inputs recipes))"
          by (auto simp: graph_provenance_def split: if_splits)
        have "below G (insert f visiting) s" if s: "s \<in> fst ` inputs" for s
        proof -
          have n: "needs ?P f s" using s producer inputs(1) by (simp add: needs_def)
          have "(needs ?P)\<^sup>+\<^sup>+ v s" if "v \<in> insert f visiting" for v
            using that n f(1) unfolding below_def by (blast intro: tranclp.intros)
          then show ?thesis using s inputs(2) by (auto simp: below_def)
        qed
        then obtain ev1 where "check_recipes (is_complete n G) G recipes True ?e = Some (True, ev1)"
          "clean ev1" "ev_visiting ev1 = insert f visiting"
          using check_recipes_accept [of "is_complete n G" G ?e recipes True] self e r(3) by auto
        moreover from this have "is_complete (Suc n) G f ev = Some (leave_field f True ev1)"
          using True fresh f(2) r by (simp add: entered_field_def Let_def)
        ultimately show ?thesis by (intro leave [of ev1])
      qed
    qed
  qed
qed

section \<open>The loop over the fields\<close>

lemma evaluate_fields_searched:
  assumes "graph_ok G" "search_ok G ev" "set fs \<subseteq> set (cg_fields G)" "hm_wf (cg_fields G)"
    "card (pv_fields (graph_provenance G)) \<le> n"
  shows "\<exists>ev'. evaluate_fields n G fs ev = Some ev' \<and> search_ok G ev'
    \<and> (\<exists>es. ev_errors ev' = ev_errors ev @ es)
    \<and> dom (hm_get (ev_memo ev)) \<union> fst ` set fs \<subseteq> dom (hm_get (ev_memo ev'))"
  using assms(2,3)
proof (induction fs arbitrary: ev)
  case (Cons p fs)
  obtain f d where p: "p = (f, d)" by fastforce
  have f: "hm_get (cg_fields G) f = Some d"
    using Cons.prems(2) by (intro iffD1 [OF hm_get_in [OF assms(4)]]) (simp add: p)
  show ?case
  proof (cases "root_field (cg_fields G) f")
    case True
    have "relied G (memoize f True ev) = relied G ev" by (simp add: relied_def)
    then have "search_ok G (memoize f True ev)"
      using True Cons.prems(1) relied_root [of G f ev] by (auto simp: search_ok_def)
    moreover have fs: "set fs \<subseteq> set (cg_fields G)" using Cons.prems(2) by simp
    ultimately obtain ev' where "evaluate_fields n G fs (memoize f True ev) = Some ev'" "search_ok G ev'"
      "\<exists>es. ev_errors ev' = ev_errors (memoize f True ev) @ es"
      "dom (hm_get (ev_memo (memoize f True ev))) \<union> fst ` set fs \<subseteq> dom (hm_get (ev_memo ev'))"
      using Cons.IH by blast
    moreover have "dom (hm_get (ev_memo (memoize f True ev))) = insert f (dom (hm_get (ev_memo ev)))"
      unfolding memoize_fields dom_fun_upd by simp
    moreover have "evaluate_fields n G (p # fs) ev = evaluate_fields n G fs (memoize f True ev)"
      using True f by (cases d) (simp_all add: p root_field_def)
    ultimately show ?thesis by (auto simp: p)
  next
    case False
    let ?ev = "ev\<lparr>ev_visiting := {}\<rparr>"
    have "f \<in> pv_fields (graph_provenance G)" using f by (simp add: graph_provenance_def)
    moreover have "search_ok G ?ev" "ev_visiting ?ev = {}"
      using Cons.prems(1) by (simp_all add: search_ok_def relied_def)
    moreover have "searches (is_complete n G) G {}" using is_complete_searches [OF assms(1)] assms(5) by simp
    ultimately obtain r ev1 where 1: "is_complete n G f ?ev = Some (r, ev1)" "searched G f ?ev r ev1"
      unfolding searches_def by blast
    moreover obtain es where es: "ev_errors ev1 = ev_errors ev @ es"
      and d: "insert f (dom (hm_get (ev_memo ev))) \<subseteq> dom (hm_get (ev_memo ev1))"
      using 1(2) by (auto simp: searched_def grows_def)
    moreover have "search_ok G ev1" using 1(2) by (simp add: searched_def)
    ultimately obtain ev' es' where "evaluate_fields n G fs ev1 = Some ev'" "search_ok G ev'"
      "ev_errors ev' = ev_errors ev1 @ es'"
      "dom (hm_get (ev_memo ev1)) \<union> fst ` set fs \<subseteq> dom (hm_get (ev_memo ev'))"
      using Cons.IH Cons.prems(2) by (metis list.set_intros(2) subset_code(1))
    moreover have "evaluate_fields n G (p # fs) ev = evaluate_fields n G fs ev1"
      using False f 1(1) by (cases d) (simp_all add: p root_field_def)
    moreover from calculation(4) d have
      "dom (hm_get (ev_memo ev)) \<union> fst ` set (p # fs) \<subseteq> dom (hm_get (ev_memo ev'))"
      unfolding p list.set image_insert fst_conv by blast
    ultimately show ?thesis using es by simp
  qed
qed simp

lemma evaluate_fields_accept:
  assumes "clean ev" "set fs \<subseteq> set (cg_fields G)" "hm_wf (cg_fields G)"
    "card (pv_fields (graph_provenance G)) \<le> n"
    "\<forall>f \<in> fst ` set fs. provided False (graph_provenance G) f"
  shows "\<exists>ev'. evaluate_fields n G fs ev = Some ev' \<and> clean ev'"
  using assms(1,2,5)
proof (induction fs arbitrary: ev)
  case (Cons p fs)
  obtain f d where p: "p = (f, d)" by fastforce
  have f: "hm_get (cg_fields G) f = Some d"
    using Cons.prems(2) by (intro iffD1 [OF hm_get_in [OF assms(3)]]) (simp add: p)
  have "clean (memoize f True ev)" using Cons.prems(1) by (simp add: clean_def)
  moreover obtain ev1 where "is_complete n G f (ev\<lparr>ev_visiting := {}\<rparr>) = Some (True, ev1)" "clean ev1"
  proof -
    have "below G {} f" using Cons.prems(3) f by (simp add: below_def p graph_provenance_def)
    moreover have "clean (ev\<lparr>ev_visiting := {}\<rparr>)" "ev_visiting (ev\<lparr>ev_visiting := {}\<rparr>) = {}"
      using Cons.prems(1) by (simp_all add: clean_def)
    moreover have "accepts (is_complete n G) G {}" using is_complete_accepts assms(4) by simp
    ultimately show ?thesis using that unfolding accepts_def by blast
  qed
  ultimately show ?case using Cons.IH Cons.prems by (auto simp: p)
qed simp

end
