(* ===== verification/Model_Registration.thy ===== *)
theory Model_Registration
  imports Model_Checker_Verdict
begin

text \<open>
  The registration loop of \<open>check_references\<close>: which errors it reports and what its tables hold. With
  distinct identifiers the provenance that the search sees is \<open>model_provenance\<close>, which is read off the
  set of descriptors alone.
\<close>

section \<open>The tables\<close>

fun is_field_descriptor :: "descriptor \<Rightarrow> bool" where
  "is_field_descriptor (FieldKind role field root location) = True"
| "is_field_descriptor d = False"

fun mapping_target :: "descriptor \<Rightarrow> rstring option" where
  "mapping_target (MappingKind name sources target ts location) = Some target"
| "mapping_target d = None"

fun assumption_target :: "descriptor \<Rightarrow> rstring option" where
  "assumption_target (AssumptionKind name target location) = Some target"
| "assumption_target d = None"

lemma register_tables:
  "rg_fields (fold register_descriptor ds rg) =
     fold (\<lambda>d. bt_insert (stable_id d) d) (filter is_field_descriptor ds) (rg_fields rg)"
  "rg_mappings (fold register_descriptor ds rg) =
     fold (\<lambda>d. bt_push (the (mapping_target d)) d) (filter (\<lambda>d. mapping_target d \<noteq> None) ds) (rg_mappings rg)"
  "rg_assumptions (fold register_descriptor ds rg) =
     fold (\<lambda>d. bt_push (the (assumption_target d)) d) (filter (\<lambda>d. assumption_target d \<noteq> None) ds) (rg_assumptions rg)"
proof (induction ds arbitrary: rg)
  case (Cons d ds)
  {
    case 1
    show ?case using Cons(1) by (cases d) (simp_all add: register_descriptor_def insert_descriptor_def)
  next
    case 2
    show ?case using Cons(2) by (cases d) (simp_all add: register_descriptor_def insert_descriptor_def)
  next
    case 3
    show ?case using Cons(3) by (cases d) (simp_all add: register_descriptor_def insert_descriptor_def)
  }
qed simp_all

lemma register_errors:
  "rg_errors (fold register_descriptor ds rg) = [] \<longleftrightarrow>
     rg_errors rg = [] \<and> distinct (map stable_id ds) \<and> stable_id ` set ds \<inter> rg_identifiers rg = {}"
proof (induction ds arbitrary: rg)
  case (Cons d ds)
  have "rg_errors (register_descriptor d rg) = [] \<longleftrightarrow> rg_errors rg = [] \<and> stable_id d \<notin> rg_identifiers rg"
    "rg_identifiers (register_descriptor d rg) = insert (stable_id d) (rg_identifiers rg)"
    by (cases d; auto simp: register_descriptor_def insert_descriptor_def)+
  then show ?case by (auto simp: Cons.IH)
qed simp

lemma inserted_fields:
  assumes "distinct (map stable_id ds)"
  shows "hm_get (fold (\<lambda>d. bt_insert (stable_id d) d) ds m) f =
    (case find (\<lambda>d. stable_id d = f) ds of None \<Rightarrow> hm_get m f | Some d \<Rightarrow> Some d)"
  using assms
proof (induction ds arbitrary: m)
  case (Cons d ds)
  have "find (\<lambda>e. stable_id e = stable_id d) ds = None"
    using Cons.prems unfolding find_None_iff by (simp, metis imageI)
  then show ?case using Cons by (auto split: option.splits)
qed simp

lemma fold_insert_bt_wf: "bt_wf m \<Longrightarrow> bt_wf (fold (\<lambda>d. bt_insert (stable_id d) d) ds m)"
  by (induction ds arbitrary: m) (simp_all add: bt_insert_wf)

lemma sorted_descriptors [simp]: "set (sort_key stable_id ds) = set ds"
  "distinct (map stable_id (sort_key stable_id ds)) \<longleftrightarrow> distinct (map stable_id ds)"
proof -
  have "mset (map stable_id (sort_key stable_id ds)) = mset (map stable_id ds)" by simp
  then show "distinct (map stable_id (sort_key stable_id ds)) \<longleftrightarrow> distinct (map stable_id ds)"
    by (rule mset_eq_imp_distinct_iff)
qed simp

lemma registered_tables:
  "rg_mappings (registered ds) = group_by (\<lambda>d. the (mapping_target d)) (\<lambda>d. d)
     (filter (\<lambda>d. mapping_target d \<noteq> None) (sort_key stable_id ds))"
  "rg_assumptions (registered ds) = group_by (\<lambda>d. the (assumption_target d)) (\<lambda>d. d)
     (filter (\<lambda>d. assumption_target d \<noteq> None) (sort_key stable_id ds))"
  by (simp_all add: registered_def register_tables group_by_def no_registration_def)

lemma registered_fields_wf: "hm_wf (rg_fields (registered ds))"
  unfolding registered_def register_tables no_registration_def
  by (intro bt_wf_distinct fold_insert_bt_wf) (simp add: bt_wf_def)

lemma registered_errors: "rg_errors (registered ds) = [] \<longleftrightarrow> distinct (map stable_id ds)"
  by (simp add: registered_def register_errors no_registration_def)

lemma distinct_ids_eq:
  "distinct (map stable_id ds) \<Longrightarrow> d \<in> set ds \<Longrightarrow> e \<in> set ds \<Longrightarrow> stable_id d = stable_id e \<Longrightarrow> d = e"
  by (auto simp: distinct_map inj_on_def)

lemma registered_field:
  assumes "distinct (map stable_id ds)"
  shows "hm_get (rg_fields (registered ds)) f = Some d \<longleftrightarrow> d \<in> set ds \<and> is_field_descriptor d \<and> stable_id d = f"
proof -
  let ?fs = "filter is_field_descriptor (sort_key stable_id ds)"
  have d: "distinct (map stable_id ?fs)"
    using assms by (simp add: distinct_map_filter)
  have "hm_get (rg_fields (registered ds)) f = find (\<lambda>d. stable_id d = f) ?fs"
    using inserted_fields [OF d] by (simp add: registered_def register_tables no_registration_def split: option.splits)
  also have "\<dots> = Some d \<longleftrightarrow> d \<in> set ?fs \<and> stable_id d = f"
  proof
    assume "find (\<lambda>d. stable_id d = f) ?fs = Some d"
    then show "d \<in> set ?fs \<and> stable_id d = f" unfolding find_Some_iff by (metis nth_mem)
  next
    assume a: "d \<in> set ?fs \<and> stable_id d = f"
    then obtain e where e: "find (\<lambda>d. stable_id d = f) ?fs = Some e"
      by (cases "find (\<lambda>d. stable_id d = f) ?fs") (auto simp: find_None_iff)
    then have "e \<in> set ?fs" "stable_id e = f" unfolding find_Some_iff by (metis nth_mem)+
    then have "e = d" using a d by (auto simp: distinct_map inj_on_def)
    then show "find (\<lambda>d. stable_id d = f) ?fs = Some d" using e by simp
  qed
  also have "\<dots> \<longleftrightarrow> d \<in> set ds \<and> is_field_descriptor d \<and> stable_id d = f" by auto
  finally show ?thesis .
qed

text \<open>A group is the list of the descriptors with that target.\<close>

lemma group_filter: "filter (\<lambda>d. the (t d) = f) (filter (\<lambda>d. t d \<noteq> None) xs) = filter (\<lambda>d. t d = Some f) xs"
  by (auto intro!: filter_cong)

lemma grouped:
  "hm_get (group_by (\<lambda>d. the (t d)) (\<lambda>d. d) (filter (\<lambda>d. t d \<noteq> None) xs)) f = Some rs \<longleftrightarrow>
     rs = filter (\<lambda>d. t d = Some f) xs \<and> rs \<noteq> []"
  unfolding group_by_get group_filter by (auto simp: Let_def)

lemma grouped_None:
  "hm_get (group_by (\<lambda>d. the (t d)) (\<lambda>d. d) (filter (\<lambda>d. t d \<noteq> None) xs)) f = None \<longleftrightarrow>
     (\<forall>d \<in> set xs. t d \<noteq> Some f)"
  unfolding group_by_get group_filter by (auto simp: Let_def filter_empty_conv)

section \<open>The provenance of a model\<close>

definition model_provenance :: "descriptor set \<Rightarrow> check_options \<Rightarrow> provenance" where
  "model_provenance D options =
     \<lparr>pv_fields = {f. \<exists>role root location. FieldKind role f root location \<in> D},
      pv_origins = {f. (\<exists>role location. FieldKind role f True location \<in> D) \<or>
        (\<exists>name location. AssumptionKind name f location \<in> D
           \<and> (co_allow_all_assumptions options \<or> name \<in> co_allowed_assumptions options))},
      pv_inputs = (\<lambda>f. if (\<exists>name location. AssumptionKind name f location \<in> D)
          \<or> (\<nexists>name sources ts location. MappingKind name sources f ts location \<in> D) then None
        else Some {input. \<exists>name sources ts location.
          MappingKind name sources f ts location \<in> D \<and> input \<in> set (zip sources ts)}),
      pv_seeded = {f. (\<exists>role location. FieldKind role f True location \<in> D) \<or>
        (\<exists>name sources ts location. MappingKind name sources f ts location \<in> D \<and> True \<notin> set ts)}\<rparr>"

definition well_registered :: "descriptor list \<Rightarrow> bool" where
  "well_registered ds \<longleftrightarrow> ds \<noteq> [] \<and> distinct (map stable_id ds) \<and>
     (\<forall>name sources target ts location. MappingKind name sources target ts location \<in> set ds \<longrightarrow>
        target \<in> pv_fields (model_provenance (set ds) default_options)) \<and>
     (\<forall>name target location. AssumptionKind name target location \<in> set ds \<longrightarrow>
        target \<in> pv_fields (model_provenance (set ds) default_options))"


lemma target_simps:
  "mapping_target d = Some f \<longleftrightarrow> (\<exists>name sources ts location. d = MappingKind name sources f ts location)"
  "assumption_target d = Some f \<longleftrightarrow> (\<exists>name location. d = AssumptionKind name f location)"
  "is_field_descriptor d \<and> stable_id d = f \<longleftrightarrow> (\<exists>role root location. d = FieldKind role f root location)"
  by (cases d; auto)+

lemma graph_tables:
  "hm_get (cg_mappings (graph_of ds options)) f = Some rs \<longleftrightarrow>
     rs = filter (\<lambda>d. mapping_target d = Some f) (sort_key stable_id ds) \<and> rs \<noteq> []"
  "hm_get (cg_assumptions (graph_of ds options)) f = Some rs \<longleftrightarrow>
     rs = filter (\<lambda>d. assumption_target d = Some f) (sort_key stable_id ds) \<and> rs \<noteq> []"
  "hm_get (cg_mappings (graph_of ds options)) f = None \<longleftrightarrow> (\<forall>d \<in> set ds. mapping_target d \<noteq> Some f)"
  "hm_get (cg_assumptions (graph_of ds options)) f = None \<longleftrightarrow> (\<forall>d \<in> set ds. assumption_target d \<noteq> Some f)"
  unfolding graph_of_def Let_def checker_graph.simps registered_tables grouped grouped_None sorted_descriptors
  by (rule refl)+

lemma model_graph:
  assumes "distinct (map stable_id ds)"
  shows "hm_get (cg_fields (graph_of ds options)) f = Some d \<longleftrightarrow>
      d \<in> set ds \<and> (\<exists>role root location. d = FieldKind role f root location)"
    and "hm_get (cg_mappings (graph_of ds options)) f = None \<longleftrightarrow>
      (\<nexists>name sources ts location. MappingKind name sources f ts location \<in> set ds)"
    and "hm_get (cg_assumptions (graph_of ds options)) f = None \<longleftrightarrow>
      (\<nexists>name location. AssumptionKind name f location \<in> set ds)"
  unfolding graph_tables target_simps using assms
  by (auto simp: graph_of_def Let_def registered_field target_simps(3))

lemma model_groups:
  "hm_get (cg_mappings (graph_of ds options)) f = Some rs \<Longrightarrow>
     d \<in> set rs \<longleftrightarrow> d \<in> set ds \<and> (\<exists>name sources ts location. d = MappingKind name sources f ts location)"
  "hm_get (cg_assumptions (graph_of ds options)) f = Some bs \<Longrightarrow>
     d \<in> set bs \<longleftrightarrow> d \<in> set ds \<and> (\<exists>name location. d = AssumptionKind name f location)"
  unfolding graph_tables target_simps by auto

lemma model_root:
  assumes "distinct (map stable_id ds)"
  shows "root_field (cg_fields (graph_of ds options)) f \<longleftrightarrow> (\<exists>role location. FieldKind role f True location \<in> set ds)"
proof (cases "hm_get (cg_fields (graph_of ds options)) f")
  case None
  then have "FieldKind role f root location \<notin> set ds" for role root location
    using model_graph(1) [OF assms, of options f "FieldKind role f root location"] by auto
  then show ?thesis using None by (simp add: root_field_def)
next
  case (Some d)
  then obtain role root location where d: "d = FieldKind role f root location" "d \<in> set ds"
    using model_graph(1) [OF assms] by blast
  have "FieldKind role' f root' location' = d" if "FieldKind role' f root' location' \<in> set ds" for role' root' location'
    using distinct_ids_eq [OF assms that d(2)] by (simp add: d(1))
  then have "root" if "FieldKind role' f True location' \<in> set ds" for role' location'
    using that d(1) by fastforce
  moreover have "root_field (cg_fields (graph_of ds options)) f = root" by (simp add: root_field_def Some d(1))
  ultimately show ?thesis using d by metis
qed

lemma model_seeded:
  assumes "distinct (map stable_id ds)"
  shows "has_non_temporal_seed f (cg_fields (graph_of ds options)) (cg_mappings (graph_of ds options)) \<longleftrightarrow>
    f \<in> pv_seeded (model_provenance (set ds) options)"
proof (cases "hm_get (cg_mappings (graph_of ds options)) f")
  case None
  then show ?thesis
    using model_graph(2) [OF assms, of options f] model_root [OF assms]
    by (auto simp: has_non_temporal_seed_def model_provenance_def)
next
  case (Some rs)
  have "list_ex (\<lambda>recipe. case recipe of MappingKind name sources target ts location \<Rightarrow> list_all (\<lambda>t. \<not> t) ts | _ \<Rightarrow> False) rs
      \<longleftrightarrow> (\<exists>name sources ts location. MappingKind name sources f ts location \<in> set ds \<and> True \<notin> set ts)"
  proof -
    have "list_all (\<lambda>t. \<not> t) ts \<longleftrightarrow> True \<notin> set ts" for ts by (auto simp: list_all_iff)
    then show ?thesis using model_groups(1) [OF Some] unfolding list_ex_iff by (auto split: descriptor.splits) blast+
  qed
  then show ?thesis using Some model_root [OF assms]
    by (simp add: has_non_temporal_seed_def model_provenance_def)
qed

lemma model_accepted:
  "(\<exists>bs. hm_get (cg_assumptions (graph_of ds options)) f = Some bs \<and> list_ex (boundary_accepted options) bs) \<longleftrightarrow>
   (\<exists>name location. AssumptionKind name f location \<in> set ds
      \<and> (co_allow_all_assumptions options \<or> name \<in> co_allowed_assumptions options))"
proof -
  have "hm_get (cg_assumptions (graph_of ds options)) f \<noteq> None" if "AssumptionKind name f location \<in> set ds" for name location
    using that unfolding graph_tables target_simps by blast
  moreover have "list_ex (boundary_accepted options) bs \<longleftrightarrow>
      (\<exists>name location. AssumptionKind name f location \<in> set ds
        \<and> (co_allow_all_assumptions options \<or> name \<in> co_allowed_assumptions options))"
    if "hm_get (cg_assumptions (graph_of ds options)) f = Some bs" for bs
    using model_groups(2) [OF that] unfolding list_ex_iff
    by (auto simp: boundary_accepted_def split: descriptor.splits) blast+
  ultimately show ?thesis by blast
qed

lemma model_inputs:
  assumes "hm_get (cg_mappings (graph_of ds options)) f = Some rs"
  shows "set (concat (map recipe_inputs rs)) = {input. \<exists>name sources ts location.
    MappingKind name sources f ts location \<in> set ds \<and> input \<in> set (zip sources ts)}"
proof -
  have "set (concat (map recipe_inputs rs)) = (\<Union>r \<in> set rs. set (recipe_inputs r))" by auto
  also have "set rs = {d \<in> set ds. \<exists>name sources ts location. d = MappingKind name sources f ts location}"
    using model_groups(1) [OF assms] by blast
  also have "(\<Union>r \<in> \<dots>. set (recipe_inputs r)) = {input. \<exists>name sources ts location.
      MappingKind name sources f ts location \<in> set ds \<and> input \<in> set (zip sources ts)}"
    by (auto simp: recipe_inputs_def)
  finally show ?thesis .
qed

lemma model_graph_provenance:
  assumes "distinct (map stable_id ds)"
  shows "graph_provenance (graph_of ds options) = model_provenance (set ds) options"
proof -
  let ?G = "graph_of ds options" and ?M = "model_provenance (set ds) options"
  have "cg_options ?G = options" by (simp add: graph_of_def Let_def)
  then have "pv_origins (graph_provenance ?G) = pv_origins ?M"
    using model_root [OF assms, of options] model_accepted [of ds options]
    by (simp add: graph_provenance_def model_provenance_def)
  moreover have "pv_fields (graph_provenance ?G) = pv_fields ?M"
    using model_graph(1) [OF assms, of options] by (fastforce simp: graph_provenance_def model_provenance_def)
  moreover have "pv_seeded (graph_provenance ?G) = pv_seeded ?M"
    using model_seeded [OF assms, of _ options] by (auto simp: graph_provenance_def)
  moreover have "pv_inputs (graph_provenance ?G) f = pv_inputs ?M f" for f
  proof (cases "hm_get (cg_mappings ?G) f")
    case None
    then show ?thesis using model_graph(2) [OF assms, of options f]
      by (simp add: graph_provenance_def model_provenance_def)
  next
    case (Some rs)
    then show ?thesis using model_graph(2,3) [OF assms, of options f] model_inputs [OF Some]
      by (cases "hm_get (cg_assumptions ?G) f") (simp_all add: graph_provenance_def model_provenance_def del: set_concat)
  qed
  ultimately show ?thesis by (simp add: fun_eq_iff provenance.equality)
qed

lemma model_graph_ok: "graph_ok (graph_of ds options)"
  unfolding graph_ok_def
proof (intro allI impI)
  fix f bs
  assume "hm_get (cg_assumptions (graph_of ds options)) f = Some bs"
  then have "bs = filter (\<lambda>d. assumption_target d = Some f) (sort_key stable_id ds)" "bs \<noteq> []"
    unfolding graph_tables by blast+
  then show "concat (map (boundary_errors f) bs) \<noteq> []"
    by (intro boundary_errors_nonempty) (auto simp: target_simps)
qed

lemma target_errors_group:
  "target_errors field_map (group_by (\<lambda>d. the (t d)) (\<lambda>d. d) (filter (\<lambda>d. t d \<noteq> None) xs)) = [] \<longleftrightarrow>
     (\<forall>d \<in> set xs. \<forall>f. t d = Some f \<longrightarrow> hm_contains field_map f)"
proof -
  have "(f, rs) \<in> set (group_by (\<lambda>d. the (t d)) (\<lambda>d. d) (filter (\<lambda>d. t d \<noteq> None) xs)) \<longleftrightarrow>
      rs = filter (\<lambda>d. t d = Some f) xs \<and> rs \<noteq> []" for f rs
    unfolding group_by_in group_filter by simp
  then show ?thesis
    unfolding target_errors_def by (fastforce simp: filter_empty_conv split: if_splits)
qed

lemma registration_clean:
  assumes "ds \<noteq> []" "fields' = rg_fields (registered ds)"
  shows "rg_errors (registered ds) @ target_errors fields' (rg_mappings (registered ds))
      @ target_errors fields' (rg_assumptions (registered ds)) = [] \<longleftrightarrow> well_registered ds"
proof (cases "distinct (map stable_id ds)")
  case True
  have "hm_contains fields' f \<longleftrightarrow> f \<in> pv_fields (model_provenance (set ds) default_options)" for f
  proof -
    have "hm_contains fields' f \<longleftrightarrow> (\<exists>d. hm_get (cg_fields (graph_of ds default_options)) f = Some d)"
      by (auto simp: hm_contains_def assms(2) graph_of_def Let_def split: option.splits)
    then show ?thesis using model_graph(1) [OF True] by (auto simp: model_provenance_def)
  qed
  then show ?thesis using True assms(1)
    unfolding registered_tables append_is_Nil_conv target_errors_group registered_errors well_registered_def target_simps
      sorted_descriptors by blast
qed (simp add: registered_errors well_registered_def)

section \<open>The verdict\<close>

text \<open>The last state of the evaluation, its errors and the report made of them.\<close>

lemma check_evaluates:
  assumes "ds \<noteq> []"
  obtains ev where
    "check_references ds options = Some (if ev_errors ev = []
       then Inr \<lparr>cr_status = (if ev_used_assumption ev then Assumed else Verified),
         cr_warnings = sort_diagnostics (model_warnings (rg_fields (registered ds)) (rg_mappings (registered ds)))\<rparr>
       else Inl \<lparr>ce_diagnostics = sort_diagnostics (ev_errors ev)\<rparr>)"
    "search_ok (graph_of ds options) ev"
    "ev_errors ev = [] \<Longrightarrow> well_registered ds"
    "fst ` set (cg_fields (graph_of ds options)) \<subseteq> dom (hm_get (ev_memo ev))"
    "well_registered ds \<Longrightarrow> \<forall>f \<in> pv_fields (model_provenance (set ds) options).
       provided False (model_provenance (set ds) options) f \<Longrightarrow> ev_errors ev = []"
proof -
  let ?rg = "registered ds" and ?G = "graph_of ds options"
  let ?errors = "rg_errors ?rg @ target_errors (rg_fields ?rg) (rg_mappings ?rg)
    @ target_errors (rg_fields ?rg) (rg_assumptions ?rg)"
  let ?run = "evaluate_fields (length (rg_fields ?rg)) ?G (rg_fields ?rg) (initial_evaluation ?errors)"
  have fields: "cg_fields ?G = rg_fields ?rg" by (simp add: graph_of_def Let_def)
  have wf: "hm_wf (cg_fields ?G)" unfolding fields by (rule registered_fields_wf)
  have "pv_fields (graph_provenance ?G) = fst ` set (rg_fields ?rg)"
    by (auto simp: graph_provenance_def fields dom_map_of_conv_image_fst [symmetric] simp del: dom_map_of_conv_image_fst)
  then have fuel: "card (pv_fields (graph_provenance ?G)) \<le> length (rg_fields ?rg)"
    using card_image_le [of "set (rg_fields ?rg)" fst] card_length [of "rg_fields ?rg"] by simp
  have "search_ok ?G (initial_evaluation ?errors)" by (simp add: search_ok_def initial_evaluation_def)
  from evaluate_fields_searched [OF model_graph_ok this _ wf fuel, of "rg_fields ?rg"] obtain ev es where
    ev: "?run = Some ev" "search_ok ?G ev" "ev_errors ev = ?errors @ es" "fst ` set (cg_fields ?G) \<subseteq> dom (hm_get (ev_memo ev))"
    by (auto simp: fields initial_evaluation_def)
  have empty: "sort_diagnostics ds = [] \<longleftrightarrow> ds = []" for ds
    by (metis length_0_conv length_sort sort_diagnostics_def)
  show ?thesis
  proof (rule that)
    show "check_references ds options = Some (if ev_errors ev = []
       then Inr \<lparr>cr_status = (if ev_used_assumption ev then Assumed else Verified),
         cr_warnings = sort_diagnostics (model_warnings (rg_fields ?rg) (rg_mappings ?rg))\<rparr>
       else Inl \<lparr>ce_diagnostics = sort_diagnostics (ev_errors ev)\<rparr>)"
      unfolding check_references_def Let_def ev(1) using assms by (simp add: empty)
    show "well_registered ds" if "ev_errors ev = []"
      using registration_clean [OF assms refl] that unfolding ev(3) by simp
    show "ev_errors ev = []" if "well_registered ds"
      "\<forall>f \<in> pv_fields (model_provenance (set ds) options). provided False (model_provenance (set ds) options) f"
    proof -
      have d: "distinct (map stable_id ds)" using that(1) by (simp add: well_registered_def)
      have "?errors = []" using registration_clean [OF assms refl] that(1) by simp
      then have "clean (initial_evaluation ?errors)" by (simp add: clean_def initial_evaluation_def)
      moreover have "\<forall>f \<in> fst ` set (rg_fields ?rg). provided False (graph_provenance ?G) f"
        using that(2) \<open>pv_fields (graph_provenance ?G) = _\<close> unfolding model_graph_provenance [OF d] by simp
      ultimately obtain ev' where "?run = Some ev'" "clean ev'"
        using evaluate_fields_accept [OF _ _ wf fuel] unfolding fields by blast
      then show ?thesis using ev(1) by (simp add: clean_def)
    qed
  qed (use ev in simp_all)
qed

lemma check_outcome:
  assumes "ds \<noteq> []"
  shows "\<exists>ev :: checker_evaluation. check_references ds options = Some (if ev_errors ev = []
       then Inr \<lparr>cr_status = (if ev_used_assumption ev then Assumed else Verified),
         cr_warnings = sort_diagnostics (model_warnings (rg_fields (registered ds)) (rg_mappings (registered ds)))\<rparr>
       else Inl \<lparr>ce_diagnostics = sort_diagnostics (ev_errors ev)\<rparr>)"
  by (rule check_evaluates [OF assms, of options], rule exI, assumption)

lemma graph_of_options: "(graph_of ds options)\<lparr>cg_options := options'\<rparr> = graph_of ds options'"
  by (simp add: graph_of_def Let_def)

lemma relied_model:
  assumes "distinct (map stable_id ds)"
  shows "relied (graph_of ds options) ev =
    model_provenance (set ds) (if ev_used_assumption ev then options else default_options)"
  using model_graph_provenance [OF assms] by (simp add: relied_def graph_of_options)

lemma checked_provided:
  assumes "check_references ds options = Some (Inr report)"
  obtains ev where "well_registered ds" "search_ok (graph_of ds options) ev"
    "cr_status report = (if ev_used_assumption ev then Assumed else Verified)"
    "\<forall>f \<in> pv_fields (model_provenance (set ds) options).
      provided True (model_provenance (set ds) (if cr_status report = Assumed then options else default_options)) f"
proof -
  have ds: "ds \<noteq> []" using assms by (auto simp: check_references_def)
  let ?G = "graph_of ds options" and ?M = "model_provenance (set ds)"
  obtain ev where ev: "ev_errors ev = []" "search_ok ?G ev" "well_registered ds"
    "fst ` set (cg_fields ?G) \<subseteq> dom (hm_get (ev_memo ev))"
    "cr_status report = (if ev_used_assumption ev then Assumed else Verified)"
    by (rule check_evaluates [OF ds, of options]) (use assms in \<open>simp split: if_splits\<close>)
  have d: "distinct (map stable_id ds)" using ev(3) by (simp add: well_registered_def)
  have "provided True (?M (if cr_status report = Assumed then options else default_options)) f"
    if "f \<in> pv_fields (?M options)" for f
  proof -
    have "f \<in> dom (hm_get (cg_fields ?G))"
      using that unfolding model_graph_provenance [OF d, symmetric] by (auto simp: graph_provenance_def)
    then have "f \<in> dom (hm_get (ev_memo ev))" using ev(4) by (auto simp: dom_map_of_conv_image_fst)
    then obtain r where r: "hm_get (ev_memo ev) f = Some r" by blast
    then have r using ev(1,2) unfolding search_ok_def by (cases r) auto
    then have "provided True (relied ?G ev) f" using r ev(2) unfolding search_ok_def by simp
    then show ?thesis using ev(5) unfolding relied_model [OF d] by (cases "ev_used_assumption ev") simp_all
  qed
  then show ?thesis using that ev by blast
qed

lemma provided_default: "provided e (model_provenance D default_options) f \<Longrightarrow> provided e (model_provenance D options) f"
  by (erule provided_origins) (auto simp: model_provenance_def default_options_def)

lemma provided_plain:
  assumes "\<forall>name sources target ts location. MappingKind name sources target ts location \<in> D \<longrightarrow> True \<notin> set ts"
    and "provided True (model_provenance D options) f"
  shows "provided False (model_provenance D options) f"
  using assms(2)
proof (induction rule: provided.induct)
  case (produced f inputs)
  have "\<not> t" if "(s, t) \<in> inputs" for s t
    using produced(1) that assms(1) by (auto simp: model_provenance_def split: if_splits) (metis (full_types) set_zip_rightD)
  then show ?case using produced by (intro provided.produced [OF produced(1)]) blast
qed (rule provided.origin)

end
