(* ===== verification/Model_Checker_Properties.thy ===== *)
theory Model_Checker_Properties
  imports Model_Registration
begin

text \<open>
  The properties of the information-completeness checker, and a model whose verdict depends on the
  names of its fields.
\<close>

section \<open>Sample models\<close>

text \<open>
  An amount is recorded, a balance carries itself from one state to the next, a view shows the balance.
\<close>

definition balance_model :: "descriptor list" where
  "balance_model =
     [descriptor_field (lit ''output'') (lit ''v'') False,
      descriptor_field (lit ''input'') (lit ''i'') True,
      descriptor_field (lit ''state'') (lit ''b'') False,
      descriptor_mapping (lit ''R'') [lit ''b'', lit ''i''] (lit ''b'') [True, False],
      descriptor_mapping (lit ''S'') [lit ''i''] (lit ''b'') [False],
      descriptor_mapping (lit ''V'') [lit ''b''] (lit ''v'') [False]]"

definition plain_model :: "descriptor list" where
  "plain_model =
     [descriptor_field (lit ''output'') (lit ''v'') False,
      descriptor_field (lit ''input'') (lit ''i'') True,
      descriptor_assumption (lit ''A'') (lit ''e''),
      descriptor_field (lit ''event'') (lit ''e'') False,
      descriptor_mapping (lit ''V'') [lit ''i'', lit ''e''] (lit ''v'') [False, False]]"

text \<open>
  \<open>next\<close> takes \<open>carried\<close> as a temporal input and \<open>carried\<close> is an ordinary function of \<open>next\<close>; both have
  a non-temporal mapping.
\<close>

definition feedback_model :: "rstring \<Rightarrow> rstring \<Rightarrow> descriptor list" where
  "feedback_model carried following =
     [descriptor_field (lit ''input'') (lit ''r'') True,
      descriptor_field (lit ''state'') carried False,
      descriptor_field (lit ''output'') following False,
      descriptor_mapping (lit ''F'') [carried] following [True],
      descriptor_mapping (lit ''S'') [lit ''r''] following [False],
      descriptor_mapping (lit ''C'') [following] carried [False]]"

section \<open>Properties\<close>

text \<open>
  C37. A successful check is sound: the descriptors have distinct identifiers and modeled targets, and
  every modeled field has a provenance in the sense of the specification, without any assumption when
  the status is \<open>Verified\<close>; the status \<open>Assumed\<close> means that a non-root field is provided by an accepted
  assumption.
\<close>

theorem checker_sound:
  assumes "check_references ds options = Some (Inr report)"
  shows "well_registered ds
    \<and> (\<forall>f \<in> pv_fields (model_provenance (set ds) options).
        provided True (model_provenance (set ds) (if cr_status report = Assumed then options else default_options)) f)
    \<and> (cr_status report = Assumed \<longrightarrow>
        (\<exists>name f location role location'. AssumptionKind name f location \<in> set ds
          \<and> FieldKind role f False location' \<in> set ds
          \<and> (co_allow_all_assumptions options \<or> name \<in> co_allowed_assumptions options)))"
proof -
  let ?G = "graph_of ds options" and ?M = "model_provenance (set ds)"
  obtain ev where ev: "well_registered ds" "search_ok ?G ev"
    "cr_status report = (if ev_used_assumption ev then Assumed else Verified)"
    "\<forall>f \<in> pv_fields (?M options). provided True (?M (if cr_status report = Assumed then options else default_options)) f"
    using assms by (rule checked_provided)
  have d: "distinct (map stable_id ds)" using ev(1) by (simp add: well_registered_def)
  have "\<exists>name f location role location'. AssumptionKind name f location \<in> set ds
      \<and> FieldKind role f False location' \<in> set ds
      \<and> (co_allow_all_assumptions options \<or> name \<in> co_allowed_assumptions options)"
    if "cr_status report = Assumed"
  proof -
    have "ev_used_assumption ev" using that ev(3) by (simp split: if_splits)
    then obtain f where "f \<in> pv_fields (?M options)" "\<not> root_field (cg_fields ?G) f" "f \<in> pv_origins (?M options)"
      using ev(2) unfolding search_ok_def model_graph_provenance [OF d] by blast
    then obtain role root location where field: "FieldKind role f root location \<in> set ds"
      by (auto simp: model_provenance_def)
    moreover have "\<not> root"
      using field \<open>\<not> root_field (cg_fields ?G) f\<close> unfolding model_root [OF d] by (cases root) auto
    moreover obtain name location where "AssumptionKind name f location \<in> set ds"
      "co_allow_all_assumptions options \<or> name \<in> co_allowed_assumptions options"
      using \<open>f \<in> pv_origins (?M options)\<close> \<open>\<not> root_field (cg_fields ?G) f\<close> unfolding model_root [OF d]
      by (auto simp: model_provenance_def)
    ultimately show ?thesis by (cases root) auto
  qed
  then show ?thesis using ev(1,4) by blast
qed

theorem checker_sound_witness:
  "provided True (model_provenance (set balance_model) default_options) (lit ''v'')"
proof -
  have "check_references balance_model default_options = Some (Inr \<lparr>cr_status = Verified, cr_warnings = []\<rparr>)"
    by code_simp
  moreover have "lit ''v'' \<in> pv_fields (model_provenance (set balance_model) default_options)"
    by (auto simp: model_provenance_def balance_model_def descriptor_field_def field_at_def)
  ultimately show ?thesis using checker_sound [of balance_model default_options] by fastforce
qed

text \<open>
  C38. On models without temporal inputs the checker decides completeness: it succeeds exactly when the
  registration is well-formed and every modeled field has a provenance from roots and accepted
  assumptions alone. On any model this is sufficient.
\<close>

theorem checker_exact:
  assumes "\<forall>name sources target ts location. MappingKind name sources target ts location \<in> set ds \<longrightarrow> True \<notin> set ts"
  shows "(\<exists>report. check_references ds options = Some (Inr report)) \<longleftrightarrow>
    well_registered ds \<and> (\<forall>f \<in> pv_fields (model_provenance (set ds) options).
      provided False (model_provenance (set ds) options) f)"
proof
  let ?M = "model_provenance (set ds)"
  assume "\<exists>report. check_references ds options = Some (Inr report)"
  then obtain report where "check_references ds options = Some (Inr report)" by blast
  then obtain "well_registered ds" "\<forall>f \<in> pv_fields (?M options). provided True (?M options) f"
    by (rule checked_provided) (auto intro: provided_default split: if_splits)
  then show "well_registered ds \<and> (\<forall>f \<in> pv_fields (?M options). provided False (?M options) f)"
    using provided_plain [OF assms] by blast
next
  assume r: "well_registered ds \<and> (\<forall>f \<in> pv_fields (model_provenance (set ds) options).
      provided False (model_provenance (set ds) options) f)"
  then have "ds \<noteq> []" by (simp add: well_registered_def)
  then show "\<exists>report. check_references ds options = Some (Inr report)"
    by (rule check_evaluates [of ds options]) (use r in simp)
qed

theorem checker_exact_witness:
  "provided False (model_provenance (set plain_model) (allow_assumption (lit ''A'') default_options)) (lit ''v'')"
proof -
  let ?options = "allow_assumption (lit ''A'') default_options"
  have "\<forall>name sources target ts location. MappingKind name sources target ts location \<in> set plain_model \<longrightarrow> True \<notin> set ts"
    by (simp add: plain_model_def descriptor_field_def field_at_def descriptor_mapping_def mapping_at_def
      descriptor_assumption_def assumption_at_def)
  moreover have "check_references plain_model ?options = Some (Inr \<lparr>cr_status = Assumed, cr_warnings = []\<rparr>)"
    by code_simp
  moreover have "lit ''v'' \<in> pv_fields (model_provenance (set plain_model) ?options)"
    by (auto simp: model_provenance_def plain_model_def descriptor_field_def field_at_def)
  ultimately show ?thesis using checker_exact [of plain_model ?options] by blast
qed

text \<open>
  C39. The check always reports: it ends with a successful report or with at least one diagnostic, both
  sorted by code and subject, and with distinct identifiers the outcome does not depend on the order in
  which the descriptors were registered.
\<close>

theorem checker_reports:
  "((\<exists>e. check_references ds options = Some (Inl e) \<and> ce_diagnostics e \<noteq> []
        \<and> sorted (map (\<lambda>d. (dg_code d, dg_subject d)) (ce_diagnostics e)))
    \<or> (\<exists>r. check_references ds options = Some (Inr r)
        \<and> sorted (map (\<lambda>d. (dg_code d, dg_subject d)) (cr_warnings r))))
   \<and> (distinct (map stable_id ds) \<and> mset ds = mset ds' \<longrightarrow> check_references ds' options = check_references ds options)"
proof -
  have sorted: "sorted (map (\<lambda>d. (dg_code d, dg_subject d)) (sort_diagnostics es))"
    "sort_diagnostics es = [] \<longleftrightarrow> es = []" for es
    by (simp_all add: sort_diagnostics_def) (metis length_0_conv length_sort)
  have "(\<exists>e. check_references ds options = Some (Inl e) \<and> ce_diagnostics e \<noteq> []
        \<and> sorted (map (\<lambda>d. (dg_code d, dg_subject d)) (ce_diagnostics e)))
    \<or> (\<exists>r. check_references ds options = Some (Inr r)
        \<and> sorted (map (\<lambda>d. (dg_code d, dg_subject d)) (cr_warnings r)))"
  proof (cases "ds = []")
    case True
    then show ?thesis by (simp add: check_references_def)
  next
    case False
    obtain ev :: checker_evaluation where "check_references ds options = Some (if ev_errors ev = []
       then Inr \<lparr>cr_status = (if ev_used_assumption ev then Assumed else Verified),
         cr_warnings = sort_diagnostics (model_warnings (rg_fields (registered ds)) (rg_mappings (registered ds)))\<rparr>
       else Inl \<lparr>ce_diagnostics = sort_diagnostics (ev_errors ev)\<rparr>)"
      using check_outcome [OF False] by blast
    then show ?thesis by (simp add: sorted)
  qed
  moreover have "check_references ds' options = check_references ds options"
    if "distinct (map stable_id ds)" "mset ds = mset ds'"
  proof -
    have "sort_key stable_id ds = sort_key stable_id ds'"
      using that by (intro sort_key_inj_key_eq) (simp_all add: distinct_map)
    then have "registered ds' = registered ds" by (simp add: registered_def)
    moreover from this have "graph_of ds' options = graph_of ds options" by (simp add: graph_of_def)
    moreover have "ds' = [] \<longleftrightarrow> ds = []" using that(2) by auto
    ultimately show ?thesis by (simp add: check_references_def)
  qed
  ultimately show ?thesis by blast
qed

theorem checker_reports_witness:
  "check_references (rev balance_model) default_options = check_references balance_model default_options"
proof -
  have "distinct (map stable_id balance_model)" by code_simp
  then show ?thesis using checker_reports [of balance_model default_options "rev balance_model"] by simp
qed

text \<open>
  The verdict on temporal models depends on the order of the names of the fields: a temporal source that
  is not being visited is searched like an ordinary one, and the ordinary link back then closes a cycle.
\<close>

lemma verdict_depends_on_names:
  "\<exists>e. check_references (feedback_model (lit ''x'') (lit ''a'')) default_options = Some (Inl e)"
  "\<exists>warnings. check_references (feedback_model (lit ''a'') (lit ''x'')) default_options =
     Some (Inr \<lparr>cr_status = Verified, cr_warnings = warnings\<rparr>)"
proof -
  have "(case check_references (feedback_model (lit ''x'') (lit ''a'')) default_options of Some (Inl e) \<Rightarrow> True | _ \<Rightarrow> False)"
    by code_simp
  then show "\<exists>e. check_references (feedback_model (lit ''x'') (lit ''a'')) default_options = Some (Inl e)"
    by (simp split: option.splits sum.splits)
  have "check_references (feedback_model (lit ''a'') (lit ''x'')) default_options =
      Some (Inr \<lparr>cr_status = Verified, cr_warnings = []\<rparr>)"
    by code_simp
  then show "\<exists>warnings. check_references (feedback_model (lit ''a'') (lit ''x'')) default_options =
      Some (Inr \<lparr>cr_status = Verified, cr_warnings = warnings\<rparr>)" by blast
qed

end
