(* ===== verification/Modeled_Runtime.thy ===== *)
theory Modeled_Runtime
  imports Execute_Pipeline Projection_Runs Sample_Projection
begin

text \<open>
  The runtime lane of \<open>eventcore/src/model.rs\<close>: modeled values, the command adapter that runs a modeled
  command through the executor, and the projection adapter that runs a modeled projection with its sink
  through the projection runner. The traits an application implements are dictionaries.
\<close>

section \<open>Modeled values\<close>

datatype 'a modeled = Modeled (modeled_inner: 'a)

definition from_built :: "'a \<Rightarrow> 'a modeled" where
  "from_built value = Modeled value"

definition modeled_into_inner :: "'a modeled \<Rightarrow> 'a" where
  "modeled_into_inner m = (case m of Modeled value \<Rightarrow> value)"

type_synonym 'ev modeled_events = "'ev modeled list"

definition modeled_one :: "'ev modeled \<Rightarrow> 'ev modeled_events" where
  "modeled_one event = [event]"

definition modeled_none :: "rstring \<Rightarrow> 'ev modeled_events" where
  "modeled_none reason = []"

definition modeled_push :: "'ev modeled \<Rightarrow> 'ev modeled_events \<Rightarrow> 'ev modeled_events" where
  "modeled_push event events = events @ [event]"

definition into_new_events :: "'ev modeled_events \<Rightarrow> 'ev list" where
  "into_new_events events = map modeled_into_inner events"

section \<open>Commands\<close>

record ('ev, 's, 'x) model_command_logic =
  mc_event :: "'ev event_type"
  mc_declarations :: stream_declarations
  mc_initial :: "'s modeled"
  mc_evolve :: "'s modeled \<Rightarrow> 'ev \<Rightarrow> 's modeled"
  mc_decide :: "'s modeled \<Rightarrow> 'x command_error + 'ev modeled_events"
  mc_discover :: "'s modeled \<Rightarrow> stream_id list"

definition default_discover_related :: "'s modeled \<Rightarrow> stream_id list" where
  "default_discover_related s = []"

text \<open>\<open>impl CommandLogic for ModeledCommand\<close>; the snapshot methods are the trait's defaults.\<close>

definition modeled_command ::
  "('ev, 's, 'x) model_command_logic \<Rightarrow> ('ev, 's modeled, 'json, 'x) command" where
  "modeled_command mc =
     \<lparr>cmd_event = mc_event mc, cmd_declarations = mc_declarations mc, cmd_default = mc_initial mc,
      cmd_apply = (\<lambda>s event. mc_evolve mc s event),
      cmd_handle = (\<lambda>s. case mc_decide mc s of Inl e \<Rightarrow> Inl e | Inr events \<Rightarrow> Inr (into_new_events events)),
      cmd_resolver = Some (mc_discover mc), cmd_snapshot_id = default_snapshot_id,
      cmd_serialize = default_serialize, cmd_deserialize = default_deserialize\<rparr>"

section \<open>Projections\<close>

datatype modeled_ignore = ModeledIgnore (ignore_reason: rstring)

datatype 'eff projection_action = Apply "'eff modeled" | Ignore modeled_ignore

record ('ev, 'p, 'eff, 'err) model_projection =
  mp_event_type :: rstring
  mp_name :: rstring
  mp_project :: "'p \<Rightarrow> 'ev \<Rightarrow> stream_position \<Rightarrow> ('err + 'eff projection_action) \<times> 'p"

record ('eff, 'k, 'err) projection_sink =
  sk_apply :: "'k \<Rightarrow> 'eff \<Rightarrow> stream_position \<Rightarrow> ('err + unit) \<times> 'k"

text \<open>
  \<open>InMemoryProjectionSink\<close>: the read model behind the mutex. The \<open>Option\<close> is empty only while the lock is
  held; \<open>apply_to\<close> is the application's \<open>ModelEffectApplication\<close>.
\<close>

definition memory_sink :: "('eff \<Rightarrow> 'r modeled \<Rightarrow> 'r modeled) \<Rightarrow> ('eff, 'r modeled, 'err) projection_sink" where
  "memory_sink apply_to = \<lparr>sk_apply = (\<lambda>previous effect position. (Inr (), apply_to effect previous))\<rparr>"

datatype ('p, 's) checked_projection_error = ProjectionFailed 'p | SinkFailed 's

definition checked_apply ::
  "('ev, 'p, 'eff, 'perr) model_projection \<Rightarrow> ('eff, 'k, 'serr) projection_sink \<Rightarrow> 'p \<times> 'k \<Rightarrow> 'ev
     \<Rightarrow> stream_position \<Rightarrow> unit \<Rightarrow> (('perr, 'serr) checked_projection_error + unit) \<times> ('p \<times> 'k) \<times> unit" where
  "checked_apply mp sk s event position ctx =
     (case mp_project mp (fst s) event position of
        (Inl e, p) \<Rightarrow> (Inl (ProjectionFailed e), (p, snd s), ())
      | (Inr (Apply effect), p) \<Rightarrow>
          (case sk_apply sk (snd s) (modeled_into_inner effect) position of
             (Inl e, k) \<Rightarrow> (Inl (SinkFailed e), (p, k), ())
           | (Inr _, k) \<Rightarrow> (Inr (), (p, k), ()))
      | (Inr (Ignore _), p) \<Rightarrow> (Inr (), (p, snd s), ()))"

definition checked_projection ::
  "('ev, 'p, 'eff, 'perr) model_projection \<Rightarrow> ('eff, 'k, 'serr) projection_sink
     \<Rightarrow> ('ev, 'p \<times> 'k, unit, ('perr, 'serr) checked_projection_error) projector" where
  "checked_projection mp sk =
     \<lparr>pj_name = mp_name mp, pj_event_type = mp_event_type mp, pj_apply = checked_apply mp sk,
      pj_on_error = (\<lambda>s fc. (default_on_error fc, s)), pj_default_context = ()\<rparr>"

definition into_parts :: "'p \<times> 'k \<Rightarrow> 'p \<times> 'k" where
  "into_parts s = (fst s, snd s)"

section \<open>What a page does to the read model\<close>

text \<open>
  The pure projection of a page: how many events were projected, the projection afterwards, the effects
  in order, and the error that stopped it.
\<close>

fun project_all ::
  "('ev, 'p, 'eff, 'err) model_projection \<Rightarrow> 'p \<Rightarrow> ('ev \<times> stream_position) list
     \<Rightarrow> nat \<times> 'p \<times> 'eff list \<times> 'err option" where
  "project_all mp p [] = (0, p, [], None)"
| "project_all mp p ((event, position) # events) =
     (case mp_project mp p event position of
        (Inl e, q) \<Rightarrow> (0, q, [], Some e)
      | (Inr action, q) \<Rightarrow>
          (let (n, r, effects, err) = project_all mp q events
           in (Suc n, r, (case action of Apply m \<Rightarrow> [modeled_inner m] | Ignore _ \<Rightarrow> []) @ effects, err)))"

lemma checked_deliver_all:
  "deliver_all (checked_projection mp (memory_sink apply_to)) limit (p, r) () events =
     (let (n, q, effects, err) = project_all mp p events
      in (n, (q, fold apply_to effects r),
          map_option (\<lambda>_. Failed (lit ''projector apply failed'')) err))"
proof (induction events arbitrary: p r)
  case (Cons ev events)
  obtain event position where ev: "ev = (event, position)" by fastforce
  obtain result q where project: "mp_project mp p event position = (result, q)" by fastforce
  show ?case
  proof (cases result)
    case (Inl e)
    then show ?thesis
      by (simp add: ev deliver.simps checked_projection_def checked_apply_def project default_on_error_def)
  next
    case (Inr action)
    then show ?thesis using Cons
      by (cases action; simp add: ev deliver.simps checked_projection_def checked_apply_def project memory_sink_def
        modeled_into_inner_def Let_def split: prod.splits modeled.splits)
  qed
qed simp

section \<open>The property\<close>

text \<open>A running total of small deposits; a deposit over 100 cannot be projected, one of 3 is ignored.\<close>

definition total_projection :: "(deposit, nat, nat, unit) model_projection" where
  "total_projection = \<lparr>mp_event_type = [68], mp_name = [112],
     mp_project = (\<lambda>n e position.
       (if 100 < snd e then Inl () else if snd e = 3 then Inr (Ignore (ModeledIgnore (lit ''small'')))
        else Inr (Apply (Modeled (snd e))), Suc n))\<rparr>"

definition add_effect :: "nat \<Rightarrow> nat modeled \<Rightarrow> nat modeled" where
  "add_effect effect previous = Modeled (modeled_inner previous + effect)"

text \<open>
  C40. A batch run of a checked projection over any back end leaves the read model of the in-memory sink
  as the fold of the effects of the events it projected, in order: every event of the page if the
  projection never fails, otherwise those before the failing one, and one checkpoint is saved per
  projected event.
\<close>

theorem checked_projection_folds:
  assumes "pb_acquire be (env 0 st) (mp_name mp) = (Inr g, st0)" and "\<not> pc_continuous cfg"
    and "pb_load be (env 1 st0) (mp_name mp) = Inr cp"
    and "pb_read be (env 2 (env 1 st0)) (with_event_type filter_all (mp_event_type mp)) (first_page cp) = Inr events"
    and "project_all mp p events = (n, q, effects, err)"
    and "length events * (unat (pc_event_retry_max_attempts cfg) + 1) + 2 < fuel"
  shows "\<exists>st' effs. run_projection fd be env fuel (checked_projection mp (memory_sink apply_to)) (p, r) cfg st
      = Some (RunDone (case err of None \<Rightarrow> Inr () | Some _ \<Rightarrow> Inl (Failed (lit ''projector apply failed''))),
          (q, fold apply_to effects r), st', effs)
    \<and> saves effs = map snd (take n events)"
proof -
  let ?pj = "checked_projection mp (memory_sink apply_to)"
  have all: "deliver_all ?pj (pc_event_retry_max_attempts cfg) (p, r) (pj_default_context ?pj) events =
      (n, (q, fold apply_to effects r), map_option (\<lambda>_. Failed (lit ''projector apply failed'')) err)"
    using checked_deliver_all [of mp apply_to "pc_event_retry_max_attempts cfg" p r events] assms(5)
    by (simp add: checked_projection_def)
  have pj: "pj_name ?pj = mp_name mp" "pj_event_type ?pj = mp_event_type mp" by (simp_all add: checked_projection_def)
  have "(case map_option (\<lambda>_. Failed (lit ''projector apply failed'')) err of None \<Rightarrow> Inr () | Some e \<Rightarrow> Inl e)
      = (case err of None \<Rightarrow> Inr () | Some _ \<Rightarrow> Inl (Failed (lit ''projector apply failed'')))"
    by (cases err) simp_all
  then show ?thesis
    using batch_run [where pj = ?pj, unfolded pj, OF assms(1-4) all assms(6)] by simp
qed

theorem checked_projection_folds_witness:
  "\<exists>st' effs. run_projection sample_delay sample_backend (\<lambda>_ st. st) 20
      (checked_projection total_projection (memory_sink add_effect)
        :: (deposit, nat \<times> nat modeled, unit, (unit, unit) checked_projection_error) projector)
      (0, Modeled 0) sample_config sample_log
     = Some (RunDone (Inl (Failed (lit ''projector apply failed''))), (2, Modeled 7), st', effs)
     \<and> saves effs = [StreamPosition 0]"
proof -
  let ?events = "[((account_a, 7), StreamPosition 0), ((account_a, 500), StreamPosition 1), ((account_a, 3), StreamPosition 2)]"
  have p: "project_all total_projection 0 ?events = (1, 2, [7], Some ())"
    by (simp add: total_projection_def)
  have name: "pj_name (collector Fatal) = mp_name total_projection" "pj_event_type (collector Fatal) = mp_event_type total_projection"
    by (simp_all add: collector_def total_projection_def)
  have page: "first_page None = \<lparr>after_position = None, page_limit = 1000\<rparr>"
    by (simp add: first_page_def page_first_def page_size_def)
  note steps = sample_steps(1) [of Fatal, unfolded name] sample_config_fields(1) sample_steps(2)
    sample_page [of _ Fatal, unfolded name page [symmetric]]
  show ?thesis
    using checked_projection_folds [where be = sample_backend and env = "\<lambda>_ st. st" and fd = sample_delay and fuel = 20
        and r = "Modeled 0" and apply_to = add_effect, OF steps p]
    by (simp add: sample_config_fields(2) add_effect_def)
qed

end
