(* ===== verification/Actions.thy ===== *)
theory Actions
  imports Prelude
begin

text \<open>
  Fallible actions on a state, the shape of an \<open>async fn\<close> that returns \<open>Result\<close>: what \<open>?\<close> and an early
  return do, and the weakest precondition of an action.
\<close>

section \<open>Actions\<close>

type_synonym ('st, 'e, 'a) action = "'st \<Rightarrow> ('e + 'a) \<times> 'st"

definition pass :: "'a \<Rightarrow> ('st, 'e, 'a) action" where
  "pass a st = (Inr a, st)"

definition stop :: "'e \<Rightarrow> ('st, 'e, 'a) action" where
  "stop e st = (Inl e, st)"

definition try_result :: "'e + 'a \<Rightarrow> ('st, 'e, 'a) action" where
  "try_result r st = (r, st)"

text \<open>The operator \<open>?\<close>.\<close>

definition andthen :: "('st, 'e, 'a) action \<Rightarrow> ('a \<Rightarrow> ('st, 'e, 'b) action) \<Rightarrow> ('st, 'e, 'b) action" where
  "andthen m f st = (case m st of (Inl e, st') \<Rightarrow> (Inl e, st') | (Inr a, st') \<Rightarrow> f a st')"

text \<open>\<open>.map_err(f)\<close>.\<close>

definition failing :: "('e \<Rightarrow> 'f) \<Rightarrow> ('st, 'e, 'a) action \<Rightarrow> ('st, 'f, 'a) action" where
  "failing f m st = (case m st of (Inl e, st') \<Rightarrow> (Inl (f e), st') | (Inr a, st') \<Rightarrow> (Inr a, st'))"

text \<open>\<open>if condition { return Err(..) }\<close>.\<close>

definition refuse :: "bool \<Rightarrow> 'e \<Rightarrow> ('st, 'e, unit) action" where
  "refuse condition e = (if condition then stop e else pass ())"

lemma andthen_simps [simp]:
  "andthen (pass a) f st = f a st" "andthen (stop e) f st = (Inl e, st)"
  "andthen (try_result (Inr a)) f st = f a st"
  "refuse False e = pass ()" "pass b st = (Inr b, st)"
  by (simp_all add: andthen_def pass_def stop_def try_result_def refuse_def)

lemma andthen_step: "m st = (Inr a, st') \<Longrightarrow> andthen m f st = f a st'"
  by (simp add: andthen_def)

text \<open>Recursion under \<open>?\<close> sees the results that are passed on.\<close>

lemma andthen_cong [fundef_cong]:
  assumes "m st = m' st'" and "\<And>a t. m' st' = (Inr a, t) \<Longrightarrow> f a t = f' a t"
  shows "andthen m f st = andthen m' f' st'"
  using assms by (simp add: andthen_def split: prod.splits sum.splits)

section \<open>Weakest preconditions\<close>

text \<open>The action does not fail, and its result and state satisfy \<open>Q\<close>.\<close>

definition wp :: "('st, 'e, 'a) action \<Rightarrow> ('a \<Rightarrow> 'st \<Rightarrow> bool) \<Rightarrow> 'st \<Rightarrow> bool" where
  "wp m Q st \<longleftrightarrow> (case m st of (Inl e, st') \<Rightarrow> False | (Inr a, st') \<Rightarrow> Q a st')"

lemma wp_andthen [simp]: "wp (andthen m f) Q st = wp m (\<lambda>a. wp (f a) Q) st"
  by (auto simp: wp_def andthen_def split: prod.splits sum.splits)

lemma wp_try [simp]: "wp (try_result (Inr a)) Q st = Q a st"
  by (simp add: wp_def try_result_def)

lemma wp_refuse [simp]: "wp (refuse c e) Q st = (\<not> c \<and> Q () st)"
  by (simp add: wp_def refuse_def stop_def pass_def)

lemma wp_pass [simp]: "wp (pass a) Q st = Q a st" "wp (\<lambda>st. (Inr (g st), st)) Q st = Q (g st) st"
  by (simp_all add: wp_def pass_def)

text \<open>However it ends: \<open>Q\<close> for a result, \<open>R\<close> for an error.\<close>

definition ends :: "('st, 'e, 'a) action \<Rightarrow> ('a \<Rightarrow> 'st \<Rightarrow> bool) \<Rightarrow> ('e \<Rightarrow> 'st \<Rightarrow> bool) \<Rightarrow> 'st \<Rightarrow> bool" where
  "ends m Q R st \<longleftrightarrow> (case m st of (Inl e, st') \<Rightarrow> R e st' | (Inr a, st') \<Rightarrow> Q a st')"

lemma ends_simps [simp]:
  "ends (pass a) Q R st = Q a st" "ends (stop e) Q R st = R e st"
  "ends (failing g m) Q R st = ends m Q (\<lambda>e. R (g e)) st"
  by (simp_all add: ends_def stop_def pass_def failing_def split: prod.splits sum.splits)

lemma ends_andthen [simp]: "ends (andthen m f) Q R st = ends m (\<lambda>a. ends (f a) Q R) R st"
  by (auto simp: ends_def andthen_def split: prod.splits sum.splits)

lemma ends_try [simp]: "ends (try_result r) Q R st = (case r of Inl e \<Rightarrow> R e st | Inr a \<Rightarrow> Q a st)"
  by (simp add: ends_def try_result_def)

lemma ends_mono:
  "ends m Q R st \<Longrightarrow> (\<And>a st'. Q a st' \<Longrightarrow> Q' a st') \<Longrightarrow> (\<And>e st'. R e st' \<Longrightarrow> R' e st') \<Longrightarrow> ends m Q' R' st"
  by (auto simp: ends_def split: prod.splits sum.splits)

end
