(* ===== verification/Contract_Suite.thy ===== *)
theory Contract_Suite
  imports Store_Contracts Actions
begin

text \<open>
  The back end contract suite (\<open>eventcore-testing/src/contract.rs\<close>): the scenarios that every back end
  runs, over the dictionaries of the traits. A scenario is a function of the store's state; it ends with
  unit, with a failure, or with a panic of an index. \<open>Uuid::now_v7\<close> is a parameter, numbered by the calls
  of the scenario; so are \<open>serde_json\<close>, \<open>glob\<close> and the derived \<open>Debug\<close> texts.
\<close>

section \<open>Failures\<close>

datatype contract_test_failure =
  ContractTestFailure (failure_scenario: rstring) (failure_detail: rstring)

datatype contract_stop = Stopped_with contract_test_failure | Index_panic

type_synonym contract_test_result = "contract_stop + unit"

record contract_env =
  ct_uuid :: "nat \<Rightarrow> uuid"
  ct_show_uuid :: "uuid \<Rightarrow> rstring"
  ct_show_simple :: "uuid \<Rightarrow> rstring"
  ct_show_error :: "event_store_error \<Rightarrow> rstring"
  ct_show_nutype :: "nutype_error \<Rightarrow> rstring"
  ct_debug_stream :: "stream_id \<Rightarrow> rstring"
  ct_debug_position :: "stream_position option \<Rightarrow> rstring"
  ct_to_json :: "stream_id \<Rightarrow> rstring + rstring"
  ct_from_json :: "rstring \<Rightarrow> stream_id option"
  ct_mismatched_to_json :: "stream_id \<Rightarrow> rstring \<Rightarrow> rstring + rstring"
  ct_mismatched_from_json :: "rstring \<Rightarrow> (stream_id \<times> rstring) option"
  ct_glob :: "rstring \<Rightarrow> (rstring \<Rightarrow> bool) option"

text \<open>\<open>Display\<close> of an unsigned number.\<close>

fun decimal :: "nat \<Rightarrow> rstring" where
  "decimal n = (if n < 10 then [48 + n] else decimal (n div 10) @ [48 + n mod 10])"

declare decimal.simps [simp del]

definition failed :: "rstring \<Rightarrow> rstring \<Rightarrow> contract_stop" where
  "failed scenario detail = Stopped_with (ContractTestFailure scenario detail)"

definition builder_error :: "contract_env \<Rightarrow> rstring \<Rightarrow> rstring \<Rightarrow> event_store_error \<Rightarrow> contract_stop" where
  "builder_error X scenario at e =
     failed scenario (lit ''builder failure during '' @ at @ lit '': '' @ ct_show_error X e)"

definition store_error :: "contract_env \<Rightarrow> rstring \<Rightarrow> rstring \<Rightarrow> event_store_error \<Rightarrow> contract_stop" where
  "store_error X scenario op e =
     failed scenario (op @ lit '' operation returned unexpected error: '' @ ct_show_error X e)"

definition assertion :: "rstring \<Rightarrow> rstring \<Rightarrow> contract_stop" where
  "assertion scenario detail = failed scenario detail"

section \<open>Events\<close>

text \<open>The values that the suite stores: its own event and the one of another type.\<close>

datatype contract_event = ContractTestEvent stream_id | MismatchedEvent stream_id rstring

fun contract_event_stream :: "contract_event \<Rightarrow> stream_id" where
  "contract_event_stream (ContractTestEvent s) = s"
| "contract_event_stream (MismatchedEvent s extra) = s"

fun is_contract_test_event :: "contract_event \<Rightarrow> bool" where
  "is_contract_test_event (ContractTestEvent s) = True"
| "is_contract_test_event (MismatchedEvent s extra) = False"

text \<open>
  Rust's types keep the conversions of an event type from the values of the other; on those they fail here.
\<close>

definition contract_event_type :: "contract_env \<Rightarrow> contract_event event_type" where
  "contract_event_type X =
     \<lparr>ev_stream_id = contract_event_stream, ev_type_name = lit ''ContractTestEvent'',
      ev_rust_name = lit ''eventcore_testing::contract::ContractTestEvent'', ev_is = is_contract_test_event,
      ev_to_json = (\<lambda>e. if is_contract_test_event e then ct_to_json X (contract_event_stream e) else Inl []),
      ev_from_json = (\<lambda>j. map_option ContractTestEvent (ct_from_json X j))\<rparr>"

definition mismatched_event_type :: "contract_env \<Rightarrow> contract_event event_type" where
  "mismatched_event_type X =
     \<lparr>ev_stream_id = contract_event_stream, ev_type_name = lit ''MismatchedEvent'',
      ev_rust_name = lit ''eventcore_testing::contract::MismatchedEvent'', ev_is = (\<lambda>e. \<not> is_contract_test_event e),
      ev_to_json = (\<lambda>e. case e of ContractTestEvent sid \<Rightarrow> Inl []
                            | MismatchedEvent sid extra \<Rightarrow> ct_mismatched_to_json X sid extra),
      ev_from_json = (\<lambda>j. map_option (\<lambda>(sid, extra). MismatchedEvent sid extra) (ct_mismatched_from_json X j))\<rparr>"

section \<open>Scenarios\<close>

type_synonym ('st, 'a) scenario = "('st, contract_stop, 'a) action"

section \<open>Builders\<close>

definition now_text :: "contract_env \<Rightarrow> nat \<Rightarrow> rstring" where
  "now_text X k = ct_show_uuid X (ct_uuid X k)"

definition contract_stream_id :: "contract_env \<Rightarrow> nat \<Rightarrow> rstring \<Rightarrow> rstring \<Rightarrow> contract_stop + stream_id" where
  "contract_stream_id X k scenario label =
     (let raw = lit ''contract::'' @ scenario @ lit ''::'' @ label @ lit ''::'' @ now_text X k in
      map_err (\<lambda>e. assertion scenario (lit ''unable to construct stream id `'' @ raw @ lit ''`: '' @ ct_show_nutype X e))
        (stream_id_try_new raw))"

definition contract_snapshot_id :: "contract_env \<Rightarrow> nat \<Rightarrow> rstring \<Rightarrow> contract_stop + rstring" where
  "contract_snapshot_id X k scenario =
     (let raw = lit ''contract::snapshot::'' @ scenario @ lit ''::'' @ now_text X k in
      map_err (\<lambda>e. assertion scenario (lit ''unable to construct snapshot id `'' @ raw @ lit ''`: '' @ ct_show_nutype X e))
        (snapshot_id_try_new raw))"

text \<open>\<open>StreamId::try_new(format!(..))\<close> in the reader scenarios.\<close>

definition named_stream_id :: "contract_env \<Rightarrow> rstring \<Rightarrow> rstring \<Rightarrow> contract_stop + stream_id" where
  "named_stream_id X scenario raw =
     map_err (\<lambda>e. assertion scenario (lit ''invalid stream id: '' @ ct_show_nutype X e)) (stream_id_try_new raw)"

definition contract_snapshot ::
  "(u64 \<Rightarrow> 'json) \<Rightarrow> stream_id \<Rightarrow> stream_id \<Rightarrow> usize \<Rightarrow> usize \<Rightarrow> u64 \<Rightarrow> 'json command_state_snapshot" where
  "contract_snapshot balance_json primary secondary primary_version secondary_version balance =
     (let stream_versions = hm_insert secondary secondary_version (hm_insert primary primary_version []) in
      with_replay_checkpoints (snapshot_new (balance_json balance) stream_versions)
        [\<lparr>rc_stream_id = primary, rc_state = balance_json (balance - 1),
          rc_stream_versions = hm_insert primary primary_version []\<rparr>,
         \<lparr>rc_stream_id = secondary, rc_state = balance_json balance, rc_stream_versions = stream_versions\<rparr>])"

definition builder_step ::
  "contract_env \<Rightarrow> rstring \<Rightarrow> rstring \<Rightarrow> event_store_error + contract_event stream_writes
     \<Rightarrow> contract_stop + contract_event stream_writes" where
  "builder_step X scenario at result = map_err (builder_error X scenario at) result"

definition register_contract_stream ::
  "contract_env \<Rightarrow> rstring \<Rightarrow> contract_event stream_writes \<Rightarrow> stream_id \<Rightarrow> stream_version
     \<Rightarrow> contract_stop + contract_event stream_writes" where
  "register_contract_stream X scenario w sid expected =
     builder_step X scenario (lit ''register_stream'') (register_stream w sid expected)"

definition append_contract_event ::
  "contract_env \<Rightarrow> rstring \<Rightarrow> contract_event stream_writes \<Rightarrow> stream_id
     \<Rightarrow> contract_stop + contract_event stream_writes" where
  "append_contract_event X scenario w sid =
     builder_step X scenario (lit ''append'') (writes_append (contract_event_type X) w (ContractTestEvent sid))"

section \<open>Steps on a store\<close>

type_synonym ('st, 'json) contract_ops = "('st, contract_event, 'json) store_ops"

type_synonym 'st contract_reader =
  "'st \<Rightarrow> event_filter \<Rightarrow> event_page \<Rightarrow> event_store_error + (contract_event \<times> stream_position) list"

definition append_step ::
  "contract_env \<Rightarrow> ('st, 'json) contract_ops \<Rightarrow> rstring \<Rightarrow> contract_event stream_writes \<Rightarrow> ('st, unit) scenario" where
  "append_step X ops scenario w st =
     (let (r, st') = op_append ops st w in (map_err (store_error X scenario (lit ''append_events'')) r, st'))"

text \<open>\<open>read_stream\<close> followed by \<open>collect_events\<close>.\<close>

definition read_step ::
  "contract_env \<Rightarrow> ('st, 'json) contract_ops \<Rightarrow> rstring \<Rightarrow> stream_id \<Rightarrow> ('st, contract_event list) scenario" where
  "read_step X ops scenario sid st =
     (rbind (map_err (store_error X scenario (lit ''read_stream'')) (op_read ops st sid))
        (\<lambda>stream. map_err (store_error X scenario (lit ''read_stream'')) (collect_events stream)), st)"

definition read_events_step ::
  "'st contract_reader \<Rightarrow> rstring \<Rightarrow> rstring \<Rightarrow> event_filter \<Rightarrow> event_page
     \<Rightarrow> ('st, (contract_event \<times> stream_position) list) scenario" where
  "read_events_step read scenario message f pg st =
     (map_err (\<lambda>_. assertion scenario message) (read st f pg), st)"

text \<open>\<open>match append_events { Err(VersionConflict) => .., Err(error) => .., Ok => .. }\<close>.\<close>

definition expect_conflict ::
  "contract_env \<Rightarrow> ('st, 'json) contract_ops \<Rightarrow> rstring \<Rightarrow> rstring \<Rightarrow> contract_event stream_writes
     \<Rightarrow> ('st, unit) scenario" where
  "expect_conflict X ops scenario message w st =
     (case op_append ops st w of
        (Inl (VersionConflict sid v a), st') \<Rightarrow> (Inr (), st')
      | (Inl e, st') \<Rightarrow> (Inl (store_error X scenario (lit ''append_events'') e), st')
      | (Inr _, st') \<Rightarrow> (Inl (assertion scenario message), st'))"

section \<open>EventStore scenarios\<close>

definition test_command_state_snapshot_load_missing ::
  "contract_env \<Rightarrow> ('st, 'json) contract_ops \<Rightarrow> ('st, unit) scenario" where
  "test_command_state_snapshot_load_missing X ops =
     (let scenario = lit ''command_state_snapshot_load_missing'' in
      andthen (try_result (contract_snapshot_id X 0 scenario)) (\<lambda>snapshot_id.
      andthen (\<lambda>st. (map_err (store_error X scenario (lit ''load_snapshot'')) (op_load_snapshot ops st snapshot_id), st)) (\<lambda>snapshot.
      refuse (snapshot \<noteq> None) (assertion scenario (lit ''a missing snapshot unexpectedly returned a projection'')))))"

definition save_snapshot_step ::
  "contract_env \<Rightarrow> ('st, 'json) contract_ops \<Rightarrow> rstring \<Rightarrow> rstring \<Rightarrow> rstring \<Rightarrow> 'json command_state_snapshot
     \<Rightarrow> ('st, unit) scenario" where
  "save_snapshot_step X ops scenario operation_name i s st =
     (let (r, st') = op_save_snapshot ops st i s in (map_err (store_error X scenario operation_name) r, st'))"

definition test_command_state_snapshot_round_trip_and_monotonic ::
  "contract_env \<Rightarrow> (u64 \<Rightarrow> 'json) \<Rightarrow> ('st, 'json) contract_ops \<Rightarrow> ('st, unit) scenario" where
  "test_command_state_snapshot_round_trip_and_monotonic X balance_json ops =
     (let scenario = lit ''command_state_snapshot_round_trip_and_monotonic'' in
      andthen (try_result (contract_snapshot_id X 0 scenario)) (\<lambda>snapshot_id.
      andthen (try_result (contract_stream_id X 1 scenario (lit ''primary''))) (\<lambda>primary.
      andthen (try_result (contract_stream_id X 2 scenario (lit ''secondary''))) (\<lambda>secondary.
      let newer = contract_snapshot balance_json primary secondary 4 9 200;
          stale = contract_snapshot balance_json primary secondary 3 8 100 in
      andthen (save_snapshot_step X ops scenario (lit ''save_snapshot'') snapshot_id newer) (\<lambda>_.
      andthen (save_snapshot_step X ops scenario (lit ''save_stale_snapshot'') snapshot_id stale) (\<lambda>_.
      andthen (\<lambda>st. (rbind (map_err (store_error X scenario (lit ''load_snapshot'')) (op_load_snapshot ops st snapshot_id))
          (\<lambda>found. case found of None \<Rightarrow> Inl (assertion scenario (lit ''saved snapshot was missing'')) | Some s \<Rightarrow> Inr s), st)) (\<lambda>loaded.
      refuse (snap_state loaded \<noteq> snap_state newer
          \<or> set (snap_stream_versions loaded) \<noteq> set (snap_stream_versions newer)
          \<or> length (snap_checkpoints loaded) \<noteq> length (snap_checkpoints newer)
          \<or> rc_state (snap_checkpoints loaded ! 1) \<noteq> rc_state (snap_checkpoints newer ! 1))
        (assertion scenario (lit ''snapshot round-trip lost projection data or allowed a stale vector to regress it'')))))))))"

text \<open>\<open>for _ in 0..n { writes = append_contract_event(..)? }\<close>.\<close>

definition append_contract_events ::
  "contract_env \<Rightarrow> rstring \<Rightarrow> contract_event stream_writes \<Rightarrow> stream_id list
     \<Rightarrow> contract_stop + contract_event stream_writes" where
  "append_contract_events X scenario w sids = try_fold (append_contract_event X scenario) w sids"

definition test_read_stream_after_excludes_reconstructed_events ::
  "contract_env \<Rightarrow> ('st, 'json) contract_ops \<Rightarrow> ('st, unit) scenario" where
  "test_read_stream_after_excludes_reconstructed_events X ops =
     (let scenario = lit ''read_stream_after_excludes_reconstructed_events'' in
      andthen (try_result (contract_stream_id X 0 scenario (lit ''history''))) (\<lambda>sid.
      andthen (try_result (register_contract_stream X scenario writes_new sid 0)) (\<lambda>w.
      andthen (try_result (append_contract_events X scenario w (replicate 3 sid))) (\<lambda>w.
      andthen (append_step X ops scenario w) (\<lambda>_.
      andthen (\<lambda>st. (rbind (map_err (store_error X scenario (lit ''read_stream_after'')) (op_read_after ops st sid 2))
          (\<lambda>stream. map_err (store_error X scenario (lit ''read_stream_after'')) (collect_events stream)), st)) (\<lambda>events.
      refuse (length events \<noteq> 1)
        (assertion scenario (lit ''expected one event after version 2, observed '' @ decimal (length events)))))))))"

definition test_basic_read_write :: "contract_env \<Rightarrow> ('st, 'json) contract_ops \<Rightarrow> ('st, unit) scenario" where
  "test_basic_read_write X ops =
     (let scenario = lit ''basic_read_write'' in
      andthen (try_result (contract_stream_id X 0 scenario (lit ''single''))) (\<lambda>sid.
      andthen (try_result (register_contract_stream X scenario writes_new sid 0)) (\<lambda>w.
      andthen (try_result (append_contract_event X scenario w sid)) (\<lambda>w.
      andthen (append_step X ops scenario w) (\<lambda>_.
      andthen (read_step X ops scenario sid) (\<lambda>events.
      andthen (refuse (events = [])
        (assertion scenario (lit ''expected stream to contain events but it was empty''))) (\<lambda>_.
      refuse (length events \<noteq> 1)
        (assertion scenario (lit ''expected stream to contain exactly one event, observed len='' @ decimal (length events))))))))))"

definition test_concurrent_version_conflicts :: "contract_env \<Rightarrow> ('st, 'json) contract_ops \<Rightarrow> ('st, unit) scenario" where
  "test_concurrent_version_conflicts X ops =
     (let scenario = lit ''concurrent_version_conflicts'' in
      andthen (try_result (contract_stream_id X 0 scenario (lit ''shared''))) (\<lambda>sid.
      andthen (try_result (register_contract_stream X scenario writes_new sid 0)) (\<lambda>first_writes.
      andthen (try_result (append_contract_event X scenario first_writes sid)) (\<lambda>first_writes.
      andthen (append_step X ops scenario first_writes) (\<lambda>_.
      andthen (try_result (register_contract_stream X scenario writes_new sid 0)) (\<lambda>conflicting.
      andthen (try_result (append_contract_event X scenario conflicting sid)) (\<lambda>conflicting.
      expect_conflict X ops scenario (lit ''expected version conflict but append succeeded'') conflicting)))))))"

definition test_read_only_participant_conflict_preserves_atomicity ::
  "contract_env \<Rightarrow> ('st, 'json) contract_ops \<Rightarrow> ('st, unit) scenario" where
  "test_read_only_participant_conflict_preserves_atomicity X ops =
     (let scenario = lit ''read_only_participant_conflict_preserves_atomicity'' in
      andthen (try_result (contract_stream_id X 0 scenario (lit ''participant''))) (\<lambda>participant.
      andthen (try_result (contract_stream_id X 1 scenario (lit ''target''))) (\<lambda>target.
      andthen (try_result (register_contract_stream X scenario writes_new participant 0)) (\<lambda>w.
      andthen (try_result (append_contract_event X scenario w participant)) (\<lambda>w.
      andthen (append_step X ops scenario w) (\<lambda>_.
      andthen (try_result (register_contract_stream X scenario writes_new participant 0)) (\<lambda>w.
      andthen (try_result (register_contract_stream X scenario w target 0)) (\<lambda>w.
      andthen (try_result (append_contract_event X scenario w target)) (\<lambda>w.
      andthen (expect_conflict X ops scenario (lit ''expected stale read-only participant to reject the append'') w) (\<lambda>_.
      andthen (read_step X ops scenario target) (\<lambda>target_events.
      refuse (target_events \<noteq> [])
        (assertion scenario (lit ''target stream received events despite a read-only participant conflict'')))))))))))))"

definition test_current_read_only_participant_allows_write ::
  "contract_env \<Rightarrow> ('st, 'json) contract_ops \<Rightarrow> ('st, unit) scenario" where
  "test_current_read_only_participant_allows_write X ops =
     (let scenario = lit ''current_read_only_participant_allows_write'' in
      andthen (try_result (contract_stream_id X 0 scenario (lit ''participant''))) (\<lambda>participant.
      andthen (try_result (contract_stream_id X 1 scenario (lit ''target''))) (\<lambda>target.
      andthen (try_result (register_contract_stream X scenario writes_new participant 0)) (\<lambda>w.
      andthen (try_result (append_contract_event X scenario w participant)) (\<lambda>w.
      andthen (append_step X ops scenario w) (\<lambda>_.
      andthen (try_result (register_contract_stream X scenario writes_new participant 1)) (\<lambda>w.
      andthen (try_result (register_contract_stream X scenario w target 0)) (\<lambda>w.
      andthen (try_result (append_contract_event X scenario w target)) (\<lambda>w.
      andthen (append_step X ops scenario w) (\<lambda>_.
      andthen (read_step X ops scenario target) (\<lambda>target_events.
      refuse (length target_events \<noteq> 1)
        (assertion scenario (lit ''expected target stream to contain one event, observed ''
          @ decimal (length target_events))))))))))))))"

definition test_stream_isolation :: "contract_env \<Rightarrow> ('st, 'json) contract_ops \<Rightarrow> ('st, unit) scenario" where
  "test_stream_isolation X ops =
     (let scenario = lit ''stream_isolation'' in
      andthen (try_result (contract_stream_id X 0 scenario (lit ''left''))) (\<lambda>left.
      andthen (try_result (contract_stream_id X 1 scenario (lit ''right''))) (\<lambda>right.
      andthen (try_result (register_contract_stream X scenario writes_new left 0)) (\<lambda>w.
      andthen (try_result (register_contract_stream X scenario w right 0)) (\<lambda>w.
      andthen (try_result (append_contract_event X scenario w left)) (\<lambda>w.
      andthen (try_result (append_contract_event X scenario w right)) (\<lambda>w.
      andthen (append_step X ops scenario w) (\<lambda>_.
      andthen (read_step X ops scenario left) (\<lambda>left_events.
      andthen (read_step X ops scenario right) (\<lambda>right_events.
      andthen (refuse (length left_events \<noteq> 1)
        (assertion scenario (lit ''left stream expected exactly one event but observed '' @ decimal (length left_events)))) (\<lambda>_.
      andthen (refuse (list_ex (\<lambda>e. contract_event_stream e \<noteq> left) left_events)
        (assertion scenario (lit ''left stream read events belonging to another stream''))) (\<lambda>_.
      andthen (refuse (length right_events \<noteq> 1)
        (assertion scenario (lit ''right stream expected exactly one event but observed '' @ decimal (length right_events)))) (\<lambda>_.
      refuse (list_ex (\<lambda>e. contract_event_stream e \<noteq> right) right_events)
        (assertion scenario (lit ''right stream read events belonging to another stream'')))))))))))))))"

definition test_missing_stream_reads :: "contract_env \<Rightarrow> ('st, 'json) contract_ops \<Rightarrow> ('st, unit) scenario" where
  "test_missing_stream_reads X ops =
     (let scenario = lit ''missing_stream_reads'' in
      andthen (try_result (contract_stream_id X 0 scenario (lit ''ghost''))) (\<lambda>sid.
      andthen (read_step X ops scenario sid) (\<lambda>events.
      refuse (events \<noteq> [])
        (assertion scenario (lit ''expected read_stream to succeed with no events for an untouched stream'')))))"

definition test_conflict_preserves_atomicity :: "contract_env \<Rightarrow> ('st, 'json) contract_ops \<Rightarrow> ('st, unit) scenario" where
  "test_conflict_preserves_atomicity X ops =
     (let scenario = lit ''conflict_preserves_atomicity'' in
      andthen (try_result (contract_stream_id X 0 scenario (lit ''left''))) (\<lambda>left.
      andthen (try_result (contract_stream_id X 1 scenario (lit ''right''))) (\<lambda>right.
      andthen (try_result (register_contract_stream X scenario writes_new left 0)) (\<lambda>w.
      andthen (try_result (register_contract_stream X scenario w right 0)) (\<lambda>w.
      andthen (try_result (append_contract_event X scenario w left)) (\<lambda>w.
      andthen (try_result (append_contract_event X scenario w right)) (\<lambda>w.
      andthen (append_step X ops scenario w) (\<lambda>_.
      andthen (try_result (register_contract_stream X scenario writes_new left 0)) (\<lambda>w.
      andthen (try_result (register_contract_stream X scenario w right 1)) (\<lambda>w.
      andthen (try_result (append_contract_event X scenario w left)) (\<lambda>w.
      andthen (try_result (append_contract_event X scenario w right)) (\<lambda>w.
      andthen (expect_conflict X ops scenario (lit ''expected version conflict but append succeeded'') w) (\<lambda>_.
      andthen (read_step X ops scenario left) (\<lambda>left_events.
      andthen (refuse (length left_events \<noteq> 1)
        (assertion scenario (lit ''expected left stream to remain at len=1 after failed append, observed ''
          @ decimal (length left_events)))) (\<lambda>_.
      andthen (read_step X ops scenario right) (\<lambda>right_events.
      refuse (length right_events \<noteq> 1)
        (assertion scenario (lit ''expected right stream to remain at len=1 after failed append, observed ''
          @ decimal (length right_events)))))))))))))))))))"

text \<open>\<open>read_mismatched\<close> is \<open>read_stream::<MismatchedEvent>\<close>.\<close>

definition test_read_stream_errors_on_type_mismatch ::
  "contract_env \<Rightarrow> ('st, 'json) contract_ops \<Rightarrow> ('st \<Rightarrow> stream_id \<Rightarrow> event_store_error + contract_event event_stream)
     \<Rightarrow> ('st, unit) scenario" where
  "test_read_stream_errors_on_type_mismatch X ops read_mismatched =
     (let scenario = lit ''read_stream_errors_on_type_mismatch'' in
      andthen (try_result (contract_stream_id X 0 scenario (lit ''mismatched''))) (\<lambda>sid.
      andthen (try_result (register_contract_stream X scenario writes_new sid 0)) (\<lambda>w.
      andthen (try_result (append_contract_event X scenario w sid)) (\<lambda>w.
      andthen (append_step X ops scenario w) (\<lambda>_.
      andthen (\<lambda>st. (Inr (rbind (read_mismatched st sid) collect_events), st)) (\<lambda>result.
      case result of
        Inl (DeserializationFailed s detail) \<Rightarrow> pass ()
      | Inl other \<Rightarrow> stop (assertion scenario
          (lit ''expected DeserializationFailed error, got different error: '' @ ct_show_error X other))
      | Inr events \<Rightarrow>
          if events = [] then stop (assertion scenario
            (lit ''read_stream silently returned empty results instead of erroring on type mismatch''))
          else stop (assertion scenario (lit ''read_stream returned '' @ decimal (length events)
            @ lit '' events instead of erroring on type mismatch''))))))))"

section \<open>EventReader scenarios\<close>

definition test_event_ordering_across_streams ::
  "contract_env \<Rightarrow> ('st, 'json) contract_ops \<Rightarrow> 'st contract_reader \<Rightarrow> ('st, unit) scenario" where
  "test_event_ordering_across_streams X ops read =
     (let scenario = lit ''event_ordering_across_streams'' in
      andthen (try_result (contract_stream_id X 0 scenario (lit ''stream-a''))) (\<lambda>stream_a.
      andthen (try_result (contract_stream_id X 1 scenario (lit ''stream-b''))) (\<lambda>stream_b.
      andthen (try_result (contract_stream_id X 2 scenario (lit ''stream-c''))) (\<lambda>stream_c.
      andthen (try_result (register_contract_stream X scenario writes_new stream_a 0)) (\<lambda>w.
      andthen (try_result (append_contract_event X scenario w stream_a)) (\<lambda>w.
      andthen (append_step X ops scenario w) (\<lambda>_.
      andthen (try_result (register_contract_stream X scenario writes_new stream_b 0)) (\<lambda>w.
      andthen (try_result (append_contract_event X scenario w stream_b)) (\<lambda>w.
      andthen (append_step X ops scenario w) (\<lambda>_.
      andthen (try_result (register_contract_stream X scenario writes_new stream_c 0)) (\<lambda>w.
      andthen (try_result (append_contract_event X scenario w stream_c)) (\<lambda>w.
      andthen (append_step X ops scenario w) (\<lambda>_.
      andthen (read_events_step read scenario (lit ''read_events failed to read events'') filter_all (page_first 100)) (\<lambda>events.
      andthen (refuse (length events \<noteq> 3)
        (assertion scenario (lit ''expected 3 events but got '' @ decimal (length events)))) (\<lambda>_.
      andthen (refuse (contract_event_stream (fst (events ! 0)) \<noteq> stream_a)
        (assertion scenario (lit ''expected first event from stream_a but got from ''
          @ ct_debug_stream X (contract_event_stream (fst (events ! 0)))))) (\<lambda>_.
      andthen (refuse (contract_event_stream (fst (events ! 1)) \<noteq> stream_b)
        (assertion scenario (lit ''expected second event from stream_b but got from ''
          @ ct_debug_stream X (contract_event_stream (fst (events ! 1)))))) (\<lambda>_.
      refuse (contract_event_stream (fst (events ! 2)) \<noteq> stream_c)
        (assertion scenario (lit ''expected third event from stream_c but got from ''
          @ ct_debug_stream X (contract_event_stream (fst (events ! 2))))))))))))))))))))))"

definition show_position :: "contract_env \<Rightarrow> stream_position \<Rightarrow> rstring" where
  "show_position X p = ct_show_uuid X (pos_uuid p)"

definition test_position_based_resumption ::
  "contract_env \<Rightarrow> ('st, 'json) contract_ops \<Rightarrow> 'st contract_reader \<Rightarrow> ('st, unit) scenario" where
  "test_position_based_resumption X ops read =
     (let scenario = lit ''position_based_resumption'' in
      andthen (try_result (contract_stream_id X 0 scenario (lit ''stream''))) (\<lambda>stream.
      andthen (try_result (register_contract_stream X scenario writes_new stream 0)) (\<lambda>w.
      andthen (try_result (append_contract_events X scenario w (replicate 5 stream))) (\<lambda>w.
      andthen (append_step X ops scenario w) (\<lambda>_.
      andthen (read_events_step read scenario (lit ''read_events failed to read events'') filter_all (page_first 100)) (\<lambda>all_events.
      andthen (refuse (length all_events \<le> 2) Index_panic) (\<lambda>_.
      let third_position = snd (all_events ! 2) in
      andthen (read_events_step read scenario (lit ''read_events failed when reading after position'') filter_all
        (page_after third_position 100)) (\<lambda>events_after.
      andthen (refuse (length events_after \<noteq> 2)
        (assertion scenario (lit ''expected 2 events after position '' @ show_position X third_position
          @ lit '' but got '' @ decimal (length events_after)))) (\<lambda>_.
      andthen (refuse (list_ex (\<lambda>(event, position). position = third_position) events_after)
        (assertion scenario (lit ''expected position '' @ show_position X third_position
          @ lit '' to be excluded but it was included in results''))) (\<lambda>_.
      andthen (refuse (snd (events_after ! 0) \<le> third_position)
        (assertion scenario (lit ''expected first returned position to be > '' @ show_position X third_position
          @ lit '' but got '' @ show_position X (snd (events_after ! 0))))) (\<lambda>_.
      refuse (snd (events_after ! 1) \<le> snd (events_after ! 0))
        (assertion scenario (lit ''expected positions to be in ascending order but ''
          @ show_position X (snd (events_after ! 1)) @ lit '' <= '' @ show_position X (snd (events_after ! 0)))))))))))))))"

definition account_prefix :: "contract_env \<Rightarrow> rstring \<Rightarrow> contract_stop + stream_prefix" where
  "account_prefix X scenario =
     map_err (\<lambda>e. assertion scenario (lit ''failed to create stream prefix: '' @ ct_show_nutype X e))
       (stream_prefix_try_new (lit ''account-''))"

definition test_stream_prefix_filtering ::
  "contract_env \<Rightarrow> ('st, 'json) contract_ops \<Rightarrow> 'st contract_reader \<Rightarrow> ('st, unit) scenario" where
  "test_stream_prefix_filtering X ops read =
     (let scenario = lit ''stream_prefix_filtering'' in
      andthen (try_result (named_stream_id X scenario (lit ''account-1-'' @ now_text X 0))) (\<lambda>account_1.
      andthen (try_result (named_stream_id X scenario (lit ''account-2-'' @ now_text X 1))) (\<lambda>account_2.
      andthen (try_result (named_stream_id X scenario (lit ''order-1-'' @ now_text X 2))) (\<lambda>order_1.
      andthen (try_result (register_contract_stream X scenario writes_new account_1 0)) (\<lambda>w.
      andthen (try_result (register_contract_stream X scenario w account_2 0)) (\<lambda>w.
      andthen (try_result (register_contract_stream X scenario w order_1 0)) (\<lambda>w.
      andthen (try_result (append_contract_event X scenario w account_1)) (\<lambda>w.
      andthen (try_result (append_contract_event X scenario w account_2)) (\<lambda>w.
      andthen (try_result (append_contract_event X scenario w order_1)) (\<lambda>w.
      andthen (append_step X ops scenario w) (\<lambda>_.
      andthen (try_result (account_prefix X scenario)) (\<lambda>prefix.
      andthen (read_events_step read scenario (lit ''read_events failed with stream prefix filter'')
        (filter_prefix prefix) (page_first 100)) (\<lambda>events.
      andthen (refuse (length events \<noteq> 2)
        (assertion scenario (lit ''expected 2 events from account-* streams but got '' @ decimal (length events)))) (\<lambda>_.
      case find (\<lambda>(e, p). \<not> starts_with (sid_str (contract_event_stream e)) (lit ''account-'')) events of
        None \<Rightarrow> pass ()
      | Some (e, p) \<Rightarrow> stop (assertion scenario
          (lit ''expected all events from streams starting with 'account-' but found event from ''
            @ sid_str (contract_event_stream e)))))))))))))))))"

definition test_stream_prefix_requires_prefix_match ::
  "contract_env \<Rightarrow> ('st, 'json) contract_ops \<Rightarrow> 'st contract_reader \<Rightarrow> ('st, unit) scenario" where
  "test_stream_prefix_requires_prefix_match X ops read =
     (let scenario = lit ''stream_prefix_requires_prefix_match'' in
      andthen (try_result (named_stream_id X scenario (lit ''account-123-'' @ now_text X 0))) (\<lambda>account_stream.
      andthen (try_result (named_stream_id X scenario (lit ''my-account-456-'' @ now_text X 1))) (\<lambda>my_account_stream.
      andthen (try_result (named_stream_id X scenario (lit ''order-789-'' @ now_text X 2))) (\<lambda>order_stream.
      andthen (try_result (register_contract_stream X scenario writes_new account_stream 0)) (\<lambda>w.
      andthen (try_result (register_contract_stream X scenario w my_account_stream 0)) (\<lambda>w.
      andthen (try_result (register_contract_stream X scenario w order_stream 0)) (\<lambda>w.
      andthen (try_result (append_contract_event X scenario w account_stream)) (\<lambda>w.
      andthen (try_result (append_contract_event X scenario w my_account_stream)) (\<lambda>w.
      andthen (try_result (append_contract_event X scenario w order_stream)) (\<lambda>w.
      andthen (append_step X ops scenario w) (\<lambda>_.
      andthen (try_result (account_prefix X scenario)) (\<lambda>prefix.
      andthen (read_events_step read scenario (lit ''read_events failed with stream prefix filter'')
        (filter_prefix prefix) (page_first 100)) (\<lambda>events.
      andthen (refuse (length events \<noteq> 1)
        (assertion scenario (lit ''expected exactly 1 event from account-* prefix but got '' @ decimal (length events)
          @ lit '' (bug: implementation uses contains() instead of starts_with())''))) (\<lambda>_.
      let stream_id_str = sid_str (contract_event_stream (fst (events ! 0))) in
      andthen (refuse (\<not> starts_with stream_id_str (lit ''account-123''))
        (assertion scenario (lit ''expected event from stream starting with 'account-123' but got from '' @ stream_id_str))) (\<lambda>_.
      refuse (starts_with stream_id_str (lit ''my-account-456''))
        (assertion scenario (lit ''BUG EXPOSED: got event from stream starting with 'my-account-456' when filtering for prefix 'account-' - implementation must use prefix matching from the start of the stream ID'')))))))))))))))))"

text \<open>The loop that names and registers the fifty other streams.\<close>

fun register_orders ::
  "contract_env \<Rightarrow> rstring \<Rightarrow> nat list \<Rightarrow> contract_event stream_writes \<Rightarrow> stream_id list
     \<Rightarrow> contract_stop + contract_event stream_writes \<times> stream_id list" where
  "register_orders X scenario [] w orders = Inr (w, orders)"
| "register_orders X scenario (k # ks) w orders =
     rbind (named_stream_id X scenario (lit ''order-'' @ now_text X k)) (\<lambda>order.
     rbind (register_contract_stream X scenario w order 0) (\<lambda>w.
     register_orders X scenario ks w (orders @ [order])))"

definition contract_pattern :: "contract_env \<Rightarrow> rstring \<Rightarrow> rstring \<Rightarrow> contract_stop + stream_pattern" where
  "contract_pattern X scenario raw =
     map_err (\<lambda>e. assertion scenario (lit ''failed to create stream pattern: '' @ ct_show_nutype X e))
       (stream_pattern_try_new (ct_glob X) raw)"

definition test_stream_pattern_filtering ::
  "contract_env \<Rightarrow> ('st, 'json) contract_ops \<Rightarrow> 'st contract_reader \<Rightarrow> ('st, unit) scenario" where
  "test_stream_pattern_filtering X ops read =
     (let scenario = lit ''stream_pattern_filtering''; run = now_text X 0 in
      andthen (try_result (register_orders X scenario [1..<51] writes_new [])) (\<lambda>(w, orders).
      andthen (try_result (named_stream_id X scenario (lit ''account-1-'' @ run))) (\<lambda>account_1.
      andthen (try_result (named_stream_id X scenario (lit ''account-2-'' @ run))) (\<lambda>account_2.
      andthen (try_result (register_contract_stream X scenario w account_1 0)) (\<lambda>w.
      andthen (try_result (register_contract_stream X scenario w account_2 0)) (\<lambda>w.
      andthen (try_result (append_contract_events X scenario w orders)) (\<lambda>w.
      andthen (try_result (append_contract_event X scenario w account_1)) (\<lambda>w.
      andthen (try_result (append_contract_event X scenario w account_2)) (\<lambda>w.
      andthen (append_step X ops scenario w) (\<lambda>_.
      andthen (try_result (contract_pattern X scenario (lit ''account-*''))) (\<lambda>pattern.
      andthen (read_events_step read scenario (lit ''read_events failed with stream pattern filter'')
        (filter_pattern pattern) (page_first 10)) (\<lambda>events.
      andthen (refuse (length events \<noteq> 2)
        (assertion scenario (lit ''expected exactly 2 events matching glob 'account-*' but got '' @ decimal (length events)
          @ lit '' (pattern filter must be applied before the page limit)''))) (\<lambda>_.
      case find (\<lambda>(e, p). \<not> starts_with (sid_str (contract_event_stream e)) (lit ''account-'')) events of
        None \<Rightarrow> pass ()
      | Some (e, p) \<Rightarrow> stop (assertion scenario
          (lit ''expected all events from streams matching 'account-*' but found event from ''
            @ sid_str (contract_event_stream e))))))))))))))))"

definition test_stream_pattern_single_char ::
  "contract_env \<Rightarrow> ('st, 'json) contract_ops \<Rightarrow> 'st contract_reader \<Rightarrow> ('st, unit) scenario" where
  "test_stream_pattern_single_char X ops read =
     (let scenario = lit ''stream_pattern_single_char''; run = now_text X 0 in
      andthen (try_result (named_stream_id X scenario (lit ''account-x'' @ run))) (\<lambda>account_x.
      andthen (try_result (named_stream_id X scenario (lit ''account-xy'' @ run))) (\<lambda>account_xy.
      andthen (try_result (named_stream_id X scenario (lit ''order-z'' @ run))) (\<lambda>order.
      andthen (try_result (register_contract_stream X scenario writes_new account_x 0)) (\<lambda>w.
      andthen (try_result (register_contract_stream X scenario w account_xy 0)) (\<lambda>w.
      andthen (try_result (register_contract_stream X scenario w order 0)) (\<lambda>w.
      andthen (try_result (append_contract_event X scenario w account_x)) (\<lambda>w.
      andthen (try_result (append_contract_event X scenario w account_xy)) (\<lambda>w.
      andthen (try_result (append_contract_event X scenario w order)) (\<lambda>w.
      andthen (append_step X ops scenario w) (\<lambda>_.
      andthen (try_result (contract_pattern X scenario (lit ''account-?'' @ run))) (\<lambda>pattern.
      andthen (read_events_step read scenario (lit ''read_events failed with stream pattern filter'')
        (filter_pattern pattern) (page_first 100)) (\<lambda>events.
      andthen (refuse (length events \<noteq> 1)
        (assertion scenario (lit ''expected exactly 1 event matching glob 'account-?'' @ run @ lit '' but got ''
          @ decimal (length events)))) (\<lambda>_.
      let stream_id_str = sid_str (contract_event_stream (fst (events ! 0))) in
      refuse (stream_id_str \<noteq> sid_str account_x)
        (assertion scenario (lit ''expected the single-character match '' @ sid_str account_x @ lit '' but got ''
          @ stream_id_str))))))))))))))))"

definition test_stream_pattern_char_class ::
  "contract_env \<Rightarrow> ('st, 'json) contract_ops \<Rightarrow> 'st contract_reader \<Rightarrow> ('st, unit) scenario" where
  "test_stream_pattern_char_class X ops read =
     (let scenario = lit ''stream_pattern_char_class''; run = ct_show_simple X (ct_uuid X 0) in
      andthen (try_result (named_stream_id X scenario (lit ''account-7-'' @ run))) (\<lambda>digit_stream.
      andthen (try_result (named_stream_id X scenario (lit ''account-a-'' @ run))) (\<lambda>letter_stream.
      andthen (try_result (register_contract_stream X scenario writes_new digit_stream 0)) (\<lambda>w.
      andthen (try_result (register_contract_stream X scenario w letter_stream 0)) (\<lambda>w.
      andthen (try_result (append_contract_event X scenario w digit_stream)) (\<lambda>w.
      andthen (try_result (append_contract_event X scenario w letter_stream)) (\<lambda>w.
      andthen (append_step X ops scenario w) (\<lambda>_.
      andthen (try_result (contract_pattern X scenario (lit ''account-[0-9]*''))) (\<lambda>pattern.
      andthen (read_events_step read scenario (lit ''read_events failed with stream pattern filter'')
        (filter_pattern pattern) (page_first 100)) (\<lambda>events.
      andthen (refuse (length events \<noteq> 1)
        (assertion scenario (lit ''expected exactly 1 event matching glob 'account-[0-9]*' but got ''
          @ decimal (length events)))) (\<lambda>_.
      let stream_id_str = sid_str (contract_event_stream (fst (events ! 0))) in
      refuse (stream_id_str \<noteq> sid_str digit_stream)
        (assertion scenario (lit ''expected the digit-prefixed match '' @ sid_str digit_stream @ lit '' but got ''
          @ stream_id_str)))))))))))))"

definition test_batch_limiting ::
  "contract_env \<Rightarrow> ('st, 'json) contract_ops \<Rightarrow> 'st contract_reader \<Rightarrow> ('st, unit) scenario" where
  "test_batch_limiting X ops read =
     (let scenario = lit ''batch_limiting'' in
      andthen (try_result (contract_stream_id X 0 scenario (lit ''stream''))) (\<lambda>stream.
      andthen (try_result (register_contract_stream X scenario writes_new stream 0)) (\<lambda>w.
      andthen (try_result (append_contract_events X scenario w (replicate 20 stream))) (\<lambda>w.
      andthen (append_step X ops scenario w) (\<lambda>_.
      andthen (read_events_step read scenario (lit ''read_events failed with limit'') filter_all (page_first 10)) (\<lambda>events.
      refuse (length events \<noteq> 10)
        (assertion scenario (lit ''expected exactly 10 events but got '' @ decimal (length events)))))))))"

section \<open>CheckpointStore scenarios\<close>

type_synonym ('st, 'err) checkpoint_load = "'st \<Rightarrow> rstring \<Rightarrow> 'err + stream_position option"
type_synonym ('st, 'err) checkpoint_save = "'st \<Rightarrow> rstring \<Rightarrow> stream_position \<Rightarrow> ('err + unit) \<times> 'st"

definition subscription_name :: "contract_env \<Rightarrow> rstring \<Rightarrow> rstring \<Rightarrow> nat \<Rightarrow> rstring" where
  "subscription_name X scenario label k = lit ''contract::'' @ scenario @ label @ lit ''::'' @ now_text X k"

definition save_step ::
  "('st, 'err) checkpoint_save \<Rightarrow> rstring \<Rightarrow> rstring \<Rightarrow> rstring \<Rightarrow> stream_position \<Rightarrow> ('st, unit) scenario" where
  "save_step save scenario message n p st =
     (let (r, st') = save st n p in (map_err (\<lambda>_. assertion scenario message) r, st'))"

definition load_step ::
  "('st, 'err) checkpoint_load \<Rightarrow> rstring \<Rightarrow> rstring \<Rightarrow> rstring \<Rightarrow> ('st, stream_position option) scenario" where
  "load_step load scenario message n st = (map_err (\<lambda>_. assertion scenario message) (load st n), st)"

definition test_checkpoint_save_and_load ::
  "contract_env \<Rightarrow> ('st, 'err) checkpoint_load \<Rightarrow> ('st, 'err) checkpoint_save \<Rightarrow> ('st, unit) scenario" where
  "test_checkpoint_save_and_load X load save =
     (let scenario = lit ''checkpoint_save_and_load''; n = subscription_name X scenario [] 0;
          position = StreamPosition (ct_uuid X 1) in
      andthen (save_step save scenario (lit ''save failed'') n position) (\<lambda>_.
      andthen (load_step load scenario (lit ''load failed'') n) (\<lambda>loaded.
      refuse (loaded \<noteq> Some position)
        (assertion scenario (lit ''expected loaded position '' @ ct_debug_position X (Some position)
          @ lit '' but got '' @ ct_debug_position X loaded)))))"

definition test_checkpoint_update_overwrites ::
  "contract_env \<Rightarrow> ('st, 'err) checkpoint_load \<Rightarrow> ('st, 'err) checkpoint_save \<Rightarrow> ('st, unit) scenario" where
  "test_checkpoint_update_overwrites X load save =
     (let scenario = lit ''checkpoint_update_overwrites''; n = subscription_name X scenario [] 0;
          first_position = StreamPosition (ct_uuid X 1); second_position = StreamPosition (ct_uuid X 2) in
      andthen (save_step save scenario (lit ''first save failed'') n first_position) (\<lambda>_.
      andthen (save_step save scenario (lit ''second save failed'') n second_position) (\<lambda>_.
      andthen (load_step load scenario (lit ''load failed'') n) (\<lambda>loaded.
      refuse (loaded \<noteq> Some second_position)
        (assertion scenario (lit ''expected updated position '' @ ct_debug_position X (Some second_position)
          @ lit '' but got '' @ ct_debug_position X loaded))))))"

definition test_checkpoint_load_missing_returns_none ::
  "contract_env \<Rightarrow> ('st, 'err) checkpoint_load \<Rightarrow> ('st, unit) scenario" where
  "test_checkpoint_load_missing_returns_none X load =
     (let scenario = lit ''checkpoint_load_missing_returns_none''; n = subscription_name X scenario (lit ''::ghost'') 0 in
      andthen (load_step load scenario (lit ''load failed'') n) (\<lambda>loaded.
      refuse (loaded \<noteq> None)
        (assertion scenario (lit ''expected None for missing checkpoint but got '' @ ct_debug_position X loaded))))"

definition test_checkpoint_independent_subscriptions ::
  "contract_env \<Rightarrow> ('st, 'err) checkpoint_load \<Rightarrow> ('st, 'err) checkpoint_save \<Rightarrow> ('st, unit) scenario" where
  "test_checkpoint_independent_subscriptions X load save =
     (let scenario = lit ''checkpoint_independent_subscriptions'';
          a = subscription_name X scenario (lit ''::sub-a'') 0; b = subscription_name X scenario (lit ''::sub-b'') 1;
          position_a = StreamPosition (ct_uuid X 2); position_b = StreamPosition (ct_uuid X 3) in
      andthen (save_step save scenario (lit ''save A failed'') a position_a) (\<lambda>_.
      andthen (save_step save scenario (lit ''save B failed'') b position_b) (\<lambda>_.
      andthen (load_step load scenario (lit ''load A failed'') a) (\<lambda>loaded_a.
      andthen (load_step load scenario (lit ''load B failed'') b) (\<lambda>loaded_b.
      andthen (refuse (loaded_a \<noteq> Some position_a)
        (assertion scenario (lit ''subscription A: expected '' @ ct_debug_position X (Some position_a)
          @ lit '' but got '' @ ct_debug_position X loaded_a))) (\<lambda>_.
      refuse (loaded_b \<noteq> Some position_b)
        (assertion scenario (lit ''subscription B: expected '' @ ct_debug_position X (Some position_b)
          @ lit '' but got '' @ ct_debug_position X loaded_b))))))))"

section \<open>ProjectorCoordinator scenarios\<close>

text \<open>A guard that a scenario still holds at its end is dropped with it, which no assertion sees.\<close>

type_synonym ('st, 'err, 'guard) coordinator_acquire = "'st \<Rightarrow> rstring \<Rightarrow> ('err + 'guard) \<times> 'st"

text \<open>\<open>try_acquire(..).await.map_err(|_| assertion)?\<close>, and the result without the \<open>?\<close>.\<close>

definition acquire_step ::
  "('st, 'err, 'guard) coordinator_acquire \<Rightarrow> rstring \<Rightarrow> rstring \<Rightarrow> rstring \<Rightarrow> ('st, 'guard) scenario" where
  "acquire_step acquire scenario message n st =
     (let (r, st') = acquire st n in (map_err (\<lambda>_. assertion scenario message) r, st'))"

definition try_acquire_step ::
  "('st, 'err, 'guard) coordinator_acquire \<Rightarrow> rstring \<Rightarrow> ('st, 'err + 'guard) scenario" where
  "try_acquire_step acquire n st = (let (r, st') = acquire st n in (Inr r, st'))"

definition test_coordination_acquire_leadership ::
  "contract_env \<Rightarrow> ('st, 'err, 'guard) coordinator_acquire \<Rightarrow> ('st, unit) scenario" where
  "test_coordination_acquire_leadership X acquire =
     (let scenario = lit ''coordination_acquire_leadership''; n = subscription_name X scenario [] 0 in
      andthen (try_acquire_step acquire n) (\<lambda>result.
      refuse (isl result)
        (assertion scenario (lit ''expected first instance to acquire leadership successfully, but try_acquire failed''))))"

definition test_coordination_second_instance_blocked ::
  "contract_env \<Rightarrow> ('st, 'err, 'guard) coordinator_acquire \<Rightarrow> ('st, unit) scenario" where
  "test_coordination_second_instance_blocked X acquire =
     (let scenario = lit ''coordination_second_instance_blocked''; n = subscription_name X scenario [] 0 in
      andthen (acquire_step acquire scenario (lit ''first instance failed to acquire leadership'') n) (\<lambda>first_guard.
      andthen (try_acquire_step acquire n) (\<lambda>second_result.
      refuse (\<not> isl second_result)
        (assertion scenario (lit ''expected second instance to be blocked but try_acquire succeeded'')))))"

definition test_coordination_independent_subscriptions ::
  "contract_env \<Rightarrow> ('st, 'err, 'guard) coordinator_acquire \<Rightarrow> ('st, unit) scenario" where
  "test_coordination_independent_subscriptions X acquire =
     (let scenario = lit ''coordination_independent_subscriptions'';
          a = subscription_name X scenario (lit ''::projector-A'') 0; b = subscription_name X scenario (lit ''::projector-B'') 1 in
      andthen (acquire_step acquire scenario (lit ''projector-A failed to acquire leadership for its subscription'') a) (\<lambda>guard_a.
      andthen (try_acquire_step acquire b) (\<lambda>result_b.
      refuse (isl result_b)
        (assertion scenario (lit ''expected projector-B to acquire leadership for its own subscription, but try_acquire failed - different projectors should have independent coordination'')))))"

definition test_coordination_leadership_released_on_guard_drop ::
  "contract_env \<Rightarrow> ('st, 'err, 'guard) coordinator_acquire \<Rightarrow> ('st \<Rightarrow> 'guard \<Rightarrow> 'st) \<Rightarrow> ('st, unit) scenario" where
  "test_coordination_leadership_released_on_guard_drop X acquire release =
     (let scenario = lit ''coordination_leadership_released_on_guard_drop''; n = subscription_name X scenario [] 0 in
      andthen (acquire_step acquire scenario (lit ''first instance failed to acquire leadership'') n) (\<lambda>first_guard.
      andthen (\<lambda>st. (Inr (), release st first_guard)) (\<lambda>_.
      andthen (try_acquire_step acquire n) (\<lambda>second_result.
      refuse (isl second_result)
        (assertion scenario (lit ''expected second instance to acquire leadership after first guard dropped, but try_acquire failed - leadership should be released when guard is dropped''))))))"

section \<open>The suite\<close>

text \<open>\<open>backend_contract_tests!\<close>: every scenario on a store, checkpoint store or coordinator of its own.\<close>

definition store_contract ::
  "contract_env \<Rightarrow> (u64 \<Rightarrow> 'json) \<Rightarrow> ('st, 'json) contract_ops
     \<Rightarrow> ('st \<Rightarrow> stream_id \<Rightarrow> event_store_error + contract_event event_stream) \<Rightarrow> 'st contract_reader
     \<Rightarrow> (('st, unit) scenario) list" where
  "store_contract X balance_json ops read_mismatched read =
     [test_basic_read_write X ops, test_concurrent_version_conflicts X ops,
      test_read_only_participant_conflict_preserves_atomicity X ops,
      test_current_read_only_participant_allows_write X ops, test_stream_isolation X ops,
      test_missing_stream_reads X ops, test_conflict_preserves_atomicity X ops,
      test_read_stream_errors_on_type_mismatch X ops read_mismatched,
      test_event_ordering_across_streams X ops read, test_position_based_resumption X ops read,
      test_stream_prefix_filtering X ops read, test_stream_prefix_requires_prefix_match X ops read,
      test_stream_pattern_filtering X ops read, test_stream_pattern_single_char X ops read,
      test_stream_pattern_char_class X ops read, test_batch_limiting X ops read,
      test_command_state_snapshot_load_missing X ops,
      test_command_state_snapshot_round_trip_and_monotonic X balance_json ops,
      test_read_stream_after_excludes_reconstructed_events X ops]"

definition checkpoint_contract ::
  "contract_env \<Rightarrow> ('st, 'err) checkpoint_load \<Rightarrow> ('st, 'err) checkpoint_save \<Rightarrow> (('st, unit) scenario) list" where
  "checkpoint_contract X load save =
     [test_checkpoint_save_and_load X load save, test_checkpoint_update_overwrites X load save,
      test_checkpoint_load_missing_returns_none X load, test_checkpoint_independent_subscriptions X load save]"

definition coordinator_contract ::
  "contract_env \<Rightarrow> ('st, 'err, 'guard) coordinator_acquire \<Rightarrow> ('st \<Rightarrow> 'guard \<Rightarrow> 'st) \<Rightarrow> (('st, unit) scenario) list" where
  "coordinator_contract X acquire release =
     [test_coordination_acquire_leadership X acquire, test_coordination_second_instance_blocked X acquire,
      test_coordination_independent_subscriptions X acquire,
      test_coordination_leadership_released_on_guard_drop X acquire release]"

text \<open>\<open>test(make_store).await.expect(..)\<close>.\<close>

definition passes :: "'st \<Rightarrow> ('st, unit) scenario \<Rightarrow> bool" where
  "passes st m \<longleftrightarrow> fst (m st) = Inr ()"

end
