(* ===== verification/Contract_Batches.thy ===== *)
theory Contract_Batches
  imports Contract_Suite
begin

text \<open>
  Ground facts for the contract suite: what the libraries it calls promise, which of its texts are valid
  names, the batches its builders make, and a weakest-precondition rule for each kind of step.
\<close>

section \<open>What the libraries promise\<close>

definition uuid_char :: "nat \<Rightarrow> bool" where
  "uuid_char c \<longleftrightarrow> c = 45 \<or> 48 \<le> c \<and> c \<le> 57 \<or> 97 \<le> c \<and> c \<le> 102"

text \<open>
  The identifiers a scenario generates differ and are shown as 36 hexadecimal digits and dashes, or as 32
  digits; a stream identifier survives JSON; \<open>glob\<close> reads \<open>*\<close>, \<open>?\<close> and \<open>[0-9]\<close> as it documents.
\<close>

definition uuid_texts_ok :: "contract_env \<Rightarrow> bool" where
  "uuid_texts_ok X \<longleftrightarrow> (\<forall>k < 64. length (now_text X k) = 36 \<and> list_all uuid_char (now_text X k))
     \<and> distinct (map (now_text X) [0..<64])
     \<and> length (ct_show_simple X (ct_uuid X 0)) = 32 \<and> list_all uuid_char (ct_show_simple X (ct_uuid X 0))"

definition stream_json_ok :: "contract_env \<Rightarrow> bool" where
  "stream_json_ok X \<longleftrightarrow> (\<forall>sid. valid_stream_id sid \<longrightarrow> (\<exists>j. ct_to_json X sid = Inr j))
     \<and> (\<forall>sid j. ct_to_json X sid = Inr j \<longrightarrow> ct_from_json X j = Some sid)"

text \<open>What the patterns \<open>account-?run\<close> and \<open>account-[0-9]*\<close> match.\<close>

definition one_char_before :: "rstring \<Rightarrow> rstring \<Rightarrow> bool" where
  "one_char_before run s \<longleftrightarrow> (\<exists>c. s = lit ''account-'' @ c # run)"

definition digit_first :: "rstring \<Rightarrow> bool" where
  "digit_first s \<longleftrightarrow> (\<exists>c r. s = lit ''account-'' @ c # r \<and> 48 \<le> c \<and> c \<le> 57)"

definition glob_ok :: "contract_env \<Rightarrow> bool" where
  "glob_ok X \<longleftrightarrow> ct_glob X (lit ''account-*'') = Some (\<lambda>s. starts_with s (lit ''account-''))
     \<and> ct_glob X (lit ''account-?'' @ now_text X 0) = Some (one_char_before (now_text X 0))
     \<and> ct_glob X (lit ''account-[0-9]*'') = Some digit_first"

definition contract_env_ok :: "contract_env \<Rightarrow> bool" where
  "contract_env_ok X \<longleftrightarrow> uuid_texts_ok X \<and> stream_json_ok X \<and> glob_ok X"

section \<open>Valid names\<close>

text \<open>No white space and no glob character.\<close>

definition plain_text :: "rstring \<Rightarrow> bool" where
  "plain_text s \<longleftrightarrow> list_all (\<lambda>c. \<not> is_whitespace c \<and> c \<notin> {42, 63, 91, 93}) s"

lemma plain_text_append [simp]: "plain_text (s @ t) \<longleftrightarrow> plain_text s \<and> plain_text t"
  by (simp add: plain_text_def)

lemma plain_uuid: "list_all uuid_char s \<Longrightarrow> plain_text s"
  by (auto simp: plain_text_def uuid_char_def is_whitespace_def list_all_iff)

lemma trim_plain: "list_all (\<lambda>c. \<not> is_whitespace c) s \<Longrightarrow> str_trim s = s"
  by (rule str_trim_id) (auto simp: list_all_iff)

lemma plain_stream_id:
  "plain_text s \<Longrightarrow> s \<noteq> [] \<Longrightarrow> length s \<le> 255 \<Longrightarrow> stream_id_try_new s = Inr (StreamId s)"
  by (subst try_new_simps) (auto simp: try_new_simps plain_text_def list_all_iff glob_free_iff trim_plain)

lemma plain_valid: "plain_text s \<Longrightarrow> s \<noteq> [] \<Longrightarrow> length s \<le> 255 \<Longrightarrow> valid_stream_id (StreamId s)"
  by (simp add: valid_stream_id_def plain_stream_id)

lemma plain_snapshot_id:
  "plain_text s \<Longrightarrow> s \<noteq> [] \<Longrightarrow> length s \<le> 255 \<Longrightarrow> snapshot_id_try_new s = Inr s"
  by (auto simp: snapshot_id_try_new_def validated_text_Inr_iff plain_text_def list_all_iff trim_plain)

lemma length_lit [simp]: "length (lit s) = length s"
  by (simp add: lit_def)

lemma lit_Nil_iff [simp]: "lit s = [] \<longleftrightarrow> s = []"
  by (simp add: lit_def)

lemma lit_cancel: "lit s @ t = lit s @ u \<longleftrightarrow> t = u"
  by simp

definition contract_id :: "contract_env \<Rightarrow> nat \<Rightarrow> rstring \<Rightarrow> rstring \<Rightarrow> stream_id" where
  "contract_id X k scenario label =
     StreamId (lit ''contract::'' @ scenario @ lit ''::'' @ label @ lit ''::'' @ now_text X k)"

definition named_id :: "rstring \<Rightarrow> stream_id" where
  "named_id s = StreamId s"

lemma now_text_facts:
  assumes "uuid_texts_ok X" "k < 64"
  shows "length (now_text X k) = 36" "plain_text (now_text X k)"
  using assms by (simp_all add: uuid_texts_ok_def plain_uuid)

lemma now_text_inj: "uuid_texts_ok X \<Longrightarrow> i < 64 \<Longrightarrow> j < 64 \<Longrightarrow> now_text X i = now_text X j \<longleftrightarrow> i = j"
  by (auto simp: uuid_texts_ok_def distinct_map inj_on_def)

lemma contract_stream_id_ok:
  assumes "uuid_texts_ok X" "k < 64" "plain_text scenario" "plain_text label" "length scenario + length label \<le> 200"
  shows "contract_stream_id X k scenario label = Inr (contract_id X k scenario label)"
    and "valid_stream_id (contract_id X k scenario label)"
proof -
  have l: "plain_text (lit ''contract::'')" "plain_text (lit ''::'')" by code_simp+
  show "contract_stream_id X k scenario label = Inr (contract_id X k scenario label)"
    using assms l now_text_facts [OF assms(1,2)]
    by (simp add: contract_stream_id_def contract_id_def plain_stream_id Let_def)
  show "valid_stream_id (contract_id X k scenario label)"
    using assms l now_text_facts [OF assms(1,2)] by (simp add: contract_id_def plain_valid)
qed

lemma named_stream_id_ok:
  assumes "plain_text raw" "raw \<noteq> []" "length raw \<le> 255"
  shows "named_stream_id X scenario raw = Inr (named_id raw)" and "valid_stream_id (named_id raw)"
  using assms by (simp_all add: named_stream_id_def named_id_def plain_stream_id plain_valid)

text \<open>Names made with different identifiers differ, whatever stands before them.\<close>

lemma append_same_length: "length t = length u \<Longrightarrow> s @ t = r @ u \<longleftrightarrow> s = r \<and> t = u"
  by (auto simp: append_eq_append_conv)

lemma contract_id_inj:
  assumes "uuid_texts_ok X" "i < 64" "j < 64" "i \<noteq> j"
  shows "contract_id X i scenario label \<noteq> contract_id X j scenario' label'"
proof -
  have "length (now_text X i) = length (now_text X j)" "now_text X i \<noteq> now_text X j"
    using assms by (simp_all add: now_text_facts now_text_inj)
  then show ?thesis
    using append_same_length [of "now_text X i" "now_text X j"] by (auto simp: contract_id_def simp flip: append_assoc)
qed

lemma named_id_inj:
  assumes "length t = length u"
  shows "named_id (p @ t) = named_id (q @ u) \<longleftrightarrow> p = q \<and> t = u"
  using assms by (auto simp: named_id_def)

section \<open>Batches\<close>

text \<open>The batch that registers the streams of \<open>ex\<close> and appends one event to each of \<open>sids\<close>.\<close>

definition contract_entry :: "contract_env \<Rightarrow> stream_id \<Rightarrow> contract_event write_entry" where
  "contract_entry X sid =
     \<lparr>we_stream_id = sid, we_event = ContractTestEvent sid, we_event_type = lit ''ContractTestEvent'',
      we_event_data = (case ct_to_json X sid of Inl detail \<Rightarrow> [] | Inr j \<Rightarrow> j)\<rparr>"

definition batch ::
  "contract_env \<Rightarrow> (stream_id \<times> stream_version) list \<Rightarrow> stream_id list \<Rightarrow> contract_event stream_writes" where
  "batch X ex sids = \<lparr>entries = map (contract_entry X) sids, expected_versions = ex\<rparr>"

lemma batch_parts [simp]:
  "entries (batch X ex sids) = map (contract_entry X) sids" "expected_versions (batch X ex sids) = ex"
  by (simp_all add: batch_def)

lemma batch_new: "writes_new = batch X [] []"
  by (simp add: batch_def writes_new_def)

lemma count_list_replicate [simp]: "count_list (replicate n x) y = (if x = y then n else 0)"
  by (induction n) auto

definition good_batch_of :: "(stream_id \<times> stream_version) list \<Rightarrow> stream_id list \<Rightarrow> bool" where
  "good_batch_of ex sids \<longleftrightarrow> hm_wf ex \<and> set sids \<subseteq> fst ` set ex \<and> (\<forall>sid \<in> set sids. valid_stream_id sid)"

lemma batch_wf: "good_batch_of ex sids \<Longrightarrow> wf_writes (batch X ex sids)"
  by (auto simp: good_batch_of_def wf_writes_def contract_entry_def)

lemma contract_entry_typed:
  "stream_json_ok X \<Longrightarrow> valid_stream_id sid \<Longrightarrow> typed_entry (contract_event_type X) (contract_entry X sid)
     \<and> ev_is (contract_event_type X) (we_event (contract_entry X sid))"
  by (fastforce simp: typed_entry_def contract_entry_def contract_event_type_def stream_json_ok_def)

lemma batch_events:
  "events_for (map (contract_entry X) sids) sid = replicate (count_list sids sid) (ContractTestEvent sid)"
  by (induction sids) (auto simp: contract_entry_def)

lemma register_batch:
  assumes "sid \<notin> fst ` set ex"
  shows "register_contract_stream X scenario (batch X ex sids) sid v = Inr (batch X (ex @ [(sid, v)]) sids)"
  using assms
  by (simp add: register_contract_stream_def builder_step_def register_stream_def batch_def hm_insert_new
      map_of_eq_None_iff [THEN iffD2])

lemma append_batch:
  assumes "stream_json_ok X" "valid_stream_id sid" "sid \<in> fst ` set ex"
  shows "append_contract_event X scenario (batch X ex sids) sid = Inr (batch X ex (sids @ [sid]))"
proof -
  obtain j where "ct_to_json X sid = Inr j" using assms(1,2) unfolding stream_json_ok_def by blast
  moreover have "hm_contains ex sid" using assms(3) by (simp add: hm_contains_iff)
  ultimately show ?thesis
    by (simp add: append_contract_event_def builder_step_def writes_append_def contract_event_type_def batch_def
        contract_entry_def)
qed

lemma append_batches:
  assumes "stream_json_ok X" "\<forall>sid \<in> set more_sids. valid_stream_id sid" "set more_sids \<subseteq> fst ` set ex"
  shows "append_contract_events X scenario (batch X ex sids) more_sids = Inr (batch X ex (sids @ more_sids))"
  using assms(2,3)
proof (induction more_sids arbitrary: sids)
  case (Cons sid more_sids)
  then show ?case using append_batch [OF assms(1), of sid ex scenario sids]
    by (simp add: append_contract_events_def)
qed (simp add: append_contract_events_def)

section \<open>Steps\<close>

lemma passes_wp: "wp m (\<lambda>_ _. True) st \<Longrightarrow> passes st m"
  by (auto simp: wp_def passes_def split: sum.splits prod.splits)

end
