(* ===== verification/Contract_Filters.thy ===== *)
theory Contract_Filters
  imports Contract_Batches Projection_Contract
begin

text \<open>
  A back end as the contract suite sees it, and the suite's store scenarios on every such back end: what
  a store of the trait's contract answers is what each scenario expects.
\<close>

section \<open>The back end\<close>

definition current_versions :: "stream_id list \<Rightarrow> (stream_id \<times> stream_version) list \<Rightarrow> bool" where
  "current_versions h ex \<longleftrightarrow> list_all (\<lambda>(sid, v). v = of_nat (count_list h sid)) ex"

definition matching :: "contract_env \<Rightarrow> event_filter \<Rightarrow> stream_id list \<Rightarrow> stream_id list" where
  "matching X f h =
     filter (\<lambda>sid. selects (ct_glob X) (lit ''ContractTestEvent'') f (sid_str sid) (lit ''ContractTestEvent'')) h"

text \<open>
  \<open>hist st\<close> are the streams of the events in the store, in the order they were appended; \<open>chosen st f\<close>
  the events a filter selects. The store takes the 64 events the longest scenario may need.
\<close>

locale contract_backend =
  event_reader read sound chosen
  for read :: "'st contract_reader" and sound :: "'st \<Rightarrow> bool"
    and chosen :: "'st \<Rightarrow> event_filter \<Rightarrow> (contract_event \<times> stream_position) list" +
  fixes X :: contract_env
    and ops :: "('st, 'json) contract_ops"
    and read_mismatched :: "'st \<Rightarrow> stream_id \<Rightarrow> event_store_error + contract_event event_stream"
    and hist :: "'st \<Rightarrow> stream_id list"
  assumes env: "sound st \<Longrightarrow> contract_env_ok X"
    and reads: "sound st \<Longrightarrow> op_read ops st sid
          = Inr (map Inr (replicate (count_list (hist st) sid) (ContractTestEvent sid)))"
    and reads_after: "sound st \<Longrightarrow> op_read_after ops st sid v
          = Inr (map Inr (replicate (count_list (hist st) sid - unat v) (ContractTestEvent sid)))"
    and accepts: "sound st \<Longrightarrow> good_batch_of ex sids \<Longrightarrow> length (hist st) + length sids \<le> 64 \<Longrightarrow>
          current_versions (hist st) ex \<Longrightarrow> fst (op_append ops st (batch X ex sids)) = Inr ()"
    and rejects: "sound st \<Longrightarrow> good_batch_of ex sids \<Longrightarrow> sids \<noteq> [] \<Longrightarrow> \<not> current_versions (hist st) ex \<Longrightarrow>
          \<exists>sid v a. fst (op_append ops st (batch X ex sids)) = Inl (VersionConflict sid v a)"
    and keeps: "sound st \<Longrightarrow> good_batch_of ex sids \<Longrightarrow> length (hist st) + length sids \<le> 64 \<Longrightarrow>
          sound (snd (op_append ops st (batch X ex sids)))"
    and grows: "sound st \<Longrightarrow> good_batch_of ex sids \<Longrightarrow> length (hist st) + length sids \<le> 64 \<Longrightarrow> sids \<noteq> [] \<Longrightarrow>
          hist (snd (op_append ops st (batch X ex sids)))
          = (if current_versions (hist st) ex then hist st @ sids else hist st)"
    and mismatch: "sound st \<Longrightarrow> sid \<in> set (hist st) \<Longrightarrow>
          \<exists>s detail. rbind (read_mismatched st sid) collect_events = Inl (DeserializationFailed s detail)"
    and selected: "sound st \<Longrightarrow> map fst (chosen st f) = map ContractTestEvent
          (matching X f (hist st))"
begin

lemma wp_append [simp]:
  assumes "sound st" "good_batch_of ex sids" "length (hist st) + length sids \<le> 64" "current_versions (hist st) ex"
  shows "wp (append_step X ops scenario (batch X ex sids)) Q st = Q () (snd (op_append ops st (batch X ex sids)))"
  using accepts [OF assms]
  by (cases "op_append ops st (batch X ex sids)") (simp add: wp_def append_step_def)

lemma wp_conflict [simp]:
  assumes "sound st" "good_batch_of ex sids" "sids \<noteq> []" "\<not> current_versions (hist st) ex"
  shows "wp (expect_conflict X ops scenario m (batch X ex sids)) Q st = Q () (snd (op_append ops st (batch X ex sids)))"
  using rejects [OF assms]
  by (cases "op_append ops st (batch X ex sids)") (auto simp: wp_def expect_conflict_def)

lemma wp_read [simp]:
  assumes "sound st"
  shows "wp (read_step X ops scenario sid) Q st = Q (replicate (count_list (hist st) sid) (ContractTestEvent sid)) st"
  by (simp add: wp_def read_step_def reads [OF assms] collect_events_def map_err_def del: map_replicate)

lemma wp_read_events [simp]:
  assumes "sound st"
  shows "wp (read_events_step read scenario m f pg) Q st
    = Q (take (unat (page_limit pg)) (unseen (chosen st f) (after_position pg))) st"
  by (simp add: wp_def read_events_step_def read_page [OF assms] map_err_def)

declare keeps [simp] grows [simp]

lemma chosen_length [simp]: "sound st \<Longrightarrow> length (chosen st f) = length (matching X f (hist st))"
  using arg_cong [OF selected, of st length f] by simp

lemma chosen_nth [simp]:
  assumes "sound st" "i < length (matching X f (hist st))"
  shows "fst (chosen st f ! i) = ContractTestEvent (matching X f (hist st) ! i)"
proof -
  have "map fst (chosen st f) ! i = map ContractTestEvent (matching X f (hist st)) ! i"
    by (simp only: selected [OF assms(1)])
  then show ?thesis using assms by simp
qed

lemma texts: "sound st \<Longrightarrow> uuid_texts_ok X" "sound st \<Longrightarrow> stream_json_ok X" "sound st \<Longrightarrow> glob_ok X"
  using env by (simp_all add: contract_env_ok_def)

lemmas executes = contract_stream_id_ok batch_new [of X] register_batch append_batch append_batches good_batch_of_def
  current_versions_def contract_id_inj Let_def

end

section \<open>The texts of the suite\<close>

text \<open>The names in the scenarios' stream identifiers are plain.\<close>

lemma suite_texts [simp]:
  "plain_text (lit ''command_state_snapshot_load_missing'')"
  "plain_text (lit ''command_state_snapshot_round_trip_and_monotonic'')"
  "plain_text (lit ''read_stream_after_excludes_reconstructed_events'')"
  "plain_text (lit ''basic_read_write'')" "plain_text (lit ''concurrent_version_conflicts'')"
  "plain_text (lit ''read_only_participant_conflict_preserves_atomicity'')"
  "plain_text (lit ''current_read_only_participant_allows_write'')" "plain_text (lit ''stream_isolation'')"
  "plain_text (lit ''missing_stream_reads'')" "plain_text (lit ''conflict_preserves_atomicity'')"
  "plain_text (lit ''read_stream_errors_on_type_mismatch'')"
  "plain_text (lit ''event_ordering_across_streams'')" "plain_text (lit ''position_based_resumption'')"
  "plain_text (lit ''batch_limiting'')" "plain_text (lit ''ghost'')" "plain_text (lit ''history'')"
  "plain_text (lit ''left'')" "plain_text (lit ''mismatched'')" "plain_text (lit ''participant'')"
  "plain_text (lit ''primary'')" "plain_text (lit ''right'')" "plain_text (lit ''secondary'')"
  "plain_text (lit ''shared'')" "plain_text (lit ''single'')" "plain_text (lit ''stream'')"
  "plain_text (lit ''stream-a'')" "plain_text (lit ''stream-b'')" "plain_text (lit ''stream-c'')"
  "plain_text (lit ''target'')"
  by code_simp+

context contract_backend
begin

text \<open>The scenarios of \<open>EventStore\<close>, run on a fresh store.\<close>

lemma basic_read_write:
  assumes "sound st" "hist st = []"
  shows "passes st (test_basic_read_write X ops)"
  by (rule passes_wp) (simp add: test_basic_read_write_def executes assms texts [OF assms(1)])

lemma concurrent_version_conflicts:
  assumes "sound st" "hist st = []"
  shows "passes st (test_concurrent_version_conflicts X ops)"
  by (rule passes_wp) (simp add: test_concurrent_version_conflicts_def executes assms texts [OF assms(1)])

lemma read_only_participant_conflict_preserves_atomicity:
  assumes "sound st" "hist st = []"
  shows "passes st (test_read_only_participant_conflict_preserves_atomicity X ops)"
  by (rule passes_wp) (simp add: test_read_only_participant_conflict_preserves_atomicity_def executes assms texts [OF assms(1)])

lemma current_read_only_participant_allows_write:
  assumes "sound st" "hist st = []"
  shows "passes st (test_current_read_only_participant_allows_write X ops)"
  by (rule passes_wp) (simp add: test_current_read_only_participant_allows_write_def executes assms texts [OF assms(1)])

lemma stream_isolation:
  assumes "sound st" "hist st = []"
  shows "passes st (test_stream_isolation X ops)"
  by (rule passes_wp) (simp add: test_stream_isolation_def executes assms texts [OF assms(1)])

lemma missing_stream_reads:
  assumes "sound st" "hist st = []"
  shows "passes st (test_missing_stream_reads X ops)"
  by (rule passes_wp) (simp add: test_missing_stream_reads_def executes assms texts [OF assms(1)])

lemma conflict_preserves_atomicity:
  assumes "sound st" "hist st = []"
  shows "passes st (test_conflict_preserves_atomicity X ops)"
  by (rule passes_wp) (simp add: test_conflict_preserves_atomicity_def executes assms texts [OF assms(1)])

lemma read_stream_errors_on_type_mismatch:
  assumes "sound st" "hist st = []"
  shows "passes st (test_read_stream_errors_on_type_mismatch X ops read_mismatched)"
proof -
  let ?sid = "contract_id X 0 (lit ''read_stream_errors_on_type_mismatch'') (lit ''mismatched'')"
  let ?st = "snd (op_append ops st (batch X [(?sid, 0)] [?sid]))"
  have "sound ?st" "?sid \<in> set (hist ?st)" by (simp_all add: executes assms texts [OF assms(1)])
  from mismatch [OF this] obtain s d where "rbind (read_mismatched ?st ?sid) collect_events = Inl (DeserializationFailed s d)"
    by blast
  then show ?thesis
    by (intro passes_wp) (simp add: test_read_stream_errors_on_type_mismatch_def executes assms texts [OF assms(1)])
qed

lemma wp_read_after [simp]:
  assumes "sound st"
  shows "wp (\<lambda>st. (rbind (map_err e (op_read_after ops st sid v)) (\<lambda>stream. map_err e' (collect_events stream)), st)) Q st
    = Q (replicate (count_list (hist st) sid - unat v) (ContractTestEvent sid)) st"
  by (simp add: wp_def reads_after [OF assms] collect_events_def map_err_def del: map_replicate)

lemma read_stream_after_excludes_reconstructed_events:
  assumes "sound st" "hist st = []"
  shows "passes st (test_read_stream_after_excludes_reconstructed_events X ops)"
  by (rule passes_wp) (simp add: test_read_stream_after_excludes_reconstructed_events_def executes assms texts [OF assms(1)])

text \<open>The scenarios of \<open>EventReader\<close> that filter nothing.\<close>

lemma unseen_none [simp]: "unseen events None = events"
  by (simp add: unseen_def)

lemma unseen_nth:
  assumes "sound st" "i < length (chosen st f)"
  shows "unseen (chosen st f) (Some (snd (chosen st f ! i))) = drop (Suc i) (chosen st f)"
proof -
  obtain e p where ep: "chosen st f ! i = (e, p)" by (cases "chosen st f ! i")
  have "unseen (chosen st f) None = take i (chosen st f) @ (e, p) # drop (Suc i) (chosen st f)"
    using id_take_nth_drop [OF assms(2)] ep by simp
  from unseen_skip [OF increasing [OF assms(1)] this] ep show ?thesis by simp
qed

lemma matching_all [simp]: "matching X filter_all h = h"
  by (simp add: matching_def selects_def filter_all_def)

lemmas pages = page_first_def page_after_def

lemma event_ordering_across_streams:
  assumes "sound st" "hist st = []"
  shows "passes st (test_event_ordering_across_streams X ops read)"
  by (rule passes_wp) (simp add: test_event_ordering_across_streams_def executes pages assms texts [OF assms(1)])

lemma batch_limiting:
  assumes "sound st" "hist st = []"
  shows "passes st (test_batch_limiting X ops read)"
  by (rule passes_wp) (simp add: test_batch_limiting_def executes pages assms texts [OF assms(1)])

text \<open>Resuming after the third event returns the fourth and the fifth.\<close>

lemma chosen_less:
  assumes "sound st" "i < j" "j < length (chosen st f)"
  shows "snd (chosen st f ! i) < snd (chosen st f ! j)"
  using sorted_wrt_nth_less [OF increasing [OF assms(1), of f], of i j] assms(2,3) by simp

lemma position_based_resumption:
  assumes "sound st" "hist st = []"
  shows "passes st (test_position_based_resumption X ops read)"
proof (rule passes_wp)
  let ?sid = "contract_id X 0 (lit ''position_based_resumption'') (lit ''stream'')"
  let ?st = "snd (op_append ops st (batch X [(?sid, 0)] (replicate 5 ?sid)))"
  let ?c = "chosen ?st filter_all"
  have st: "sound ?st" "hist ?st = replicate 5 ?sid" by (simp_all add: executes assms texts [OF assms(1)])
  then have len: "length ?c = 5" by simp
  obtain a b c d e where c: "?c = [a, b, c, d, e]"
    using len by (auto simp: numeral_eq_Suc length_Suc_conv)
  have "snd c < snd d" "snd d < snd e"
    using chosen_less [OF st(1), of 2 3 filter_all] chosen_less [OF st(1), of 3 4 filter_all] by (simp_all add: c)
  then have "snd d \<noteq> snd c" "snd e \<noteq> snd c" "\<not> snd d \<le> snd c" "\<not> snd e \<le> snd d" by auto
  moreover have "unseen ?c (Some (snd c)) = [d, e]"
    using unseen_nth [OF st(1), of 2 filter_all] by (simp add: c)
  ultimately show "wp (test_position_based_resumption X ops read) (\<lambda>_ _. True) st"
    using st by (simp add: test_position_based_resumption_def executes pages assms texts [OF assms(1)] c case_prod_unfold)
qed

end

text \<open>The scenarios of the contract suite that read with a prefix or a pattern.\<close>

section \<open>The names\<close>

lemma name_texts [simp]:
  "plain_text (lit ''account-1-'')" "plain_text (lit ''account-2-'')" "plain_text (lit ''order-1-'')"
  "plain_text (lit ''account-123-'')" "plain_text (lit ''my-account-456-'')" "plain_text (lit ''order-789-'')"
  "plain_text (lit ''order-'')" "plain_text (lit ''account-x'')" "plain_text (lit ''account-xy'')"
  "plain_text (lit ''order-z'')" "plain_text (lit ''account-7-'')" "plain_text (lit ''account-a-'')"
  by code_simp+

lemma name_prefixes [simp]:
  "starts_with (lit ''account-1-'' @ t) (lit ''account-'')" "starts_with (lit ''account-2-'' @ t) (lit ''account-'')"
  "\<not> starts_with (lit ''order-1-'' @ t) (lit ''account-'')" "starts_with (lit ''account-123-'' @ t) (lit ''account-'')"
  "\<not> starts_with (lit ''my-account-456-'' @ t) (lit ''account-'')"
  "\<not> starts_with (lit ''order-789-'' @ t) (lit ''account-'')"
  "starts_with (lit ''account-123-'' @ t) (lit ''account-123'')"
  "\<not> starts_with (lit ''account-123-'' @ t) (lit ''my-account-456'')"
  "\<not> starts_with (lit ''order-'' @ t) (lit ''account-'')"
  by (simp_all add: lit_def)

lemma sid_str_named [simp]: "sid_str (named_id s) = s"
  by (simp add: named_id_def)

lemma account_prefix_ok [simp]: "account_prefix X scenario = Inr (StreamPrefix (lit ''account-''))"
proof -
  have "stream_prefix_try_new (lit ''account-'') = Inr (StreamPrefix (lit ''account-''))" by code_simp
  then show ?thesis by (simp add: account_prefix_def)
qed

lemma matching_simps [simp]:
  "matching X f [] = []"
  "matching X (filter_prefix (StreamPrefix p)) (sid # h)
     = (if starts_with (sid_str sid) p then [sid] else []) @ matching X (filter_prefix (StreamPrefix p)) h"
  "matching X (filter_pattern pat) (sid # h)
     = (if stream_pattern_matches (ct_glob X) pat (sid_str sid) then [sid] else []) @ matching X (filter_pattern pat) h"
  by (simp_all add: matching_def selects_def filter_prefix_def filter_pattern_def)

lemma matching_append [simp]: "matching X f (h @ h') = matching X f h @ matching X f h'"
  by (simp add: matching_def)

lemma named_ok:
  assumes "uuid_texts_ok X" "plain_text p" "p \<noteq> []" "length p \<le> 200" "k < 64"
  shows "named_stream_id X scenario (p @ now_text X k) = Inr (named_id (p @ now_text X k))"
    and "valid_stream_id (named_id (p @ now_text X k))"
  using assms named_stream_id_ok [of "p @ now_text X k"] now_text_facts [OF assms(1,5)] by simp_all

lemma named_neq:
  "uuid_texts_ok X \<Longrightarrow> i < 64 \<Longrightarrow> j < 64 \<Longrightarrow> named_id (p @ now_text X i) = named_id (q @ now_text X j) \<longleftrightarrow> p = q \<and> i = j"
  using named_id_inj [of "now_text X i" "now_text X j" p q] now_text_facts(1) [of X] now_text_inj [of X]
  by simp

context contract_backend
begin

lemma chosen_find [simp]:
  assumes "sound st" "list_all (\<lambda>sid. starts_with (sid_str sid) s) (matching X f (hist st))"
  shows "find (\<lambda>(e, p). \<not> starts_with (sid_str (contract_event_stream e)) s) (chosen st f) = None"
proof -
  have "\<forall>e \<in> set (map fst (chosen st f)). starts_with (sid_str (contract_event_stream e)) s"
    unfolding selected [OF assms(1)] using assms(2) by (auto simp: list_all_iff)
  then show ?thesis by (auto simp: find_None_iff)
qed

lemma stream_prefix_filtering:
  assumes "sound st" "hist st = []"
  shows "passes st (test_stream_prefix_filtering X ops read)"
  by (rule passes_wp)
    (simp add: test_stream_prefix_filtering_def executes named_ok named_neq pages assms texts [OF assms(1)])

lemma stream_prefix_requires_prefix_match:
  assumes "sound st" "hist st = []"
  shows "passes st (test_stream_prefix_requires_prefix_match X ops read)"
  by (rule passes_wp)
    (simp add: test_stream_prefix_requires_prefix_match_def executes named_ok named_neq pages assms texts [OF assms(1)])

end

section \<open>Patterns\<close>

lemma lit_inj [simp]: "lit s = lit t \<longleftrightarrow> s = t"
  by (simp add: lit_def inj_map_eq_map inj_on_def)

lemma contract_pattern_ok:
  assumes "list_all (\<lambda>c. \<not> is_whitespace c) raw" "raw \<noteq> []" "length raw \<le> 255" "ct_glob X raw \<noteq> None"
  shows "contract_pattern X scenario raw = Inr (StreamPattern raw)"
  using assms
  by (simp add: contract_pattern_def stream_pattern_try_new_def validated_text_def Let_def trim_plain
      is_valid_glob_pattern_def)

lemma no_space_plain: "plain_text s \<Longrightarrow> list_all (\<lambda>c. \<not> is_whitespace c) s"
  by (auto simp: plain_text_def list_all_iff)

lemma single_char_names:
  "one_char_before t (lit ''account-x'' @ t)" "\<not> one_char_before t (lit ''account-xy'' @ t)"
  "\<not> one_char_before t (lit ''order-z'' @ t)"
  by (auto simp: one_char_before_def lit_def dest: arg_cong [of _ _ length])

lemma char_class_names:
  "digit_first (lit ''account-7-'' @ t)" "\<not> digit_first (lit ''account-a-'' @ t)"
  by (simp_all add: digit_first_def lit_def)

lemma pattern_account:
  assumes "uuid_texts_ok X" "glob_ok X"
  shows "contract_pattern X scenario (lit ''account-*'') = Inr (StreamPattern (lit ''account-*''))"
    and "stream_pattern_matches (ct_glob X) (StreamPattern (lit ''account-*'')) s = starts_with s (lit ''account-'')"
proof -
  have g: "ct_glob X (lit ''account-*'') = Some (\<lambda>s. starts_with s (lit ''account-''))"
    using assms(2) by (simp add: glob_ok_def)
  have "list_all (\<lambda>c. \<not> is_whitespace c) (lit ''account-*'')" by code_simp
  then show "contract_pattern X scenario (lit ''account-*'') = Inr (StreamPattern (lit ''account-*''))"
    by (intro contract_pattern_ok) (simp_all add: g)
  show "stream_pattern_matches (ct_glob X) (StreamPattern (lit ''account-*'')) s = starts_with s (lit ''account-'')"
    by (simp add: stream_pattern_matches_def g)
qed

lemma pattern_single:
  assumes "uuid_texts_ok X" "glob_ok X"
  shows "contract_pattern X scenario (lit ''account-?'' @ now_text X 0) = Inr (StreamPattern (lit ''account-?'' @ now_text X 0))"
    and "stream_pattern_matches (ct_glob X) (StreamPattern (lit ''account-?'' @ now_text X 0)) s
     = one_char_before (now_text X 0) s"
proof -
  have g: "ct_glob X (lit ''account-?'' @ now_text X 0) = Some (one_char_before (now_text X 0))"
    using assms(2) by (simp add: glob_ok_def)
  have "list_all (\<lambda>c. \<not> is_whitespace c) (lit ''account-?'')" by code_simp
  then show "contract_pattern X scenario (lit ''account-?'' @ now_text X 0)
      = Inr (StreamPattern (lit ''account-?'' @ now_text X 0))"
    using now_text_facts [OF assms(1), of 0] by (intro contract_pattern_ok) (simp_all add: g no_space_plain)
  show "stream_pattern_matches (ct_glob X) (StreamPattern (lit ''account-?'' @ now_text X 0)) s
     = one_char_before (now_text X 0) s"
    by (simp add: stream_pattern_matches_def g)
qed

lemma pattern_class:
  assumes "uuid_texts_ok X" "glob_ok X"
  shows "contract_pattern X scenario (lit ''account-[0-9]*'') = Inr (StreamPattern (lit ''account-[0-9]*''))"
    and "stream_pattern_matches (ct_glob X) (StreamPattern (lit ''account-[0-9]*'')) s
     = digit_first s"
proof -
  have g: "ct_glob X (lit ''account-[0-9]*'') = Some digit_first"
    using assms(2) by (simp add: glob_ok_def)
  have "list_all (\<lambda>c. \<not> is_whitespace c) (lit ''account-[0-9]*'')" by code_simp
  then show "contract_pattern X scenario (lit ''account-[0-9]*'') = Inr (StreamPattern (lit ''account-[0-9]*''))"
    by (intro contract_pattern_ok) (simp_all add: g)
  show "stream_pattern_matches (ct_glob X) (StreamPattern (lit ''account-[0-9]*'')) s
     = digit_first s"
    by (simp add: stream_pattern_matches_def g)
qed

lemma simple_ok:
  assumes "uuid_texts_ok X" "plain_text p" "p \<noteq> []" "length p \<le> 200"
  shows "named_stream_id X scenario (p @ ct_show_simple X (ct_uuid X 0)) = Inr (named_id (p @ ct_show_simple X (ct_uuid X 0)))"
    and "valid_stream_id (named_id (p @ ct_show_simple X (ct_uuid X 0)))"
  using assms named_stream_id_ok [of "p @ ct_show_simple X (ct_uuid X 0)"]
  by (simp_all add: uuid_texts_ok_def plain_uuid)

text \<open>The fifty streams of the other kind.\<close>

lemma register_orders_ok:
  assumes "uuid_texts_ok X" "distinct ks" "\<forall>k \<in> set ks. k < 64 \<and> named_id (lit ''order-'' @ now_text X k) \<notin> fst ` set ex"
  shows "register_orders X scenario ks (batch X ex []) orders
    = Inr (batch X (ex @ map (\<lambda>k. (named_id (lit ''order-'' @ now_text X k), 0)) ks) [],
           orders @ map (\<lambda>k. named_id (lit ''order-'' @ now_text X k)) ks)"
  using assms(2,3)
proof (induction ks arbitrary: ex orders)
  case (Cons k ks)
  have "\<forall>j \<in> set ks. named_id (lit ''order-'' @ now_text X j) \<noteq> named_id (lit ''order-'' @ now_text X k)"
    using Cons.prems by (auto simp: named_neq assms(1))
  with Cons show ?case by (simp add: named_ok register_batch assms(1))
qed simp

lemma matching_orders: "uuid_texts_ok X \<Longrightarrow> glob_ok X \<Longrightarrow> matching X (filter_pattern (StreamPattern (lit ''account-*'')))
    (map (\<lambda>k. named_id (lit ''order-'' @ now_text X k)) ks) = []"
  by (induction ks) (simp_all add: pattern_account)

context contract_backend
begin

lemma stream_pattern_single_char:
  assumes "sound st" "hist st = []"
  shows "passes st (test_stream_pattern_single_char X ops read)"
  by (rule passes_wp)
    (simp add: test_stream_pattern_single_char_def executes named_ok named_neq pages assms texts [OF assms(1)] pattern_single
      single_char_names)

lemma stream_pattern_char_class:
  assumes "sound st" "hist st = []"
  shows "passes st (test_stream_pattern_char_class X ops read)"
  by (rule passes_wp)
    (simp add: test_stream_pattern_char_class_def executes simple_ok named_id_inj pages assms texts [OF assms(1)] pattern_class
      char_class_names)

lemma stream_pattern_filtering:
  assumes "sound st" "hist st = []"
  shows "passes st (test_stream_pattern_filtering X ops read)"
proof -
  define ks where "ks = [Suc 0..<51]"
  define orders where "orders = map (\<lambda>k. named_id (lit ''order-'' @ now_text X k)) ks"
  define ex :: "(stream_id \<times> stream_version) list" where "ex = map (\<lambda>sid. (sid, 0)) orders"
  have ks: "distinct ks" "\<forall>k \<in> set ks. 0 < k \<and> k < 64" "length ks = 50"
    by (auto simp: ks_def simp del: upt_Suc)
  have loop: "register_orders X scenario [Suc 0..<51] (batch X [] []) [] = Inr (batch X ex [], orders)" for scenario
    using register_orders_ok [OF texts(1) [OF assms(1)], of ks "[]" scenario "[]"] ks by (simp add: ks_def ex_def orders_def comp_def del: upt_Suc)
  have wf: "distinct orders" "\<forall>sid \<in> set orders. valid_stream_id sid" "length orders = 50"
    using ks by (auto simp: orders_def distinct_map inj_on_def named_neq named_ok texts [OF assms(1)])
  have ex: "map fst ex = orders" "fst ` set ex = set orders" "list_all (\<lambda>(sid, v). v = 0) ex"
    by (simp_all add: ex_def comp_def image_image list_all_iff)
  have fresh: "named_id (lit ''account-1-'' @ now_text X 0) \<notin> set orders"
    "named_id (lit ''account-2-'' @ now_text X 0) \<notin> set orders"
    using ks(2) by (auto simp: orders_def named_neq texts [OF assms(1)])
  have unmatched: "matching X (filter_pattern (StreamPattern (lit ''account-*''))) orders = []"
    by (simp add: orders_def matching_orders texts [OF assms(1)])
  show ?thesis
    by (rule passes_wp)
      (simp add: test_stream_pattern_filtering_def executes loop named_ok named_neq wf ex fresh pages
        assms texts [OF assms(1)] pattern_account unmatched subset_insertI2 del: upt_Suc set_map)
qed

end

end
