(* ===== verification/Contract_Services.thy ===== *)
theory Contract_Services
  imports Contract_Filters
begin

text \<open>
  The other scenarios of the contract suite: command-state snapshots, checkpoints and leadership, each on
  every provider of the trait's contract. At the end: a back end passes the whole suite.
\<close>

section \<open>Command-state snapshots\<close>

text \<open>\<open>kept st i\<close> is the snapshot under an identifier; a save never replaces it by one that does not cover it.\<close>

locale contract_snapshots =
  fixes ops :: "('st, 'json) contract_ops"
    and kept :: "'st \<Rightarrow> rstring \<Rightarrow> 'json command_state_snapshot option"
    and ssound :: "'st \<Rightarrow> bool"
  assumes loads: "ssound st \<Longrightarrow> op_load_snapshot ops st i = Inr (kept st i)"
    and saves: "ssound st \<Longrightarrow> fst (op_save_snapshot ops st i s) = Inr ()"
    and save_sound: "ssound st \<Longrightarrow> ssound (snd (op_save_snapshot ops st i s))"
    and save_kept: "ssound st \<Longrightarrow> kept (snd (op_save_snapshot ops st i s)) i
          = (case kept st i of Some c \<Rightarrow> Some (if covers s c then s else c) | None \<Rightarrow> Some s)"
begin

declare save_sound [simp] save_kept [simp]

lemma wp_save [simp]:
  "ssound st \<Longrightarrow> wp (save_snapshot_step X ops scenario operation_name i s) Q st = Q () (snd (op_save_snapshot ops st i s))"
  using saves [of st i s] by (cases "op_save_snapshot ops st i s") (simp add: wp_def save_snapshot_step_def)

lemma wp_load [simp]:
  "ssound st \<Longrightarrow> wp (\<lambda>st. (map_err e (op_load_snapshot ops st i), st)) Q st = Q (kept st i) st"
  by (simp add: wp_def loads)

lemma wp_load_found [simp]:
  "ssound st \<Longrightarrow> kept st i = Some s \<Longrightarrow>
     wp (\<lambda>st. (rbind (map_err e (op_load_snapshot ops st i)) (\<lambda>found. case found of None \<Rightarrow> Inl e' | Some s \<Rightarrow> Inr s), st)) Q st
       = Q s st"
  by (simp add: wp_def loads)

lemma contract_snapshot_id_ok:
  assumes "uuid_texts_ok X" "plain_text scenario" "length scenario \<le> 190"
  shows "contract_snapshot_id X 0 scenario = Inr (lit ''contract::snapshot::'' @ scenario @ lit ''::'' @ now_text X 0)"
proof -
  have "plain_text (lit ''contract::snapshot::'')" "plain_text (lit ''::'')" by code_simp+
  then show ?thesis
    using assms now_text_facts [OF assms(1), of 0]
    by (simp add: contract_snapshot_id_def plain_snapshot_id Let_def)
qed

lemma command_state_snapshot_load_missing:
  assumes "uuid_texts_ok X" "ssound st" "\<forall>i. kept st i = None"
  shows "passes st (test_command_state_snapshot_load_missing X ops)"
  by (rule passes_wp) (simp add: test_command_state_snapshot_load_missing_def Let_def assms contract_snapshot_id_ok)

lemma snapshot_stale:
  assumes "p \<noteq> q"
  shows "\<not> covers (contract_snapshot balance_json p q 3 8 100) (contract_snapshot balance_json p q 4 9 200)"
  using assms
  by (simp add: contract_snapshot_def covers_def with_replay_checkpoints_def snapshot_new_def hm_insert_new Let_def)

lemma command_state_snapshot_round_trip_and_monotonic:
  assumes "uuid_texts_ok X" "ssound st" "\<forall>i. kept st i = None"
  shows "passes st (test_command_state_snapshot_round_trip_and_monotonic X balance_json ops)"
  by (rule passes_wp)
      (simp add: test_command_state_snapshot_round_trip_and_monotonic_def Let_def assms snapshot_stale
        contract_stream_id_ok contract_id_inj contract_snapshot_id_ok)

end

section \<open>Checkpoints\<close>

lemma subscription_neq:
  assumes "uuid_texts_ok X" "i < 64" "j < 64" "i \<noteq> j"
  shows "subscription_name X scenario label i \<noteq> subscription_name X scenario label' j"
proof -
  have "length (now_text X i) = length (now_text X j)" "now_text X i \<noteq> now_text X j"
    using assms by (simp_all add: now_text_facts now_text_inj)
  then show ?thesis
    using append_same_length [of "now_text X i" "now_text X j"]
    by (auto simp: subscription_name_def simp flip: append_assoc)
qed

context checkpoint_store
begin

lemma wp_save_step [simp]:
  "cinv st \<Longrightarrow> wp (save_step save scenario m n p) Q st = Q () (snd (save st n p))"
  using save_ok [of st n p] by (auto simp: wp_def save_step_def)

lemma save_cinv [simp]: "cinv st \<Longrightarrow> cinv (snd (save st n p))"
  using save_ok [of st n p] by auto

lemma wp_load_step [simp]:
  "load st n = Inr c \<Longrightarrow> wp (load_step load scenario m n) Q st = Q c st"
  by (simp add: wp_def load_step_def)

lemma checkpoint_contract_passes:
  assumes "uuid_texts_ok X" "cinv st" "\<forall>n. load st n = Inr None"
  shows "list_all (passes st) (checkpoint_contract X load save)"
  unfolding checkpoint_contract_def list.pred_inject
  by (intro conjI passes_wp TrueI)
    (simp_all add: test_checkpoint_save_and_load_def test_checkpoint_update_overwrites_def
      test_checkpoint_load_missing_returns_none_def test_checkpoint_independent_subscriptions_def
      Let_def assms load_save subscription_neq)

end

section \<open>Leadership\<close>

context projector_coordinator
begin

lemma wp_acquire_step:
  "acquire st n = (Inr g, st') \<Longrightarrow> wp (acquire_step acquire scenario m n) Q st = Q g st'"
  by (simp add: wp_def acquire_step_def)

lemma wp_acquire:
  "acquire st n = (r, st') \<Longrightarrow> wp (try_acquire_step acquire n) P st = P r st'"
  "wp (\<lambda>st. (Inr (), release st g)) Q' st = Q' () (release st g)"
  by (simp_all add: wp_def try_acquire_step_def)

lemma coordinator_contract_passes:
  assumes "uuid_texts_ok X" "linv st" "held st = {}"
  shows "list_all (passes st) (coordinator_contract X acquire release)"
proof -
  have acq: "\<exists>g st'. acquire st n = (Inr g, st') \<and> guards g = n \<and> held st' = {n} \<and> linv st'" for n
    using acquire_free [OF assms(2), of n] assms(3) by simp
  have leads: "passes st (test_coordination_acquire_leadership X acquire)"
  proof (rule passes_wp)
    obtain g st' where "acquire st (subscription_name X (lit ''coordination_acquire_leadership'') [] 0) = (Inr g, st')"
      using acq by blast
    then show "wp (test_coordination_acquire_leadership X acquire) (\<lambda>_ _. True) st"
      by (simp add: test_coordination_acquire_leadership_def Let_def wp_acquire)
  qed
  have blocked: "passes st (test_coordination_second_instance_blocked X acquire)"
  proof (rule passes_wp)
    let ?n = "subscription_name X (lit ''coordination_second_instance_blocked'') [] 0"
    obtain g st' where a: "acquire st ?n = (Inr g, st')" "held st' = {?n}" "linv st'" using acq by blast
    obtain e where "acquire st' ?n = (Inl e, st')" using acquire_held [OF a(3), of ?n] a(2) by auto
    with a(1) show "wp (test_coordination_second_instance_blocked X acquire) (\<lambda>_ _. True) st"
      by (simp add: test_coordination_second_instance_blocked_def Let_def wp_acquire wp_acquire_step)
  qed
  have independent: "passes st (test_coordination_independent_subscriptions X acquire)"
  proof (rule passes_wp)
    let ?sc = "lit ''coordination_independent_subscriptions''"
    let ?a = "subscription_name X ?sc (lit ''::projector-A'') 0" and ?b = "subscription_name X ?sc (lit ''::projector-B'') 1"
    obtain g st' where a: "acquire st ?a = (Inr g, st')" "held st' = {?a}" "linv st'" using acq by blast
    have "?b \<notin> held st'" using a(2) subscription_neq [OF assms(1)] by simp
    from acquire_free [OF a(3) this] obtain g' st2 where "acquire st' ?b = (Inr g', st2)" by blast
    with a(1) show "wp (test_coordination_independent_subscriptions X acquire) (\<lambda>_ _. True) st"
      by (simp add: test_coordination_independent_subscriptions_def Let_def wp_acquire wp_acquire_step)
  qed
  have released: "passes st (test_coordination_leadership_released_on_guard_drop X acquire release)"
  proof (rule passes_wp)
    let ?n = "subscription_name X (lit ''coordination_leadership_released_on_guard_drop'') [] 0"
    obtain g st' where a: "acquire st ?n = (Inr g, st')" "linv st'" using acq by blast
    obtain g' st2 where "acquire (release st' g) ?n = (Inr g', st2)"
      using leadership_exclusive(2) [OF assms(2) a(1)] by blast
    with a(1) show "wp (test_coordination_leadership_released_on_guard_drop X acquire release) (\<lambda>_ _. True) st"
      by (simp add: test_coordination_leadership_released_on_guard_drop_def Let_def wp_acquire wp_acquire_step)
  qed
  from leads blocked independent released show ?thesis by (simp add: coordinator_contract_def)
qed

end

section \<open>The whole store suite\<close>

context contract_backend
begin

text \<open>The scenarios on a store without snapshots pass; with them, the store is a provider of both contracts.\<close>

lemma store_contract_passes:
  assumes "sound st" "hist st = []"
    and "passes st (test_command_state_snapshot_load_missing X ops)"
    and "passes st (test_command_state_snapshot_round_trip_and_monotonic X balance_json ops)"
  shows "list_all (passes st) (store_contract X balance_json ops read_mismatched read)"
  by (simp add: store_contract_def assms basic_read_write concurrent_version_conflicts
      read_only_participant_conflict_preserves_atomicity current_read_only_participant_allows_write stream_isolation
      missing_stream_reads conflict_preserves_atomicity read_stream_errors_on_type_mismatch
      event_ordering_across_streams position_based_resumption stream_prefix_filtering
      stream_prefix_requires_prefix_match stream_pattern_filtering stream_pattern_single_char
      stream_pattern_char_class batch_limiting read_stream_after_excludes_reconstructed_events)

end

end
