(* ===== verification/Contract_Memory.thy ===== *)
theory Contract_Memory
  imports Contract_Services Memory_Projection
begin

text \<open>The in-memory back end is a back end of the contract suite, so it passes all of it.\<close>

section \<open>The store\<close>

definition mem_hist :: "(contract_event, 'json) store_data \<Rightarrow> stream_id list" where
  "mem_hist data = map (\<lambda>le. StreamId (le_stream_id le)) (global_log data)"

definition holds_tests ::
  "(nat \<Rightarrow> uuid) \<Rightarrow> contract_env \<Rightarrow> (contract_event, 'json) store_data \<Rightarrow> bool" where
  "holds_tests now_v7 X data \<longleftrightarrow> contract_env_ok X \<and> projectable now_v7 64 (contract_event_type X) data
     \<and> uuid_calls data = length (global_log data)
     \<and> (\<forall>sid. mem_view data sid = replicate (count_list (mem_hist data) sid) (ContractTestEvent sid))
     \<and> (\<forall>le \<in> set (global_log data).
          ev_from_json (contract_event_type X) (le_event_data le) = Some (ContractTestEvent (StreamId (le_stream_id le))))"

lemma contract_events_decode: "stream_json_ok X \<Longrightarrow> decodes (contract_event_type X)"
  by (auto simp: decodes_def contract_event_type_def stream_json_ok_def split: if_splits)
    (metis contract_event_stream.simps(1) is_contract_test_event.elims(2))

lemma holds_tests_new:
  assumes "contract_env_ok X" "clock_ok now_v7 64"
  shows "holds_tests now_v7 X memory_new" and "mem_hist memory_new = []"
  using assms contract_events_decode [of X]
  by (simp_all add: holds_tests_def projectable_def mem_inv_new log_inv_new contract_env_ok_def)
    (simp_all add: memory_new_def mem_hist_def mem_view_def)

lemma batch_good:
  "stream_json_ok X \<Longrightarrow> good_batch_of ex sids \<Longrightarrow> good_batch (well_typed (contract_event_type X)) (batch X ex sids)"
  using batch_wf [of ex sids X] contract_entry_typed [of X]
  by (simp add: good_batch_def well_typed_def) (simp add: good_batch_of_def)

lemma push_entries_hist:
  "mem_hist (fold (push_entry now_v7) es data) = mem_hist data @ map we_stream_id es"
  by (induction es arbitrary: data) (simp_all add: push_entry_log mem_hist_def)

lemma push_entries_data:
  assumes "\<forall>en \<in> set es. P (sid_str (we_stream_id en)) (we_event_data en)"
    and "\<forall>le \<in> set (global_log data). P (le_stream_id le) (le_event_data le)"
  shows "\<forall>le \<in> set (global_log (fold (push_entry now_v7) es data)). P (le_stream_id le) (le_event_data le)"
  using assms
proof (induction es arbitrary: data)
  case (Cons en es)
  have "\<forall>le \<in> set (global_log (push_entry now_v7 en data)). P (le_stream_id le) (le_event_data le)"
    using Cons.prems by (auto simp: push_entry_log)
  with Cons show ?case by simp
qed simp

lemma tests_versions:
  assumes "holds_tests now_v7 X data"
  shows "versions_match mem_view data (batch X ex sids) \<longleftrightarrow> current_versions (mem_hist data) ex"
proof -
  have "vlen (mem_view data sid) = of_nat (count_list (mem_hist data) sid)" for sid
    using assms by (simp add: holds_tests_def vlen_def)
  then show ?thesis by (simp add: versions_match_def current_versions_def list_all_iff)
qed

text \<open>A batch of the suite is committed, or the store is as it was.\<close>

lemma tests_append:
  assumes "holds_tests now_v7 X data" "good_batch_of ex sids" "length (mem_hist data) + length sids \<le> 64"
    and "current_versions (mem_hist data) ex"
  shows "\<exists>data'. mem_append_events now_v7 data (batch X ex sids) = (Inr (), data')
    \<and> holds_tests now_v7 X data' \<and> mem_hist data' = mem_hist data @ sids"
proof (intro exI conjI)
  let ?w = "batch X ex sids" and ?E = "contract_event_type X"
  let ?d = "fold (push_entry now_v7) (entries ?w) data"
  have tests: "contract_env_ok X" "projectable now_v7 64 ?E data" "uuid_calls data = length (global_log data)"
    "stream_json_ok X" "mem_inv ?E data"
    using assms(1) by (simp_all add: holds_tests_def contract_env_ok_def projectable_def)
  show app: "mem_append_events now_v7 data ?w = (Inr (), ?d)"
    using mem_append_ok_iff [OF tests(5)] tests_versions [OF assms(1)] assms(4) by blast
  show hist: "mem_hist ?d = mem_hist data @ sids"
    by (simp add: push_entries_hist comp_def contract_entry_def)
  have room: "uuid_calls data + length (entries ?w) \<le> 64"
    using assms(3) tests(3) by (simp add: mem_hist_def)
  have "projectable now_v7 64 ?E ?d"
    using writer_projectable(1) [OF tests(2) batch_good [OF tests(4) assms(2)]] room app by (simp add: writer_def)
  moreover have "uuid_calls ?d = length (global_log ?d)"
    using arg_cong [OF hist, of length] tests(3) by (simp add: push_entries_calls mem_hist_def)
  moreover have "mem_view ?d sid = replicate (count_list (mem_hist ?d) sid) (ContractTestEvent sid)" for sid
  proof -
    have "mem_view ?d sid = mem_view data sid @ events_for (entries ?w) sid"
      using mem.append_ok [OF tests(5) batch_wf [OF assms(2)], of X now_v7 "()" ?d] app assms(2)
        contract_entry_typed [OF tests(4)]
      by (simp add: memory_ops_def well_typed_def good_batch_of_def)
    then show ?thesis using assms(1)
      by (simp add: hist [simplified] batch_events holds_tests_def replicate_add)
  qed
  moreover have "\<forall>le \<in> set (global_log ?d).
      ev_from_json ?E (le_event_data le) = Some (ContractTestEvent (StreamId (le_stream_id le)))"
  proof (rule push_entries_data)
    show "\<forall>en \<in> set (entries ?w). ev_from_json ?E (we_event_data en)
        = Some (ContractTestEvent (StreamId (sid_str (we_stream_id en))))"
      using assms(2) contract_entry_typed [OF tests(4)] contract_events_decode [OF tests(4)]
      by (auto simp: good_batch_of_def typed_entry_def decodes_def contract_entry_def)
    show "\<forall>le \<in> set (global_log data).
        ev_from_json ?E (le_event_data le) = Some (ContractTestEvent (StreamId (le_stream_id le)))"
      using assms(1) by (simp add: holds_tests_def)
  qed
  ultimately show "holds_tests now_v7 X ?d" using tests(1) by (simp add: holds_tests_def)
qed

lemma tests_conflict:
  assumes "holds_tests now_v7 X data" "\<not> current_versions (mem_hist data) ex"
  shows "\<exists>sid v a. mem_append_events now_v7 data (batch X ex sids) = (Inl (VersionConflict sid v a), data)"
proof -
  have inv: "mem_inv (contract_event_type X) data" using assms(1) by (simp add: holds_tests_def projectable_def)
  obtain e data' where r: "mem_append_events now_v7 data (batch X ex sids) = (Inl e, data')"
    using mem_append_ok_iff [OF inv] tests_versions [OF assms(1)] assms(2) by (metis old.sum.exhaust surj_pair)
  show ?thesis using mem_append_err [OF inv r] r by blast
qed

lemma tests_mismatch:
  assumes "holds_tests now_v7 X data" "sid \<in> set (mem_hist data)"
  shows "\<exists>s d. rbind (mem_read_stream (mismatched_event_type X) data sid) collect_events = Inl (DeserializationFailed s d)"
proof -
  have alive: "\<not> poisoned data" using assms(1) by (simp add: holds_tests_def projectable_def mem_inv_def)
  have "count_list (mem_hist data) sid \<noteq> 0" using assms(2) by (simp add: count_list_0_iff)
  then obtain n where "mem_view data sid = ContractTestEvent sid # replicate n (ContractTestEvent sid)"
    using assms(1) by (cases "count_list (mem_hist data) sid") (simp_all add: holds_tests_def)
  then obtain v where "hm_get (streams data) sid = Some (ContractTestEvent sid # replicate n (ContractTestEvent sid), v)"
    by (auto simp: mem_view_def split: option.splits)
  then show ?thesis
    by (simp add: mem_read_stream_def alive collect_events_def downcast_def mismatched_event_type_def downcast_error_def)
qed

lemma tests_selected:
  assumes "holds_tests now_v7 X data"
  shows "map fst (log_events (ct_glob X) (contract_event_type X) data f) = map ContractTestEvent (matching X f (mem_hist data))"
proof -
  let ?E = "contract_event_type X"
  have le: "le_event_type le = lit ''ContractTestEvent''"
      "ev_from_json ?E (le_event_data le) = Some (ContractTestEvent (StreamId (le_stream_id le)))"
    if "le \<in> set (global_log data)" for le
    using assms that by (auto simp: holds_tests_def projectable_def log_inv_def contract_event_type_def)
  have "ev_type_name ?E = lit ''ContractTestEvent''" by (simp add: contract_event_type_def)
  with le show ?thesis
    by (auto simp: log_events_def matching_def mem_hist_def filter_map comp_def cong: filter_cong)
qed

interpretation mem_suite: contract_backend "mem_read_events (ct_glob X) (contract_event_type X)" "holds_tests now_v7 X"
  "log_events (ct_glob X) (contract_event_type X)" X "memory_ops now_v7 (contract_event_type X)"
  "mem_read_stream (mismatched_event_type X)" mem_hist
proof (unfold_locales, goal_cases)
  case (1 st f pg)
  then show ?case using projectable_read [of now_v7 64] unfolding holds_tests_def by blast
next
  case (2 st f)
  then show ?case using projectable_increasing unfolding holds_tests_def by blast
next
  case (3 st)
  then show ?case by (simp add: holds_tests_def)
next
  case (4 st sid)
  then show ?case by (simp add: holds_tests_def memory_ops_def mem_read_view projectable_def del: map_replicate)
next
  case (5 st sid v)
  then show ?case
    by (simp add: holds_tests_def memory_ops_def mem_read_view projectable_def del: map_replicate)
next
  case (6 st ex sids)
  then show ?case using tests_append by (fastforce simp: memory_ops_def)
next
  case (7 st ex sids)
  then show ?case using tests_conflict [OF 7(1,4), of sids] by (auto simp: memory_ops_def)
next
  case (8 st ex sids)
  then show ?case using tests_append [OF 8] tests_conflict [OF 8(1), of ex sids]
    by (cases "current_versions (mem_hist st) ex") (auto simp: memory_ops_def)
next
  case (9 st ex sids)
  then show ?case using tests_append [OF 9(1-3)] tests_conflict [OF 9(1), of ex sids] by (auto simp: memory_ops_def)
next
  case (10 st sid)
  then show ?case by (rule tests_mismatch)
next
  case (11 st f)
  then show ?case by (rule tests_selected)
qed


interpretation mem_suite_snap: contract_snapshots "memory_ops now_v7 (contract_event_type X)" mem_stored "\<lambda>d. \<not> poisoned d"
  by unfold_locales
     (auto simp: memory_ops_def mem_load_snapshot_def mem_save_snapshot_def mem_stored_def Let_def split: option.splits)

section \<open>The suite\<close>

text \<open>
  C6. The in-memory back end passes the whole contract suite: on a fresh store, checkpoint store and
  coordinator every scenario ends without a failure and without a panic.
\<close>

theorem memory_passes_contract:
  assumes "contract_env_ok X" "clock_ok now_v7 64"
  shows "list_all (passes (memory_new :: (contract_event, 'json) store_data))
      (store_contract X balance_json (memory_ops now_v7 (contract_event_type X))
        (mem_read_stream (mismatched_event_type X)) (mem_read_events (ct_glob X) (contract_event_type X)))
    \<and> list_all (passes checkpoint_store_new) (checkpoint_contract X cp_load cp_save)
    \<and> list_all (passes coordinator_new) (coordinator_contract X co_try_acquire co_drop_guard)"
proof (intro conjI)
  have texts: "uuid_texts_ok X" using assms(1) by (simp add: contract_env_ok_def)
  let ?new = "memory_new :: (contract_event, 'json) store_data"
  have fresh: "\<not> poisoned ?new" "\<forall>i. mem_stored ?new i = None" by (simp_all add: memory_new_def mem_stored_def)
  show "list_all (passes ?new) (store_contract X balance_json (memory_ops now_v7 (contract_event_type X))
      (mem_read_stream (mismatched_event_type X)) (mem_read_events (ct_glob X) (contract_event_type X)))"
    by (rule mem_suite.store_contract_passes [OF holds_tests_new [OF assms]
          mem_suite_snap.command_state_snapshot_load_missing [OF texts fresh]
          mem_suite_snap.command_state_snapshot_round_trip_and_monotonic [OF texts fresh]])
  show "list_all (passes checkpoint_store_new) (checkpoint_contract X cp_load cp_save)"
    by (rule checkpoint_store.checkpoint_contract_passes [OF cps.checkpoint_store_axioms texts])
      (simp_all add: checkpoint_store_new_def cp_load_def)
  show "list_all (passes coordinator_new) (coordinator_contract X co_try_acquire co_drop_guard)"
    by (rule projector_coordinator.coordinator_contract_passes [OF co.projector_coordinator_axioms texts])
      (simp_all add: coordinator_new_def co_leaders_def hm_contains_def)
qed

section \<open>Libraries for which it holds\<close>

definition sample_show_uuid :: "uuid \<Rightarrow> rstring" where
  "sample_show_uuid u = replicate 34 48 @ [48 + unat u div 10 mod 10, 48 + unat u mod 10]"

definition sample_glob :: "rstring \<Rightarrow> (rstring \<Rightarrow> bool) option" where
  "sample_glob raw =
     (if raw = lit ''account-*'' then Some (\<lambda>s. starts_with s (lit ''account-''))
      else if raw = lit ''account-[0-9]*'' then Some digit_first
      else if starts_with raw (lit ''account-?'') then Some (one_char_before (drop 9 raw))
      else None)"

definition sample_contract_env :: contract_env where
  "sample_contract_env =
     \<lparr>ct_uuid = of_nat, ct_show_uuid = sample_show_uuid, ct_show_simple = (\<lambda>u. replicate 32 48),
      ct_show_error = (\<lambda>e. []), ct_show_nutype = (\<lambda>e. []), ct_debug_stream = sid_str,
      ct_debug_position = (\<lambda>p. []), ct_to_json = (\<lambda>sid. Inr (sid_str sid)),
      ct_from_json = (\<lambda>j. Some (StreamId j)), ct_mismatched_to_json = (\<lambda>sid extra. Inr (sid_str sid)),
      ct_mismatched_from_json = (\<lambda>j. None), ct_glob = sample_glob\<rparr>"

lemma sample_now_text:
  "k < 64 \<Longrightarrow> now_text sample_contract_env k = replicate 34 48 @ [48 + k div 10, 48 + k mod 10]"
  by (simp add: now_text_def sample_contract_env_def sample_show_uuid_def unat_of_nat take_bit_nat_eq_self)

lemma sample_texts_ok: "uuid_texts_ok sample_contract_env"
proof -
  have "k = j" if "k < 64" "j < 64" "now_text sample_contract_env k = now_text sample_contract_env j" for k j
    using that by (simp add: sample_now_text) (metis div_mult_mod_eq)
  then have "distinct (map (now_text sample_contract_env) [0..<64])"
    by (auto simp: distinct_map inj_on_def simp del: upt_Suc)
  moreover have "length (now_text sample_contract_env k) = 36 \<and> list_all uuid_char (now_text sample_contract_env k)"
    if "k < 64" for k
    using that by (auto simp: sample_now_text uuid_char_def list_all_iff)
  ultimately show ?thesis
    by (simp add: uuid_texts_ok_def del: upt_Suc)
      (simp add: sample_contract_env_def list_all_iff uuid_char_def)
qed

lemma sample_glob_ok: "glob_ok sample_contract_env"
  unfolding glob_ok_def by (simp add: sample_contract_env_def sample_glob_def lit_def)

lemma sample_env_ok: "contract_env_ok sample_contract_env"
  by (simp add: contract_env_ok_def sample_texts_ok sample_glob_ok)
    (simp add: stream_json_ok_def sample_contract_env_def)

theorem memory_passes_contract_witness:
  "list_all (passes (memory_new :: (contract_event, u64) store_data))
      (store_contract sample_contract_env id (memory_ops of_nat (contract_event_type sample_contract_env))
        (mem_read_stream (mismatched_event_type sample_contract_env))
        (mem_read_events sample_glob (contract_event_type sample_contract_env)))"
proof -
  have clock: "clock_ok of_nat 64"
    by (auto simp: clock_ok_def word_less_nat_alt unat_of_nat take_bit_nat_eq_self simp del: of_nat_Suc)
  have "ct_glob sample_contract_env = sample_glob" by (simp add: sample_contract_env_def)
  with memory_passes_contract [OF sample_env_ok clock, of id] show ?thesis by simp
qed

end
