(* ===== verification/Delivery.thy ===== *)
theory Delivery
  imports Reading
begin

text \<open>
  The vocabulary of lossless delivery (\<open>eventcore-types/src/projection_delivery.rs\<close>): the identities, positions,
  selections and envelopes of a transactional projection, and the trait \<open>ProjectionSource\<close> as a dictionary.
\<close>

section \<open>Identities\<close>

datatype delivery_identity_error = BlankIdentity rstring

text \<open>
  The macro \<open>delivery_identity\<close> generates one constructor per type; \<open>kind\<close> is the type's name. Raw JSON is text.
\<close>

definition delivery_identity :: "rstring \<Rightarrow> rstring \<Rightarrow> delivery_identity_error + rstring" where
  "delivery_identity kind value = (let v = str_trim value in if v = [] then Inl (BlankIdentity kind) else Inr v)"

datatype delivery_source_id = DeliverySourceId (source_text: rstring)
datatype projector_name = ProjectorName (projector_text: rstring)
datatype projection_selection_id = ProjectionSelectionId (selection_text: rstring)
datatype event_type_name = EventTypeName (event_type_text: rstring)

definition source_id_try_new :: "rstring \<Rightarrow> delivery_identity_error + delivery_source_id" where
  "source_id_try_new s = map_sum id DeliverySourceId (delivery_identity (lit ''DeliverySourceId'') s)"

definition projector_name_try_new :: "rstring \<Rightarrow> delivery_identity_error + projector_name" where
  "projector_name_try_new s = map_sum id ProjectorName (delivery_identity (lit ''ProjectorName'') s)"

definition selection_id_try_new :: "rstring \<Rightarrow> delivery_identity_error + projection_selection_id" where
  "selection_id_try_new s = map_sum id ProjectionSelectionId (delivery_identity (lit ''ProjectionSelectionId'') s)"

definition event_type_try_new :: "rstring \<Rightarrow> delivery_identity_error + event_type_name" where
  "event_type_try_new s = map_sum id EventTypeName (delivery_identity (lit ''EventTypeName'') s)"

lemma delivery_identity_Inr_iff: "delivery_identity kind s = Inr v \<longleftrightarrow> v = str_trim s \<and> v \<noteq> []"
  by (auto simp: delivery_identity_def Let_def)

section \<open>Positions and envelopes\<close>

text \<open>A position wraps a \<open>NonZeroU64\<close>: \<open>position_new\<close> is \<open>NonZeroU64::new\<close> followed by the wrapper.\<close>

datatype delivery_position = DeliveryPosition (position_value: u64)

definition position_new :: "u64 \<Rightarrow> delivery_position option" where
  "position_new v = (if v = 0 then None else Some (DeliveryPosition v))"

instantiation delivery_position :: linorder
begin

definition less_eq_delivery_position :: "delivery_position \<Rightarrow> delivery_position \<Rightarrow> bool" where
  "less_eq_delivery_position a b \<longleftrightarrow> position_value a \<le> position_value b"

definition less_delivery_position :: "delivery_position \<Rightarrow> delivery_position \<Rightarrow> bool" where
  "less_delivery_position a b \<longleftrightarrow> position_value a < position_value b"

instance
  by standard
     (auto simp: less_eq_delivery_position_def less_delivery_position_def intro: delivery_position.expand)

end

datatype persisted_event_id = PersistedEventId (event_uuid: uuid)

record persisted_event_envelope =
  pe_source_id :: delivery_source_id
  pe_position :: delivery_position
  pe_event_id :: persisted_event_id
  pe_stream_id :: stream_id
  pe_stream_version :: stream_version
  pe_event_type :: event_type_name
  pe_payload :: rstring
  pe_metadata :: rstring

section \<open>Selections\<close>

datatype delivery_upper_bound = Inclusive delivery_position | Unbounded

datatype projection_stream_filter = AllStreams | PrefixFilter stream_prefix | PatternFilter stream_pattern

datatype projection_selection_error = EmptyEventTypes | DuplicateEventType event_type_name

record projection_selection =
  sel_id :: projection_selection_id
  sel_stream_filter :: projection_stream_filter
  sel_event_types :: "event_type_name list"

text \<open>The loop over the event types, each compared with those before it.\<close>

fun first_duplicate :: "event_type_name list \<Rightarrow> event_type_name list \<Rightarrow> event_type_name option" where
  "first_duplicate before [] = None"
| "first_duplicate before (ty # rest) =
     (if ty \<in> set before then Some ty else first_duplicate (before @ [ty]) rest)"

definition projection_selection_try_new ::
  "projection_selection_id \<Rightarrow> projection_stream_filter \<Rightarrow> event_type_name list
     \<Rightarrow> projection_selection_error + projection_selection" where
  "projection_selection_try_new i f types =
     (if types = [] then Inl EmptyEventTypes
      else case first_duplicate [] types of
             Some ty \<Rightarrow> Inl (DuplicateEventType ty)
           | None \<Rightarrow> Inr \<lparr>sel_id = i, sel_stream_filter = f, sel_event_types = types\<rparr>)"

lemma first_duplicate_None: "distinct before \<Longrightarrow> first_duplicate before types = None \<longleftrightarrow> distinct (before @ types)"
  by (induction before types rule: first_duplicate.induct) auto

lemma first_duplicate_Some:
  "first_duplicate before types = Some ty \<Longrightarrow> \<exists>pre post. types = pre @ ty # post \<and> ty \<in> set (before @ pre)"
proof (induction before types rule: first_duplicate.induct)
  case (2 before t rest)
  show ?case
  proof (cases "t \<in> set before")
    case True
    then have "t # rest = [] @ ty # rest \<and> ty \<in> set (before @ [])" using 2 by simp
    then show ?thesis by blast
  next
    case False
    then obtain pre post where "rest = pre @ ty # post" "ty \<in> set ((before @ [t]) @ pre)"
      using 2 by auto
    then show ?thesis by (intro exI [of _ "t # pre"] exI [of _ post]) auto
  qed
qed simp

lemma selection_try_new_Inr_iff:
  "projection_selection_try_new i f types = Inr s \<longleftrightarrow>
     types \<noteq> [] \<and> distinct types \<and> s = \<lparr>sel_id = i, sel_stream_filter = f, sel_event_types = types\<rparr>"
  using first_duplicate_None [of "[]" types]
  by (auto simp: projection_selection_try_new_def split: option.splits)

section \<open>The trait ProjectionSource\<close>

text \<open>The calls run in a world \<open>'w\<close>, in which other tasks act as well.\<close>

record ('w, 'x) projection_source =
  src_id :: delivery_source_id
  src_high_watermark :: "'w \<Rightarrow> ('x + delivery_position option) \<times> 'w"
  src_read_envelopes :: "projection_selection \<Rightarrow> delivery_position option \<Rightarrow> delivery_upper_bound \<Rightarrow> batch_size
     \<Rightarrow> 'w \<Rightarrow> ('x + persisted_event_envelope list) \<times> 'w"

text \<open>
  What the trait promises of an envelope and a page: the positions strictly increase, lie after the cursor and
  within the bound, and there are at most \<open>limit\<close> of them.
\<close>

definition within_bound :: "delivery_position option \<Rightarrow> delivery_upper_bound \<Rightarrow> delivery_position \<Rightarrow> bool" where
  "within_bound after through p \<longleftrightarrow> (case after of None \<Rightarrow> True | Some a \<Rightarrow> a < p)
     \<and> (case through of Inclusive t \<Rightarrow> p \<le> t | Unbounded \<Rightarrow> True)"

definition delivery_page ::
  "persisted_event_envelope list \<Rightarrow> delivery_position option \<Rightarrow> delivery_upper_bound \<Rightarrow> batch_size
     \<Rightarrow> persisted_event_envelope list" where
  "delivery_page delivered after through limit =
     take (unat limit) (filter (\<lambda>e. within_bound after through (pe_position e)) delivered)"

end
