(* ===== verification/Transactional_Store.thy ===== *)
theory Transactional_Store
  imports Delivery Actions Fs_Text
begin

text \<open>
  The destination of transactional projections (\<open>eventcore-postgres/src/projections\<close>: \<open>store.rs\<close>, \<open>config.rs\<close>,
  \<open>error.rs\<close>, \<open>projector.rs\<close>): durable progress, leadership and configuration. PostgreSQL and \<open>sqlx\<close> are the
  dictionary \<open>projection_database\<close>: each call runs in a world \<open>'w\<close>, which holds the session, its open
  transaction and everything other sessions do.
\<close>

section \<open>Errors\<close>

text \<open>
  \<open>BoxedProjectionError\<close>: an error of a library or of the application, or one that the crate makes.
\<close>

datatype 'x boxed_projection_error =
  Boxed 'x | PositionOutOfRange | InvalidData rstring | InvalidIdentity delivery_identity_error

datatype projection_configuration_error =
  ZeroBatchSize | ZeroContinuousPollInterval | InvalidRetryMultiplier | TooManyRetries

text \<open>
  \<open>TransactionalProjectionError\<close>; \<open>Source\<close>, \<open>Decode\<close>, \<open>Application\<close>, \<open>Progress\<close>, \<open>ProgressStore\<close> and
  \<open>Configuration\<close> carry a suffix.
\<close>

datatype 'x transactional_projection_error =
  LeadershipBusy
| LeadershipLost "'x boxed_projection_error"
| SourceFailed "'x boxed_projection_error"
| DecodeFailed delivery_position "'x boxed_projection_error"
| ApplicationFailed delivery_position "'x boxed_projection_error"
| RetryExhausted delivery_position u32 "'x boxed_projection_error"
| ProgressFailed delivery_position "'x boxed_projection_error"
| ProgressStoreFailed "'x boxed_projection_error"
| CommitIndeterminate delivery_position "'x boxed_projection_error"
| SourceIdentityMismatch projector_name delivery_source_id delivery_source_id
| SelectionIdentityMismatch projector_name projection_selection_id projection_selection_id
| ConfigurationInvalid projection_configuration_error
| AfterCommitFailed delivery_position "'x boxed_projection_error"

definition leadership_error :: "'x \<Rightarrow> 'x transactional_projection_error" where
  "leadership_error e = LeadershipLost (Boxed e)"

definition progress_error :: "'x \<Rightarrow> 'x transactional_projection_error" where
  "progress_error e = ProgressStoreFailed (Boxed e)"

section \<open>The database\<close>

text \<open>A row of \<open>eventcore_projection_progress\<close>: source, selection and last position, an \<open>i64\<close>.\<close>

type_synonym i64 = "64 word"
type_synonym progress_row = "rstring \<times> rstring \<times> i64"

text \<open>
  \<open>db_select\<close> reads the row of a projector for update, with its columns; \<open>db_upsert\<close> inserts or replaces it;
  \<open>db_drop\<close> is what dropping the leader's connection does, which closes the session.
\<close>

record ('w, 'x) projection_database =
  db_acquire :: "('w, 'x, unit) action"
  db_try_lock :: "i64 \<Rightarrow> ('w, 'x, bool) action"
  db_unlock :: "i64 \<Rightarrow> ('w, 'x, unit) action"
  db_close :: "('w, 'x, unit) action"
  db_drop :: "'w \<Rightarrow> 'w"
  db_begin :: "('w, 'x, unit) action"
  db_select :: "rstring \<Rightarrow> ('w, 'x, progress_row option) action"
  db_upsert :: "rstring \<Rightarrow> progress_row \<Rightarrow> ('w, 'x, unit) action"
  db_delete :: "rstring \<Rightarrow> ('w, 'x, unit) action"
  db_commit :: "('w, 'x, unit) action"
  db_rollback :: "('w, 'x, unit) action"

section \<open>Leadership\<close>

text \<open>FNV-1a over the bytes of the namespaced projector name.\<close>

definition stable_fnv1a :: "rstring \<Rightarrow> i64" where
  "stable_fnv1a value =
     fold (\<lambda>byte hash. (xor hash (of_nat byte)) * 0x00000100000001B3) (utf8 value) 0xcbf29ce484222325"

definition PROJECTION_LEADER_NAMESPACE :: rstring where
  "PROJECTION_LEADER_NAMESPACE = lit ''eventcore:transactional-projection:''"

definition projection_lock_key :: "projector_name \<Rightarrow> i64" where
  "projection_lock_key n = stable_fnv1a (PROJECTION_LEADER_NAMESPACE @ projector_text n)"

record projection_leader =
  ld_connected :: bool
  ld_lock_key :: i64

text \<open>The connection closes when it is dropped, also where an error leaves the function.\<close>

definition acquire_leader ::
  "('w, 'x) projection_database \<Rightarrow> projector_name \<Rightarrow> ('w, 'x transactional_projection_error, projection_leader) action" where
  "acquire_leader D n =
     andthen (failing leadership_error (db_acquire D)) (\<lambda>_ w.
       (case db_try_lock D (projection_lock_key n) w of
          (Inl e, w') \<Rightarrow> (Inl (leadership_error e), db_drop D w')
        | (Inr acquired, w') \<Rightarrow>
            if \<not> acquired then (Inl LeadershipBusy, snd (db_close D w'))
            else (Inr \<lparr>ld_connected = True, ld_lock_key = projection_lock_key n\<rparr>, w')))"

definition unavailable :: "'x transactional_projection_error" where
  "unavailable = LeadershipLost (InvalidData (lit ''projection leader connection is unavailable''))"

definition leader_begin ::
  "('w, 'x) projection_database \<Rightarrow> projection_leader \<Rightarrow> ('w, 'x transactional_projection_error, unit) action" where
  "leader_begin D leader =
     (if \<not> ld_connected leader then stop unavailable else failing leadership_error (db_begin D))"

definition release_leader ::
  "('w, 'x) projection_database \<Rightarrow> projection_leader \<Rightarrow> ('w, 'x transactional_projection_error, unit) action" where
  "release_leader D leader w =
     (if \<not> ld_connected leader then (Inr (), w)
      else case db_unlock D (ld_lock_key leader) w of
             (Inl e, w') \<Rightarrow> (Inl (leadership_error e), db_drop D w')
           | (Inr _, w') \<Rightarrow> failing leadership_error (db_close D) w')"

section \<open>Progress\<close>

record projection_progress =
  pg_source_id :: delivery_source_id
  pg_selection_id :: projection_selection_id
  pg_position :: delivery_position

definition progress_from_row :: "progress_row \<Rightarrow> 'x transactional_projection_error + projection_progress" where
  "progress_from_row row =
     (let (source_id, selection_id, position) = row in
      rbind (map_err (\<lambda>e. ProgressStoreFailed (InvalidIdentity e)) (source_id_try_new source_id)) (\<lambda>source_id.
      rbind (map_err (\<lambda>e. ProgressStoreFailed (InvalidIdentity e)) (selection_id_try_new selection_id)) (\<lambda>selection_id.
      (case (if sint position < 0 then None else position_new position) of
         None \<Rightarrow> Inl (ProgressStoreFailed (InvalidData (lit ''projection progress position must be positive'')))
       | Some p \<Rightarrow> Inr \<lparr>pg_source_id = source_id, pg_selection_id = selection_id, pg_position = p\<rparr>))))"

definition load_progress ::
  "('w, 'x) projection_database \<Rightarrow> projector_name
     \<Rightarrow> ('w, 'x transactional_projection_error, projection_progress option) action" where
  "load_progress D n =
     andthen (failing progress_error (db_select D (projector_text n))) (\<lambda>row.
       try_result (case row of None \<Rightarrow> Inr None | Some row \<Rightarrow> map_sum id Some (progress_from_row row)))"

text \<open>\<open>i64::try_from\<close> of the position fails above the signed range.\<close>

definition advance_progress ::
  "('w, 'x) projection_database \<Rightarrow> projector_name \<Rightarrow> delivery_source_id \<Rightarrow> projection_selection_id \<Rightarrow> delivery_position
     \<Rightarrow> ('w, 'x transactional_projection_error, unit) action" where
  "advance_progress D n source_id selection_id position =
     (if sint (position_value position) < 0 then stop (ProgressStoreFailed PositionOutOfRange)
      else failing progress_error
        (db_upsert D (projector_text n) (source_text source_id, selection_text selection_id, position_value position)))"

definition delete_progress ::
  "('w, 'x) projection_database \<Rightarrow> projector_name \<Rightarrow> ('w, 'x transactional_projection_error, unit) action" where
  "delete_progress D n = failing progress_error (db_delete D (projector_text n))"

text \<open>\<open>PostgresProjectionStore::progress\<close>, a read outside any transaction; its query is \<open>read\<close>.\<close>

definition store_progress ::
  "(rstring \<Rightarrow> ('w, 'x, progress_row option) action) \<Rightarrow> projector_name
     \<Rightarrow> ('w, 'x transactional_projection_error, projection_progress option) action" where
  "store_progress read n =
     andthen (failing progress_error (read (projector_text n))) (\<lambda>row.
       try_result (case row of None \<Rightarrow> Inr None | Some row \<Rightarrow> map_sum id Some (progress_from_row row)))"

section \<open>Configuration\<close>

text \<open>
  Durations are nanosecond counts. The floating-point multiplier is a parameter: \<open>fl_scaled initial m n maximum\<close>
  is \<open>initial * m ^ (n - 1)\<close> if that is finite and below the maximum.
\<close>

type_synonym nanos = nat

record 'f float_ops =
  fl_is_finite :: "'f \<Rightarrow> bool"
  fl_below_one :: "'f \<Rightarrow> bool"
  fl_two :: 'f
  fl_scaled :: "nanos \<Rightarrow> 'f \<Rightarrow> u32 \<Rightarrow> nanos \<Rightarrow> nanos option"

record 'f projection_retry_policy =
  trp_max_retries :: u32
  trp_initial_delay :: nanos
  trp_multiplier :: 'f
  trp_maximum_delay :: nanos

definition projection_retry_policy_new ::
  "'f float_ops \<Rightarrow> u32 \<Rightarrow> nanos \<Rightarrow> 'f \<Rightarrow> nanos \<Rightarrow> projection_configuration_error + 'f projection_retry_policy" where
  "projection_retry_policy_new F max_retries initial_delay multiplier maximum_delay =
     (if max_retries = - 1 then Inl TooManyRetries
      else if \<not> fl_is_finite F multiplier \<or> fl_below_one F multiplier then Inl InvalidRetryMultiplier
      else Inr \<lparr>trp_max_retries = max_retries, trp_initial_delay = initial_delay, trp_multiplier = multiplier,
        trp_maximum_delay = maximum_delay\<rparr>)"

datatype postgres_projection_mode = BatchMode | ContinuousMode

record 'f postgres_projection_config =
  tc_selection :: projection_selection
  tc_batch_size :: batch_size
  tc_mode :: postgres_projection_mode
  tc_retry_policy :: "'f projection_retry_policy"
  tc_continuous_poll_interval :: nanos

definition postgres_config_new :: "'f float_ops \<Rightarrow> projection_selection \<Rightarrow> 'f postgres_projection_config" where
  "postgres_config_new F selection =
     \<lparr>tc_selection = selection, tc_batch_size = 100, tc_mode = BatchMode,
      tc_retry_policy = \<lparr>trp_max_retries = 0, trp_initial_delay = 100 * 10 ^ 6, trp_multiplier = fl_two F,
        trp_maximum_delay = 30 * 10 ^ 9\<rparr>,
      tc_continuous_poll_interval = 10 ^ 9\<rparr>"

definition config_continuous :: "'f postgres_projection_config \<Rightarrow> 'f postgres_projection_config" where
  "config_continuous C = C\<lparr>tc_mode := ContinuousMode\<rparr>"

definition with_batch_size ::
  "'f postgres_projection_config \<Rightarrow> batch_size \<Rightarrow> projection_configuration_error + 'f postgres_projection_config" where
  "with_batch_size C n = (if n = 0 then Inl ZeroBatchSize else Inr (C\<lparr>tc_batch_size := n\<rparr>))"

definition with_retry_policy ::
  "'f postgres_projection_config \<Rightarrow> 'f projection_retry_policy \<Rightarrow> 'f postgres_projection_config" where
  "with_retry_policy C p = C\<lparr>tc_retry_policy := p\<rparr>"

definition with_continuous_poll_interval ::
  "'f postgres_projection_config \<Rightarrow> nanos \<Rightarrow> projection_configuration_error + 'f postgres_projection_config" where
  "with_continuous_poll_interval C d =
     (if d = 0 then Inl ZeroContinuousPollInterval else Inr (C\<lparr>tc_continuous_poll_interval := d\<rparr>))"

text \<open>The delay before a retry, capped.\<close>

definition transactional_retry_delay :: "'f float_ops \<Rightarrow> 'f postgres_projection_config \<Rightarrow> u32 \<Rightarrow> nanos" where
  "transactional_retry_delay F C retry_number =
     (let policy = tc_retry_policy C; initial = trp_initial_delay policy; maximum = trp_maximum_delay policy in
      if initial = 0 then initial
      else case fl_scaled F initial (trp_multiplier policy) retry_number maximum of
             None \<Rightarrow> maximum | Some d \<Rightarrow> d)"

section \<open>The projector\<close>

datatype projection_failure_decision = DecideRetry | DecideSkip | DecideStop | DecideFatal

record 'x projection_failure_context =
  pf_position :: delivery_position
  pf_error :: 'x
  pf_attempt :: u32

text \<open>
  \<open>'pj\<close> is the projector's own state, \<open>'event\<close> its event type, \<open>'ac\<close> its deferred work. \<open>tp_apply\<close> runs in the
  open transaction of the world.
\<close>

record ('w, 'pj, 'event, 'x, 'ac) postgres_projector =
  tp_name :: projector_name
  tp_decode :: "'pj \<Rightarrow> persisted_event_envelope \<Rightarrow> 'x + 'event"
  tp_apply :: "'event \<Rightarrow> delivery_position \<Rightarrow> 'pj \<Rightarrow> 'w \<Rightarrow> ('x + 'ac) \<times> 'pj \<times> 'w"
  tp_on_error :: "'pj \<Rightarrow> 'x projection_failure_context \<Rightarrow> projection_failure_decision \<times> 'pj"
  tp_after_commit :: "'ac \<Rightarrow> ('w, 'x, unit) action"

text \<open>The defaults of the trait: payload-only JSON decoding, and every failure fatal.\<close>

definition default_decode ::
  "(rstring \<Rightarrow> 'x + 'event) \<Rightarrow> 'pj \<Rightarrow> persisted_event_envelope \<Rightarrow> 'x + 'event" where
  "default_decode from_json pj e = from_json (pe_payload e)"

definition default_on_failure :: "'pj \<Rightarrow> 'x projection_failure_context \<Rightarrow> projection_failure_decision \<times> 'pj" where
  "default_on_failure pj failure = (DecideFatal, pj)"

end
