(* ===== verification/Transactional_Runner.thy ===== *)
theory Transactional_Runner
  imports Transactional_Store
begin

text \<open>
  The runner of transactional projections (\<open>eventcore-postgres/src/projections/runner.rs\<close> and \<open>reset.rs\<close>):
  each event's effect and the progress behind it are committed in one transaction of the leader's session.
\<close>

section \<open>State\<close>

text \<open>\<open>LeftPending\<close> is \<open>EnvelopeResult::Stopped\<close>.\<close>

datatype envelope_result = Processed | Skipped | Suppressed | LeftPending

datatype drain_cycle_outcome = DrainCaughtUp "delivery_position option" | DrainStopped delivery_position

datatype projection_run_outcome =
  CaughtUp u64 u64 "delivery_position option"
| Stopped delivery_position u64 u64
| Cancelled u64 u64

text \<open>The runner's variables: the projector, the cursor and the counters, and the world its calls act on.\<close>

record ('pj, 'w) run_state =
  rs_projector :: 'pj
  rs_world :: 'w
  rs_after :: "delivery_position option"
  rs_processed :: u64
  rs_skipped :: u64

type_synonym ('pj, 'w, 'x, 'a) run_action = "(('pj, 'w) run_state, 'x transactional_projection_error, 'a) action"

definition on_world :: "('w, 'e, 'a) action \<Rightarrow> (('pj, 'w) run_state, 'e, 'a) action" where
  "on_world m s = (let (r, w) = m (rs_world s) in (r, s\<lparr>rs_world := w\<rparr>))"

text \<open>The sleepers: a retry delay passes, and an idle interval passes or is cancelled.\<close>

record 'w projection_timers =
  tm_retry_sleep :: "nanos \<Rightarrow> 'w \<Rightarrow> 'w"
  tm_idle :: "nanos \<Rightarrow> 'w \<Rightarrow> bool \<times> 'w"

text \<open>What a run is given: the database, the projector, the source, the timers, the arithmetic, the configuration.\<close>

record ('w, 'pj, 'event, 'x, 'ac, 'f) projection_job =
  jb_database :: "('w, 'x) projection_database"
  jb_projector :: "('w, 'pj, 'event, 'x, 'ac) postgres_projector"
  jb_source :: "('w, 'x) projection_source"
  jb_timers :: "'w projection_timers"
  jb_floats :: "'f float_ops"
  jb_config :: "'f postgres_projection_config"

section \<open>Errors\<close>

definition progress_at_position :: "delivery_position \<Rightarrow> 'x transactional_projection_error \<Rightarrow> 'x transactional_projection_error" where
  "progress_at_position position e =
     (case e of ProgressStoreFailed source \<Rightarrow> ProgressFailed position source | _ \<Rightarrow> e)"

definition source_error :: "'x \<Rightarrow> 'x transactional_projection_error" where
  "source_error e = SourceFailed (Boxed e)"

text \<open>\<open>Err(rollback_preserving_error(transaction, error).await)\<close>.\<close>

definition rollback_preserving_error ::
  "('w, 'x) projection_database \<Rightarrow> 'x transactional_projection_error \<Rightarrow> ('w, 'x transactional_projection_error, 'a) action" where
  "rollback_preserving_error D e w =
     (case db_rollback D w of (Inr _, w') \<Rightarrow> (Inl e, w') | (Inl x, w') \<Rightarrow> (Inl (leadership_error x), w'))"

text \<open>An action whose error rolls the transaction back.\<close>

definition or_rollback ::
  "('w, 'x) projection_database \<Rightarrow> ('w, 'x transactional_projection_error, 'a) action
     \<Rightarrow> ('w, 'x transactional_projection_error, 'a) action" where
  "or_rollback D m w = (case m w of (Inr a, w') \<Rightarrow> (Inr a, w') | (Inl e, w') \<Rightarrow> rollback_preserving_error D e w')"

definition rollback ::
  "('w, 'x) projection_database \<Rightarrow> ('w, 'x transactional_projection_error, unit) action" where
  "rollback D = failing leadership_error (db_rollback D)"

section \<open>Progress checks\<close>

definition validate_progress ::
  "projector_name \<Rightarrow> delivery_source_id \<Rightarrow> projection_selection_id \<Rightarrow> projection_progress
     \<Rightarrow> 'x transactional_projection_error + unit" where
  "validate_progress n source_id selection_id progress =
     (if pg_source_id progress \<noteq> source_id then Inl (SourceIdentityMismatch n (pg_source_id progress) source_id)
      else if pg_selection_id progress \<noteq> selection_id
      then Inl (SelectionIdentityMismatch n (pg_selection_id progress) selection_id)
      else Inr ())"

definition load_validated_progress ::
  "('w, 'x) projection_database \<Rightarrow> projection_leader \<Rightarrow> projector_name \<Rightarrow> delivery_source_id \<Rightarrow> projection_selection_id
     \<Rightarrow> ('w, 'x transactional_projection_error, delivery_position option) action" where
  "load_validated_progress D leader n source_id selection_id =
     andthen (leader_begin D leader) (\<lambda>_.
     andthen (or_rollback D (load_progress D n)) (\<lambda>progress.
     andthen (or_rollback D (try_result
       (case progress of None \<Rightarrow> Inr () | Some pr \<Rightarrow> validate_progress n source_id selection_id pr))) (\<lambda>_.
     andthen (rollback D) (\<lambda>_.
     pass (map_option pg_position progress)))))"

definition position_is_pending ::
  "('w, 'x) projection_database \<Rightarrow> projector_name \<Rightarrow> delivery_source_id \<Rightarrow> projection_selection_id \<Rightarrow> delivery_position
     \<Rightarrow> ('w, 'x transactional_projection_error, bool) action" where
  "position_is_pending D n source_id selection_id position =
     andthen (failing (progress_at_position position) (load_progress D n)) (\<lambda>progress.
     (case progress of
        None \<Rightarrow> pass True
      | Some pr \<Rightarrow>
          andthen (try_result (validate_progress n source_id selection_id pr)) (\<lambda>_.
          pass (pg_position pr < position))))"

text \<open>A transaction for the position: open if it is pending, rolled back if it was committed before.\<close>

definition begin_pending ::
  "('w, 'pj, 'event, 'x, 'ac, 'f) projection_job \<Rightarrow> projection_leader \<Rightarrow> delivery_position
     \<Rightarrow> ('w, 'x transactional_projection_error, bool) action" where
  "begin_pending J leader position =
     (let D = jb_database J in
      andthen (failing (progress_at_position position) (leader_begin D leader)) (\<lambda>_.
      andthen (or_rollback D (position_is_pending D (tp_name (jb_projector J)) (src_id (jb_source J))
        (sel_id (tc_selection (jb_config J))) position)) (\<lambda>pending.
      if pending then pass True else andthen (rollback D) (\<lambda>_. pass False))))"

text \<open>Advance the progress to the position and commit.\<close>

definition commit_position ::
  "('w, 'pj, 'event, 'x, 'ac, 'f) projection_job \<Rightarrow> delivery_position
     \<Rightarrow> ('w, 'x transactional_projection_error, unit) action" where
  "commit_position J position =
     (let D = jb_database J in
      andthen (or_rollback D (failing (progress_at_position position)
        (advance_progress D (tp_name (jb_projector J)) (src_id (jb_source J)) (sel_id (tc_selection (jb_config J))) position)))
        (\<lambda>_. failing (\<lambda>x. CommitIndeterminate position (Boxed x)) (db_commit D)))"

section \<open>One envelope\<close>

definition skip_position ::
  "('w, 'pj, 'event, 'x, 'ac, 'f) projection_job \<Rightarrow> projection_leader \<Rightarrow> delivery_position
     \<Rightarrow> ('w, 'x transactional_projection_error, envelope_result) action" where
  "skip_position J leader position =
     andthen (begin_pending J leader position) (\<lambda>pending.
     if \<not> pending then pass Suppressed
     else andthen (commit_position J position) (\<lambda>_. pass Skipped))"

definition apply_event ::
  "('w, 'pj, 'event, 'x, 'ac) postgres_projector \<Rightarrow> 'event \<Rightarrow> delivery_position
     \<Rightarrow> (('pj, 'w) run_state, 'x, 'ac) action" where
  "apply_event P event position s =
     (let (r, pj, w) = tp_apply P event position (rs_projector s) (rs_world s)
      in (r, s\<lparr>rs_projector := pj, rs_world := w\<rparr>))"

definition ask_projector ::
  "('w, 'pj, 'event, 'x, 'ac) postgres_projector \<Rightarrow> 'x projection_failure_context
     \<Rightarrow> ('pj, 'w, 'x, projection_failure_decision) run_action" where
  "ask_projector P failure s =
     (let (decision, pj) = tp_on_error P (rs_projector s) failure in (Inr decision, s\<lparr>rs_projector := pj\<rparr>))"

definition retry_sleep ::
  "('w, 'pj, 'event, 'x, 'ac, 'f) projection_job \<Rightarrow> u32 \<Rightarrow> ('pj, 'w, 'x, unit) run_action" where
  "retry_sleep J attempt s =
     (Inr (), s\<lparr>rs_world := tm_retry_sleep (jb_timers J) (transactional_retry_delay (jb_floats J) (jb_config J) attempt) (rs_world s)\<rparr>)"

lemma attempt_left:
  fixes attempt :: u32
  assumes "attempt \<noteq> - 1"
  shows "4294967296 - unat (attempt + 1) < 4294967296 - unat attempt"
proof -
  have "attempt < - 1" using assms word_order.extremum_strict [of attempt] by (simp add: word_order.not_eq_extremum)
  from word_less_Suc_unat [OF this] show ?thesis
    using unsigned_less [of "attempt + 1", where ?'a = nat] by simp
qed

text \<open>The loop over the attempts of one event; \<open>attempt.checked_add(1)\<close> fails at the largest \<open>u32\<close>.\<close>

function apply_attempts ::
  "('w, 'pj, 'event, 'x, 'ac, 'f) projection_job \<Rightarrow> projection_leader \<Rightarrow> 'event \<Rightarrow> delivery_position \<Rightarrow> u32
     \<Rightarrow> ('pj, 'w, 'x, envelope_result) run_action" where
  "apply_attempts J leader event position attempt s =
     (case apply_event (jb_projector J) event position s of
        (Inr after_commit, s) \<Rightarrow>
          andthen (on_world (commit_position J position)) (\<lambda>_.
          andthen (failing (\<lambda>x. AfterCommitFailed position (Boxed x))
            (on_world (tp_after_commit (jb_projector J) after_commit))) (\<lambda>_.
          pass Processed)) s
      | (Inl error, s) \<Rightarrow>
          andthen (ask_projector (jb_projector J) \<lparr>pf_position = position, pf_error = error, pf_attempt = attempt\<rparr>) (\<lambda>decision.
          andthen (on_world (rollback (jb_database J))) (\<lambda>_.
          (case decision of
             DecideRetry \<Rightarrow>
               if trp_max_retries (tc_retry_policy (jb_config J)) < attempt
               then stop (RetryExhausted position attempt (Boxed error))
               else andthen (retry_sleep J attempt) (\<lambda>_.
                 if attempt = - 1 then stop (ConfigurationInvalid TooManyRetries)
                 else andthen (on_world (begin_pending J leader position)) (\<lambda>pending.
                   if \<not> pending then pass Suppressed else apply_attempts J leader event position (attempt + 1)))
           | DecideSkip \<Rightarrow> on_world (skip_position J leader position)
           | DecideStop \<Rightarrow> pass LeftPending
           | DecideFatal \<Rightarrow> stop (ApplicationFailed position (Boxed error))))) s)"
  by pat_completeness auto

termination
  by (relation "measure (\<lambda>(J, leader, event, position, attempt, s). 4294967296 - unat attempt)")
     (simp_all add: attempt_left)

definition process_envelope ::
  "('w, 'pj, 'event, 'x, 'ac, 'f) projection_job \<Rightarrow> projection_leader \<Rightarrow> persisted_event_envelope
     \<Rightarrow> ('pj, 'w, 'x, envelope_result) run_action" where
  "process_envelope J leader envelope =
     (let position = pe_position envelope in
      andthen (on_world (begin_pending J leader position)) (\<lambda>pending.
      if \<not> pending then pass Suppressed
      else (\<lambda>s. (case tp_decode (jb_projector J) (rs_projector s) envelope of
          Inl x \<Rightarrow> on_world (rollback_preserving_error (jb_database J) (DecodeFailed position (Boxed x))) s
        | Inr event \<Rightarrow> apply_attempts J leader event position 1 s))))"

section \<open>A cycle and a run\<close>

definition count_result :: "envelope_result \<Rightarrow> ('pj, 'w) run_state \<Rightarrow> ('pj, 'w) run_state" where
  "count_result r s =
     (case r of Processed \<Rightarrow> s\<lparr>rs_processed := rs_processed s + 1\<rparr> | Skipped \<Rightarrow> s\<lparr>rs_skipped := rs_skipped s + 1\<rparr>
      | _ \<Rightarrow> s)"

text \<open>The loop over a page: the position it stopped at, or none.\<close>

fun drain_page ::
  "('w, 'pj, 'event, 'x, 'ac, 'f) projection_job \<Rightarrow> projection_leader \<Rightarrow> persisted_event_envelope list
     \<Rightarrow> ('pj, 'w, 'x, delivery_position option) run_action" where
  "drain_page J leader [] s = (Inr None, s)"
| "drain_page J leader (envelope # envelopes) s =
     (let s = s\<lparr>rs_after := Some (pe_position envelope)\<rparr> in
      case process_envelope J leader envelope s of
        (Inl e, s) \<Rightarrow> (Inl e, s)
      | (Inr LeftPending, s) \<Rightarrow> (Inr (Some (pe_position envelope)), s)
      | (Inr r, s) \<Rightarrow> drain_page J leader envelopes (count_result r s))"

definition read_page ::
  "('w, 'pj, 'event, 'x, 'ac, 'f) projection_job \<Rightarrow> delivery_position
     \<Rightarrow> ('pj, 'w, 'x, persisted_event_envelope list) run_action" where
  "read_page J through s =
     failing source_error (on_world (src_read_envelopes (jb_source J) (tc_selection (jb_config J)) (rs_after s)
       (Inclusive through) (tc_batch_size (jb_config J)))) s"

text \<open>The loops over pages and cycles take fuel; \<open>None\<close> says it ran out.\<close>

fun drain_pages ::
  "nat \<Rightarrow> ('w, 'pj, 'event, 'x, 'ac, 'f) projection_job \<Rightarrow> projection_leader \<Rightarrow> delivery_position \<Rightarrow> ('pj, 'w) run_state
     \<Rightarrow> (('x transactional_projection_error + drain_cycle_outcome) \<times> ('pj, 'w) run_state) option" where
  "drain_pages 0 J leader through s = None"
| "drain_pages (Suc fuel) J leader through s =
     (case read_page J through s of
        (Inl e, s) \<Rightarrow> Some (Inl e, s)
      | (Inr envelopes, s) \<Rightarrow>
          if envelopes = [] then Some (Inr (DrainCaughtUp (Some through)), s)
          else case drain_page J leader envelopes s of
                 (Inl e, s) \<Rightarrow> Some (Inl e, s)
               | (Inr (Some position), s) \<Rightarrow> Some (Inr (DrainStopped position), s)
               | (Inr None, s) \<Rightarrow> drain_pages fuel J leader through s)"

definition drain_cycle ::
  "nat \<Rightarrow> ('w, 'pj, 'event, 'x, 'ac, 'f) projection_job \<Rightarrow> projection_leader \<Rightarrow> ('pj, 'w) run_state
     \<Rightarrow> (('x transactional_projection_error + drain_cycle_outcome) \<times> ('pj, 'w) run_state) option" where
  "drain_cycle fuel J leader s =
     (case failing source_error (on_world (src_high_watermark (jb_source J))) s of
        (Inl e, s) \<Rightarrow> Some (Inl e, s)
      | (Inr None, s) \<Rightarrow> Some (Inr (DrainCaughtUp None), s)
      | (Inr (Some through), s) \<Rightarrow> drain_pages fuel J leader through s)"

text \<open>An error that leaves the function drops the leader; the ways out release it.\<close>

definition dropping_leader :: "('w, 'x) projection_database \<Rightarrow> ('pj, 'w) run_state \<Rightarrow> ('pj, 'w) run_state" where
  "dropping_leader D s = s\<lparr>rs_world := db_drop D (rs_world s)\<rparr>"

definition leave ::
  "('w, 'x) projection_database \<Rightarrow> projection_leader \<Rightarrow> projection_run_outcome \<Rightarrow> ('pj, 'w, 'x, projection_run_outcome) run_action" where
  "leave D leader outcome = andthen (on_world (release_leader D leader)) (\<lambda>_. pass outcome)"

fun run_cycles ::
  "nat \<Rightarrow> nat \<Rightarrow> ('w, 'pj, 'event, 'x, 'ac, 'f) projection_job \<Rightarrow> projection_leader \<Rightarrow> ('pj, 'w) run_state
     \<Rightarrow> (('x transactional_projection_error + projection_run_outcome) \<times> ('pj, 'w) run_state) option" where
  "run_cycles 0 fuel J leader s = None"
| "run_cycles (Suc cycles) fuel J leader s =
     (let D = jb_database J in
      case drain_cycle fuel J leader s of
        None \<Rightarrow> None
      | Some (Inl e, s) \<Rightarrow> Some (Inl e, dropping_leader D s)
      | Some (Inr (DrainStopped position), s) \<Rightarrow> Some (leave D leader (Stopped position (rs_processed s) (rs_skipped s)) s)
      | Some (Inr (DrainCaughtUp through), s) \<Rightarrow>
          (case tc_mode (jb_config J) of
             BatchMode \<Rightarrow> Some (leave D leader (CaughtUp (rs_processed s) (rs_skipped s) through) s)
           | ContinuousMode \<Rightarrow>
               (let (cancelled, w) = tm_idle (jb_timers J) (tc_continuous_poll_interval (jb_config J)) (rs_world s);
                    s = s\<lparr>rs_world := w\<rparr> in
                if cancelled then Some (leave D leader (Cancelled (rs_processed s) (rs_skipped s)) s)
                else run_cycles cycles fuel J leader s)))"

definition run_with_leader ::
  "nat \<Rightarrow> nat \<Rightarrow> ('w, 'pj, 'event, 'x, 'ac, 'f) projection_job \<Rightarrow> projection_leader \<Rightarrow> 'pj \<Rightarrow> 'w
     \<Rightarrow> (('x transactional_projection_error + projection_run_outcome) \<times> ('pj, 'w) run_state) option" where
  "run_with_leader cycles fuel J leader pj w =
     (let D = jb_database J;
          fresh = (\<lambda>after w. \<lparr>rs_projector = pj, rs_world = w, rs_after = after, rs_processed = 0, rs_skipped = 0\<rparr>) in
      case load_validated_progress D leader (tp_name (jb_projector J)) (src_id (jb_source J))
          (sel_id (tc_selection (jb_config J))) w of
        (Inl e, w) \<Rightarrow> Some (Inl e, dropping_leader D (fresh None w))
      | (Inr after, w) \<Rightarrow> run_cycles cycles fuel J leader (fresh after w))"

definition run_transactional_projection ::
  "nat \<Rightarrow> nat \<Rightarrow> ('w, 'pj, 'event, 'x, 'ac, 'f) projection_job \<Rightarrow> 'pj \<Rightarrow> 'w
     \<Rightarrow> (('x transactional_projection_error + projection_run_outcome) \<times> 'w) option" where
  "run_transactional_projection cycles fuel J pj w =
     (case acquire_leader (jb_database J) (tp_name (jb_projector J)) w of
        (Inl e, w) \<Rightarrow> Some (Inl e, w)
      | (Inr leader, w) \<Rightarrow> map_option (\<lambda>(r, s). (r, rs_world s)) (run_with_leader cycles fuel J leader pj w))"

section \<open>Reset\<close>

datatype 'x projection_reset_error =
  ResetBusy
| ResetLeadershipLost "'x boxed_projection_error"
| ResetSourceIdentityMismatch projector_name delivery_source_id delivery_source_id
| ResetSelectionIdentityMismatch projector_name projection_selection_id projection_selection_id
| ResetCallback "'x boxed_projection_error"
| ResetProgress "'x boxed_projection_error"
| ResetCommitIndeterminate "'x boxed_projection_error"

datatype 'x reset_and_replay_error =
  ResetPhase "'x projection_reset_error" | ReplayPhase "'x transactional_projection_error"

text \<open>
  Errors that neither the acquisition nor the progress calls return are boxed whole; their text is the
  parameter \<open>box\<close>.
\<close>

definition map_progress_error ::
  "('x transactional_projection_error \<Rightarrow> 'x) \<Rightarrow> 'x transactional_projection_error \<Rightarrow> 'x projection_reset_error" where
  "map_progress_error box e =
     (case e of
        ProgressStoreFailed source \<Rightarrow> ResetProgress source
      | ProgressFailed _ source \<Rightarrow> ResetProgress source
      | LeadershipLost source \<Rightarrow> ResetLeadershipLost source
      | _ \<Rightarrow> ResetProgress (Boxed (box e)))"

definition map_leadership_error ::
  "('x transactional_projection_error \<Rightarrow> 'x) \<Rightarrow> 'x transactional_projection_error \<Rightarrow> 'x projection_reset_error" where
  "map_leadership_error box e =
     (case e of
        LeadershipBusy \<Rightarrow> ResetBusy
      | LeadershipLost source \<Rightarrow> ResetLeadershipLost source
      | _ \<Rightarrow> ResetLeadershipLost (Boxed (box e)))"

definition reset_rollback ::
  "('w, 'x) projection_database \<Rightarrow> ('w, 'x projection_reset_error, 'a) action \<Rightarrow> ('w, 'x projection_reset_error, 'a) action" where
  "reset_rollback D m w =
     (case m w of
        (Inr a, w') \<Rightarrow> (Inr a, w')
      | (Inl e, w') \<Rightarrow>
          (case db_rollback D w' of
             (Inr _, w'') \<Rightarrow> (Inl e, w'') | (Inl x, w'') \<Rightarrow> (Inl (ResetLeadershipLost (Boxed x)), w'')))"

text \<open>\<open>reset\<close> is the application's callback, run in the open transaction.\<close>

definition reset_with_leader ::
  "('x transactional_projection_error \<Rightarrow> 'x) \<Rightarrow> ('w, 'x) projection_database \<Rightarrow> ('w, 'x, unit) action \<Rightarrow> projector_name
     \<Rightarrow> delivery_source_id \<Rightarrow> projection_selection_id \<Rightarrow> projection_leader \<Rightarrow> ('w, 'x projection_reset_error, unit) action" where
  "reset_with_leader box D reset n source_id selection_id leader =
     andthen (failing (map_leadership_error box) (leader_begin D leader)) (\<lambda>_.
     andthen (reset_rollback D (failing (map_progress_error box) (load_progress D n))) (\<lambda>progress.
     andthen (reset_rollback D (try_result (case progress of
         None \<Rightarrow> Inr ()
       | Some pr \<Rightarrow>
           if pg_source_id pr \<noteq> source_id then Inl (ResetSourceIdentityMismatch n (pg_source_id pr) source_id)
           else if pg_selection_id pr \<noteq> selection_id
           then Inl (ResetSelectionIdentityMismatch n (pg_selection_id pr) selection_id)
           else Inr ()))) (\<lambda>_.
     andthen (reset_rollback D (failing (\<lambda>x. ResetCallback (Boxed x)) reset)) (\<lambda>_.
     andthen (reset_rollback D (failing (map_progress_error box) (delete_progress D n))) (\<lambda>_.
     failing (\<lambda>x. ResetCommitIndeterminate (Boxed x)) (db_commit D))))))"

definition reset_transactional_projection ::
  "('x transactional_projection_error \<Rightarrow> 'x) \<Rightarrow> ('w, 'x) projection_database \<Rightarrow> ('w, 'x, unit) action \<Rightarrow> projector_name
     \<Rightarrow> delivery_source_id \<Rightarrow> projection_selection_id \<Rightarrow> ('w, 'x projection_reset_error, unit) action" where
  "reset_transactional_projection box D reset n source_id selection_id =
     andthen (failing (map_leadership_error box) (acquire_leader D n)) (\<lambda>leader w.
       (case reset_with_leader box D reset n source_id selection_id leader w of
          (Inl e, w') \<Rightarrow> (Inl e, db_drop D w')
        | (Inr _, w') \<Rightarrow> failing (map_leadership_error box) (release_leader D leader) w'))"

definition reset_and_replay ::
  "nat \<Rightarrow> nat \<Rightarrow> ('x transactional_projection_error \<Rightarrow> 'x) \<Rightarrow> ('w, 'pj, 'event, 'x, 'ac, 'f) projection_job
     \<Rightarrow> ('w, 'x, unit) action \<Rightarrow> 'pj \<Rightarrow> 'w \<Rightarrow> (('x reset_and_replay_error + projection_run_outcome) \<times> 'w) option" where
  "reset_and_replay cycles fuel box J reset pj w =
     (let D = jb_database J; n = tp_name (jb_projector J) in
      case failing (\<lambda>e. ResetPhase (map_leadership_error box e)) (acquire_leader D n) w of
        (Inl e, w) \<Rightarrow> Some (Inl e, w)
      | (Inr leader, w) \<Rightarrow>
          (case reset_with_leader box D reset n (src_id (jb_source J)) (sel_id (tc_selection (jb_config J))) leader w of
             (Inl e, w) \<Rightarrow> Some (Inl (ResetPhase e), db_drop D w)
           | (Inr _, w) \<Rightarrow>
               map_option (\<lambda>(r, s). (map_err ReplayPhase r, rs_world s)) (run_with_leader cycles fuel J leader pj w)))"

end
