(* ===== verification/Transactional_Laws.thy ===== *)
theory Transactional_Laws
  imports Transactional_Runner "HOL-Library.Sublist"
begin

text \<open>
  What the runner relies on, as predicates on the dictionaries: transactions of the destination, the order of
  the source, and a projector that works through the open transaction. Then the relation between a world and
  the decisions that its committed read model stands for.
\<close>

section \<open>What a world holds\<close>

text \<open>
  The committed read model and progress row, those of the open transaction, the selected events delivered so
  far in delivery order, and the greatest delivered position; beside them, the model before any event and what
  an event is meant to do to it.
\<close>

record ('w, 'm) world_view =
  vw_model :: "'w \<Rightarrow> 'm"
  vw_row :: "'w \<Rightarrow> progress_row option"
  vw_tx_model :: "'w \<Rightarrow> 'm"
  vw_tx_row :: "'w \<Rightarrow> progress_row option"
  vw_events :: "'w \<Rightarrow> persisted_event_envelope list"
  vw_frontier :: "'w \<Rightarrow> delivery_position option"
  vw_start :: 'm
  vw_effect :: "persisted_event_envelope \<Rightarrow> 'm \<Rightarrow> 'm"

text \<open>Positions fit the database's \<open>i64\<close> and strictly increase.\<close>

definition position_ok :: "delivery_position \<Rightarrow> bool" where
  "position_ok p \<longleftrightarrow> 0 < sint (position_value p)"

definition delivery_order :: "persisted_event_envelope list \<Rightarrow> bool" where
  "delivery_order es \<longleftrightarrow> sorted_wrt (<) (map pe_position es) \<and> (\<forall>e \<in> set es. position_ok (pe_position e))"

text \<open>Other tasks deliver later events, after everything below the frontier.\<close>

definition delivers :: "('w, 'm) world_view \<Rightarrow> 'w \<Rightarrow> 'w \<Rightarrow> bool" where
  "delivers V w w' \<longleftrightarrow> (\<exists>new. vw_events V w' = vw_events V w @ new
       \<and> (\<forall>e \<in> set new. \<forall>h. vw_frontier V w = Some h \<longrightarrow> h < pe_position e))
     \<and> (\<forall>h. vw_frontier V w = Some h \<longrightarrow> (\<exists>h'. vw_frontier V w' = Some h' \<and> h \<le> h'))"

definition quiet :: "('w, 'm) world_view \<Rightarrow> 'w \<Rightarrow> 'w \<Rightarrow> bool" where
  "quiet V w w' \<longleftrightarrow> vw_model V w' = vw_model V w \<and> vw_row V w' = vw_row V w \<and> delivers V w w'"

definition same_tx :: "('w, 'm) world_view \<Rightarrow> 'w \<Rightarrow> 'w \<Rightarrow> bool" where
  "same_tx V w w' \<longleftrightarrow> vw_tx_model V w' = vw_tx_model V w \<and> vw_tx_row V w' = vw_tx_row V w"

lemma delivers_refl [simp]: "delivers V w w"
  by (auto simp: delivers_def)

lemma delivers_trans: "delivers V a b \<Longrightarrow> delivers V b c \<Longrightarrow> delivers V a c"
  unfolding delivers_def by (elim conjE exE) (fastforce intro: order.trans)

lemma quiet_refl [simp]: "quiet V w w"
  by (simp add: quiet_def)

lemma quiet_trans: "quiet V a b \<Longrightarrow> quiet V b c \<Longrightarrow> quiet V a c"
  by (auto simp: quiet_def intro: delivers_trans)

section \<open>The laws\<close>

definition leaves_quiet :: "('w, 'm) world_view \<Rightarrow> ('w, 'e, 'a) action \<Rightarrow> bool" where
  "leaves_quiet V m \<longleftrightarrow> (\<forall>w. quiet V w (snd (m w)))"

text \<open>
  PostgreSQL: a transaction starts from what is committed, sees its own writes, and takes effect as a whole at
  its commit; an unacknowledged commit happened or did not. The other calls commit nothing.
\<close>

definition database_laws :: "('w, 'm) world_view \<Rightarrow> projector_name \<Rightarrow> ('w, 'x) projection_database \<Rightarrow> bool" where
  "database_laws V n D \<longleftrightarrow>
     leaves_quiet V (db_acquire D) \<and> (\<forall>k. leaves_quiet V (db_try_lock D k) \<and> leaves_quiet V (db_unlock D k))
   \<and> leaves_quiet V (db_close D) \<and> (\<forall>w. quiet V w (db_drop D w))
   \<and> leaves_quiet V (db_begin D) \<and> leaves_quiet V (db_rollback D)
   \<and> leaves_quiet V (db_select D (projector_text n)) \<and> (\<forall>row. leaves_quiet V (db_upsert D (projector_text n) row))
   \<and> (\<forall>w u w'. db_begin D w = (Inr u, w') \<longrightarrow> vw_tx_model V w' = vw_model V w' \<and> vw_tx_row V w' = vw_row V w')
   \<and> (\<forall>w r w'. db_select D (projector_text n) w = (Inr r, w') \<longrightarrow> r = vw_tx_row V w \<and> same_tx V w w')
   \<and> (\<forall>w row u w'. db_upsert D (projector_text n) row w = (Inr u, w')
        \<longrightarrow> vw_tx_model V w' = vw_tx_model V w \<and> vw_tx_row V w' = Some row)
   \<and> (\<forall>w u w'. db_commit D w = (Inr u, w')
        \<longrightarrow> vw_model V w' = vw_tx_model V w \<and> vw_row V w' = vw_tx_row V w \<and> delivers V w w')
   \<and> (\<forall>w x w'. db_commit D w = (Inl x, w') \<longrightarrow> delivers V w w'
        \<and> (vw_model V w' = vw_tx_model V w \<and> vw_row V w' = vw_tx_row V w
           \<or> vw_model V w' = vw_model V w \<and> vw_row V w' = vw_row V w))"

text \<open>
  The projector: applying what it decoded from an envelope changes the open transaction's model by the
  envelope's effect, and nothing it does commits.
\<close>

definition projector_laws :: "('w, 'm) world_view \<Rightarrow> ('w, 'pj, 'event, 'x, 'ac) postgres_projector \<Rightarrow> bool" where
  "projector_laws V P \<longleftrightarrow>
     (\<forall>event p pj w. quiet V w (snd (snd (tp_apply P event p pj w))))
   \<and> (\<forall>pj envelope event. tp_decode P pj envelope = Inr event \<longrightarrow>
        (\<forall>pj1 w ac pj2 w'. tp_apply P event (pe_position envelope) pj1 w = (Inr ac, pj2, w') \<longrightarrow>
           vw_tx_model V w' = vw_effect V envelope (vw_tx_model V w) \<and> vw_tx_row V w' = vw_tx_row V w))
   \<and> (\<forall>ac. leaves_quiet V (tp_after_commit P ac))"

text \<open>The source: lossless pages in delivery order, and its high-water mark is the frontier.\<close>

definition source_laws ::
  "('w, 'm) world_view \<Rightarrow> projection_selection \<Rightarrow> ('w, 'x) projection_source \<Rightarrow> bool" where
  "source_laws V selection S \<longleftrightarrow>
     (\<forall>w. delivery_order (vw_events V w))
   \<and> leaves_quiet V (src_high_watermark S)
   \<and> (\<forall>w h w'. src_high_watermark S w = (Inr h, w') \<longrightarrow> h = vw_frontier V w')
   \<and> (\<forall>w. \<forall>e \<in> set (vw_events V w). \<exists>h. vw_frontier V w = Some h \<and> pe_position e \<le> h)
   \<and> (\<forall>after through limit. leaves_quiet V (src_read_envelopes S selection after through limit))
   \<and> (\<forall>after through limit w es w'. src_read_envelopes S selection after through limit w = (Inr es, w')
        \<longrightarrow> es = delivery_page (vw_events V w') after through limit)"

definition timer_laws :: "('w, 'm) world_view \<Rightarrow> 'w projection_timers \<Rightarrow> bool" where
  "timer_laws V T \<longleftrightarrow> (\<forall>d w. quiet V w (tm_retry_sleep T d w)) \<and> (\<forall>d w. quiet V w (snd (tm_idle T d w)))"

definition job_laws :: "('w, 'm) world_view \<Rightarrow> ('w, 'pj, 'event, 'x, 'ac, 'f) projection_job \<Rightarrow> bool" where
  "job_laws V J \<longleftrightarrow>
     database_laws V (tp_name (jb_projector J)) (jb_database J) \<and> projector_laws V (jb_projector J)
   \<and> source_laws V (tc_selection (jb_config J)) (jb_source J) \<and> timer_laws V (jb_timers J)
   \<and> source_id_try_new (source_text (src_id (jb_source J))) = Inr (src_id (jb_source J))
   \<and> selection_id_try_new (selection_text (sel_id (tc_selection (jb_config J)))) = Inr (sel_id (tc_selection (jb_config J)))"

section \<open>Exactly once\<close>

text \<open>The read model after the decisions \<open>ds\<close> on the first events: applied where \<open>True\<close>, skipped otherwise.\<close>

definition decided :: "('w, 'm) world_view \<Rightarrow> persisted_event_envelope list \<Rightarrow> bool list \<Rightarrow> 'm" where
  "decided V events ds = fold (\<lambda>(e, d) m. if d then vw_effect V e m else m) (zip events ds) (vw_start V)"

definition progress_row_at :: "('w, 'pj, 'event, 'x, 'ac, 'f) projection_job \<Rightarrow> persisted_event_envelope list \<Rightarrow> progress_row option" where
  "progress_row_at J es =
     (if es = [] then None
      else Some (source_text (src_id (jb_source J)), selection_text (sel_id (tc_selection (jb_config J))),
                 position_value (pe_position (last es))))"

text \<open>
  The world holds the decisions: its model is theirs, its progress is the last decided event, and they decide
  a prefix of the delivered events.
\<close>

definition handled ::
  "('w, 'm) world_view \<Rightarrow> ('w, 'pj, 'event, 'x, 'ac, 'f) projection_job \<Rightarrow> bool list \<Rightarrow> 'w \<Rightarrow> bool" where
  "handled V J ds w \<longleftrightarrow> length ds \<le> length (vw_events V w)
     \<and> vw_model V w = decided V (vw_events V w) ds
     \<and> vw_row V w = progress_row_at J (take (length ds) (vw_events V w))"

lemma decided_append: "length ds \<le> length es \<Longrightarrow> decided V (es @ es') ds = decided V es ds"
  by (simp add: decided_def zip_append1)

lemma decided_snoc:
  assumes "length ds < length es"
  shows "decided V es (ds @ [d]) = (if d then vw_effect V (es ! length ds) (decided V es ds) else decided V es ds)"
proof -
  let ?n = "length ds"
  have es: "es = take ?n es @ es ! ?n # drop (Suc ?n) es"
    by (rule id_take_nth_drop [OF assms])
  have "zip (take ?n es @ es ! ?n # drop (Suc ?n) es) (ds @ [d]) = zip (take ?n es) ds @ [(es ! ?n, d)]"
    using assms by (subst zip_append) simp_all
  moreover have "zip (take ?n es @ es ! ?n # drop (Suc ?n) es) (ds @ []) = zip (take ?n es) ds @ []"
    using assms by (subst zip_append) simp_all
  ultimately have "zip es (ds @ [d]) = zip es ds @ [(es ! ?n, d)]"
    using es by simp
  then show ?thesis by (simp add: decided_def)
qed

lemma handled_quiet:
  assumes "handled V J ds w" "quiet V w w'"
  shows "handled V J ds w'"
  using assms by (auto simp: handled_def quiet_def delivers_def decided_append)

text \<open>The next event is the one after the decided ones, and stays so while the world delivers.\<close>

definition next_event :: "('w, 'm) world_view \<Rightarrow> bool list \<Rightarrow> persisted_event_envelope \<Rightarrow> 'w \<Rightarrow> bool" where
  "next_event V ds e w \<longleftrightarrow> length ds < length (vw_events V w) \<and> vw_events V w ! length ds = e"

lemma next_event_grows: "next_event V ds e w \<Longrightarrow> delivers V w w' \<Longrightarrow> next_event V ds e w'"
  by (auto simp: next_event_def delivers_def nth_append)

text \<open>A commit of the next event, applied or skipped, is one more decision.\<close>

lemma handled_commit:
  assumes "handled V J ds w" "next_event V ds e w" "delivers V w w'"
    and "vw_model V w' = (if d then vw_effect V e (vw_model V w) else vw_model V w)"
    and "vw_row V w' = Some (source_text (src_id (jb_source J)), selection_text (sel_id (tc_selection (jb_config J))),
           position_value (pe_position e))"
  shows "handled V J (ds @ [d]) w'"
proof -
  obtain more_events where ev: "vw_events V w' = vw_events V w @ more_events"
    using assms(3) by (auto simp: delivers_def)
  have n: "length ds < length (vw_events V w)" "vw_events V w ! length ds = e"
    using assms(2) by (simp_all add: next_event_def)
  have "vw_model V w' = decided V (vw_events V w) (ds @ [d])"
    using assms(1,4) n by (simp add: handled_def decided_snoc)
  then have "vw_model V w' = decided V (vw_events V w') (ds @ [d])"
    using n by (simp add: ev decided_append)
  moreover have "take (Suc (length ds)) (vw_events V w') = take (length ds) (vw_events V w) @ [e]"
    using n by (simp add: ev take_Suc_conv_app_nth)
  ultimately show ?thesis
    using n assms(5) by (simp add: handled_def progress_row_at_def ev)
qed

text \<open>
  One envelope of a transactional projection: whatever fails, the world holds the decisions it held before, or
  one more.
\<close>

section \<open>Calls of the database\<close>

lemma endsI:
  "(\<And>a w'. m w = (Inr a, w') \<Longrightarrow> Q a w') \<Longrightarrow> (\<And>e w'. m w = (Inl e, w') \<Longrightarrow> R e w') \<Longrightarrow> ends m Q R w"
  by (auto simp: ends_def split: prod.splits sum.splits)

lemma ends_quiet: "leaves_quiet V m \<Longrightarrow> ends m (\<lambda>_. quiet V w) (\<lambda>_. quiet V w) w"
  by (rule endsI) (metis leaves_quiet_def snd_conv)+

lemma ends_on_world:
  "ends (on_world m) Q R s = ends m (\<lambda>a w. Q a (s\<lparr>rs_world := w\<rparr>)) (\<lambda>e w. R e (s\<lparr>rs_world := w\<rparr>)) (rs_world s)"
  by (auto simp: ends_def on_world_def Let_def split: prod.splits sum.splits)

lemma job_parts:
  assumes "job_laws V J"
  shows "database_laws V (tp_name (jb_projector J)) (jb_database J)" "projector_laws V (jb_projector J)"
    "source_laws V (tc_selection (jb_config J)) (jb_source J)" "timer_laws V (jb_timers J)"
  using assms by (simp_all add: job_laws_def)

lemma begin_open:
  assumes "database_laws V n D"
  shows "ends (leader_begin D leader)
    (\<lambda>_ w'. quiet V w w' \<and> vw_tx_model V w' = vw_model V w' \<and> vw_tx_row V w' = vw_row V w') (\<lambda>e w'. quiet V w w') w"
  using assms
  by (auto simp: leader_begin_def database_laws_def leaves_quiet_def intro!: endsI) (metis snd_conv)+

lemma rollback_quiet:
  assumes "database_laws V n D"
  shows "ends (rollback D) (\<lambda>_. quiet V w) (\<lambda>_. quiet V w) w"
  using assms ends_quiet [of V "db_rollback D" w] by (simp add: rollback_def database_laws_def)

lemma rollback_preserving_quiet:
  assumes "database_laws V n D" "quiet V w w'"
  shows "ends (rollback_preserving_error D e) Q (\<lambda>_. quiet V w) w'"
proof -
  have "quiet V w' (snd (db_rollback D w'))" using assms(1) by (simp add: database_laws_def leaves_quiet_def)
  then have "quiet V w (snd (db_rollback D w'))" by (rule quiet_trans [OF assms(2)])
  then show ?thesis by (auto simp: ends_def rollback_preserving_error_def split: prod.splits sum.splits)
qed

lemma or_rollback_quiet:
  assumes "database_laws V n D" "ends m Q (\<lambda>_. quiet V w0) w"
  shows "ends (or_rollback D m) Q (\<lambda>_. quiet V w0) w"
proof (cases "m w")
  case (Pair r w')
  show ?thesis
  proof (cases r)
    case (Inl e)
    then have "quiet V w0 w'" using assms(2) Pair by (simp add: ends_def)
    from rollback_preserving_quiet [OF assms(1) this, of e Q] show ?thesis
      using Pair Inl by (simp add: ends_def or_rollback_def)
  next
    case (Inr a)
    then show ?thesis using assms(2) Pair by (simp add: ends_def or_rollback_def)
  qed
qed

section \<open>The progress row\<close>

definition progress_at :: "('w, 'pj, 'event, 'x, 'ac, 'f) projection_job \<Rightarrow> persisted_event_envelope list \<Rightarrow> projection_progress option" where
  "progress_at J es =
     (if es = [] then None
      else Some \<lparr>pg_source_id = src_id (jb_source J), pg_selection_id = sel_id (tc_selection (jb_config J)),
        pg_position = pe_position (last es)\<rparr>)"

lemma progress_row_read:
  assumes "job_laws V J" "es \<noteq> []" "position_ok (pe_position (last es))"
  shows "progress_row_at J es = Some row \<Longrightarrow> progress_from_row row = Inr (the (progress_at J es))"
proof -
  have "position_value (pe_position (last es)) \<noteq> 0" "\<not> sint (position_value (pe_position (last es))) < 0"
    using assms(3) by (auto simp: position_ok_def)
  then have "position_new (position_value (pe_position (last es))) = Some (pe_position (last es))"
    by (cases "pe_position (last es)") (simp add: position_new_def)
  moreover assume "progress_row_at J es = Some row"
  ultimately show ?thesis
    using assms by (auto simp: progress_row_at_def progress_from_row_def progress_at_def job_laws_def position_ok_def)
qed

lemma load_progress_row:
  assumes "job_laws V J" "vw_tx_row V w = progress_row_at J es" "\<forall>e \<in> set es. position_ok (pe_position e)"
  shows "ends (load_progress (jb_database J) (tp_name (jb_projector J)))
    (\<lambda>pr w'. pr = progress_at J es \<and> quiet V w w' \<and> same_tx V w w') (\<lambda>_. quiet V w) w"
proof -
  let ?n = "projector_text (tp_name (jb_projector J))"
  have q: "leaves_quiet V (db_select (jb_database J) ?n)"
    and sel: "db_select (jb_database J) ?n w = (Inr r, w') \<Longrightarrow> r = vw_tx_row V w \<and> same_tx V w w'" for r w'
    using job_parts(1) [OF assms(1)] by (auto simp: database_laws_def)
  have "ends (db_select (jb_database J) ?n) (\<lambda>r w'. r = progress_row_at J es \<and> quiet V w w' \<and> same_tx V w w')
      (\<lambda>_. quiet V w) w"
    using q sel assms(2) by (intro endsI) (auto simp: leaves_quiet_def dest: arg_cong [of _ _ snd], (metis snd_conv)+)
  then show ?thesis
  proof (simp add: load_progress_def, elim ends_mono, goal_cases)
    case (1 r w')
    show ?case
    proof (cases "es = []")
      case True
      then show ?thesis using 1 by (simp add: progress_row_at_def progress_at_def)
    next
      case False
      then obtain row where row: "progress_row_at J es = Some row" by (auto simp: progress_row_at_def)
      have "position_ok (pe_position (last es))" using assms(3) False by simp
      with 1 row False show ?thesis
        by (simp add: progress_row_read [OF assms(1) False _ row] progress_at_def)
    qed
  qed simp
qed

end
