(* ===== verification/Transactional_Envelope.thy ===== *)
theory Transactional_Envelope
  imports Transactional_Laws
begin

text \<open>One envelope, and a page of them.\<close>

section \<open>The transaction of a position\<close>

lemma quiet_grows: "quiet V w w' \<Longrightarrow> delivers V w w'"
  by (simp add: quiet_def)

text \<open>The transaction is open on what is committed, and the next event is \<open>e\<close>.\<close>

definition open_at ::
  "('w, 'm) world_view \<Rightarrow> ('w, 'pj, 'event, 'x, 'ac, 'f) projection_job \<Rightarrow> bool list \<Rightarrow> persisted_event_envelope \<Rightarrow> 'w \<Rightarrow> bool" where
  "open_at V J ds e w \<longleftrightarrow> handled V J ds w \<and> next_event V ds e w
     \<and> vw_tx_model V w = vw_model V w \<and> vw_tx_row V w = vw_row V w"

definition ready_at ::
  "('w, 'm) world_view \<Rightarrow> ('w, 'pj, 'event, 'x, 'ac, 'f) projection_job \<Rightarrow> bool list \<Rightarrow> persisted_event_envelope \<Rightarrow> 'w \<Rightarrow> bool" where
  "ready_at V J ds e w \<longleftrightarrow> handled V J ds w \<and> next_event V ds e w"

lemma ready_quiet: "ready_at V J ds e w \<Longrightarrow> quiet V w w' \<Longrightarrow> ready_at V J ds e w'"
  by (auto simp: ready_at_def intro: handled_quiet next_event_grows quiet_grows)

lemma open_ready: "open_at V J ds e w \<Longrightarrow> ready_at V J ds e w"
  by (simp add: open_at_def ready_at_def)

lemma events_ordered:
  assumes "job_laws V J"
  shows "sorted_wrt (<) (map pe_position (vw_events V w))" "\<forall>e \<in> set (vw_events V w). position_ok (pe_position e)"
  using job_parts(3) [OF assms] by (auto simp: source_laws_def delivery_order_def)

text \<open>The next event lies after the recorded progress.\<close>

lemma next_after_progress:
  assumes "job_laws V J" "ready_at V J ds e w"
    and "progress_at J (take (length ds) (vw_events V w)) = Some pr"
  shows "pg_position pr < pe_position e"
proof -
  let ?n = "length ds" and ?es = "vw_events V w"
  have n: "?n < length ?es" "?es ! ?n = e" using assms(2) by (simp_all add: ready_at_def next_event_def)
  have "ds \<noteq> []" using assms(3) by (auto simp: progress_at_def)
  then have "last (take ?n ?es) = ?es ! (?n - 1)" using n last_conv_nth [of "take ?n ?es"]
    by (cases "?es = []") auto
  moreover have "pe_position (?es ! (?n - 1)) < pe_position (?es ! ?n)"
    using sorted_wrt_nth_less [OF events_ordered(1) [OF assms(1)], of "?n - 1" ?n w] n \<open>ds \<noteq> []\<close> by simp
  ultimately show ?thesis using assms(3) n by (auto simp: progress_at_def split: if_splits)
qed

lemma begin_pending_open:
  assumes "job_laws V J" "ready_at V J ds e w"
  shows "ends (begin_pending J leader (pe_position e)) (\<lambda>pending w'. pending \<and> open_at V J ds e w') (\<lambda>_. quiet V w) w"
proof -
  let ?D = "jb_database J" and ?p = "pe_position e"
  note db = job_parts(1) [OF assms(1)]
  have pending: "ends (or_rollback ?D (position_is_pending ?D (tp_name (jb_projector J)) (src_id (jb_source J))
      (sel_id (tc_selection (jb_config J))) ?p)) (\<lambda>pending w'. pending \<and> open_at V J ds e w') (\<lambda>_. quiet V w) w1"
    if q: "quiet V w w1" and tx: "vw_tx_model V w1 = vw_model V w1" "vw_tx_row V w1 = vw_row V w1" for w1
  proof (rule or_rollback_quiet [OF db])
    let ?es = "take (length ds) (vw_events V w1)"
    have r1: "ready_at V J ds e w1" using ready_quiet [OF assms(2) q] .
    have row: "vw_tx_row V w1 = progress_row_at J ?es" using r1 tx by (simp add: ready_at_def handled_def)
    have ok: "\<forall>e \<in> set ?es. position_ok (pe_position e)"
      using events_ordered(2) [OF assms(1)] by (auto dest: in_set_takeD)
    have "ends (load_progress ?D (tp_name (jb_projector J)))
        (\<lambda>pr w'. pr = progress_at J ?es \<and> quiet V w1 w' \<and> same_tx V w1 w') (\<lambda>_. quiet V w1) w1"
      by (rule load_progress_row [OF assms(1) row ok])
    then show "ends (position_is_pending ?D (tp_name (jb_projector J)) (src_id (jb_source J))
      (sel_id (tc_selection (jb_config J))) ?p) (\<lambda>pending w'. pending \<and> open_at V J ds e w') (\<lambda>_. quiet V w) w1"
    proof (simp add: position_is_pending_def, elim ends_mono)
      fix pr w' assume pr: "pr = progress_at J ?es \<and> quiet V w1 w' \<and> same_tx V w1 w'"
      have op: "open_at V J ds e w'"
        using ready_quiet [OF r1, of w'] pr tx by (simp add: open_at_def ready_at_def same_tx_def quiet_def)
      show "ends (case pr of None \<Rightarrow> pass True
          | Some pr \<Rightarrow> andthen (try_result (validate_progress (tp_name (jb_projector J)) (src_id (jb_source J))
              (sel_id (tc_selection (jb_config J))) pr)) (\<lambda>_. pass (pg_position pr < ?p)))
          (\<lambda>pending w'. pending \<and> open_at V J ds e w') (\<lambda>_. quiet V w) w'"
      proof (cases pr)
        case (Some progress)
        have "pg_position progress < ?p"
          using next_after_progress [OF assms(1) r1] pr Some by metis
        moreover have "pg_source_id progress = src_id (jb_source J)"
          "pg_selection_id progress = sel_id (tc_selection (jb_config J))"
          using pr Some by (auto simp: progress_at_def split: if_splits)
        ultimately show ?thesis using Some op by (simp add: validate_progress_def)
      qed (simp add: op)
    qed (rule quiet_trans [OF q])
  qed
  show ?thesis
    unfolding begin_pending_def Let_def ends_andthen ends_simps
  proof (rule ends_mono [OF begin_open [OF db]], goal_cases)
    case (1 u w1)
    then show ?case using pending [of w1] by (auto elim!: ends_mono)
  qed
qed

section \<open>Committing\<close>

text \<open>What an error leaves behind: nothing new, unless the commit or the deferred work failed.\<close>

definition error_leaves ::
  "('w, 'm) world_view \<Rightarrow> ('w, 'pj, 'event, 'x, 'ac, 'f) projection_job \<Rightarrow> bool list \<Rightarrow> 'x transactional_projection_error
     \<Rightarrow> 'w \<Rightarrow> bool" where
  "error_leaves V J ds err w \<longleftrightarrow> handled V J ds w
     \<or> (\<exists>p x d. err = CommitIndeterminate p x \<and> handled V J (ds @ [d]) w)
     \<or> (\<exists>p x. err = AfterCommitFailed p x \<and> handled V J (ds @ [True]) w)"

lemma commit_position_decides:
  assumes "job_laws V J" "ready_at V J ds e w"
    and "vw_tx_model V w = (if d then vw_effect V e (vw_model V w) else vw_model V w)"
  shows "ends (commit_position J (pe_position e)) (\<lambda>_. handled V J (ds @ [d])) (error_leaves V J ds) w"
proof -
  let ?D = "jb_database J" and ?n = "projector_text (tp_name (jb_projector J))"
  let ?row = "(source_text (src_id (jb_source J)), selection_text (sel_id (tc_selection (jb_config J))),
    position_value (pe_position e))"
  note db = job_parts(1) [OF assms(1)]
  have "e \<in> set (vw_events V w)" using assms(2) by (auto simp: ready_at_def next_event_def)
  then have ok: "\<not> sint (position_value (pe_position e)) < 0"
    using events_ordered(2) [OF assms(1), of w] by (fastforce simp: position_ok_def)
  have up: "quiet V w (snd (db_upsert ?D ?n ?row w))"
    "db_upsert ?D ?n ?row w = (Inr u, w') \<Longrightarrow> vw_tx_model V w' = vw_tx_model V w \<and> vw_tx_row V w' = Some ?row" for u w'
    using db by (auto simp: database_laws_def leaves_quiet_def)
  have advance: "ends (or_rollback ?D (failing (progress_at_position (pe_position e))
        (advance_progress ?D (tp_name (jb_projector J)) (src_id (jb_source J)) (sel_id (tc_selection (jb_config J))) (pe_position e))))
      (\<lambda>_ w'. quiet V w w' \<and> vw_tx_model V w' = vw_tx_model V w \<and> vw_tx_row V w' = Some ?row) (\<lambda>_. quiet V w) w"
  proof (rule or_rollback_quiet [OF db])
    have "ends (db_upsert ?D ?n ?row) (\<lambda>_ w'. quiet V w w' \<and> vw_tx_model V w' = vw_tx_model V w \<and> vw_tx_row V w' = Some ?row)
      (\<lambda>_. quiet V w) w"
      by (rule endsI) (use up in \<open>auto\<close>)
    then show "ends (failing (progress_at_position (pe_position e))
        (advance_progress ?D (tp_name (jb_projector J)) (src_id (jb_source J)) (sel_id (tc_selection (jb_config J))) (pe_position e)))
      (\<lambda>_ w'. quiet V w w' \<and> vw_tx_model V w' = vw_tx_model V w \<and> vw_tx_row V w' = Some ?row) (\<lambda>_. quiet V w) w"
      using ok by (simp add: advance_progress_def)
  qed
  have commit: "ends (db_commit ?D) (\<lambda>_. handled V J (ds @ [d]))
      (\<lambda>x. error_leaves V J ds (CommitIndeterminate (pe_position e) (Boxed x))) w1"
    if w1: "quiet V w w1" "vw_tx_model V w1 = vw_tx_model V w" "vw_tx_row V w1 = Some ?row" for w1
  proof -
    have r1: "handled V J ds w1" "next_event V ds e w1"
      using ready_quiet [OF assms(2) w1(1)] by (simp_all add: ready_at_def)
    have m1: "vw_tx_model V w1 = (if d then vw_effect V e (vw_model V w1) else vw_model V w1)"
      using assms(3) w1 by (simp add: quiet_def)
    have new: "handled V J (ds @ [d]) w'"
      if "delivers V w1 w'" "vw_model V w' = vw_tx_model V w1" "vw_row V w' = vw_tx_row V w1" for w'
      by (rule handled_commit [OF r1 that(1)]) (use that w1 m1 in simp_all)
    show ?thesis
    proof (rule endsI)
      fix u w' assume "db_commit ?D w1 = (Inr u, w')"
      then show "handled V J (ds @ [d]) w'" using new db by (simp add: database_laws_def)
    next
      fix x w' assume "db_commit ?D w1 = (Inl x, w')"
      then have "delivers V w1 w'" "vw_model V w' = vw_tx_model V w1 \<and> vw_row V w' = vw_tx_row V w1
          \<or> vw_model V w' = vw_model V w1 \<and> vw_row V w' = vw_row V w1"
        using db unfolding database_laws_def by blast+
      then show "error_leaves V J ds (CommitIndeterminate (pe_position e) (Boxed x)) w'"
        using new handled_quiet [OF r1(1)] unfolding error_leaves_def quiet_def by blast
    qed
  qed
  show ?thesis
    unfolding commit_position_def Let_def ends_andthen ends_simps
  proof (rule ends_mono [OF advance], goal_cases)
    case (1 u w1)
    then show ?case using commit [of w1] by blast
  next
    case (2 err w1)
    have "handled V J ds w1"
      by (rule handled_quiet [OF _ 2]) (use assms(2) in \<open>simp add: ready_at_def\<close>)
    then show ?case by (simp add: error_leaves_def)
  qed
qed

section \<open>Skipping\<close>

lemma ready_error [simp]: "ready_at V J ds e w \<Longrightarrow> error_leaves V J ds err w"
  by (simp add: ready_at_def error_leaves_def)

lemma begin_pending_ready:
  assumes "job_laws V J" "ready_at V J ds e w"
  shows "ends (begin_pending J leader (pe_position e)) (\<lambda>pending w'. pending \<and> open_at V J ds e w') (error_leaves V J ds) w"
  by (rule ends_mono [OF begin_pending_open [OF assms]]) (auto dest: ready_quiet [OF assms(2)])

lemma skip_position_ends:
  assumes "job_laws V J" "ready_at V J ds e w"
  shows "ends (skip_position J leader (pe_position e)) (\<lambda>r w'. r = Skipped \<and> handled V J (ds @ [False]) w')
    (error_leaves V J ds) w"
  unfolding skip_position_def ends_andthen
proof (rule ends_mono [OF begin_pending_ready [OF assms]], goal_cases)
  case (1 pending w1)
  then have "vw_tx_model V w1 = (if False then vw_effect V e (vw_model V w1) else vw_model V w1)"
    by (simp add: open_at_def)
  from commit_position_decides [OF assms(1) open_ready this] 1
  have "ends (commit_position J (pe_position e)) (\<lambda>_. handled V J (ds @ [False])) (error_leaves V J ds) w1" by blast
  then show ?case using 1 by (auto elim!: ends_mono)
qed simp

section \<open>The attempts of one event\<close>

definition same_cursor :: "('pj, 'w) run_state \<Rightarrow> ('pj, 'w) run_state \<Rightarrow> bool" where
  "same_cursor s s' \<longleftrightarrow> rs_after s' = rs_after s \<and> rs_processed s' = rs_processed s \<and> rs_skipped s' = rs_skipped s"

lemma same_cursor_simps [simp]:
  "same_cursor s s" "same_cursor s (s'\<lparr>rs_world := w\<rparr>) = same_cursor s s'" "same_cursor s (s'\<lparr>rs_projector := pj\<rparr>) = same_cursor s s'"
  by (simp_all add: same_cursor_def)

text \<open>Each result stands for the decision it reports.\<close>

definition envelope_leaves ::
  "('w, 'm) world_view \<Rightarrow> ('w, 'pj, 'event, 'x, 'ac, 'f) projection_job \<Rightarrow> bool list \<Rightarrow> persisted_event_envelope
     \<Rightarrow> envelope_result \<Rightarrow> 'w \<Rightarrow> bool" where
  "envelope_leaves V J ds e r w \<longleftrightarrow>
     (case r of Processed \<Rightarrow> handled V J (ds @ [True]) w | Skipped \<Rightarrow> handled V J (ds @ [False]) w
      | Suppressed \<Rightarrow> False | LeftPending \<Rightarrow> ready_at V J ds e w)"

lemma after_commit_ends:
  assumes "job_laws V J" "handled V J (ds @ [True]) w"
  shows "ends (tp_after_commit (jb_projector J) ac) (\<lambda>_. handled V J (ds @ [True]))
    (\<lambda>x. error_leaves V J ds (AfterCommitFailed p (Boxed x))) w"
proof -
  have "leaves_quiet V (tp_after_commit (jb_projector J) ac)"
    using job_parts(2) [OF assms(1)] by (simp add: projector_laws_def)
  from ends_quiet [OF this, of w] show ?thesis
    by (auto elim!: ends_mono simp: error_leaves_def dest: handled_quiet [OF assms(2)])
qed

text \<open>What follows a failed attempt, once the projector has decided.\<close>

abbreviation failed_attempt ::
  "('w, 'pj, 'event, 'x, 'ac, 'f) projection_job \<Rightarrow> projection_leader \<Rightarrow> 'event \<Rightarrow> delivery_position \<Rightarrow> u32 \<Rightarrow> 'x
     \<Rightarrow> projection_failure_decision \<Rightarrow> ('pj, 'w, 'x, envelope_result) run_action" where
  "failed_attempt J leader event position attempt error decision \<equiv>
     (case decision of
        DecideRetry \<Rightarrow>
          if trp_max_retries (tc_retry_policy (jb_config J)) < attempt then stop (RetryExhausted position attempt (Boxed error))
          else andthen (retry_sleep J attempt) (\<lambda>_.
            if attempt = - 1 then stop (ConfigurationInvalid TooManyRetries)
            else andthen (on_world (begin_pending J leader position)) (\<lambda>pending.
              if \<not> pending then pass Suppressed else apply_attempts J leader event position (attempt + 1)))
      | DecideSkip \<Rightarrow> on_world (skip_position J leader position)
      | DecideStop \<Rightarrow> pass LeftPending
      | DecideFatal \<Rightarrow> stop (ApplicationFailed position (Boxed error)))"

lemma run_state_order:
  "rs_projector (s\<lparr>rs_projector := pj1, rs_world := w\<rparr>) = pj1"
  "s\<lparr>rs_projector := pj1, rs_world := w\<rparr>\<lparr>rs_projector := pj2\<rparr> = s\<lparr>rs_projector := pj2, rs_world := w\<rparr>"
  by simp_all

lemma ends_apply_failed:
  assumes "tp_apply (jb_projector J) event position (rs_projector s) (rs_world s) = (Inl x, pj1, w1)"
    and "tp_on_error (jb_projector J) pj1 \<lparr>pf_position = position, pf_error = x, pf_attempt = attempt\<rparr> = (decision, pj2)"
  shows "ends (apply_attempts J leader event position attempt) Q R s =
    ends (rollback (jb_database J)) (\<lambda>_ w. ends (failed_attempt J leader event position attempt x decision) Q R
        (s\<lparr>rs_projector := pj2, rs_world := w\<rparr>)) (\<lambda>err w. R err (s\<lparr>rs_projector := pj2, rs_world := w\<rparr>)) w1"
proof -
  have "apply_attempts J leader event position attempt s
    = andthen (on_world (rollback (jb_database J))) (\<lambda>_. failed_attempt J leader event position attempt x decision)
        (s\<lparr>rs_projector := pj2, rs_world := w1\<rparr>)"
    using assms by (subst apply_attempts.simps) (simp only: apply_event_def ask_projector_def andthen_def Let_def
      prod.case sum.case run_state.select_convs run_state.update_convs run_state_order)
  then have "ends (apply_attempts J leader event position attempt) Q R s
    = ends (andthen (on_world (rollback (jb_database J))) (\<lambda>_. failed_attempt J leader event position attempt x decision)) Q R
        (s\<lparr>rs_projector := pj2, rs_world := w1\<rparr>)"
    by (simp only: ends_def)
  then show ?thesis by (simp only: ends_andthen ends_on_world) simp
qed

lemma ends_apply_done:
  assumes "tp_apply (jb_projector J) event position (rs_projector s) (rs_world s) = (Inr ac, pj1, w1)"
  shows "ends (apply_attempts J leader event position attempt) Q R s =
    ends (commit_position J position) (\<lambda>_. ends (tp_after_commit (jb_projector J) ac)
          (\<lambda>_ w. Q Processed (s\<lparr>rs_projector := pj1, rs_world := w\<rparr>))
          (\<lambda>x w. R (AfterCommitFailed position (Boxed x)) (s\<lparr>rs_projector := pj1, rs_world := w\<rparr>)))
      (\<lambda>err w. R err (s\<lparr>rs_projector := pj1, rs_world := w\<rparr>)) w1"
proof -
  let ?after = "andthen (on_world (commit_position J position)) (\<lambda>_.
    andthen (failing (\<lambda>x. AfterCommitFailed position (Boxed x)) (on_world (tp_after_commit (jb_projector J) ac))) (\<lambda>_.
    pass Processed))"
  have "apply_attempts J leader event position attempt s = ?after (s\<lparr>rs_projector := pj1, rs_world := w1\<rparr>)"
    using assms by (subst apply_attempts.simps) (simp add: apply_event_def)
  then have "ends (apply_attempts J leader event position attempt) Q R s
    = ends ?after Q R (s\<lparr>rs_projector := pj1, rs_world := w1\<rparr>)"
    by (simp only: ends_def)
  then show ?thesis by (simp only: ends_andthen ends_on_world ends_simps) simp
qed

lemma ends_retry_sleep [simp]:
  "ends (retry_sleep J attempt) Q R s = Q () (s\<lparr>rs_world :=
     tm_retry_sleep (jb_timers J) (transactional_retry_delay (jb_floats J) (jb_config J) attempt) (rs_world s)\<rparr>)"
  by (simp add: ends_def retry_sleep_def)

lemma apply_attempts_ends:
  assumes J: "job_laws V J" and event: "tp_decode (jb_projector J) pj e = Inr event"
  shows "open_at V J ds e (rs_world s) \<Longrightarrow>
    ends (apply_attempts J leader event (pe_position e) attempt)
      (\<lambda>r s'. envelope_leaves V J ds e r (rs_world s') \<and> same_cursor s s') (\<lambda>err s'. error_leaves V J ds err (rs_world s')) s"
proof (induction "4294967296 - unat attempt" arbitrary: attempt s rule: less_induct)
  case less
  let ?P = "jb_projector J" and ?w = "rs_world s"
  let ?Q = "\<lambda>r s'. envelope_leaves V J ds e r (rs_world s') \<and> same_cursor s s'"
  let ?R = "\<lambda>err s'. error_leaves V J ds err (rs_world s')"
  note laws = job_parts(2) [OF J, unfolded projector_laws_def]
  obtain r pj1 w1 where applied: "tp_apply ?P event (pe_position e) (rs_projector s) ?w = (r, pj1, w1)"
    by (cases "tp_apply ?P event (pe_position e) (rs_projector s) ?w")
  let ?s1 = "s\<lparr>rs_projector := pj1, rs_world := w1\<rparr>"
  have "quiet V ?w w1" using laws applied by (metis snd_conv)
  then have r1: "ready_at V J ds e w1" using ready_quiet [OF open_ready [OF less.prems]] by blast
  have again: "ends (begin_pending J leader (pe_position e)) (\<lambda>pending w'. pending \<and> open_at V J ds e w') (error_leaves V J ds) w"
    if "ready_at V J ds e w" for w by (rule begin_pending_ready [OF J that])
  have sleep: "ready_at V J ds e (tm_retry_sleep (jb_timers J) d w)" if "ready_at V J ds e w" for d w
    by (rule ready_quiet [OF that]) (use job_parts(4) [OF J] in \<open>simp add: timer_laws_def\<close>)
  have retry: "ends (failed_attempt J leader event (pe_position e) attempt x DecideRetry) ?Q ?R s2"
    if s2: "ready_at V J ds e (rs_world s2)" "same_cursor s s2" for s2 x
  proof (cases "attempt = - 1")
    case True
    then show ?thesis using ready_error [OF sleep [OF s2(1)]] ready_error [OF s2(1)] by simp
  next
    case False
    let ?s3 = "s2\<lparr>rs_world := tm_retry_sleep (jb_timers J) (transactional_retry_delay (jb_floats J) (jb_config J) attempt) (rs_world s2)\<rparr>"
    have rec: "ends (apply_attempts J leader event (pe_position e) (attempt + 1)) ?Q ?R s4"
      if "open_at V J ds e (rs_world s4)" "same_cursor s s4" for s4
      using less.hyps [OF attempt_left [OF False] that(1)] that(2)
      by (auto elim!: ends_mono simp: same_cursor_def)
    have "ends (begin_pending J leader (pe_position e))
        (\<lambda>pending w'. ends (if \<not> pending then pass Suppressed else apply_attempts J leader event (pe_position e) (attempt + 1))
           ?Q ?R (?s3\<lparr>rs_world := w'\<rparr>)) (error_leaves V J ds) (rs_world ?s3)"
      by (rule ends_mono [OF again]) (use rec sleep s2 in simp_all)
    then show ?thesis using False s2(1) by (simp add: ends_on_world)
  qed
  show ?case
  proof (cases r)
    case (Inr ac)
    have "vw_tx_model V w1 = vw_effect V e (vw_tx_model V ?w)"
      using laws event applied Inr by blast
    moreover have "vw_tx_model V ?w = vw_model V w1"
      using less.prems \<open>quiet V ?w w1\<close> by (simp add: open_at_def quiet_def)
    ultimately have "vw_tx_model V w1 = (if True then vw_effect V e (vw_model V w1) else vw_model V w1)" by simp
    from commit_position_decides [OF J r1 this]
    have "ends (commit_position J (pe_position e)) (\<lambda>_. ends (tp_after_commit ?P ac) (\<lambda>_. handled V J (ds @ [True]))
        (\<lambda>x. error_leaves V J ds (AfterCommitFailed (pe_position e) (Boxed x)))) (error_leaves V J ds) w1"
      by (rule ends_mono) (use after_commit_ends [OF J] in blast)+
    then show ?thesis
      unfolding ends_apply_done [OF applied [unfolded Inr]] by (simp add: envelope_leaves_def)
  next
    case (Inl x)
    obtain decision pj2 where asked: "tp_on_error ?P pj1 \<lparr>pf_position = pe_position e, pf_error = x, pf_attempt = attempt\<rparr>
        = (decision, pj2)" by fastforce
    have roll: "ends (rollback (jb_database J)) (\<lambda>_. ready_at V J ds e) (\<lambda>_. ready_at V J ds e) w1"
      by (rule ends_mono [OF rollback_quiet [OF job_parts(1) [OF J]]]) (auto intro: ready_quiet [OF r1])
    have decide: "ends (failed_attempt J leader event (pe_position e) attempt x decision) ?Q ?R s2"
      if s2: "ready_at V J ds e (rs_world s2)" "same_cursor s s2" for s2
    proof (cases decision)
      case DecideRetry
      then show ?thesis using retry [OF s2, of x] by simp
    next
      case DecideSkip
      have "ends (skip_position J leader (pe_position e)) (envelope_leaves V J ds e) (error_leaves V J ds) (rs_world s2)"
        by (rule ends_mono [OF skip_position_ends [OF J s2(1)]]) (simp_all add: envelope_leaves_def)
      then show ?thesis using DecideSkip s2(2) by (simp add: ends_on_world)
    qed (use s2 in \<open>simp_all add: envelope_leaves_def\<close>)
    show ?thesis
      unfolding ends_apply_failed [OF applied [unfolded Inl] asked]
      by (rule ends_mono [OF roll]) (use decide in simp_all)
  qed
qed

end
