(* ===== verification/Transactional_Pages.thy ===== *)
theory Transactional_Pages
  imports Transactional_Envelope
begin

text \<open>Nothing the runner does takes a delivered event away, so that a page read once stays the next part of the stream.\<close>

section \<open>Actions that only add events\<close>

definition growing :: "('w, 'm) world_view \<Rightarrow> ('st \<Rightarrow> 'w) \<Rightarrow> ('st, 'e, 'a) action \<Rightarrow> bool" where
  "growing V g m \<longleftrightarrow> (\<forall>s r s'. m s = (r, s') \<longrightarrow> delivers V (g s) (g s'))"

lemma growing_snd: "growing V g m \<longleftrightarrow> (\<forall>s. delivers V (g s) (g (snd (m s))))"
  by (simp add: growing_def) (metis prod.collapse snd_conv)

lemma snd_failing [simp]: "snd (failing h m s) = snd (m s)"
  by (simp add: failing_def split: prod.split sum.split)

lemma growing_simps [simp]:
  "growing V g (pass a)" "growing V g (stop e)" "growing V g (try_result r)"
  "growing V g (failing h m) = growing V g m"
  by (simp_all add: growing_snd pass_def stop_def try_result_def)

lemma growing_cases:
  assumes "growing V g m" "\<And>a. growing V g (A a)" "\<And>e. growing V g (B e)"
  shows "growing V g (\<lambda>s. case m s of (Inr a, s) \<Rightarrow> A a s | (Inl e, s) \<Rightarrow> B e s)"
  using assms unfolding growing_def by (auto split: prod.splits sum.splits intro: delivers_trans) (meson delivers_trans)+

lemma growing_andthen: "growing V g m \<Longrightarrow> (\<And>a. growing V g (f a)) \<Longrightarrow> growing V g (andthen m f)"
  unfolding growing_def andthen_def
  by (auto split: prod.splits sum.splits) (meson delivers_trans)

lemma growing_on_world: "growing V id m \<Longrightarrow> growing V rs_world (on_world m)"
  by (auto simp: growing_def on_world_def Let_def split: prod.splits)

lemma quiet_growing: "leaves_quiet V m \<Longrightarrow> growing V id m"
  by (auto simp: growing_def leaves_quiet_def quiet_def) (metis snd_conv)

lemma growing_rollback_preserving: "growing V id (db_rollback D) \<Longrightarrow> growing V id (rollback_preserving_error D e)"
  unfolding growing_def rollback_preserving_error_def by (auto split: prod.splits sum.splits)

lemma growing_or_rollback:
  assumes "growing V id (db_rollback D)" "growing V id m"
  shows "growing V id (or_rollback D m)"
proof -
  have "or_rollback D m = (\<lambda>w. case m w of (Inr a, w) \<Rightarrow> pass a w | (Inl e, w) \<Rightarrow> rollback_preserving_error D e w)"
    by (auto simp: or_rollback_def fun_eq_iff split: prod.splits sum.splits)
  then show ?thesis
    by (simp only:) (intro growing_cases assms growing_simps growing_rollback_preserving)
qed

text \<open>What is shown of the result holds with the growth.\<close>

lemma ends_growing:
  "growing V g m \<Longrightarrow> ends m Q R s
    \<Longrightarrow> ends m (\<lambda>a s'. Q a s' \<and> delivers V (g s) (g s')) (\<lambda>e s'. R e s' \<and> delivers V (g s) (g s')) s"
  by (auto simp: ends_def growing_def split: prod.split sum.split)

section \<open>The runner's actions\<close>

lemma database_growing:
  assumes "database_laws V n D"
  shows "growing V id (db_begin D)" "growing V id (db_rollback D)" "growing V id (db_select D (projector_text n))"
    "growing V id (db_upsert D (projector_text n) row)" "growing V id (db_commit D)"
proof -
  have "delivers V w w'" if "db_commit D w = (r, w')" for r w w'
    using assms that by (cases r) (auto simp: database_laws_def)
  then show "growing V id (db_commit D)" by (simp add: growing_def)
  show "growing V id (db_upsert D (projector_text n) row)"
    by (rule quiet_growing) (use assms in \<open>unfold database_laws_def, blast\<close>)
qed (use assms in \<open>auto simp: database_laws_def intro: quiet_growing\<close>)

lemma runner_growing:
  assumes "job_laws V J"
  shows "growing V id (begin_pending J leader p)" "growing V id (commit_position J p)" "growing V id (skip_position J leader p)"
proof -
  note G = database_growing [OF job_parts(1) [OF assms]]
  have open_tx: "growing V id (leader_begin (jb_database J) leader)"
    using G by (simp add: leader_begin_def)
  have load: "growing V id (load_progress (jb_database J) (tp_name (jb_projector J)))"
    using G by (auto simp: load_progress_def intro!: growing_andthen)
  have pending: "growing V id (position_is_pending (jb_database J) (tp_name (jb_projector J)) source_id selection_id p)"
    for source_id selection_id
    using load by (auto simp: position_is_pending_def intro!: growing_andthen split: option.split)
  show begins: "growing V id (begin_pending J leader p)"
    using G open_tx pending
    by (auto simp: begin_pending_def Let_def rollback_def intro!: growing_andthen growing_or_rollback)
  show commits: "growing V id (commit_position J p)"
    using G by (auto simp: commit_position_def Let_def advance_progress_def intro!: growing_andthen growing_or_rollback)
  show "growing V id (skip_position J leader p)"
    using begins commits by (auto simp: skip_position_def intro!: growing_andthen)
qed

lemma apply_attempts_growing:
  assumes J: "job_laws V J"
  shows "growing V rs_world (apply_attempts J leader event p attempt)"
proof (induction "4294967296 - unat attempt" arbitrary: attempt rule: less_induct)
  case less
  note P = job_parts(2) [OF J, unfolded projector_laws_def] and G = runner_growing [OF J]
  have roll: "growing V rs_world (on_world (rollback (jb_database J)))"
    using database_growing [OF job_parts(1) [OF J]] by (auto simp: rollback_def intro: growing_on_world)
  have after: "growing V rs_world (on_world (tp_after_commit (jb_projector J) ac))" for ac
    by (rule growing_on_world, rule quiet_growing) (use P in blast)
  have apply_grows: "growing V rs_world (apply_event (jb_projector J) event p)"
    using P by (auto simp: growing_def apply_event_def quiet_def split: prod.splits) (metis snd_conv)
  have ask: "growing V rs_world (ask_projector (jb_projector J) f)" for f
    by (auto simp: growing_def ask_projector_def split: prod.splits)
  have sleep: "growing V rs_world (retry_sleep J attempt)"
    using job_parts(4) [OF J] by (auto simp: growing_def retry_sleep_def timer_laws_def quiet_def)
  have again: "growing V rs_world (apply_attempts J leader event p (attempt + 1))" if "attempt \<noteq> - 1"
    by (rule less) (rule attempt_left [OF that])
  have failed: "growing V rs_world (failed_attempt J leader event p attempt x decision)" for x decision
    using G again sleep by (cases decision) (auto intro!: growing_andthen growing_on_world)
  have eq: "apply_attempts J leader event p attempt = (\<lambda>s. case apply_event (jb_projector J) event p s of
      (Inr ac, s) \<Rightarrow> andthen (on_world (commit_position J p)) (\<lambda>_.
          andthen (failing (\<lambda>x. AfterCommitFailed p (Boxed x)) (on_world (tp_after_commit (jb_projector J) ac))) (\<lambda>_.
          pass Processed)) s
    | (Inl x, s) \<Rightarrow> andthen (ask_projector (jb_projector J) \<lparr>pf_position = p, pf_error = x, pf_attempt = attempt\<rparr>) (\<lambda>decision.
          andthen (on_world (rollback (jb_database J))) (\<lambda>_. failed_attempt J leader event p attempt x decision)) s)"
    by (rule ext) (rule apply_attempts.simps)
  show ?case
    unfolding eq by (intro growing_cases [OF apply_grows] growing_andthen)
      (simp_all only: growing_simps after ask roll failed growing_on_world [OF G(2)])
qed

lemma process_envelope_growing:
  assumes J: "job_laws V J"
  shows "growing V rs_world (process_envelope J leader e)"
proof -
  let ?rest = "\<lambda>s. case tp_decode (jb_projector J) (rs_projector s) e of
        Inl x \<Rightarrow> on_world (rollback_preserving_error (jb_database J) (DecodeFailed (pe_position e) (Boxed x))) s
      | Inr event \<Rightarrow> apply_attempts J leader event (pe_position e) 1 s"
  have "growing V rs_world (on_world (rollback_preserving_error (jb_database J) err))" for err
    using database_growing(2) [OF job_parts(1) [OF J]] by (intro growing_on_world growing_rollback_preserving)
  then have "growing V rs_world ?rest"
    using apply_attempts_growing [OF J] unfolding growing_def by (auto split: sum.splits)
  then show ?thesis
    unfolding process_envelope_def Let_def using runner_growing [OF J]
    by (intro growing_andthen growing_on_world) simp_all
qed

lemma process_envelope_ends:
  assumes J: "job_laws V J" and r: "ready_at V J ds e (rs_world s)"
  shows "ends (process_envelope J leader e)
    (\<lambda>r s'. envelope_leaves V J ds e r (rs_world s') \<and> same_cursor s s') (\<lambda>err s'. error_leaves V J ds err (rs_world s')) s"
proof -
  have step: "ends (\<lambda>s. case tp_decode (jb_projector J) (rs_projector s) e of
        Inl x \<Rightarrow> on_world (rollback_preserving_error (jb_database J) (DecodeFailed (pe_position e) (Boxed x))) s
      | Inr event \<Rightarrow> apply_attempts J leader event (pe_position e) 1 s)
    (\<lambda>r s'. envelope_leaves V J ds e r (rs_world s') \<and> same_cursor s s') (\<lambda>err s'. error_leaves V J ds err (rs_world s'))
    (s\<lparr>rs_world := w1\<rparr>)" if op: "open_at V J ds e w1" for w1
  proof (cases "tp_decode (jb_projector J) (rs_projector s) e")
    case (Inl x)
    have "ends (rollback_preserving_error (jb_database J) (DecodeFailed (pe_position e) (Boxed x)))
        (\<lambda>r w'. False) (error_leaves V J ds) w1"
      by (rule ends_mono [OF rollback_preserving_quiet [OF job_parts(1) [OF J] quiet_refl, where Q = "\<lambda>_ _. False"]])
         (use ready_error [OF ready_quiet [OF open_ready [OF op]]] in blast)+
    then have "ends (on_world (rollback_preserving_error (jb_database J) (DecodeFailed (pe_position e) (Boxed x))))
        (\<lambda>r s'. envelope_leaves V J ds e r (rs_world s') \<and> same_cursor s s') (\<lambda>err s'. error_leaves V J ds err (rs_world s'))
        (s\<lparr>rs_world := w1\<rparr>)"
      by (auto simp: ends_on_world elim!: ends_mono)
    then show ?thesis using Inl by (simp add: ends_def)
  next
    case (Inr event)
    from apply_attempts_ends [OF J Inr, of ds "s\<lparr>rs_world := w1\<rparr>" leader 1] op
    show ?thesis using Inr by (simp add: ends_def same_cursor_def)
  qed
  show ?thesis
    unfolding process_envelope_def Let_def ends_andthen ends_on_world
    by (rule ends_mono [OF begin_pending_ready [OF J r]]) (use step in simp_all)
qed

text \<open>A page of a transactional projection, the pages up to a high-water mark, and the end of that loop.\<close>

section \<open>The runner between envelopes\<close>

definition counted :: "bool list \<Rightarrow> ('pj, 'w) run_state \<Rightarrow> bool" where
  "counted new s \<longleftrightarrow> rs_processed s = of_nat (count_list new True) \<and> rs_skipped s = of_nat (count_list new False)"

text \<open>
  The decisions \<open>old\<close> were committed before the run and \<open>new\<close> by it; the cursor is at the last of them.
\<close>

definition run_at ::
  "('w, 'm) world_view \<Rightarrow> ('w, 'pj, 'event, 'x, 'ac, 'f) projection_job \<Rightarrow> bool list \<Rightarrow> bool list \<Rightarrow> ('pj, 'w) run_state \<Rightarrow> bool" where
  "run_at V J old new s \<longleftrightarrow> handled V J (old @ new) (rs_world s) \<and> counted new s
     \<and> rs_after s = map_option pg_position (progress_at J (take (length (old @ new)) (vw_events V (rs_world s))))"

text \<open>A run that ended before the envelope \<open>e\<close>.\<close>

definition stopped_at ::
  "('w, 'm) world_view \<Rightarrow> ('w, 'pj, 'event, 'x, 'ac, 'f) projection_job \<Rightarrow> bool list \<Rightarrow> bool list \<Rightarrow> delivery_position
     \<Rightarrow> ('pj, 'w) run_state \<Rightarrow> bool" where
  "stopped_at V J old new p s \<longleftrightarrow> counted new s \<and> (\<exists>e. p = pe_position e \<and> ready_at V J (old @ new) e (rs_world s))"

lemma take_prefix_grows:
  "delivers V w w' \<Longrightarrow> n \<le> length (vw_events V w) \<Longrightarrow> take n (vw_events V w') = take n (vw_events V w)"
  by (auto simp: delivers_def)

lemma page_grows:
  assumes "delivers V w w'" "take (length es) (drop n (vw_events V w)) = es"
  shows "take (length es) (drop n (vw_events V w')) = es"
proof -
  obtain new where "vw_events V w' = vw_events V w @ new" using assms(1) by (auto simp: delivers_def)
  moreover have "length es \<le> length (drop n (vw_events V w))"
    using arg_cong [OF assms(2), of length] by simp
  ultimately show ?thesis using assms(2) by simp
qed

lemma run_at_quiet:
  assumes "run_at V J old new s" "quiet V (rs_world s) w'"
  shows "run_at V J old new (s\<lparr>rs_world := w'\<rparr>)"
proof -
  have "length (old @ new) \<le> length (vw_events V (rs_world s))" using assms(1) by (simp add: run_at_def handled_def)
  moreover have "delivers V (rs_world s) w'" using assms(2) by (rule quiet_grows)
  ultimately have "take (length (old @ new)) (vw_events V w') = take (length (old @ new)) (vw_events V (rs_world s))"
    by (rule take_prefix_grows [rotated])
  then show ?thesis
    using assms handled_quiet [of V J "old @ new" "rs_world s" w'] by (simp add: run_at_def counted_def)
qed

section \<open>A page\<close>

lemma ends_drain_page_Cons:
  "ends (drain_page J leader (e # es)) Q R s =
     ends (process_envelope J leader e) (\<lambda>r s'. if r = LeftPending then Q (Some (pe_position e)) s'
       else ends (drain_page J leader es) Q R (count_result r s')) R (s\<lparr>rs_after := Some (pe_position e)\<rparr>)"
  by (auto simp: ends_def Let_def split: prod.splits sum.splits envelope_result.splits)

definition page_end ::
  "('w, 'm) world_view \<Rightarrow> ('w, 'pj, 'event, 'x, 'ac, 'f) projection_job \<Rightarrow> bool list \<Rightarrow> bool list \<Rightarrow> nat
     \<Rightarrow> delivery_position option \<Rightarrow> ('pj, 'w) run_state \<Rightarrow> bool" where
  "page_end V J old new n result s \<longleftrightarrow> (\<exists>new'. case result of
       None \<Rightarrow> run_at V J old (new @ new') s \<and> length new' = n
     | Some p \<Rightarrow> stopped_at V J old (new @ new') p s)"

lemma page_end_step: "page_end V J old (new @ [d]) n result s \<Longrightarrow> page_end V J old new (Suc n) result s"
  by (cases result) (auto simp: page_end_def intro: exI [of _ "d # _"])

lemma counted_result [simp]:
  "counted (new @ [True]) (count_result Processed s) = (rs_processed s + 1 = of_nat (count_list new True) + 1 \<and> rs_skipped s = of_nat (count_list new False))"
  "counted (new @ [False]) (count_result Skipped s) = (rs_processed s = of_nat (count_list new True) \<and> rs_skipped s + 1 = of_nat (count_list new False) + 1)"
  by (auto simp: counted_def count_result_def add.commute)

lemma count_result_world [simp]:
  "rs_world (count_result r s) = rs_world s" "rs_after (count_result r s) = rs_after s"
  by (simp_all add: count_result_def split: envelope_result.split)

lemma run_at_decided:
  assumes "ready_at V J (old @ new) e w" "delivers V w w'" "handled V J (old @ new @ [d]) w'" "rs_world s = w'"
    and "rs_after s = Some (pe_position e)" "counted (new @ [d]) s"
  shows "run_at V J old (new @ [d]) s"
proof -
  have "next_event V (old @ new) e w'" using assms(1,2) by (auto simp: ready_at_def intro: next_event_grows)
  then have "take (Suc (length (old @ new))) (vw_events V w') = take (length (old @ new)) (vw_events V w') @ [e]"
    by (simp add: next_event_def take_Suc_conv_app_nth)
  then show ?thesis using assms by (simp add: run_at_def progress_at_def)
qed

lemma drain_page_ends:
  assumes J: "job_laws V J"
  shows "run_at V J old new s
    \<Longrightarrow> take (length es) (drop (length (old @ new)) (vw_events V (rs_world s))) = es
    \<Longrightarrow> ends (drain_page J leader es) (\<lambda>result s'. page_end V J old new (length es) result s' \<and> delivers V (rs_world s) (rs_world s'))
      (\<lambda>err s'. \<exists>new'. error_leaves V J (old @ new @ new') err (rs_world s')) s"
proof (induction es arbitrary: new s)
  case Nil
  then show ?case by (auto simp: ends_def page_end_def intro: exI [of _ "[]"])
next
  case (Cons e es)
  let ?n = "length (old @ new)" and ?s = "s\<lparr>rs_after := Some (pe_position e)\<rparr>"
  let ?Q = "\<lambda>result s'. page_end V J old new (length (e # es)) result s' \<and> delivers V (rs_world s) (rs_world s')"
  let ?R = "\<lambda>err s'. \<exists>new'. error_leaves V J (old @ new @ new') err (rs_world s')"
  have len: "?n < length (vw_events V (rs_world s))"
    using arg_cong [OF Cons.prems(2), of length] by simp
  then have "drop ?n (vw_events V (rs_world s)) = vw_events V (rs_world s) ! ?n # drop (Suc ?n) (vw_events V (rs_world s))"
    by (simp add: Cons_nth_drop_Suc)
  then have at: "vw_events V (rs_world s) ! ?n = e" "take (length es) (drop (Suc ?n) (vw_events V (rs_world s))) = es"
    using Cons.prems(2) by simp_all
  then have r: "ready_at V J (old @ new) e (rs_world ?s)"
    using Cons.prems(1) len by (simp add: ready_at_def next_event_def run_at_def)
  have rest: "ends (drain_page J leader es) ?Q ?R (count_result r s1)"
    if "handled V J (old @ new @ [d]) (rs_world s1)" "same_cursor ?s s1" "delivers V (rs_world s) (rs_world s1)"
      "counted (new @ [d]) (count_result r s1)" for r d s1
  proof -
    have run: "run_at V J old (new @ [d]) (count_result r s1)"
      by (rule run_at_decided [OF r]) (use that in \<open>simp_all add: same_cursor_def\<close>)
    have "take (length es) (drop (length (old @ new @ [d])) (vw_events V (rs_world (count_result r s1)))) = es"
      using page_grows [OF that(3) at(2)] by simp
    from Cons.IH [OF run] this show ?thesis
      by (auto elim!: ends_mono simp: page_end_step intro: delivers_trans [OF that(3)])
  qed
  have counts: "rs_processed s = of_nat (count_list new True)" "rs_skipped s = of_nat (count_list new False)"
    using Cons.prems(1) by (simp_all add: run_at_def counted_def)
  show ?case
    unfolding ends_drain_page_Cons
  proof (rule ends_mono [OF ends_growing [OF process_envelope_growing [OF J] process_envelope_ends [OF J r]]], goal_cases)
    case (1 res s1)
    show ?case
    proof (cases res)
      case Processed
      then show ?thesis using 1 rest [of True s1 Processed] counts by (simp add: envelope_leaves_def same_cursor_def)
    next
      case Skipped
      then show ?thesis using 1 rest [of False s1 Skipped] counts by (simp add: envelope_leaves_def same_cursor_def)
    next
      case LeftPending
      then have "stopped_at V J old (new @ []) (pe_position e) s1"
        using 1 counts by (auto simp: stopped_at_def envelope_leaves_def same_cursor_def counted_def)
      then show ?thesis using LeftPending 1 unfolding page_end_def by (auto intro: exI [of _ "[]"])
    qed (use 1 in \<open>simp add: envelope_leaves_def\<close>)
  next
    case (2 err s1)
    then show ?case by (auto intro: exI [of _ "[]"])
  qed
qed

section \<open>The pages up to a mark\<close>

text \<open>What is decided lies below the mark, and the mark below the frontier.\<close>

definition cycle_at :: "('w, 'm) world_view \<Rightarrow> delivery_position \<Rightarrow> bool list \<Rightarrow> 'w \<Rightarrow> bool" where
  "cycle_at V t ds w \<longleftrightarrow> (\<forall>e \<in> set (take (length ds) (vw_events V w)). pe_position e \<le> t)
     \<and> (\<exists>h. vw_frontier V w = Some h \<and> t \<le> h)"

abbreviation up_to :: "delivery_position \<Rightarrow> persisted_event_envelope list \<Rightarrow> persisted_event_envelope list" where
  "up_to t \<equiv> filter (\<lambda>e. pe_position e \<le> t)"

lemma up_to_prefix:
  "sorted_wrt (<) (map pe_position es) \<Longrightarrow> up_to t es = take (length (up_to t es)) es"
proof (induction es)
  case (Cons e es)
  show ?case
  proof (cases "pe_position e \<le> t")
    case False
    then have "\<forall>x \<in> set es. \<not> pe_position x \<le> t" using Cons.prems by auto
    then show ?thesis using False by simp
  qed (use Cons in simp)
qed simp

lemma up_to_grows:
  assumes "vw_frontier V w = Some h" "t \<le> h" "delivers V w w'"
  shows "up_to t (vw_events V w') = up_to t (vw_events V w)"
proof -
  obtain new where new: "vw_events V w' = vw_events V w @ new" "\<forall>e \<in> set new. h < pe_position e"
    using assms by (auto simp: delivers_def)
  then have "\<forall>e \<in> set new. \<not> pe_position e \<le> t" using assms(2) by auto
  then show ?thesis using new(1) by simp
qed

lemma cycle_at_grows:
  assumes "cycle_at V t ds w" "delivers V w w'" "length ds \<le> length (vw_events V w)"
  shows "cycle_at V t ds w'"
  using assms(1) take_prefix_grows [OF assms(2,3)] assms(2) by (auto simp: cycle_at_def delivers_def intro: order.trans)

lemma decided_up_to:
  assumes "cycle_at V t ds w" "length ds \<le> length (vw_events V w)"
  shows "length ds \<le> length (up_to t (vw_events V w))"
    and "drop (length ds) (up_to t (vw_events V w)) = up_to t (drop (length ds) (vw_events V w))"
proof -
  let ?n = "length ds" and ?es = "vw_events V w"
  have "up_to t (take ?n ?es) = take ?n ?es" using assms(1) by (simp add: cycle_at_def filter_id_conv)
  then have "up_to t (take ?n ?es @ drop ?n ?es) = take ?n ?es @ up_to t (drop ?n ?es)" by (simp only: filter_append)
  then have "up_to t ?es = take ?n ?es @ up_to t (drop ?n ?es)" by simp
  then show "?n \<le> length (up_to t ?es)" "drop ?n (up_to t ?es) = up_to t (drop ?n ?es)"
    using assms(2) by simp_all
qed

text \<open>A page read at the cursor is the next part of the stream.\<close>

lemma page_at_cursor:
  assumes "sorted_wrt (<) (map pe_position es)" "n \<le> length es"
    and "after = map_option pg_position (progress_at J (take n es))"
  shows "filter (\<lambda>e. within_bound after (Inclusive t) (pe_position e)) es = up_to t (drop n es)"
proof (cases "take n es = []")
  case True
  then have "after = None" "drop n es = es" using assms(3) by (auto simp: progress_at_def)
  then show ?thesis by (simp add: within_bound_def)
next
  case False
  let ?before = "take n es" and ?a = "pe_position (last (take n es))"
  have after: "after = Some ?a" using False assms(3) by (simp add: progress_at_def)
  have split: "sorted_wrt (<) (map pe_position (?before @ drop n es))" using assms(1) by simp
  have "\<forall>x \<in> set (drop n es). ?a < pe_position x"
    using split False unfolding map_append sorted_wrt_append by simp
  moreover have "\<not> ?a < pe_position x" if "x \<in> set ?before" for x
  proof -
    have b: "?before = butlast ?before @ [last ?before]" using False by simp
    have "sorted_wrt (<) (map pe_position ?before)" using split unfolding map_append sorted_wrt_append by blast
    then have "sorted_wrt (<) (map pe_position (butlast ?before @ [last ?before]))" by (subst b [symmetric])
    then have "\<forall>y \<in> set (butlast ?before). pe_position y < ?a" by (simp add: sorted_wrt_append)
    moreover have "x \<in> set (butlast ?before) \<or> x = last ?before" using that b by (metis in_set_conv_decomp rotate1.simps(2) set_ConsD set_rotate1)
    ultimately show ?thesis by auto
  qed
  ultimately have "filter (\<lambda>e. within_bound after (Inclusive t) (pe_position e)) (?before @ drop n es) = up_to t (drop n es)"
    unfolding filter_append by (auto simp: after within_bound_def filter_empty_conv intro!: filter_cong)
  then show ?thesis by simp
qed

end
