(* ===== verification/Transactional_Cycles.thy ===== *)
theory Transactional_Cycles
  imports Transactional_Pages
begin

text \<open>The loops of a run: what they leave, and that they end.\<close>

section \<open>Reading\<close>

lemma read_page_ends:
  assumes J: "job_laws V J" and run: "run_at V J old new s" and cycle: "cycle_at V t (old @ new) (rs_world s)"
  shows "ends (read_page J t)
    (\<lambda>es s'. run_at V J old new s' \<and> cycle_at V t (old @ new) (rs_world s') \<and> delivers V (rs_world s) (rs_world s')
       \<and> es = take (unat (tc_batch_size (jb_config J))) (drop (length (old @ new)) (up_to t (vw_events V (rs_world s')))))
    (\<lambda>err s'. error_leaves V J (old @ new) err (rs_world s')) s"
proof -
  let ?n = "length (old @ new)"
  let ?read = "src_read_envelopes (jb_source J) (tc_selection (jb_config J)) (rs_after s) (Inclusive t) (tc_batch_size (jb_config J))"
  have n: "?n \<le> length (vw_events V (rs_world s))" using run by (simp add: run_at_def handled_def)
  have q: "leaves_quiet V ?read" using job_parts(3) [OF J] by (simp add: source_laws_def)
  have page: "es = take (unat (tc_batch_size (jb_config J))) (drop ?n (up_to t (vw_events V w')))"
    if r: "?read (rs_world s) = (Inr es, w')" for es w'
  proof -
    have quiet: "quiet V (rs_world s) w'" using q r by (simp add: leaves_quiet_def) (metis snd_conv)
    note run' = run_at_quiet [OF run quiet]
    have n': "?n \<le> length (vw_events V w')" using run' by (simp add: run_at_def handled_def)
    have "es = delivery_page (vw_events V w') (rs_after s) (Inclusive t) (tc_batch_size (jb_config J))"
      using job_parts(3) [OF J] r unfolding source_laws_def by blast
    moreover have "rs_after s = map_option pg_position (progress_at J (take ?n (vw_events V w')))"
      using run' by (simp add: run_at_def)
    ultimately show ?thesis
      unfolding delivery_page_def page_at_cursor [OF events_ordered(1) [OF J] n' \<open>rs_after s = _\<close>]
      using decided_up_to(2) [OF cycle_at_grows [OF cycle quiet_grows [OF quiet] n] n'] by simp
  qed
  have "ends (\<lambda>w. ?read w) (\<lambda>es w'. quiet V (rs_world s) w'
      \<and> es = take (unat (tc_batch_size (jb_config J))) (drop ?n (up_to t (vw_events V w')))) (\<lambda>_. quiet V (rs_world s)) (rs_world s)"
    by (rule endsI) (use page q in \<open>auto simp: leaves_quiet_def\<close>, (metis snd_conv)+)
  then have "ends (on_world ?read) (\<lambda>es s'. quiet V (rs_world s) (rs_world s') \<and> s' = s\<lparr>rs_world := rs_world s'\<rparr>
      \<and> es = take (unat (tc_batch_size (jb_config J))) (drop ?n (up_to t (vw_events V (rs_world s')))))
      (\<lambda>_ s'. quiet V (rs_world s) (rs_world s')) s"
    by (simp add: ends_on_world)
  then have "ends (failing source_error (on_world ?read)) (\<lambda>es s'. run_at V J old new s' \<and> cycle_at V t (old @ new) (rs_world s')
       \<and> delivers V (rs_world s) (rs_world s')
       \<and> es = take (unat (tc_batch_size (jb_config J))) (drop ?n (up_to t (vw_events V (rs_world s')))))
      (\<lambda>err s'. error_leaves V J (old @ new) err (rs_world s')) s"
    unfolding ends_simps
  proof (rule ends_mono, goal_cases)
    case (1 es s')
    then show ?case using run_at_quiet [OF run, of "rs_world s'"] cycle_at_grows [OF cycle quiet_grows n, of "rs_world s'"]
      by (metis quiet_grows)
  next
    case (2 x s')
    have "handled V J (old @ new) (rs_world s')" by (rule handled_quiet [OF _ 2]) (use run in \<open>simp add: run_at_def\<close>)
    then show ?case by (simp add: error_leaves_def)
  qed
  then show ?thesis by (simp add: ends_def read_page_def)
qed

section \<open>The pages of a cycle\<close>

definition caught_up_to ::
  "('w, 'm) world_view \<Rightarrow> delivery_position \<Rightarrow> bool list \<Rightarrow> 'w \<Rightarrow> bool" where
  "caught_up_to V t ds w \<longleftrightarrow> take (length ds) (vw_events V w) = up_to t (vw_events V w)"

definition cycle_end ::
  "('w, 'm) world_view \<Rightarrow> ('w, 'pj, 'event, 'x, 'ac, 'f) projection_job \<Rightarrow> bool list \<Rightarrow> bool list
     \<Rightarrow> 'x transactional_projection_error + drain_cycle_outcome \<Rightarrow> ('pj, 'w) run_state \<Rightarrow> bool" where
  "cycle_end V J old new r s \<longleftrightarrow>
     (case r of
        Inl err \<Rightarrow> error_leaves V J (old @ new) err (rs_world s)
      | Inr (DrainCaughtUp None) \<Rightarrow> run_at V J old new s \<and> old @ new = []
      | Inr (DrainCaughtUp (Some t)) \<Rightarrow> run_at V J old new s \<and> cycle_at V t (old @ new) (rs_world s)
          \<and> caught_up_to V t (old @ new) (rs_world s)
      | Inr (DrainStopped p) \<Rightarrow> stopped_at V J old new p s)"

lemma drain_pages_step:
  assumes J: "job_laws V J" and batch: "0 < tc_batch_size (jb_config J)"
    and run: "run_at V J old new s" and cycle: "cycle_at V t (old @ new) (rs_world s)"
  shows "(\<exists>r s' new'. (\<forall>fuel. drain_pages (Suc fuel) J leader t s = Some (r, s')) \<and> cycle_end V J old (new @ new') r s')
    \<or> (\<exists>s' new'. (\<forall>fuel. drain_pages (Suc fuel) J leader t s = drain_pages fuel J leader t s') \<and> new' \<noteq> []
        \<and> run_at V J old (new @ new') s' \<and> cycle_at V t (old @ new @ new') (rs_world s') \<and> delivers V (rs_world s) (rs_world s'))"
proof (cases "read_page J t s")
  case (Pair r s1)
  let ?n = "length (old @ new)"
  note read = read_page_ends [OF J run cycle]
  show ?thesis
  proof (cases r)
    case (Inl err)
    then have "cycle_end V J old (new @ []) (Inl err) s1" using read Pair by (simp add: ends_def cycle_end_def)
    moreover have "\<forall>fuel. drain_pages (Suc fuel) J leader t s = Some (Inl err, s1)" using Pair Inl by simp
    ultimately show ?thesis by blast
  next
    case (Inr es)
    then have s1: "run_at V J old new s1" "cycle_at V t (old @ new) (rs_world s1)" "delivers V (rs_world s) (rs_world s1)"
      and es: "es = take (unat (tc_batch_size (jb_config J))) (drop ?n (up_to t (vw_events V (rs_world s1))))"
      using read Pair by (simp_all add: ends_def)
    let ?ev = "vw_events V (rs_world s1)"
    have n: "?n \<le> length ?ev" using s1(1) by (simp add: run_at_def handled_def)
    have up: "up_to t ?ev = take (length (up_to t ?ev)) ?ev" by (rule up_to_prefix [OF events_ordered(1) [OF J]])
    have pos: "0 < unat (tc_batch_size (jb_config J))" using batch by (simp add: unat_gt_0 word_gt_0)
    show ?thesis
    proof (cases "es = []")
      case True
      then have "length (up_to t ?ev) \<le> ?n" using es pos by simp
      then have "?n = length (up_to t ?ev)" using decided_up_to(1) [OF s1(2) n] by simp
      then have "caught_up_to V t (old @ new) (rs_world s1)" using up by (simp add: caught_up_to_def)
      then have "cycle_end V J old (new @ []) (Inr (DrainCaughtUp (Some t))) s1" using s1 by (simp add: cycle_end_def)
      moreover have "\<forall>fuel. drain_pages (Suc fuel) J leader t s = Some (Inr (DrainCaughtUp (Some t)), s1)"
        using Pair Inr True by simp
      ultimately show ?thesis by blast
    next
      case False
      have prefix: "take (length es) (drop ?n ?ev) = es"
        using arg_cong [OF up, of "drop ?n"] by (simp add: es drop_take min_def)
      obtain r2 s2 where page: "drain_page J leader es s1 = (r2, s2)" by fastforce
      note ended = drain_page_ends [OF J s1(1) prefix, of leader]
      have step: "drain_pages (Suc fuel) J leader t s = (case (r2, s2) of (Inl e, s) \<Rightarrow> Some (Inl e, s)
               | (Inr (Some position), s) \<Rightarrow> Some (Inr (DrainStopped position), s)
               | (Inr None, s) \<Rightarrow> drain_pages fuel J leader t s)" for fuel
        using Pair Inr False page by simp
      show ?thesis
      proof (cases r2)
        case (Inl err)
        then have "\<exists>new'. cycle_end V J old (new @ new') (Inl err) s2"
          using ended page by (auto simp: ends_def cycle_end_def)
        then show ?thesis using step Inl by auto
      next
        case (Inr stopped)
        then have end2: "page_end V J old new (length es) stopped s2" "delivers V (rs_world s1) (rs_world s2)"
          using ended page by (simp_all add: ends_def)
        show ?thesis
        proof (cases stopped)
          case None
          then obtain new' where new': "run_at V J old (new @ new') s2" "length new' = length es"
            using end2(1) by (auto simp: page_end_def)
          have g: "take (?n + length es) (vw_events V (rs_world s2)) = take (?n + length es) ?ev"
            by (rule take_prefix_grows [OF end2(2)]) (use arg_cong [OF prefix, of length] n in simp)
          have "take (?n + length es) ?ev = take ?n ?ev @ es" using prefix by (simp add: take_add)
          moreover have "set es \<subseteq> set (up_to t ?ev)"
            unfolding es by (rule order.trans [OF set_take_subset set_drop_subset])
          then have "\<forall>e \<in> set es. pe_position e \<le> t" by auto
          moreover have "length (old @ new @ new') = ?n + length es" using new'(2) by simp
          ultimately have "cycle_at V t (old @ new @ new') (rs_world s2)"
            using s1(2) g end2(2) unfolding cycle_at_def[of V t "old @ new @ new'"] by (fastforce simp only: cycle_at_def delivers_def set_append Un_iff intro: order.trans)
          moreover have "new' \<noteq> []" using new'(2) False by auto
          moreover have "\<forall>fuel. drain_pages (Suc fuel) J leader t s = drain_pages fuel J leader t s2"
            using step Inr None by simp
          ultimately show ?thesis using new'(1) delivers_trans [OF s1(3) end2(2)] by blast
        next
          case (Some p)
          then have "\<exists>new'. cycle_end V J old (new @ new') (Inr (DrainStopped p)) s2"
            using end2(1) by (auto simp: page_end_def cycle_end_def)
          then show ?thesis using step Inr Some by auto
        qed
      qed
    qed
  qed
qed

lemma drain_pages_end:
  assumes J: "job_laws V J" and batch: "0 < tc_batch_size (jb_config J)"
  shows "run_at V J old new s \<Longrightarrow> cycle_at V t (old @ new) (rs_world s) \<Longrightarrow> drain_pages fuel J leader t s = Some (r, s')
    \<Longrightarrow> \<exists>new'. cycle_end V J old (new @ new') r s'"
proof (induction fuel arbitrary: new s)
  case (Suc fuel)
  from drain_pages_step [OF J batch Suc.prems(1,2), of leader] show ?case
  proof (elim disjE exE conjE)
    fix s1 new1
    assume "\<forall>fuel. drain_pages (Suc fuel) J leader t s = drain_pages fuel J leader t s1"
      and "run_at V J old (new @ new1) s1" "cycle_at V t (old @ new @ new1) (rs_world s1)"
    then show ?thesis using Suc.IH [of "new @ new1" s1] Suc.prems(3) by auto
  qed (use Suc.prems(3) in auto)
qed simp

text \<open>Each page decides at least one of the finitely many events up to the mark.\<close>

lemma page_left: "n + k \<le> (m :: nat) \<Longrightarrow> 0 < k \<Longrightarrow> m - n < Suc fuel \<Longrightarrow> m - (n + k) < fuel"
  by arith

lemma drain_pages_returns:
  assumes J: "job_laws V J" and batch: "0 < tc_batch_size (jb_config J)"
  shows "run_at V J old new s \<Longrightarrow> cycle_at V t (old @ new) (rs_world s)
    \<Longrightarrow> length (up_to t (vw_events V (rs_world s))) - length (old @ new) < fuel
    \<Longrightarrow> \<exists>r s'. drain_pages fuel J leader t s = Some (r, s')"
proof (induction fuel arbitrary: new s)
  case (Suc fuel)
  from drain_pages_step [OF J batch Suc.prems(1,2), of leader] show ?case
  proof (elim disjE exE conjE)
    fix s1 new1
    assume step: "\<forall>fuel. drain_pages (Suc fuel) J leader t s = drain_pages fuel J leader t s1" and new1: "new1 \<noteq> []"
      and run: "run_at V J old (new @ new1) s1" and cycle: "cycle_at V t (old @ new @ new1) (rs_world s1)"
      and g: "delivers V (rs_world s) (rs_world s1)"
    have "up_to t (vw_events V (rs_world s1)) = up_to t (vw_events V (rs_world s))"
      using Suc.prems(2) up_to_grows [OF _ _ g, of _ t] by (auto simp: cycle_at_def)
    moreover have "length (old @ new @ new1) \<le> length (up_to t (vw_events V (rs_world s1)))"
      by (rule decided_up_to(1) [OF cycle]) (use run in \<open>simp add: run_at_def handled_def\<close>)
    moreover have "0 < length new1" using new1 by simp
    ultimately have "length (up_to t (vw_events V (rs_world s1))) - length (old @ new @ new1) < fuel"
      using Suc.prems(3) page_left [of "length (old @ new)" "length new1"] by (simp add: add.assoc)
    with Suc.IH [OF run] cycle step show ?thesis by simp
  qed auto
qed simp

end
