(* ===== verification/Transactional_Run.thy ===== *)
theory Transactional_Run
  imports Transactional_Cycles
begin

text \<open>Whole runs of a transactional projection.\<close>

section \<open>A cycle\<close>

lemma watermark_cases:
  assumes J: "job_laws V J" and run: "run_at V J old new s"
    and mark: "failing source_error (on_world (src_high_watermark (jb_source J))) s = (r, s1)"
  shows "(case r of Inl err \<Rightarrow> error_leaves V J (old @ new) err (rs_world s1)
    | Inr None \<Rightarrow> run_at V J old new s1 \<and> old @ new = []
    | Inr (Some t) \<Rightarrow> run_at V J old new s1 \<and> cycle_at V t (old @ new) (rs_world s1))"
proof -
  obtain r0 w1 where call: "src_high_watermark (jb_source J) (rs_world s) = (r0, w1)" by fastforce
  have S: "leaves_quiet V (src_high_watermark (jb_source J))"
    "\<And>w h w'. src_high_watermark (jb_source J) w = (Inr h, w') \<Longrightarrow> h = vw_frontier V w'"
    "\<And>w e. e \<in> set (vw_events V w) \<Longrightarrow> \<exists>h. vw_frontier V w = Some h \<and> pe_position e \<le> h"
    using job_parts(3) [OF J] unfolding source_laws_def by blast+
  have "quiet V (rs_world s) w1" using S(1) call by (metis leaves_quiet_def snd_conv)
  from run_at_quiet [OF run this] have s1: "run_at V J old new s1" and w1: "rs_world s1 = w1"
    using mark call by (auto simp: failing_def on_world_def split: sum.splits)
  show ?thesis
  proof (cases r0)
    case (Inl x)
    then show ?thesis using mark call s1 by (auto simp: failing_def on_world_def error_leaves_def run_at_def)
  next
    case (Inr mark')
    then have r: "r = Inr mark'" using mark call by (auto simp: failing_def on_world_def)
    have frontier: "mark' = vw_frontier V w1" using S(2) call Inr by blast
    show ?thesis
    proof (cases mark')
      case None
      then have "vw_events V w1 = []" using S(3) [of _ w1] frontier by (cases "vw_events V w1") auto
      then show ?thesis using r None s1 w1 by (auto simp: run_at_def handled_def)
    next
      case (Some t)
      have "\<forall>e \<in> set (vw_events V w1). pe_position e \<le> t" using S(3) frontier Some by fastforce
      then show ?thesis using r Some frontier s1 w1 by (auto simp: cycle_at_def dest: in_set_takeD)
    qed
  qed
qed

lemma drain_cycle_end:
  assumes J: "job_laws V J" and batch: "0 < tc_batch_size (jb_config J)"
    and run: "run_at V J old new s" and cycle: "drain_cycle fuel J leader s = Some (r, s')"
  shows "\<exists>new'. cycle_end V J old (new @ new') r s'"
proof (cases "failing source_error (on_world (src_high_watermark (jb_source J))) s")
  case (Pair m s1)
  note mark = watermark_cases [OF J run Pair]
  show ?thesis
  proof (cases m)
    case (Inl err)
    then have "cycle_end V J old (new @ []) r s'" using mark Pair cycle by (auto simp: drain_cycle_def cycle_end_def)
    then show ?thesis ..
  next
    case (Inr t)
    show ?thesis
    proof (cases t)
      case None
      then have "cycle_end V J old (new @ []) r s'" using mark Pair cycle Inr by (auto simp: drain_cycle_def cycle_end_def)
      then show ?thesis ..
    next
      case (Some p)
      then show ?thesis using mark Pair cycle Inr drain_pages_end [OF J batch, of old new s1 p fuel leader r s']
        by (simp add: drain_cycle_def)
    qed
  qed
qed

lemma drain_cycle_returns:
  assumes J: "job_laws V J" and batch: "0 < tc_batch_size (jb_config J)" and run: "run_at V J old new s"
  shows "\<exists>enough. \<forall>fuel \<ge> enough. \<exists>r s'. drain_cycle fuel J leader s = Some (r, s')"
proof (cases "failing source_error (on_world (src_high_watermark (jb_source J))) s")
  case (Pair m s1)
  note mark = watermark_cases [OF J run Pair]
  show ?thesis
  proof (cases m)
    case (Inr t)
    show ?thesis
    proof (cases t)
      case (Some p)
      let ?enough = "Suc (length (up_to p (vw_events V (rs_world s1))) - length (old @ new))"
      have "\<exists>r s'. drain_pages fuel J leader p s1 = Some (r, s')" if "?enough \<le> fuel" for fuel
        by (rule drain_pages_returns [OF J batch]) (use mark Inr Some that in auto)
      then show ?thesis using Pair Inr Some by (intro exI [of _ ?enough]) (simp add: drain_cycle_def)
    qed (use Pair Inr in \<open>simp add: drain_cycle_def\<close>)
  qed (use Pair in \<open>simp add: drain_cycle_def\<close>)
qed

section \<open>The ways out\<close>

text \<open>What a run leaves: what it decided, and what its outcome says of it.\<close>

definition run_leaves ::
  "('w, 'm) world_view \<Rightarrow> ('w, 'pj, 'event, 'x, 'ac, 'f) projection_job \<Rightarrow> bool list \<Rightarrow> bool list
     \<Rightarrow> 'x transactional_projection_error + projection_run_outcome \<Rightarrow> 'w \<Rightarrow> bool" where
  "run_leaves V J old new r w \<longleftrightarrow>
     (case r of
        Inl err \<Rightarrow> error_leaves V J (old @ new) err w
      | Inr (CaughtUp processed skipped through) \<Rightarrow>
          handled V J (old @ new) w \<and> processed = of_nat (count_list new True) \<and> skipped = of_nat (count_list new False)
          \<and> (case through of None \<Rightarrow> old @ new = [] | Some t \<Rightarrow> caught_up_to V t (old @ new) w)
      | Inr (Stopped p processed skipped) \<Rightarrow>
          handled V J (old @ new) w \<and> processed = of_nat (count_list new True) \<and> skipped = of_nat (count_list new False)
          \<and> (\<exists>e. p = pe_position e \<and> next_event V (old @ new) e w)
      | Inr (Cancelled processed skipped) \<Rightarrow>
          handled V J (old @ new) w \<and> processed = of_nat (count_list new True) \<and> skipped = of_nat (count_list new False))"

lemma caught_up_quiet:
  assumes "caught_up_to V t ds w" "cycle_at V t ds w" "delivers V w w'" "length ds \<le> length (vw_events V w)"
  shows "caught_up_to V t ds w'"
proof -
  obtain h where "vw_frontier V w = Some h" "t \<le> h" using assms(2) by (auto simp: cycle_at_def)
  from up_to_grows [OF this assms(3)] take_prefix_grows [OF assms(3,4)] show ?thesis
    using assms(1) by (simp add: caught_up_to_def)
qed

lemma release_quiet:
  assumes "database_laws V n D"
  shows "ends (release_leader D leader) (\<lambda>_. quiet V w) (\<lambda>_. quiet V w) w"
proof -
  have q: "quiet V w (snd (db_unlock D k w))" "quiet V w (db_drop D w)" "quiet V w (snd (db_close D w))" for k w
    using assms by (simp_all add: database_laws_def leaves_quiet_def)
  obtain r w1 where unlock: "db_unlock D (ld_lock_key leader) w = (r, w1)" by fastforce
  then have w1: "quiet V w w1" using q(1) [of w "ld_lock_key leader"] by simp
  obtain r2 w2 where close: "db_close D w1 = (r2, w2)" by fastforce
  have "quiet V w (db_drop D w1)" "quiet V w w2"
    using quiet_trans [OF w1 q(2)] quiet_trans [OF w1 q(3)] close by (metis snd_conv)+
  then show ?thesis using unlock close by (auto simp: ends_def release_leader_def failing_def split: sum.splits)
qed

lemma leave_ends:
  assumes J: "job_laws V J"
    and ok: "\<And>w'. quiet V (rs_world s) w' \<Longrightarrow> run_leaves V J old new (Inr outcome) w'"
    and fail: "handled V J (old @ new) (rs_world s)"
    and left: "leave (jb_database J) leader outcome s = (r, s')"
  shows "run_leaves V J old new r (rs_world s')"
proof -
  have "ends (leave (jb_database J) leader outcome) (\<lambda>o' s'. run_leaves V J old new (Inr o') (rs_world s'))
      (\<lambda>err s'. run_leaves V J old new (Inl err) (rs_world s')) s"
    unfolding leave_def ends_andthen ends_on_world
    by (rule ends_mono [OF release_quiet [OF job_parts(1) [OF J]]])
       (use ok handled_quiet [OF fail] in \<open>simp_all add: run_leaves_def error_leaves_def\<close>)
  then show ?thesis using left by (cases r) (simp_all add: ends_def)
qed

lemma drop_leader_leaves:
  assumes J: "job_laws V J" and "error_leaves V J ds err w"
  shows "error_leaves V J ds err (db_drop (jb_database J) w)"
proof -
  have "quiet V w (db_drop (jb_database J) w)" using job_parts(1) [OF J] by (simp add: database_laws_def)
  then have "handled V J ds' w \<Longrightarrow> handled V J ds' (db_drop (jb_database J) w)" for ds'
    by (rule handled_quiet [rotated])
  then show ?thesis using assms(2) unfolding error_leaves_def by blast
qed

lemma run_cycles_leaves:
  assumes J: "job_laws V J" and batch: "0 < tc_batch_size (jb_config J)"
  shows "run_at V J old new s \<Longrightarrow> run_cycles cycles fuel J leader s = Some (r, s')
    \<Longrightarrow> \<exists>new'. run_leaves V J old (new @ new') r (rs_world s')"
proof (induction cycles arbitrary: new s)
  case (Suc cycles)
  let ?D = "jb_database J"
  obtain c s1 where cycle: "drain_cycle fuel J leader s = Some (c, s1)"
    using Suc.prems(2) by (cases "drain_cycle fuel J leader s") auto
  from drain_cycle_end [OF J batch Suc.prems(1) cycle] obtain new1 where ended: "cycle_end V J old (new @ new1) c s1" by blast
  let ?new = "new @ new1"
  show ?case
  proof (cases c)
    case (Inl err)
    then have "error_leaves V J (old @ ?new) err (rs_world s1)" using ended by (simp add: cycle_end_def)
    note left = drop_leader_leaves [OF J this]
    have "Some (r, s') = Some (Inl err, dropping_leader ?D s1)" using Suc.prems(2) cycle Inl by simp
    then have "r = Inl err" "rs_world s' = db_drop ?D (rs_world s1)" by (simp_all add: dropping_leader_def)
    then have "run_leaves V J old ?new r (rs_world s')" using left by (simp add: run_leaves_def)
    then show ?thesis ..
  next
    case (Inr outcome)
    show ?thesis
    proof (cases outcome)
      case (DrainStopped p)
      then have stop: "stopped_at V J old ?new p s1" using ended Inr by (simp add: cycle_end_def)
      have "run_leaves V J old ?new r (rs_world s')"
      proof (rule leave_ends [OF J])
        show "leave ?D leader (Stopped p (rs_processed s1) (rs_skipped s1)) s1 = (r, s')"
          using Suc.prems(2) cycle Inr DrainStopped by simp
        show "handled V J (old @ ?new) (rs_world s1)" using stop by (auto simp: stopped_at_def ready_at_def)
        show "run_leaves V J old ?new (Inr (Stopped p (rs_processed s1) (rs_skipped s1))) w'" if q: "quiet V (rs_world s1) w'" for w'
        proof -
          obtain e where "p = pe_position e" "ready_at V J (old @ ?new) e w'"
            using stop ready_quiet [OF _ q] by (auto simp: stopped_at_def)
          then show ?thesis using stop by (auto simp: stopped_at_def run_leaves_def counted_def ready_at_def)
        qed
      qed
      then show ?thesis ..
    next
      case (DrainCaughtUp through)
      then have run: "run_at V J old ?new s1" using ended Inr by (auto simp: cycle_end_def split: option.splits)
      then have h: "handled V J (old @ ?new) (rs_world s1)" and n: "length (old @ ?new) \<le> length (vw_events V (rs_world s1))"
        and counts: "rs_processed s1 = of_nat (count_list ?new True)" "rs_skipped s1 = of_nat (count_list ?new False)"
        by (simp_all add: run_at_def handled_def counted_def)
      show ?thesis
      proof (cases "tc_mode (jb_config J)")
        case BatchMode
        have "run_leaves V J old ?new r (rs_world s')"
        proof (rule leave_ends [OF J _ h])
          show "leave ?D leader (CaughtUp (rs_processed s1) (rs_skipped s1) through) s1 = (r, s')"
            using Suc.prems(2) cycle Inr DrainCaughtUp BatchMode by simp
          show "run_leaves V J old ?new (Inr (CaughtUp (rs_processed s1) (rs_skipped s1) through)) w'"
            if "quiet V (rs_world s1) w'" for w'
          proof (cases through)
            case None
            then show ?thesis using ended Inr DrainCaughtUp handled_quiet [OF h that] counts
              by (simp add: cycle_end_def run_leaves_def)
          next
            case (Some t)
            then have "caught_up_to V t (old @ ?new) w'"
              using ended Inr DrainCaughtUp n by (intro caught_up_quiet [OF _ _ quiet_grows [OF that]]) (simp_all add: cycle_end_def)
            then show ?thesis using Some handled_quiet [OF h that] counts by (simp add: run_leaves_def)
          qed
        qed
        then show ?thesis ..
      next
        case ContinuousMode
        obtain cancelled w2 where idle: "tm_idle (jb_timers J) (tc_continuous_poll_interval (jb_config J)) (rs_world s1) = (cancelled, w2)"
          by fastforce
        then have q: "quiet V (rs_world s1) w2" using job_parts(4) [OF J] by (metis timer_laws_def snd_conv)
        let ?s2 = "s1\<lparr>rs_world := w2\<rparr>"
        have run2: "run_at V J old ?new ?s2" by (rule run_at_quiet [OF run q])
        show ?thesis
        proof (cases cancelled)
          case True
          have "run_leaves V J old ?new r (rs_world s')"
          proof (rule leave_ends [OF J])
            show "leave ?D leader (Cancelled (rs_processed ?s2) (rs_skipped ?s2)) ?s2 = (r, s')"
              using Suc.prems(2) cycle Inr DrainCaughtUp ContinuousMode idle True by simp
            show "handled V J (old @ ?new) (rs_world ?s2)" using run2 by (simp add: run_at_def)
            show "run_leaves V J old ?new (Inr (Cancelled (rs_processed ?s2) (rs_skipped ?s2))) w'" if "quiet V (rs_world ?s2) w'" for w'
              using handled_quiet [OF h quiet_trans [OF q]] that counts by (simp add: run_leaves_def)
          qed
          then show ?thesis ..
        next
          case False
          then have "run_cycles cycles fuel J leader ?s2 = Some (r, s')"
            using Suc.prems(2) cycle Inr DrainCaughtUp ContinuousMode idle by simp
          from Suc.IH [OF run2 this] show ?thesis by auto
        qed
      qed
    qed
  qed
qed simp

section \<open>A run\<close>

lemma load_validated_ends:
  assumes J: "job_laws V J" and h: "handled V J old w"
  shows "ends (load_validated_progress (jb_database J) leader (tp_name (jb_projector J)) (src_id (jb_source J))
      (sel_id (tc_selection (jb_config J))))
    (\<lambda>after w'. handled V J old w'
       \<and> after = map_option pg_position (progress_at J (take (length old) (vw_events V w')))) (\<lambda>_. handled V J old) w"
proof -
  let ?D = "jb_database J"
  note db = job_parts(1) [OF J]
  have load: "ends (or_rollback ?D (load_progress ?D (tp_name (jb_projector J))))
      (\<lambda>pr w'. quiet V w1 w' \<and> pr = progress_at J (take (length old) (vw_events V w1))) (\<lambda>_. quiet V w1) w1"
    if "handled V J old w1" "vw_tx_row V w1 = vw_row V w1" for w1
  proof (rule or_rollback_quiet [OF db])
    have "vw_tx_row V w1 = progress_row_at J (take (length old) (vw_events V w1))" using that by (simp add: handled_def)
    from load_progress_row [OF J this ballI [OF bspec [OF events_ordered(2) [OF J] in_set_takeD]]]
    show "ends (load_progress ?D (tp_name (jb_projector J)))
      (\<lambda>pr w'. quiet V w1 w' \<and> pr = progress_at J (take (length old) (vw_events V w1))) (\<lambda>_. quiet V w1) w1"
      by (rule ends_mono) simp_all
  qed
  have check: "(case progress_at J es of None \<Rightarrow> Inr ()
      | Some pr \<Rightarrow> validate_progress (tp_name (jb_projector J)) (src_id (jb_source J)) (sel_id (tc_selection (jb_config J))) pr) = Inr ()" for es
    by (simp add: progress_at_def validate_progress_def)
  have checked: "ends (or_rollback ?D (try_result (Inr ()))) (\<lambda>_ w'. w' = w2) (\<lambda>_ _. False) w2" for w2
    by (simp add: ends_def or_rollback_def try_result_def)
  show ?thesis
    unfolding load_validated_progress_def ends_andthen
  proof (rule ends_mono [OF begin_open [OF db]], goal_cases)
    case (1 u w1)
    have h1: "handled V J old w1" using handled_quiet [OF h] 1 by blast
    show ?case
    proof (rule ends_mono [OF load [OF h1]], goal_cases)
      case (2 pr w2)
      then have q2: "quiet V w1 w2" and pr: "pr = progress_at J (take (length old) (vw_events V w1))" by simp_all
      show ?case unfolding pr check
      proof (rule ends_mono [OF checked], goal_cases)
        case (1 u w3)
        have same: "take (length old) (vw_events V w') = take (length old) (vw_events V w1)" if "quiet V w1 w'" for w'
          by (rule take_prefix_grows [OF quiet_grows [OF that]]) (use h1 in \<open>simp add: handled_def\<close>)
        show ?case unfolding 1
        proof (rule ends_mono [OF rollback_quiet [OF db]], goal_cases)
          case (1 u w4)
          have "quiet V w1 w4" by (rule quiet_trans [OF q2 1])
          then show ?case using handled_quiet [OF h1, of w4] same [of w4] by simp
        next
          case (2 err w4)
          have "quiet V w1 w4" by (rule quiet_trans [OF q2 2])
          then show ?case by (rule handled_quiet [OF h1])
        qed
      qed simp
    qed (use 1 handled_quiet [OF h1] in simp_all)
  qed (use handled_quiet [OF h] in simp)
qed

lemma acquire_quiet:
  assumes "database_laws V n D"
  shows "ends (acquire_leader D name) (\<lambda>_. quiet V w) (\<lambda>_. quiet V w) w"
proof -
  have q: "quiet V w (snd (db_acquire D w))" "quiet V w (snd (db_try_lock D k w))" "quiet V w (db_drop D w)"
    "quiet V w (snd (db_close D w))" for k w
    using assms by (simp_all add: database_laws_def leaves_quiet_def)
  obtain r1 w1 where acquire: "db_acquire D w = (r1, w1)" by fastforce
  obtain r2 w2 where lock: "db_try_lock D (projection_lock_key name) w1 = (r2, w2)" by fastforce
  have w1: "quiet V w w1" and w2: "quiet V w1 w2" using q(1) [of w] q(2) [of w1] acquire lock by (metis snd_conv)+
  have both: "quiet V w w2" by (rule quiet_trans [OF w1 w2])
  have "quiet V w (db_drop D w2)" "quiet V w (snd (db_close D w2))"
    by (rule quiet_trans [OF both q(3)], rule quiet_trans [OF both q(4)])
  then show ?thesis using acquire lock w1 both
    by (auto simp: ends_def acquire_leader_def andthen_def failing_def split: sum.splits)
qed

lemma run_with_leader_leaves:
  assumes J: "job_laws V J" and batch: "0 < tc_batch_size (jb_config J)" and h: "handled V J old w"
    and run: "run_with_leader cycles fuel J leader pj w = Some (r, s')"
  shows "\<exists>new. run_leaves V J old new r (rs_world s')"
proof -
  obtain after w1 where load: "load_validated_progress (jb_database J) leader (tp_name (jb_projector J)) (src_id (jb_source J))
      (sel_id (tc_selection (jb_config J))) w = (after, w1)" by fastforce
  note loaded = load_validated_ends [OF J h, of leader, unfolded ends_def load]
  show ?thesis
  proof (cases after)
    case (Inl err)
    then have "error_leaves V J (old @ []) err w1" using loaded by (simp add: error_leaves_def)
    from drop_leader_leaves [OF J this] show ?thesis
      using run load Inl by (auto simp: run_with_leader_def dropping_leader_def run_leaves_def intro!: exI [of _ "[]"])
  next
    case (Inr a)
    let ?s = "\<lparr>rs_projector = pj, rs_world = w1, rs_after = a, rs_processed = 0, rs_skipped = 0\<rparr>"
    have "run_at V J old [] ?s" using loaded Inr by (simp add: run_at_def counted_def)
    from run_cycles_leaves [OF J batch this] show ?thesis using run load Inr by (auto simp: run_with_leader_def)
  qed
qed

theorem transactional_run_leaves:
  assumes J: "job_laws V J" and batch: "0 < tc_batch_size (jb_config J)" and h: "handled V J old w"
    and run: "run_transactional_projection cycles fuel J pj w = Some (r, w')"
  shows "\<exists>new. run_leaves V J old new r w'"
proof -
  obtain l w1 where acquired: "acquire_leader (jb_database J) (tp_name (jb_projector J)) w = (l, w1)" by fastforce
  then have "quiet V w w1" using acquire_quiet [OF job_parts(1) [OF J], of "tp_name (jb_projector J)" w]
    by (cases l) (simp_all add: ends_def)
  then have h1: "handled V J old w1" by (rule handled_quiet [OF h])
  show ?thesis
  proof (cases l)
    case (Inl err)
    then have "run_leaves V J old [] r w'" using run acquired h1
      by (auto simp: run_transactional_projection_def run_leaves_def error_leaves_def)
    then show ?thesis ..
  next
    case (Inr leader)
    then obtain s' where "run_with_leader cycles fuel J leader pj w1 = Some (r, s')" "w' = rs_world s'"
      using run acquired by (auto simp: run_transactional_projection_def)
    then show ?thesis using run_with_leader_leaves [OF J batch h1] by blast
  qed
qed

theorem batch_run_returns:
  assumes J: "job_laws V J" and batch: "0 < tc_batch_size (jb_config J)" and h: "handled V J old w"
    and mode: "tc_mode (jb_config J) = BatchMode"
  shows "\<exists>enough. \<forall>fuel \<ge> enough. run_transactional_projection 1 fuel J pj w \<noteq> None"
proof -
  obtain l w1 where acquired: "acquire_leader (jb_database J) (tp_name (jb_projector J)) w = (l, w1)" by fastforce
  then have "quiet V w w1" using acquire_quiet [OF job_parts(1) [OF J], of "tp_name (jb_projector J)" w]
    by (cases l) (simp_all add: ends_def)
  then have h1: "handled V J old w1" by (rule handled_quiet [OF h])
  show ?thesis
  proof (cases l)
    case (Inl err)
    then show ?thesis using acquired by (simp add: run_transactional_projection_def)
  next
    case (Inr leader)
    obtain after w2 where load: "load_validated_progress (jb_database J) leader (tp_name (jb_projector J))
      (src_id (jb_source J)) (sel_id (tc_selection (jb_config J))) w1 = (after, w2)" by fastforce
    note loaded = load_validated_ends [OF J h1, of leader, unfolded ends_def load]
    show ?thesis
    proof (cases after)
      case (Inl err)
      then show ?thesis using acquired Inr load by (simp add: run_transactional_projection_def run_with_leader_def)
    next
      case (Inr a)
      let ?s = "\<lparr>rs_projector = pj, rs_world = w2, rs_after = a, rs_processed = 0, rs_skipped = 0\<rparr>"
      have "run_at V J old [] ?s" using loaded Inr by (simp add: run_at_def counted_def)
      from drain_cycle_returns [OF J batch this, of leader] obtain enough where
        enough: "\<forall>fuel \<ge> enough. \<exists>r s'. drain_cycle fuel J leader ?s = Some (r, s')" by blast
      have "run_with_leader 1 fuel J leader pj w1 \<noteq> None" if cycle: "drain_cycle fuel J leader ?s = Some (r, s')" for fuel r s'
      proof -
        have "run_cycles 1 fuel J leader ?s \<noteq> None" using cycle mode
          by (cases r) (simp_all add: Let_def split: drain_cycle_outcome.split)
        then show ?thesis using load Inr by (simp add: run_with_leader_def)
      qed
      then have "run_with_leader 1 fuel J leader pj w1 \<noteq> None" if "enough \<le> fuel" for fuel
        using enough that by blast
      then show ?thesis using acquired \<open>l = Inr leader\<close>
        by (intro exI [of _ enough]) (simp add: run_transactional_projection_def)
    qed
  qed
qed

end
