(* ===== verification/Transactional_Reset.thy ===== *)
theory Transactional_Reset
  imports Transactional_Run
begin

text \<open>Resets, progress of another projection, and histories of runs and resets.\<close>

section \<open>Progress of another source or selection\<close>

text \<open>The row names another source or selection, or cannot be read.\<close>

definition foreign_row :: "('w, 'pj, 'event, 'x, 'ac, 'f) projection_job \<Rightarrow> progress_row \<Rightarrow> bool" where
  "foreign_row J row \<longleftrightarrow>
     (case progress_from_row row :: 'x transactional_projection_error + projection_progress of
        Inl _ \<Rightarrow> True
      | Inr pr \<Rightarrow> pg_source_id pr \<noteq> src_id (jb_source J) \<or> pg_selection_id pr \<noteq> sel_id (tc_selection (jb_config J)))"

lemma foreign_load_fails:
  assumes J: "job_laws V J" and row: "vw_row V w = Some row" "foreign_row J row"
  shows "ends (load_validated_progress (jb_database J) leader (tp_name (jb_projector J)) (src_id (jb_source J))
      (sel_id (tc_selection (jb_config J)))) (\<lambda>_ _. False) (\<lambda>_. quiet V w) w"
proof -
  let ?D = "jb_database J" and ?n = "projector_text (tp_name (jb_projector J))"
  note db = job_parts(1) [OF J]
  have read: "ends (load_progress ?D (tp_name (jb_projector J)))
      (\<lambda>pr w'. quiet V w1 w' \<and> (\<exists>p. pr = Some p \<and> (pg_source_id p \<noteq> src_id (jb_source J)
         \<or> pg_selection_id p \<noteq> sel_id (tc_selection (jb_config J))))) (\<lambda>_. quiet V w1) w1"
    if "vw_tx_row V w1 = Some row" for w1
  proof -
    have q: "leaves_quiet V (db_select ?D ?n)"
      and sel: "db_select ?D ?n w1 = (Inr r, w') \<Longrightarrow> r = vw_tx_row V w1" for r w'
      using db by (auto simp: database_laws_def)
    have "ends (db_select ?D ?n) (\<lambda>r w'. r = Some row \<and> quiet V w1 w') (\<lambda>_. quiet V w1) w1"
      by (rule endsI) (use q sel that in \<open>auto simp: leaves_quiet_def dest: arg_cong [of _ _ snd]\<close>, (metis snd_conv)+)
    then show ?thesis using row(2)
      by (auto simp: load_progress_def foreign_row_def elim!: ends_mono split: sum.splits)
  qed
  show ?thesis
    unfolding load_validated_progress_def ends_andthen
  proof (rule ends_mono [OF begin_open [OF db]], goal_cases)
    case (1 u w1)
    then have tx: "vw_tx_row V w1 = Some row" and q1: "quiet V w w1" using row(1) by (simp_all add: quiet_def)
    show ?case
    proof (rule ends_mono [OF or_rollback_quiet [OF db read [OF tx]]], goal_cases)
      case (1 pr w2)
      have "ends (or_rollback ?D (try_result (case pr of None \<Rightarrow> Inr ()
          | Some pr \<Rightarrow> validate_progress (tp_name (jb_projector J)) (src_id (jb_source J)) (sel_id (tc_selection (jb_config J))) pr)))
        (\<lambda>_ _. False) (\<lambda>_. quiet V w2) w2"
        by (rule or_rollback_quiet [OF db]) (use 1 in \<open>auto simp: validate_progress_def\<close>)
      then show ?case
        by (rule ends_mono) (use quiet_trans [OF q1 quiet_trans] 1 in blast)+
    qed (rule quiet_trans [OF q1])
  qed
qed

theorem foreign_progress_refused:
  assumes J: "job_laws V J" and row: "vw_row V w = Some row" "foreign_row J row"
    and run: "run_transactional_projection cycles fuel J pj w = Some (r, w')"
  shows "(\<exists>err. r = Inl err) \<and> vw_model V w' = vw_model V w \<and> vw_row V w' = Some row"
proof -
  obtain l w1 where acquired: "acquire_leader (jb_database J) (tp_name (jb_projector J)) w = (l, w1)" by fastforce
  then have q1: "quiet V w w1" using acquire_quiet [OF job_parts(1) [OF J], of "tp_name (jb_projector J)" w]
    by (cases l) (simp_all add: ends_def)
  have "(\<exists>err. r = Inl err) \<and> quiet V w w'"
  proof (cases l)
    case (Inl err)
    then show ?thesis using run acquired q1 by (auto simp: run_transactional_projection_def)
  next
    case (Inr leader)
    obtain after w2 where load: "load_validated_progress (jb_database J) leader (tp_name (jb_projector J)) (src_id (jb_source J))
      (sel_id (tc_selection (jb_config J))) w1 = (after, w2)" by fastforce
    have "vw_row V w1 = Some row" using q1 row(1) by (simp add: quiet_def)
    from foreign_load_fails [OF J this row(2), of leader, unfolded ends_def load]
    obtain err where err: "after = Inl err" and q2: "quiet V w1 w2" by (cases after) simp_all
    have "quiet V w2 (db_drop (jb_database J) w2)" using job_parts(1) [OF J] by (simp add: database_laws_def)
    from quiet_trans [OF q1 quiet_trans [OF q2 this]] show ?thesis
      using run acquired Inr load err
      by (auto simp: run_transactional_projection_def run_with_leader_def dropping_leader_def)
  qed
  then show ?thesis using row(1) by (simp add: quiet_def)
qed

section \<open>Reset\<close>

text \<open>
  The application's callback restores the model of the start within the transaction, and the deletion of the
  progress row is part of it.
\<close>

definition reset_laws ::
  "('w, 'm) world_view \<Rightarrow> projector_name \<Rightarrow> ('w, 'x) projection_database \<Rightarrow> ('w, 'x, unit) action \<Rightarrow> bool" where
  "reset_laws V n D reset \<longleftrightarrow>
     leaves_quiet V reset \<and> leaves_quiet V (db_delete D (projector_text n))
   \<and> (\<forall>w u w'. reset w = (Inr u, w') \<longrightarrow> vw_tx_model V w' = vw_start V)
   \<and> (\<forall>w u w'. db_delete D (projector_text n) w = (Inr u, w') \<longrightarrow> vw_tx_model V w' = vw_tx_model V w \<and> vw_tx_row V w' = None)"

lemma reset_rollback_quiet:
  assumes "database_laws V n D" "ends m Q (\<lambda>_. quiet V w0) w"
  shows "ends (reset_rollback D m) Q (\<lambda>_. quiet V w0) w"
proof -
  have q: "quiet V w' (snd (db_rollback D w'))" for w' using assms(1) by (simp add: database_laws_def leaves_quiet_def)
  obtain r w1 where m: "m w = (r, w1)" by fastforce
  obtain r2 w2 where roll: "db_rollback D w1 = (r2, w2)" by fastforce
  have "quiet V w1 w2" using q [of w1] roll by simp
  then show ?thesis
    using assms(2) m roll quiet_trans [of V w0 w1 w2] by (cases r; cases r2) (simp_all add: ends_def reset_rollback_def)
qed

definition reset_leaves ::
  "('w, 'm) world_view \<Rightarrow> ('w, 'pj, 'event, 'x, 'ac, 'f) projection_job \<Rightarrow> bool list
     \<Rightarrow> 'x projection_reset_error + unit \<Rightarrow> 'w \<Rightarrow> bool" where
  "reset_leaves V J old r w \<longleftrightarrow>
     (case r of
        Inr _ \<Rightarrow> handled V J [] w
      | Inl err \<Rightarrow> handled V J old w
          \<or> (\<exists>x. err = ResetCommitIndeterminate x \<or> err = ResetLeadershipLost x) \<and> handled V J [] w)"

lemma reset_with_leader_ends:
  assumes J: "job_laws V J" and R: "reset_laws V (tp_name (jb_projector J)) (jb_database J) reset" and h: "handled V J old w"
  shows "ends (reset_with_leader box (jb_database J) reset (tp_name (jb_projector J)) (src_id (jb_source J))
      (sel_id (tc_selection (jb_config J))) leader)
    (\<lambda>u. reset_leaves V J old (Inr u)) (\<lambda>err. reset_leaves V J old (Inl err)) w"
proof -
  let ?D = "jb_database J" and ?n = "tp_name (jb_projector J)"
  note db = job_parts(1) [OF J]
  have keep: "reset_leaves V J old (Inl err) w'" if "quiet V w w'" for err w'
    using handled_quiet [OF h that] by (simp add: reset_leaves_def)
  have load: "ends (reset_rollback ?D (failing (map_progress_error box) (load_progress ?D ?n)))
      (\<lambda>pr w'. quiet V w w' \<and> pr = progress_at J (take (length old) (vw_events V w1))) (\<lambda>_. quiet V w) w1"
    if q: "quiet V w w1" and tx: "vw_tx_row V w1 = vw_row V w1" for w1
  proof (rule reset_rollback_quiet [OF db])
    have "vw_tx_row V w1 = progress_row_at J (take (length old) (vw_events V w1))"
      using tx handled_quiet [OF h q] by (simp add: handled_def)
    from load_progress_row [OF J this ballI [OF bspec [OF events_ordered(2) [OF J] in_set_takeD]]]
    have "ends (load_progress ?D ?n) (\<lambda>pr w'. quiet V w w' \<and> pr = progress_at J (take (length old) (vw_events V w1)))
        (\<lambda>_. quiet V w) w1"
      by (rule ends_mono) (simp_all add: quiet_trans [OF q])
    then show "ends (failing (map_progress_error box) (load_progress ?D ?n))
      (\<lambda>pr w'. quiet V w w' \<and> pr = progress_at J (take (length old) (vw_events V w1))) (\<lambda>_. quiet V w) w1" by simp
  qed
  have check: "(case progress_at J es of None \<Rightarrow> Inr ()
      | Some pr \<Rightarrow> if pg_source_id pr \<noteq> src_id (jb_source J)
           then Inl (ResetSourceIdentityMismatch ?n (pg_source_id pr) (src_id (jb_source J)))
           else if pg_selection_id pr \<noteq> sel_id (tc_selection (jb_config J))
           then Inl (ResetSelectionIdentityMismatch ?n (pg_selection_id pr) (sel_id (tc_selection (jb_config J))))
           else Inr ()) = Inr ()" for es
    by (simp add: progress_at_def)
  have checked: "ends (reset_rollback ?D (try_result (Inr ()))) (\<lambda>_ w'. w' = w2) (\<lambda>_ _. False) w2" for w2
    by (simp add: ends_def reset_rollback_def try_result_def)
  have callback: "ends (reset_rollback ?D (failing (\<lambda>x. ResetCallback (Boxed x)) reset))
      (\<lambda>_ w'. quiet V w w' \<and> vw_tx_model V w' = vw_start V) (\<lambda>_. quiet V w) w2" if q: "quiet V w w2" for w2
  proof (rule reset_rollback_quiet [OF db])
    have "ends reset (\<lambda>_ w'. quiet V w w' \<and> vw_tx_model V w' = vw_start V) (\<lambda>_. quiet V w) w2"
    proof (rule endsI)
      fix u w' assume "reset w2 = (Inr u, w')"
      then show "quiet V w w' \<and> vw_tx_model V w' = vw_start V"
        using R quiet_trans [OF q] unfolding reset_laws_def leaves_quiet_def by (metis snd_conv)
    next
      fix x w' assume "reset w2 = (Inl x, w')"
      then show "quiet V w w'" using R quiet_trans [OF q] unfolding reset_laws_def leaves_quiet_def by (metis snd_conv)
    qed
    then show "ends (failing (\<lambda>x. ResetCallback (Boxed x)) reset) (\<lambda>_ w'. quiet V w w' \<and> vw_tx_model V w' = vw_start V)
      (\<lambda>_. quiet V w) w2" by simp
  qed
  have delete: "ends (reset_rollback ?D (failing (map_progress_error box) (delete_progress ?D ?n)))
      (\<lambda>_ w'. quiet V w w' \<and> vw_tx_model V w' = vw_start V \<and> vw_tx_row V w' = None) (\<lambda>_. quiet V w) w3"
    if q: "quiet V w w3" and m: "vw_tx_model V w3 = vw_start V" for w3
  proof (rule reset_rollback_quiet [OF db])
    have "ends (db_delete ?D (projector_text ?n))
      (\<lambda>_ w'. quiet V w w' \<and> vw_tx_model V w' = vw_start V \<and> vw_tx_row V w' = None) (\<lambda>_. quiet V w) w3"
    proof (rule endsI)
      fix u w' assume "db_delete ?D (projector_text ?n) w3 = (Inr u, w')"
      then show "quiet V w w' \<and> vw_tx_model V w' = vw_start V \<and> vw_tx_row V w' = None"
        using R m quiet_trans [OF q] unfolding reset_laws_def leaves_quiet_def by (metis snd_conv)
    next
      fix x w' assume "db_delete ?D (projector_text ?n) w3 = (Inl x, w')"
      then show "quiet V w w'" using R quiet_trans [OF q] unfolding reset_laws_def leaves_quiet_def by (metis snd_conv)
    qed
    then show "ends (failing (map_progress_error box) (delete_progress ?D ?n))
      (\<lambda>_ w'. quiet V w w' \<and> vw_tx_model V w' = vw_start V \<and> vw_tx_row V w' = None) (\<lambda>_. quiet V w) w3"
      by (simp add: delete_progress_def)
  qed
  have commit: "ends (db_commit ?D) (\<lambda>u. reset_leaves V J old (Inr u))
      (\<lambda>x. reset_leaves V J old (Inl (ResetCommitIndeterminate (Boxed x)))) w4"
    if q: "quiet V w w4" and tx: "vw_tx_model V w4 = vw_start V" "vw_tx_row V w4 = None" for w4
  proof -
    have new: "handled V J [] w'" if "vw_model V w' = vw_tx_model V w4" "vw_row V w' = vw_tx_row V w4" for w'
      using that tx by (simp add: handled_def decided_def progress_row_at_def)
    show ?thesis
    proof (rule endsI)
      fix u w' assume "db_commit ?D w4 = (Inr u, w')"
      then show "reset_leaves V J old (Inr u) w'" using new db by (simp add: database_laws_def reset_leaves_def)
    next
      fix x w' assume "db_commit ?D w4 = (Inl x, w')"
      then have "delivers V w4 w'" "vw_model V w' = vw_tx_model V w4 \<and> vw_row V w' = vw_tx_row V w4
          \<or> vw_model V w' = vw_model V w4 \<and> vw_row V w' = vw_row V w4"
        using db unfolding database_laws_def by blast+
      then have "handled V J [] w' \<or> quiet V w4 w'" using new by (auto simp: quiet_def)
      then show "reset_leaves V J old (Inl (ResetCommitIndeterminate (Boxed x))) w'"
        using keep [OF quiet_trans [OF q]] by (auto simp: reset_leaves_def)
    qed
  qed
  show ?thesis
    unfolding reset_with_leader_def ends_andthen ends_simps
  proof (rule ends_mono [OF begin_open [OF db]], goal_cases)
    case (1 u w1)
    then have q1: "quiet V w w1" and tx1: "vw_tx_row V w1 = vw_row V w1" by simp_all
    show ?case
    proof (rule ends_mono [OF load [OF q1 tx1]], goal_cases)
      case (1 pr w2)
      then have q2: "quiet V w w2" and pr: "pr = progress_at J (take (length old) (vw_events V w1))" by simp_all
      show ?case unfolding pr check
      proof (rule ends_mono [OF checked], goal_cases)
        case (1 u w')
        show ?case unfolding 1
        proof (rule ends_mono [OF callback [OF q2]], goal_cases)
          case (1 u w3)
          then have c3: "quiet V w w3" "vw_tx_model V w3 = vw_start V" by simp_all
          show ?case
            by (rule ends_mono [OF delete [OF c3]]) (use commit keep in blast)+
        qed (rule keep)
      qed simp
    qed (rule keep)
  qed (rule keep)
qed

lemma release_failure:
  "release_leader D leader w = (Inl err, w') \<Longrightarrow> \<exists>b. err = LeadershipLost b"
  by (auto simp: release_leader_def failing_def leadership_error_def split: if_splits prod.splits sum.splits)

theorem reset_run_leaves:
  assumes J: "job_laws V J" and R: "reset_laws V (tp_name (jb_projector J)) (jb_database J) reset" and h: "handled V J old w"
    and run: "reset_transactional_projection box (jb_database J) reset (tp_name (jb_projector J)) (src_id (jb_source J))
      (sel_id (tc_selection (jb_config J))) w = (r, w')"
  shows "reset_leaves V J old r w'"
proof -
  let ?D = "jb_database J" and ?n = "tp_name (jb_projector J)"
  note db = job_parts(1) [OF J]
  obtain l w1 where acquired: "acquire_leader ?D ?n w = (l, w1)" by fastforce
  then have q1: "quiet V w w1" using acquire_quiet [OF db, of ?n w] by (cases l) (simp_all add: ends_def)
  note h1 = handled_quiet [OF h q1]
  show ?thesis
  proof (cases l)
    case (Inl err)
    then show ?thesis using run acquired h1
      by (auto simp: reset_transactional_projection_def andthen_def failing_def reset_leaves_def)
  next
    case (Inr leader)
    obtain e w2 where step: "reset_with_leader box ?D reset ?n (src_id (jb_source J)) (sel_id (tc_selection (jb_config J))) leader w1
      = (e, w2)" by fastforce
    note ended = reset_with_leader_ends [OF J R h1, of box leader, unfolded ends_def step]
    show ?thesis
    proof (cases e)
      case (Inl err)
      have "quiet V w2 (db_drop ?D w2)" using db by (simp add: database_laws_def)
      then have "handled V J ds w2 \<Longrightarrow> handled V J ds (db_drop ?D w2)" for ds by (rule handled_quiet [rotated])
      then have "reset_leaves V J old (Inl err) (db_drop ?D w2)" using ended Inl by (auto simp: reset_leaves_def)
      moreover have "(r, w') = (Inl err, db_drop ?D w2)"
        using run acquired Inr step Inl by (simp add: reset_transactional_projection_def andthen_def failing_def)
      ultimately show ?thesis by simp
    next
      case u: (Inr u)
      then have h2: "handled V J [] w2" using ended by (simp add: reset_leaves_def)
      obtain r3 w3 where release: "release_leader ?D leader w2 = (r3, w3)" by fastforce
      have "quiet V w2 w3" using release_quiet [OF db, of leader w2] release by (cases r3) (simp_all add: ends_def)
      then have h3: "handled V J [] w3" by (rule handled_quiet [OF h2])
      have out: "(r, w') = (map_err (map_leadership_error box) r3, w3)"
        using run acquired Inr step u release
        by (cases r3) (simp_all add: reset_transactional_projection_def andthen_def failing_def map_err_def)
      show ?thesis
      proof (cases r3)
        case (Inl err)
        then obtain b where "err = LeadershipLost b" using release_failure [of ?D leader w2 err w3] release by blast
        then show ?thesis using out Inl h3 by (auto simp: reset_leaves_def map_err_def map_leadership_error_def)
      qed (use out h3 in \<open>simp add: reset_leaves_def map_err_def\<close>)
    qed
  qed
qed

definition replay_leaves ::
  "('w, 'm) world_view \<Rightarrow> ('w, 'pj, 'event, 'x, 'ac, 'f) projection_job \<Rightarrow> bool list
     \<Rightarrow> 'x reset_and_replay_error + projection_run_outcome \<Rightarrow> 'w \<Rightarrow> bool" where
  "replay_leaves V J old r w \<longleftrightarrow>
     (case r of
        Inl (ResetPhase err) \<Rightarrow> reset_leaves V J old (Inl err) w
      | Inl (ReplayPhase err) \<Rightarrow> \<exists>new. run_leaves V J [] new (Inl err) w
      | Inr outcome \<Rightarrow> \<exists>new. run_leaves V J [] new (Inr outcome) w)"

theorem replay_run_leaves:
  assumes J: "job_laws V J" and batch: "0 < tc_batch_size (jb_config J)"
    and R: "reset_laws V (tp_name (jb_projector J)) (jb_database J) reset" and h: "handled V J old w"
    and run: "reset_and_replay cycles fuel box J reset pj w = Some (r, w')"
  shows "replay_leaves V J old r w'"
proof -
  let ?D = "jb_database J" and ?n = "tp_name (jb_projector J)"
  note db = job_parts(1) [OF J]
  obtain l w1 where acquired: "acquire_leader ?D ?n w = (l, w1)" by fastforce
  then have q1: "quiet V w w1" using acquire_quiet [OF db, of ?n w] by (cases l) (simp_all add: ends_def)
  note h1 = handled_quiet [OF h q1]
  show ?thesis
  proof (cases l)
    case (Inl err)
    then show ?thesis using run acquired h1
      by (auto simp: reset_and_replay_def failing_def replay_leaves_def reset_leaves_def)
  next
    case (Inr leader)
    obtain e w2 where step: "reset_with_leader box ?D reset ?n (src_id (jb_source J)) (sel_id (tc_selection (jb_config J))) leader w1
      = (e, w2)" by fastforce
    note ended = reset_with_leader_ends [OF J R h1, of box leader, unfolded ends_def step]
    show ?thesis
    proof (cases e)
      case (Inl err)
      have "quiet V w2 (db_drop ?D w2)" using db by (simp add: database_laws_def)
      then have "handled V J ds w2 \<Longrightarrow> handled V J ds (db_drop ?D w2)" for ds by (rule handled_quiet [rotated])
      then have "reset_leaves V J old (Inl err) (db_drop ?D w2)" using ended Inl by (auto simp: reset_leaves_def)
      moreover have "(r, w') = (Inl (ResetPhase err), db_drop ?D w2)"
        using run acquired Inr step Inl by (simp add: reset_and_replay_def failing_def)
      ultimately show ?thesis by (simp add: replay_leaves_def)
    next
      case u: (Inr u)
      then have h2: "handled V J [] w2" using ended by (simp add: reset_leaves_def)
      obtain r3 s where replay: "run_with_leader cycles fuel J leader pj w2 = Some (r3, s)"
        and out: "r = map_err ReplayPhase r3" "w' = rs_world s"
        using run acquired Inr step u by (auto simp: reset_and_replay_def failing_def)
      from run_with_leader_leaves [OF J batch h2 replay] show ?thesis
        using out by (cases r3) (auto simp: replay_leaves_def map_err_def)
    qed
  qed
qed

section \<open>Histories\<close>

text \<open>Jobs of one projection: the same projector name, source and selection identity, whatever else differs.\<close>

definition same_projection ::
  "('w, 'pj, 'event, 'x, 'ac, 'f) projection_job \<Rightarrow> ('w, 'pj, 'event, 'x, 'ac, 'f) projection_job \<Rightarrow> bool" where
  "same_projection J J' \<longleftrightarrow> tp_name (jb_projector J') = tp_name (jb_projector J) \<and> src_id (jb_source J') = src_id (jb_source J)
     \<and> sel_id (tc_selection (jb_config J')) = sel_id (tc_selection (jb_config J))"

lemma handled_same: "same_projection J J' \<Longrightarrow> handled V J' ds w = handled V J ds w"
  by (simp add: handled_def progress_row_at_def same_projection_def)

text \<open>
  What happens to a world over time: other sessions append events, and jobs of the projection run, reset it, or
  reset and replay it, each ending as it may.
\<close>

inductive history ::
  "('w, 'm) world_view \<Rightarrow> ('w, 'pj, 'event, 'x, 'ac, 'f) projection_job \<Rightarrow> 'w \<Rightarrow> 'w \<Rightarrow> bool" for V J w where
  Start: "history V J w w"
| Others: "history V J w w1 \<Longrightarrow> quiet V w1 w2 \<Longrightarrow> history V J w w2"
| Runs: "history V J w w1 \<Longrightarrow> same_projection J J' \<Longrightarrow> job_laws V J' \<Longrightarrow> 0 < tc_batch_size (jb_config J')
    \<Longrightarrow> run_transactional_projection cycles fuel J' pj w1 = Some (r, w2) \<Longrightarrow> history V J w w2"
| Resets: "history V J w w1 \<Longrightarrow> same_projection J J' \<Longrightarrow> job_laws V J'
    \<Longrightarrow> reset_laws V (tp_name (jb_projector J')) (jb_database J') reset
    \<Longrightarrow> reset_transactional_projection box (jb_database J') reset (tp_name (jb_projector J')) (src_id (jb_source J'))
          (sel_id (tc_selection (jb_config J'))) w1 = (e, w2) \<Longrightarrow> history V J w w2"
| Replays: "history V J w w1 \<Longrightarrow> same_projection J J' \<Longrightarrow> job_laws V J' \<Longrightarrow> 0 < tc_batch_size (jb_config J')
    \<Longrightarrow> reset_laws V (tp_name (jb_projector J')) (jb_database J') reset
    \<Longrightarrow> reset_and_replay cycles fuel box J' reset pj w1 = Some (e', w2) \<Longrightarrow> history V J w w2"

lemma run_leaves_handled: "run_leaves V J old new r w \<Longrightarrow> \<exists>ds. handled V J ds w"
  by (auto simp: run_leaves_def error_leaves_def split: sum.splits projection_run_outcome.splits)

lemma reset_leaves_handled: "reset_leaves V J old r w \<Longrightarrow> \<exists>ds. handled V J ds w"
  by (auto simp: reset_leaves_def split: sum.splits)

lemma replay_leaves_handled: "replay_leaves V J old r w \<Longrightarrow> \<exists>ds. handled V J ds w"
  by (auto simp: replay_leaves_def split: sum.splits reset_and_replay_error.splits
      dest: run_leaves_handled reset_leaves_handled)

theorem history_exactly_once:
  assumes "history V J w w'" "handled V J old w"
  shows "\<exists>ds. handled V J ds w'"
  using assms
proof (induction rule: history.induct)
  case (Others w1 w2)
  then obtain ds where "handled V J ds w1" by blast
  from handled_quiet [OF this Others(2)] show ?case ..
next
  case (Runs w1 J' cycles fuel pj r w2)
  then obtain ds where "handled V J ds w1" by blast
  then have "handled V J' ds w1" by (simp only: handled_same [OF Runs(2)])
  from transactional_run_leaves [OF Runs(3,4) this Runs(5)] obtain new where "run_leaves V J' ds new r w2" ..
  from run_leaves_handled [OF this] show ?case by (simp only: handled_same [OF Runs(2)])
next
  case (Resets w1 J' reset box e w2)
  then obtain ds where "handled V J ds w1" by blast
  then have "handled V J' ds w1" by (simp only: handled_same [OF Resets(2)])
  from reset_leaves_handled [OF reset_run_leaves [OF Resets(3,4) this Resets(5)]]
  show ?case by (simp only: handled_same [OF Resets(2)])
next
  case (Replays w1 J' reset cycles fuel box pj e' w2)
  then obtain ds where "handled V J ds w1" by blast
  then have "handled V J' ds w1" by (simp only: handled_same [OF Replays(2)])
  from replay_leaves_handled [OF replay_run_leaves [OF Replays(3,4,5) this Replays(6)]]
  show ?case by (simp only: handled_same [OF Replays(2)])
qed blast

end
