(* ===== verification/Sample_Transactional.thy ===== *)
theory Sample_Transactional
  imports Transactional_Reset
begin

text \<open>
  A destination in memory, a stream of three events that other sessions deliver while the runner works, and a
  projector that refuses the second: the laws of the transactional runner hold of it, and runs evaluate.
\<close>

section \<open>The world\<close>

record sample_world =
  sw_model :: "delivery_position list"
  sw_row :: "progress_row option"
  sw_tx_model :: "delivery_position list"
  sw_tx_row :: "progress_row option"
  sw_delivered :: nat

type_synonym 'a sample_action = "(sample_world, nat, 'a) action"

text \<open>One more event is delivered whenever a transaction begins.\<close>

definition sample_database :: "(sample_world, nat) projection_database" where
  "sample_database =
     \<lparr>db_acquire = pass (), db_try_lock = (\<lambda>_. pass True), db_unlock = (\<lambda>_. pass ()), db_close = pass (), db_drop = id,
      db_begin = (\<lambda>w. (Inr (), w\<lparr>sw_tx_model := sw_model w, sw_tx_row := sw_row w, sw_delivered := Suc (sw_delivered w)\<rparr>)),
      db_select = (\<lambda>_ w. (Inr (sw_tx_row w), w)),
      db_upsert = (\<lambda>_ row w. (Inr (), w\<lparr>sw_tx_row := Some row\<rparr>)),
      db_delete = (\<lambda>_ w. (Inr (), w\<lparr>sw_tx_row := None\<rparr>)),
      db_commit = (\<lambda>w. (Inr (), w\<lparr>sw_model := sw_tx_model w, sw_row := sw_tx_row w\<rparr>)),
      db_rollback = pass ()\<rparr>"

definition delivery_envelope :: "u64 \<Rightarrow> persisted_event_envelope" where
  "delivery_envelope p =
     \<lparr>pe_source_id = DeliverySourceId (lit ''s''), pe_position = DeliveryPosition p, pe_event_id = PersistedEventId 0,
      pe_stream_id = StreamId (lit ''a''), pe_stream_version = 0, pe_event_type = EventTypeName (lit ''e''),
      pe_payload = lit ''1'', pe_metadata = []\<rparr>"

definition sample_stream :: "persisted_event_envelope list" where
  "sample_stream = [delivery_envelope 1, delivery_envelope 2, delivery_envelope 3]"

definition delivered :: "sample_world \<Rightarrow> persisted_event_envelope list" where
  "delivered w = take (sw_delivered w) sample_stream"

definition frontier :: "sample_world \<Rightarrow> delivery_position option" where
  "frontier w = (if delivered w = [] then None else Some (pe_position (last (delivered w))))"

definition sample_source :: "(sample_world, nat) projection_source" where
  "sample_source =
     \<lparr>src_id = DeliverySourceId (lit ''s''),
      src_high_watermark = (\<lambda>w. (Inr (frontier w), w)),
      src_read_envelopes = (\<lambda>_ after through limit w. (Inr (delivery_page (delivered w) after through limit), w))\<rparr>"

text \<open>The projector refuses position 2 and skips what fails.\<close>

definition sample_projector ::
  "projection_failure_decision \<Rightarrow> (sample_world, unit, persisted_event_envelope, nat, unit) postgres_projector" where
  "sample_projector decision =
     \<lparr>tp_name = ProjectorName (lit ''p''),
      tp_decode = (\<lambda>_ e. Inr e),
      tp_apply = (\<lambda>_ p pj w. if position_value p = 2 then (Inl 7, pj, w)
        else (Inr (), pj, w\<lparr>sw_tx_model := sw_tx_model w @ [p]\<rparr>)),
      tp_on_error = (\<lambda>pj _. (decision, pj)),
      tp_after_commit = (\<lambda>_. pass ())\<rparr>"

definition sample_floats :: "unit float_ops" where
  "sample_floats = \<lparr>fl_is_finite = (\<lambda>_. True), fl_below_one = (\<lambda>_. False), fl_two = (), fl_scaled = (\<lambda>_ _ _ _. None)\<rparr>"

definition sample_selection :: projection_selection where
  "sample_selection = \<lparr>sel_id = ProjectionSelectionId (lit ''q''), sel_stream_filter = AllStreams,
     sel_event_types = [EventTypeName (lit ''e'')]\<rparr>"

definition sample_job :: "projection_failure_decision \<Rightarrow> (sample_world, unit, persisted_event_envelope, nat, unit, unit) projection_job" where
  "sample_job decision =
     \<lparr>jb_database = sample_database, jb_projector = sample_projector decision, jb_source = sample_source,
      jb_timers = \<lparr>tm_retry_sleep = (\<lambda>_ w. w), tm_idle = (\<lambda>_ w. (True, w))\<rparr>,
      jb_floats = sample_floats, jb_config = postgres_config_new sample_floats sample_selection\<rparr>"

definition sample_world_at :: "delivery_position list \<Rightarrow> progress_row option \<Rightarrow> sample_world" where
  "sample_world_at m row = \<lparr>sw_model = m, sw_row = row, sw_tx_model = [], sw_tx_row = None, sw_delivered = 2\<rparr>"

section \<open>It satisfies the laws\<close>

definition sample_view :: "(sample_world, delivery_position list) world_view" where
  "sample_view =
     \<lparr>vw_model = sw_model, vw_row = sw_row, vw_tx_model = sw_tx_model, vw_tx_row = sw_tx_row, vw_events = delivered,
      vw_frontier = frontier, vw_start = [], vw_effect = (\<lambda>e m. m @ [pe_position e])\<rparr>"

lemma sample_identities [simp]:
  "source_id_try_new (lit ''s'') = Inr (DeliverySourceId (lit ''s''))"
  "selection_id_try_new (lit ''q'') = Inr (ProjectionSelectionId (lit ''q''))"
  by code_simp+

lemma sample_database_simps [simp]:
  "db_acquire sample_database = pass ()" "db_try_lock sample_database k = pass True" "db_unlock sample_database k = pass ()"
  "db_close sample_database = pass ()" "db_drop sample_database = id" "db_rollback sample_database = pass ()"
  "db_begin sample_database w =
    (Inr (), w\<lparr>sw_tx_model := sw_model w, sw_tx_row := sw_row w, sw_delivered := Suc (sw_delivered w)\<rparr>)"
  "db_select sample_database t w = (Inr (sw_tx_row w), w)"
  "db_upsert sample_database t row w = (Inr (), w\<lparr>sw_tx_row := Some row\<rparr>)"
  "db_delete sample_database t w = (Inr (), w\<lparr>sw_tx_row := None\<rparr>)"
  "db_commit sample_database w = (Inr (), w\<lparr>sw_model := sw_tx_model w, sw_row := sw_tx_row w\<rparr>)"
  by (simp_all add: sample_database_def)

lemma sample_job_simps [simp]:
  "jb_database (sample_job d) = sample_database" "jb_projector (sample_job d) = sample_projector d"
  "jb_source (sample_job d) = sample_source" "tc_selection (jb_config (sample_job d)) = sample_selection"
  "tc_batch_size (jb_config (sample_job d)) = 100" "tc_mode (jb_config (sample_job d)) = BatchMode"
  "tm_retry_sleep (jb_timers (sample_job d)) n w = w" "tm_idle (jb_timers (sample_job d)) n w = (True, w)"
  "src_id sample_source = DeliverySourceId (lit ''s'')" "sel_id sample_selection = ProjectionSelectionId (lit ''q'')"
  "tp_name (sample_projector d) = ProjectorName (lit ''p'')"
  by (simp_all add: sample_job_def postgres_config_new_def sample_source_def sample_selection_def sample_projector_def)

lemma sample_acquire [simp]:
  "acquire_leader sample_database n w = (Inr \<lparr>ld_connected = True, ld_lock_key = projection_lock_key n\<rparr>, w)"
  by (simp add: acquire_leader_def andthen_def failing_def)

lemma delivered_cases:
  "delivered w = [] \<or> delivered w = [delivery_envelope 1] \<or> delivered w = [delivery_envelope 1, delivery_envelope 2]
    \<or> delivered w = sample_stream"
  by (cases "sw_delivered w"; simp add: delivered_def sample_stream_def take_Cons' split: if_splits)

lemma delivered_more:
  assumes "sw_delivered w \<le> sw_delivered w'"
  shows "\<exists>new. delivered w' = delivered w @ new"
proof -
  have "delivered w' = delivered w @ take (sw_delivered w' - sw_delivered w) (drop (sw_delivered w) sample_stream)"
    unfolding delivered_def using assms take_add [of "sw_delivered w" "sw_delivered w' - sw_delivered w" sample_stream] by simp
  then show ?thesis ..
qed

lemma sample_grows:
  assumes "sw_delivered w \<le> sw_delivered w'"
  shows "delivers sample_view w w'"
  using delivered_more [OF assms] delivered_cases [of w] delivered_cases [of w']
  by (elim exE disjE) (auto simp: delivers_def sample_view_def frontier_def sample_stream_def delivery_envelope_def
      less_delivery_position_def less_eq_delivery_position_def)

lemma sample_source_laws: "source_laws sample_view sel sample_source"
proof -
  have "delivery_order (delivered w)" for w
    using delivered_cases [of w] by (auto simp: delivery_order_def sample_stream_def delivery_envelope_def position_ok_def
        less_delivery_position_def)
  moreover have "\<exists>h. frontier w = Some h \<and> pe_position e \<le> h" if "e \<in> set (delivered w)" for w e
    using delivered_cases [of w] that by (auto simp: frontier_def sample_stream_def delivery_envelope_def less_eq_delivery_position_def)
  ultimately show ?thesis
    by (simp add: source_laws_def sample_source_def leaves_quiet_def sample_view_def)
qed

lemma sample_job_laws: "job_laws sample_view (sample_job decision)"
proof -
  have q: "quiet sample_view w w'" if "sw_delivered w \<le> sw_delivered w'" "sw_model w' = sw_model w" "sw_row w' = sw_row w" for w w'
    using sample_grows [OF that(1)] that by (simp add: quiet_def sample_view_def)
  have "database_laws sample_view (ProjectorName (lit ''p'')) sample_database"
    by (auto simp: database_laws_def leaves_quiet_def same_tx_def intro!: q sample_grows) (auto simp: sample_view_def)
  moreover have "projector_laws sample_view (sample_projector decision)"
    by (auto simp: projector_laws_def sample_projector_def leaves_quiet_def intro!: q split: if_splits) (auto simp: sample_view_def)
  moreover have "timer_laws sample_view (jb_timers (sample_job decision))" by (simp add: timer_laws_def)
  ultimately show ?thesis using sample_source_laws by (simp add: job_laws_def)
qed

section \<open>Runs\<close>

lemmas runner_defs = run_transactional_projection_def run_with_leader_def load_validated_progress_def leader_begin_def
  or_rollback_def rollback_def load_progress_def validate_progress_def andthen_def failing_def progress_from_row_def position_new_def
  drain_cycle_def on_world_def read_page_def process_envelope_def begin_pending_def position_is_pending_def
  apply_attempts.simps [where attempt = 1] apply_event_def ask_projector_def commit_position_def advance_progress_def
  skip_position_def count_result_def leave_def release_leader_def delivery_page_def within_bound_def less_delivery_position_def
  less_eq_delivery_position_def try_result_def

lemmas sample_defs = sample_world_at_def sample_stream_def delivery_envelope_def sample_projector_def sample_source_def
  delivered_def frontier_def

text \<open>The second event is skipped: two effects, and progress at the third position, delivered during the run.\<close>

definition sample_row :: "u64 \<Rightarrow> progress_row" where
  "sample_row p = (lit ''s'', lit ''q'', p)"

definition sample_after :: "delivery_position list \<Rightarrow> u64 \<Rightarrow> nat \<Rightarrow> sample_world" where
  "sample_after m p n =
     \<lparr>sw_model = m, sw_row = Some (sample_row p), sw_tx_model = m, sw_tx_row = Some (sample_row p), sw_delivered = n\<rparr>"

lemma sample_run:
  "run_transactional_projection 1 (Suc 1) (sample_job DecideSkip) () (sample_world_at [] None) =
     Some (Inr (CaughtUp 2 1 (Some (DeliveryPosition 3))),
       sample_after [DeliveryPosition 1, DeliveryPosition 3] 3 7)"
  by (simp add: runner_defs sample_defs Let_def sample_row_def sample_after_def)

lemma sample_stop:
  "run_transactional_projection 1 (Suc 1) (sample_job DecideStop) () (sample_world_at [] None) =
     Some (Inr (Stopped (DeliveryPosition 2) 1 0),
       sample_after [DeliveryPosition 1] 1 5)"
  by (simp add: runner_defs sample_defs Let_def sample_row_def sample_after_def)

text \<open>The next run of a projector that skips goes on from there.\<close>

lemma sample_resume:
  "run_transactional_projection 1 (Suc 1) (sample_job DecideSkip) ()
     (sample_after [DeliveryPosition 1] 1 5) =
     Some (Inr (CaughtUp 1 1 (Some (DeliveryPosition 3))),
       sample_after [DeliveryPosition 1, DeliveryPosition 3] 3 9)"
  by (simp add: runner_defs sample_defs Let_def sample_row_def sample_after_def)

section \<open>Reset\<close>

definition sample_reset :: "unit sample_action" where
  "sample_reset w = (Inr (), w\<lparr>sw_tx_model := []\<rparr>)"

definition sample_box :: "nat transactional_projection_error \<Rightarrow> nat" where
  "sample_box e = 0"

lemma sample_reset_laws: "reset_laws sample_view n sample_database sample_reset"
  by (auto simp: reset_laws_def leaves_quiet_def quiet_def sample_reset_def intro!: sample_grows) (auto simp: sample_view_def)

lemma sample_handled:
  "handled sample_view (sample_job d) [] (sample_world_at [] None)"
  "handled sample_view (sample_job d) [True, False] (sample_world_at [DeliveryPosition 1] (Some (sample_row 2)))"
  by (simp_all add: handled_def decided_def progress_row_at_def sample_view_def sample_row_def sample_defs)

lemma sample_reset_run:
  "reset_transactional_projection sample_box sample_database sample_reset (ProjectorName (lit ''p'')) (DeliverySourceId (lit ''s''))
     (ProjectionSelectionId (lit ''q'')) (sample_world_at [DeliveryPosition 1] (Some (sample_row 2))) =
     (Inr (), \<lparr>sw_model = [], sw_row = None, sw_tx_model = [], sw_tx_row = None, sw_delivered = 3\<rparr>)"
  by (simp add: reset_transactional_projection_def reset_with_leader_def reset_rollback_def delete_progress_def runner_defs
      sample_row_def sample_world_at_def sample_reset_def)

text \<open>Progress that another source left.\<close>

lemma other_identity [simp]: "source_id_try_new (lit ''z'') = Inr (DeliverySourceId (lit ''z''))" "lit ''z'' \<noteq> lit ''s''"
  by code_simp+

lemma sample_foreign_run:
  "run_transactional_projection 1 1 (sample_job DecideSkip) ()
     (sample_world_at [DeliveryPosition 1] (Some (lit ''z'', lit ''q'', 1))) =
     Some (Inl (SourceIdentityMismatch (ProjectorName (lit ''p'')) (DeliverySourceId (lit ''z'')) (DeliverySourceId (lit ''s''))),
       \<lparr>sw_model = [DeliveryPosition 1], sw_row = Some (lit ''z'', lit ''q'', 1), sw_tx_model = [DeliveryPosition 1],
        sw_tx_row = Some (lit ''z'', lit ''q'', 1), sw_delivered = 3\<rparr>)"
  by (simp add: runner_defs rollback_preserving_error_def dropping_leader_def sample_world_at_def)

end
