(* ===== verification/Transactional_Properties.thy ===== *)
theory Transactional_Properties
  imports Sample_Transactional
begin

text \<open>What the transactional projection runner guarantees.\<close>

text \<open>
  C32. Exactly once. Over any history of runs, resets and replays of one projection, whatever projector state,
  batch size, mode or retry policy they have, whatever fails in them and whatever other sessions append in
  between, the committed read model is the effects of a prefix of the delivered events, each applied once, in
  order, or skipped by a decision of the projector, and the committed progress is the last event of that prefix.
\<close>

theorem transactional_history_exactly_once:
  assumes "history V J w w'" and "handled V J [] w"
  shows "\<exists>ds. length ds \<le> length (vw_events V w') \<and> vw_model V w' = decided V (vw_events V w') ds
    \<and> vw_row V w' = progress_row_at J (take (length ds) (vw_events V w'))"
  using history_exactly_once [OF assms] by (simp add: handled_def)

text \<open>A run that stops at the second event and one that skips it.\<close>

lemma transactional_history_exactly_once_witness:
  "\<exists>ds. length ds \<le> 3 \<and> [DeliveryPosition 1, DeliveryPosition 3] = decided sample_view sample_stream ds
    \<and> Some (sample_row 3) = progress_row_at (sample_job DecideSkip) (take (length ds) sample_stream)"
proof -
  let ?J = "sample_job DecideSkip" and ?w0 = "sample_world_at [] None"
  have same: "same_projection ?J (sample_job d)" for d by (simp add: same_projection_def)
  have batch: "0 < tc_batch_size (jb_config (sample_job d))" for d by simp
  note stop = history.Runs [OF history.Start same sample_job_laws batch sample_stop]
  note resume = history.Runs [OF stop same sample_job_laws batch sample_resume]
  have w: "vw_events sample_view (sample_after m p 9) = sample_stream" "vw_model sample_view (sample_after m p 9) = m"
    "vw_row sample_view (sample_after m p 9) = Some (sample_row p)" "length sample_stream = 3" for m p
    by (simp_all add: sample_view_def delivered_def sample_after_def sample_stream_def)
  from transactional_history_exactly_once [OF resume sample_handled(1)] show ?thesis unfolding w .
qed

text \<open>
  C33. A run of a transactional projection that returns. When it reports that it caught up, exactly the events up
  to the high-water mark are decided and it counts the effects and skips it committed; when it reports a stop, the
  event it names is the next one and is left pending; an error leaves the decisions committed before it, one more
  only if the commit was indeterminate or the deferred work after a commit failed.
\<close>

theorem transactional_run_outcome:
  assumes "job_laws V J" and "0 < tc_batch_size (jb_config J)" and "handled V J old w"
    and "run_transactional_projection cycles fuel J pj w = Some (r, w')"
  shows "\<exists>new. (case r of
       Inl err \<Rightarrow> handled V J (old @ new) w'
         \<or> (\<exists>p x d. err = CommitIndeterminate p x \<and> handled V J (old @ new @ [d]) w')
         \<or> (\<exists>p x. err = AfterCommitFailed p x \<and> handled V J (old @ new @ [True]) w')
     | Inr (CaughtUp processed skipped through) \<Rightarrow>
         handled V J (old @ new) w'
         \<and> processed = of_nat (count_list new True) \<and> skipped = of_nat (count_list new False)
         \<and> (case through of None \<Rightarrow> old @ new = []
            | Some t \<Rightarrow> take (length (old @ new)) (vw_events V w') = filter (\<lambda>e. pe_position e \<le> t) (vw_events V w'))
     | Inr (Stopped p processed skipped) \<Rightarrow>
         handled V J (old @ new) w'
         \<and> processed = of_nat (count_list new True) \<and> skipped = of_nat (count_list new False)
         \<and> (\<exists>e. p = pe_position e \<and> next_event V (old @ new) e w')
     | Inr (Cancelled processed skipped) \<Rightarrow>
         handled V J (old @ new) w'
         \<and> processed = of_nat (count_list new True) \<and> skipped = of_nat (count_list new False))"
proof -
  from transactional_run_leaves [OF assms] obtain new where left: "run_leaves V J old new r w'" ..
  show ?thesis
    using left unfolding run_leaves_def error_leaves_def caught_up_to_def append_assoc by blast
qed

lemma transactional_run_outcome_witness:
  "\<exists>new. handled sample_view (sample_job DecideSkip) new (sample_after [DeliveryPosition 1, DeliveryPosition 3] 3 7)
    \<and> (2 :: u64) = of_nat (count_list new True) \<and> (1 :: u64) = of_nat (count_list new False)"
proof -
  have batch: "0 < tc_batch_size (jb_config (sample_job DecideSkip))" by simp
  from transactional_run_outcome [OF sample_job_laws batch sample_handled(1) sample_run] show ?thesis by auto
qed

text \<open>
  C34. A batch run returns: every page decides at least one of the finitely many events up to the high-water mark,
  and the attempts at one event end because the attempt counter is checked against the largest u32.
\<close>

theorem transactional_batch_returns:
  assumes "job_laws V J" and "0 < tc_batch_size (jb_config J)" and "handled V J old w"
    and "tc_mode (jb_config J) = BatchMode"
  shows "\<exists>enough. \<forall>fuel \<ge> enough. \<exists>r w'. run_transactional_projection 1 fuel J pj w = Some (r, w')"
  using batch_run_returns [OF assms, of pj] by auto

lemma transactional_batch_returns_witness:
  "\<exists>fuel r w'. run_transactional_projection 1 fuel (sample_job DecideRetry) () (sample_world_at [] None) = Some (r, w')"
proof -
  have batch: "0 < tc_batch_size (jb_config (sample_job DecideRetry))" by simp
  from transactional_batch_returns [OF sample_job_laws batch sample_handled(1), of "()"] show ?thesis by force
qed

text \<open>
  C35. A reset is atomic: after success the read model is that of the start and no progress is stored; after an
  error nothing changed, or the reset was committed and only its acknowledgement or the release of the leadership
  failed.
\<close>

theorem transactional_reset_atomic:
  assumes "job_laws V J" and "reset_laws V (tp_name (jb_projector J)) (jb_database J) reset" and "handled V J old w"
    and "reset_transactional_projection box (jb_database J) reset (tp_name (jb_projector J)) (src_id (jb_source J))
      (sel_id (tc_selection (jb_config J))) w = (r, w')"
  shows "case r of
      Inr _ \<Rightarrow> vw_model V w' = vw_start V \<and> vw_row V w' = None
    | Inl err \<Rightarrow> handled V J old w'
        \<or> (\<exists>x. err = ResetCommitIndeterminate x \<or> err = ResetLeadershipLost x)
          \<and> vw_model V w' = vw_start V \<and> vw_row V w' = None"
  using reset_run_leaves [OF assms]
  by (auto simp: reset_leaves_def handled_def decided_def progress_row_at_def split: sum.splits)

lemma transactional_reset_atomic_witness:
  "\<exists>w'. snd (reset_transactional_projection sample_box sample_database sample_reset (ProjectorName (lit ''p''))
      (DeliverySourceId (lit ''s'')) (ProjectionSelectionId (lit ''q''))
      (sample_world_at [DeliveryPosition 1] (Some (sample_row 2)))) = w'
    \<and> vw_model sample_view w' = [] \<and> vw_row sample_view w' = None"
proof -
  let ?J = "sample_job DecideSkip"
  have laws: "reset_laws sample_view (tp_name (jb_projector ?J)) (jb_database ?J) sample_reset"
    by (simp add: sample_reset_laws)
  from transactional_reset_atomic [OF sample_job_laws laws sample_handled(2), of sample_box] sample_reset_run
  show ?thesis by (simp add: sample_view_def)
qed

text \<open>
  C36. Progress of another source or selection, or progress that cannot be read, is refused: the run ends with an
  error, and neither the read model nor the progress changes.
\<close>

theorem transactional_foreign_progress_refused:
  assumes "job_laws V J" and "vw_row V w = Some row" and "foreign_row J row"
    and "run_transactional_projection cycles fuel J pj w = Some (r, w')"
  shows "(\<exists>err. r = Inl err) \<and> vw_model V w' = vw_model V w \<and> vw_row V w' = Some row"
  by (rule foreign_progress_refused [OF assms])

lemma transactional_foreign_progress_refused_witness:
  "\<exists>r w'. run_transactional_projection 1 1 (sample_job DecideSkip) ()
      (sample_world_at [DeliveryPosition 1] (Some (lit ''z'', lit ''q'', 1))) = Some (r, w')
    \<and> (\<exists>err. r = Inl err) \<and> sw_row w' = Some (lit ''z'', lit ''q'', 1)"
proof -
  have row: "vw_row sample_view (sample_world_at [DeliveryPosition 1] (Some (lit ''z'', lit ''q'', 1)))
      = Some (lit ''z'', lit ''q'', 1)" by (simp add: sample_view_def sample_world_at_def)
  have "foreign_row (sample_job DecideSkip) (lit ''z'', lit ''q'', 1)"
    by (simp add: foreign_row_def progress_from_row_def position_new_def)
  from transactional_foreign_progress_refused [OF sample_job_laws row this sample_foreign_run] have
    "sw_row \<lparr>sw_model = [DeliveryPosition 1], sw_row = Some (lit ''z'', lit ''q'', 1), sw_tx_model = [DeliveryPosition 1],
       sw_tx_row = Some (lit ''z'', lit ''q'', 1), sw_delivered = 3\<rparr> = Some (lit ''z'', lit ''q'', 1)"
    by (simp add: sample_view_def)
  then show ?thesis using sample_foreign_run by blast
qed

end
