(* ===== verification/Sqlite_Store.thy ===== *)
theory Sqlite_Store
  imports Store_Contracts Actions
begin

text \<open>
  The SQLite back end (\<open>eventcore-sqlite/src/lib.rs\<close>). SQLite is a dictionary of calls: each takes the text of a
  statement and its bound values and acts on a world \<open>'w\<close>, the connection with its database. The mutex of the
  connection is held for the whole of an operation, so each operation is one transition; the closures of
  \<open>spawn_blocking\<close> do not panic, so no task fails.
\<close>

section \<open>SQLite\<close>

datatype sql_value = SqlText rstring | SqlInteger "64 word"

type_synonym sql_row = "sql_value list"

text \<open>
  \<open>sq_rows\<close> prepares and runs a query: it fails, or gives the rows that were stepped through and the error that
  ended them, if any. \<open>sq_rollback\<close> is what dropping an uncommitted transaction does.
\<close>

record ('w, 'x) sqlite_connection =
  sq_rows :: "rstring \<Rightarrow> sql_value list \<Rightarrow> 'w \<Rightarrow> 'x + sql_row list \<times> 'x option"
  sq_execute :: "rstring \<Rightarrow> sql_value list \<Rightarrow> ('w, 'x, unit) action"
  sq_begin :: "('w, 'x, unit) action"
  sq_commit :: "('w, 'x, unit) action"
  sq_rollback :: "'w \<Rightarrow> 'w"

datatype 'x rusqlite_error = SqliteFailure 'x | QueryReturnedNoRows | InvalidColumnType | OutOfRange

definition get_text :: "sql_row \<Rightarrow> 'x rusqlite_error + rstring" where
  "get_text row = (case row of SqlText t # _ \<Rightarrow> Inr t | _ \<Rightarrow> Inl InvalidColumnType)"

definition get_usize :: "sql_row \<Rightarrow> 'x rusqlite_error + usize" where
  "get_usize row =
     (case row of SqlInteger i # _ \<Rightarrow> if sint i < 0 then Inl OutOfRange else Inr i | _ \<Rightarrow> Inl InvalidColumnType)"

text \<open>Binding a \<open>usize\<close> converts it to \<open>i64\<close>, which can fail.\<close>

definition bind_usize :: "usize \<Rightarrow> 'x rusqlite_error + sql_value" where
  "bind_usize n = (if sint n < 0 then Inl OutOfRange else Inr (SqlInteger n))"

text \<open>\<open>query_row(..).optional()\<close>: the first row, if there is one.\<close>

definition query_optional ::
  "('w, 'x) sqlite_connection \<Rightarrow> rstring \<Rightarrow> sql_value list \<Rightarrow> (sql_row \<Rightarrow> 'x rusqlite_error + 'a) \<Rightarrow> 'w
     \<Rightarrow> 'x rusqlite_error + 'a option" where
  "query_optional D sql values get w =
     (case sq_rows D sql values w of
        Inl x \<Rightarrow> Inl (SqliteFailure x)
      | Inr ([], None) \<Rightarrow> Inr None
      | Inr ([], Some x) \<Rightarrow> Inl (SqliteFailure x)
      | Inr (row # _, _) \<Rightarrow> map_sum id Some (get row))"

definition query_row ::
  "('w, 'x) sqlite_connection \<Rightarrow> rstring \<Rightarrow> sql_value list \<Rightarrow> (sql_row \<Rightarrow> 'x rusqlite_error + 'a) \<Rightarrow> 'w
     \<Rightarrow> 'x rusqlite_error + 'a" where
  "query_row D sql values get w =
     rbind (query_optional D sql values get w) (\<lambda>r. case r of None \<Rightarrow> Inl QueryReturnedNoRows | Some a \<Rightarrow> Inr a)"

section \<open>ProjectorCoordinator\<close>

datatype sqlite_coordination_error = SqliteLeadershipNotAcquired rstring | SqliteLockPoisoned rstring

datatype sqlite_guard = SqliteCoordinationGuard (sqlite_guard_name: rstring)

text \<open>
  The lock table, a set behind an \<open>RwLock\<close> with the flag of its poisoning; \<open>SqliteProjectorCoordinator\<close> is such a
  table alone. Dropping the guard of a poisoned table is only logged.
\<close>

record sqlite_coordinator =
  sc_locks :: "(rstring, unit) hashmap"
  sc_poisoned :: bool

definition sqlite_coordinator_new :: sqlite_coordinator where
  "sqlite_coordinator_new = \<lparr>sc_locks = [], sc_poisoned = False\<rparr>"

definition try_acquire_lock ::
  "sqlite_coordinator \<Rightarrow> rstring \<Rightarrow> (sqlite_coordination_error + sqlite_guard) \<times> sqlite_coordinator" where
  "try_acquire_lock s name =
     (if sc_poisoned s then (Inl (SqliteLockPoisoned (lit ''poisoned lock: another task failed inside'')), s)
      else if hm_contains (sc_locks s) name then (Inl (SqliteLeadershipNotAcquired name), s)
      else (Inr (SqliteCoordinationGuard name), s\<lparr>sc_locks := hm_insert name () (sc_locks s)\<rparr>))"

definition drop_sqlite_guard :: "sqlite_coordinator \<Rightarrow> sqlite_guard \<Rightarrow> sqlite_coordinator" where
  "drop_sqlite_guard s g =
     (if sc_poisoned s then s else s\<lparr>sc_locks := hm_remove (sqlite_guard_name g) (sc_locks s)\<rparr>)"

definition sqlite_leaders :: "sqlite_coordinator \<Rightarrow> rstring set" where
  "sqlite_leaders s = {n. hm_contains (sc_locks s) n}"

interpretation sqlite_co: projector_coordinator try_acquire_lock drop_sqlite_guard sqlite_leaders
    "\<lambda>s. \<not> sc_poisoned s" sqlite_guard_name
  by unfold_locales (auto simp: try_acquire_lock_def drop_sqlite_guard_def sqlite_leaders_def hm_contains_def)

section \<open>The store\<close>

text \<open>
  The connection, the lock table of the coordinator, and the number of identifiers generated so far. The
  environment holds SQLite, \<open>uuid\<close>, and \<open>serde_json\<close> with its messages.
\<close>

record 'w sqlite_store =
  ss_world :: 'w
  ss_coordinator :: sqlite_coordinator
  ss_uuid_calls :: nat

record ('w, 'x, 'json) sqlite_env =
  se_connection :: "('w, 'x) sqlite_connection"
  se_now_v7 :: "nat \<Rightarrow> uuid"
  se_show_uuid :: "uuid \<Rightarrow> rstring"
  se_parse_uuid :: "rstring \<Rightarrow> rstring + uuid"
  se_decode_error :: "rstring \<Rightarrow> rstring"
  se_snapshot_to_json :: "'json command_state_snapshot \<Rightarrow> rstring option"
  se_snapshot_from_json :: "rstring \<Rightarrow> 'json command_state_snapshot option"

definition sqlite_from_connection :: "'w \<Rightarrow> 'w sqlite_store" where
  "sqlite_from_connection w = \<lparr>ss_world = w, ss_coordinator = sqlite_coordinator_new, ss_uuid_calls = 0\<rparr>"

definition on_connection :: "('w, 'e, 'a) action \<Rightarrow> ('w sqlite_store, 'e, 'a) action" where
  "on_connection m st = (let (r, w) = m (ss_world st) in (r, st\<lparr>ss_world := w\<rparr>))"

text \<open>A transaction: an error of the body, or of the commit, drops it.\<close>

definition in_transaction ::
  "('w, 'x) sqlite_connection \<Rightarrow> ('w sqlite_store, event_store_error, 'a) action
     \<Rightarrow> ('w sqlite_store, event_store_error, 'a) action" where
  "in_transaction D body =
     andthen (failing (\<lambda>_. StoreFailure BeginTransaction) (on_connection (sq_begin D))) (\<lambda>_ st.
       (case andthen body (\<lambda>a. andthen (failing (\<lambda>_. StoreFailure CommitTransaction) (on_connection (sq_commit D)))
           (\<lambda>_. pass a)) st of
          (Inl e, st) \<Rightarrow> (Inl e, st\<lparr>ss_world := sq_rollback D (ss_world st)\<rparr>)
        | (Inr a, st) \<Rightarrow> (Inr a, st)))"

section \<open>Opening\<close>

text \<open>The rest of the driver: connections, pragmas, and batches of statements.\<close>

record ('w, 'x) sqlite_driver =
  sd_connection :: "('w, 'x) sqlite_connection"
  sd_open :: "rstring \<Rightarrow> 'x + 'w"
  sd_open_in_memory :: "'x + 'w"
  sd_pragma_update :: "rstring \<Rightarrow> rstring \<Rightarrow> ('w, 'x, unit) action"
  sd_execute_batch :: "rstring \<Rightarrow> ('w, 'x, unit) action"

datatype 'x sqlite_event_store_error = ConnectionFailed "'x rusqlite_error" | MigrationFailed "'x rusqlite_error"
  | SqliteTaskFailed rstring

record sqlite_config =
  cfg_path :: rstring
  cfg_encryption_key :: "rstring option"

text \<open>The fields that \<open>Debug\<close> prints.\<close>

definition sqlite_config_debug :: "sqlite_config \<Rightarrow> rstring \<times> rstring option" where
  "sqlite_config_debug c = (cfg_path c, map_option (\<lambda>_. lit ''[REDACTED]'') (cfg_encryption_key c))"

definition connection_failed :: "('w, 'x, 'a) action \<Rightarrow> ('w, 'x sqlite_event_store_error, 'a) action" where
  "connection_failed = failing (\<lambda>x. ConnectionFailed (SqliteFailure x))"

definition apply_encryption_key :: "('w, 'x) sqlite_driver \<Rightarrow> rstring \<Rightarrow> ('w, 'x sqlite_event_store_error, unit) action" where
  "apply_encryption_key R key = connection_failed (sd_pragma_update R (lit ''key'') key)"

definition journal_in_wal :: "('w, 'x) sqlite_driver \<Rightarrow> ('w, 'x sqlite_event_store_error, unit) action" where
  "journal_in_wal R = connection_failed (sd_pragma_update R (lit ''journal_mode'') (lit ''WAL''))"

definition COUNT_MASTER :: rstring where
  "COUNT_MASTER = lit ''SELECT count(*) FROM sqlite_master''"

definition open_connection ::
  "('w, 'x) sqlite_driver \<Rightarrow> rstring \<Rightarrow> rstring option \<Rightarrow> 'x sqlite_event_store_error + 'w" where
  "open_connection R path encryption_key =
     (case sd_open R path of
        Inl x \<Rightarrow> Inl (ConnectionFailed (SqliteFailure x))
      | Inr w \<Rightarrow>
          (case andthen (case encryption_key of
                 None \<Rightarrow> pass ()
               | Some key \<Rightarrow> andthen (apply_encryption_key R key) (\<lambda>_ w.
                   (map_err ConnectionFailed (query_row (sd_connection R) COUNT_MASTER [] (\<lambda>_. Inr ()) w), w)))
               (\<lambda>_. journal_in_wal R) w of
             (Inl e, _) \<Rightarrow> Inl e | (Inr _, w) \<Rightarrow> Inr w))"

definition open_in_memory_connection :: "('w, 'x) sqlite_driver \<Rightarrow> 'x sqlite_event_store_error + 'w" where
  "open_in_memory_connection R =
     (case sd_open_in_memory R of
        Inl x \<Rightarrow> Inl (ConnectionFailed (SqliteFailure x))
      | Inr w \<Rightarrow> (case journal_in_wal R w of (Inl e, _) \<Rightarrow> Inl e | (Inr _, w) \<Rightarrow> Inr w))"

definition sqlite_new :: "('w, 'x) sqlite_driver \<Rightarrow> sqlite_config \<Rightarrow> 'x sqlite_event_store_error + 'w sqlite_store" where
  "sqlite_new R c = map_sum id sqlite_from_connection (open_connection R (cfg_path c) (cfg_encryption_key c))"

definition sqlite_in_memory :: "('w, 'x) sqlite_driver \<Rightarrow> 'x sqlite_event_store_error + 'w sqlite_store" where
  "sqlite_in_memory R = map_sum id sqlite_from_connection (open_in_memory_connection R)"

text \<open>\<open>SqliteCheckpointStore\<close> is a connection alone.\<close>

definition sqlite_cp_new :: "('w, 'x) sqlite_driver \<Rightarrow> sqlite_config \<Rightarrow> 'x sqlite_event_store_error + 'w" where
  "sqlite_cp_new R c = open_connection R (cfg_path c) (cfg_encryption_key c)"

definition sqlite_cp_in_memory :: "('w, 'x) sqlite_driver \<Rightarrow> 'x sqlite_event_store_error + 'w" where
  "sqlite_cp_in_memory R = open_in_memory_connection R"

text \<open>The migrations. A line break and its indentation within a statement is written as one space.\<close>

definition NOW :: string where
  "NOW = ''strftime('%Y-%m-%dT%H:%M:%fZ', 'now')''"

definition CREATE_CHECKPOINTS :: string where
  "CREATE_CHECKPOINTS = ''CREATE TABLE IF NOT EXISTS eventcore_subscription_versions ('' @
     ''subscription_name TEXT PRIMARY KEY, last_position TEXT NOT NULL, '' @
     ''updated_at TEXT NOT NULL DEFAULT ('' @ NOW @ '') );''"

definition MIGRATION :: rstring where
  "MIGRATION = lit (''CREATE TABLE IF NOT EXISTS eventcore_events ('' @
     ''event_id TEXT PRIMARY KEY, stream_id TEXT NOT NULL, stream_version INTEGER NOT NULL, '' @
     ''event_type TEXT NOT NULL, event_data TEXT NOT NULL, metadata TEXT NOT NULL DEFAULT '{}', '' @
     ''created_at TEXT NOT NULL DEFAULT ('' @ NOW @ '') ); '' @
     ''CREATE UNIQUE INDEX IF NOT EXISTS idx_eventcore_events_stream_version '' @
     ''ON eventcore_events (stream_id, stream_version); '' @
     ''CREATE INDEX IF NOT EXISTS idx_eventcore_events_stream_id ON eventcore_events (stream_id); '' @
     CREATE_CHECKPOINTS @
     '' CREATE TABLE IF NOT EXISTS eventcore_command_state_snapshots ('' @
     ''snapshot_id TEXT PRIMARY KEY, snapshot_data TEXT NOT NULL, '' @
     ''updated_at TEXT NOT NULL DEFAULT ('' @ NOW @ '') );'')"

definition migrate_batch ::
  "('w, 'x) sqlite_driver \<Rightarrow> rstring \<Rightarrow> ('w, 'x sqlite_event_store_error, unit) action" where
  "migrate_batch R sql = failing (\<lambda>x. MigrationFailed (SqliteFailure x)) (sd_execute_batch R sql)"

definition sqlite_migrate ::
  "('w, 'x) sqlite_driver \<Rightarrow> 'w sqlite_store \<Rightarrow> ('x sqlite_event_store_error + unit) \<times> 'w sqlite_store" where
  "sqlite_migrate R = on_connection (migrate_batch R MIGRATION)"

definition sqlite_cp_migrate :: "('w, 'x) sqlite_driver \<Rightarrow> 'w \<Rightarrow> ('x sqlite_event_store_error + unit) \<times> 'w" where
  "sqlite_cp_migrate R = migrate_batch R (lit CREATE_CHECKPOINTS)"

text \<open>
  The printed configuration does not depend on the key. Where a key is configured, the first thing a new
  connection does is to apply it, and a database that cannot be read with it is not opened.
\<close>

lemma debug_redacts: "sqlite_config_debug (c\<lparr>cfg_encryption_key := Some k\<rparr>) = sqlite_config_debug (c\<lparr>cfg_encryption_key := Some k'\<rparr>)"
  by (simp add: sqlite_config_debug_def)

lemma key_applied_first:
  assumes "open_connection R path (Some key) = Inr w"
  shows "\<exists>w0 w1. sd_open R path = Inr w0 \<and> sd_pragma_update R (lit ''key'') key w0 = (Inr (), w1)
    \<and> query_row (sd_connection R) COUNT_MASTER [] (\<lambda>_. Inr ()) w1 = Inr ()
    \<and> sd_pragma_update R (lit ''journal_mode'') (lit ''WAL'') w1 = (Inr (), w)"
  using assms
  by (auto simp: open_connection_def apply_encryption_key_def journal_in_wal_def connection_failed_def andthen_def
      failing_def split: sum.splits prod.splits)

section \<open>Reading a stream\<close>

definition READ_STREAM :: rstring where
  "READ_STREAM = lit ''SELECT event_data FROM eventcore_events WHERE stream_id = ?1 ORDER BY stream_version ASC''"

definition READ_STREAM_AFTER :: rstring where
  "READ_STREAM_AFTER = lit (''SELECT event_data FROM eventcore_events WHERE stream_id = ?1 AND stream_version > ?2''
     @ '' ORDER BY stream_version ASC'')"

text \<open>The reading task sends the rows through a channel; the stream decodes them and ends at the first error.\<close>

fun decode_rows ::
  "('w, 'x, 'json) sqlite_env \<Rightarrow> 'ev event_type \<Rightarrow> stream_id \<Rightarrow> sql_row list \<Rightarrow> 'x option \<Rightarrow> 'ev event_stream" where
  "decode_rows X E sid [] None = []"
| "decode_rows X E sid [] (Some _) = [Inl (StoreFailure ReadStream)]"
| "decode_rows X E sid (row # rows) ended =
     (case get_text row of
        Inl (_ :: 'x rusqlite_error) \<Rightarrow> [Inl (StoreFailure ReadStream)]
      | Inr json \<Rightarrow>
          (case ev_from_json E json of
             None \<Rightarrow> [Inl (DeserializationFailed sid (se_decode_error X json))]
           | Some e \<Rightarrow> Inr e # decode_rows X E sid rows ended))"

definition sqlite_read_stream_from ::
  "('w, 'x, 'json) sqlite_env \<Rightarrow> 'ev event_type \<Rightarrow> 'w sqlite_store \<Rightarrow> stream_id \<Rightarrow> stream_version option
     \<Rightarrow> event_store_error + 'ev event_stream" where
  "sqlite_read_stream_from X E st sid exclusive_version =
     (let D = se_connection X;
          rows = (case exclusive_version of
              None \<Rightarrow> map_err SqliteFailure (sq_rows D READ_STREAM [SqlText (sid_str sid)] (ss_world st))
            | Some v \<Rightarrow> rbind (bind_usize v) (\<lambda>v.
                map_err SqliteFailure (sq_rows D READ_STREAM_AFTER [SqlText (sid_str sid), v] (ss_world st))))
      in Inr (case rows of
           Inl _ \<Rightarrow> [Inl (StoreFailure ReadStream)]
         | Inr (rows, ended) \<Rightarrow> decode_rows X E sid rows ended))"

definition sqlite_read_stream ::
  "('w, 'x, 'json) sqlite_env \<Rightarrow> 'ev event_type \<Rightarrow> 'w sqlite_store \<Rightarrow> stream_id \<Rightarrow> event_store_error + 'ev event_stream" where
  "sqlite_read_stream X E st sid = sqlite_read_stream_from X E st sid None"

definition sqlite_read_stream_after ::
  "('w, 'x, 'json) sqlite_env \<Rightarrow> 'ev event_type \<Rightarrow> 'w sqlite_store \<Rightarrow> stream_id \<Rightarrow> stream_version
     \<Rightarrow> event_store_error + 'ev event_stream" where
  "sqlite_read_stream_after X E st sid v = sqlite_read_stream_from X E st sid (Some v)"

section \<open>Appending\<close>

definition CURRENT_VERSION :: rstring where
  "CURRENT_VERSION = lit ''SELECT COALESCE(MAX(stream_version), 0) FROM eventcore_events WHERE stream_id = ?1''"

fun check_expected ::
  "('w, 'x) sqlite_connection \<Rightarrow> (stream_id, stream_version) hashmap \<Rightarrow> 'w \<Rightarrow> event_store_error + unit" where
  "check_expected D [] w = Inr ()"
| "check_expected D ((sid, expected) # rest) w =
     (case query_row D CURRENT_VERSION [SqlText (sid_str sid)] get_usize w of
        Inl _ \<Rightarrow> Inl (StoreFailure AppendEvents)
      | Inr current \<Rightarrow>
          if current \<noteq> expected then Inl (VersionConflict sid expected current) else check_expected D rest w)"

text \<open>The loop over the entries: an identifier and the next version of its stream for each, as bound values.\<close>

fun bind_entries ::
  "('w, 'x, 'json) sqlite_env \<Rightarrow> (stream_id, usize) hashmap \<Rightarrow> 'ev write_entry list
     \<Rightarrow> ('w sqlite_store, event_store_error, sql_value list) action" where
  "bind_entries X versions [] st = (Inr [], st)"
| "bind_entries X versions (en # ens) st =
     (let event_id = se_show_uuid X (se_now_v7 X (ss_uuid_calls st)); sid = we_stream_id en;
          st = st\<lparr>ss_uuid_calls := Suc (ss_uuid_calls st)\<rparr> in
      case hm_get versions sid of
        None \<Rightarrow> (Inl (UndeclaredStream sid), st)
      | Some counter \<Rightarrow>
          andthen (bind_entries X (hm_insert sid (counter + 1) versions) ens) (\<lambda>bound.
            pass ([SqlText event_id, SqlText (sid_str sid), SqlInteger (counter + 1), SqlText (we_event_type en),
                   SqlText (we_event_data en)] @ bound)) st)"

text \<open>\<open>slice::chunks\<close>.\<close>

fun chunks :: "nat \<Rightarrow> 'a list \<Rightarrow> 'a list list" where
  "chunks n xs = (if n = 0 \<or> xs = [] then [] else take n xs # chunks n (drop n xs))"

declare chunks.simps [simp del]

definition INSERT_EVENTS :: rstring where
  "INSERT_EVENTS = lit (''INSERT INTO eventcore_events''
     @ '' (event_id, stream_id, stream_version, event_type, event_data, metadata) VALUES '')"

definition ROW_PLACEHOLDER :: rstring where
  "ROW_PLACEHOLDER = lit ''(?,?,?,?,?,'{}')''"

definition insert_sql :: "nat \<Rightarrow> rstring" where
  "insert_sql row_count = INSERT_EVENTS @ join_with (lit '','') (replicate row_count ROW_PLACEHOLDER)"

fun insert_chunks ::
  "('w, 'x) sqlite_connection \<Rightarrow> sql_value list list \<Rightarrow> ('w, event_store_error, unit) action" where
  "insert_chunks D [] w = (Inr (), w)"
| "insert_chunks D (chunk # rest) w =
     andthen (failing (\<lambda>_. StoreFailure AppendEvents) (sq_execute D (insert_sql (length chunk div 5)) chunk))
       (\<lambda>_. insert_chunks D rest) w"

definition sqlite_append_events ::
  "('w, 'x, 'json) sqlite_env \<Rightarrow> 'w sqlite_store \<Rightarrow> 'ev stream_writes \<Rightarrow> (event_store_error + unit) \<times> 'w sqlite_store" where
  "sqlite_append_events X st w =
     (if entries w = [] then (Inr (), st)
      else let D = se_connection X in
        in_transaction D (andthen (\<lambda>st. (check_expected D (expected_versions w) (ss_world st), st)) (\<lambda>_.
          andthen (bind_entries X (expected_versions w) (entries w)) (\<lambda>bound.
          on_connection (insert_chunks D (chunks 500 bound))))) st)"

section \<open>Snapshots\<close>

definition SELECT_SNAPSHOT :: rstring where
  "SELECT_SNAPSHOT = lit ''SELECT snapshot_data FROM eventcore_command_state_snapshots WHERE snapshot_id = ?1''"

definition UPSERT_SNAPSHOT :: rstring where
  "UPSERT_SNAPSHOT = lit (''INSERT INTO eventcore_command_state_snapshots (snapshot_id, snapshot_data, updated_at)''
     @ '' VALUES (?1, ?2, '' @ NOW @ '') ON CONFLICT (snapshot_id) DO UPDATE SET''
     @ '' snapshot_data = excluded.snapshot_data, updated_at = '' @ NOW)"

definition sqlite_load_snapshot ::
  "('w, 'x, 'json) sqlite_env \<Rightarrow> 'w sqlite_store \<Rightarrow> rstring \<Rightarrow> event_store_error + 'json command_state_snapshot option" where
  "sqlite_load_snapshot X st i =
     (case query_optional (se_connection X) SELECT_SNAPSHOT [SqlText i] get_text (ss_world st) of
        Inl _ \<Rightarrow> Inl (StoreFailure ReadStream)
      | Inr None \<Rightarrow> Inr None
      | Inr (Some data) \<Rightarrow>
          (case se_snapshot_from_json X data of None \<Rightarrow> Inl (StoreFailure ReadStream) | Some s \<Rightarrow> Inr (Some s)))"

definition sqlite_save_snapshot ::
  "('w, 'x, 'json) sqlite_env \<Rightarrow> 'w sqlite_store \<Rightarrow> rstring \<Rightarrow> 'json command_state_snapshot
     \<Rightarrow> (event_store_error + unit) \<times> 'w sqlite_store" where
  "sqlite_save_snapshot X st i snapshot =
     (case se_snapshot_to_json X snapshot of
        None \<Rightarrow> (Inl (StoreFailure AppendEvents), st)
      | Some serialized \<Rightarrow>
          let D = se_connection X in
          in_transaction D (andthen (\<lambda>st.
              ((case query_optional D SELECT_SNAPSHOT [SqlText i] get_text (ss_world st) of
                 Inl _ \<Rightarrow> Inl (StoreFailure AppendEvents)
               | Inr None \<Rightarrow> Inr True
               | Inr (Some data) \<Rightarrow>
                   (case se_snapshot_from_json X data of
                      None \<Rightarrow> Inl (StoreFailure AppendEvents) | Some current \<Rightarrow> Inr (covers snapshot current))), st))
            (\<lambda>should_save.
              if should_save then on_connection (failing (\<lambda>_. StoreFailure AppendEvents)
                (sq_execute D UPSERT_SNAPSHOT [SqlText i, SqlText serialized]))
              else pass ())) st)"

definition sqlite_ops ::
  "('w, 'x, 'json) sqlite_env \<Rightarrow> 'ev event_type \<Rightarrow> ('w sqlite_store, 'ev, 'json) store_ops" where
  "sqlite_ops X E =
     \<lparr>op_read = sqlite_read_stream X E, op_read_after = sqlite_read_stream_after X E, op_append = sqlite_append_events X,
      op_load_snapshot = sqlite_load_snapshot X, op_save_snapshot = sqlite_save_snapshot X\<rparr>"

section \<open>EventReader\<close>

text \<open>\<open>format!("?{}", n)\<close>; there are at most four bound values.\<close>

definition placeholder :: "nat \<Rightarrow> rstring" where
  "placeholder n = lit ''?'' @ [48 + n]"

text \<open>Each condition takes the number of its bound value; the values follow in the same order.\<close>

definition page_conditions :: "rstring \<Rightarrow> event_filter \<Rightarrow> rstring option \<Rightarrow> (string \<times> sql_value) list" where
  "page_conditions own_type f after_id =
     (case after_id of None \<Rightarrow> [] | Some u \<Rightarrow> [(''event_id > '', SqlText u)])
   @ (case ef_stream_prefix f of
        Some p \<Rightarrow> [(''stream_id LIKE '', SqlText (prefix_str p @ lit ''%''))]
      | None \<Rightarrow> (case ef_stream_pattern f of Some p \<Rightarrow> [(''stream_id GLOB '', SqlText (pattern_str p))] | None \<Rightarrow> []))
   @ [(''event_type = '', SqlText (case ef_event_type f of None \<Rightarrow> own_type | Some t \<Rightarrow> t))]"

definition page_sql :: "string list \<Rightarrow> rstring" where
  "page_sql conditions =
     lit ''SELECT event_id, event_data FROM eventcore_events WHERE ''
     @ join_with (lit '' AND '') (map (\<lambda>(i, c). lit c @ placeholder (Suc i)) (enumerate 0 conditions))
     @ lit '' ORDER BY event_id LIMIT '' @ placeholder (Suc (length conditions))"

definition get_two_texts :: "sql_row \<Rightarrow> 'x rusqlite_error + rstring \<times> rstring" where
  "get_two_texts row = rbind (get_text row) (\<lambda>a. rbind (get_text (tl row)) (\<lambda>b. Inr (a, b)))"

definition sqlite_read_events ::
  "('w, 'x, 'json) sqlite_env \<Rightarrow> 'ev event_type \<Rightarrow> 'w sqlite_store \<Rightarrow> event_filter \<Rightarrow> event_page
     \<Rightarrow> event_store_error + ('ev \<times> stream_position) list" where
  "sqlite_read_events X E st f pg =
     (let after_id = map_option (\<lambda>p. se_show_uuid X (pos_uuid p)) (after_position pg);
          conditions = page_conditions (ev_type_name E) f after_id;
          sql = page_sql (map fst conditions);
          values = map snd conditions @ [SqlInteger (page_limit pg)] in
      case sq_rows (se_connection X) sql values (ss_world st) of
        Inl _ \<Rightarrow> Inl (StoreFailure ReadStream)
      | Inr (rows, ended) \<Rightarrow>
          (case collect_results (map get_two_texts rows) of
             Inl (_ :: 'x rusqlite_error) \<Rightarrow> Inl (StoreFailure ReadStream)
           | Inr rows \<Rightarrow>
               if ended \<noteq> None then Inl (StoreFailure ReadStream)
               else Inr (List.map_filter (\<lambda>(event_id, data).
                 (case se_parse_uuid X event_id of
                    Inl _ \<Rightarrow> None
                  | Inr u \<Rightarrow> map_option (\<lambda>e. (e, StreamPosition u)) (ev_from_json E data))) rows)))"

section \<open>CheckpointStore\<close>

datatype 'x sqlite_checkpoint_error = DatabaseError "'x rusqlite_error" | CorruptedCheckpoint rstring rstring
  | CheckpointTaskFailed rstring

definition SELECT_CHECKPOINT :: rstring where
  "SELECT_CHECKPOINT = lit ''SELECT last_position FROM eventcore_subscription_versions WHERE subscription_name = ?1''"

definition UPSERT_CHECKPOINT :: rstring where
  "UPSERT_CHECKPOINT = lit (''INSERT INTO eventcore_subscription_versions (subscription_name, last_position, updated_at)''
     @ '' VALUES (?1, ?2, '' @ NOW @ '') ON CONFLICT (subscription_name) DO UPDATE SET last_position = ?2, updated_at = '' @ NOW)"

definition sqlite_checkpoint_load ::
  "('w, 'x, 'json) sqlite_env \<Rightarrow> 'w \<Rightarrow> rstring \<Rightarrow> 'x sqlite_checkpoint_error + stream_position option" where
  "sqlite_checkpoint_load X w name =
     (case query_optional (se_connection X) SELECT_CHECKPOINT [SqlText name] get_text w of
        Inl e \<Rightarrow> Inl (DatabaseError e)
      | Inr None \<Rightarrow> Inr None
      | Inr (Some text) \<Rightarrow>
          (case se_parse_uuid X text of
             Inl e \<Rightarrow> Inl (CorruptedCheckpoint text e) | Inr u \<Rightarrow> Inr (Some (StreamPosition u))))"

definition sqlite_checkpoint_save ::
  "('w, 'x, 'json) sqlite_env \<Rightarrow> rstring \<Rightarrow> rstring \<Rightarrow> ('w, 'x sqlite_checkpoint_error, unit) action" where
  "sqlite_checkpoint_save X name position_text =
     failing (\<lambda>x. DatabaseError (SqliteFailure x))
       (sq_execute (se_connection X) UPSERT_CHECKPOINT [SqlText name, SqlText position_text])"

text \<open>The event store keeps its checkpoints in its own database; \<open>SqliteCheckpointStore\<close> holds only a connection.\<close>

definition sqlite_load_checkpoint ::
  "('w, 'x, 'json) sqlite_env \<Rightarrow> 'w sqlite_store \<Rightarrow> rstring \<Rightarrow> 'x sqlite_checkpoint_error + stream_position option" where
  "sqlite_load_checkpoint X st name = sqlite_checkpoint_load X (ss_world st) name"

definition sqlite_save_checkpoint ::
  "('w, 'x, 'json) sqlite_env \<Rightarrow> 'w sqlite_store \<Rightarrow> rstring \<Rightarrow> stream_position
     \<Rightarrow> ('x sqlite_checkpoint_error + unit) \<times> 'w sqlite_store" where
  "sqlite_save_checkpoint X st name p = on_connection (sqlite_checkpoint_save X name (se_show_uuid X (pos_uuid p))) st"

definition sqlite_cp_load ::
  "('w, 'x, 'json) sqlite_env \<Rightarrow> 'w \<Rightarrow> rstring \<Rightarrow> 'x sqlite_checkpoint_error + stream_position option" where
  "sqlite_cp_load X w name = sqlite_checkpoint_load X w name"

definition sqlite_cp_save ::
  "('w, 'x, 'json) sqlite_env \<Rightarrow> 'w \<Rightarrow> rstring \<Rightarrow> stream_position \<Rightarrow> ('x sqlite_checkpoint_error + unit) \<times> 'w" where
  "sqlite_cp_save X w name p = sqlite_checkpoint_save X name (se_show_uuid X (pos_uuid p)) w"

section \<open>Leading\<close>

definition sqlite_try_acquire ::
  "'w sqlite_store \<Rightarrow> rstring \<Rightarrow> (sqlite_coordination_error + sqlite_guard) \<times> 'w sqlite_store" where
  "sqlite_try_acquire st name =
     (let (r, s) = try_acquire_lock (ss_coordinator st) name in (r, st\<lparr>ss_coordinator := s\<rparr>))"

definition sqlite_drop_guard :: "'w sqlite_store \<Rightarrow> sqlite_guard \<Rightarrow> 'w sqlite_store" where
  "sqlite_drop_guard st g = st\<lparr>ss_coordinator := drop_sqlite_guard (ss_coordinator st) g\<rparr>"

end
