(* ===== verification/Sqlite_Correct.thy ===== *)
theory Sqlite_Correct
  imports Sqlite_Store Snapshot_Serializable
begin

text \<open>
  Correctness of the SQLite back end against what SQLite documents: the tables, what the statements of the back
  end do to them, the invariant that ties versions to histories, and the interpretation of the store's contract.
\<close>

section \<open>Tables\<close>

text \<open>The columns the statements read or bind, without the time stamps and the constant metadata.\<close>

record event_row =
  row_event_id :: rstring
  row_stream :: rstring
  row_version :: "64 word"
  row_type :: rstring
  row_data :: rstring

record tables =
  tb_events :: "event_row list"
  tb_snapshots :: "(rstring, rstring) hashmap"
  tb_checkpoints :: "(rstring, rstring) hashmap"

text \<open>What a connection sees, and what ending its open transaction, if any, would restore.\<close>

record 'w sqlite_view =
  sv_now :: "'w \<Rightarrow> tables"
  sv_saved :: "'w \<Rightarrow> tables option"

definition row_values :: "event_row \<Rightarrow> sql_value list" where
  "row_values r = [SqlText (row_event_id r), SqlText (row_stream r), SqlInteger (row_version r),
     SqlText (row_type r), SqlText (row_data r)]"

definition rows_of :: "tables \<Rightarrow> rstring \<Rightarrow> event_row list" where
  "rows_of tb s = filter (\<lambda>r. row_stream r = s) (tb_events tb)"

definition stream_rows :: "tables \<Rightarrow> rstring \<Rightarrow> event_row list" where
  "stream_rows tb s = sort_key (\<lambda>r. sint (row_version r)) (rows_of tb s)"

definition data_column :: "event_row list \<Rightarrow> sql_row list" where
  "data_column rs = map (\<lambda>r. [SqlText (row_data r)]) rs"

definition keyed :: "(rstring, rstring) hashmap \<Rightarrow> rstring \<Rightarrow> sql_row list" where
  "keyed m k = (case hm_get m k of None \<Rightarrow> [] | Some v \<Rightarrow> [[SqlText v]])"

section \<open>What SQLite documents\<close>

text \<open>A query that sees the rows \<open>rows\<close> fails at once, fails after some of them, or gives them all.\<close>

definition answers :: "'x + sql_row list \<times> 'x option \<Rightarrow> sql_row list \<Rightarrow> bool" where
  "answers r rows \<longleftrightarrow> (case r of
      Inl _ \<Rightarrow> True
    | Inr (seen, None) \<Rightarrow> seen = rows
    | Inr (seen, Some _) \<Rightarrow> (\<exists>unseen. rows = seen @ unseen))"

text \<open>A query sees the tables. Whether it fails is left open.\<close>

definition sqlite_reads :: "'w sqlite_view \<Rightarrow> ('w, 'x) sqlite_connection \<Rightarrow> bool" where
  "sqlite_reads V D \<longleftrightarrow> (\<forall>w k v.
     answers (sq_rows D READ_STREAM [SqlText k] w) (data_column (stream_rows (sv_now V w) k))
   \<and> answers (sq_rows D READ_STREAM_AFTER [SqlText k, SqlInteger v] w)
       (data_column (filter (\<lambda>r. sint v < sint (row_version r)) (stream_rows (sv_now V w) k)))
   \<and> answers (sq_rows D CURRENT_VERSION [SqlText k] w)
       [[SqlInteger (case stream_rows (sv_now V w) k of [] \<Rightarrow> 0 | rs \<Rightarrow> row_version (last rs))]]
   \<and> answers (sq_rows D SELECT_SNAPSHOT [SqlText k] w) (keyed (tb_snapshots (sv_now V w)) k)
   \<and> answers (sq_rows D SELECT_CHECKPOINT [SqlText k] w) (keyed (tb_checkpoints (sv_now V w)) k))"

lemma answers_first:
  assumes "answers (sq_rows D sql vals w) rows" "query_optional D sql vals get w = Inr r"
  shows "case rows of [] \<Rightarrow> r = None | row # _ \<Rightarrow> map_sum id Some (get row) = Inr r"
  using assms
  by (auto simp: answers_def query_optional_def split: sum.splits prod.splits list.splits option.splits)

text \<open>The transaction that would restore \<open>t\<close> is open, or has been ended by an error that did so.\<close>

definition undoable :: "'w sqlite_view \<Rightarrow> tables \<Rightarrow> 'w \<Rightarrow> bool" where
  "undoable V t w \<longleftrightarrow> sv_saved V w = Some t \<or> sv_saved V w = None \<and> sv_now V w = t"

text \<open>A statement that may fail within a transaction, and that changes the tables by \<open>f\<close> if it does not.\<close>

definition changes :: "'w sqlite_view \<Rightarrow> (tables \<Rightarrow> tables) \<Rightarrow> ('w, 'x, unit) action \<Rightarrow> bool" where
  "changes V f m \<longleftrightarrow> (\<forall>w t. sv_saved V w = Some t \<longrightarrow>
     ends m (\<lambda>_ w'. sv_now V w' = f (sv_now V w) \<and> sv_saved V w' = Some t) (\<lambda>_. undoable V t) w)"

definition sqlite_transactions :: "'w sqlite_view \<Rightarrow> ('w, 'x) sqlite_connection \<Rightarrow> bool" where
  "sqlite_transactions V D \<longleftrightarrow>
     (\<forall>w. sv_saved V w = None \<longrightarrow>
        ends (sq_begin D) (\<lambda>_ w'. sv_now V w' = sv_now V w \<and> sv_saved V w' = Some (sv_now V w))
          (\<lambda>_ w'. sv_now V w' = sv_now V w \<and> sv_saved V w' = None) w)
   \<and> (\<forall>w t. sv_saved V w = Some t \<longrightarrow>
        ends (sq_commit D) (\<lambda>_ w'. sv_now V w' = sv_now V w \<and> sv_saved V w' = None) (\<lambda>_. undoable V t) w)
   \<and> (\<forall>w t. undoable V t w \<longrightarrow> sv_now V (sq_rollback D w) = t \<and> sv_saved V (sq_rollback D w) = None)"

text \<open>A table has fewer than \<open>2 ^ 63\<close> rows, and 500 values are within the limit of a statement.\<close>

definition sqlite_writes :: "'w sqlite_view \<Rightarrow> ('w, 'x) sqlite_connection \<Rightarrow> bool" where
  "sqlite_writes V D \<longleftrightarrow> (\<forall>w. length (tb_events (sv_now V w)) < 2 ^ 63)
   \<and> (\<forall>rs. rs \<noteq> [] \<and> length rs \<le> 100 \<longrightarrow>
        changes V (\<lambda>tb. tb\<lparr>tb_events := tb_events tb @ rs\<rparr>)
          (sq_execute D (insert_sql (length rs)) (concat (map row_values rs))))
   \<and> (\<forall>k v. changes V (\<lambda>tb. tb\<lparr>tb_snapshots := hm_insert k v (tb_snapshots tb)\<rparr>)
        (sq_execute D UPSERT_SNAPSHOT [SqlText k, SqlText v]))
   \<and> (\<forall>w k v. sv_saved V w = None \<longrightarrow>
        ends (sq_execute D UPSERT_CHECKPOINT [SqlText k, SqlText v])
          (\<lambda>_ w'. sv_now V w' = (sv_now V w)\<lparr>tb_checkpoints := hm_insert k v (tb_checkpoints (sv_now V w))\<rparr>
             \<and> sv_saved V w' = None)
          (\<lambda>_ w'. sv_now V w' = sv_now V w \<and> sv_saved V w' = None) w)"

definition sqlite_laws :: "'w sqlite_view \<Rightarrow> ('w, 'x) sqlite_connection \<Rightarrow> bool" where
  "sqlite_laws V D \<longleftrightarrow> sqlite_reads V D \<and> sqlite_transactions V D \<and> sqlite_writes V D"

section \<open>Transactions\<close>

abbreviation here :: "'w sqlite_view \<Rightarrow> 'w sqlite_store \<Rightarrow> tables" where
  "here V st \<equiv> sv_now V (ss_world st)"

abbreviation at_rest :: "'w sqlite_view \<Rightarrow> 'w sqlite_store \<Rightarrow> bool" where
  "at_rest V st \<equiv> sv_saved V (ss_world st) = None"

lemma ends_on_connection [simp]:
  "ends (on_connection m) Q R st
     = ends m (\<lambda>a w. Q a (st\<lparr>ss_world := w\<rparr>)) (\<lambda>e w. R e (st\<lparr>ss_world := w\<rparr>)) (ss_world st)"
  by (simp add: ends_def on_connection_def Let_def split: prod.splits)

lemma in_transaction_ends:
  assumes laws: "sqlite_transactions V D" and at_rest: "at_rest V st"
    and body: "\<And>st1. here V st1 = here V st \<Longrightarrow> sv_saved V (ss_world st1) = Some (here V st) \<Longrightarrow>
      ss_uuid_calls st1 = ss_uuid_calls st \<Longrightarrow>
      ends body (\<lambda>a st'. Q a (here V st') (ss_uuid_calls st') \<and> sv_saved V (ss_world st') = Some (here V st))
        (\<lambda>e st'. R e (ss_uuid_calls st') \<and> undoable V (here V st) (ss_world st')) st1"
    and R: "R (StoreFailure BeginTransaction) (ss_uuid_calls st)"
      "\<And>a tb n. Q a tb n \<Longrightarrow> R (StoreFailure CommitTransaction) n"
  shows "ends (in_transaction D body) (\<lambda>a st'. Q a (here V st') (ss_uuid_calls st') \<and> at_rest V st')
    (\<lambda>e st'. R e (ss_uuid_calls st') \<and> here V st' = here V st \<and> at_rest V st') st"
proof -
  let ?t = "here V st"
  let ?rest = "andthen body (\<lambda>a. andthen (failing (\<lambda>_. StoreFailure CommitTransaction) (on_connection (sq_commit D)))
      (\<lambda>_. pass a))"
  have rest: "ends ?rest (\<lambda>a st'. Q a (here V st') (ss_uuid_calls st') \<and> at_rest V st')
      (\<lambda>e st'. R e (ss_uuid_calls st') \<and> undoable V ?t (ss_world st')) st1"
    if "here V st1 = ?t" "sv_saved V (ss_world st1) = Some ?t" "ss_uuid_calls st1 = ss_uuid_calls st" for st1
  proof -
    have "ends (sq_commit D) (\<lambda>_ w. Q a (sv_now V w) (ss_uuid_calls st2) \<and> sv_saved V w = None)
        (\<lambda>_ w. R (StoreFailure CommitTransaction) (ss_uuid_calls st2) \<and> undoable V ?t w) (ss_world st2)"
      if "Q a (here V st2) (ss_uuid_calls st2)" "sv_saved V (ss_world st2) = Some ?t" for a st2
      using laws that R(2) [OF that(1)] unfolding sqlite_transactions_def
      by (elim conjE allE [of _ "ss_world st2"] allE [of _ ?t]) (auto elim!: ends_mono)
    then show ?thesis using body [OF that] by (auto elim!: ends_mono)
  qed
  have begun: "ends (sq_begin D) (\<lambda>_ w. sv_now V w = ?t \<and> sv_saved V w = Some ?t)
      (\<lambda>_ w. sv_now V w = ?t \<and> sv_saved V w = None) (ss_world st)"
    using laws at_rest unfolding sqlite_transactions_def by blast
  have undo: "sv_now V (sq_rollback D w) = ?t \<and> sv_saved V (sq_rollback D w) = None" if "undoable V ?t w" for w
    using laws that unfolding sqlite_transactions_def by blast
  have "ends (\<lambda>st. case ?rest st of (Inl e, st) \<Rightarrow> (Inl e, st\<lparr>ss_world := sq_rollback D (ss_world st)\<rparr>)
        | (Inr a, st) \<Rightarrow> (Inr a, st)) (\<lambda>a st'. Q a (here V st') (ss_uuid_calls st') \<and> at_rest V st')
      (\<lambda>e st'. R e (ss_uuid_calls st') \<and> here V st' = ?t \<and> at_rest V st') st1"
    if "here V st1 = ?t" "sv_saved V (ss_world st1) = Some ?t" "ss_uuid_calls st1 = ss_uuid_calls st" for st1
    using rest [OF that] undo by (auto simp: ends_def split: prod.splits sum.splits)
  then show ?thesis
    unfolding in_transaction_def using begun R(1) by (auto elim!: ends_mono)
qed

section \<open>Inserting in chunks\<close>

lemma row_values_length [simp]: "length (row_values r) = 5"
  by (simp add: row_values_def)

lemma length_rows [simp]: "length (concat (map row_values rs)) = 5 * length rs"
  by (induction rs) simp_all

lemma take_rows: "take (5 * n) (concat (map row_values rs)) = concat (map row_values (take n rs))"
  by (induction rs arbitrary: n) (simp, case_tac n, simp_all)

lemma drop_rows: "drop (5 * n) (concat (map row_values rs)) = concat (map row_values (drop n rs))"
  by (induction rs arbitrary: n) (simp, case_tac n, simp_all)

lemma chunks_rows:
  assumes "0 < n"
  shows "\<exists>css. chunks (5 * n) (concat (map row_values rs)) = map (\<lambda>c. concat (map row_values c)) css
    \<and> concat css = rs \<and> (\<forall>c \<in> set css. c \<noteq> [] \<and> length c \<le> n)"
proof (induction "length rs" arbitrary: rs rule: less_induct)
  case less
  show ?case
  proof (cases "rs = []")
    case True
    then show ?thesis by (intro exI [of _ "[]"]) (simp add: chunks.simps)
  next
    case False
    then have ne: "concat (map row_values rs) \<noteq> []"
      by (metis length_0_conv length_rows mult_eq_0_iff zero_neq_numeral)
    have "length (drop n rs) < length rs" using assms False by simp
    from less [OF this] obtain css where css:
      "chunks (5 * n) (concat (map row_values (drop n rs))) = map (\<lambda>c. concat (map row_values c)) css"
      "concat css = drop n rs" "\<forall>c \<in> set css. c \<noteq> [] \<and> length c \<le> n" by blast
    have "chunks (5 * n) (concat (map row_values rs))
        = concat (map row_values (take n rs)) # chunks (5 * n) (concat (map row_values (drop n rs)))"
      using assms ne by (subst chunks.simps) (simp add: take_rows drop_rows)
    then show ?thesis using css assms False by (intro exI [of _ "take n rs # css"]) auto
  qed
qed

lemma insert_chunks_ends:
  assumes "sqlite_writes V D" "\<forall>c \<in> set css. c \<noteq> [] \<and> length c \<le> 100" "sv_saved V w = Some t"
  shows "ends (insert_chunks D (map (\<lambda>c. concat (map row_values c)) css))
    (\<lambda>_ w'. sv_now V w' = (sv_now V w)\<lparr>tb_events := tb_events (sv_now V w) @ concat css\<rparr> \<and> sv_saved V w' = Some t)
    (\<lambda>e w'. e = StoreFailure AppendEvents \<and> undoable V t w') w"
  using assms(2,3)
proof (induction css arbitrary: w)
  case Nil
  then show ?case by (simp add: ends_def)
next
  case (Cons c css)
  let ?m = "sq_execute D (insert_sql (length c)) (concat (map row_values c))"
  have "changes V (\<lambda>tb. tb\<lparr>tb_events := tb_events tb @ c\<rparr>) ?m"
    using assms(1) Cons.prems(1) unfolding sqlite_writes_def by auto
  then have "ends ?m (\<lambda>_ w'. sv_now V w' = (sv_now V w)\<lparr>tb_events := tb_events (sv_now V w) @ c\<rparr> \<and> sv_saved V w' = Some t)
      (\<lambda>_. undoable V t) w"
    using Cons.prems(2) unfolding changes_def by blast
  then have "ends (andthen (failing (\<lambda>_. StoreFailure AppendEvents) ?m)
      (\<lambda>_. insert_chunks D (map (\<lambda>c. concat (map row_values c)) css)))
    (\<lambda>_ w'. sv_now V w' = (sv_now V w)\<lparr>tb_events := tb_events (sv_now V w) @ concat (c # css)\<rparr> \<and> sv_saved V w' = Some t)
    (\<lambda>e w'. e = StoreFailure AppendEvents \<and> undoable V t w') w"
    unfolding ends_andthen ends_simps
  proof (rule ends_mono, goal_cases)
    case (1 a w1)
    then show ?case using Cons.IH [of w1] Cons.prems(1) by simp
  next
    case (2 e w1)
    then show ?case by simp
  qed
  then show ?case by (simp add: ends_def)
qed

section \<open>The invariant\<close>

text \<open>The versions of every stream count its rows, and every row decodes. Between operations no transaction is open.\<close>

definition tables_ok :: "'ev event_type \<Rightarrow> tables \<Rightarrow> bool" where
  "tables_ok E tb \<longleftrightarrow> length (tb_events tb) < 2 ^ 63
     \<and> (\<forall>s. map row_version (rows_of tb s) = map of_nat [1..<Suc (length (rows_of tb s))])
     \<and> (\<forall>r \<in> set (tb_events tb). ev_from_json E (row_data r) \<noteq> None)"

definition row_event :: "'ev event_type \<Rightarrow> event_row \<Rightarrow> 'ev" where
  "row_event E r = the (ev_from_json E (row_data r))"

definition tables_view :: "'ev event_type \<Rightarrow> tables \<Rightarrow> stream_id \<Rightarrow> 'ev list" where
  "tables_view E tb sid = map (row_event E) (rows_of tb (sid_str sid))"

text \<open>\<open>serde_json\<close> reads back what it wrote.\<close>

definition json_laws :: "('w, 'x, 'json) sqlite_env \<Rightarrow> 'ev event_type \<Rightarrow> bool" where
  "json_laws X E \<longleftrightarrow> (\<forall>e j. ev_to_json E e = Inr j \<longrightarrow> ev_from_json E j = Some e)
     \<and> (\<forall>s j. se_snapshot_to_json X s = Some j \<longrightarrow> se_snapshot_from_json X j = Some s)"

definition sqlite_inv :: "('w, 'x, 'json) sqlite_env \<Rightarrow> 'w sqlite_view \<Rightarrow> 'ev event_type \<Rightarrow> 'w sqlite_store \<Rightarrow> bool" where
  "sqlite_inv X V E st \<longleftrightarrow> sqlite_laws V (se_connection X) \<and> json_laws X E \<and> tables_ok E (here V st) \<and> at_rest V st"

definition sqlite_history :: "'w sqlite_view \<Rightarrow> 'ev event_type \<Rightarrow> 'w sqlite_store \<Rightarrow> stream_id \<Rightarrow> 'ev list" where
  "sqlite_history V E st = tables_view E (here V st)"

definition sqlite_stored ::
  "('w, 'x, 'json) sqlite_env \<Rightarrow> 'w sqlite_view \<Rightarrow> 'w sqlite_store \<Rightarrow> rstring \<Rightarrow> 'json command_state_snapshot option" where
  "sqlite_stored X V st i = Option.bind (hm_get (tb_snapshots (here V st)) i) (se_snapshot_from_json X)"

lemma sint_of_nat_small: "n < 2 ^ 63 \<Longrightarrow> sint (of_nat n :: 64 word) = int n"
  by (simp add: signed_of_nat signed_take_bit_int_eq_self)

lemma sint_small: "unat v < 2 ^ 63 \<Longrightarrow> sint (v :: 64 word) = int (unat v)"
  using sint_of_nat_small [of "unat v"] by simp

lemma rows_bound: "tables_ok E tb \<Longrightarrow> length (rows_of tb s) < 2 ^ 63"
  unfolding tables_ok_def rows_of_def using length_filter_le le_less_trans by blast

lemma row_version_nth:
  assumes "tables_ok E tb" "i < length (rows_of tb s)"
  shows "row_version (rows_of tb s ! i) = of_nat (Suc i)"
    and "sint (row_version (rows_of tb s ! i)) = int (Suc i)"
proof -
  have "map row_version (rows_of tb s) ! i = map of_nat [1..<Suc (length (rows_of tb s))] ! i"
    using assms(1) by (simp add: tables_ok_def)
  then show v: "row_version (rows_of tb s ! i) = of_nat (Suc i)" using assms(2) by (simp del: upt_Suc)
  show "sint (row_version (rows_of tb s ! i)) = int (Suc i)"
    unfolding v by (rule sint_of_nat_small) (use rows_bound [OF assms(1), of s] assms(2) in linarith)
qed

lemma stream_rows_eq:
  assumes "tables_ok E tb"
  shows "stream_rows tb s = rows_of tb s"
  unfolding stream_rows_def
  by (rule sort_key_id_if_sorted) (simp add: sorted_iff_nth_mono row_version_nth(2) [OF assms])

lemma rows_after:
  fixes v :: "64 word"
  assumes "tables_ok E tb" "unat v \<le> length (rows_of tb s)"
  shows "filter (\<lambda>r. sint v < sint (row_version r)) (rows_of tb s) = drop (unat v) (rows_of tb s)"
proof -
  let ?rs = "rows_of tb s" and ?p = "\<lambda>r. sint v < sint (row_version r)"
  have "unat v < 2 ^ 63" using assms rows_bound [of E tb s] by linarith
  then have v: "sint v = int (unat v)" by (rule sint_small)
  have "filter ?p (take (unat v) ?rs) = []"
    using v row_version_nth(2) [OF assms(1)] by (auto simp: filter_empty_conv in_set_conv_nth simp del: of_nat_unat)
  moreover have "filter ?p (drop (unat v) ?rs) = drop (unat v) ?rs"
    using v assms(2) row_version_nth(2) [OF assms(1)] by (auto simp: filter_id_conv in_set_conv_nth simp del: of_nat_unat)
  ultimately show ?thesis by (metis append_take_drop_id filter_append append_Nil)
qed

lemma last_version:
  assumes "tables_ok E tb"
  shows "(case rows_of tb s of [] \<Rightarrow> 0 | rs \<Rightarrow> row_version (last rs)) = of_nat (length (rows_of tb s))"
proof (cases "rows_of tb s = []")
  case False
  then have "row_version (last (rows_of tb s)) = of_nat (length (rows_of tb s))"
    using row_version_nth(1) [OF assms, of "length (rows_of tb s) - 1" s] by (simp add: last_conv_nth)
  with False show ?thesis by (auto simp: neq_Nil_conv)
qed simp

section \<open>Reading\<close>

lemma decode_column:
  "\<forall>r \<in> set rs. ev_from_json E (row_data r) \<noteq> None \<Longrightarrow>
     decode_rows X E sid (data_column rs) None = map Inr (map (row_event E) rs)"
  by (induction rs) (auto simp: data_column_def get_text_def row_event_def)

lemma rows_decode: "tables_ok E tb \<Longrightarrow> r \<in> set (rows_of tb s) \<Longrightarrow> ev_from_json E (row_data r) \<noteq> None"
  by (auto simp: tables_ok_def rows_of_def)

text \<open>The stream of a query that fails reports it: after its last row, if not at once.\<close>

lemma decode_prefix_fails:
  "\<exists>e. Inl e \<in> set (decode_rows X E sid rows (Some x))"
proof (induction rows)
  case (Cons row rows)
  then show ?case by (simp split: sum.splits option.splits)
qed simp

lemma decode_answer:
  assumes "answers r (data_column rs)" "\<forall>r \<in> set rs. ev_from_json E (row_data r) \<noteq> None"
    and "items = (case map_err SqliteFailure r of Inl _ \<Rightarrow> [Inl (StoreFailure ReadStream)]
      | Inr (rows, ended) \<Rightarrow> decode_rows X E sid rows ended)"
  shows "items = map Inr (map (row_event E) rs) \<or> (\<exists>e. Inl e \<in> set items)"
proof (cases r)
  case (Inr p)
  obtain rows ended where p: "p = (rows, ended)" by (cases p)
  show ?thesis
  proof (cases ended)
    case None
    then show ?thesis using assms Inr p decode_column [OF assms(2), of X sid] by (simp add: answers_def)
  next
    case (Some x)
    then show ?thesis using assms(3) Inr p decode_prefix_fails [of X E sid rows x] by simp
  qed
qed (use assms(3) in simp)

lemma sqlite_read_view:
  assumes "sqlite_inv X V E st" "sqlite_read_stream X E st sid = Inr items"
  shows "items = map Inr (sqlite_history V E st sid) \<or> (\<exists>e. Inl e \<in> set items)"
proof -
  let ?rs = "rows_of (here V st) (sid_str sid)"
  have ok: "tables_ok E (here V st)" and q: "answers (sq_rows (se_connection X) READ_STREAM [SqlText (sid_str sid)] (ss_world st))
      (data_column (stream_rows (here V st) (sid_str sid)))"
    using assms(1) by (simp_all add: sqlite_inv_def sqlite_laws_def sqlite_reads_def)
  have "\<forall>r \<in> set ?rs. ev_from_json E (row_data r) \<noteq> None" using rows_decode [OF ok] by blast
  from decode_answer [OF q [unfolded stream_rows_eq [OF ok]] this, of items X sid] show ?thesis
    using assms(2)
    by (simp add: sqlite_read_stream_def sqlite_read_stream_from_def sqlite_history_def tables_view_def)
qed

lemma sqlite_read_after_view:
  assumes "sqlite_inv X V E st" "unat v \<le> length (sqlite_history V E st sid)"
    and "sqlite_read_stream_after X E st sid v = Inr items"
  shows "items = map Inr (drop (unat v) (sqlite_history V E st sid)) \<or> (\<exists>e. Inl e \<in> set items)"
proof -
  let ?rs = "rows_of (here V st) (sid_str sid)"
  have ok: "tables_ok E (here V st)"
    and q: "answers (sq_rows (se_connection X) READ_STREAM_AFTER [SqlText (sid_str sid), SqlInteger v] (ss_world st))
      (data_column (filter (\<lambda>r. sint v < sint (row_version r)) (stream_rows (here V st) (sid_str sid))))"
    using assms(1) by (simp_all add: sqlite_inv_def sqlite_laws_def sqlite_reads_def)
  have within: "unat v \<le> length ?rs" using assms(2) by (simp add: sqlite_history_def tables_view_def)
  then have "unat v < 2 ^ 63" using rows_bound [OF ok, of "sid_str sid"] by linarith
  then have bound: "\<not> sint v < 0" using sint_small [of v] by simp
  have "\<forall>r \<in> set (drop (unat v) ?rs). ev_from_json E (row_data r) \<noteq> None"
    using rows_decode [OF ok] by (blast dest: in_set_dropD)
  from decode_answer [OF q [unfolded stream_rows_eq [OF ok] rows_after [OF ok within]] this, of items X sid] show ?thesis
    using assms(3) bound
    by (simp add: sqlite_read_stream_after_def sqlite_read_stream_from_def bind_usize_def sqlite_history_def
        tables_view_def drop_map)
qed

section \<open>Appending\<close>

text \<open>The check sees the real version of each stream, unless the query fails.\<close>

lemma current_version_row:
  assumes "sqlite_reads V D" "tables_ok E (sv_now V w)"
    and found: "query_row D CURRENT_VERSION [SqlText (sid_str sid)] get_usize w = Inr n"
  shows "n = vlen (tables_view E (sv_now V w) sid)"
proof -
  let ?n = "of_nat (length (rows_of (sv_now V w) (sid_str sid))) :: usize"
  have "answers (sq_rows D CURRENT_VERSION [SqlText (sid_str sid)] w)
      [[SqlInteger (case stream_rows (sv_now V w) (sid_str sid) of [] \<Rightarrow> 0 | rs \<Rightarrow> row_version (last rs))]]"
    using assms(1) unfolding sqlite_reads_def by blast
  then have q: "answers (sq_rows D CURRENT_VERSION [SqlText (sid_str sid)] w) [[SqlInteger ?n]]"
    unfolding stream_rows_eq [OF assms(2)] last_version [OF assms(2)] .
  have "query_optional D CURRENT_VERSION [SqlText (sid_str sid)] get_usize w = Inr (Some n)"
    using found unfolding query_row_def
    by (cases "query_optional D CURRENT_VERSION [SqlText (sid_str sid)] get_usize w") (auto split: option.splits)
  from answers_first [OF q this] show ?thesis
    using rows_bound [OF assms(2), of "sid_str sid"]
    by (simp add: get_usize_def sint_of_nat_small vlen_def tables_view_def)
qed

lemma check_expected_result:
  assumes "sqlite_reads V D" "tables_ok E (sv_now V w)"
  shows "(case check_expected D ex w of
      Inr _ \<Rightarrow> \<forall>(sid, v) \<in> set ex. v = vlen (tables_view E (sv_now V w) sid)
    | Inl e \<Rightarrow> e = StoreFailure AppendEvents
        \<or> (\<exists>(sid, v) \<in> set ex. e = VersionConflict sid v (vlen (tables_view E (sv_now V w) sid))
             \<and> v \<noteq> vlen (tables_view E (sv_now V w) sid)))"
proof (induction ex)
  case (Cons p ex)
  obtain sid v where p: "p = (sid, v)" by (cases p)
  show ?case
  proof (cases "query_row D CURRENT_VERSION [SqlText (sid_str sid)] get_usize w :: _ rusqlite_error + _")
    case (Inr n)
    then show ?thesis
      using Cons current_version_row [OF assms Inr] by (auto simp: p split: sum.splits)
  qed (simp add: p)
qed simp

text \<open>The rows a batch is bound to.\<close>

fun batch_rows ::
  "('w, 'x, 'json) sqlite_env \<Rightarrow> nat \<Rightarrow> (stream_id \<Rightarrow> usize option) \<Rightarrow> 'ev write_entry list \<Rightarrow> event_row list" where
  "batch_rows X n versions [] = []"
| "batch_rows X n versions (en # ens) =
     (let v = the (versions (we_stream_id en)) + 1 in
      \<lparr>row_event_id = se_show_uuid X (se_now_v7 X n), row_stream = sid_str (we_stream_id en), row_version = v,
        row_type = we_event_type en, row_data = we_event_data en\<rparr>
      # batch_rows X (Suc n) (versions(we_stream_id en \<mapsto> v)) ens)"

lemma bind_entries_rows:
  "ends (bind_entries X versions ens)
     (\<lambda>bound st'. ss_world st' = ss_world st \<and> ss_uuid_calls st' = ss_uuid_calls st + length ens
        \<and> bound = concat (map row_values (batch_rows X (ss_uuid_calls st) (hm_get versions) ens)))
     (\<lambda>e st'. ss_world st' = ss_world st
        \<and> ss_uuid_calls st' \<in> {ss_uuid_calls st..ss_uuid_calls st + length ens}
        \<and> (\<exists>en \<in> set ens. hm_get versions (we_stream_id en) = None \<and> e = UndeclaredStream (we_stream_id en))) st"
proof (induction ens arbitrary: versions st)
  case Nil
  then show ?case by (simp add: ends_def)
next
  case (Cons en ens)
  show ?case
  proof (cases "hm_get versions (we_stream_id en)")
    case None
    then show ?thesis by (simp add: ends_def Let_def)
  next
    case (Some counter)
    let ?st = "st\<lparr>ss_uuid_calls := Suc (ss_uuid_calls st)\<rparr>"
    show ?thesis
      using Cons [of "hm_insert (we_stream_id en) (counter + 1) versions" ?st] Some
      by (auto simp: ends_def Let_def andthen_def pass_def row_values_def fun_upd_def split: prod.splits sum.splits if_splits)
  qed
qed

lemma batch_rows_data: "map row_data (batch_rows X n versions ens) = map we_event_data ens"
  by (induction ens arbitrary: n versions) (simp_all add: Let_def)

lemma batch_rows_stream:
  "map row_data (filter (\<lambda>r. row_stream r = sid_str sid) (batch_rows X n versions ens))
     = map we_event_data (filter (\<lambda>en. we_stream_id en = sid) ens)"
  by (induction ens arbitrary: n versions) (auto simp: Let_def stream_id.expand)

lemma batch_rows_versions:
  assumes "\<forall>en \<in> set ens. versions (we_stream_id en) \<noteq> None"
    and "versions sid = Some (of_nat k)"
  shows "map row_version (filter (\<lambda>r. row_stream r = sid_str sid) (batch_rows X n versions ens))
    = map of_nat [Suc k..<Suc k + length (filter (\<lambda>en. we_stream_id en = sid) ens)]"
  using assms
proof (induction ens arbitrary: n versions k)
  case (Cons en ens)
  let ?v = "the (versions (we_stream_id en)) + 1"
  let ?vs = "versions(we_stream_id en \<mapsto> ?v)"
  have dom: "\<forall>en \<in> set ens. ?vs (we_stream_id en) \<noteq> None" using Cons.prems(1) by simp
  show ?case
  proof (cases "we_stream_id en = sid")
    case True
    then have "?vs sid = Some (of_nat (Suc k))" using Cons.prems(2) by simp
    from Cons.IH [OF dom this] show ?thesis
      using True Cons.prems(2) by (simp add: Let_def upt_conv_Cons fun_upd_def del: upt_Suc)
  next
    case False
    then have "sid_str (we_stream_id en) \<noteq> sid_str sid" by (metis stream_id.expand)
    moreover have "?vs sid = Some (of_nat k)" using Cons.prems(2) False by simp
    ultimately show ?thesis using Cons.IH [OF dom] False by (simp add: Let_def fun_upd_def del: upt_Suc)
  qed
qed simp

lemma append_tables:
  fixes w :: "'ev stream_writes" and X :: "('w, 'x, 'json) sqlite_env"
  defines "rows \<equiv> \<lambda>n. batch_rows X n (hm_get (expected_versions w)) (entries w)"
  assumes ok: "tables_ok E tb" and laws: "json_laws X E" and wf: "wf_writes w"
    and typed: "\<forall>en \<in> set (entries w). typed_entry E en"
    and current: "\<forall>(sid, v) \<in> set (expected_versions w). v = vlen (tables_view E tb sid)"
    and room: "length (tb_events tb @ rows n) < 2 ^ 63"
  shows "tables_ok E (tb\<lparr>tb_events := tb_events tb @ rows n\<rparr>)"
    and "tables_view E (tb\<lparr>tb_events := tb_events tb @ rows n\<rparr>)
      = (\<lambda>sid. tables_view E tb sid @ events_for (entries w) sid)"
proof -
  let ?tb = "tb\<lparr>tb_events := tb_events tb @ rows n\<rparr>"
  have decode: "ev_from_json E (we_event_data en) = Some (we_event en)" if "en \<in> set (entries w)" for en
    using that typed laws by (simp add: typed_entry_def json_laws_def)
  have split: "rows_of ?tb s = rows_of tb s @ filter (\<lambda>r. row_stream r = s) (rows n)" for s
    by (simp add: rows_of_def)
  have events: "map (row_event E) (filter (\<lambda>r. row_stream r = sid_str sid) (rows n)) = events_for (entries w) sid" for sid
  proof -
    have "map (row_event E) (filter (\<lambda>r. row_stream r = sid_str sid) (rows n))
        = map (\<lambda>d. the (ev_from_json E d)) (map row_data (filter (\<lambda>r. row_stream r = sid_str sid) (rows n)))"
      by (simp add: row_event_def)
    also have "\<dots> = map (\<lambda>d. the (ev_from_json E d)) (map we_event_data (filter (\<lambda>en. we_stream_id en = sid) (entries w)))"
      unfolding rows_def by (simp only: batch_rows_stream)
    also have "\<dots> = events_for (entries w) sid" using decode by (simp add: events_for_def)
    finally show ?thesis .
  qed
  then show "tables_view E ?tb = (\<lambda>sid. tables_view E tb sid @ events_for (entries w) sid)"
    by (simp add: tables_view_def split fun_eq_iff)
  have "row_data r \<in> set (map we_event_data (entries w))" if "r \<in> set (rows n)" for r
    using that unfolding rows_def batch_rows_data [of X n "hm_get (expected_versions w)", symmetric] by simp
  then have "\<forall>r \<in> set (tb_events ?tb). ev_from_json E (row_data r) \<noteq> None"
    using ok decode by (force simp: tables_ok_def)
  moreover have "map row_version (rows_of ?tb s) = map of_nat [1..<Suc (length (rows_of ?tb s))]" for s
  proof -
    let ?sid = "StreamId s" and ?k = "length (rows_of tb s)"
    let ?m = "length (filter (\<lambda>en. we_stream_id en = ?sid) (entries w))"
    have m: "length (filter (\<lambda>r. row_stream r = s) (rows n)) = ?m"
      using arg_cong [OF events [of ?sid], of length] by (simp add: events_for_def)
    have new: "map row_version (filter (\<lambda>r. row_stream r = s) (rows n)) = map of_nat [Suc ?k..<Suc ?k + ?m]"
    proof (cases "hm_get (expected_versions w) ?sid")
      case None
      then have "filter (\<lambda>en. we_stream_id en = ?sid) (entries w) = []"
        using wf by (simp add: wf_writes_def filter_empty_conv map_of_eq_None_iff) metis
      then have "?m = 0" by simp
      with m show ?thesis by simp
    next
      case (Some v)
      then have "v = of_nat ?k"
        using current map_of_SomeD [OF Some] by (auto simp: tables_view_def vlen_def)
      moreover have "\<forall>en \<in> set (entries w). hm_get (expected_versions w) (we_stream_id en) \<noteq> None"
        using wf by (simp add: wf_writes_def map_of_eq_None_iff)
      ultimately show ?thesis
        using batch_rows_versions [of "entries w" "hm_get (expected_versions w)" ?sid ?k X n] Some by (simp add: rows_def)
    qed
    have "map row_version (rows_of tb s) = map of_nat [1..<Suc ?k]" using ok unfolding tables_ok_def by blast
    then show ?thesis
      unfolding split map_append new length_append m using upt_add_eq_append [of 1 "Suc ?k" ?m]
      by (simp del: upt_Suc)
  qed
  ultimately show "tables_ok E ?tb" using room unfolding tables_ok_def by simp
qed

text \<open>
  What an append on a store in its invariant does: it fails with the tables as they were, and then the error is a
  real conflict, an undeclared stream, or a failure of a statement; or it adds the rows of the batch.
\<close>

definition append_failure ::
  "'w sqlite_view \<Rightarrow> 'ev event_type \<Rightarrow> 'w sqlite_store \<Rightarrow> 'ev stream_writes \<Rightarrow> event_store_error \<Rightarrow> bool" where
  "append_failure V E st w e \<longleftrightarrow>
     e \<in> {StoreFailure BeginTransaction, StoreFailure AppendEvents, StoreFailure CommitTransaction}
   \<or> (\<exists>(sid, v) \<in> set (expected_versions w).
        e = VersionConflict sid v (vlen (sqlite_history V E st sid)) \<and> v \<noteq> vlen (sqlite_history V E st sid))
   \<or> (\<exists>en \<in> set (entries w). hm_get (expected_versions w) (we_stream_id en) = None \<and> e = UndeclaredStream (we_stream_id en))"

lemma sqlite_append_ends:
  assumes inv: "sqlite_inv X V E st" and ne: "entries w \<noteq> []"
  shows "ends (\<lambda>st. sqlite_append_events X st w)
    (\<lambda>_ st'. (versions_match (sqlite_history V E) st w
        \<and> here V st' = (here V st)\<lparr>tb_events := tb_events (here V st)
             @ batch_rows X (ss_uuid_calls st) (hm_get (expected_versions w)) (entries w)\<rparr>
        \<and> ss_uuid_calls st' = ss_uuid_calls st + length (entries w)) \<and> at_rest V st')
    (\<lambda>e st'. (append_failure V E st w e \<and> ss_uuid_calls st' \<in> {ss_uuid_calls st..ss_uuid_calls st + length (entries w)})
        \<and> here V st' = here V st \<and> at_rest V st') st"
proof -
  let ?D = "se_connection X" and ?t = "here V st"
  let ?rows = "\<lambda>n. batch_rows X n (hm_get (expected_versions w)) (entries w)"
  let ?body = "andthen (\<lambda>st. (check_expected ?D (expected_versions w) (ss_world st), st)) (\<lambda>_.
      andthen (bind_entries X (expected_versions w) (entries w)) (\<lambda>bound. on_connection (insert_chunks ?D (chunks 500 bound))))"
  have laws: "sqlite_reads V ?D" "sqlite_transactions V ?D" "sqlite_writes V ?D" and ok: "tables_ok E ?t" and q: "at_rest V st"
    using inv by (simp_all add: sqlite_inv_def sqlite_laws_def)
  let ?calls = "ss_uuid_calls st" and ?most = "ss_uuid_calls st + length (entries w)"
  let ?Q = "\<lambda>(a :: unit) tb n. versions_match (sqlite_history V E) st w
      \<and> tb = ?t\<lparr>tb_events := tb_events ?t @ ?rows ?calls\<rparr> \<and> n = ?most"
  let ?R = "\<lambda>e n. append_failure V E st w e \<and> n \<in> {?calls..?most}"
  have inserted: "ends (insert_chunks ?D (chunks 500 (concat (map row_values (?rows n)))))
      (\<lambda>_ w'. sv_now V w' = ?t\<lparr>tb_events := tb_events ?t @ ?rows n\<rparr> \<and> sv_saved V w' = Some ?t)
      (\<lambda>e w'. e = StoreFailure AppendEvents \<and> undoable V ?t w') w1"
    if "sv_now V w1 = ?t" "sv_saved V w1 = Some ?t" for n w1
  proof -
    obtain css where "chunks (5 * 100) (concat (map row_values (?rows n))) = map (\<lambda>c. concat (map row_values c)) css"
      "concat css = ?rows n" "\<forall>c \<in> set css. c \<noteq> [] \<and> length c \<le> 100"
      using chunks_rows [of 100 "?rows n"] by auto
    moreover note insert_chunks_ends [OF laws(3) this(3) that(2)]
    ultimately show ?thesis using that(1) by simp
  qed
  have "ends ?body (\<lambda>a st'. ?Q a (here V st') (ss_uuid_calls st') \<and> sv_saved V (ss_world st') = Some ?t)
      (\<lambda>e st'. ?R e (ss_uuid_calls st') \<and> undoable V ?t (ss_world st')) st1"
    if st1: "here V st1 = ?t" "sv_saved V (ss_world st1) = Some ?t" "ss_uuid_calls st1 = ?calls" for st1
  proof -
    note check = check_expected_result [of V ?D E "ss_world st1" "expected_versions w"]
    show ?thesis
    proof (cases "check_expected ?D (expected_versions w) (ss_world st1)")
      case (Inl e)
      then have "append_failure V E st w e"
        using check laws(1) ok st1(1) by (auto simp: append_failure_def sqlite_history_def)
      then show ?thesis using Inl st1 by (simp add: ends_def undoable_def andthen_def)
    next
      case (Inr u)
      then have match: "versions_match (sqlite_history V E) st w"
        using check laws(1) ok st1(1) by (simp add: versions_match_def sqlite_history_def)
      have "ends (andthen (bind_entries X (expected_versions w) (entries w))
          (\<lambda>bound. on_connection (insert_chunks ?D (chunks 500 bound))))
        (\<lambda>a st'. ?Q a (here V st') (ss_uuid_calls st') \<and> sv_saved V (ss_world st') = Some ?t)
        (\<lambda>e st'. ?R e (ss_uuid_calls st') \<and> undoable V ?t (ss_world st')) st1"
        unfolding ends_andthen
      proof (rule ends_mono [OF bind_entries_rows], goal_cases)
        case (1 bound st2)
        then have "ends (insert_chunks ?D (chunks 500 bound))
          (\<lambda>_ w'. sv_now V w' = ?t\<lparr>tb_events := tb_events ?t @ ?rows (ss_uuid_calls st1)\<rparr> \<and> sv_saved V w' = Some ?t)
          (\<lambda>e w'. e = StoreFailure AppendEvents \<and> undoable V ?t w') (ss_world st2)"
          using inserted st1 by simp
        then show ?case
          unfolding ends_on_connection by (rule ends_mono) (use match st1(3) 1 in \<open>auto simp: append_failure_def\<close>)
      next
        case (2 e st2)
        then show ?case using st1 by (auto simp: append_failure_def undoable_def)
      qed
      then show ?thesis using Inr by (simp add: ends_def andthen_def)
    qed
  qed
  note body = this
  have begun: "?R (StoreFailure BeginTransaction) ?calls" by (simp add: append_failure_def)
  have committed: "?R (StoreFailure CommitTransaction) n" if "?Q a tb n" for a tb n
    using that by (simp add: append_failure_def)
  have run: "sqlite_append_events X st w = in_transaction ?D ?body st"
    using ne by (simp only: sqlite_append_events_def if_False Let_def)
  show ?thesis
    using in_transaction_ends [where Q = ?Q and R = ?R, OF laws(2) q body begun committed]
    unfolding ends_def run .
qed

lemma sqlite_append_cases:
  assumes inv: "sqlite_inv X V E st" and app: "sqlite_append_events X st w = (r, st')"
  shows "(case r of
      Inl e \<Rightarrow> append_failure V E st w e \<and> here V st' = here V st
        \<and> ss_uuid_calls st' \<in> {ss_uuid_calls st..ss_uuid_calls st + length (entries w)}
    | Inr _ \<Rightarrow> (entries w \<noteq> [] \<longrightarrow> versions_match (sqlite_history V E) st w)
        \<and> here V st' = (here V st)\<lparr>tb_events := tb_events (here V st)
             @ batch_rows X (ss_uuid_calls st) (hm_get (expected_versions w)) (entries w)\<rparr>
        \<and> ss_uuid_calls st' = ss_uuid_calls st + length (entries w)) \<and> at_rest V st'"
proof (cases "entries w = []")
  case True
  then show ?thesis using app inv by (auto simp: sqlite_append_events_def sqlite_inv_def)
next
  case False
  from sqlite_append_ends [OF inv this] app show ?thesis by (auto simp: ends_def split: sum.splits)
qed

lemma sqlite_append_view:
  assumes inv: "sqlite_inv X V E st" and "wf_writes w" "\<forall>en \<in> set (entries w). typed_entry E en"
    and app: "sqlite_append_events X st w = (Inr u, st')"
  shows "sqlite_inv X V E st'"
    and "sqlite_history V E st' = (\<lambda>sid. sqlite_history V E st sid @ events_for (entries w) sid)"
proof -
  note cases = sqlite_append_cases [OF inv app]
  have n: "here V st' = (here V st)\<lparr>tb_events := tb_events (here V st)
      @ batch_rows X (ss_uuid_calls st) (hm_get (expected_versions w)) (entries w)\<rparr>" using cases by simp
  have laws: "sqlite_laws V (se_connection X)" "json_laws X E" "tables_ok E (here V st)"
    using inv by (simp_all add: sqlite_inv_def)
  have "tables_ok E (here V st')
      \<and> tables_view E (here V st') = (\<lambda>sid. tables_view E (here V st) sid @ events_for (entries w) sid)"
  proof (cases "entries w = []")
    case True
    then show ?thesis using n laws by simp
  next
    case False
    then have "\<forall>(sid, v) \<in> set (expected_versions w). v = vlen (tables_view E (here V st) sid)"
      using cases by (simp add: versions_match_def sqlite_history_def)
    moreover have "length (tb_events (here V st')) < 2 ^ 63"
      using laws(1) unfolding sqlite_laws_def sqlite_writes_def by blast
    ultimately show ?thesis unfolding n using append_tables [OF laws(3,2) assms(2,3)] by simp
  qed
  then show "sqlite_inv X V E st'"
    "sqlite_history V E st' = (\<lambda>sid. sqlite_history V E st sid @ events_for (entries w) sid)"
    using cases laws by (simp_all add: sqlite_inv_def sqlite_history_def)
qed

section \<open>Snapshots\<close>

lemma snapshot_row:
  assumes "sqlite_reads V D" "query_optional D SELECT_SNAPSHOT [SqlText i] get_text w = Inr found"
  shows "found = hm_get (tb_snapshots (sv_now V w)) i"
proof -
  have "answers (sq_rows D SELECT_SNAPSHOT [SqlText i] w) (keyed (tb_snapshots (sv_now V w)) i)"
    using assms(1) by (simp add: sqlite_reads_def)
  from answers_first [OF this assms(2)] show ?thesis
    by (auto simp: keyed_def get_text_def split: option.splits)
qed

lemma sqlite_load_stored:
  assumes "sqlite_inv X V E st" "sqlite_load_snapshot X st i = Inr found"
  shows "found = sqlite_stored X V st i"
proof -
  have "sqlite_reads V (se_connection X)" using assms(1) by (simp add: sqlite_inv_def sqlite_laws_def)
  note row = snapshot_row [OF this, of i "ss_world st"]
  show ?thesis
    using assms(2) row by (auto simp: sqlite_load_snapshot_def sqlite_stored_def split: option.splits sum.splits)
qed

text \<open>What a save that does not fail leaves: the newer snapshot, in the sense of \<open>covers\<close>; the rest is kept.\<close>

lemma sqlite_save_cases:
  assumes inv: "sqlite_inv X V E st" and save: "sqlite_save_snapshot X st i s = (r, st')"
  shows "(case r of
      Inl e \<Rightarrow> here V st' = here V st
    | Inr _ \<Rightarrow> tb_events (here V st') = tb_events (here V st)
        \<and> (\<forall>k. k \<noteq> i \<longrightarrow> sqlite_stored X V st' k = sqlite_stored X V st k)
        \<and> sqlite_stored X V st' i = Some (case sqlite_stored X V st i of
            None \<Rightarrow> s | Some current \<Rightarrow> if covers s current then s else current)) \<and> at_rest V st'"
proof (cases "se_snapshot_to_json X s")
  case None
  then show ?thesis using save inv by (auto simp: sqlite_save_snapshot_def sqlite_inv_def)
next
  case (Some json)
  let ?D = "se_connection X" and ?t = "here V st"
  have laws: "sqlite_reads V ?D" "sqlite_transactions V ?D" "sqlite_writes V ?D" and q: "at_rest V st"
    and reread: "se_snapshot_from_json X json = Some s"
    using inv Some by (simp_all add: sqlite_inv_def sqlite_laws_def json_laws_def)
  let ?found = "Option.bind (hm_get (tb_snapshots ?t) i) (se_snapshot_from_json X)"
  let ?Q = "\<lambda>(a :: unit) tb n. n = ss_uuid_calls st \<and> tb_events tb = tb_events ?t
      \<and> (\<forall>k. k \<noteq> i \<longrightarrow> hm_get (tb_snapshots tb) k = hm_get (tb_snapshots ?t) k)
      \<and> Option.bind (hm_get (tb_snapshots tb) i) (se_snapshot_from_json X)
          = Some (case ?found of None \<Rightarrow> s | Some current \<Rightarrow> if covers s current then s else current)"
  let ?decide = "\<lambda>st. (case query_optional ?D SELECT_SNAPSHOT [SqlText i] get_text (ss_world st) of
        Inl _ \<Rightarrow> Inl (StoreFailure AppendEvents)
      | Inr None \<Rightarrow> Inr True
      | Inr (Some data) \<Rightarrow>
          (case se_snapshot_from_json X data of
             None \<Rightarrow> Inl (StoreFailure AppendEvents) | Some current \<Rightarrow> Inr (covers s current)))"
  let ?persist = "\<lambda>should_save. if should_save then on_connection (failing (\<lambda>_. StoreFailure AppendEvents)
      (sq_execute ?D UPSERT_SNAPSHOT [SqlText i, SqlText json])) else pass ()"
  have up: "ends (sq_execute ?D UPSERT_SNAPSHOT [SqlText i, SqlText json])
      (\<lambda>_ w'. sv_now V w' = (sv_now V w)\<lparr>tb_snapshots := hm_insert i json (tb_snapshots (sv_now V w))\<rparr>
         \<and> sv_saved V w' = Some ?t) (\<lambda>_. undoable V ?t) w" if "sv_saved V w = Some ?t" for w
    using laws(3) that unfolding sqlite_writes_def changes_def by blast
  have "ends (andthen (\<lambda>st. (?decide st, st)) ?persist)
      (\<lambda>a st'. ?Q a (here V st') (ss_uuid_calls st') \<and> sv_saved V (ss_world st') = Some ?t)
      (\<lambda>e st'. ss_uuid_calls st' = ss_uuid_calls st \<and> undoable V ?t (ss_world st')) st1"
    if st1: "here V st1 = ?t" "sv_saved V (ss_world st1) = Some ?t" "ss_uuid_calls st1 = ss_uuid_calls st" for st1
  proof -
    have d: "if b then ?found = None \<or> (\<exists>current. ?found = Some current \<and> covers s current)
        else \<exists>current. ?found = Some current \<and> \<not> covers s current" if "?decide st1 = Inr b" for b
      using that snapshot_row [OF laws(1), of i "ss_world st1"] st1(1)
      by (auto split: sum.splits option.splits)
    have saved: "ends (sq_execute ?D UPSERT_SNAPSHOT [SqlText i, SqlText json])
        (\<lambda>a w'. ?Q a (sv_now V w') (ss_uuid_calls st1) \<and> sv_saved V w' = Some ?t) (\<lambda>_. undoable V ?t) (ss_world st1)"
      if "?found = None \<or> (\<exists>current. ?found = Some current \<and> covers s current)"
      by (rule ends_mono [OF up [OF st1(2)]]) (use that st1 reread in auto)
    have "ends (?persist b) (\<lambda>a st'. ?Q a (here V st') (ss_uuid_calls st') \<and> sv_saved V (ss_world st') = Some ?t)
        (\<lambda>e st'. ss_uuid_calls st' = ss_uuid_calls st \<and> undoable V ?t (ss_world st')) st1" if b: "?decide st1 = Inr b" for b
    proof (cases b)
      case True
      then have "?found = None \<or> (\<exists>current. ?found = Some current \<and> covers s current)"
        using d [OF b] by simp
      then show ?thesis using saved True st1(3) by simp
    next
      case False
      then obtain current where "?found = Some current" "\<not> covers s current" using d [OF b] by auto
      then show ?thesis using False st1 by simp
    qed
    then show ?thesis
      using st1 by (cases "?decide st1") (simp_all add: ends_def andthen_def undoable_def)
  qed
  from in_transaction_ends [where Q = ?Q and R = "\<lambda>_ n. n = ss_uuid_calls st", OF laws(2) q this refl conjunct1]
  have "ends (in_transaction ?D (andthen (\<lambda>st. (?decide st, st)) ?persist)) (\<lambda>a st'. ?Q a (here V st') (ss_uuid_calls st') \<and> at_rest V st')
      (\<lambda>e st'. ss_uuid_calls st' = ss_uuid_calls st \<and> here V st' = ?t \<and> at_rest V st') st" .
  moreover have "in_transaction ?D (andthen (\<lambda>st. (?decide st, st)) ?persist) st = (r, st')"
    using save Some by (simp add: sqlite_save_snapshot_def Let_def)
  ultimately have "case r of Inl e \<Rightarrow> ss_uuid_calls st' = ss_uuid_calls st \<and> here V st' = ?t \<and> at_rest V st' | Inr a \<Rightarrow> ?Q a (here V st') (ss_uuid_calls st') \<and> at_rest V st'"
    unfolding ends_def by (cases r) simp_all
  then show ?thesis by (cases r) (simp_all add: sqlite_stored_def)
qed

section \<open>The store contract\<close>

lemma events_kept:
  "sqlite_inv X V E st \<Longrightarrow> tb_events (here V st') = tb_events (here V st) \<Longrightarrow> at_rest V st' \<Longrightarrow>
     sqlite_inv X V E st' \<and> sqlite_history V E st' = sqlite_history V E st"
  by (simp add: sqlite_inv_def sqlite_history_def tables_ok_def tables_view_def rows_of_def fun_eq_iff)

interpretation sqlite_snap: snapshot_event_store "sqlite_ops X E" "sqlite_inv X V E" "sqlite_history V E"
  "typed_entry E" "sqlite_stored X V"
proof (unfold_locales, goal_cases)
  case (1 st sid items)
  then show ?case using sqlite_read_view [of X V E st sid items] by (simp add: sqlite_ops_def)
next
  case (2 st w u st')
  then show ?case using sqlite_append_view [of X V E st w u st'] by (auto simp: sqlite_ops_def)
next
  case (3 st w u st')
  then show ?case using sqlite_append_cases [of X V E st w "Inr u" st'] by (simp add: sqlite_ops_def)
next
  case (4 st w e st')
  then show ?case using sqlite_append_cases [of X V E st w "Inl e" st']
    by (simp add: sqlite_ops_def sqlite_inv_def sqlite_history_def)
next
  case (5 st w sid v actual st')
  then show ?case using sqlite_append_cases [of X V E st w "Inl (VersionConflict sid v actual)" st']
    by (auto simp: sqlite_ops_def append_failure_def sqlite_history_def)
next
  case (6 st v sid items)
  then show ?case using sqlite_read_after_view [of X V E st v sid items] by (simp add: sqlite_ops_def)
next
  case (7 st i found)
  then show ?case using sqlite_load_stored by (simp add: sqlite_ops_def)
next
  case (8 st i s r st')
  then have cases: "sqlite_inv X V E st" "sqlite_save_snapshot X st i s = (r, st')" by (simp_all add: sqlite_ops_def)
  note saved = sqlite_save_cases [OF this]
  have "tb_events (here V st') = tb_events (here V st)" "at_rest V st'"
    "sqlite_stored X V st' i = sqlite_stored X V st i \<or> sqlite_stored X V st' i = Some s"
    using saved by (auto simp: sqlite_stored_def split: sum.splits option.splits)
  then show ?case using events_kept [OF cases(1)] by blast
next
  case (9 st w r st' i)
  then show ?case
    using sqlite_append_cases [of X V E st w r st'] by (auto simp: sqlite_ops_def sqlite_stored_def split: sum.splits)
qed

section \<open>Checkpoints\<close>

text \<open>Reading back an identifier that was written.\<close>

definition sqlite_uuid_laws :: "('w, 'x, 'json) sqlite_env \<Rightarrow> bool" where
  "sqlite_uuid_laws X \<longleftrightarrow> (\<forall>u. se_parse_uuid X (se_show_uuid X u) = Inr u)"

text \<open>For projections: the query of a checkpoint does not fail.\<close>

definition checkpoints_read :: "'w sqlite_view \<Rightarrow> ('w, 'x) sqlite_connection \<Rightarrow> bool" where
  "checkpoints_read V D \<longleftrightarrow>
     (\<forall>w k. sq_rows D SELECT_CHECKPOINT [SqlText k] w = Inr (keyed (tb_checkpoints (sv_now V w)) k, None))"

lemma sqlite_checkpoint_load_eq:
  assumes "checkpoints_read V (se_connection X)"
  shows "sqlite_checkpoint_load X w n = (case hm_get (tb_checkpoints (sv_now V w)) n of
      None \<Rightarrow> Inr None
    | Some text \<Rightarrow> (case se_parse_uuid X text of
        Inl e \<Rightarrow> Inl (CorruptedCheckpoint text e) | Inr u \<Rightarrow> Inr (Some (StreamPosition u))))"
  using assms
  by (simp add: sqlite_checkpoint_load_def checkpoints_read_def query_optional_def keyed_def get_text_def
      split: option.splits)

lemma sqlite_checkpoint_saved:
  assumes inv: "sqlite_inv X V E st" and save: "sqlite_save_checkpoint X st n p = (r, st')"
  shows "at_rest V st' \<and> ss_uuid_calls st' = ss_uuid_calls st
    \<and> here V st' = (if r = Inr () then (here V st)\<lparr>tb_checkpoints :=
        hm_insert n (se_show_uuid X (pos_uuid p)) (tb_checkpoints (here V st))\<rparr> else here V st)"
proof -
  let ?text = "se_show_uuid X (pos_uuid p)" and ?t = "here V st"
  have laws: "sqlite_laws V (se_connection X)" and q: "at_rest V st"
    using inv by (simp_all add: sqlite_inv_def)
  have "ends (sq_execute (se_connection X) UPSERT_CHECKPOINT [SqlText n, SqlText ?text])
      (\<lambda>_ w'. sv_now V w' = ?t\<lparr>tb_checkpoints := hm_insert n ?text (tb_checkpoints ?t)\<rparr> \<and> sv_saved V w' = None)
      (\<lambda>_ w'. sv_now V w' = ?t \<and> sv_saved V w' = None) (ss_world st)"
    using laws q unfolding sqlite_laws_def sqlite_writes_def by blast
  then show ?thesis
    using save
    by (auto simp: sqlite_save_checkpoint_def sqlite_checkpoint_save_def on_connection_def failing_def ends_def Let_def
        split: prod.splits sum.splits)
qed

lemma sqlite_checkpoint_cases:
  assumes inv: "sqlite_inv X V E st" and uuid: "sqlite_uuid_laws X" and laws: "checkpoints_read V (se_connection X)"
    and save: "sqlite_save_checkpoint X st n p = (r, st')"
  shows "sqlite_inv X V E st' \<and> sqlite_history V E st' = sqlite_history V E st
    \<and> sqlite_load_checkpoint X st' m
      = (if m = n \<and> r = Inr () then Inr (Some p) else sqlite_load_checkpoint X st m)"
proof -
  note st' = sqlite_checkpoint_saved [OF inv save]
  then have "tb_events (here V st') = tb_events (here V st)" by simp
  then have "sqlite_inv X V E st' \<and> sqlite_history V E st' = sqlite_history V E st"
    using events_kept [OF inv] st' by blast
  moreover have "sqlite_load_checkpoint X st' m
      = (if m = n \<and> r = Inr () then Inr (Some p) else sqlite_load_checkpoint X st m)"
    using uuid st' by (simp add: sqlite_load_checkpoint_def sqlite_checkpoint_load_eq [OF laws] sqlite_uuid_laws_def)
  ultimately show ?thesis by blast
qed

end
