(* ===== verification/Sqlite_Projection.thy ===== *)
theory Sqlite_Projection
  imports Sqlite_Correct Memory_Correct Projection_Resume
begin

text \<open>
  Projections over the SQLite back end: what its page query selects, the order of the identifiers, and the
  interpretation of the projection contract on its reader, checkpoint table and lock table.
\<close>

section \<open>Pages\<close>

text \<open>
  The conditions of a page query, by the operator in their text. What \<open>LIKE\<close> and \<open>GLOB\<close> match is a parameter:
  \<open>LIKE\<close> ignores the case of letters and reads \<open>_\<close> and \<open>%\<close> of the prefix as wildcards.
\<close>

definition holds_condition ::
  "(rstring \<Rightarrow> rstring \<Rightarrow> bool) \<Rightarrow> (rstring \<Rightarrow> rstring \<Rightarrow> bool) \<Rightarrow> event_row \<Rightarrow> string \<times> sql_value \<Rightarrow> bool" where
  "holds_condition like glob r c =
     (case c of
        (operator, SqlText v) \<Rightarrow>
          if operator = ''event_id > '' then v < row_event_id r
          else if operator = ''stream_id LIKE '' then like (row_stream r) v
          else if operator = ''stream_id GLOB '' then glob (row_stream r) v
          else row_type r = v
      | _ \<Rightarrow> False)"

text \<open>A negative limit is no limit.\<close>

definition limited :: "64 word \<Rightarrow> 'a list \<Rightarrow> 'a list" where
  "limited n rs = (if sint n < 0 then rs else take (unat n) rs)"

definition sqlite_pages ::
  "'w sqlite_view \<Rightarrow> ('w, 'x) sqlite_connection \<Rightarrow> (rstring \<Rightarrow> rstring \<Rightarrow> bool) \<Rightarrow> (rstring \<Rightarrow> rstring \<Rightarrow> bool) \<Rightarrow> bool" where
  "sqlite_pages V D like glob \<longleftrightarrow> (\<forall>w own f after_id n.
     let conditions = page_conditions own f after_id in
     sq_rows D (page_sql (map fst conditions)) (map snd conditions @ [SqlInteger n]) w
       = Inr (map (\<lambda>r. [SqlText (row_event_id r), SqlText (row_data r)])
           (limited n (sort_key row_event_id
             (filter (\<lambda>r. list_all (holds_condition like glob r) conditions) (tb_events (sv_now V w))))), None))"

definition sqlite_selects ::
  "(rstring \<Rightarrow> rstring \<Rightarrow> bool) \<Rightarrow> (rstring \<Rightarrow> rstring \<Rightarrow> bool) \<Rightarrow> rstring \<Rightarrow> event_filter \<Rightarrow> event_row \<Rightarrow> bool" where
  "sqlite_selects like glob own f r \<longleftrightarrow>
     (case ef_stream_prefix f of
        Some p \<Rightarrow> like (row_stream r) (prefix_str p @ lit ''%'')
      | None \<Rightarrow> (case ef_stream_pattern f of Some p \<Rightarrow> glob (row_stream r) (pattern_str p) | None \<Rightarrow> True))
   \<and> row_type r = (case ef_event_type f of None \<Rightarrow> own | Some t \<Rightarrow> t)"

lemma conditions_hold:
  "list_all (holds_condition like glob r) (page_conditions own f after_id)
     \<longleftrightarrow> (case after_id of None \<Rightarrow> True | Some u \<Rightarrow> u < row_event_id r) \<and> sqlite_selects like glob own f r"
  by (auto simp: page_conditions_def holds_condition_def sqlite_selects_def split: option.splits)

text \<open>
  A prefix that is a literal never loses the events of the streams that have it; it may select others, so the
  other back ends, which compare the prefix itself, select a subset.
\<close>

lemma prefix_selected:
  assumes "\<And>p s. like (p @ s) (p @ lit ''%'')" "exclusive_filter f"
    and "\<And>p s. stream_pattern_matches glob_compile p s \<Longrightarrow> glob s (pattern_str p)"
    and "selects glob_compile own f (row_stream r) (row_type r)"
  shows "sqlite_selects like glob own f r"
  using assms by (auto simp: selects_def sqlite_selects_def starts_with_append split: option.splits)

section \<open>The identifiers\<close>

text \<open>The text of an identifier sorts like the identifier.\<close>

definition text_laws :: "('w, 'x, 'json) sqlite_env \<Rightarrow> bool" where
  "text_laws X \<longleftrightarrow> sqlite_uuid_laws X \<and> (\<forall>u v. se_show_uuid X u < se_show_uuid X v \<longleftrightarrow> u < v)"

definition increasing_ids :: "('w, 'x, 'json) sqlite_env \<Rightarrow> nat \<Rightarrow> event_row list \<Rightarrow> bool" where
  "increasing_ids X calls rs \<longleftrightarrow> (\<exists>us. map row_event_id rs = map (se_show_uuid X) us \<and> sorted_wrt (<) us
     \<and> (\<forall>u \<in> set us. u < se_now_v7 X calls))"

definition row_uuid :: "('w, 'x, 'json) sqlite_env \<Rightarrow> event_row \<Rightarrow> uuid" where
  "row_uuid X r = projr (se_parse_uuid X (row_event_id r))"

lemma increasing_ids_rows:
  assumes "text_laws X"
  shows "increasing_ids X calls rs \<longleftrightarrow> (\<forall>r \<in> set rs. row_event_id r = se_show_uuid X (row_uuid X r))
    \<and> sorted_wrt (<) (map (row_uuid X) rs) \<and> (\<forall>r \<in> set rs. row_uuid X r < se_now_v7 X calls)"
    (is "_ \<longleftrightarrow> ?r")
proof
  have parse: "se_parse_uuid X (se_show_uuid X u) = Inr u" for u
    using assms by (simp add: text_laws_def sqlite_uuid_laws_def)
  assume "increasing_ids X calls rs"
  then obtain us where us: "map row_event_id rs = map (se_show_uuid X) us" "sorted_wrt (<) us"
    "\<forall>u \<in> set us. u < se_now_v7 X calls" unfolding increasing_ids_def by blast
  have "map (\<lambda>t. projr (se_parse_uuid X t)) (map row_event_id rs) = us"
    unfolding us(1) by (simp add: parse comp_def)
  then have ids: "map (row_uuid X) rs = us" by (simp add: row_uuid_def [abs_def] comp_def)
  have "row_event_id r = se_show_uuid X (row_uuid X r)" if "r \<in> set rs" for r
  proof -
    have "map (se_show_uuid X) us = map (\<lambda>r. se_show_uuid X (row_uuid X r)) rs"
      unfolding ids [symmetric] by simp
    then have "map row_event_id rs = map (\<lambda>r. se_show_uuid X (row_uuid X r)) rs" unfolding us(1) .
    then show ?thesis using that by simp
  qed
  then show ?r using us(2,3) ids by auto
next
  assume ?r
  then show "increasing_ids X calls rs"
    unfolding increasing_ids_def by (intro exI [of _ "map (row_uuid X) rs"]) auto
qed

lemma clock_less: "clock_ok now n \<Longrightarrow> i < j \<Longrightarrow> j \<le> n \<Longrightarrow> now i < now j"
proof (induction j)
  case (Suc j)
  then have "now j < now (Suc j)" by (simp add: clock_ok_def)
  then show ?case using Suc by (cases "i = j") (auto intro: order.strict_trans)
qed simp

lemma clock_le: "clock_ok now n \<Longrightarrow> i \<le> j \<Longrightarrow> j \<le> n \<Longrightarrow> now i \<le> now j"
  using clock_less by (cases "i = j") (auto intro: order.strict_implies_order)

lemma batch_rows_ids:
  "map row_event_id (batch_rows X n versions ens) = map (\<lambda>i. se_show_uuid X (se_now_v7 X i)) [n..<n + length ens]"
  by (induction ens arbitrary: n versions) (simp_all add: Let_def upt_conv_Cons del: upt_Suc)

lemma increasing_ids_batch:
  assumes "increasing_ids X calls rs" "clock_ok (se_now_v7 X) N" "calls + length ens \<le> N"
  shows "increasing_ids X (calls + length ens) (rs @ batch_rows X calls versions ens)"
proof -
  obtain us where us: "map row_event_id rs = map (se_show_uuid X) us" "sorted_wrt (<) us"
    "\<forall>u \<in> set us. u < se_now_v7 X calls" using assms(1) unfolding increasing_ids_def by blast
  let ?new = "map (se_now_v7 X) [calls..<calls + length ens]"
  note lt = clock_less [OF assms(2)] and le = clock_le [OF assms(2)]
  have old: "u < se_now_v7 X j" if "u \<in> set us" "calls \<le> j" "j \<le> N" for u j
    using us(3) that le [of calls j] by (auto intro: order.strict_trans2)
  have "sorted_wrt (<) ?new"
    unfolding sorted_wrt_map by (rule sorted_wrt_mono_rel [OF _ sorted_wrt_upt]) (use lt assms(3) in auto)
  then have "sorted_wrt (<) (us @ ?new)"
    using us(2) old assms(3) by (auto simp: sorted_wrt_append)
  moreover have "\<forall>u \<in> set (us @ ?new). u < se_now_v7 X (calls + length ens)"
    using old lt assms(3) by auto
  ultimately show ?thesis
    unfolding increasing_ids_def using us(1)
    by (intro exI [of _ "us @ ?new"]) (simp add: batch_rows_ids)
qed

lemma increasing_ids_later:
  assumes "increasing_ids X calls rs" "clock_ok (se_now_v7 X) N" "calls \<le> later" "later \<le> N"
  shows "increasing_ids X later rs"
proof -
  have "se_now_v7 X calls \<le> se_now_v7 X later" using clock_le assms(2-4) by blast
  then show ?thesis using assms(1) unfolding increasing_ids_def by (meson order.strict_trans2)
qed

section \<open>The invariant\<close>

text \<open>
  \<open>N\<close> bounds the identifiers the process generates, which increase up to it. A checkpoint is the text of an
  identifier, and neither the statement that saves one nor the queries of a projection fail.
\<close>

definition checkpoints_ok :: "('w, 'x, 'json) sqlite_env \<Rightarrow> tables \<Rightarrow> bool" where
  "checkpoints_ok X tb \<longleftrightarrow> (\<forall>n t. hm_get (tb_checkpoints tb) n = Some t \<longrightarrow> (\<exists>u. t = se_show_uuid X u))"

definition checkpoints_written :: "'w sqlite_view \<Rightarrow> ('w, 'x) sqlite_connection \<Rightarrow> bool" where
  "checkpoints_written V D \<longleftrightarrow>
     (\<forall>w k v. sv_saved V w = None \<longrightarrow> fst (sq_execute D UPSERT_CHECKPOINT [SqlText k, SqlText v] w) = Inr ())"

definition sqlite_projectable ::
  "('w, 'x, 'json) sqlite_env \<Rightarrow> 'w sqlite_view \<Rightarrow> (rstring \<Rightarrow> rstring \<Rightarrow> bool) \<Rightarrow> (rstring \<Rightarrow> rstring \<Rightarrow> bool)
     \<Rightarrow> 'ev event_type \<Rightarrow> nat \<Rightarrow> 'w sqlite_store \<Rightarrow> bool" where
  "sqlite_projectable X V like glob E N st \<longleftrightarrow> sqlite_inv X V E st \<and> sqlite_pages V (se_connection X) like glob
     \<and> text_laws X \<and> checkpoints_written V (se_connection X) \<and> checkpoints_read V (se_connection X)
     \<and> clock_ok (se_now_v7 X) N \<and> ss_uuid_calls st \<le> N
     \<and> increasing_ids X (ss_uuid_calls st) (tb_events (here V st)) \<and> checkpoints_ok X (here V st)"

text \<open>The events a filter selects.\<close>

definition sqlite_chosen ::
  "('w, 'x, 'json) sqlite_env \<Rightarrow> 'w sqlite_view \<Rightarrow> (rstring \<Rightarrow> rstring \<Rightarrow> bool) \<Rightarrow> (rstring \<Rightarrow> rstring \<Rightarrow> bool)
     \<Rightarrow> 'ev event_type \<Rightarrow> 'w sqlite_store \<Rightarrow> event_filter \<Rightarrow> ('ev \<times> stream_position) list" where
  "sqlite_chosen X V like glob E st f =
     map (\<lambda>r. (row_event E r, StreamPosition (row_uuid X r)))
       (filter (sqlite_selects like glob (ev_type_name E) f) (tb_events (here V st)))"

lemma sqlite_chosen_increasing:
  assumes "sqlite_projectable X V like glob E N st"
  shows "sorted_wrt (<) (map snd (sqlite_chosen X V like glob E st f))"
proof -
  have "sorted_wrt (<) (map (row_uuid X) (tb_events (here V st)))"
    using assms increasing_ids_rows by (fastforce simp: sqlite_projectable_def)
  then show ?thesis
    by (simp add: sqlite_chosen_def sorted_wrt_map position_order sorted_wrt_filter)
qed

lemma page_rows_sorted:
  assumes "text_laws X" "increasing_ids X calls rs"
  shows "sort_key row_event_id (filter P rs) = filter P rs"
proof (rule sort_key_id_if_sorted)
  have ids: "\<forall>r \<in> set rs. row_event_id r = se_show_uuid X (row_uuid X r)"
    and sorted: "sorted_wrt (<) (map (row_uuid X) rs)" using assms(2) increasing_ids_rows [OF assms(1)] by blast+
  have "sorted_wrt (\<lambda>a b. row_event_id a < row_event_id b) rs"
    by (rule sorted_wrt_mono_rel [OF _ sorted [unfolded sorted_wrt_map]])
       (use ids assms(1) in \<open>simp add: text_laws_def\<close>)
  then have "sorted_wrt (\<lambda>a b. row_event_id a < row_event_id b) (filter P rs)" by (rule sorted_wrt_filter)
  then show "sorted (map row_event_id (filter P rs))"
    unfolding sorted_wrt_map by (rule sorted_wrt_mono_rel [rotated]) simp
qed

lemma limited_take: "length rs < 2 ^ 63 \<Longrightarrow> limited n rs = take (unat n) rs"
proof (cases "sint n < 0")
  case True
  assume len: "length rs < 2 ^ 63"
  have "2 ^ 63 \<le> unat n" using sint_small [of n] True by (metis not_le not_less of_nat_0_le_iff)
  then show ?thesis using True len by (simp add: limited_def)
qed (simp add: limited_def)

lemma get_two_columns:
  "collect_results (map get_two_texts (map (\<lambda>r. [SqlText (row_event_id r), SqlText (row_data r)]) rs))
     = Inr (map (\<lambda>r. (row_event_id r, row_data r)) rs)"
  by (induction rs) (simp_all add: get_two_texts_def get_text_def)

lemma sqlite_read_page:
  fixes E :: "'ev event_type"
  assumes proj: "sqlite_projectable X V like glob E N st"
  shows "sqlite_read_events X E st f pg
    = Inr (take (unat (page_limit pg)) (unseen (sqlite_chosen X V like glob E st f) (after_position pg)))"
proof -
  let ?evs = "tb_events (here V st)" and ?n = "page_limit pg"
  let ?after = "map_option (\<lambda>p. se_show_uuid X (pos_uuid p)) (after_position pg)"
  let ?conds = "page_conditions (ev_type_name E) f ?after"
  let ?sel = "sqlite_selects like glob (ev_type_name E) f"
  let ?new = "\<lambda>r. case after_position pg of None \<Rightarrow> True | Some p \<Rightarrow> pos_uuid p < row_uuid X r"
  let ?rs = "filter (\<lambda>r. ?new r \<and> ?sel r) ?evs"
  have ok: "tables_ok E (here V st)" and text_ok: "text_laws X" and ids: "increasing_ids X (ss_uuid_calls st) ?evs"
    and pages: "sqlite_pages V (se_connection X) like glob"
    using proj by (simp_all add: sqlite_projectable_def sqlite_inv_def)
  have shown: "\<forall>r \<in> set ?evs. row_event_id r = se_show_uuid X (row_uuid X r)"
    using ids increasing_ids_rows [OF text_ok] by blast
  have "filter (\<lambda>r. list_all (holds_condition like glob r) ?conds) ?evs = ?rs"
    using shown text_ok by (intro filter_cong refl) (auto simp: conditions_hold text_laws_def split: option.splits)
  then have "sort_key row_event_id (filter (\<lambda>r. list_all (holds_condition like glob r) ?conds) ?evs) = ?rs"
    using page_rows_sorted [OF text_ok ids] by simp
  moreover have "length ?rs < 2 ^ 63"
    using ok length_filter_le le_less_trans unfolding tables_ok_def by blast
  then have lim: "limited ?n ?rs = take (unat ?n) ?rs" by (rule limited_take)
  ultimately have query: "sq_rows (se_connection X) (page_sql (map fst ?conds)) (map snd ?conds @ [SqlInteger ?n]) (ss_world st)
      = Inr (map (\<lambda>r. [SqlText (row_event_id r), SqlText (row_data r)]) (take (unat ?n) ?rs), None)"
    using pages unfolding sqlite_pages_def by (simp add: Let_def lim)
  have decoded: "List.map_filter (\<lambda>(event_id, data). (case se_parse_uuid X event_id of
        Inl _ \<Rightarrow> None | Inr u \<Rightarrow> map_option (\<lambda>e. (e, StreamPosition u)) (ev_from_json E data)))
      (map (\<lambda>r. (row_event_id r, row_data r)) rs) = map (\<lambda>r. (row_event E r, StreamPosition (row_uuid X r))) rs"
    if "set rs \<subseteq> set ?evs" for rs
    using that
  proof (induction rs)
    case (Cons r rs)
    then have "se_parse_uuid X (row_event_id r) = Inr (row_uuid X r)"
      using shown text_ok by (auto simp: text_laws_def sqlite_uuid_laws_def)
    moreover obtain e where "ev_from_json E (row_data r) = Some e" using Cons.prems ok by (auto simp: tables_ok_def)
    ultimately show ?case using Cons by (simp add: map_filter_def row_event_def)
  qed (simp add: map_filter_def)
  define page where "page = take (unat ?n) ?rs"
  have "map (\<lambda>r. (row_event E r, StreamPosition (row_uuid X r))) ?rs
      = unseen (sqlite_chosen X V like glob E st f) (after_position pg)"
    by (cases "after_position pg")
       (auto simp: unseen_def sqlite_chosen_def filter_map position_order comp_def intro!: arg_cong [where f = "map _"] filter_cong)
  then have result: "take (unat ?n) (unseen (sqlite_chosen X V like glob E st f) (after_position pg))
      = map (\<lambda>r. (row_event E r, StreamPosition (row_uuid X r))) page"
    unfolding page_def take_map [symmetric] by (rule arg_cong [OF sym])
  have "set page \<subseteq> set ?evs" unfolding page_def by (auto dest: in_set_takeD)
  note found = decoded [OF this]
  show ?thesis
    using query [folded page_def]
    by (simp add: sqlite_read_events_def Let_def get_two_columns found result del: map_map)
qed

section \<open>The contracts\<close>

interpretation sqlite_reader: event_reader "sqlite_read_events X E" "sqlite_projectable X V like glob E N"
  "sqlite_chosen X V like glob E"
  by unfold_locales (simp_all add: sqlite_read_page sqlite_chosen_increasing)

definition sqlite_backend ::
  "(event_store_error \<Rightarrow> rstring) \<Rightarrow> ('x sqlite_checkpoint_error \<Rightarrow> rstring) \<Rightarrow> (sqlite_coordination_error \<Rightarrow> rstring)
     \<Rightarrow> ('w, 'x, 'json) sqlite_env \<Rightarrow> 'ev event_type \<Rightarrow> ('w sqlite_store, 'ev, sqlite_guard) projection_backend" where
  "sqlite_backend show_read show_checkpoint show_lock X E =
     \<lparr>pb_read = \<lambda>st f pg. map_sum show_read id (sqlite_read_events X E st f pg),
       pb_load = \<lambda>st n. map_sum show_checkpoint id (sqlite_load_checkpoint X st n),
       pb_save = \<lambda>st n q. apfst (map_sum show_checkpoint id) (sqlite_save_checkpoint X st n q),
       pb_acquire = \<lambda>st n. apfst (map_sum show_lock id) (sqlite_try_acquire st n),
       pb_release = sqlite_drop_guard\<rparr>"

lemma sqlite_save_succeeds:
  assumes proj: "sqlite_projectable X V like glob E N st"
  shows "\<exists>st'. sqlite_save_checkpoint X st n p = (Inr (), st') \<and> sqlite_projectable X V like glob E N st'
    \<and> sqlite_chosen X V like glob E st' = sqlite_chosen X V like glob E st
    \<and> sqlite_load_checkpoint X st' m = (if m = n then Inr (Some p) else sqlite_load_checkpoint X st m)"
proof -
  obtain r st' where save: "sqlite_save_checkpoint X st n p = (r, st')" by (rule prod.exhaust)
  have inv: "sqlite_inv X V E st" and uuid: "sqlite_uuid_laws X" and ok: "checkpoints_ok X (here V st)"
    and written: "checkpoints_written V (se_connection X)" and read: "checkpoints_read V (se_connection X)" and q: "at_rest V st"
    using proj by (simp_all add: sqlite_projectable_def text_laws_def sqlite_inv_def)
  have "fst (sq_execute (se_connection X) UPSERT_CHECKPOINT [SqlText n, SqlText (se_show_uuid X (pos_uuid p))] (ss_world st))
      = Inr ()" using written q unfolding checkpoints_written_def by blast
  then have r: "r = Inr ()"
    using save by (auto simp: sqlite_save_checkpoint_def on_connection_def sqlite_checkpoint_save_def failing_def Let_def
        split: prod.splits sum.splits)
  note saved = sqlite_checkpoint_saved [OF inv save] and after_save = sqlite_checkpoint_cases [OF inv uuid read save, of m]
  have events: "tb_events (here V st') = tb_events (here V st)" "ss_uuid_calls st' = ss_uuid_calls st"
    using saved by simp_all
  have "checkpoints_ok X (here V st')" using saved r ok by (auto simp: checkpoints_ok_def)
  then have "sqlite_projectable X V like glob E N st'"
    using proj after_save events by (simp add: sqlite_projectable_def)
  moreover have "sqlite_chosen X V like glob E st' = sqlite_chosen X V like glob E st"
    by (simp add: sqlite_chosen_def fun_eq_iff events)
  ultimately show ?thesis using save r after_save by simp
qed

lemma sqlite_load_succeeds:
  assumes "sqlite_projectable X V like glob E N st"
  shows "\<exists>c. sqlite_load_checkpoint X st n = Inr c"
proof -
  have "checkpoints_read V (se_connection X)" "sqlite_uuid_laws X" "checkpoints_ok X (here V st)"
    using assms by (simp_all add: sqlite_projectable_def text_laws_def sqlite_inv_def)
  note laws = this
  show ?thesis
  proof (cases "hm_get (tb_checkpoints (here V st)) n")
    case (Some t)
    then obtain u where "t = se_show_uuid X u" using laws(3) unfolding checkpoints_ok_def by blast
    then show ?thesis
      using Some laws(2) by (simp add: sqlite_load_checkpoint_def sqlite_checkpoint_load_eq [OF laws(1)] sqlite_uuid_laws_def)
  qed (simp add: sqlite_load_checkpoint_def sqlite_checkpoint_load_eq [OF laws(1)])
qed

lemma sqlite_locks_frame [simp]:
  "sqlite_projectable X V like glob E N (st\<lparr>ss_coordinator := s\<rparr>) = sqlite_projectable X V like glob E N st"
  "sqlite_chosen X V like glob E (st\<lparr>ss_coordinator := s\<rparr>) = sqlite_chosen X V like glob E st"
  "sqlite_load_checkpoint X (st\<lparr>ss_coordinator := s\<rparr>) = sqlite_load_checkpoint X st"
  by (simp_all add: sqlite_projectable_def sqlite_inv_def sqlite_chosen_def sqlite_load_checkpoint_def fun_eq_iff)

interpretation sqlite_proj: projection_store "sqlite_backend show_read show_checkpoint show_lock X E"
  "sqlite_projectable X V like glob E N" "sqlite_chosen X V like glob E"
proof (unfold_locales, goal_cases)
  case (1 st f pg)
  then show ?case by (simp add: sqlite_backend_def sqlite_read_page)
next
  case (2 st f)
  then show ?case by (rule sqlite_chosen_increasing)
next
  case (3 st n p)
  then show ?case using sqlite_save_succeeds [OF 3, of n p n] by (auto simp: sqlite_backend_def)
next
  case (4 st n)
  then show ?case using sqlite_load_succeeds [OF 4, of n] by (auto simp: sqlite_backend_def)
next
  case (5 st n p m)
  then show ?case using sqlite_save_succeeds [OF 5, of n p m] by (auto simp: sqlite_backend_def)
next
  case (6 st n p)
  then show ?case using sqlite_save_succeeds [OF 6, of n p n] by (auto simp: sqlite_backend_def)
next
  case (7 st n r st')
  then show ?case by (auto simp: sqlite_backend_def sqlite_try_acquire_def Let_def split: prod.splits)
next
  case (8 st g)
  then show ?case by (simp add: sqlite_backend_def sqlite_drop_guard_def)
qed

section \<open>Other writers\<close>

text \<open>The other tasks of the process append batches while the projection runs, as long as the clock's range lasts.\<close>

definition sqlite_writer :: "('w, 'x, 'json) sqlite_env \<Rightarrow> nat \<Rightarrow> 'ev stream_writes \<Rightarrow> 'w sqlite_store \<Rightarrow> 'w sqlite_store" where
  "sqlite_writer X N w st =
     (if ss_uuid_calls st + length (entries w) \<le> N then snd (sqlite_append_events X st w) else st)"

definition sqlite_writers ::
  "('w, 'x, 'json) sqlite_env \<Rightarrow> nat \<Rightarrow> (nat \<Rightarrow> 'ev stream_writes list) \<Rightarrow> nat \<Rightarrow> 'w sqlite_store \<Rightarrow> 'w sqlite_store" where
  "sqlite_writers X N sched t = fold (sqlite_writer X N) (sched t)"

lemma sqlite_writer_keeps:
  assumes proj: "sqlite_projectable X V like glob E N st" and good: "good_batch (typed_entry E) w"
  shows "sqlite_projectable X V like glob E N (sqlite_writer X N w st)
    \<and> prefix (sqlite_chosen X V like glob E st f) (sqlite_chosen X V like glob E (sqlite_writer X N w st) f)
    \<and> sqlite_load_checkpoint X (sqlite_writer X N w st) n = sqlite_load_checkpoint X st n"
proof (cases "ss_uuid_calls st + length (entries w) \<le> N")
  case True
  obtain r st' where app: "sqlite_append_events X st w = (r, st')" by (rule prod.exhaust)
  have inv: "sqlite_inv X V E st" and clock: "clock_ok (se_now_v7 X) N"
    and ids: "increasing_ids X (ss_uuid_calls st) (tb_events (here V st))" and ok: "checkpoints_ok X (here V st)"
    using proj by (simp_all add: sqlite_projectable_def)
  have laws: "checkpoints_read V (se_connection X)" using proj by (simp add: sqlite_projectable_def)
  note cases = sqlite_append_cases [OF inv app]
  have inv': "sqlite_inv X V E st'"
    using sqlite_snap.append_extends [OF inv, of w] good app by (simp add: sqlite_ops_def good_batch_def)
  have kept: "tb_checkpoints (here V st') = tb_checkpoints (here V st)" using cases by (auto split: sum.splits)
  have calls: "ss_uuid_calls st' \<le> N" "ss_uuid_calls st \<le> ss_uuid_calls st'"
    using cases True by (auto split: sum.splits)
  have "increasing_ids X (ss_uuid_calls st') (tb_events (here V st'))
      \<and> (\<exists>new. tb_events (here V st') = tb_events (here V st) @ new)"
  proof (cases r)
    case (Inl e)
    then have "here V st' = here V st" using cases by simp
    then show ?thesis using increasing_ids_later [OF ids clock calls(2,1)] by simp
  next
    case (Inr u)
    then show ?thesis using cases increasing_ids_batch [OF ids clock True] by simp
  qed
  then have "sqlite_projectable X V like glob E N st'"
    "prefix (sqlite_chosen X V like glob E st f) (sqlite_chosen X V like glob E st' f)"
    using proj inv' calls(1) ok kept by (auto simp: sqlite_projectable_def checkpoints_ok_def sqlite_chosen_def)
  moreover have "sqlite_load_checkpoint X st' n = sqlite_load_checkpoint X st n"
    using kept by (simp add: sqlite_load_checkpoint_def sqlite_checkpoint_load_eq [OF laws])
  ultimately show ?thesis using True app by (simp add: sqlite_writer_def)
qed (use proj in \<open>simp add: sqlite_writer_def\<close>)

lemma sqlite_writers_keep:
  assumes "sqlite_projectable X V like glob E N st" "\<forall>w \<in> set ws. good_batch (typed_entry E) w"
  shows "sqlite_projectable X V like glob E N (fold (sqlite_writer X N) ws st)
    \<and> sqlite_load_checkpoint X (fold (sqlite_writer X N) ws st) nm = sqlite_load_checkpoint X st nm
    \<and> (\<forall>f. prefix (sqlite_chosen X V like glob E st f) (sqlite_chosen X V like glob E (fold (sqlite_writer X N) ws st) f))"
  using assms
proof (induction ws arbitrary: st)
  case (Cons w ws)
  have "good_batch (typed_entry E) w" using Cons.prems(2) by simp
  note w = sqlite_writer_keeps [OF Cons.prems(1) this, where n = nm]
  have "\<forall>w \<in> set ws. good_batch (typed_entry E) w" using Cons.prems(2) by simp
  note ih = Cons.IH [OF conjunct1 [OF w] this]
  let ?st = "fold (sqlite_writer X N) ws (sqlite_writer X N w st)"
  have "prefix (sqlite_chosen X V like glob E st f) (sqlite_chosen X V like glob E ?st f)" for f
    by (rule prefix_order.trans [of _ "sqlite_chosen X V like glob E (sqlite_writer X N w st) f"]) (use ih w in blast)+
  then show ?case using ih w by simp
qed simp

lemma sqlite_writers_env:
  assumes "good_schedule (typed_entry E) sched"
  shows "good_env (pb_load (sqlite_backend show_read show_checkpoint show_lock X E))
    (sqlite_projectable X V like glob E N) (sqlite_chosen X V like glob E) nm (sqlite_writers X N sched)"
proof -
  have "\<forall>w \<in> set (sched t). good_batch (typed_entry E) w" for t
    using assms by (simp add: good_schedule_def)
  note w = sqlite_writers_keep [OF _ this, where nm = nm]
  show ?thesis
    unfolding good_env_def only_appends_def sqlite_writers_def by (simp add: sqlite_backend_def w)
qed

end
