(* ===== verification/Sqlite_Properties.thy ===== *)
theory Sqlite_Properties
  imports Sqlite_Projection Fs_Store_Properties Sample_Projection
begin

text \<open>
  The properties of the SQLite back end, and for their witnesses a small database with tables and transactions
  that keeps what SQLite documents for the statements of the back end.
\<close>

section \<open>A small database\<close>

text \<open>Its tables have at most 50 events; an insert beyond that fails.\<close>

definition capped :: "tables \<Rightarrow> tables" where
  "capped tb = (if length (tb_events tb) \<le> 50 then tb else tb\<lparr>tb_events := []\<rparr>)"

record table_world =
  tw_now :: tables
  tw_saved :: "tables option"

definition table_view :: "table_world sqlite_view" where
  "table_view = \<lparr>sv_now = \<lambda>w. capped (tw_now w), sv_saved = \<lambda>w. map_option capped (tw_saved w)\<rparr>"

text \<open>\<open>LIKE\<close> with its two wildcards, blind to the case of ASCII letters; \<open>GLOB\<close> without wildcards.\<close>

definition lower_ascii :: "nat \<Rightarrow> nat" where
  "lower_ascii c = (if 65 \<le> c \<and> c \<le> 90 then c + 32 else c)"

fun like_match :: "rstring \<Rightarrow> rstring \<Rightarrow> bool" where
  "like_match s [] = (s = [])"
| "like_match [] (c # p) = (c = 37 \<and> like_match [] p)"
| "like_match (x # s) (c # p) =
     (if c = 37 then like_match (x # s) p \<or> like_match s (c # p)
      else (c = 95 \<or> lower_ascii x = lower_ascii c) \<and> like_match s p)"

definition glob_literal :: "rstring \<Rightarrow> rstring \<Rightarrow> bool" where
  "glob_literal s p \<longleftrightarrow> s = p"

text \<open>
  The statements are told apart by a few letters: those after \<open>SELECT \<close> and after \<open>event_\<close>, the table's, and
  in a page query the first letters of each condition.
\<close>

definition page_operators :: "rstring \<Rightarrow> string list" where
  "page_operators sql =
     (let cursor = (sql ! 62 = 105); base = (if cursor then 74 else 56) in
      (if cursor then [''event_id > ''] else [])
      @ (if sql ! base = 115 then [if sql ! (base + 10) = 76 then ''stream_id LIKE '' else ''stream_id GLOB ''] else [])
      @ [''event_type = ''])"

definition page_rows :: "rstring \<Rightarrow> sql_value list \<Rightarrow> tables \<Rightarrow> sql_row list" where
  "page_rows sql vals tb =
     map (\<lambda>r. [SqlText (row_event_id r), SqlText (row_data r)])
       (limited (case last vals of SqlInteger n \<Rightarrow> n | _ \<Rightarrow> 0) (sort_key row_event_id
         (filter (\<lambda>r. list_all (holds_condition like_match glob_literal r) (zip (page_operators sql) (butlast vals)))
           (tb_events tb))))"

definition table_rows :: "rstring \<Rightarrow> sql_value list \<Rightarrow> table_world \<Rightarrow> unit + sql_row list \<times> unit option" where
  "table_rows sql vals w =
     (let tb = capped (tw_now w) in
      if sql ! 13 = 105 then Inr (page_rows sql vals tb, None)
      else case vals of
        [SqlText k] \<Rightarrow>
          if sql ! 7 = 101 then Inr (data_column (stream_rows tb k), None)
          else if sql ! 7 = 67 then
            Inr ([[SqlInteger (case stream_rows tb k of [] \<Rightarrow> 0 | rs \<Rightarrow> row_version (last rs))]], None)
          else if sql ! 7 = 115 then Inr (keyed (tb_snapshots tb) k, None)
          else Inr (keyed (tb_checkpoints tb) k, None)
      | [SqlText k, SqlInteger v] \<Rightarrow>
          Inr (data_column (filter (\<lambda>r. sint v < sint (row_version r)) (stream_rows tb k)), None)
      | _ \<Rightarrow> Inl ())"

fun rows_from :: "sql_value list \<Rightarrow> event_row list" where
  "rows_from (SqlText i # SqlText s # SqlInteger v # SqlText ty # SqlText d # vals) =
     \<lparr>row_event_id = i, row_stream = s, row_version = v, row_type = ty, row_data = d\<rparr> # rows_from vals"
| "rows_from _ = []"

definition table_execute :: "rstring \<Rightarrow> sql_value list \<Rightarrow> (table_world, unit, unit) action" where
  "table_execute sql vals w =
     (let tb = capped (tw_now w) in
      if sql ! 22 = 101 then
        (let rs = rows_from vals in
         if length (tb_events tb @ rs) \<le> 50 then (Inr (), w\<lparr>tw_now := tb\<lparr>tb_events := tb_events tb @ rs\<rparr>\<rparr>)
         else (Inl (), w))
      else case vals of
          [SqlText k, SqlText v] \<Rightarrow>
            if sql ! 22 = 99 then (Inr (), w\<lparr>tw_now := tb\<lparr>tb_snapshots := hm_insert k v (tb_snapshots tb)\<rparr>\<rparr>)
            else (Inr (), w\<lparr>tw_now := tb\<lparr>tb_checkpoints := hm_insert k v (tb_checkpoints tb)\<rparr>\<rparr>)
        | _ \<Rightarrow> (Inl (), w))"

definition table_connection :: "(table_world, unit) sqlite_connection" where
  "table_connection = \<lparr>sq_rows = table_rows, sq_execute = table_execute,
     sq_begin = \<lambda>w. if tw_saved w = None then (Inr (), w\<lparr>tw_saved := Some (tw_now w)\<rparr>) else (Inl (), w),
     sq_commit = \<lambda>w. if tw_saved w = None then (Inl (), w) else (Inr (), w\<lparr>tw_saved := None\<rparr>),
     sq_rollback = \<lambda>w. (case tw_saved w of None \<Rightarrow> w | Some tb \<Rightarrow> w\<lparr>tw_now := tb, tw_saved := None\<rparr>)\<rparr>"

lemma capped_simps [simp]:
  "length (tb_events (capped tb)) \<le> 50" "capped (capped tb) = capped tb"
  "length (tb_events tb) \<le> 50 \<Longrightarrow> capped tb = tb"
  "tb_snapshots (capped tb) = tb_snapshots tb" "tb_checkpoints (capped tb) = tb_checkpoints tb"
  by (simp_all add: capped_def)

lemma capped_updates [simp]:
  "capped ((capped tb)\<lparr>tb_snapshots := m\<rparr>) = (capped tb)\<lparr>tb_snapshots := m\<rparr>"
  "capped ((capped tb)\<lparr>tb_checkpoints := m\<rparr>) = (capped tb)\<lparr>tb_checkpoints := m\<rparr>"
  by (simp_all add: capped_def)

lemma rows_from_values [simp]: "rows_from (concat (map row_values rs)) = rs"
  by (induction rs) (simp_all add: row_values_def)

lemma letters:
  "READ_STREAM ! 7 = 101" "CURRENT_VERSION ! 7 = 67" "SELECT_SNAPSHOT ! 7 = 115" "SELECT_CHECKPOINT ! 7 = 108"
  "UPSERT_SNAPSHOT ! 22 = 99" "UPSERT_CHECKPOINT ! 22 = 115" "insert_sql n ! 22 = 101"
  "READ_STREAM ! 13 = 100" "READ_STREAM_AFTER ! 13 = 100" "CURRENT_VERSION ! 13 = 67" "SELECT_SNAPSHOT ! 13 = 111"
  "SELECT_CHECKPOINT ! 13 = 111"
  by (simp_all add: READ_STREAM_def READ_STREAM_AFTER_def CURRENT_VERSION_def SELECT_SNAPSHOT_def SELECT_CHECKPOINT_def UPSERT_SNAPSHOT_def
      UPSERT_CHECKPOINT_def insert_sql_def INSERT_EVENTS_def lit_def of_char_def nth_append)

lemma table_laws: "sqlite_laws table_view table_connection"
proof -
  have "sqlite_reads table_view table_connection"
    by (simp add: sqlite_reads_def answers_def table_connection_def table_view_def table_rows_def letters Let_def)
  moreover have "sqlite_transactions table_view table_connection"
    by (auto simp: sqlite_transactions_def table_connection_def table_view_def undoable_def ends_def split: option.split)
  moreover have "sqlite_writes table_view table_connection"
    unfolding sqlite_writes_def
  proof (intro conjI allI impI)
    show "length (tb_events (sv_now table_view w)) < 2 ^ 63" for w
      using capped_simps(1) [of "tw_now w"] by (simp add: table_view_def del: capped_simps)
  qed (auto simp: changes_def ends_def table_connection_def table_view_def table_execute_def letters undoable_def Let_def)
  ultimately show ?thesis by (simp add: sqlite_laws_def)
qed

lemma table_checkpoints: "checkpoints_read table_view table_connection"
  by (simp add: checkpoints_read_def table_connection_def table_view_def table_rows_def letters Let_def)

text \<open>The same database when no query gets through.\<close>

definition silent_connection :: "(table_world, unit) sqlite_connection" where
  "silent_connection = table_connection\<lparr>sq_rows := \<lambda>sql vals w. Inl ()\<rparr>"

lemma silent_laws: "sqlite_laws table_view silent_connection"
proof -
  have "sqlite_reads table_view silent_connection"
    by (simp add: sqlite_reads_def answers_def silent_connection_def)
  then show ?thesis
    using table_laws by (simp add: sqlite_laws_def sqlite_transactions_def sqlite_writes_def silent_connection_def)
qed

lemma page_letters:
  "page_sql (map fst (page_conditions own f after_id)) ! 13 = 105"
  "page_operators (page_sql (map fst (page_conditions own f after_id))) = map fst (page_conditions own f after_id)"
  by (auto simp: page_operators_def page_sql_def page_conditions_def placeholder_def lit_def of_char_def nth_append
      split: option.splits)

lemma table_pages: "sqlite_pages table_view table_connection like_match glob_literal"
  by (simp add: sqlite_pages_def table_connection_def table_rows_def page_letters page_rows_def zip_map_fst_snd table_view_def Let_def)

text \<open>The prefix \<open>acc_\<close> as this \<open>LIKE\<close> reads it selects the stream \<open>ACCT-1\<close>, which does not start with it.\<close>

lemma like_selects_more:
  "like_match (lit ''ACCT-1'') (lit ''acc_'' @ lit ''%'') \<and> \<not> starts_with (lit ''ACCT-1'') (lit ''acc_'')"
  by (simp add: lit_def of_char_def lower_ascii_def)

section \<open>The sample store\<close>

definition sample_sqlite :: "(table_world, unit, nat) sqlite_env" where
  "sample_sqlite = \<lparr>se_connection = table_connection, se_now_v7 = (\<lambda>n. of_nat (Suc n)),
     se_show_uuid = (\<lambda>t. [65, unat t, 66]), se_parse_uuid = sample_parse_uuid, se_decode_error = (\<lambda>_. []),
     se_snapshot_to_json = (\<lambda>s. Some (enc_snapshot s)), se_snapshot_from_json = dec_snapshot\<rparr>"

definition no_tables :: tables where
  "no_tables = \<lparr>tb_events = [], tb_snapshots = [], tb_checkpoints = []\<rparr>"

definition sqlite_empty :: "table_world sqlite_store" where
  "sqlite_empty = sqlite_from_connection \<lparr>tw_now = no_tables, tw_saved = None\<rparr>"

lemma sqlite_empty_inv: "sqlite_inv sample_sqlite table_view deposit_event sqlite_empty"
  using table_laws
  by (auto simp: sqlite_inv_def sample_sqlite_def json_laws_def deposit_event_def dec_enc_snapshot tables_ok_def rows_of_def
      sqlite_empty_def sqlite_from_connection_def no_tables_def table_view_def)

definition silent_sqlite :: "(table_world, unit, nat) sqlite_env" where
  "silent_sqlite = sample_sqlite\<lparr>se_connection := silent_connection\<rparr>"

lemma silent_empty_inv: "sqlite_inv silent_sqlite table_view deposit_event sqlite_empty"
  using sqlite_empty_inv silent_laws by (simp add: sqlite_inv_def silent_sqlite_def json_laws_def)

definition sqlite_run :: "(unit exec_result \<times> retry_context list \<times> table_world sqlite_store) option" where
  "sqlite_run = execute (sqlite_ops sample_sqlite deposit_event) rival_schedule (\<lambda>_ d. d) 12 snapshot_command
     sample_policy sqlite_empty"

lemma sqlite_run_result:
  "sqlite_run = Some (ExecOk \<lparr>er_attempts = 2\<rparr>, fst (snd (the sqlite_run)), snd (snd (the sqlite_run)))"
proof (rule some_the)
  have run: "(case sqlite_run of None \<Rightarrow> False | Some (r, _) \<Rightarrow> r = ExecOk \<lparr>er_attempts = 2\<rparr>)" by code_simp
  show "sqlite_run \<noteq> None"
  proof
    assume "sqlite_run = None"
    with run show False by (simp only: option.case)
  qed
  then obtain p where p: "sqlite_run = Some p" by blast
  have "fst p = ExecOk \<lparr>er_attempts = 2\<rparr>" using run unfolding p option.case case_prod_unfold .
  then show "fst (the sqlite_run) = ExecOk \<lparr>er_attempts = 2\<rparr>" unfolding p option.sel .
qed

lemma sqlite_empty_history [simp]: "sqlite_history table_view deposit_event sqlite_empty = (\<lambda>sid. [])"
  by (simp add: sqlite_history_def tables_view_def rows_of_def sqlite_empty_def sqlite_from_connection_def no_tables_def
      table_view_def fun_eq_iff)

lemma table_small: "small (sqlite_history table_view E st)"
  unfolding small_def
proof
  fix sid
  have "length (sqlite_history table_view E st sid) \<le> length (tb_events (capped (tw_now (ss_world st))))"
    by (simp add: sqlite_history_def tables_view_def rows_of_def table_view_def)
  also have "\<dots> \<le> 50" by simp
  finally show "length (sqlite_history table_view E st sid) < 2 ^ 64" by simp
qed

section \<open>Properties\<close>

text \<open>
  C29. Serializability of \<open>execute\<close> on the SQLite back end, with or without a state snapshot, whatever other
  writers commit at its await points and whichever calls of SQLite fail, queries (at once or after some of their
  rows), statements, the begin and the commit: when it returns a response, there is a moment at which its whole
  read was consistent with the tables and its events, and only they, were appended at exactly that moment; the
  attempts stay within the policy. What SQLite documents of queries, statements and transactions that do not
  fail, and of what is left when one does, is the hypothesis \<open>sqlite_laws\<close>, within \<open>sqlite_inv\<close>.
\<close>

theorem sqlite_execute_serializable:
  fixes X :: "('w, 'x, 'json) sqlite_env"
  assumes "sqlite_inv X V E st" "typed_command E c" "wf_declarations (cmd_declarations c)" "faithful_serialization c"
    and "\<forall>i. cmd_snapshot_id c = Some i \<longrightarrow> genuine_stored (sqlite_history V E) (sqlite_stored X V) c i st"
    and "good_schedule (typed_entry E) sched" "rp_max_retries policy \<noteq> - 1"
    and "execute (sqlite_ops X E) sched jitter fuel c policy st = Some (ExecOk resp, hooks, st')"
    and "small (sqlite_history V E st')"
  shows "sqlite_inv X V E st' \<and> 1 \<le> unat (er_attempts resp)
    \<and> unat (er_attempts resp) \<le> Suc (unat (rp_max_retries policy))
    \<and> (\<exists>v ids s events. extends (sqlite_history V E st) v \<and> commits c v (sqlite_history V E st') ids s events)"
proof -
  have "sqlite_snap.runnable TYPE('x) X V E c st"
    using assms(1-5) typed_command_entries by (simp add: sqlite_snap.runnable_def)
  from sqlite_snap.execute_sound [OF this assms(6-9)] show ?thesis by simp
qed

theorem sqlite_execute_serializable_witness:
  "\<exists>v ids s events. extends (\<lambda>sid. []) v
     \<and> commits snapshot_command v (sqlite_history table_view deposit_event (snd (snd (the sqlite_run)))) ids s events"
proof -
  have decl: "wf_declarations (cmd_declarations snapshot_command)"
    by (simp add: wf_declarations_def snapshot_command_def deposit_command_def)
  have fresh: "\<forall>i. cmd_snapshot_id snapshot_command = Some i \<longrightarrow>
      genuine_stored (sqlite_history table_view deposit_event) (sqlite_stored sample_sqlite table_view) snapshot_command i sqlite_empty"
    by (simp add: genuine_stored_def sqlite_stored_def sqlite_empty_def sqlite_from_connection_def no_tables_def table_view_def)
  note ex = sqlite_execute_serializable [OF sqlite_empty_inv snapshot_command_typed decl sample_serialization fresh
      sample_schedule_typed sample_policy_retries sqlite_run_result [unfolded sqlite_run_def] table_small]
  show ?thesis using ex unfolding sqlite_run_def sqlite_empty_history by (elim conjE)
qed

text \<open>
  C30. \<open>append_events\<close> on the SQLite back end is one transaction: however many insert statements the batch is cut
  into and whichever call fails, the begin, the query of a stream's version, an insert or the commit, every stream is extended by exactly its events of the batch, which happened at
  the expected versions, or the tables are as they were; the error is then a conflict with a stream's real
  version, reported only if there is one, or the storage failure of the call. Between operations no transaction
  stays open, and the versions of every stream still count its events.
\<close>

theorem sqlite_append_outcomes:
  assumes "sqlite_inv X V E st" "wf_writes w" "\<forall>en \<in> set (entries w). typed_entry E en"
    and "sqlite_append_events X st w = (r, st')"
  shows "sqlite_inv X V E st'
    \<and> (case r of
        Inr _ \<Rightarrow> (entries w \<noteq> [] \<longrightarrow> versions_match (sqlite_history V E) st w)
          \<and> sqlite_history V E st' = (\<lambda>sid. sqlite_history V E st sid @ events_for (entries w) sid)
      | Inl e \<Rightarrow> sv_now V (ss_world st') = sv_now V (ss_world st)
          \<and> (e \<in> {StoreFailure BeginTransaction, StoreFailure AppendEvents, StoreFailure CommitTransaction}
             \<or> (\<exists>(sid, v) \<in> set (expected_versions w). e = VersionConflict sid v (vlen (sqlite_history V E st sid))
                  \<and> v \<noteq> vlen (sqlite_history V E st sid))))"
proof (cases r)
  case (Inl e)
  have "\<forall>en \<in> set (entries w). hm_get (expected_versions w) (we_stream_id en) \<noteq> None"
    using assms(2) by (simp add: wf_writes_def map_of_eq_None_iff)
  moreover note sqlite_append_cases [OF assms(1) assms(4) [unfolded Inl]]
  ultimately show ?thesis using Inl events_kept [OF assms(1), of st'] by (auto simp: append_failure_def)
next
  case (Inr u)
  then have "sqlite_append_events X st w = (Inr u, st')" using assms(4) by simp
  then show ?thesis
    using Inr sqlite_append_cases [OF assms(1)] sqlite_append_view [OF assms(1-3)] by fastforce
qed

theorem sqlite_append_outcomes_witness:
  "fst (sqlite_append_events sample_sqlite sqlite_empty rival_batch) = Inr ()
   \<and> sqlite_history table_view deposit_event (snd (sqlite_append_events sample_sqlite sqlite_empty rival_batch)) account_a
      = [(account_a, 7)]
   \<and> fst (sqlite_append_events silent_sqlite sqlite_empty rival_batch) = Inl (StoreFailure AppendEvents)
   \<and> sv_now table_view (ss_world (snd (sqlite_append_events silent_sqlite sqlite_empty rival_batch)))
      = sv_now table_view (ss_world sqlite_empty)"
proof -
  let ?r = "sqlite_append_events sample_sqlite sqlite_empty rival_batch"
  let ?s = "sqlite_append_events silent_sqlite sqlite_empty rival_batch"
  have typed: "\<forall>en \<in> set (entries rival_batch). typed_entry deposit_event en"
    by (simp add: typed_entry_def sample_defs)
  have wf: "wf_writes rival_batch" by (simp add: wf_writes_def sample_defs)
  have ok: "fst ?r = Inr ()" and failed: "fst ?s = Inl (StoreFailure AppendEvents)" by code_simp+
  note committed = sqlite_append_outcomes [OF sqlite_empty_inv wf typed prod.collapse [symmetric]]
  note kept = sqlite_append_outcomes [OF silent_empty_inv wf typed prod.collapse [symmetric]]
  have "events_for (entries rival_batch) account_a = [(account_a, 7)]"
    by (simp add: events_for_def sample_defs)
  then show ?thesis using committed kept unfolding ok failed by simp
qed

text \<open>
  C31. A projection over the SQLite back end resumes: any number of batch runs of a projector, however each of
  them ends and whatever the other tasks append between their steps, saves the positions of a prefix of the
  events that were waiting after the first checkpoint, in the order of the identifiers, each once; the
  checkpoint in the table is the last of them; and every run returns.
\<close>

theorem sqlite_projection_resumes:
  fixes X :: "('w, 'x, 'json) sqlite_env"
  assumes "sqlite_projectable X V like glob E N st" and "\<forall>(s, sched) \<in> set runs. good_schedule (typed_entry E) sched"
    and "\<not> pc_continuous cfg" and "1000 * (unat (pc_event_retry_max_attempts cfg) + 1) + 2 < fuel"
    and "sqlite_load_checkpoint X st (pj_name pj) = Inr cp"
  shows "\<exists>ps st'. batch_runs fd (sqlite_backend show_read show_checkpoint show_lock X E) fuel pj cfg
        (map (\<lambda>(s, sched). (s, sqlite_writers X N sched)) runs) st = Some (ps, st')
    \<and> sqlite_load_checkpoint X st' (pj_name pj) = Inr (if ps = [] then cp else Some (last ps))
    \<and> prefix ps (map snd (unseen (sqlite_chosen X V like glob E st' (own_events pj)) cp))"
proof -
  let ?be = "sqlite_backend show_read show_checkpoint show_lock X E"
  have env: "\<forall>(s, env) \<in> set (map (\<lambda>(s, sched). (s, sqlite_writers X N sched)) runs).
      good_env (pb_load ?be) (sqlite_projectable X V like glob E N) (sqlite_chosen X V like glob E) (pj_name pj) env"
    using assms(2) by (auto intro: sqlite_writers_env)
  have fuel: "unat page_size * (unat (pc_event_retry_max_attempts cfg) + 1) + 2 < fuel"
    using assms(4) by (simp add: page_size_def)
  have cp: "pb_load ?be st (pj_name pj) = Inr cp" using assms(5) by (simp add: sqlite_backend_def)
  obtain ps st' where run: "batch_runs fd ?be fuel pj cfg (map (\<lambda>(s, sched). (s, sqlite_writers X N sched)) runs) st
      = Some (ps, st')" and st': "sqlite_projectable X V like glob E N st'"
      "pb_load ?be st' (pj_name pj) = Inr (checkpoint_after cp ps)"
      "prefix ps (map snd (unseen (sqlite_chosen X V like glob E st' (own_events pj)) cp))"
    using sqlite_proj.batch_runs_resume [OF env assms(1,3) fuel cp, where fd = fd] by blast
  obtain c where c: "sqlite_load_checkpoint X st' (pj_name pj) = Inr c" using sqlite_load_succeeds [OF st'(1)] by blast
  then have "c = checkpoint_after cp ps" using st'(2) by (simp add: sqlite_backend_def)
  then show ?thesis using run st'(3) c by (simp add: checkpoint_after_def)
qed

definition sqlite_log :: "table_world sqlite_store" where
  "sqlite_log = sqlite_writer sample_sqlite 900 three_deposits sqlite_empty"

lemma sample_sqlite_texts: "text_laws sample_sqlite"
  by (auto simp: text_laws_def sqlite_uuid_laws_def sample_sqlite_def sample_parse_uuid_def word_less_nat_alt)

lemma sqlite_empty_projectable: "sqlite_projectable sample_sqlite table_view like_match glob_literal deposit_event 900 sqlite_empty"
proof -
  have "sample_clock (Suc i) < sample_clock (Suc (Suc i))" if "i < 900" for i
  proof -
    have "Suc i < 1000" using that by simp
    then show ?thesis using sample_clock_ok unfolding clock_ok_def by blast
  qed
  moreover have "se_now_v7 sample_sqlite = (\<lambda>i. sample_clock (Suc i))" by (simp add: sample_sqlite_def sample_clock_def)
  ultimately have "clock_ok (se_now_v7 sample_sqlite) 900" unfolding clock_ok_def by simp
  moreover have "checkpoints_written table_view (se_connection sample_sqlite)"
    by (simp add: checkpoints_written_def sample_sqlite_def table_connection_def table_execute_def letters Let_def)
  moreover have "sqlite_pages table_view (se_connection sample_sqlite) like_match glob_literal"
    using table_pages by (simp add: sample_sqlite_def)
  moreover have "checkpoints_read table_view (se_connection sample_sqlite)"
    using table_checkpoints by (simp add: sample_sqlite_def)
  ultimately show ?thesis
    using sqlite_empty_inv sample_sqlite_texts
    by (simp add: sqlite_projectable_def increasing_ids_def checkpoints_ok_def sqlite_empty_def sqlite_from_connection_def
        no_tables_def table_view_def)
qed

theorem sqlite_projection_resumes_witness:
  "\<exists>ps st'. batch_runs sample_delay (sqlite_backend (\<lambda>_. []) (\<lambda>_. []) (\<lambda>_. []) sample_sqlite deposit_event) 5000
       (collector Fatal) sample_config
       (map (\<lambda>(s, sched). (s, sqlite_writers sample_sqlite 900 sched)) [([], rival_schedule), ([], \<lambda>_. [])]) sqlite_log
     = Some (ps, st')
     \<and> sqlite_load_checkpoint sample_sqlite st' [112] = Inr (if ps = [] then None else Some (last ps))"
proof -
  have good: "good_batch (typed_entry deposit_event) three_deposits"
    by (auto simp: good_batch_def wf_writes_def typed_entry_def three_deposits_def sample_defs)
  note kept = sqlite_writer_keeps [OF sqlite_empty_projectable good, folded sqlite_log_def]
  have runs: "\<forall>(s, sched) \<in> set [([] :: nat list, rival_schedule), ([], \<lambda>_. [])].
      good_schedule (typed_entry deposit_event) sched"
    using sample_schedule_typed by (simp add: good_schedule_def)
  have "checkpoints_read table_view (se_connection sample_sqlite)" using table_checkpoints by (simp add: sample_sqlite_def)
  then have "sqlite_load_checkpoint sample_sqlite sqlite_empty n = Inr None" for n
    by (simp add: sqlite_load_checkpoint_def sqlite_checkpoint_load_eq [of table_view] sqlite_empty_def sqlite_from_connection_def
        no_tables_def table_view_def)
  then have cp: "sqlite_load_checkpoint sample_sqlite sqlite_log (pj_name (collector Fatal)) = Inr None" using kept by simp
  have cfg: "\<not> pc_continuous sample_config" "1000 * (unat (pc_event_retry_max_attempts sample_config) + 1) + 2 < 5000"
    by (simp_all add: sample_config_def projection_config_default_def event_retry_config_default_def Let_def)
  have "pj_name (collector Fatal) = [112]" by (simp add: collector_def)
  then show ?thesis
    using sqlite_projection_resumes [OF conjunct1 [OF kept] runs cfg cp, where fd = sample_delay
        and show_read = "\<lambda>_. []" and show_checkpoint = "\<lambda>_. []" and show_lock = "\<lambda>_. []"] by metis
qed

end
