(* ===== verification/Spec2Isabelle.thy ===== *)
theory Spec2Isabelle
  imports Memory_Properties Command_Properties Projection_Properties Fs_Replica_Properties
    Model_Checker_Properties Modeled_Runtime Contract_Memory Transactional_Properties Sqlite_Properties
begin

text \<open>
  A verification library for eventcore, an event-sourcing library in Rust: commands read streams of
  events, decide new events and append them under optimistic concurrency; projections read the global
  order of events and keep a checkpoint; stores implement both sides.

  The program's parts and how they meet:

  \<^item> \<open>eventcore-types\<close>: identifiers, batches (\<open>StreamWrites\<close>), errors, the traits \<open>EventStore\<close>,
    \<open>CommandLogic\<close>, \<open>EventReader\<close>, \<open>Projector\<close>, \<open>CheckpointStore\<close> and \<open>ProjectorCoordinator\<close>.
  \<^item> \<open>eventcore\<close>: \<open>execute\<close> drives a command against an \<open>EventStore\<close> with retries and, when the command
    asks for it, a state snapshot; \<open>run_projection\<close> drives a \<open>Projector\<close> against a reader, a checkpoint
    store and a coordinator; \<open>model.rs\<close> checks modeled applications and adapts their commands and
    projections to the two runners.
  \<^item> \<open>eventcore-memory\<close>, \<open>eventcore-fs\<close> and \<open>eventcore-sqlite\<close>: three back ends. The file back end writes one
    transaction file per append, merges the files of other replicas through git, and orders them by their parent
    links. The SQLite back end keeps events, snapshots and checkpoints in tables and appends in transactions.
  \<^item> \<open>eventcore-postgres/src/projections\<close>: transactional projections, which commit each event's effect on a read
    model in PostgreSQL together with the progress behind it.

  Theories, from the bottom:

  \<^item> \<open>Prelude\<close>, \<open>Ordered_Maps\<close>: machine integers, strings as code points, \<open>HashMap\<close> and \<open>BTreeMap\<close> as
    association lists, \<open>Result\<close> as a sum, \<open>try_fold\<close>.
  \<^item> \<open>Streams\<close>, \<open>Writes\<close>, \<open>Reading\<close>: the vocabulary of \<open>eventcore-types/src\<close> (\<open>store.rs\<close>, \<open>command.rs\<close>,
    \<open>errors.rs\<close>, \<open>snapshot.rs\<close>, \<open>projection.rs\<close>, \<open>validation.rs\<close>): validated identifiers, batches and their
    builder, cursors, pages, filters.
  \<^item> \<open>Store_Contracts\<close>: the contracts of the back ends as locales (\<open>event_store\<close>, \<open>snapshot_event_store\<close>,
    the checkpoint store, the coordinator). Reads and appends may fail, and an append may fail after its events
    are stored; \<open>strict_event_store\<close> adds that a failing append stores nothing. \<open>Projection_Contract\<close> adds the
    reader and the back end of a projection, \<open>Projection_Progress\<close> a back end whose leadership comes free again
    and \<open>tolerant\<close>, a projector that handles every event within the retry limit.
  \<^item> \<open>Retry_Policy\<close>, \<open>Execute_Pipeline\<close>, \<open>Execute\<close>, \<open>Snapshot_Execute\<close>: \<open>eventcore/src/lib.rs\<close>,
    \<open>effects.rs\<close> and \<open>execute_pipeline.rs\<close>. The pipeline is a state machine whose steps yield effects;
    the shell performs them. Other tasks act between the effects: a schedule gives the batches that they
    append before the \<open>i\<close>-th one. \<open>Execute_Correct\<close>, \<open>Execute_Runs\<close>, \<open>Execute_Termination\<close>,
    \<open>Snapshot_Runs\<close>, \<open>Snapshot_Attempts\<close> and \<open>Snapshot_Serializable\<close>
    prove both paths once, inside the store's contract.
  \<^item> \<open>Memory_Store\<close>, \<open>Memory_Correct\<close>, \<open>Memory_Projection\<close>: \<open>eventcore-memory/src/lib.rs\<close>,
    its invariant, and the interpretation of every contract on it.
  \<^item> \<open>Projection_Pipeline\<close>: \<open>eventcore/src/projection_pipeline.rs\<close> and \<open>projection.rs\<close>.
    \<open>Projection_Runs\<close> shows that the state machine implements \<open>deliver_all\<close>, a direct
    description of a page's delivery; \<open>Projection_Resume\<close> and \<open>Projection_Progress\<close>
    compose runs.
  \<^item> \<open>Sqlite_Store\<close>: \<open>eventcore-sqlite/src/lib.rs\<close>, with SQLite as the dictionary \<open>sqlite_connection\<close>: the text
    of each statement and its bound values go in, rows or an error come out, and the world is the connection with
    its database. \<open>Sqlite_Correct\<close> states what SQLite documents of these statements over abstract tables
    (\<open>sqlite_laws\<close>) and interprets the store contract; \<open>Sqlite_Projection\<close> the contract of a projection.
  \<^item> \<open>Transaction_Graph\<close>, \<open>Fs_Merge\<close>, \<open>Fs_Linearize\<close>, \<open>Fs_Text\<close>, \<open>Fs_Format\<close>, \<open>Fs_Ingestion\<close>, \<open>Fs_Index\<close>,
    \<open>Fs_Config\<close>, \<open>Fs_Store\<close>, \<open>Fs_Coordination\<close>, \<open>Fs_Reconcile\<close>: \<open>eventcore-fs/src\<close>, file by file (\<open>merge.rs\<close>,
    \<open>index.rs\<close>, \<open>format.rs\<close>, \<open>ingestion.rs\<close>, \<open>config.rs\<close>, \<open>replica.rs\<close>, \<open>lib.rs\<close>, \<open>coordination.rs\<close>, \<open>error.rs\<close>).
    \<open>Fs_Index_Correct\<close>, \<open>Fs_Store_Correct\<close>, \<open>Fs_Synced\<close>, \<open>Fs_Restart\<close>, \<open>Fs_Converge\<close>, \<open>Fs_Steps\<close>, \<open>Fs_Anchors\<close>,
    and \<open>Fs_Projection\<close> relate index, log and files over appends, merges and restarts.
  \<^item> \<open>Model_Checker\<close>, \<open>Model_Checker_Correct\<close>, \<open>Model_Checker_Verdict\<close>, \<open>Model_Registration\<close>: the
    information-completeness checker of \<open>eventcore/src/model.rs\<close> and its specification \<open>provided\<close>.
    \<open>Modeled_Runtime\<close>: the adapters of the same file, and their property.
  \<^item> \<open>Contract_Suite\<close>: the back end contract suite of \<open>eventcore-testing/src/contract.rs\<close>, every scenario over the
    dictionaries of the traits. \<open>Contract_Batches\<close>, \<open>Contract_Filters\<close> and \<open>Contract_Services\<close>
    prove that a back end of the contracts passes it, \<open>Contract_Memory\<close> that the in-memory one is such a back end.
  \<^item> \<open>Actions\<close>: fallible actions on a state and their weakest preconditions, which the contract suite, the
    SQLite back end and the transactional runner are written in.
  \<^item> \<open>Delivery\<close>: \<open>eventcore-types/src/projection_delivery.rs\<close>. \<open>Transactional_Store\<close> and \<open>Transactional_Runner\<close>: the
    runner of transactional projections, \<open>eventcore-postgres/src/projections\<close> (\<open>store.rs\<close>, \<open>config.rs\<close>, \<open>error.rs\<close>,
    \<open>projector.rs\<close>; \<open>runner.rs\<close>, \<open>reset.rs\<close>). PostgreSQL is the dictionary \<open>projection_database\<close>, whose calls act on
    a world that holds the session, its open transaction and whatever other sessions do. \<open>Transactional_Laws\<close>
    states what a run relies on, and the relation \<open>handled\<close> between a world and the decisions that its committed
    model and progress stand for; \<open>Transactional_Envelope\<close>, \<open>Transactional_Pages\<close>, \<open>Transactional_Cycles\<close>, \<open>Transactional_Run\<close> and \<open>Transactional_Reset\<close> carry it through a
    call, an envelope, a page, a cycle, a run, a reset and a history of them.
  \<^item> \<open>Sample_Command\<close>, \<open>Sample_Projection\<close>, \<open>Fs_Sample\<close>, \<open>Sample_Transactional\<close>: a small bank, a line format and a
    destination in memory on which the properties are instantiated.

  The properties, C1 to C40, stand in this theory and in \<open>Memory_Properties\<close>, \<open>Command_Properties\<close>,
  \<open>Projection_Properties\<close>, \<open>Fs_Store_Properties\<close>, \<open>Fs_Graph_Properties\<close>, \<open>Fs_Replica_Properties\<close>,
  \<open>Model_Checker_Properties\<close>, \<open>Modeled_Runtime\<close>, \<open>Contract_Memory\<close>, \<open>Transactional_Properties\<close> and \<open>Sqlite_Properties\<close>. The groups: serializability and termination of
  \<open>execute\<close> over the three back ends, and what it leaves behind when it fails; atomic appends, version checks and
  their failures; declarations, batches and retry delays; delivery, resumption, progress and stopping of projections; the canonical
  order, forks, file format, restarts and convergence of file replicas; the verdict of the checker; the contract
  suite; exactly-once effects, outcomes, termination and reset of transactional projections.

  Bounds. Versions, offsets and sequence numbers are 64-bit words; \<open>small\<close> and the bounds on the ingestion
  log say that fewer than \<open>2 ^ 64\<close> events exist. Clocks are streams of identifiers that increase up to a
  bound \<open>N\<close> of calls. Loops that the code does not bound take fuel: \<open>execute\<close> has an explicit sufficient
  number of effects (\<open>effects_left\<close>, \<open>attempts\<close> times \<open>streams\<close>), a batch run needs
  \<open>events * (attempts + 1) + 2\<close> steps, the checker's search at most the number of fields, the depth of a
  transaction at most the number of headers, a transactional batch run a page per event up to the mark; the
  termination properties prove that these are enough.

  Parameters, each with its documented behaviour as a named hypothesis where a property needs it:
  \<open>serde_json\<close> (\<open>serde_laws\<close>, \<open>value_laws\<close>, \<open>decodes\<close>), SHA-256, \<open>Uuid::now_v7\<close>, \<open>chrono\<close>, glob matching,
  random jitter and the floating-point backoff, and the answers of the file system, where a failed write
  leaves a prefix of the text. A poisoned mutex is a flag of the state. For transactional projections
  (\<open>job_laws\<close>, \<open>reset_laws\<close>): a transaction starts from what is committed and takes effect at its commit, an
  unacknowledged commit happened or did not, and while a runner works no other session writes the projector's
  row and read model, which is what the advisory lock is for; a crash is a failing call. For SQLite (\<open>sqlite_laws\<close>, \<open>sqlite_pages\<close>): a
  query sees the tables or fails, at once or after some of its rows, a statement changes them or fails, and a
  transaction that does not commit leaves them as they were; the resumption of projections assumes in addition that
  page queries and checkpoint statements succeed. The writes of the file store may all fail, the ingestion log's
  included; \<open>logs_written\<close>, that the log's do not, is a hypothesis only of what relates a running store to its
  restart and to its replicas. \<open>json_laws\<close> and \<open>text_laws\<close> are the round trips of \<open>serde_json\<close> and \<open>uuid\<close>.

  Not modelled: \<open>eventcore-postgres/src/lib.rs\<close> and the delivery source of \<open>eventcore-postgres\<close>, whose behaviour
  is that of PostgreSQL triggers and functions; its migrations and connection pools; the failure of a blocking
  task of the runtime in \<open>eventcore-sqlite\<close> and \<open>eventcore-fs\<close>; \<open>eventcore-macros\<close>, which rewrites token streams; the projection suite and the helpers of
  \<open>eventcore-testing\<close>, the stress runner, the demo, the examples and the benches, which are tests and
  applications; tracing and metrics calls, which have no effect on results; the typestates of the generated
  builders.
\<close>

section \<open>Executing a command\<close>

text \<open>
  C1. Serializability of \<open>execute\<close> on the in-memory store, with or without a state snapshot, whatever
  other writers commit at its await points: when it returns a response, there is a moment at which
  the command's whole read was consistent with the store (every declared stream and every stream the
  resolver asked for, folded into the state the handler decided on) and its events, and only they,
  were appended at exactly that moment; and the response counts at least one attempt and at most one
  more than the policy's retries.
\<close>

theorem execute_serializable:
  assumes "ready E c st" and "good_schedule (well_typed E) sched" and "rp_max_retries policy \<noteq> - 1"
    and "execute (memory_ops now_v7 E) sched jitter fuel c policy st = Some (ExecOk resp, hooks, st')"
    and "small (mem_view st')"
  shows "mem_inv E st' \<and> 1 \<le> unat (er_attempts resp)
    \<and> unat (er_attempts resp) \<le> Suc (unat (rp_max_retries policy))
    \<and> (\<exists>v ids s events. extends (mem_view st) v \<and> commits c v (mem_view st') ids s events)"
  using execute_memory_sound [OF assms] by simp

theorem execute_serializable_witness:
  "\<exists>v ids s events. extends (mem_view (memory_new :: (deposit, nat) store_data)) v
     \<and> commits snapshot_command v (mem_view (final_store (sample_run rival_schedule snapshot_command)))
         ids s events"
proof -
  note run = snapshot_run_rival [unfolded sample_run_def [of rival_schedule snapshot_command]]
  note ex = execute_serializable [OF snapshot_ready rival_good sample_policy_retries run
      sample_run_small(2) [unfolded sample_run_def]]
  show ?thesis using ex unfolding sample_run_def by (elim conjE)
qed

text \<open>
  C2. \<open>execute\<close> without a snapshot always returns: when the declared streams and the streams the
  resolver can ask for stay within a finite set, \<open>(max_retries + 1) * (streams + 2)\<close> effects are
  enough whatever the other writers do, and the result is a response or an error, never one of the
  pipeline's panics.
\<close>

theorem execute_returns:
  assumes "ready E c st" and "cmd_snapshot_id c = None" and "stays_within c U"
    and "good_schedule (well_typed E) sched"
    and "rp_max_retries policy \<noteq> - 1" and "enough_fuel c policy U \<le> fuel"
  shows "\<exists>r hooks st'. execute (memory_ops now_v7 E) sched jitter fuel c policy st = Some (r, hooks, st')
    \<and> r \<noteq> ExecPanic"
proof -
  have r: "good_command (well_typed E) c" "mem_inv E st"
    using assms(1) by (simp_all add: ready_def typed_command_good)
  obtain res p st' where "execute_run (memory_ops now_v7 E) sched jitter fuel c policy st = Some (res, p, st')"
    "res \<noteq> ExecPanic"
    using mem.execute_terminates [OF assms(3) r(1) assms(4,5) r(2) assms(6)] by force
  then show ?thesis using assms(2) by (simp add: execute_def)
qed

theorem execute_returns_witness:
  "\<exists>r hooks st'. execute (memory_ops sample_clock deposit_event) rival_schedule (\<lambda>_ d. d) 12
     deposit_command sample_policy memory_new = Some (r, hooks, st') \<and> r \<noteq> ExecPanic"
  by (rule execute_returns [OF deposit_ready _ deposit_within rival_good sample_policy_retries])
     (simp_all add: deposit_command_def sample_policy_def enough_fuel_def account_a_def account_b_def)

text \<open>
  C3. The snapshot path returns too: with a genuine or no stored snapshot and enough fuel, it neither
  panics (on an empty discovery queue, a missing version of a checkpoint, a zero attempt) nor
  runs out of fuel, as long as no history reaches \<open>2 ^ 64\<close> events.
\<close>

theorem snapshot_execute_returns:
  assumes "ready E c st" and "cmd_snapshot_id c = Some i" and "stays_within c U"
    and "good_schedule (well_typed E) sched" and "rp_max_retries policy \<noteq> - 1"
    and "card U < fuel" and "unat (rp_max_retries policy) < rounds"
    and "execute_with_snapshot (memory_ops now_v7 E) sched jitter fuel rounds c policy i
      (decl_streams (cmd_declarations c)) st = (out, hooks, (t, st'))"
    and "small (mem_view st')"
  shows "out \<noteq> Panicked \<and> out \<noteq> OutOfFuel"
proof -
  have r: "mem_inv E (snd (0 :: nat, st))" "good_command (well_typed E) c" "faithful_serialization c"
    "distinct (decl_streams (cmd_declarations c))" "genuine_stored mem_view mem_stored c i (snd (0 :: nat, st))"
    using assms(1,2) by (simp_all add: ready_def typed_command_good wf_declarations_def)
  have fuel: "True \<longrightarrow> stays_within c U \<and> card U < fuel" using assms(3,6) by simp
  have le: "(0::u32) \<le> rp_max_retries policy" by simp
  have small': "small (mem_view (snd (t, st')))" using assms(9) by simp
  show ?thesis
    using mem_snap.attempts_sound [OF assms(4) r(2,3,4) assms(5) fuel r(1,5) le
        assms(8) [unfolded execute_with_snapshot_def] small'] assms(7)
    by auto
qed

theorem snapshot_execute_returns_witness:
  "fst (execute_with_snapshot (memory_ops sample_clock deposit_event) rival_schedule (\<lambda>_ d. d) 12 12
     snapshot_command sample_policy [115] [account_a] memory_new) \<noteq> OutOfFuel"
proof -
  let ?r = "execute_with_snapshot (memory_ops sample_clock deposit_event) rival_schedule (\<lambda>_ d. d) 12 12
     snapshot_command sample_policy [115] [account_a] (memory_new :: (deposit, nat) store_data)"
  have decl: "decl_streams (cmd_declarations snapshot_command) = [account_a]"
    by (simp add: snapshot_command_def deposit_command_def)
  have r: "execute_with_snapshot (memory_ops sample_clock deposit_event) rival_schedule (\<lambda>_ d. d) 12 12
     snapshot_command sample_policy [115] (decl_streams (cmd_declarations snapshot_command)) memory_new
      = (fst ?r, fst (snd ?r), (fst (snd (snd ?r)), snd (snd (snd ?r))))"
    by (simp add: decl)
  have st: "streams (snd (snd (snd ?r))) =
     [(account_a, ([(account_a, 7)], 1)), (account_b, ([(account_b, 8)], 1))]"
    unfolding account_a_def account_b_def by code_simp
  have small: "small (mem_view (snd (snd (snd ?r))))"
    by (simp add: small_def mem_view_def st)
  have "card {account_a, account_b} < 12" "unat (rp_max_retries sample_policy) < 12"
    by (simp_all add: account_a_def account_b_def sample_policy_def)
  from snapshot_execute_returns [OF snapshot_ready _ snapshot_within rival_good sample_policy_retries this r small]
  show ?thesis by (simp add: snapshot_command_def)
qed

text \<open>
  C7. A run of the pipeline on the in-memory store is all or nothing, whatever other writers commit at
  its await points: when it ends in an error, whatever the error and however many attempts conflicted,
  the store is exactly what the other writers alone would have made of it; when it returns a response,
  the store is what the others alone had made of it at some await point, with exactly the command's
  own commit on top, decided on the histories of that moment.
\<close>

theorem execute_all_or_nothing:
  assumes "ready E c st" and "cmd_snapshot_id c = None" and "good_schedule (well_typed E) sched"
    and "rp_max_retries policy \<noteq> - 1"
    and "execute (memory_ops now_v7 E) sched jitter fuel c policy st = Some (r, hooks, st')"
    and "small (mem_view st')"
  shows "\<exists>n < fuel. let alone = others_alone (memory_ops now_v7 E) sched 0 n st in
    (case r of
      ExecErr e \<Rightarrow> st' = alone
    | ExecOk resp \<Rightarrow> \<exists>ids s events. commits c (mem_view alone) (mem_view st') ids s events
    | ExecPanic \<Rightarrow> False)"
proof -
  have r: "mem_inv E st" "good_command (well_typed E) c"
    using assms(1) by (simp_all add: ready_def typed_command_good)
  obtain p where run: "execute_run (memory_ops now_v7 E) sched jitter fuel c policy st = Some (r, p, st')"
    by (rule execute_pipeline_path [OF assms(2,5)])
  have bound: "length (mem_view st' sid) < 2 ^ 64" for sid using assms(6) unfolding small_def by blast
  have "\<exists>n < fuel. leaves c mem_view (others_alone (memory_ops now_v7 E) sched 0 n st) st' r"
    using r(1) run_ok_start r(2) assms(3,4) memory_append_kept run [unfolded execute_run_def] bound
    by (rule mem.drive_leaves)
  then show ?thesis by (cases r) simp_all
qed

theorem execute_all_or_nothing_witness:
  "fst (the (sample_run stubborn_rivals deposit_command)) = ExecErr (ConcurrencyError 2)
   \<and> (\<exists>n < 12. final_store (sample_run stubborn_rivals deposit_command)
        = others_alone (memory_ops sample_clock deposit_event) stubborn_rivals 0 n memory_new)"
proof -
  note run = exhausted_run_result [unfolded sample_run_def]
  have none: "cmd_snapshot_id deposit_command = None" by (simp add: deposit_command_def)
  have "fst (the (sample_run stubborn_rivals deposit_command)) = ExecErr (ConcurrencyError 2)"
    using arg_cong [OF exhausted_run_result, of "\<lambda>r. fst (the r)"] by simp
  then show ?thesis
    using execute_all_or_nothing [OF deposit_ready none stubborn_good sample_policy_retries run
        sample_run_small(3) [unfolded sample_run_def]]
    by (simp add: sample_run_def)
qed

end
